(* ===== verification/Prelude.thy ===== *)
theory Prelude
  imports Complex_Main "HOL-Library.Signed_Division"
begin

text \<open>
  What every component of the model shares: the ways a C expression can go wrong
  (\<open>fault\<close>), the result type of a computation that may go wrong (\<open>'a res\<close>) and its
  sequencing, the checked signed arithmetic of \<^verbatim>\<open>int\<close>, \<^verbatim>\<open>long\<close> and \<^verbatim>\<open>long long\<close>,
  bounds-checked array accesses, and the generic lemmas and fact collections that the
  component theories use.  An operation of the source whose behaviour the C standard leaves
  undefined, an assertion that fails and a call of \<^verbatim>\<open>abort()\<close> are values of the model, so
  that their absence is something to prove.
\<close>

section \<open>Faults and results\<close>

datatype fault =
    Overflow          \<comment> \<open>signed integer overflow\<close>
  | Div_by_zero       \<comment> \<open>integer division by zero\<close>
  | Out_of_bounds     \<comment> \<open>an array or buffer access outside the object\<close>
  | Null_deref        \<comment> \<open>a null pointer is dereferenced\<close>
  | Float_range       \<comment> \<open>a floating value outside the integer type it is converted to\<close>
  | Assert_failed     \<comment> \<open>\<^verbatim>\<open>assert\<close> fails\<close>
  | Abort_called      \<comment> \<open>\<^verbatim>\<open>abort()\<close>\<close>
  | Uninitialised     \<comment> \<open>an indeterminate value is read\<close>
  | Self_deadlock     \<comment> \<open>a thread locks a mutex that it already holds\<close>

type_synonym 'a res = "fault + 'a"

definition bind_res :: "'a res \<Rightarrow> ('a \<Rightarrow> 'b res) \<Rightarrow> 'b res" where
  "bind_res m k = (case m of Inl e \<Rightarrow> Inl e | Inr x \<Rightarrow> k x)"

definition guard_res :: "fault \<Rightarrow> bool \<Rightarrow> unit res" where
  "guard_res e b = (if b then Inr () else Inl e)"

named_theorems res_simps "evaluation of computations that may fault"
named_theorems inv_intros "invariants kept by the operations"

lemma bind_res_Inl [simp]: "bind_res (Inl e) k = Inl e"
  by (simp add: bind_res_def)

lemma bind_res_Inr [simp]: "bind_res (Inr x) k = k x"
  by (simp add: bind_res_def)

lemma bind_res_Inr_iff: "bind_res m k = Inr y \<longleftrightarrow> (\<exists>x. m = Inr x \<and> k x = Inr y)"
  by (cases m) auto

lemma bind_res_Inl_iff:
  "bind_res m k = Inl e \<longleftrightarrow> m = Inl e \<or> (\<exists>x. m = Inr x \<and> k x = Inl e)"
  by (cases m) auto

lemma bind_res_assoc: "bind_res (bind_res m k) h = bind_res m (\<lambda>x. bind_res (k x) h)"
  by (cases m) auto

lemma guard_res_Inr_iff [simp]: "guard_res e b = Inr u \<longleftrightarrow> b"
  by (simp add: guard_res_def)

lemma guard_res_Inl_iff [simp]: "guard_res e b = Inl f \<longleftrightarrow> \<not> b \<and> f = e"
  by (auto simp: guard_res_def)

lemma guard_res_True [simp]: "guard_res e True = Inr ()"
  by (simp add: guard_res_def)

lemma guard_res_False [simp]: "guard_res e False = Inl e"
  by (simp add: guard_res_def)

section \<open>Signed machine integers\<close>

text \<open>
  The source runs on targets with 32-bit \<^verbatim>\<open>int\<close> and 64-bit \<^verbatim>\<open>long\<close> and \<^verbatim>\<open>long long\<close>.  A value
  is an \<open>int\<close> in the range of its type; an operation whose exact result leaves the range is
  undefined behaviour, the fault \<open>Overflow\<close>.
\<close>

abbreviation INT_MAX :: int where "INT_MAX \<equiv> 2147483647"
abbreviation LLONG_MAX :: int where "LLONG_MAX \<equiv> 9223372036854775807"

definition is_int :: "int \<Rightarrow> bool" where
  "is_int x \<longleftrightarrow> - 2147483648 \<le> x \<and> x \<le> 2147483647"

definition is_ll :: "int \<Rightarrow> bool" where
  "is_ll x \<longleftrightarrow> - 9223372036854775808 \<le> x \<and> x \<le> 9223372036854775807"

definition chk_int :: "int \<Rightarrow> int res" where
  "chk_int x = (if is_int x then Inr x else Inl Overflow)"

definition chk_ll :: "int \<Rightarrow> int res" where
  "chk_ll x = (if is_ll x then Inr x else Inl Overflow)"

text \<open>\<^verbatim>\<open>/\<close> and \<^verbatim>\<open>%\<close> truncate towards zero; the quotient can overflow, \<^verbatim>\<open>LLONG_MIN / -1\<close>.\<close>

definition div_ll :: "int \<Rightarrow> int \<Rightarrow> int res" where
  "div_ll a b = (if b = 0 then Inl Div_by_zero else chk_ll (a sdiv b))"

definition div_int :: "int \<Rightarrow> int \<Rightarrow> int res" where
  "div_int a b = (if b = 0 then Inl Div_by_zero else chk_int (a sdiv b))"

text \<open>The conversion of a \<^verbatim>\<open>long\<close> to \<^verbatim>\<open>int\<close> keeps the low 32 bits.\<close>

definition to_int32 :: "int \<Rightarrow> int" where
  "to_int32 x = (x + 2147483648) mod 4294967296 - 2147483648"

lemma chk_int_Inr [simp]: "chk_int x = Inr y \<longleftrightarrow> is_int x \<and> y = x"
  by (auto simp: chk_int_def)

lemma chk_ll_Inr [simp]: "chk_ll x = Inr y \<longleftrightarrow> is_ll x \<and> y = x"
  by (auto simp: chk_ll_def)

lemma chk_int_Inl [simp]: "chk_int x = Inl e \<longleftrightarrow> \<not> is_int x \<and> e = Overflow"
  by (auto simp: chk_int_def)

lemma chk_ll_Inl [simp]: "chk_ll x = Inl e \<longleftrightarrow> \<not> is_ll x \<and> e = Overflow"
  by (auto simp: chk_ll_def)

lemma chk_int_ok: "is_int x \<Longrightarrow> chk_int x = Inr x"
  by simp

lemma chk_ll_ok: "is_ll x \<Longrightarrow> chk_ll x = Inr x"
  by simp

lemma is_int_is_ll: "is_int x \<Longrightarrow> is_ll x"
  by (simp add: is_int_def is_ll_def)

lemma to_int32_id [simp]: "is_int x \<Longrightarrow> to_int32 x = x"
  by (simp add: to_int32_def is_int_def)

lemma to_int32_range: "is_int (to_int32 x)"
proof -
  have "0 \<le> (x + 2147483648) mod 4294967296 \<and> (x + 2147483648) mod 4294967296 < 4294967296"
    by simp
  then show ?thesis by (simp add: to_int32_def is_int_def)
qed

lemma sdiv_nonneg_eq: "0 \<le> a \<Longrightarrow> 0 < b \<Longrightarrow> a sdiv b = a div (b::int)"
  by (cases "a = 0") (simp_all add: signed_divide_int_def)

lemma smod_nonneg_eq: "0 \<le> a \<Longrightarrow> 0 < b \<Longrightarrow> a smod b = a mod (b::int)"
  by (cases "a = 0") (simp_all add: signed_modulo_int_def)

lemma abs_sdiv_le: "\<bar>a sdiv b\<bar> \<le> \<bar>a :: int\<bar>"
proof (cases "b = 0")
  case True
  then show ?thesis by (simp add: signed_divide_int_def)
next
  case False
  then have "0 \<le> \<bar>a\<bar> div \<bar>b\<bar>" "\<bar>a\<bar> div \<bar>b\<bar> \<le> \<bar>a\<bar>"
    using zdiv_mono2 [of "\<bar>a\<bar>" 1 "\<bar>b\<bar>"] by (simp_all add: pos_imp_zdiv_nonneg_iff)
  then show ?thesis
    by (auto simp: signed_divide_int_def abs_mult sgn_if)
qed

section \<open>Arrays\<close>

definition aread :: "'a list \<Rightarrow> int \<Rightarrow> 'a res" where
  "aread xs i = (if 0 \<le> i \<and> i < int (length xs) then Inr (xs ! nat i) else Inl Out_of_bounds)"

definition awrite :: "'a list \<Rightarrow> int \<Rightarrow> 'a \<Rightarrow> 'a list res" where
  "awrite xs i v = (if 0 \<le> i \<and> i < int (length xs) then Inr (xs[nat i := v]) else Inl Out_of_bounds)"

lemma aread_Inr [simp]:
  "aread xs i = Inr v \<longleftrightarrow> 0 \<le> i \<and> i < int (length xs) \<and> v = xs ! nat i"
  by (auto simp: aread_def)

lemma awrite_Inr [simp]:
  "awrite xs i v = Inr ys \<longleftrightarrow> 0 \<le> i \<and> i < int (length xs) \<and> ys = xs[nat i := v]"
  by (auto simp: awrite_def)

lemma aread_ok: "i < length xs \<Longrightarrow> aread xs (int i) = Inr (xs ! i)"
  by simp

lemma awrite_ok: "i < length xs \<Longrightarrow> awrite xs (int i) v = Inr (xs[i := v])"
  by simp

lemma take_Suc_update: "n < length xs \<Longrightarrow> take (Suc n) (xs[n := v]) = take n xs @ [v]"
  by (simp add: take_Suc_conv_app_nth)

section \<open>Counted loops\<close>

text \<open>
  A \<^verbatim>\<open>for\<close> loop over a fixed range: the body is run for each value of the loop variable, and a
  fault of the body ends the loop.
\<close>

fun for_res :: "'i list \<Rightarrow> ('i \<Rightarrow> 's \<Rightarrow> 's res) \<Rightarrow> 's \<Rightarrow> 's res" where
  "for_res [] f s = Inr s"
| "for_res (i # is) f s = bind_res (f i s) (for_res is f)"

lemma for_res_append: "for_res (xs @ ys) f s = bind_res (for_res xs f s) (for_res ys f)"
  by (induction xs arbitrary: s) (auto simp: bind_res_def split: sum.splits)

text \<open>The loop rule: an invariant indexed by the loop variable.\<close>

lemma for_res_inv:
  assumes "a \<le> b" and "P a s"
    and "\<And>i s. a \<le> i \<Longrightarrow> i < b \<Longrightarrow> P i s \<Longrightarrow> \<exists>s'. f i s = Inr s' \<and> P (Suc i) s'"
  shows "\<exists>s'. for_res [a..<b] f s = Inr s' \<and> P b s'"
  using assms
proof (induction b)
  case (Suc b)
  show ?case
  proof (cases "a \<le> b")
    case True
    have "\<exists>s'. for_res [a..<b] f s = Inr s' \<and> P b s'"
      using True Suc.prems(2) by (rule Suc.IH) (simp add: Suc.prems(3))
    then show ?thesis
      using True Suc.prems(3) [of b] by (fastforce simp: for_res_append upt_Suc_append simp del: upt_Suc)
  next
    case False
    with Suc.prems show ?thesis by (simp add: le_Suc_eq)
  qed
qed simp

text \<open>A loop that only accumulates a pure function.\<close>

lemma for_res_fold:
  "(\<And>i s. i \<in> set is \<Longrightarrow> f i s = Inr (g i s)) \<Longrightarrow> for_res is f s = Inr (fold g is s)"
  by (induction "is" arbitrary: s) simp_all

end
