(* ===== verification/IEEE_Float.thy ===== *)
theory IEEE_Float
  imports Prelude
begin

text \<open>
  The floating-point types of the source: \<^verbatim>\<open>double\<close> is IEEE 754 binary64 and \<^verbatim>\<open>float\<close> is
  binary32, both with round-to-nearest-even.  A finite value is the rational number it denotes;
  an operation computes the exact rational result and rounds it.  Infinities and NaN are values.
  The sign of zero is not kept: no modelled operation divides by a value that can be a negative
  zero (every divisor is a conversion of an integer or a positive constant).
\<close>

section \<open>Rounding\<close>

fun nlog2 :: "nat \<Rightarrow> nat" where
  "nlog2 n = (if n \<le> 1 then 0 else Suc (nlog2 (n div 2)))"

declare nlog2.simps [simp del]

text \<open>The exponent of a positive rational: the largest \<open>e\<close> with \<open>2 powi e \<le> x\<close>.\<close>

definition ilog2 :: "rat \<Rightarrow> int" where
  "ilog2 x = (if 1 \<le> x then int (nlog2 (nat \<lfloor>x\<rfloor>))
     else (let c = nat \<lceil>1 / x\<rceil>; k = int (nlog2 c) in if 2 ^ nlog2 c = c then - k else - k - 1))"

text \<open>Rounding to the nearest integer, ties to even.\<close>

definition rne :: "rat \<Rightarrow> int" where
  "rne x = (let f = \<lfloor>x\<rfloor>; d = x - of_int f in
     if d < 1 / 2 then f else if 1 / 2 < d then f + 1 else if even f then f else f + 1)"

text \<open>
  Rounding to a format with \<open>p\<close> significant bits and least exponent \<open>emin\<close>: \<open>quantum\<close> is the
  distance of neighbouring representable numbers around \<open>x\<close>.
\<close>

definition quantum :: "nat \<Rightarrow> int \<Rightarrow> rat \<Rightarrow> rat" where
  "quantum p emin x = 2 powi (max (ilog2 \<bar>x\<bar>) emin - (int p - 1))"

definition roundv :: "nat \<Rightarrow> int \<Rightarrow> rat \<Rightarrow> rat" where
  "roundv p emin x = (if x = 0 then 0 else of_int (rne (x / quantum p emin x)) * quantum p emin x)"

lemma nlog2_bounds: "0 < n \<Longrightarrow> 2 ^ nlog2 n \<le> n \<and> n < 2 ^ Suc (nlog2 n)"
proof (induction n rule: nlog2.induct)
  case (1 n)
  show ?case
  proof (cases "n \<le> 1")
    case True
    with 1 have "n = 1" by simp
    then show ?thesis by (simp add: nlog2.simps)
  next
    case False
    then have "0 < n div 2" by simp
    with False 1 have IH: "2 ^ nlog2 (n div 2) \<le> n div 2 \<and> n div 2 < 2 ^ Suc (nlog2 (n div 2))"
      by blast
    then have "2 * 2 ^ nlog2 (n div 2) \<le> n" "n < 2 * 2 ^ Suc (nlog2 (n div 2))"
      by linarith+
    with False show ?thesis by (subst (1 2) nlog2.simps) simp
  qed
qed


lemma powi2_bracket:
  fixes x :: rat
  assumes "e = - int n" and "1 / 2 ^ n \<le> x" and "x < 2 / 2 ^ n"
  shows "2 powi e \<le> x \<and> x < 2 powi (e + 1)"
proof -
  have "2 powi e = (1 / 2 ^ n :: rat)"
    using assms(1) by (simp add: power_int_minus_divide)
  moreover have "2 powi (e + 1) = 2 powi e * (2 :: rat)" by (simp add: power_int_add)
  ultimately show ?thesis using assms(2,3) by simp
qed

lemma ilog2_bounds:
  assumes "0 < x"
  shows "2 powi ilog2 x \<le> x \<and> x < 2 powi (ilog2 x + 1)"
proof (cases "1 \<le> x")
  case True
  define n where "n = nat \<lfloor>x\<rfloor>"
  from True have "0 < n" and n: "of_nat n \<le> x" "x < of_nat n + 1"
    by (auto simp: n_def) linarith+
  from nlog2_bounds [OF this(1)]
  have "(of_nat (2 ^ nlog2 n) :: rat) \<le> of_nat n" "(of_nat (n + 1) :: rat) \<le> of_nat (2 ^ Suc (nlog2 n))"
    by (simp_all only: of_nat_le_iff) auto
  then have "2 ^ nlog2 n \<le> (of_nat n :: rat)" "of_nat n + 1 \<le> (2 * 2 ^ nlog2 n :: rat)"
    by simp_all
  with n have "2 ^ nlog2 n \<le> x" "x < 2 * 2 ^ nlog2 n" by linarith+
  with True show ?thesis
    by (simp add: ilog2_def n_def [symmetric] power_int_add)
next
  case False
  define c where "c = nat \<lceil>1 / x\<rceil>"
  define k where "k = nlog2 c"
  from False assms have y1: "1 < 1 / x" by simp
  then have "2 \<le> \<lceil>1 / x\<rceil>" by linarith
  then have c2: "2 \<le> c" by (simp only: c_def)
  have c: "1 / x \<le> of_nat c" "of_nat c < 1 / x + 1"
    using y1 by (auto simp: c_def) linarith+
  have k: "2 ^ k \<le> c" "c < 2 ^ Suc k"
    using nlog2_bounds [of c] c2 by (auto simp: k_def)
  have pk: "(0::rat) < 2 ^ k" by simp
  show ?thesis
  proof (cases "2 ^ k = c")
    case True
    with c2 obtain j where j: "k = Suc j" by (cases k) auto
    have "of_nat c - 1 < 1 / x" using c by simp
    moreover have "(2::rat) ^ j \<le> of_nat c - 1"
    proof -
      have "2 ^ j + 1 \<le> c" using True c2 j by (simp add: Suc_leI)
      then have "(of_nat (2 ^ j + 1) :: rat) \<le> of_nat c" by (simp only: of_nat_le_iff)
      then show ?thesis by simp
    qed
    ultimately have "2 ^ j < 1 / x" by simp
    moreover have "1 / x \<le> 2 ^ k" using c(1) True by (metis of_nat_numeral of_nat_power)
    moreover have "ilog2 x = - int k"
      using False True by (simp add: ilog2_def c_def [symmetric] k_def [symmetric] Let_def)
    ultimately show ?thesis using assms
      by (intro powi2_bracket [of _ k]) (simp_all add: j field_simps)
  next
    case F: False
    with k have "2 ^ k + 1 \<le> c" by simp
    then have "(of_nat (2 ^ k + 1) :: rat) \<le> of_nat c" by (simp only: of_nat_le_iff)
    with c have "2 ^ k < 1 / x" by simp
    moreover have "1 / x < 2 ^ Suc k"
    proof -
      have "(of_nat c :: rat) < of_nat (2 ^ Suc k)" using k by (simp only: of_nat_less_iff)
      with c show ?thesis by simp
    qed
    moreover have "ilog2 x = - int (Suc k)"
      using False F by (simp add: ilog2_def c_def [symmetric] k_def [symmetric] Let_def)
    ultimately show ?thesis using assms
      by (intro powi2_bracket [of _ "Suc k"]) (simp_all add: field_simps)
  qed
qed

lemma powi2_le_iff: "(2::rat) powi a \<le> 2 powi b \<longleftrightarrow> a \<le> b"
  by (meson linorder_not_less one_less_numeral_iff power_int_increasing
      power_int_strict_increasing semiring_norm(76) less_imp_le)

lemma powi2_less_iff: "(2::rat) powi a < 2 powi b \<longleftrightarrow> a < b"
  using powi2_le_iff [of b a] by linarith

lemma powi2_pos [simp]: "0 < (2::rat) powi a"
  by (rule zero_less_power_int) simp

lemma ilog2_ge_iff: "0 < x \<Longrightarrow> k \<le> ilog2 x \<longleftrightarrow> 2 powi k \<le> x"
  using ilog2_bounds [of x] powi2_le_iff [of k "ilog2 x"] powi2_less_iff [of k "ilog2 x + 1"]
  by linarith

lemma ilog2_mono: "0 < x \<Longrightarrow> x \<le> y \<Longrightarrow> ilog2 x \<le> ilog2 y"
  using ilog2_bounds [of x] by (subst ilog2_ge_iff) auto

section \<open>Rounding to an integer\<close>

lemma rne_of_int [simp]: "rne (of_int n) = n"
  by (simp add: rne_def)

lemma rne_cases: "rne x = \<lfloor>x\<rfloor> \<or> rne x = \<lfloor>x\<rfloor> + 1"
  by (simp add: rne_def Let_def)

lemma rne_bounds: "\<bar>of_int (rne x) - x\<bar> \<le> 1 / 2"
  by (simp add: rne_def Let_def abs_if) linarith

lemma rne_mono:
  assumes "x \<le> y"
  shows "rne x \<le> rne y"
proof (cases "\<lfloor>x\<rfloor> = \<lfloor>y\<rfloor>")
  case True
  with assms show ?thesis by (simp add: rne_def Let_def)
next
  case False
  with floor_mono [OF assms] have "\<lfloor>x\<rfloor> + 1 \<le> \<lfloor>y\<rfloor>" by simp
  with rne_cases [of x] rne_cases [of y] show ?thesis by linarith
qed

lemma rne_minus: "rne (- x) = - rne x"
proof (cases "of_int \<lfloor>x\<rfloor> = x")
  case True
  then obtain n where "x = of_int n" by metis
  then show ?thesis by (simp flip: of_int_minus)
next
  case False
  define f where "f = \<lfloor>x\<rfloor>"
  from False have "of_int f < x" "x < of_int f + 1"
    using floor_correct [of x] by (simp_all only: f_def) linarith+
  then have "\<lfloor>- x\<rfloor> = - f - 1" by (intro floor_unique) auto
  then show ?thesis by (auto simp: rne_def Let_def f_def [symmetric])
qed

lemma rne_le_int: "x \<le> of_int n \<Longrightarrow> rne x \<le> n"
  using rne_mono [of x "of_int n"] by simp

lemma int_le_rne: "of_int n \<le> x \<Longrightarrow> n \<le> rne x"
  using rne_mono [of "of_int n" x] by simp

section \<open>Rounding to a format\<close>

text \<open>The numbers a format represents: at most \<open>p\<close> significant bits, exponent at least \<open>emin\<close>.\<close>

definition representable :: "nat \<Rightarrow> int \<Rightarrow> rat \<Rightarrow> bool" where
  "representable p emin x \<longleftrightarrow>
     (\<exists>m k. x = of_int m * 2 powi k \<and> \<bar>m\<bar> < 2 ^ p \<and> emin - (int p - 1) \<le> k)"

lemma quantum_pos [simp]: "0 < quantum p emin x"
  by (simp add: quantum_def)

lemma quantum_minus [simp]: "quantum p emin (- x) = quantum p emin x"
  by (simp add: quantum_def)

lemma roundv_0 [simp]: "roundv p emin 0 = 0"
  by (simp add: roundv_def)

lemma roundv_minus: "roundv p emin (- x) = - roundv p emin x"
  by (simp add: roundv_def rne_minus)

lemma roundv_representable:
  assumes "representable p emin x"
  shows "roundv p emin x = x"
proof (cases "x = 0")
  case False
  from assms obtain m k where x: "x = of_int m * 2 powi k" and m: "\<bar>m\<bar> < 2 ^ p"
    and k: "emin - (int p - 1) \<le> k"
    by (auto simp: representable_def)
  define e where "e = max (ilog2 \<bar>x\<bar>) emin"
  have "2 powi ilog2 \<bar>x\<bar> \<le> \<bar>x\<bar>" using ilog2_bounds [of "\<bar>x\<bar>"] False by simp
  also have "\<dots> = of_int \<bar>m\<bar> * 2 powi k" by (simp add: x abs_mult power_int_abs)
  also have "\<dots> < 2 ^ p * 2 powi k"
  proof -
    have "(of_int \<bar>m\<bar> :: rat) < of_int (2 ^ p)" using m by (simp only: of_int_less_iff)
    then show ?thesis by simp
  qed
  also have "\<dots> = 2 powi (int p + k)" by (simp add: power_int_add)
  finally have "ilog2 \<bar>x\<bar> < int p + k" by (simp only: powi2_less_iff)
  with k have ek: "e - (int p - 1) \<le> k" by (auto simp: e_def)
  then obtain d where d: "k = e - (int p - 1) + int d"
    by (metis nat_0_le add_diff_cancel_left' diff_add_cancel le_iff_diff_le_0 diff_ge_0_iff_ge)
  have q: "quantum p emin x = 2 powi (e - (int p - 1))" by (simp add: quantum_def e_def)
  have "x = of_int (m * 2 ^ d) * quantum p emin x"
    unfolding q by (simp add: x d power_int_add)
  then have "x / quantum p emin x = of_int (m * 2 ^ d)" by (metis nonzero_mult_div_cancel_right quantum_pos less_irrefl)
  then have "rne (x / quantum p emin x) = m * 2 ^ d" by (metis rne_of_int)
  with \<open>x = of_int (m * 2 ^ d) * quantum p emin x\<close> show ?thesis by (simp add: roundv_def)
qed simp


lemma roundv_mono_pos:
  assumes p: "1 \<le> p" and "0 < x" and "x \<le> y"
  shows "roundv p emin x \<le> roundv p emin y"
proof -
  define ex where "ex = max (ilog2 x) emin"
  define ey where "ey = max (ilog2 y) emin"
  have "0 < y" and "ex \<le> ey"
    using assms ilog2_mono [of x y] by (auto simp: ex_def ey_def)
  have qx: "quantum p emin x = 2 powi (ex - (int p - 1))"
    and qy: "quantum p emin y = 2 powi (ey - (int p - 1))"
    using \<open>0 < x\<close> \<open>0 < y\<close> by (simp_all add: quantum_def ex_def ey_def)
  have vx: "roundv p emin x = of_int (rne (x / quantum p emin x)) * quantum p emin x"
    and vy: "roundv p emin y = of_int (rne (y / quantum p emin y)) * quantum p emin y"
    using \<open>0 < x\<close> \<open>0 < y\<close> by (simp_all add: roundv_def)
  show ?thesis
  proof (cases "ex = ey")
    case True
    then have "quantum p emin x = quantum p emin y" by (simp add: qx qy)
    then show ?thesis
      unfolding vx vy using \<open>x \<le> y\<close>
      by (simp add: rne_mono [OF divide_right_mono] less_imp_le)
  next
    case False
    with \<open>ex \<le> ey\<close> have "ex < ey" by simp
    then have "ey = ilog2 y" by (auto simp: ey_def ex_def)
    have pos: "0 < quantum p emin x" "0 < quantum p emin y" by simp_all
    have "x < 2 powi (ilog2 x + 1)" using ilog2_bounds [OF \<open>0 < x\<close>] by simp
    also have "\<dots> \<le> 2 powi (ex + 1)" by (simp add: powi2_le_iff ex_def)
    also have "\<dots> = 2 ^ p * quantum p emin x"
      by (simp add: qx power_int_diff power_int_add)
    finally have "x / quantum p emin x \<le> of_int (2 ^ p)" by (simp add: field_simps)
    then have "rne (x / quantum p emin x) \<le> 2 ^ p" by (rule rne_le_int)
    then have "(of_int (rne (x / quantum p emin x)) :: rat) \<le> of_int (2 ^ p)"
      by (simp only: of_int_le_iff)
    then have "roundv p emin x \<le> 2 ^ p * quantum p emin x" by (simp add: vx)
    also have "\<dots> = 2 powi (ex + 1)" by (simp add: qx power_int_diff power_int_add)
    also have "\<dots> \<le> 2 powi ey" using \<open>ex < ey\<close> by (simp add: powi2_le_iff)
    also have "2 powi ey = 2 ^ (p - 1) * quantum p emin y"
      using p by (simp add: qy power_int_diff power_int_add power_diff of_nat_diff flip: power_int_of_nat)
    also have "\<dots> \<le> roundv p emin y"
    proof -
      have "2 powi ey \<le> y" using ilog2_bounds [OF \<open>0 < y\<close>] \<open>ey = ilog2 y\<close> by simp
      also have "2 powi ey = 2 ^ (p - 1) * quantum p emin y"
        using p by (simp add: qy power_int_diff power_int_add power_diff of_nat_diff flip: power_int_of_nat)
      finally have "of_int (2 ^ (p - 1)) \<le> y / quantum p emin y"
        by (simp add: pos_le_divide_eq)
      then have "2 ^ (p - 1) \<le> rne (y / quantum p emin y)" by (rule int_le_rne)
      then have "(of_int (2 ^ (p - 1)) :: rat) \<le> of_int (rne (y / quantum p emin y))"
        by (simp only: of_int_le_iff)
      then show ?thesis by (simp add: vy)
    qed
    finally show ?thesis .
  qed
qed

lemma roundv_nonneg: "0 \<le> x \<Longrightarrow> 0 \<le> roundv p emin x"
  by (simp add: roundv_def int_le_rne divide_nonneg_pos less_imp_le mult_nonneg_nonneg)

lemma roundv_mono:
  assumes p: "1 \<le> p" and "x \<le> y"
  shows "roundv p emin x \<le> roundv p emin y"
proof (cases "0 < x")
  case True
  with assms show ?thesis by (intro roundv_mono_pos) auto
next
  case x: False
  then have nx: "roundv p emin x \<le> 0"
    using roundv_nonneg [of "- x" p emin] by (simp add: roundv_minus)
  show ?thesis
  proof (cases "0 \<le> y")
    case True
    with nx roundv_nonneg [of y p emin] show ?thesis by linarith
  next
    case False
    with \<open>x \<le> y\<close> have "roundv p emin (- y) \<le> roundv p emin (- x)"
      by (intro roundv_mono_pos [OF p]) auto
    then show ?thesis by (simp add: roundv_minus)
  qed
qed

text \<open>A representable bound of the exact value bounds the rounded one.\<close>

lemma roundv_le: "1 \<le> p \<Longrightarrow> x \<le> z \<Longrightarrow> representable p emin z \<Longrightarrow> roundv p emin x \<le> z"
  using roundv_mono [of p x z emin] by (simp add: roundv_representable)

lemma roundv_ge: "1 \<le> p \<Longrightarrow> z \<le> x \<Longrightarrow> representable p emin z \<Longrightarrow> z \<le> roundv p emin x"
  using roundv_mono [of p z x emin] by (simp add: roundv_representable)

lemma representable_of_int:
  assumes "\<bar>n\<bar> \<le> 2 ^ p" and "emin \<le> int p - 1" and "1 \<le> p"
  shows "representable p emin (of_int n)"
proof (cases "\<bar>n\<bar> = 2 ^ p")
  case True
  have "(1::int) < 2 ^ p" using \<open>1 \<le> p\<close> by simp
  moreover have "(of_int n :: rat) = of_int (sgn n) * 2 powi int p"
  proof -
    have "n = sgn n * 2 ^ p" using True by (metis sgn_mult_abs)
    then have "(of_int n :: rat) = of_int (sgn n * 2 ^ p)" by simp
    then show ?thesis by simp
  qed
  moreover have "\<bar>sgn n\<bar> \<le> 1" by (simp add: sgn_if)
  ultimately show ?thesis
    unfolding representable_def using assms by (intro exI [of _ "sgn n"] exI [of _ "int p"]) auto
next
  case False
  with assms show ?thesis
    unfolding representable_def by (intro exI [of _ n] exI [of _ 0]) auto
qed

lemma representable_scale:
  assumes "\<bar>n\<bar> < 2 ^ p" and "emin - (int p - 1) \<le> - int k"
  shows "representable p emin (of_int n / 2 ^ k)"
  unfolding representable_def using assms
  by (intro exI [of _ n] exI [of _ "- int k"]) (simp add: power_int_minus field_simps)


section \<open>The values of binary64 and binary32\<close>

datatype f64 = Fin rat | PInf | NInf | NaN

text \<open>Overflow rounds to an infinity.\<close>

definition pack :: "int \<Rightarrow> rat \<Rightarrow> f64" where
  "pack emax v = (if 2 powi emax \<le> v then PInf else if v \<le> - (2 powi emax) then NInf else Fin v)"

definition rnd64 :: "rat \<Rightarrow> f64" where
  "rnd64 x = pack 1024 (roundv 53 (-1022) x)"

definition rnd32 :: "rat \<Rightarrow> f64" where
  "rnd32 x = pack 128 (roundv 24 (-126) x)"

definition of_ll :: "int \<Rightarrow> f64" where
  "of_ll n = rnd64 (of_int n)"

definition of_int32f :: "int \<Rightarrow> f64" where
  "of_int32f n = rnd32 (of_int n)"

text \<open>The conversion of a \<^verbatim>\<open>double\<close> to \<^verbatim>\<open>float\<close>.\<close>

fun to_f32 :: "f64 \<Rightarrow> f64" where
  "to_f32 (Fin x) = rnd32 x"
| "to_f32 v = v"

text \<open>Conversions to integers discard the fraction; out of range is undefined.\<close>

definition trunc :: "rat \<Rightarrow> int" where
  "trunc x = (if 0 \<le> x then \<lfloor>x\<rfloor> else \<lceil>x\<rceil>)"

definition f64_to_ll :: "f64 \<Rightarrow> int res" where
  "f64_to_ll v = (case v of Fin x \<Rightarrow> (if is_ll (trunc x) then Inr (trunc x) else Inl Float_range)
                 | _ \<Rightarrow> Inl Float_range)"

definition f64_to_int :: "f64 \<Rightarrow> int res" where
  "f64_to_int v = (case v of Fin x \<Rightarrow> (if is_int (trunc x) then Inr (trunc x) else Inl Float_range)
                  | _ \<Rightarrow> Inl Float_range)"

section \<open>Arithmetic and comparison\<close>

fun fneg :: "f64 \<Rightarrow> f64" where
  "fneg (Fin x) = Fin (- x)"
| "fneg PInf = NInf"
| "fneg NInf = PInf"
| "fneg NaN = NaN"

fun fadd :: "f64 \<Rightarrow> f64 \<Rightarrow> f64" where
  "fadd (Fin a) (Fin b) = rnd64 (a + b)"
| "fadd NaN _ = NaN"
| "fadd _ NaN = NaN"
| "fadd PInf NInf = NaN"
| "fadd NInf PInf = NaN"
| "fadd PInf _ = PInf"
| "fadd _ PInf = PInf"
| "fadd NInf _ = NInf"
| "fadd _ NInf = NInf"

text \<open>The sign of a value, \<open>0\<close> for zero.\<close>

fun fsgn :: "f64 \<Rightarrow> int" where
  "fsgn (Fin a) = (if 0 < a then 1 else if a < 0 then -1 else 0)"
| "fsgn PInf = 1"
| "fsgn NInf = -1"
| "fsgn NaN = 0"

definition finf :: "int \<Rightarrow> f64" where
  "finf s = (if 0 < s then PInf else if s < 0 then NInf else NaN)"

fun fmul :: "f64 \<Rightarrow> f64 \<Rightarrow> f64" where
  "fmul (Fin a) (Fin b) = rnd64 (a * b)"
| "fmul NaN _ = NaN"
| "fmul _ NaN = NaN"
| "fmul a b = finf (fsgn a * fsgn b)"

fun fdiv :: "f64 \<Rightarrow> f64 \<Rightarrow> f64" where
  "fdiv (Fin a) (Fin b) = (if b = 0 then finf (fsgn (Fin a)) else rnd64 (a / b))"
| "fdiv NaN _ = NaN"
| "fdiv _ NaN = NaN"
| "fdiv (Fin a) _ = Fin 0"
| "fdiv a (Fin b) = (if b < 0 then fneg a else a)"
| "fdiv _ _ = NaN"

fun flt :: "f64 \<Rightarrow> f64 \<Rightarrow> bool" where
  "flt (Fin a) (Fin b) = (a < b)"
| "flt NInf (Fin b) = True"
| "flt NInf PInf = True"
| "flt (Fin a) PInf = True"
| "flt _ _ = False"

text \<open>\<^verbatim>\<open>==\<close>: NaN differs from everything.\<close>

definition feq :: "f64 \<Rightarrow> f64 \<Rightarrow> bool" where
  "feq a b \<longleftrightarrow> a = b \<and> a \<noteq> NaN"

text \<open>The C operators are written as such.\<close>

instantiation f64 :: "{plus, minus, times, inverse, uminus, ord}"
begin
definition "a + b = fadd a b" for a b :: f64
definition "a - b = fadd a (fneg b)" for a b :: f64
definition "a * b = fmul a b" for a b :: f64
definition "a div b = fdiv a b" for a b :: f64
definition "inverse a = fdiv (Fin 1) a" for a :: f64
definition "- a = fneg a" for a :: f64
definition "a < b \<longleftrightarrow> flt a b" for a b :: f64
definition "a \<le> b \<longleftrightarrow> flt a b \<or> feq a b" for a b :: f64
instance ..
end

lemmas f64_ops = plus_f64_def minus_f64_def times_f64_def divide_f64_def uminus_f64_def
lemmas f64_cmp = less_f64_def less_eq_f64_def feq_def

lemma f64_Fin_ops [simp]:
  "Fin a + Fin b = rnd64 (a + b)"
  "Fin a - Fin b = rnd64 (a - b)"
  "Fin a * Fin b = rnd64 (a * b)"
  "b \<noteq> 0 \<Longrightarrow> Fin a / Fin b = rnd64 (a / b)"
  "- Fin a = Fin (- a)"
  by (simp_all add: f64_ops)

lemma f64_Fin_cmp [simp]:
  "Fin a < Fin b \<longleftrightarrow> a < b"
  "Fin a \<le> Fin b \<longleftrightarrow> a \<le> b"
  "feq (Fin a) (Fin b) \<longleftrightarrow> a = b"
  by (auto simp: f64_cmp)

text \<open>The C expression \<^verbatim>\<open>a / b\<close> on doubles, with \<^verbatim>\<open>b\<close> an integer zero.\<close>

lemma f64_div_zero [simp]: "Fin a / Fin 0 = finf (fsgn (Fin a))"
  by (simp add: f64_ops)


section \<open>The square root\<close>

text \<open>\<^verbatim>\<open>sqrt\<close> is correctly rounded in IEEE 754: the nearest 53-bit number to the exact root.\<close>

fun isqrt :: "nat \<Rightarrow> nat" where
  "isqrt n = (if n = 0 then 0
     else let r = 2 * isqrt (n div 4) in if (r + 1) * (r + 1) \<le> n then r + 1 else r)"

declare isqrt.simps [simp del]

fun f64_sqrt :: "f64 \<Rightarrow> f64" where
  "f64_sqrt (Fin x) = (if x < 0 then NaN else if x = 0 then Fin 0
     else let q = 2 powi (ilog2 x div 2 - 52); s = isqrt (nat \<lfloor>x / (q * q)\<rfloor>);
              m = (of_nat s + 1 / 2) * q
          in if m * m < x then Fin (of_nat (s + 1) * q) else Fin (of_nat s * q))"
| "f64_sqrt PInf = PInf"
| "f64_sqrt _ = NaN"

lemma isqrt_bounds: "isqrt n * isqrt n \<le> n \<and> n < (isqrt n + 1) * (isqrt n + 1)"
proof (induction n rule: isqrt.induct)
  case (1 n)
  show ?case
  proof (cases "n = 0")
    case True
    then show ?thesis by (simp add: isqrt.simps)
  next
    case False
    define k where "k = isqrt (n div 4)"
    from 1 False have IH: "k * k \<le> n div 4 \<and> n div 4 < (k + 1) * (k + 1)"
      by (simp add: k_def)
    then have "(2 * k) * (2 * k) \<le> n" "n < (2 * k + 2) * (2 * k + 2)"
      by (simp_all add: algebra_simps) linarith+
    moreover have "isqrt n = (if (2 * k + 1) * (2 * k + 1) \<le> n then 2 * k + 1 else 2 * k)"
      using False by (subst isqrt.simps) (simp add: k_def Let_def)
    ultimately show ?thesis by (auto simp: algebra_simps)
  qed
qed

section \<open>Facts about the operations\<close>


lemma pack_Fin: "\<bar>v\<bar> < 2 powi e \<Longrightarrow> pack e v = Fin v"
  by (auto simp: pack_def)

lemma pack_mono: "v \<le> w \<Longrightarrow> pack e v \<le> pack e w"
  using powi2_pos [of e] by (auto simp: pack_def f64_cmp)

lemma pack_not_NaN [simp]: "pack e v \<noteq> NaN"
  by (simp add: pack_def)

lemma abs_less_powi1024: "\<bar>x\<bar> \<le> 2 ^ 1000 \<Longrightarrow> \<bar>x :: rat\<bar> < 2 powi 1024"
proof -
  have "(2::rat) powi 1000 < 2 powi 1024" by (subst powi2_less_iff) simp
  then show "\<bar>x\<bar> \<le> 2 ^ 1000 \<Longrightarrow> ?thesis" by (simp only: power_int_numeral)
qed

lemma rnd64_exact: "\<bar>n\<bar> \<le> 2 ^ 53 \<Longrightarrow> rnd64 (of_int n) = Fin (of_int n)"
proof -
  assume n: "\<bar>n\<bar> \<le> 2 ^ 53"
  have "\<bar>of_int n :: rat\<bar> \<le> of_int (2 ^ 53)" using n by (simp only: of_int_le_iff flip: of_int_abs)
  also have "(of_int (2 ^ 53) :: rat) \<le> 2 ^ 1000" by simp
  finally have "pack 1024 (of_int n) = Fin (of_int n)"
    by (rule pack_Fin [OF abs_less_powi1024])
  with n show ?thesis
    by (simp add: rnd64_def roundv_representable [OF representable_of_int])
qed

lemma of_ll_exact: "\<bar>n\<bar> \<le> 2 ^ 53 \<Longrightarrow> of_ll n = Fin (of_int n)"
  by (simp add: of_ll_def rnd64_exact)

lemma of_int_exact [simp]: "is_int n \<Longrightarrow> of_ll n = Fin (of_int n)"
  by (intro of_ll_exact) (auto simp: is_int_def abs_le_iff)

lemma rnd64_0 [simp]: "rnd64 0 = Fin 0"
  using rnd64_exact [of 0] by simp

lemma representable64_int: "\<bar>n\<bar> \<le> 2 ^ 53 \<Longrightarrow> representable 53 (-1022) (of_int n)"
  by (rule representable_of_int) simp_all

text \<open>The exact result between two representable bounds stays between them and is finite.\<close>

lemma rnd64_between:
  assumes "representable 53 (-1022) a" "representable 53 (-1022) b"
    and "a \<le> x" "x \<le> b" and "\<bar>a\<bar> \<le> 2 ^ 1000" "\<bar>b\<bar> \<le> 2 ^ 1000"
  shows "\<exists>v. rnd64 x = Fin v \<and> a \<le> v \<and> v \<le> b"
proof -
  define v where "v = roundv 53 (-1022) x"
  have ab: "a \<le> v" "v \<le> b"
    using roundv_ge [of 53 a x] roundv_le [of 53 x b] assms by (simp_all add: v_def)
  with assms(5,6) have "\<bar>v\<bar> < 2 powi 1024"
    by (intro abs_less_powi1024) (simp only: abs_le_iff, linarith)
  then have "rnd64 x = Fin v" by (simp add: rnd64_def v_def [symmetric] pack_Fin)
  with ab show ?thesis by simp
qed

lemma rnd64_nonneg_le:
  assumes "0 \<le> x" "x \<le> z" "representable 53 (-1022) z" "z \<le> 2 ^ 1000"
  shows "\<exists>v. rnd64 x = Fin v \<and> 0 \<le> v \<and> v \<le> z"
  using rnd64_between [of 0 z x] representable64_int [of 0] assms by simp

lemma rnd64_mono: "x \<le> y \<Longrightarrow> rnd64 x \<le> rnd64 y"
  unfolding rnd64_def by (intro pack_mono roundv_mono) simp_all

lemma rnd64_not_NaN [simp]: "rnd64 x \<noteq> NaN"
  by (simp add: rnd64_def)

lemma of_ll_mono: "m \<le> n \<Longrightarrow> of_ll m \<le> of_ll n"
  by (simp add: of_ll_def rnd64_mono)

lemma of_ll_not_NaN [simp]: "of_ll n \<noteq> NaN"
  by (simp add: of_ll_def)

text \<open>Closed exact results.\<close>

lemma rnd64_eval [simp]:
  "(numeral k :: int) \<le> 2 ^ 53 \<Longrightarrow> rnd64 (numeral k) = Fin (numeral k)"
  "(numeral k :: int) \<le> 2 ^ 53 \<Longrightarrow> rnd64 (- numeral k) = Fin (- numeral k)"
  "rnd64 1 = Fin 1"
  using rnd64_exact [of "numeral k"] rnd64_exact [of "- numeral k"] rnd64_exact [of 1] by simp_all

lemma of_ll_eval [simp]:
  "(numeral k :: int) \<le> 2 ^ 53 \<Longrightarrow> of_ll (numeral k) = Fin (numeral k)"
  "(numeral k :: int) \<le> 2 ^ 53 \<Longrightarrow> of_ll (- numeral k) = Fin (- numeral k)"
  "of_ll 0 = Fin 0" "of_ll 1 = Fin 1"
  by (simp_all add: of_ll_def)

section \<open>Conversions back to integers\<close>

lemma trunc_of_int [simp]: "trunc (of_int n) = n"
  by (simp add: trunc_def)

lemma trunc_numeral [simp]: "trunc (numeral k) = numeral k" "trunc (- numeral k) = - numeral k"
  "trunc 0 = 0" "trunc 1 = 1"
  by (simp_all add: trunc_def)

lemma trunc_mono: "x \<le> y \<Longrightarrow> trunc x \<le> trunc y"
  unfolding trunc_def by (auto intro: floor_mono ceiling_mono) (meson ceiling_le_zero floor_mono le_less_linear less_le not_less order_trans zero_le_floor)

lemma trunc_bounds_int: "of_int a \<le> x \<Longrightarrow> x \<le> of_int b \<Longrightarrow> a \<le> trunc x \<and> trunc x \<le> b"
  using trunc_mono [of "of_int a" x] trunc_mono [of x "of_int b"] by simp

lemma f64_to_ll_Fin: "is_ll (trunc x) \<Longrightarrow> f64_to_ll (Fin x) = Inr (trunc x)"
  by (simp add: f64_to_ll_def)

lemma f64_to_int_Fin: "is_int (trunc x) \<Longrightarrow> f64_to_int (Fin x) = Inr (trunc x)"
  by (simp add: f64_to_int_def)

section \<open>Rounding error on the range of \<^verbatim>\<open>int\<close>\<close>

text \<open>Between \<open>0\<close> and \<open>2 ^ 32\<close> the rounding error is at most \<open>2 ^ -20\<close>.\<close>

lemma rnd64_near:
  assumes "0 \<le> x" and "x \<le> 4294967296"
  shows "\<exists>q. rnd64 x = Fin q \<and> 0 \<le> q \<and> x - 1 / 2 ^ 20 \<le> q \<and> q \<le> x + 1 / 2 ^ 20"
proof -
  define k where "k = \<lfloor>x * 2 ^ 20\<rfloor>"
  have k: "of_int k \<le> x * 2 ^ 20" "x * 2 ^ 20 < of_int k + 1" unfolding k_def by linarith+
  have "0 \<le> k" using assms(1) by (simp add: k_def)
  have "(of_int k :: rat) \<le> of_int (4294967296 * 2 ^ 20)"
    using k(1) mult_right_mono [OF assms(2), of "2 ^ 20"] by simp
  then have kb: "k \<le> 4294967296 * 2 ^ 20" by (simp only: of_int_le_iff)
  have rep: "representable 53 (-1022) (of_int k / 2 ^ 20)" "representable 53 (-1022) (of_int (k + 1) / 2 ^ 20)"
    by (rule representable_scale; use \<open>0 \<le> k\<close> kb in simp)+
  have "(of_int (k + 1) :: rat) \<le> of_int (2 ^ 53)" using kb by (subst of_int_le_iff) simp
  then have b: "\<bar>of_int (k + 1) / 2 ^ 20 :: rat\<bar> \<le> 2 ^ 1000" "\<bar>of_int k / 2 ^ 20 :: rat\<bar> \<le> 2 ^ 1000"
    using \<open>0 \<le> k\<close> by (auto intro: order_trans [of _ "2 ^ 33"])
  have "of_int k / 2 ^ 20 \<le> x" "x \<le> of_int (k + 1) / 2 ^ 20"
    using k by (simp_all add: field_simps)
  then obtain q where q: "rnd64 x = Fin q" "of_int k / 2 ^ 20 \<le> q" "q \<le> of_int (k + 1) / 2 ^ 20"
    using rnd64_between [OF rep _ _ b(2,1)] by blast
  have "0 \<le> (of_int k :: rat) / 2 ^ 20" using \<open>0 \<le> k\<close> by simp
  moreover have "of_int k / 2 ^ 20 + 1 / 2 ^ 20 = (of_int (k + 1) / 2 ^ 20 :: rat)" by simp
  ultimately show ?thesis using q k
    by (intro exI [of _ q]) (simp add: field_simps)
qed

section \<open>Results of roundings\<close>

lemma roundv_is_representable:
  assumes "1 \<le> p"
  shows "representable p emin (roundv p emin x)"
proof (cases "x = 0")
  case True
  have "(0::int) < 2 ^ p" by simp
  then show ?thesis
    unfolding representable_def using True by (intro exI [of _ 0] exI [of _ "emin"]) (use assms in auto)
next
  case False
  define e where "e = max (ilog2 \<bar>x\<bar>) emin"
  define k where "k = e - (int p - 1)"
  define m where "m = rne (x / 2 powi k)"
  have "\<bar>x\<bar> < 2 powi (ilog2 \<bar>x\<bar> + 1)" using ilog2_bounds [of "\<bar>x\<bar>"] False by simp
  also have "\<dots> \<le> 2 powi (int p + k)" by (subst powi2_le_iff) (simp add: k_def e_def)
  also have "\<dots> = 2 ^ p * 2 powi k" by (simp add: power_int_add)
  finally have "\<bar>x / 2 powi k\<bar> < 2 ^ p" by (simp add: field_simps power_int_abs)
  then have "- of_int (2 ^ p) \<le> x / 2 powi k" "x / 2 powi k \<le> of_int (2 ^ p)"
    unfolding abs_less_iff by simp_all
  then have "- (2 ^ p) \<le> m" "m \<le> 2 ^ p"
    using rne_le_int [of "x / 2 powi k" "2 ^ p"] int_le_rne [of "- (2 ^ p)" "x / 2 powi k"]
    by (simp_all add: m_def)
  then have mb: "\<bar>m\<bar> \<le> 2 ^ p" by simp
  have ek: "emin - (int p - 1) \<le> k" by (simp add: k_def e_def)
  have eq: "roundv p emin x = of_int m * 2 powi k"
    using False by (simp add: roundv_def quantum_def m_def k_def e_def)
  show ?thesis
  proof (cases "\<bar>m\<bar> = 2 ^ p")
    case True
    then have "m = sgn m * 2 ^ p" by (metis sgn_mult_abs)
    then have "(of_int m :: rat) = of_int (sgn m) * 2 ^ p" by (metis of_int_mult of_int_numeral of_int_power)
    then have "roundv p emin x = of_int (sgn m) * 2 powi (int p + k)"
      by (simp add: eq power_int_add)
    moreover have "(1::int) < 2 ^ p" using assms by simp
    then have "\<bar>sgn m\<bar> < 2 ^ p" by (simp add: sgn_if)
    ultimately show ?thesis using ek
      unfolding representable_def by (intro exI [of _ "sgn m"] exI [of _ "int p + k"]) simp
  next
    case False
    with mb have "\<bar>m\<bar> < 2 ^ p" by simp
    with eq ek show ?thesis unfolding representable_def by blast
  qed
qed

lemma rnd64_representable: "rnd64 x = Fin v \<Longrightarrow> representable 53 (-1022) v"
  using roundv_is_representable [of 53 "-1022" x]
  by (auto simp: rnd64_def pack_def split: if_splits)

lemma rnd64_sign: "rnd64 x = Fin v \<Longrightarrow> 0 \<le> x \<Longrightarrow> 0 \<le> v"
  using roundv_nonneg [of x 53 "-1022"] by (auto simp: rnd64_def pack_def split: if_splits)

lemma rnd64_nonneg_not_NInf: "0 \<le> x \<Longrightarrow> rnd64 x \<noteq> NInf"
  using roundv_nonneg [of x 53 "-1022"] powi2_pos [of 1024] by (auto simp: rnd64_def pack_def)

text \<open>From \<open>2 ^ (52 - k)\<close> on, representable numbers are multiples of \<open>2 ^ -k\<close>.\<close>

lemma representable_multiple:
  assumes "representable 53 (-1022) v" and "2 ^ 52 / 2 ^ k \<le> v"
  shows "\<exists>n. v = of_int n / 2 ^ k"
proof -
  obtain m j where v: "v = of_int m * 2 powi j" "\<bar>m\<bar> < 2 ^ 53"
    using assms(1) by (auto simp: representable_def)
  have "(of_int m :: rat) < of_int (2 ^ 53)" using v(2) by (subst of_int_less_iff) simp
  then have "v < 2 ^ 53 * 2 powi j" using v(1) by (simp add: mult_strict_right_mono)
  moreover have "(2::rat) ^ 53 * 2 powi j = 2 powi (53 + j)" by (simp add: power_int_add)
  moreover have "(2::rat) ^ 52 / 2 ^ k = 2 powi (52 - int k)" by (simp add: power_int_diff)
  ultimately have "(2::rat) powi (52 - int k) < 2 powi (53 + j)" using assms(2) by simp
  then have "- int k \<le> j" by (simp add: powi2_less_iff)
  then obtain d where d: "j = int d - int k" by (metis add.commute diff_add_cancel minus_add_cancel le_iff_diff_le_0 zle_iff_zadd uminus_add_conv_diff)
  then have "v = of_int (m * 2 ^ d) / 2 ^ k" by (simp add: v power_int_diff)
  then show ?thesis by blast
qed

section \<open>Evaluating a rounding\<close>

lemma ilog2_unique:
  assumes "2 powi k \<le> x" and "x < 2 powi (k + 1)"
  shows "ilog2 x = k"
proof -
  have "0 < x" using assms(1) powi2_pos [of k] by linarith
  have "k \<le> ilog2 x" using assms(1) \<open>0 < x\<close> by (simp add: ilog2_ge_iff)
  moreover have "\<not> k + 1 \<le> ilog2 x" using assms(2) \<open>0 < x\<close> by (simp add: ilog2_ge_iff)
  ultimately show ?thesis by simp
qed

lemma rne_unique: "\<bar>x - of_int n\<bar> < 1 / 2 \<Longrightarrow> rne x = n"
proof -
  assume x: "\<bar>x - of_int n\<bar> < 1 / 2"
  have "\<bar>of_int (rne x) - x\<bar> \<le> 1 / 2" by (rule rne_bounds)
  with x have "\<bar>of_int (rne x) - of_int n :: rat\<bar> < 1" by linarith
  then show ?thesis by linarith
qed

lemma rnd64_by:
  assumes "2 powi k \<le> x" and "x < 2 powi (k + 1)" and "-1022 \<le> k" and "x \<le> 2 ^ 1000"
    and "\<bar>x / 2 powi (k - 52) - of_int n\<bar> < 1 / 2" and "\<bar>of_int n * 2 powi (k - 52) :: rat\<bar> \<le> 2 ^ 1000"
  shows "rnd64 x = Fin (of_int n * 2 powi (k - 52))"
proof -
  have "0 < x" using assms(1) powi2_pos [of k] by linarith
  have "quantum 53 (-1022) x = 2 powi (k - 52)"
    using \<open>0 < x\<close> ilog2_unique [OF assms(1,2)] assms(3) by (simp add: quantum_def)
  then have "roundv 53 (-1022) x = of_int n * 2 powi (k - 52)"
    using \<open>0 < x\<close> rne_unique [OF assms(5)] by (simp add: roundv_def)
  then show ?thesis using assms(6) by (simp add: rnd64_def pack_Fin [OF abs_less_powi1024])
qed

end
