(* ===== verification/Test_Types.thy ===== *)
theory Test_Types
  imports IEEE_Float
begin

text \<open>
  The data of \<^verbatim>\<open>harness/include/RTMB_parse_in_file.h\<close> and \<^verbatim>\<open>RTMB_rd_cmd_line.h\<close> that the whole
  harness shares: the real-time modes and their percentages, the description of a benchmark test
  and the command line options.  A bounded character array is the string it holds; the list of
  tests, linked by \<^verbatim>\<open>_next\<close>, is a list from its head.  \<^verbatim>\<open>_reference_score\<close> is a \<^verbatim>\<open>long double\<close> that
  only ever holds a converted \<^verbatim>\<open>double\<close>.
\<close>

section \<open>Modes and percentages\<close>

datatype real_time_mode = SOFT_RT | HARD_RT | GUARANTEED_RT

record rt_vals =
  acceptable_percentage :: f64
  range_percentage :: f64
  multiplier :: f64

record rt_params =
  hrt :: rt_vals
  srt :: rt_vals
  grt :: rt_vals

section \<open>Benchmark tests\<close>

record benchmark_test =
  bt_name :: string
  bt_desc :: string
  bt_iterations :: int
  bt_config_test :: int
  bt_threshold :: int
  bt_reference_score :: f64

record input_params =
  ip_tests :: "benchmark_test list"
  ip_vals :: rt_params

section \<open>Command line options\<close>

record cmd_line_args =
  verbose :: int
  verbose_lvl :: int
  quick :: int
  rt_mode :: real_time_mode
  file_name :: "string option"
  dir_name :: string
  test_list :: "string list"

section \<open>Test buckets\<close>

datatype test_bucket_number =
    SYSCLOCK_CONFIG | SYSTIMER_CONFIG | IRATE_CONFIG | FRATE_CONFIG | MCACHE_CONFIG
  | DISKIO_WRITE_CONFIG | DISKIO_READ_CONFIG | NETIO_CONFIG | TIMER_ACCURACY_TEST
  | EVENT_DISPATCH_TEST | THREAD_PRIORITY_TEST | LK_CONSISTENCY_TEST | PERIODIC_EVENTS_TEST
  | ASYNC_EVENTS_TEST | DISK_IO_TEST | NET_IO_TEST | MULTI_THREAD_TEST | MULTI_CPU_TEST

abbreviation MAX_TESTS :: nat where "MAX_TESTS \<equiv> 18"

fun bucket_no :: "test_bucket_number \<Rightarrow> nat" where
  "bucket_no SYSCLOCK_CONFIG = 0"
| "bucket_no SYSTIMER_CONFIG = 1"
| "bucket_no IRATE_CONFIG = 2"
| "bucket_no FRATE_CONFIG = 3"
| "bucket_no MCACHE_CONFIG = 4"
| "bucket_no DISKIO_WRITE_CONFIG = 5"
| "bucket_no DISKIO_READ_CONFIG = 6"
| "bucket_no NETIO_CONFIG = 7"
| "bucket_no TIMER_ACCURACY_TEST = 8"
| "bucket_no EVENT_DISPATCH_TEST = 9"
| "bucket_no THREAD_PRIORITY_TEST = 10"
| "bucket_no LK_CONSISTENCY_TEST = 11"
| "bucket_no PERIODIC_EVENTS_TEST = 12"
| "bucket_no ASYNC_EVENTS_TEST = 13"
| "bucket_no DISK_IO_TEST = 14"
| "bucket_no NET_IO_TEST = 15"
| "bucket_no MULTI_THREAD_TEST = 16"
| "bucket_no MULTI_CPU_TEST = 17"

lemma bucket_no_less [simp]: "bucket_no b < MAX_TESTS"
  by (cases b) simp_all

lemma bucket_no_inject [simp]: "bucket_no b = bucket_no c \<longleftrightarrow> b = c"
  by (cases b; cases c; simp)

text \<open>The buckets in the order of the enumeration, so that the library's order applies to them.\<close>

instantiation test_bucket_number :: linorder
begin

definition less_eq_test_bucket_number :: "test_bucket_number \<Rightarrow> test_bucket_number \<Rightarrow> bool" where
  "less_eq_test_bucket_number b c \<longleftrightarrow> bucket_no b \<le> bucket_no c"

definition less_test_bucket_number :: "test_bucket_number \<Rightarrow> test_bucket_number \<Rightarrow> bool" where
  "less_test_bucket_number b c \<longleftrightarrow> bucket_no b < bucket_no c"

instance
  by standard (auto simp: less_eq_test_bucket_number_def less_test_bucket_number_def simp flip: bucket_no_inject)

end

end
