(* ===== verification/Result_Mgmt.thy ===== *)
theory Result_Mgmt
  imports Test_Types
begin

text \<open>
  \<^verbatim>\<open>testcase/util/result_mgmt/result_mgmt.c\<close>, first part: the result of a test
  (\<^verbatim>\<open>test_results_t\<close>), the operations that record iteration times and compute their statistics,
  the pass criteria, and the percentages of the real-time modes.  A result owns the array
  \<^verbatim>\<open>values\<close> of \<^verbatim>\<open>max_entries\<close> numbers; \<open>tmutex\<close> says whether its mutex is held.  The fields
  \<^verbatim>\<open>desc\<close>, \<^verbatim>\<open>next\<close> and \<^verbatim>\<open>pass\<close>, which no modelled code reads, are left out, and a call of
  \<^verbatim>\<open>calloc\<close> fails only for a negative count.
\<close>

section \<open>Data\<close>

record test_results =
  result_id :: int
  meantime :: int
  mediantime :: int
  stdtime :: f64
  maxtime :: int
  mintime :: int
  num_entries :: int
  opern_amount :: int
  tvalues :: "int list"
  tmutex :: bool
  trc :: int
  titerations :: int
  tname :: string
  max_entries :: int
  non_conforming_iterations :: int
  min_acceptable_iterations :: int
  negative_limit :: f64
  positive_limit :: f64

section \<open>The mutex of a result\<close>

text \<open>A default mutex: the holder that locks it again never returns.\<close>

definition mutex_lock :: "test_results \<Rightarrow> test_results res" where
  "mutex_lock r = (if tmutex r then Inl Self_deadlock else Inr (r\<lparr>tmutex := True\<rparr>))"

definition mutex_unlock :: "test_results \<Rightarrow> test_results res" where
  "mutex_unlock r = Inr (r\<lparr>tmutex := False\<rparr>)"

definition synch_do :: "int \<Rightarrow> (test_results \<Rightarrow> test_results res) \<Rightarrow> test_results \<Rightarrow> test_results res" where
  "synch_do synch f r = (if synch = 1 then f r else Inr r)"

lemma synch_do_0 [simp]: "synch_do 0 f r = Inr r"
  by (simp add: synch_do_def)

section \<open>The median\<close>

definition compare_numbers :: "int \<Rightarrow> int \<Rightarrow> int" where
  "compare_numbers n1 n2 = (if n1 > n2 then 1 else 0)"

text \<open>
  \<^verbatim>\<open>qsort\<close> of the C library, driven by the sign of the comparison function: an element stays in
  front of the ones that it does not exceed.
\<close>

fun qsort_insert :: "(int \<Rightarrow> int \<Rightarrow> int) \<Rightarrow> int \<Rightarrow> int list \<Rightarrow> int list" where
  "qsort_insert cmp x [] = [x]"
| "qsort_insert cmp x (y # ys) = (if cmp x y > 0 then y # qsort_insert cmp x ys else x # y # ys)"

definition qsort :: "(int \<Rightarrow> int \<Rightarrow> int) \<Rightarrow> int list \<Rightarrow> int list" where
  "qsort cmp xs = foldr (qsort_insert cmp) xs []"

definition copy_values :: "int list \<Rightarrow> nat \<Rightarrow> int list res" where
  "copy_values vs n = for_res [0..<n] (\<lambda>i temp. bind_res (aread vs (int i)) (\<lambda>v. Inr (temp @ [v]))) []"

definition get_median :: "int list \<Rightarrow> int \<Rightarrow> f64 res" where
  "get_median vs n = (if n < 0 then Inl Out_of_bounds else
     bind_res (copy_values vs (nat n)) (\<lambda>temp. let temp = qsort compare_numbers temp in
       if n smod 2 = 1 then bind_res (aread temp (n sdiv 2)) (\<lambda>v. Inr (of_ll v))
       else bind_res (aread temp (n sdiv 2 - 1)) (\<lambda>u. bind_res (aread temp (n sdiv 2)) (\<lambda>v.
         bind_res (chk_ll (u + v)) (\<lambda>s. Inr (of_ll s / Fin 2))))))"

section \<open>Mean and standard deviation\<close>

definition sum_values :: "int list \<Rightarrow> nat \<Rightarrow> int res" where
  "sum_values vs n = for_res [0..<n] (\<lambda>i s. bind_res (aread vs (int i)) (\<lambda>v. chk_ll (s + v))) 0"

definition sum_sq_diffs :: "int list \<Rightarrow> nat \<Rightarrow> int \<Rightarrow> int res" where
  "sum_sq_diffs vs n m = for_res [0..<n] (\<lambda>i t. bind_res (aread vs (int i)) (\<lambda>v.
     bind_res (chk_ll (v - m)) (\<lambda>d. bind_res (chk_ll (d * d)) (\<lambda>q. chk_ll (t + q))))) 0"

definition compute_std_time :: "test_results \<Rightarrow> int \<Rightarrow> test_results res" where
  "compute_std_time r synch = bind_res (synch_do synch mutex_lock r) (\<lambda>r.
     bind_res (sum_values (tvalues r) (nat (num_entries r))) (\<lambda>sum.
     bind_res (div_ll sum (num_entries r)) (\<lambda>mean. let r = r\<lparr>meantime := mean\<rparr> in
     bind_res (sum_sq_diffs (tvalues r) (nat (num_entries r)) (meantime r)) (\<lambda>total.
     bind_res (div_ll total (num_entries r)) (\<lambda>ms.
       synch_do synch mutex_unlock (r\<lparr>stdtime := to_f32 (f64_sqrt (of_ll ms))\<rparr>))))))"

section \<open>Recording an iteration\<close>

definition note_extremes :: "test_results \<Rightarrow> int \<Rightarrow> test_results" where
  "note_extremes r t = (if num_entries r = 0 then r\<lparr>mintime := t, maxtime := t\<rparr>
     else (let r = (if t > maxtime r then r\<lparr>maxtime := t\<rparr> else r)
           in if t < mintime r then r\<lparr>mintime := t\<rparr> else r))"

definition add_entry :: "test_results \<Rightarrow> int \<Rightarrow> int \<Rightarrow> test_results res" where
  "add_entry r time_diff synch = bind_res (chk_int (max_entries r - 1)) (\<lambda>last.
     bind_res (guard_res Assert_failed (num_entries r \<le> last)) (\<lambda>_.
     bind_res (synch_do synch mutex_lock r) (\<lambda>r. let r = note_extremes r time_diff in
     bind_res (awrite (tvalues r) (num_entries r) time_diff) (\<lambda>vs.
     bind_res (chk_int (num_entries r + 1)) (\<lambda>n. let r = r\<lparr>tvalues := vs, num_entries := n\<rparr> in
     bind_res (if num_entries r = max_entries r
       then bind_res (compute_std_time r 0) (\<lambda>r.
            bind_res (get_median (tvalues r) (num_entries r)) (\<lambda>m.
            bind_res (f64_to_ll m) (\<lambda>med. Inr (r\<lparr>mediantime := med\<rparr>))))
       else Inr r)
     (\<lambda>r. synch_do synch mutex_unlock r))))))"

text \<open>The loop of a test that records a list of times.\<close>

fun add_entries :: "test_results \<Rightarrow> int list \<Rightarrow> test_results res" where
  "add_entries r [] = Inr r"
| "add_entries r (t # ts) = bind_res (add_entry r t 0) (\<lambda>r. add_entries r ts)"

section \<open>The pass criteria\<close>

definition mode_vals :: "real_time_mode \<Rightarrow> rt_params \<Rightarrow> rt_vals" where
  "mode_vals mode p = (case mode of SOFT_RT \<Rightarrow> srt p | HARD_RT \<Rightarrow> hrt p | GUARANTEED_RT \<Rightarrow> grt p)"

definition outlying :: "f64 \<Rightarrow> f64 \<Rightarrow> int \<Rightarrow> bool" where
  "outlying neg pos v \<longleftrightarrow> pos < of_ll v \<or> of_ll v < neg"

definition count_outliers :: "int list \<Rightarrow> nat \<Rightarrow> f64 \<Rightarrow> f64 \<Rightarrow> int res" where
  "count_outliers vs n neg pos = for_res [0..<n] (\<lambda>i c. bind_res (aread vs (int i)) (\<lambda>v.
     if outlying neg pos v then chk_ll (c + 1) else Inr c)) 0"

definition limit :: "int \<Rightarrow> f64 \<Rightarrow> f64" where
  "limit med factor = of_ll med / Fin 100 * factor"

definition check_pass_criteria ::
  "test_results \<Rightarrow> real_time_mode \<Rightarrow> rt_params \<Rightarrow> int \<Rightarrow> (int \<times> test_results) res" where
  "check_pass_criteria r mode p synch = bind_res (synch_do synch mutex_lock r) (\<lambda>r.
     let acceptable = acceptable_percentage (mode_vals mode p);
         range = range_percentage (mode_vals mode p) in
     bind_res (f64_to_ll ((of_ll (num_entries r) / Fin 100) * acceptable)) (\<lambda>min_acc.
     let pos = limit (mediantime r) (Fin 100 + range);
         neg = limit (mediantime r) (Fin 100 - range) in
     bind_res (count_outliers (tvalues r) (nat (num_entries r)) neg pos) (\<lambda>non_conf.
     let test_pass = (if num_entries r - non_conf \<ge> min_acc then 0 else -1);
         r = r\<lparr>non_conforming_iterations := to_int32 non_conf, positive_limit := pos,
               negative_limit := neg, min_acceptable_iterations := to_int32 min_acc\<rparr> in
     bind_res (synch_do synch mutex_lock r) (\<lambda>r. Inr (test_pass, r)))))"

section \<open>Creating, emptying, normalising and copying results\<close>

definition new_result :: "int \<Rightarrow> int \<Rightarrow> test_results" where
  "new_result iters entries = \<lparr>result_id = 0, meantime = 0, mediantime = 0, stdtime = Fin 0, maxtime = 0,
     mintime = 0, num_entries = 0, opern_amount = 0, tvalues = replicate (nat entries) 0,
     tmutex = False, trc = 0, titerations = iters, tname = [], max_entries = entries,
     non_conforming_iterations = 0, min_acceptable_iterations = 0, negative_limit = Fin 0,
     positive_limit = Fin 0\<rparr>"

definition create_test_result :: "int \<Rightarrow> int \<Rightarrow> test_results list res" where
  "create_test_result count iters = (if count < 0 \<or> iters < 0 \<and> 0 < count then Inl Abort_called
     else Inr (replicate (nat count) (new_result iters iters)))"

definition create_test_result1 :: "int \<Rightarrow> int \<Rightarrow> int \<Rightarrow> test_results list res" where
  "create_test_result1 count iters entries = (if count < 0 then Inl Abort_called
     else Inr (replicate (nat count) (new_result iters entries)))"

definition set_number_of_entries :: "test_results \<Rightarrow> int \<Rightarrow> test_results res" where
  "set_number_of_entries r n = (if n < 0 then Inl Abort_called
     else Inr (r\<lparr>max_entries := n, tvalues := replicate (nat n) 0\<rparr>))"

text \<open>\<^verbatim>\<open>char name[TEST_NAME_SIZE]\<close> holds 99 characters.\<close>

definition set_test_result_name :: "test_results \<Rightarrow> string \<Rightarrow> test_results res" where
  "set_test_result_name r s = (if length s < 100 then Inr (r\<lparr>tname := s\<rparr>) else Inl Out_of_bounds)"

definition free_chain :: "test_results \<Rightarrow> int \<Rightarrow> test_results res" where
  "free_chain r synch = bind_res (synch_do synch mutex_lock r) (\<lambda>r.
     synch_do synch mutex_unlock (r\<lparr>num_entries := 0\<rparr>))"

text \<open>\<^verbatim>\<open>free_chains\<close> locks the first result of the array.\<close>

definition synch_first :: "int \<Rightarrow> (test_results \<Rightarrow> test_results res) \<Rightarrow> test_results list \<Rightarrow> test_results list res" where
  "synch_first synch f rs = (if synch = 1
     then bind_res (aread rs 0) (\<lambda>r. bind_res (f r) (\<lambda>r. awrite rs 0 r)) else Inr rs)"

definition free_chains :: "test_results list \<Rightarrow> nat \<Rightarrow> int \<Rightarrow> test_results list res" where
  "free_chains rs len synch = bind_res (synch_first synch mutex_lock rs) (\<lambda>rs.
     bind_res (for_res [0..<len] (\<lambda>i rs. bind_res (aread rs (int i)) (\<lambda>r.
       bind_res (free_chain r 0) (\<lambda>r. awrite rs (int i) r))) rs)
     (\<lambda>rs. synch_first synch mutex_unlock rs))"

definition normalize_values :: "int list \<Rightarrow> nat \<Rightarrow> int \<Rightarrow> int \<Rightarrow> (int list \<times> int) res" where
  "normalize_values vs n min_time ntime = for_res [0..<n] (\<lambda>i (vs, c). bind_res (aread vs (int i)) (\<lambda>v.
     if v < min_time then bind_res (awrite vs (int i) ntime) (\<lambda>vs. bind_res (chk_int (c + 1)) (\<lambda>c. Inr (vs, c)))
     else Inr (vs, c))) (vs, 0)"

definition normalize_extremes :: "test_results \<Rightarrow> int \<Rightarrow> int \<Rightarrow> test_results" where
  "normalize_extremes r min_time ntime = (let
       r = (if mintime r < min_time then r\<lparr>mintime := ntime\<rparr> else r)
     in if maxtime r < min_time then r\<lparr>maxtime := ntime\<rparr> else r)"

definition normalize_result :: "test_results \<Rightarrow> int \<Rightarrow> int \<Rightarrow> (int \<times> test_results) res" where
  "normalize_result r min_time ntime =
     bind_res (normalize_values (tvalues r) (nat (num_entries r)) min_time ntime) (\<lambda>(vs, count).
     let r = normalize_extremes (r\<lparr>tvalues := vs\<rparr>) min_time ntime in
     bind_res (get_median (tvalues r) (num_entries r)) (\<lambda>m. bind_res (f64_to_ll m) (\<lambda>med.
     bind_res (compute_std_time (r\<lparr>mediantime := med\<rparr>) 0) (\<lambda>r. Inr (count, r)))))"

text \<open>All members of the source are copied, the values into the array that \<open>dest\<close> owns.\<close>

definition clone_results :: "test_results \<Rightarrow> test_results \<Rightarrow> test_results res" where
  "clone_results dest source = bind_res (for_res [0..<nat (num_entries source)]
       (\<lambda>i vs. bind_res (aread (tvalues source) (int i)) (\<lambda>v. awrite vs (int i) v)) (tvalues dest))
     (\<lambda>vs. Inr (source\<lparr>tvalues := vs\<rparr>))"

section \<open>The percentages of the real-time modes\<close>

definition get_acceptable_percent :: "rt_params \<Rightarrow> real_time_mode \<Rightarrow> f64" where
  "get_acceptable_percent p mode = (if mode = SOFT_RT then acceptable_percentage (srt p)
     else if mode = HARD_RT then acceptable_percentage (hrt p) else acceptable_percentage (grt p))"

definition get_range_percent :: "rt_params \<Rightarrow> real_time_mode \<Rightarrow> f64" where
  "get_range_percent p mode = (if mode = SOFT_RT then range_percentage (srt p)
     else if mode = HARD_RT then range_percentage (hrt p) else range_percentage (grt p))"

text \<open>The members are \<^verbatim>\<open>float\<close>: a \<^verbatim>\<open>double\<close> is rounded when it is stored.\<close>

definition set_acceptable_percent :: "rt_params \<Rightarrow> real_time_mode \<Rightarrow> f64 \<Rightarrow> rt_params" where
  "set_acceptable_percent p mode x = (if mode = SOFT_RT then p\<lparr>srt := (srt p)\<lparr>acceptable_percentage := to_f32 x\<rparr>\<rparr>
     else if mode = HARD_RT then p\<lparr>hrt := (hrt p)\<lparr>acceptable_percentage := to_f32 x\<rparr>\<rparr>
     else p\<lparr>grt := (grt p)\<lparr>acceptable_percentage := to_f32 x\<rparr>\<rparr>)"

definition set_range_percent :: "rt_params \<Rightarrow> real_time_mode \<Rightarrow> f64 \<Rightarrow> rt_params" where
  "set_range_percent p mode x = (if mode = SOFT_RT then p\<lparr>srt := (srt p)\<lparr>range_percentage := to_f32 x\<rparr>\<rparr>
     else if mode = HARD_RT then p\<lparr>hrt := (hrt p)\<lparr>range_percentage := to_f32 x\<rparr>\<rparr>
     else p\<lparr>grt := (grt p)\<lparr>range_percentage := to_f32 x\<rparr>\<rparr>)"

text \<open>
  The result is the new parameters and what is stored through \<^verbatim>\<open>old_percentage\<close> and
  \<^verbatim>\<open>old_range\<close>; the two flags say which of these pointers is not null.
\<close>

definition fill_vals :: "rt_vals \<Rightarrow> f64 \<Rightarrow> f64 \<Rightarrow> rt_vals" where
  "fill_vals v percentage rng =
     v\<lparr>acceptable_percentage := to_f32 percentage, range_percentage := to_f32 rng\<rparr>"

definition fill_acceptable_percentages ::
  "rt_params \<Rightarrow> real_time_mode \<Rightarrow> f64 \<Rightarrow> f64 \<Rightarrow> bool \<Rightarrow> bool \<Rightarrow> rt_params \<times> f64 option \<times> f64 option" where
  "fill_acceptable_percentages p mode percentage rng want_old_percentage want_old_range =
     (case mode of
        HARD_RT \<Rightarrow> (p\<lparr>hrt := fill_vals (hrt p) percentage rng\<rparr>,
          if want_old_percentage then Some (acceptable_percentage (hrt p)) else None,
          if want_old_range then Some (range_percentage (hrt p)) else None)
      | SOFT_RT \<Rightarrow> (p\<lparr>srt := fill_vals (srt p) percentage rng\<rparr>,
          if want_old_percentage then Some (acceptable_percentage (srt p)) else None,
          if want_old_range then Some (range_percentage (srt p)) else None)
      | GUARANTEED_RT \<Rightarrow> (p\<lparr>grt := fill_vals (grt p) percentage rng\<rparr>,
          if want_old_percentage then Some (acceptable_percentage (grt p)) else None,
          if want_old_range then Some (range_percentage (grt p)) else None))"

section \<open>The median is the median\<close>

lemma qsort_is_sort: "qsort compare_numbers xs = sort xs"
proof -
  have "qsort_insert compare_numbers x ys = insort x ys" for x ys
    by (induction ys) (auto simp: compare_numbers_def)
  then have "qsort_insert compare_numbers = insort" by (simp add: fun_eq_iff)
  then show ?thesis by (simp add: qsort_def sort_key_def)
qed

lemma copy_values_ok: "n \<le> length vs \<Longrightarrow> copy_values vs n = Inr (take n vs)"
proof -
  assume n: "n \<le> length vs"
  have "\<exists>t. copy_values vs n = Inr t \<and> t = take n vs"
    unfolding copy_values_def
    by (rule for_res_inv [where P = "\<lambda>i t. t = take i vs"])
      (use n in \<open>auto simp: aread_def take_Suc_conv_app_nth\<close>)
  then show ?thesis by simp
qed

definition median_of :: "int list \<Rightarrow> rat" where
  "median_of xs = (let s = sort xs; n = length xs in
     if odd n then of_int (s ! (n div 2)) else of_int (s ! (n div 2 - 1) + s ! (n div 2)) / 2)"

lemma sort_nth_mem: "k < length xs \<Longrightarrow> sort xs ! k \<in> set xs"
  by (metis length_sort nth_mem set_sort)

lemma half_rnd64: "\<bar>s\<bar> \<le> 2 ^ 53 - 1 \<Longrightarrow> rnd64 (of_int s / 2) = Fin (of_int s / 2)"
proof -
  assume s: "\<bar>s\<bar> \<le> 2 ^ 53 - 1"
  then have "representable 53 (-1022) (of_int s / 2 ^ 1)"
    by (intro representable_scale) simp_all
  then have "roundv 53 (-1022) (of_int s / 2) = of_int s / 2" by (simp add: roundv_representable)
  moreover have "\<bar>of_int s / 2 :: rat\<bar> \<le> of_int \<bar>s\<bar>" by simp
  moreover have "(of_int \<bar>s\<bar> :: rat) \<le> of_int (2 ^ 53)" using s by (simp only: of_int_le_iff)
  moreover have "(of_int (2 ^ 53) :: rat) \<le> 2 ^ 1000" by simp
  ultimately have "\<bar>of_int s / 2 :: rat\<bar> \<le> 2 ^ 1000" by (meson order_trans)
  then show ?thesis
    using \<open>roundv 53 (-1022) (of_int s / 2) = of_int s / 2\<close>
    by (simp add: rnd64_def pack_Fin [OF abs_less_powi1024])
qed

lemma get_median_ok:
  assumes "n \<noteq> 0" and "n \<le> length vs" and small: "\<forall>v \<in> set (take n vs). \<bar>v\<bar> \<le> 4000000000000000"
  shows "get_median vs (int n) = Inr (Fin (median_of (take n vs)))"
proof -
  let ?s = "sort (take n vs)"
  have len: "length ?s = n" using assms(2) by simp
  have bd: "\<bar>?s ! k\<bar> \<le> 4000000000000000" if "k < n" for k
    using sort_nth_mem [of k "take n vs"] small that assms(2) by auto
  have copy: "copy_values vs (nat (int n)) = Inr (take n vs)" using assms(2) by (simp add: copy_values_ok)
  have sm: "int n smod 2 = int (n mod 2)" "int n sdiv 2 = int (n div 2)"
    by (simp_all add: smod_nonneg_eq sdiv_nonneg_eq zmod_int zdiv_int)
  show ?thesis
  proof (cases "odd n")
    case True
    have k: "n div 2 < n" using assms(1) by simp
    have "of_ll (?s ! (n div 2)) = Fin (of_int (?s ! (n div 2)))"
      using bd [OF k] by (intro of_ll_exact) simp
    moreover have "aread ?s (int n sdiv 2) = Inr (?s ! (n div 2))"
      using k len by (simp only: sm) (simp add: aread_ok)
    moreover have "int n smod 2 = 1" using True by (simp add: sm odd_iff_mod_2_eq_one)
    ultimately show ?thesis
      using True copy assms(2) by (simp add: get_median_def Let_def qsort_is_sort median_of_def del: aread_Inr)
  next
    case False
    then have k: "n div 2 < n" "n div 2 - 1 < n" "1 \<le> n div 2" using assms(1) by (auto elim: evenE)
    let ?u = "?s ! (n div 2 - 1)" and ?v = "?s ! (n div 2)"
    have b: "\<bar>?u + ?v\<bar> \<le> 8000000000000000" using bd [OF k(1)] bd [OF k(2)] by linarith
    then have s: "is_ll (?u + ?v)" "of_ll (?u + ?v) = Fin (of_int (?u + ?v))"
      by (auto simp: is_ll_def of_ll_exact)
    have r: "aread ?s (int n sdiv 2) = Inr ?v" "aread ?s (int n sdiv 2 - 1) = Inr ?u"
      using k len aread_ok [of "n div 2 - 1" ?s] aread_ok [of "n div 2" ?s]
      by (simp_all add: sm of_nat_diff)
    have "int n smod 2 = 0" using False by (simp add: sm)
    moreover have "of_ll (?u + ?v) / Fin 2 = Fin (of_int (?u + ?v) / 2)"
      unfolding s(2) using half_rnd64 [of "?u + ?v"] b by simp
    ultimately show ?thesis
      using False copy r s assms(2)
      by (simp add: get_median_def Let_def qsort_is_sort median_of_def chk_ll_ok del: of_int_add aread_Inr)
  qed
qed

section \<open>Mean and deviation\<close>

text \<open>Times between \<open>0\<close> and \<open>b\<close>, few enough that the sum of squared differences fits a \<^verbatim>\<open>long long\<close>.\<close>

definition times_ok :: "int \<Rightarrow> int list \<Rightarrow> bool" where
  "times_ok b ts \<longleftrightarrow> (\<forall>t \<in> set ts. 0 \<le> t \<and> t \<le> b) \<and> 1 \<le> b \<and> int (length ts) * (b * b) \<le> LLONG_MAX"

text \<open>Time stamps, which may be large but lie within \<open>b\<close> of each other.\<close>

definition stamps_ok :: "int \<Rightarrow> int \<Rightarrow> int list \<Rightarrow> bool" where
  "stamps_ok lo b ts \<longleftrightarrow> (\<forall>t \<in> set ts. lo \<le> t \<and> t \<le> lo + b) \<and> 0 \<le> lo \<and> 1 \<le> b \<and> lo + b \<le> 4000000000000000
     \<and> int (length ts) * (b * b) \<le> LLONG_MAX \<and> int (length ts) * (lo + b) \<le> LLONG_MAX"

definition mean_of :: "int list \<Rightarrow> int" where
  "mean_of ts = sum_list ts div int (length ts)"

definition std_of :: "int list \<Rightarrow> f64" where
  "std_of ts = to_f32 (f64_sqrt (of_ll (sum_list (map (\<lambda>t. (t - mean_of ts)\<^sup>2) ts) div int (length ts))))"

lemma square_le_mult: "1 \<le> b \<Longrightarrow> b \<le> b * (b :: int)"
  using mult_left_mono [of 1 b b] by simp

lemma times_ok_bound:
  assumes "times_ok b ts" and "ts \<noteq> []"
  shows "b \<le> 3037000499"
proof (rule ccontr)
  assume "\<not> b \<le> 3037000499"
  then have "3037000500 * 3037000500 \<le> b * b" by (intro mult_mono) auto
  moreover have "1 * (b * b) \<le> int (length ts) * (b * b)"
    using assms(2) by (intro mult_right_mono) (cases ts, auto)
  ultimately show False using assms(1) by (simp add: times_ok_def)
qed

lemma times_ok_mem: "times_ok b ts \<Longrightarrow> t \<in> set ts \<Longrightarrow> 0 \<le> t \<and> t \<le> b"
  by (simp add: times_ok_def)

lemma times_ok_stamps:
  assumes "times_ok b ts" and "ts \<noteq> []"
  shows "stamps_ok 0 b ts"
proof -
  have b: "b \<le> 3037000499" "b \<le> b * b" using times_ok_bound [OF assms] assms(1) square_le_mult by (auto simp: times_ok_def)
  have "int (length ts) * b \<le> int (length ts) * (b * b)" using b(2) by (intro mult_left_mono) simp_all
  with b(1) assms(1) show ?thesis by (simp add: stamps_ok_def times_ok_def)
qed

lemma sum_list_bounded:
  fixes f :: "'a \<Rightarrow> int"
  shows "(\<And>x. x \<in> set xs \<Longrightarrow> 0 \<le> f x \<and> f x \<le> c) \<Longrightarrow>
    0 \<le> sum_list (map f xs) \<and> sum_list (map f xs) \<le> int (length xs) * c"
  by (induction xs) (auto simp: algebra_simps intro: add_mono)

text \<open>A loop that adds up \<open>f\<close> of the first \<open>n\<close> values, none of whose partial sums overflows.\<close>

lemma sum_loop_ok:
  assumes "n \<le> length vs" and "\<And>v. v \<in> set (take n vs) \<Longrightarrow> 0 \<le> f v \<and> f v \<le> c" and "0 \<le> c"
    and "int n * c \<le> LLONG_MAX"
    and "\<And>i s. i < n \<Longrightarrow> is_ll (s + f (vs ! i)) \<Longrightarrow> step i s = Inr (s + f (vs ! i))"
  shows "for_res [0..<n] step 0 = Inr (sum_list (map f (take n vs)))"
proof -
  let ?P = "\<lambda>i s. s = sum_list (map f (take i vs)) \<and> 0 \<le> s \<and> s \<le> int i * c"
  have "\<exists>s. for_res [0..<n] step 0 = Inr s \<and> ?P n s"
  proof (rule for_res_inv [where P = ?P])
    fix i s assume "i < n" and P: "?P i s"
    have "vs ! i \<in> set (take n vs)" using \<open>i < n\<close> assms(1) by (auto simp: in_set_conv_nth)
    then have f: "0 \<le> f (vs ! i)" "f (vs ! i) \<le> c" using assms(2) by auto
    have "int (Suc i) * c \<le> int n * c" using \<open>i < n\<close> assms(3) by (intro mult_right_mono) auto
    moreover have "int (Suc i) * c = int i * c + c" by (simp add: algebra_simps)
    ultimately have s: "0 \<le> s + f (vs ! i)" "s + f (vs ! i) \<le> int (Suc i) * c" "is_ll (s + f (vs ! i))"
      using P f assms(4) unfolding is_ll_def by linarith+
    then have "step i s = Inr (s + f (vs ! i))" using assms(5) \<open>i < n\<close> by blast
    moreover have "i < length vs" using \<open>i < n\<close> assms(1) by simp
    ultimately show "\<exists>s'. step i s = Inr s' \<and> ?P (Suc i) s'"
      using s P by (simp add: take_Suc_conv_app_nth)
  qed auto
  then show ?thesis by simp
qed

lemma sum_list_between:
  fixes xs :: "int list"
  shows "(\<And>x. x \<in> set xs \<Longrightarrow> l \<le> x \<and> x \<le> u) \<Longrightarrow> int (length xs) * l \<le> sum_list xs \<and> sum_list xs \<le> int (length xs) * u"
  by (induction xs) (auto simp: algebra_simps intro: add_mono)

lemma mean_of_bounds:
  assumes "stamps_ok lo b ts" and "ts \<noteq> []"
  shows "lo \<le> mean_of ts \<and> mean_of ts \<le> lo + b"
proof -
  have n: "0 < int (length ts)" using assms(2) by simp
  have s: "int (length ts) * lo \<le> sum_list ts" "sum_list ts \<le> int (length ts) * (lo + b)"
    using sum_list_between [of ts lo "lo + b"] assms(1) by (auto simp: stamps_ok_def)
  have "(int (length ts) * lo) div int (length ts) \<le> sum_list ts div int (length ts)" using s(1) n by (rule zdiv_mono1)
  moreover have "sum_list ts div int (length ts) \<le> (int (length ts) * (lo + b)) div int (length ts)" using s(2) n by (rule zdiv_mono1)
  ultimately show ?thesis using n by (simp add: mean_of_def)
qed

lemma compute_std_time_ok:
  assumes "stamps_ok lo b (take n (tvalues r))" and "n \<noteq> 0" and "n \<le> length (tvalues r)"
    and "num_entries r = int n"
  shows "compute_std_time r 0 = Inr (r\<lparr>meantime := mean_of (take n (tvalues r)),
            stdtime := std_of (take n (tvalues r))\<rparr>)"
proof -
  define ts where "ts = take n (tvalues r)"
  have len: "length ts = n" and ne: "ts \<noteq> []" using assms(2,3) by (auto simp: ts_def)
  have ok: "stamps_ok lo b ts" using assms(1) by (simp add: ts_def)
  have b: "0 \<le> lo" "1 \<le> b" "int n * (b * b) \<le> LLONG_MAX" "lo + b \<le> 4000000000000000"
    using ok len by (simp_all add: stamps_ok_def)
  have m: "lo \<le> mean_of ts" "mean_of ts \<le> lo + b" using mean_of_bounds [OF ok ne] by auto
  have nb: "int n * (lo + b) \<le> LLONG_MAX" using ok len by (simp add: stamps_ok_def)
  have mem: "lo \<le> v \<and> v \<le> lo + b" if "v \<in> set ts" for v using ok that by (simp add: stamps_ok_def)
  have nth: "i < n \<Longrightarrow> tvalues r ! i \<in> set ts" for i
    using assms(3) by (auto simp: ts_def in_set_conv_nth)
  have sum: "sum_values (tvalues r) n = Inr (sum_list ts)"
    unfolding sum_values_def ts_def
    using sum_loop_ok [of n "tvalues r" "\<lambda>v. v" "lo + b"] assms(3) mem b(1,2) nb
    by (fastforce simp: ts_def aread_ok chk_ll_ok)
  have sb: "0 \<le> sum_list ts" "sum_list ts \<le> int n * (lo + b)"
    using sum_list_bounded [of ts "\<lambda>x. x" "lo + b"] mem len b(1) by fastforce+
  have sq: "0 \<le> (v - mean_of ts)\<^sup>2 \<and> (v - mean_of ts)\<^sup>2 \<le> b * b" if "v \<in> set ts" for v
  proof -
    have "\<bar>v - mean_of ts\<bar> \<le> b" using mem [OF that] m by linarith
    then have "\<bar>v - mean_of ts\<bar> * \<bar>v - mean_of ts\<bar> \<le> b * b" by (intro mult_mono) auto
    then show ?thesis by (simp add: power2_eq_square flip: abs_mult)
  qed
  have bb: "b * b \<le> LLONG_MAX"
    using b(3) mult_right_mono [of 1 "int n" "b * b"] assms(2) by (cases n) auto
  have sqs: "sum_sq_diffs (tvalues r) n (mean_of ts) = Inr (sum_list (map (\<lambda>t. (t - mean_of ts)\<^sup>2) ts))"
    unfolding sum_sq_diffs_def ts_def [symmetric]
  proof (subst ts_def, rule sum_loop_ok [where c = "b * b"])
    fix i s assume i: "i < n" and s: "is_ll (s + (tvalues r ! i - mean_of ts)\<^sup>2)"
    have "is_ll (tvalues r ! i - mean_of ts)" "is_ll ((tvalues r ! i - mean_of ts)\<^sup>2)"
      using mem [OF nth [OF i]] sq [OF nth [OF i]] m b bb unfolding is_ll_def by linarith+
    then show "bind_res (aread (tvalues r) (int i)) (\<lambda>v. bind_res (chk_ll (v - mean_of ts)) (\<lambda>d.
        bind_res (chk_ll (d * d)) (\<lambda>q. chk_ll (s + q)))) = Inr (s + (tvalues r ! i - mean_of ts)\<^sup>2)"
      using i s assms(3) by (simp add: aread_ok chk_ll_ok power2_eq_square)
  qed (use assms(3) sq b in \<open>auto simp: ts_def\<close>)
  define q where "q = sum_list (map (\<lambda>t. (t - mean_of ts)\<^sup>2) ts)"
  have qb: "0 \<le> q" "q \<le> int n * (b * b)"
    using sum_list_bounded [of ts "\<lambda>t. (t - mean_of ts)\<^sup>2" "b * b"] sq len by (auto simp: q_def)
  have div: "div_ll x (int n) = Inr (x div int n)" if "0 \<le> x" "x \<le> LLONG_MAX" for x
  proof -
    have "0 \<le> x div int n" "x div int n \<le> x"
      using that assms(2) zdiv_mono2 [of x 1 "int n"] by (simp_all add: pos_imp_zdiv_nonneg_iff)
    then show ?thesis using that assms(2) by (simp add: div_ll_def sdiv_nonneg_eq chk_ll_ok is_ll_def)
  qed
  have "div_ll (sum_list ts) (int n) = Inr (mean_of ts)"
    using div sb nb len by (simp add: mean_of_def)
  moreover have "div_ll q (int n) = Inr (q div int n)" using div qb b(3) by simp
  ultimately show ?thesis
    using sum sqs assms(4) len
    by (simp add: compute_std_time_def Let_def q_def [symmetric] std_of_def flip: ts_def)
qed

section \<open>What a result holds after recording\<close>

text \<open>
  \<open>recorded r ts\<close>: the result was filled with the times \<open>ts\<close>, has room for all its entries
  and counters in the range of \<^verbatim>\<open>int\<close>;
  \<open>summarised r ts\<close>: its statistics are those of \<open>ts\<close>.
\<close>

definition recorded :: "test_results \<Rightarrow> int list \<Rightarrow> bool" where
  "recorded r ts \<longleftrightarrow> num_entries r = int (length ts) \<and> take (length ts) (tvalues r) = ts \<and>
     int (length (tvalues r)) = max_entries r \<and> is_int (max_entries r) \<and>
     int (length ts) \<le> max_entries r \<and> \<not> tmutex r \<and> 0 \<le> titerations r \<and> titerations r \<le> INT_MAX \<and>
     0 \<le> non_conforming_iterations r \<and> non_conforming_iterations r \<le> INT_MAX \<and>
     (ts \<noteq> [] \<longrightarrow> mintime r = Min (set ts) \<and> maxtime r = Max (set ts))"

definition summarised :: "test_results \<Rightarrow> int list \<Rightarrow> bool" where
  "summarised r ts \<longleftrightarrow> meantime r = mean_of ts \<and> mediantime r = \<lfloor>median_of ts\<rfloor> \<and> stdtime r = std_of ts"

lemma new_result_recorded [inv_intros]:
  "0 \<le> n \<Longrightarrow> is_int n \<Longrightarrow> 0 \<le> iters \<Longrightarrow> iters \<le> INT_MAX \<Longrightarrow> recorded (new_result iters n) []"
  by (simp add: recorded_def new_result_def)

lemma free_chain_recorded [inv_intros]: "recorded r ts \<Longrightarrow> \<exists>r'. free_chain r 0 = Inr r' \<and> recorded r' []
    \<and> max_entries r' = max_entries r"
  by (simp add: free_chain_def recorded_def)

lemma note_extremes_simps [simp]:
  "tvalues (note_extremes r t) = tvalues r" "num_entries (note_extremes r t) = num_entries r"
  "max_entries (note_extremes r t) = max_entries r" "tmutex (note_extremes r t) = tmutex r"
  "titerations (note_extremes r t) = titerations r" "non_conforming_iterations (note_extremes r t) = non_conforming_iterations r"
  by (simp_all add: note_extremes_def Let_def)

lemma note_extremes_ok:
  "recorded r ts \<Longrightarrow> mintime (note_extremes r t) = Min (insert t (set ts))
     \<and> maxtime (note_extremes r t) = Max (insert t (set ts))"
proof (cases "ts = []")
  case False
  assume r: "recorded r ts"
  have "Min (insert t (set ts)) = min t (mintime r)" "Max (insert t (set ts)) = max t (maxtime r)"
    "num_entries r \<noteq> 0" "mintime r \<le> maxtime r"
    using r False by (simp_all add: recorded_def)
  then show ?thesis by (simp add: note_extremes_def Let_def min_def max_def)
qed (simp add: recorded_def note_extremes_def)

text \<open>Before the last entry \<^verbatim>\<open>add_entry\<close> only records.\<close>

lemma add_entry_step:
  assumes "recorded r ts" and "int (length ts) + 1 < max_entries r"
  shows "\<exists>r'. add_entry r t 0 = Inr r' \<and> recorded r' (ts @ [t]) \<and> max_entries r' = max_entries r"
proof -
  let ?n = "length ts"
  have n: "num_entries r = int ?n" "?n < length (tvalues r)" "is_int (int ?n + 1)" "is_int (max_entries r - 1)"
    "int ?n \<le> max_entries r - 1"
    using assms by (auto simp: recorded_def is_int_def)
  let ?r = "(note_extremes r t)\<lparr>tvalues := (tvalues r)[?n := t], num_entries := int ?n + 1\<rparr>"
  have "add_entry r t 0 = Inr ?r"
    using n assms(2) by (simp add: add_entry_def Let_def chk_int_ok awrite_def)
  moreover have "recorded ?r (ts @ [t])"
    using assms n note_extremes_ok [OF assms(1), of t] take_Suc_update [of ?n "tvalues r" t]
    by (auto simp: recorded_def)
  ultimately show ?thesis by auto
qed

lemma median_between:
  assumes "\<forall>t \<in> set ts. 0 \<le> t \<and> t \<le> u" and "ts \<noteq> []"
  shows "0 \<le> median_of ts \<and> median_of ts \<le> of_int u"
proof -
  have mem: "0 \<le> sort ts ! k \<and> sort ts ! k \<le> u" if "k < length ts" for k
    using assms(1) sort_nth_mem [OF that] by blast
  have l: "length ts div 2 < length ts" using assms(2) by simp
  have "0 \<le> sort ts ! (length ts div 2 - 1) + sort ts ! (length ts div 2)
      \<and> sort ts ! (length ts div 2 - 1) + sort ts ! (length ts div 2) \<le> 2 * u"
    using mem [OF l] mem [of "length ts div 2 - 1"] l by linarith
  then have "(0 :: rat) \<le> of_int (sort ts ! (length ts div 2 - 1) + sort ts ! (length ts div 2))
      \<and> (of_int (sort ts ! (length ts div 2 - 1) + sort ts ! (length ts div 2)) :: rat) \<le> of_int (2 * u)"
    by (simp only: of_int_le_iff of_int_0_le_iff)
  with mem [OF l] show ?thesis by (auto simp: median_of_def Let_def)
qed

lemma median_of_bounds: "times_ok b ts \<Longrightarrow> ts \<noteq> [] \<Longrightarrow> 0 \<le> median_of ts \<and> median_of ts \<le> of_int b"
  using times_ok_mem by (intro median_between) auto

lemma median_to_ll:
  assumes "\<forall>t \<in> set ts. 0 \<le> t \<and> t \<le> 4000000000000000" and "ts \<noteq> []"
  shows "f64_to_ll (Fin (median_of ts)) = Inr \<lfloor>median_of ts\<rfloor>"
proof -
  have m: "0 \<le> median_of ts" "median_of ts \<le> of_int 4000000000000000" using median_between [OF assms] by simp_all
  have "0 \<le> trunc (median_of ts) \<and> trunc (median_of ts) \<le> 4000000000000000"
    using trunc_bounds_int [of 0 "median_of ts" 4000000000000000] m by simp
  with m show ?thesis by (simp add: f64_to_ll_def trunc_def is_ll_def)
qed

text \<open>The last entry also computes the statistics.\<close>

lemma add_entry_last:
  assumes "recorded r ts" and "int (length ts) + 1 = max_entries r" and "stamps_ok lo b (ts @ [t])"
  shows "\<exists>r'. add_entry r t 0 = Inr r' \<and> recorded r' (ts @ [t]) \<and> summarised r' (ts @ [t])
    \<and> max_entries r' = max_entries r"
proof -
  let ?n = "length ts" and ?ts = "ts @ [t]"
  have n: "num_entries r = int ?n" "?n < length (tvalues r)" "is_int (int ?n + 1)" "is_int (max_entries r - 1)"
    "int ?n \<le> max_entries r - 1"
    using assms by (auto simp: recorded_def is_int_def)
  define r1 where "r1 = (note_extremes r t)\<lparr>tvalues := (tvalues r)[?n := t], num_entries := int ?n + 1\<rparr>"
  have r1: "recorded r1 ?ts"
    using assms n note_extremes_ok [OF assms(1), of t] take_Suc_update [of ?n "tvalues r" t]
    by (auto simp: recorded_def r1_def)
  then have tk: "take (Suc ?n) (tvalues r1) = ?ts" "num_entries r1 = int (Suc ?n)" "Suc ?n \<le> length (tvalues r1)"
    using n by (auto simp: recorded_def r1_def)
  define r2 where "r2 = r1\<lparr>meantime := mean_of ?ts, stdtime := std_of ?ts\<rparr>"
  have std: "compute_std_time r1 0 = Inr r2"
    using compute_std_time_ok [of lo b "Suc ?n" r1] tk assms(3) by (simp add: r2_def)
  have small: "\<forall>v \<in> set ?ts. 0 \<le> v \<and> v \<le> 4000000000000000"
    using assms(3) unfolding stamps_ok_def by fastforce
  then have "\<forall>v \<in> set ?ts. \<bar>v\<bar> \<le> 4000000000000000" by simp
  then have med: "get_median (tvalues r2) (num_entries r2) = Inr (Fin (median_of ?ts))"
    using get_median_ok [of "Suc ?n" "tvalues r1"] tk by (simp add: r2_def)
  define r3 where "r3 = r2\<lparr>mediantime := \<lfloor>median_of ?ts\<rfloor>\<rparr>"
  have "add_entry r t 0 = Inr r3"
    using n assms(2) std med median_to_ll [OF small]
    by (simp add: add_entry_def Let_def chk_int_ok awrite_def r1_def [symmetric] r3_def) (simp add: r1_def)
  moreover have "recorded r3 ?ts" "summarised r3 ?ts" "max_entries r3 = max_entries r"
    using r1 by (simp_all add: r3_def r2_def recorded_def summarised_def) (simp add: r1_def)
  ultimately show ?thesis by blast
qed

lemma add_entries_append:
  "add_entries r (xs @ ys) = bind_res (add_entries r xs) (\<lambda>r. add_entries r ys)"
  by (induction xs arbitrary: r) (auto simp: bind_res_def split: sum.splits)

lemma add_entries_partial:
  "recorded r us \<Longrightarrow> int (length us + length ts) < max_entries r \<Longrightarrow>
    \<exists>r'. add_entries r ts = Inr r' \<and> recorded r' (us @ ts) \<and> max_entries r' = max_entries r"
proof (induction ts arbitrary: r us)
  case (Cons t ts)
  then obtain r1 where "add_entry r t 0 = Inr r1" "recorded r1 (us @ [t])" "max_entries r1 = max_entries r"
    using add_entry_step [of r us t] by auto
  then show ?case using Cons.IH [of r1 "us @ [t]"] Cons.prems by auto
qed simp

text \<open>A run that fills the result leaves the statistics of exactly the recorded times.\<close>

lemma add_entries_stamps:
  assumes "recorded r []" and "int (length ts) = max_entries r" and "ts \<noteq> []" and "stamps_ok lo b ts"
  shows "\<exists>r'. add_entries r ts = Inr r' \<and> recorded r' ts \<and> summarised r' ts \<and> max_entries r' = max_entries r"
proof -
  obtain us t where ts: "ts = us @ [t]" using assms(3) by (metis rev_exhaust)
  obtain r1 where r1: "add_entries r us = Inr r1" "recorded r1 us" "max_entries r1 = max_entries r"
    using add_entries_partial [of r "[]" us] assms(1,2) ts by auto
  then obtain r2 where "add_entry r1 t 0 = Inr r2" "recorded r2 ts" "summarised r2 ts" "max_entries r2 = max_entries r"
    using add_entry_last [of r1 us lo b t] assms ts by auto
  with r1 show ?thesis by (simp add: ts add_entries_append)
qed

lemma add_entries_full:
  assumes "recorded r []" and "int (length ts) = max_entries r" and "ts \<noteq> []" and "times_ok b ts"
  shows "\<exists>r'. add_entries r ts = Inr r' \<and> recorded r' ts \<and> summarised r' ts \<and> max_entries r' = max_entries r"
  using add_entries_stamps [OF assms(1-3) times_ok_stamps [OF assms(4,3)]] .

text \<open>One entry more is an assertion failure.\<close>

lemma add_entry_beyond:
  "recorded r ts \<Longrightarrow> int (length ts) = max_entries r \<Longrightarrow> add_entry r t synch = Inl Assert_failed"
  by (simp add: add_entry_def recorded_def chk_int_def is_int_def guard_res_def)

text \<open>With \<^verbatim>\<open>synch = 1\<close> the mutex of the result is taken and given back, and nothing else changes.\<close>

lemma note_extremes_mutex: "note_extremes (r\<lparr>tmutex := x\<rparr>) t = (note_extremes r t)\<lparr>tmutex := x\<rparr>"
  by (simp add: note_extremes_def Let_def)

lemma compute_std_mutex: "compute_std_time (r\<lparr>tmutex := x\<rparr>) 0 = bind_res (compute_std_time r 0) (\<lambda>r. Inr (r\<lparr>tmutex := x\<rparr>))"
  by (auto simp: compute_std_time_def bind_res_def Let_def split: sum.splits)

lemma compute_std_fields: "compute_std_time r 0 = Inr r' \<Longrightarrow> tmutex r' = tmutex r \<and> tvalues r' = tvalues r \<and> num_entries r' = num_entries r"
  by (auto simp: compute_std_time_def bind_res_Inr_iff Let_def)

lemma bind_res_return: "bind_res m Inr = m"
  by (cases m) simp_all

lemma finish_entry_mutex:
  fixes r :: test_results
  defines "fin \<equiv> \<lambda>r. if num_entries r = max_entries r
       then bind_res (compute_std_time r 0) (\<lambda>r. bind_res (get_median (tvalues r) (num_entries r)) (\<lambda>m.
            bind_res (f64_to_ll m) (\<lambda>med. Inr (r\<lparr>mediantime := med\<rparr>)))) else Inr r"
  assumes "\<not> tmutex r"
  shows "bind_res (fin (r\<lparr>tmutex := True\<rparr>)) mutex_unlock = fin r"
proof (cases "num_entries r = max_entries r")
  case True
  have "bind_res (fin (r\<lparr>tmutex := True\<rparr>)) mutex_unlock
      = bind_res (compute_std_time r 0) (\<lambda>r. bind_res (get_median (tvalues r) (num_entries r)) (\<lambda>m.
            bind_res (f64_to_ll m) (\<lambda>med. Inr (r\<lparr>mediantime := med, tmutex := False\<rparr>))))"
    using True by (simp add: fin_def compute_std_mutex bind_res_assoc mutex_unlock_def)
  also have "\<dots> = fin r"
  proof (cases "compute_std_time r 0")
    case (Inr r')
    then have "r'\<lparr>mediantime := x, tmutex := False\<rparr> = r'\<lparr>mediantime := x\<rparr>" for x
      using compute_std_fields [OF Inr] assms(2) by (cases r') simp
    then show ?thesis using Inr True by (simp add: fin_def)
  qed (simp add: fin_def True)
  finally show ?thesis .
next
  case False
  then show ?thesis using assms by (simp add: fin_def mutex_unlock_def)
qed

lemma add_entry_synch:
  assumes "\<not> tmutex r"
  shows "add_entry r t 1 = add_entry r t 0"
proof -
  define fin where "fin = (\<lambda>r. if num_entries r = max_entries r
       then bind_res (compute_std_time r 0) (\<lambda>r. bind_res (get_median (tvalues r) (num_entries r)) (\<lambda>m.
            bind_res (f64_to_ll m) (\<lambda>med. Inr (r\<lparr>mediantime := med\<rparr>)))) else Inr r)"
  let ?entry = "\<lambda>fin r0. bind_res (chk_int (max_entries r - 1)) (\<lambda>last. bind_res (guard_res Assert_failed (num_entries r \<le> last)) (\<lambda>_.
     bind_res (awrite (tvalues r) (num_entries r) t) (\<lambda>vs. bind_res (chk_int (num_entries r + 1)) (\<lambda>n.
       fin (r0\<lparr>tvalues := vs, num_entries := n\<rparr>)))))"
  have f: "bind_res (fin ((q\<lparr>tmutex := True\<rparr>)\<lparr>tvalues := vs, num_entries := n\<rparr>)) mutex_unlock = fin (q\<lparr>tvalues := vs, num_entries := n\<rparr>)"
    if "\<not> tmutex q" for q vs n
  proof -
    have eq: "(q\<lparr>tmutex := True\<rparr>)\<lparr>tvalues := vs, num_entries := n\<rparr> = (q\<lparr>tvalues := vs, num_entries := n\<rparr>)\<lparr>tmutex := True\<rparr>"
      by (cases q) simp
    have nt: "\<not> tmutex (q\<lparr>tvalues := vs, num_entries := n\<rparr>)" using that by simp
    show ?thesis unfolding fin_def eq by (rule finish_entry_mutex [OF nt])
  qed
  have "add_entry r t 1 = ?entry (\<lambda>q. bind_res (fin q) mutex_unlock) ((note_extremes r t)\<lparr>tmutex := True\<rparr>)"
    using assms by (simp add: add_entry_def synch_do_def mutex_lock_def note_extremes_mutex Let_def fin_def cong: if_cong)
  moreover have "add_entry r t 0 = ?entry fin (note_extremes r t)"
    by (simp add: add_entry_def Let_def fin_def bind_res_return)
  ultimately show ?thesis using f [of "note_extremes r t"] assms by (simp only: note_extremes_simps not_False_eq_True simp_thms)
qed

section \<open>The pass criteria decide what they document\<close>

lemma count_outliers_ok:
  assumes "n \<le> length vs" and "int n \<le> INT_MAX"
  shows "count_outliers vs n neg pos = Inr (int (length (filter (outlying neg pos) (take n vs))))"
proof -
  let ?P = "\<lambda>i c. c = int (length (filter (outlying neg pos) (take i vs)))"
  have "\<exists>c. count_outliers vs n neg pos = Inr c \<and> ?P n c"
    unfolding count_outliers_def
  proof (rule for_res_inv [where P = ?P])
    fix i c assume i: "i < n" and c: "?P i c"
    have "c \<le> int i" using c length_filter_le [of "outlying neg pos" "take i vs"] by simp
    then have "is_ll (c + 1)" using i c assms(2) by (simp add: is_ll_def)
    then show "\<exists>s'. bind_res (aread vs (int i)) (\<lambda>v. if outlying neg pos v then chk_ll (c + 1) else Inr c)
        = Inr s' \<and> ?P (Suc i) s'"
      using i c assms(1) by (auto simp: aread_ok chk_ll_ok take_Suc_conv_app_nth)
  qed auto
  then show ?thesis by simp
qed

text \<open>
  The number of conforming iterations that is asked for: at most all of them, and at least all
  but one when the percentage is 100.
\<close>

lemma min_acceptable_bounds:
  assumes "is_int n" and "0 \<le> n" and "0 \<le> a" and "a \<le> 100"
  shows "\<exists>m. f64_to_ll ((of_ll n / Fin 100) * Fin a) = Inr m \<and> 0 \<le> m \<and> m \<le> n \<and> (a = 100 \<longrightarrow> n - 1 \<le> m)"
proof -
  have "n \<le> 4294967296" using assms by (simp add: is_int_def)
  then have n0: "(0::rat) \<le> of_int n / 100" "of_int n / 100 \<le> (4294967296::rat)"
    using assms(2) by (simp_all add: field_simps)
  from rnd64_near [OF n0] obtain q where q: "rnd64 (of_int n / 100) = Fin q" "0 \<le> q"
    "of_int n / 100 - 1 / 2 ^ 20 \<le> q" "q \<le> of_int n / 100 + 1 / 2 ^ 20" by blast
  have qa: "0 \<le> q * a" "q * a \<le> q * 100" using q(2) assms by (auto intro: mult_left_mono)
  have q100: "of_int n - 100 / 2 ^ 20 \<le> q * 100" "q * 100 \<le> of_int n + 100 / 2 ^ 20"
    using q(3,4) by simp_all
  have "(of_int n :: rat) \<le> 2147483647" using assms(1) by (simp add: is_int_def)
  then have "q * a \<le> 4294967296" using qa q100 by simp
  from rnd64_near [OF qa(1) this] obtain v where v: "rnd64 (q * a) = Fin v" "0 \<le> v"
    "q * a - 1 / 2 ^ 20 \<le> v" "v \<le> q * a + 1 / 2 ^ 20" by blast
  have "v < of_int n + 1" using v(4) qa(2) q100(2) by simp
  then have up: "\<lfloor>v\<rfloor> \<le> n" by linarith
  have lo: "a = 100 \<Longrightarrow> n - 1 \<le> \<lfloor>v\<rfloor>"
  proof -
    assume "a = 100"
    then have "of_int n - 1 \<le> v" using v(3) q100(1) by simp
    then show ?thesis by linarith
  qed
  have "0 \<le> \<lfloor>v\<rfloor>" using v(2) by simp
  with up assms(1) have "is_ll \<lfloor>v\<rfloor>" unfolding is_ll_def is_int_def by linarith
  then show ?thesis using q v up lo assms(1) by (simp add: f64_to_ll_def trunc_def)
qed

definition conforming :: "f64 \<Rightarrow> f64 \<Rightarrow> int list \<Rightarrow> int" where
  "conforming neg pos ts = int (length (filter (\<lambda>t. \<not> outlying neg pos t) ts))"

lemma conforming_outliers:
  "int (length ts) - int (length (filter (outlying neg pos) ts)) = conforming neg pos ts"
  using sum_length_filter_compl [of "outlying neg pos" ts] by (simp add: conforming_def)

lemma check_pass_ok:
  assumes "recorded r ts" and "acceptable_percentage (mode_vals mode p) = Fin a" and "0 \<le> a" "a \<le> 100"
  defines "pos \<equiv> limit (mediantime r) (Fin 100 + range_percentage (mode_vals mode p))"
    and "neg \<equiv> limit (mediantime r) (Fin 100 - range_percentage (mode_vals mode p))"
  shows "\<exists>m r'. check_pass_criteria r mode p 0
      = Inr (if conforming neg pos ts \<ge> m then 0 else -1, r')
    \<and> f64_to_ll ((of_ll (int (length ts)) / Fin 100) * Fin a) = Inr m \<and> 0 \<le> m \<and> m \<le> int (length ts)
    \<and> r' = r\<lparr>non_conforming_iterations := int (length ts) - conforming neg pos ts, positive_limit := pos,
        negative_limit := neg, min_acceptable_iterations := m\<rparr>"
proof -
  let ?n = "length ts" and ?out = "int (length (filter (outlying neg pos) ts))"
  have n: "num_entries r = int ?n" "?n \<le> length (tvalues r)" "is_int (int ?n)" "take ?n (tvalues r) = ts"
    using assms(1) by (auto simp: recorded_def is_int_def)
  obtain m where m: "f64_to_ll ((of_ll (int ?n) / Fin 100) * Fin a) = Inr m" "0 \<le> m" "m \<le> int ?n"
    using min_acceptable_bounds [OF n(3) _ assms(3,4)] by auto
  have "count_outliers (tvalues r) ?n neg pos = Inr ?out"
    using count_outliers_ok [OF n(2)] n(3,4) by (simp add: is_int_def)
  moreover have "?out = int ?n - conforming neg pos ts" using conforming_outliers [of ts neg pos] by simp
  moreover have "0 \<le> ?out" "?out \<le> int ?n" by simp_all
  then have "is_int ?out" "is_int m" using n(3) m unfolding is_int_def by linarith+
  ultimately show ?thesis
    using m n(1) assms(2) by (simp add: check_pass_criteria_def Let_def flip: pos_def neg_def)
qed

text \<open>With \<^verbatim>\<open>synch\<close> set the function never returns.\<close>

lemma check_pass_synch: "check_pass_criteria r mode p 1 \<noteq> Inr x"
proof
  assume "check_pass_criteria r mode p 1 = Inr x"
  then show False
    by (auto simp: check_pass_criteria_def synch_do_def mutex_lock_def Let_def bind_res_Inr_iff split: if_splits)
qed

section \<open>Copying and normalising\<close>

lemma clone_results_ok:
  assumes "recorded s ts" and "length (tvalues d) = length (tvalues s)"
  shows "\<exists>d'. clone_results d s = Inr d' \<and> recorded d' ts \<and> d' = s\<lparr>tvalues := tvalues d'\<rparr>"
proof -
  let ?n = "length ts"
  have n: "num_entries s = int ?n" "?n \<le> length (tvalues s)" "take ?n (tvalues s) = ts"
    using assms(1) by (auto simp: recorded_def)
  let ?P = "\<lambda>i vs. length vs = length (tvalues s) \<and> take i vs = take i ts"
  have "\<exists>vs. for_res [0..<?n] (\<lambda>i vs. bind_res (aread (tvalues s) (int i)) (\<lambda>v. awrite vs (int i) v)) (tvalues d)
      = Inr vs \<and> ?P ?n vs"
  proof (rule for_res_inv [where P = ?P])
    fix i vs assume i: "i < ?n" and P: "?P i vs"
    have "tvalues s ! i = ts ! i" using n(3) i by (metis nth_take)
    then show "\<exists>vs'. bind_res (aread (tvalues s) (int i)) (\<lambda>v. awrite vs (int i) v) = Inr vs' \<and> ?P (Suc i) vs'"
      using i P n(2) by (simp add: aread_ok awrite_ok take_Suc_update take_Suc_conv_app_nth)
  qed (use assms(2) in auto)
  then obtain vs where vs: "for_res [0..<?n] (\<lambda>i vs. bind_res (aread (tvalues s) (int i)) (\<lambda>v. awrite vs (int i) v))
      (tvalues d) = Inr vs" "length vs = length (tvalues s)" "take ?n vs = ts" by auto
  have "clone_results d s = Inr (s\<lparr>tvalues := vs\<rparr>)"
    using vs(1) n(1) by (simp add: clone_results_def)
  moreover have "recorded (s\<lparr>tvalues := vs\<rparr>) ts"
    using assms(1) vs(2,3) by (simp add: recorded_def)
  ultimately show ?thesis by simp
qed

definition normalized :: "int \<Rightarrow> int \<Rightarrow> int \<Rightarrow> int" where
  "normalized min_time ntime v = (if v < min_time then ntime else v)"

lemma normalize_values_ok:
  assumes "n \<le> length vs" and "int n \<le> INT_MAX"
  shows "normalize_values vs n min_time ntime = Inr (map (normalized min_time ntime) (take n vs) @ drop n vs,
    int (length (filter (\<lambda>v. v < min_time) (take n vs))))"
proof -
  let ?P = "\<lambda>i (ws, c). ws = map (normalized min_time ntime) (take i vs) @ drop i vs
    \<and> c = int (length (filter (\<lambda>v. v < min_time) (take i vs)))"
  have "\<exists>s. normalize_values vs n min_time ntime = Inr s \<and> ?P n s"
    unfolding normalize_values_def
  proof (rule for_res_inv [where P = ?P])
    fix i s assume i: "i < n" and P: "?P i s"
    obtain ws c where s: "s = (ws, c)" by fastforce
    have ws: "ws = map (normalized min_time ntime) (take i vs) @ vs ! i # drop (Suc i) vs"
      using P s i assms(1) by (simp add: Cons_nth_drop_Suc)
    then have nth: "ws ! i = vs ! i" "length ws = length vs"
      "\<And>v. ws[i := v] = map (normalized min_time ntime) (take i vs) @ v # drop (Suc i) vs"
      using i assms(1) by (auto simp: nth_append list_update_append min_def)
    have "c \<le> int i" "0 \<le> c" using P s length_filter_le [of "\<lambda>v. v < min_time" "take i vs"] by auto
    then have "is_int (c + 1)" using i assms(2) by (simp add: is_int_def)
    then show "\<exists>s'. (case s of (vs, c) \<Rightarrow> bind_res (aread vs (int i)) (\<lambda>v.
        if v < min_time then bind_res (awrite vs (int i) ntime) (\<lambda>vs. bind_res (chk_int (c + 1)) (\<lambda>c. Inr (vs, c)))
        else Inr (vs, c))) = Inr s' \<and> ?P (Suc i) s'"
      using P s nth i assms(1)
      by (simp add: aread_ok awrite_ok chk_int_ok take_Suc_conv_app_nth normalized_def) (simp add: ws)
  qed auto
  then show ?thesis by auto
qed

section \<open>Saving and restoring the percentages\<close>

text \<open>A \<^verbatim>\<open>float\<close> member holds a binary32 value.\<close>

definition is_f32 :: "f64 \<Rightarrow> bool" where
  "is_f32 v \<longleftrightarrow> to_f32 v = v"

definition params_f32 :: "rt_params \<Rightarrow> bool" where
  "params_f32 p \<longleftrightarrow> (\<forall>v \<in> {hrt p, srt p, grt p}. is_f32 (acceptable_percentage v) \<and> is_f32 (range_percentage v))"

lemma fill_then_restore:
  assumes "params_f32 p" and "fill_acceptable_percentages p mode pct rng True True = (p', Some old_pct, Some old_rng)"
  shows "fst (fill_acceptable_percentages p' mode old_pct old_rng False False) = p"
  using assms by (cases mode) (auto simp: fill_acceptable_percentages_def fill_vals_def params_f32_def is_f32_def)

lemma get_set_percent:
  "get_acceptable_percent (set_acceptable_percent p mode x) mode = to_f32 x"
  "get_range_percent (set_range_percent p mode x) mode = to_f32 x"
  "get_acceptable_percent (set_range_percent p mode x) mode = get_acceptable_percent p mode"
  "get_range_percent (set_acceptable_percent p mode x) mode = get_range_percent p mode"
  "mode \<noteq> mode' \<Longrightarrow> mode_vals mode' (set_acceptable_percent p mode x) = mode_vals mode' p"
  by (cases mode; cases mode'; simp add: get_acceptable_percent_def get_range_percent_def
      set_acceptable_percent_def set_range_percent_def mode_vals_def)+

lemma get_percent_mode_vals:
  "get_acceptable_percent p mode = acceptable_percentage (mode_vals mode p)"
  "get_range_percent p mode = range_percentage (mode_vals mode p)"
  by (cases mode; simp add: get_acceptable_percent_def get_range_percent_def mode_vals_def)+

section \<open>Properties\<close>

text \<open>
  C5: Recording as many times as a result has room for leaves exactly these times and their
  statistics: least, greatest, mean, median and standard deviation are those of the recorded
  list, without overflow when the times fit the bound of \<open>times_ok\<close>; one more entry is an
  assertion failure.
\<close>

theorem recording_summarises:
  assumes "recorded r []" and "int (length ts) = max_entries r" and "ts \<noteq> []" and "times_ok b ts"
  shows "\<exists>r'. add_entries r ts = Inr r' \<and> take (length ts) (tvalues r') = ts
    \<and> mintime r' = Min (set ts) \<and> maxtime r' = Max (set ts) \<and> meantime r' = sum_list ts div int (length ts)
    \<and> mediantime r' = \<lfloor>median_of ts\<rfloor> \<and> stdtime r' = std_of ts
    \<and> add_entry r' t synch = Inl Assert_failed"
proof -
  obtain r' where r': "add_entries r ts = Inr r'" "recorded r' ts" "summarised r' ts" "max_entries r' = max_entries r"
    using add_entries_full [OF assms] by blast
  with assms(2) have "add_entry r' t synch = Inl Assert_failed" by (intro add_entry_beyond) simp_all
  with r' assms(3) show ?thesis
    by (intro exI [of _ r']) (simp add: recorded_def summarised_def mean_of_def)
qed

theorem recording_summarises_witness:
  "\<exists>r'. add_entries (new_result 4 4) [40, 10, 30, 20] = Inr r' \<and> take (length [40, 10, 30, 20 :: int]) (tvalues r') = [40, 10, 30, 20]
    \<and> mintime r' = Min (set [40, 10, 30, 20]) \<and> maxtime r' = Max (set [40, 10, 30, 20])
    \<and> meantime r' = sum_list [40, 10, 30, 20] div int (length [40, 10, 30, 20 :: int])
    \<and> mediantime r' = \<lfloor>median_of [40, 10, 30, 20]\<rfloor> \<and> stdtime r' = std_of [40, 10, 30, 20]
    \<and> add_entry r' 50 0 = Inl Assert_failed"
proof (rule recording_summarises [where b = 40])
  show "recorded (new_result 4 4) []" by (intro new_result_recorded) (simp_all add: is_int_def)
qed (simp_all add: new_result_def times_ok_def)

text \<open>
  C6: \<^verbatim>\<open>check_pass_criteria\<close> passes a recorded result exactly when the number of times inside the
  limits around the median reaches the truncated percentage of the iterations, stores the limits
  and counts, changes nothing else, and asks for at most all the iterations.  The comment above the
  function describes two pairs of limits, around the average; the code has this one.
\<close>

theorem check_pass_verdict:
  assumes "recorded r ts" and "acceptable_percentage (mode_vals mode p) = Fin a" and "0 \<le> a" "a \<le> 100"
  shows "\<exists>m pos neg. f64_to_ll ((of_ll (int (length ts)) / Fin 100) * Fin a) = Inr m \<and> 0 \<le> m \<and> m \<le> int (length ts)
    \<and> pos = of_ll (mediantime r) / Fin 100 * (Fin 100 + range_percentage (mode_vals mode p))
    \<and> neg = of_ll (mediantime r) / Fin 100 * (Fin 100 - range_percentage (mode_vals mode p))
    \<and> check_pass_criteria r mode p 0 = Inr (if m \<le> conforming neg pos ts then 0 else -1,
        r\<lparr>non_conforming_iterations := int (length ts) - conforming neg pos ts, positive_limit := pos,
          negative_limit := neg, min_acceptable_iterations := m\<rparr>)"
  using check_pass_ok [OF assms] by (auto simp: limit_def)

definition zero_params :: rt_params where
  "zero_params = (let v = \<lparr>acceptable_percentage = Fin 0, range_percentage = Fin 0, multiplier = Fin 0\<rparr>
     in \<lparr>hrt = v, srt = v, grt = v\<rparr>)"

definition fifty_params :: rt_params where
  "fifty_params = (let v = \<lparr>acceptable_percentage = Fin 50, range_percentage = Fin 10, multiplier = Fin 1\<rparr>
     in \<lparr>hrt = v, srt = v, grt = v\<rparr>)"

definition one_time :: test_results where
  "one_time = (new_result 1 1)\<lparr>num_entries := 1, tvalues := [100], mediantime := 100, mintime := 100, maxtime := 100\<rparr>"

lemma one_time_recorded: "recorded one_time [100]"
  by (simp add: one_time_def recorded_def new_result_def is_int_def)

theorem check_pass_verdict_witness:
  "\<exists>m pos neg. f64_to_ll ((of_ll (int (length [100 :: int])) / Fin 100) * Fin 50) = Inr m \<and> 0 \<le> m \<and> m \<le> int (length [100 :: int])
    \<and> pos = of_ll (mediantime one_time) / Fin 100 * (Fin 100 + range_percentage (mode_vals SOFT_RT fifty_params))
    \<and> neg = of_ll (mediantime one_time) / Fin 100 * (Fin 100 - range_percentage (mode_vals SOFT_RT fifty_params))
    \<and> check_pass_criteria one_time SOFT_RT fifty_params 0 = Inr (if m \<le> conforming neg pos [100] then 0 else -1,
        one_time\<lparr>non_conforming_iterations := int (length [100 :: int]) - conforming neg pos [100], positive_limit := pos,
          negative_limit := neg, min_acceptable_iterations := m\<rparr>)"
  by (rule check_pass_verdict [OF one_time_recorded]) (simp_all add: fifty_params_def mode_vals_def Let_def)

text \<open>
  When every time is inside the limits the test passes, whatever share of the iterations is
  asked for.
\<close>

lemma all_conforming_pass:
  assumes "recorded r ts" and "acceptable_percentage (mode_vals mode p) = Fin a" and "0 \<le> a" "a \<le> 100"
    and "\<forall>t \<in> set ts. \<not> outlying (limit (mediantime r) (Fin 100 - range_percentage (mode_vals mode p)))
      (limit (mediantime r) (Fin 100 + range_percentage (mode_vals mode p))) t"
  shows "\<exists>r'. check_pass_criteria r mode p 0 = Inr (0, r') \<and> non_conforming_iterations r' = 0"
proof -
  have "conforming (limit (mediantime r) (Fin 100 - range_percentage (mode_vals mode p)))
      (limit (mediantime r) (Fin 100 + range_percentage (mode_vals mode p))) ts = int (length ts)"
    using assms(5) by (simp add: conforming_def)
  with check_pass_ok [OF assms(1-4)] show ?thesis by auto
qed

lemma all_conforming_pass_witness:
  "\<exists>r'. check_pass_criteria one_time SOFT_RT fifty_params 0 = Inr (0, r') \<and> non_conforming_iterations r' = 0"
  by (rule all_conforming_pass [OF one_time_recorded, where a = 50])
    (simp_all add: one_time_def fifty_params_def mode_vals_def Let_def outlying_def limit_def f64_cmp)

text \<open>
  With an acceptable percentage of 100 the number of conforming iterations asked for is all
  of them or, because of the rounding of \<^verbatim>\<open>num_entries / 100.0\<close>, one less: 29 iterations ask for 28.
\<close>

lemma full_percentage_may_lose_one:
  assumes "is_int n" and "0 \<le> n"
  shows "(\<exists>m. f64_to_ll ((of_ll n / Fin 100) * Fin 100) = Inr m \<and> n - 1 \<le> m \<and> m \<le> n)
    \<and> (\<exists>r'. check_pass_criteria ((new_result 29 29)\<lparr>num_entries := 29\<rparr>) HARD_RT
          \<lparr>hrt = \<lparr>acceptable_percentage = Fin 100, range_percentage = Fin 0, multiplier = Fin 1\<rparr>, srt = s, grt = g\<rparr> 0
        = Inr (0, r') \<and> min_acceptable_iterations r' = 28)"
proof
  show "\<exists>m. f64_to_ll ((of_ll n / Fin 100) * Fin 100) = Inr m \<and> n - 1 \<le> m \<and> m \<le> n"
    using min_acceptable_bounds [OF assms, of 100] by auto
  have "rnd64 (29 / 100) = Fin (5224175567749775 / 2 ^ 54)"
    using rnd64_by [of "-2" "29 / 100" 5224175567749775] by (simp add: power_int_minus)
  moreover have "rnd64 (5224175567749775 / 2 ^ 54 * 100) = Fin (8162774324609023 / 2 ^ 48)"
    using rnd64_by [of 4 "5224175567749775 / 2 ^ 54 * 100" 8162774324609023] by (simp add: power_int_minus)
  moreover have "\<lfloor>8162774324609023 / 2 ^ 48 :: rat\<rfloor> = 28" by (rule floor_unique) simp_all
  ultimately have m: "f64_to_ll ((of_ll 29 / Fin 100) * Fin 100) = Inr 28"
    by (simp add: f64_to_ll_def trunc_def is_ll_def)
  define r where "r = (new_result 29 29)\<lparr>num_entries := 29\<rparr>"
  have "recorded r (replicate 29 0)" by (simp add: r_def recorded_def new_result_def is_int_def)
  moreover have "mediantime r = 0" by (simp add: r_def new_result_def)
  ultimately show "\<exists>r'. check_pass_criteria ((new_result 29 29)\<lparr>num_entries := 29\<rparr>) HARD_RT
      \<lparr>hrt = \<lparr>acceptable_percentage = Fin 100, range_percentage = Fin 0, multiplier = Fin 1\<rparr>, srt = s, grt = g\<rparr> 0
      = Inr (0, r') \<and> min_acceptable_iterations r' = 28"
    using m check_pass_ok [of r "replicate 29 0" HARD_RT
      "\<lparr>hrt = \<lparr>acceptable_percentage = Fin 100, range_percentage = Fin 0, multiplier = Fin 1\<rparr>, srt = s, grt = g\<rparr>" 100]
    by (auto simp: mode_vals_def limit_def conforming_def outlying_def f64_cmp simp flip: r_def)
qed

lemma full_percentage_may_lose_one_witness:
  "(\<exists>m. f64_to_ll ((of_ll 1000 / Fin 100) * Fin 100) = Inr m \<and> 1000 - 1 \<le> m \<and> m \<le> 1000)
    \<and> (\<exists>r'. check_pass_criteria ((new_result 29 29)\<lparr>num_entries := 29\<rparr>) HARD_RT
          \<lparr>hrt = \<lparr>acceptable_percentage = Fin 100, range_percentage = Fin 0, multiplier = Fin 1\<rparr>,
            srt = srt fifty_params, grt = grt fifty_params\<rparr> 0
        = Inr (0, r') \<and> min_acceptable_iterations r' = 28)"
  by (rule full_percentage_may_lose_one) (simp_all add: is_int_def)

text \<open>
  Called with \<^verbatim>\<open>synch\<close> set, \<^verbatim>\<open>check_pass_criteria\<close> never returns: it locks the mutex of the
  result where it should release it.
\<close>

lemma check_pass_synch_deadlocks:
  assumes "recorded r ts" and "acceptable_percentage (mode_vals mode p) = Fin a" and "0 \<le> a" "a \<le> 100"
  shows "check_pass_criteria r mode p 1 = Inl Self_deadlock"
proof -
  let ?r = "r\<lparr>tmutex := True\<rparr>"
  have n: "num_entries r = int (length ts)" "length ts \<le> length (tvalues r)" "int (length ts) \<le> INT_MAX"
    "\<not> tmutex r" "is_int (int (length ts))"
    using assms(1) by (auto simp: recorded_def is_int_def)
  show ?thesis
    using n min_acceptable_bounds [OF n(5) _ assms(3,4)] count_outliers_ok [OF n(2,3)] assms(2)
    by (auto simp: check_pass_criteria_def synch_do_def mutex_lock_def Let_def)
qed

lemma check_pass_synch_deadlocks_witness:
  "check_pass_criteria (new_result 4 4) SOFT_RT fifty_params 1 = Inl Self_deadlock"
  by (rule check_pass_synch_deadlocks [where ts = "[]" and a = 50])
    (simp_all add: new_result_recorded is_int_def fifty_params_def mode_vals_def Let_def)

text \<open>
  A cloned result holds the times and statistics of its source in its own array, and later
  changes of one do not reach the other.
\<close>

lemma clone_is_deep:
  assumes "recorded s ts" and "length (tvalues d) = length (tvalues s)"
  shows "\<exists>d'. clone_results d s = Inr d' \<and> recorded d' ts \<and> drop (length ts) (tvalues d') = drop (length ts) (tvalues d)
    \<and> d' = s\<lparr>tvalues := tvalues d'\<rparr>"
proof -
  let ?n = "length ts"
  have n: "num_entries s = int ?n" "?n \<le> length (tvalues s)" using assms(1) by (auto simp: recorded_def)
  have "\<exists>vs. for_res [0..<?n] (\<lambda>i vs. bind_res (aread (tvalues s) (int i)) (\<lambda>v. awrite vs (int i) v)) (tvalues d)
      = Inr vs \<and> (length vs = length (tvalues s) \<and> drop ?n vs = drop ?n (tvalues d))"
  proof (rule for_res_inv [where P = "\<lambda>i vs. length vs = length (tvalues s) \<and> drop ?n vs = drop ?n (tvalues d)"])
  qed (use n assms(2) in \<open>auto simp: aread_ok awrite_ok\<close>)
  with n(1) have "\<exists>d'. clone_results d s = Inr d' \<and> drop ?n (tvalues d') = drop ?n (tvalues d)"
    by (auto simp: clone_results_def)
  with clone_results_ok [OF assms] show ?thesis by auto
qed

lemma clone_is_deep_witness:
  "\<exists>d'. clone_results (new_result 3 2) ((new_result 1 2)\<lparr>num_entries := 1, tvalues := [5, 0], mintime := 5, maxtime := 5\<rparr>) = Inr d'
    \<and> recorded d' [5] \<and> drop (length [5 :: int]) (tvalues d') = drop (length [5 :: int]) (tvalues (new_result 3 2))
    \<and> d' = ((new_result 1 2)\<lparr>num_entries := 1, tvalues := [5, 0], mintime := 5, maxtime := 5\<rparr>)\<lparr>tvalues := tvalues d'\<rparr>"
  by (rule clone_is_deep) (simp_all add: recorded_def new_result_def is_int_def)

text \<open>
  \<^verbatim>\<open>normalize_result\<close> replaces exactly the times below the minimum, reports how many these
  were, and afterwards no time is below the minimum when the replacement is not.
\<close>

lemma normalize_result_ok:
  assumes "recorded r ts" and "ts \<noteq> []" and "times_ok b ts" and "0 \<le> ntime" "ntime \<le> b" "min_time \<le> ntime"
  shows "\<exists>r'. normalize_result r min_time ntime = Inr (int (length (filter (\<lambda>t. t < min_time) ts)), r')
    \<and> take (length ts) (tvalues r') = map (\<lambda>t. if t < min_time then ntime else t) ts
    \<and> (\<forall>t \<in> set (take (length ts) (tvalues r')). min_time \<le> t)
    \<and> mediantime r' = \<lfloor>median_of (map (\<lambda>t. if t < min_time then ntime else t) ts)\<rfloor>
    \<and> meantime r' = mean_of (map (\<lambda>t. if t < min_time then ntime else t) ts)"
proof -
  let ?n = "length ts" and ?ts = "map (normalized min_time ntime) ts"
  have n: "num_entries r = int ?n" "?n \<le> length (tvalues r)" "take ?n (tvalues r) = ts" "int ?n \<le> INT_MAX" "?n \<noteq> 0"
    using assms(1,2) by (auto simp: recorded_def is_int_def)
  define vs where "vs = ?ts @ drop ?n (tvalues r)"
  have vals: "normalize_values (tvalues r) ?n min_time ntime = Inr (vs, int (length (filter (\<lambda>v. v < min_time) ts)))"
    using normalize_values_ok [OF n(2,4)] n(3) by (simp add: vs_def)
  have ok: "times_ok b ?ts" and ne: "?ts \<noteq> []"
    using assms by (auto simp: times_ok_def normalized_def)
  have "b \<le> 3037000499" using times_ok_bound [OF ok ne] .
  then have small: "\<forall>v \<in> set ?ts. \<bar>v\<bar> \<le> 4000000000000000" using ok by (auto simp: times_ok_def)
  have tk: "take ?n vs = ?ts" "?n \<le> length vs" by (simp_all add: vs_def)
  have med: "get_median vs (int ?n) = Inr (Fin (median_of ?ts))"
    using get_median_ok [of ?n vs] tk n(5) small by simp
  define r1 where "r1 = normalize_extremes (r\<lparr>tvalues := vs\<rparr>) min_time ntime"
  define r2 where "r2 = r1\<lparr>mediantime := \<lfloor>median_of ?ts\<rfloor>\<rparr>"
  have r1: "tvalues r1 = vs" "num_entries r1 = int ?n" using n(1) by (simp_all add: r1_def normalize_extremes_def Let_def)
  have std: "compute_std_time r2 0 = Inr (r2\<lparr>meantime := mean_of ?ts, stdtime := std_of ?ts\<rparr>)"
    using compute_std_time_ok [of 0 b ?n r2] times_ok_stamps [OF ok ne] tk n(5) r1 by (simp add: r2_def)
  have "normalize_result r min_time ntime = Inr (int (length (filter (\<lambda>t. t < min_time) ts)),
      r2\<lparr>meantime := mean_of ?ts, stdtime := std_of ?ts\<rparr>)"
    using vals med std n(1) r1 median_to_ll [OF _ ne] small times_ok_mem [OF ok]
    by (simp add: normalize_result_def Let_def flip: r1_def r2_def)
  moreover have "(\<lambda>t. if t < min_time then ntime else t) = normalized min_time ntime"
    by (simp add: fun_eq_iff normalized_def)
  ultimately show ?thesis using tk r1 assms(6) by (auto simp: r2_def normalized_def)
qed

lemma normalize_result_ok_witness:
  "\<exists>r'. normalize_result one_time 150 200 = Inr (int (length (filter (\<lambda>t. t < 150) [100 :: int])), r')
    \<and> take (length [100 :: int]) (tvalues r') = map (\<lambda>t. if t < 150 then 200 else t) [100]
    \<and> (\<forall>t \<in> set (take (length [100 :: int]) (tvalues r')). 150 \<le> t)
    \<and> mediantime r' = \<lfloor>median_of (map (\<lambda>t. if t < 150 then 200 else t) [100])\<rfloor>
    \<and> meantime r' = mean_of (map (\<lambda>t. if t < 150 then 200 else t) [100])"
  by (rule normalize_result_ok [OF one_time_recorded, where b = 200]) (simp_all add: times_ok_def)

text \<open>
  \<^verbatim>\<open>fill_acceptable_percentages\<close> sets the percentages of the current mode and hands out the
  old ones, and filling those in again restores the parameters, as the timer test relies on.
\<close>

lemma fill_and_restore:
  assumes "params_f32 p" and "fill_acceptable_percentages p mode pct rng True True = (p', Some old_pct, Some old_rng)"
  shows "get_acceptable_percent p' mode = to_f32 pct \<and> get_range_percent p' mode = to_f32 rng
    \<and> fst (fill_acceptable_percentages p' mode old_pct old_rng False False) = p"
proof -
  have "p' = fst (fill_acceptable_percentages p mode pct rng True True)" using assms(2) by simp
  then have "get_acceptable_percent p' mode = to_f32 pct \<and> get_range_percent p' mode = to_f32 rng"
    by (cases mode) (simp_all add: fill_acceptable_percentages_def fill_vals_def
        get_acceptable_percent_def get_range_percent_def)
  with fill_then_restore [OF assms] show ?thesis by simp
qed

lemma fill_and_restore_witness:
  "\<exists>p'. fill_acceptable_percentages zero_params HARD_RT (Fin 99) (Fin 5) True True = (p', Some (Fin 0), Some (Fin 0))
   \<and> get_acceptable_percent p' HARD_RT = to_f32 (Fin 99) \<and> get_range_percent p' HARD_RT = to_f32 (Fin 5)
   \<and> fst (fill_acceptable_percentages p' HARD_RT (Fin 0) (Fin 0) False False) = zero_params"
proof -
  have "params_f32 zero_params" by (simp add: zero_params_def params_f32_def is_f32_def Let_def rnd32_def pack_def)
  moreover obtain p' where "fill_acceptable_percentages zero_params HARD_RT (Fin 99) (Fin 5) True True
      = (p', Some (Fin 0), Some (Fin 0))"
    by (simp add: fill_acceptable_percentages_def zero_params_def Let_def)
  ultimately show ?thesis using fill_and_restore by blast
qed

end
