(* ===== verification/Vector.thy ===== *)
theory Vector
  imports Prelude
begin

text \<open>
  \<^verbatim>\<open>testcase/util/result_mgmt/vector.c\<close>: a singly linked list with a pointer to its last node
  and a size.  The nodes live in an explicit heap, because the nodes are updated in place and
  allocation can fail.  \<open>vrep\<close> relates a vector to the list of its elements; the operations are
  shown to implement the list operations, and an interface (\<open>vector_ops\<close>) carries what the
  clients need.  \<open>vget\<close> is the list-level reading that the components above use.
\<close>

section \<open>The heap and the vector\<close>

type_synonym addr = nat

record 'a vector_node =
  node_data :: 'a
  node_next :: "addr option"

text \<open>\<open>brk\<close> is the next address handed out, \<open>avail\<close> how many allocations still succeed.\<close>

record 'a vheap =
  cells :: "addr \<Rightarrow> 'a vector_node option"
  brk :: addr
  avail :: nat

record vector_t =
  vsize :: int
  vhead :: "addr option"
  vlast :: "addr option"

definition calloc_node :: "'a vheap \<Rightarrow> 'a \<Rightarrow> addr option \<times> 'a vheap" where
  "calloc_node H x = (if avail H = 0 then (None, H)
     else (Some (brk H), H\<lparr>cells := (cells H)(brk H \<mapsto> \<lparr>node_data = x, node_next = None\<rparr>),
                           brk := Suc (brk H), avail := avail H - 1\<rparr>))"

section \<open>The operations\<close>

definition initialize_vector :: vector_t where
  "initialize_vector = \<lparr>vsize = 0, vhead = None, vlast = None\<rparr>"

text \<open>\<^verbatim>\<open>v->last->next = node\<close>\<close>

definition set_next :: "'a vheap \<Rightarrow> addr option \<Rightarrow> addr \<Rightarrow> 'a vheap res" where
  "set_next H p a = (case p of None \<Rightarrow> Inl Null_deref
     | Some q \<Rightarrow> (case cells H q of None \<Rightarrow> Inl Out_of_bounds
        | Some n \<Rightarrow> Inr (H\<lparr>cells := (cells H)(q \<mapsto> n\<lparr>node_next := Some a\<rparr>)\<rparr>)))"

definition add_element :: "'a vheap \<Rightarrow> vector_t \<Rightarrow> 'a \<Rightarrow> (int \<times> 'a vheap \<times> vector_t) res" where
  "add_element H v x = (case calloc_node H x of
       (None, H1) \<Rightarrow> Inr (1, H1, v)
     | (Some a, H1) \<Rightarrow>
         bind_res (if vhead v = None then Inr (H1, v\<lparr>vhead := Some a, vlast := Some a\<rparr>)
                   else bind_res (set_next H1 (vlast v) a) (\<lambda>H2. Inr (H2, v\<lparr>vlast := Some a\<rparr>)))
           (\<lambda>(H2, v2). bind_res (chk_int (vsize v2 + 1)) (\<lambda>n. Inr (0, H2, v2\<lparr>vsize := n\<rparr>))))"

text \<open>
  \<^verbatim>\<open>create_vector\<close> allocates the vector itself; \<open>None\<close> is the null pointer it returns when the
  allocation fails.  \<^verbatim>\<open>create_vector2\<close> does not look at the result of \<^verbatim>\<open>add_element\<close>.
\<close>

definition create_vector :: "'a vheap \<Rightarrow> vector_t option \<times> 'a vheap" where
  "create_vector H = (if avail H = 0 then (None, H)
     else (Some initialize_vector, H\<lparr>brk := Suc (brk H), avail := avail H - 1\<rparr>))"

definition create_vector2 :: "'a vheap \<Rightarrow> 'a \<Rightarrow> (vector_t option \<times> 'a vheap) res" where
  "create_vector2 H x = (case create_vector H of
       (None, H1) \<Rightarrow> Inr (None, H1)
     | (Some v, H1) \<Rightarrow> bind_res (add_element H1 v x) (\<lambda>(rc, H2, v2). Inr (Some v2, H2)))"

text \<open>Following \<open>k\<close> times \<^verbatim>\<open>node = node->next\<close>, then reading \<^verbatim>\<open>node->data\<close>.\<close>

fun node_walk :: "'a vheap \<Rightarrow> addr option \<Rightarrow> nat \<Rightarrow> 'a res" where
  "node_walk H None k = Inl Null_deref"
| "node_walk H (Some a) 0 = (case cells H a of None \<Rightarrow> Inl Out_of_bounds | Some n \<Rightarrow> Inr (node_data n))"
| "node_walk H (Some a) (Suc k) = (case cells H a of None \<Rightarrow> Inl Out_of_bounds
     | Some n \<Rightarrow> node_walk H (node_next n) k)"

definition get_element_at :: "'a vheap \<Rightarrow> vector_t \<Rightarrow> int \<Rightarrow> 'a option res" where
  "get_element_at H v index = (if index < vsize v
     then bind_res (node_walk H (vhead v) (nat index)) (\<lambda>x. Inr (Some x)) else Inr None)"

text \<open>
  \<^verbatim>\<open>free_elements\<close>: the loop frees each node after reading its successor; the vector keeps its
  head, last and size.  The number of allocated nodes bounds the loop.
\<close>

fun free_nodes :: "nat \<Rightarrow> 'a vheap \<Rightarrow> addr option \<Rightarrow> 'a vheap res option" where
  "free_nodes _ H None = Some (Inr H)"
| "free_nodes 0 H (Some a) = None"
| "free_nodes (Suc k) H (Some a) = (case cells H a of None \<Rightarrow> Some (Inl Out_of_bounds)
     | Some n \<Rightarrow> free_nodes k (H\<lparr>cells := (cells H)(a := None)\<rparr>) (node_next n))"

definition free_elements :: "'a vheap \<Rightarrow> vector_t \<Rightarrow> 'a vheap res option" where
  "free_elements H v = free_nodes (brk H) H (vhead v)"

section \<open>The list a vector stands for\<close>

fun chain :: "'a vheap \<Rightarrow> addr option \<Rightarrow> addr list \<Rightarrow> bool" where
  "chain H p [] \<longleftrightarrow> p = None"
| "chain H p (a # as) \<longleftrightarrow> p = Some a \<and> (\<exists>n. cells H a = Some n \<and> chain H (node_next n) as)"

definition vrep :: "'a vheap \<Rightarrow> vector_t \<Rightarrow> addr list \<Rightarrow> 'a list \<Rightarrow> bool" where
  "vrep H v as xs \<longleftrightarrow> chain H (vhead v) as \<and> distinct as \<and> (\<forall>a \<in> set as. a < brk H) \<and>
     vsize v = int (length as) \<and> vlast v = (if as = [] then None else Some (last as)) \<and>
     map (\<lambda>a. node_data (the (cells H a))) as = xs"

text \<open>What the components above see: the element, or the null pointer they then dereference.\<close>

definition vget :: "'a list \<Rightarrow> int \<Rightarrow> 'a res" where
  "vget xs i = (if i < int (length xs) \<and> xs \<noteq> [] then Inr (xs ! nat i) else Inl Null_deref)"

lemma vget_Inr [simp]:
  "vget xs i = Inr x \<longleftrightarrow> i < int (length xs) \<and> xs \<noteq> [] \<and> x = xs ! nat i"
  by (auto simp: vget_def)

lemma chain_allocated: "chain H p as \<Longrightarrow> a \<in> set as \<Longrightarrow> \<exists>n. cells H a = Some n"
  by (induction as arbitrary: p) auto

lemma chain_None [simp]: "chain H None as \<longleftrightarrow> as = []"
  by (cases as) auto

lemma chain_frame: "(\<And>a. a \<in> set as \<Longrightarrow> cells H' a = cells H a) \<Longrightarrow> chain H' p as = chain H p as"
  by (induction as arbitrary: p) auto

lemma chain_snoc:
  assumes "chain H p as" and "distinct as" and "as \<noteq> []" and "a \<notin> set as"
    and "cells H (last as) = Some n" and "cells H' a = Some m" and "node_next m = None"
    and "cells H' (last as) = Some (n\<lparr>node_next := Some a\<rparr>)"
    and "\<And>b. b \<noteq> last as \<Longrightarrow> b \<noteq> a \<Longrightarrow> cells H' b = cells H b"
  shows "chain H' p (as @ [a])"
  using assms
proof (induction as arbitrary: p)
  case (Cons b bs)
  show ?case
  proof (cases "bs = []")
    case True
    with Cons.prems show ?thesis by auto
  next
    case False
    then have "last bs \<in> set bs" by simp
    with Cons.prems(2) have "b \<noteq> last bs" by auto
    with Cons.prems(4) False have "cells H' b = cells H b"
      by (intro Cons.prems(9)) auto
    moreover obtain k where "cells H b = Some k" "chain H (node_next k) bs" "p = Some b"
      using Cons.prems by auto
    ultimately show ?thesis using Cons.IH [of "node_next k"] Cons.prems False by auto
  qed
qed simp

lemma node_walk_chain:
  "chain H p as \<Longrightarrow> k < length as \<Longrightarrow> node_walk H p k = Inr (node_data (the (cells H (as ! k))))"
proof (induction as arbitrary: p k)
  case (Cons a as)
  then show ?case by (cases k) auto
qed simp

section \<open>The operations on the list\<close>

lemma create_vector_rep: "0 < avail H \<Longrightarrow> \<exists>H'. create_vector H = (Some initialize_vector, H')
    \<and> vrep H' initialize_vector [] [] \<and> avail H' = avail H - 1"
  by (simp add: create_vector_def vrep_def initialize_vector_def)

lemma get_element_at_rep:
  "vrep H v as xs \<Longrightarrow> get_element_at H v (int k)
     = Inr (if k < length xs then Some (xs ! k) else None)"
  by (auto simp: vrep_def get_element_at_def node_walk_chain)

lemma add_element_step:
  assumes rep: "vrep H v as xs" and room: "0 < avail H" and sz: "int (length as) < INT_MAX"
  shows "\<exists>H' v'. add_element H v x = Inr (0, H', v') \<and> vrep H' v' (as @ [brk H]) (xs @ [x])
     \<and> avail H' = avail H - 1 \<and> brk H' = Suc (brk H)
     \<and> (\<forall>b. b \<noteq> brk H \<longrightarrow> b \<notin> set as \<longrightarrow> cells H' b = cells H b)"
proof (cases "as = []")
  case True
  with assms show ?thesis
    by (auto simp: vrep_def add_element_def calloc_node_def is_int_def chk_int_def bind_res_def)
next
  case False
  let ?a = "brk H"
  have ch: "chain H (vhead v) as" and d: "distinct as" and lt: "\<forall>a\<in>set as. a < ?a"
    and sv: "vsize v = int (length as)" and lv: "vlast v = Some (last as)"
    and xs: "map (\<lambda>a. node_data (the (cells H a))) as = xs"
    using rep False by (auto simp: vrep_def)
  have la: "last as \<in> set as" using False by simp
  obtain n where n: "cells H (last as) = Some n" using chain_allocated [OF ch la] by blast
  have na: "?a \<notin> set as" "last as \<noteq> ?a" using lt la by auto
  have hd: "vhead v \<noteq> None" using ch False by (cases as) auto
  define H1 where "H1 = H\<lparr>cells := (cells H)(?a \<mapsto> \<lparr>node_data = x, node_next = None\<rparr>),
                           brk := Suc ?a, avail := avail H - 1\<rparr>"
  define H2 where "H2 = H1\<lparr>cells := (cells H1)(last as \<mapsto> n\<lparr>node_next := Some ?a\<rparr>)\<rparr>"
  define v2 where "v2 = v\<lparr>vlast := Some ?a, vsize := vsize v + 1\<rparr>"
  have eq: "add_element H v x = Inr (0, H2, v2)"
    using room hd lv n na sv sz
    by (auto simp: add_element_def calloc_node_def set_next_def H1_def H2_def v2_def
        is_int_def chk_int_def)
  have "chain H2 (vhead v) (as @ [?a])"
    by (rule chain_snoc [OF ch d False na(1) n, of _ "\<lparr>node_data = x, node_next = None\<rparr>"])
      (use na in \<open>auto simp: H1_def H2_def\<close>)
  moreover have "map (\<lambda>a. node_data (the (cells H2 a))) as = xs"
    unfolding xs [symmetric] using na n by (auto simp: H1_def H2_def)
  ultimately have "vrep H2 v2 (as @ [?a]) (xs @ [x])"
    using d lt na sv by (auto simp: vrep_def v2_def H1_def H2_def)
  then show ?thesis using eq la by (auto simp: H1_def H2_def)
qed

lemma add_element_exhausted: "avail H = 0 \<Longrightarrow> add_element H v x = Inr (1, H, v)"
  by (simp add: add_element_def calloc_node_def)

lemma free_nodes_chain:
  assumes "chain H p as" and "distinct as" and "length as \<le> k"
  shows "\<exists>H'. free_nodes k H p = Some (Inr H') \<and> brk H' = brk H
    \<and> cells H' = (\<lambda>b. if b \<in> set as then None else cells H b)"
  using assms
proof (induction as arbitrary: p H k)
  case Nil
  then show ?case by auto
next
  case (Cons a as)
  then obtain j where k: "k = Suc j" by (cases k) auto
  from Cons.prems obtain n where n: "cells H a = Some n" and ch: "chain H (node_next n) as"
    and p: "p = Some a" by auto
  let ?H = "H\<lparr>cells := (cells H)(a := None)\<rparr>"
  have "chain ?H (node_next n) as"
    using ch Cons.prems(2) by (subst chain_frame) auto
  from Cons.IH [OF this] Cons.prems k
  obtain H' where "free_nodes j ?H (node_next n) = Some (Inr H')" "brk H' = brk ?H"
    "cells H' = (\<lambda>b. if b \<in> set as then None else cells ?H b)" by auto
  then show ?case using n p k by (auto simp: fun_eq_iff)
qed

lemma chain_length_brk:
  assumes "distinct as" and "\<forall>a \<in> set as. a < brk H"
  shows "length as \<le> brk H"
proof -
  have "set as \<subseteq> {..<brk H}" using assms(2) by auto
  from card_mono [OF _ this] show ?thesis using assms(1) by (simp add: distinct_card)
qed

section \<open>The interface\<close>

text \<open>Adding the elements of a list one after the other, as the loops of the clients do.\<close>

fun add_all :: "('h \<Rightarrow> 'v \<Rightarrow> 'a \<Rightarrow> (int \<times> 'h \<times> 'v) res) \<Rightarrow> 'h \<Rightarrow> 'v \<Rightarrow> 'a list \<Rightarrow> ('h \<times> 'v) res" where
  "add_all add h v [] = Inr (h, v)"
| "add_all add h v (x # xs) = bind_res (add h v x) (\<lambda>(rc, h', v'). add_all add h' v' xs)"

locale vector_ops =
  fixes add :: "'h \<Rightarrow> 'v \<Rightarrow> 'a \<Rightarrow> (int \<times> 'h \<times> 'v) res"
    and get :: "'h \<Rightarrow> 'v \<Rightarrow> int \<Rightarrow> 'a option res"
    and rep :: "'h \<Rightarrow> 'v \<Rightarrow> 'a list \<Rightarrow> bool"
    and room :: "'h \<Rightarrow> nat"
  assumes add_law: "rep h v xs \<Longrightarrow> 0 < room h \<Longrightarrow> int (length xs) < INT_MAX \<Longrightarrow>
      \<exists>h' v'. add h v x = Inr (0, h', v') \<and> rep h' v' (xs @ [x]) \<and> room h' = room h - 1"
    and get_law: "rep h v xs \<Longrightarrow> get h v (int k) = Inr (if k < length xs then Some (xs ! k) else None)"
begin

lemma add_all_law:
  assumes "rep h v ys" and "length xs \<le> room h" and "int (length ys + length xs) \<le> INT_MAX"
  shows "\<exists>h' v'. add_all add h v xs = Inr (h', v') \<and> rep h' v' (ys @ xs) \<and> room h' = room h - length xs"
  using assms
proof (induction xs arbitrary: h v ys)
  case Nil
  then show ?case by auto
next
  case (Cons x xs)
  from Cons.prems obtain h' v' where "add h v x = Inr (0, h', v')" "rep h' v' (ys @ [x])"
    "room h' = room h - 1"
    using add_law [of h v ys x] by auto
  with Cons.IH [of h' v' "ys @ [x]"] Cons.prems show ?case by auto
qed

lemma build_then_get:
  assumes "rep h v []" and "length xs \<le> room h" and "int (length xs) \<le> INT_MAX" and "k < length xs"
  shows "\<exists>h' v'. add_all add h v xs = Inr (h', v') \<and> get h' v' (int k) = Inr (Some (xs ! k))"
  using add_all_law [of h v "[]" xs] assms get_law by fastforce

end

definition vlist :: "'a vheap \<Rightarrow> vector_t \<Rightarrow> 'a list \<Rightarrow> bool" where
  "vlist H v xs \<longleftrightarrow> (\<exists>as. vrep H v as xs)"

interpretation vec: vector_ops add_element get_element_at vlist avail
proof unfold_locales
  fix h :: "'a vheap" and v xs x
  assume rep: "vlist h v xs" and room: "0 < avail h" and sz: "int (length xs) < INT_MAX"
  from rep obtain as where r: "vrep h v as xs" by (auto simp: vlist_def)
  then have "length as = length xs" by (auto simp: vrep_def)
  with add_element_step [OF r room, of x] sz
  show "\<exists>h' v'. add_element h v x = Inr (0, h', v') \<and> vlist h' v' (xs @ [x]) \<and> avail h' = avail h - 1"
    unfolding vlist_def by fastforce
next
  fix h :: "'a vheap" and v xs k
  assume "vlist h v xs"
  then show "get_element_at h v (int k) = Inr (if k < length xs then Some (xs ! k) else None)"
    by (auto simp: vlist_def get_element_at_rep)
qed

section \<open>Properties\<close>

text \<open>
  The elements of a vector that was filled by \<^verbatim>\<open>add_element\<close> while memory lasts are read back
  by \<^verbatim>\<open>get_element_at\<close> in the order in which they were added, and an index past the end
  gives the null pointer.
\<close>

lemma vector_reads_back:
  assumes "length xs < avail H" and "int (length xs) \<le> INT_MAX"
  shows "\<exists>H1 H2 v. create_vector H = (Some initialize_vector, H1)
    \<and> add_all add_element H1 initialize_vector xs = Inr (H2, v)
    \<and> (\<forall>k. get_element_at H2 v (int k) = Inr (if k < length xs then Some (xs ! k) else None))"
proof -
  obtain H1 where H1: "create_vector H = (Some initialize_vector, H1)" "avail H1 = avail H - 1"
    "vlist H1 initialize_vector []"
    using create_vector_rep [of H] assms(1) by (auto simp: vlist_def)
  have "length xs \<le> avail H1" using H1(2) assms(1) by simp
  then obtain H2 v where "add_all add_element H1 initialize_vector xs = Inr (H2, v)" "vlist H2 v xs"
    using vec.add_all_law [OF H1(3), of xs] assms(2) by auto
  with H1 vec.get_law show ?thesis by blast
qed

lemma vector_reads_back_witness:
  "\<exists>H1 H2 v. create_vector \<lparr>cells = Map.empty, brk = 0, avail = 4\<rparr> = (Some initialize_vector, H1)
    \<and> add_all add_element H1 initialize_vector [7, 8, 9 :: int] = Inr (H2, v)
    \<and> (\<forall>k. get_element_at H2 v (int k) = Inr (if k < length [7, 8, 9 :: int] then Some ([7, 8, 9 :: int] ! k) else None))"
  by (rule vector_reads_back) simp_all

text \<open>
  \<^verbatim>\<open>free_elements\<close> returns, reads no freed node, frees exactly the nodes of the vector and
  leaves every other allocation alone.
\<close>

lemma free_elements_frees:
  assumes "vrep H v as xs"
  shows "\<exists>H'. free_elements H v = Some (Inr H') \<and>
    cells H' = (\<lambda>b. if b \<in> set as then None else cells H b)"
proof -
  have "chain H (vhead v) as" "distinct as" "length as \<le> brk H"
    using assms chain_length_brk by (auto simp: vrep_def)
  from free_nodes_chain [OF this] show ?thesis by (auto simp: free_elements_def)
qed

definition three_nodes :: "int vheap" where
  "three_nodes = \<lparr>cells = [2 \<mapsto> \<lparr>node_data = 5, node_next = Some 3\<rparr>, 3 \<mapsto> \<lparr>node_data = 6, node_next = None\<rparr>,
     4 \<mapsto> \<lparr>node_data = 7, node_next = None\<rparr>], brk = 5, avail = 0\<rparr>"

lemma free_elements_frees_witness:
  "\<exists>H'. free_elements three_nodes \<lparr>vsize = 2, vhead = Some 2, vlast = Some 3\<rparr> = Some (Inr H')
    \<and> cells H' = (\<lambda>b. if b \<in> set [2, 3] then None else cells three_nodes b)"
  by (rule free_elements_frees [where xs = "[5, 6]"]) (simp add: vrep_def three_nodes_def)

end
