(* ===== verification/Scores.thy ===== *)
theory Scores
  imports Result_Mgmt Vector "HOL-Library.Multiset"
begin

text \<open>
  \<^verbatim>\<open>testcase/util/result_mgmt/result_mgmt.c\<close>, second part: the scores computed from the recorded
  times and the table of test results.  A vector is the list of its elements, read by \<open>vget\<close>
  (theory Vector shows that the linked vectors implement it); a table entry holds copies of the
  results, which no test changes after it has entered them.  \<^verbatim>\<open>pow\<close> of the mathematics library
  is the parameter \<open>pw\<close>.
\<close>

section \<open>Data\<close>

record test_score =
  score_result :: "test_results list"
  consistency_score :: f64
  min_throughput :: f64
  max_throughput :: f64
  mean_throughput :: f64
  wgt_throughput :: f64
  throughput_score :: f64

record final_bm_test_result =
  fb_score :: "test_score list"
  throughput_test_score :: f64
  consistency_test_score :: f64
  fb_test_score :: f64
  test_pass :: int

record result_entry =
  fbmt :: "final_bm_test_result option"
  bm_test :: "benchmark_test option"
  valid :: int

type_synonym result_table = "result_entry list"

record system_scores =
  system_consistency_score :: f64
  system_throughput_score :: f64
  system_score :: f64

definition empty_table :: result_table where
  "empty_table = replicate MAX_TESTS \<lparr>fbmt = None, bm_test = None, valid = 0\<rparr>"

section \<open>The contribution of one time\<close>

definition tens_below :: "f64 \<Rightarrow> f64 res" where
  "tens_below percent = bind_res (f64_to_int (percent + Fin 10)) (\<lambda>i.
     bind_res (div_int i 10) (\<lambda>d. Inr (of_ll d * Fin 10)))"

definition tens_above :: "f64 \<Rightarrow> f64 res" where
  "tens_above percent = (let difference = percent - Fin 100 in
     bind_res (f64_to_int difference) (\<lambda>i. bind_res (f64_to_int (of_ll i / Fin 10)) (\<lambda>d.
     bind_res (f64_to_int (of_ll d * Fin 10)) (\<lambda>t. Inr (Fin 100 - of_ll t)))))"

definition get_contribution :: "int \<Rightarrow> f64 \<Rightarrow> f64 res" where
  "get_contribution v median = (let diff = of_ll v - median in
     if feq diff (Fin 0) then Inr (Fin 100)
     else if feq diff (- median) then Inr (Fin 10)
     else if feq diff median then Inr (Fin 0)
     else (let diff = (if diff < Fin 0 then - diff else diff) in
       if median < diff then Inr (Fin 0)
       else (let percent = of_ll v * Fin 100 / median in
         if Fin 200 < percent then Inr (Fin 0)
         else if feq percent (Fin 100) then Inr (Fin 100)
         else if percent < Fin 100 then tens_below percent
         else tens_above percent)))"

section \<open>The combined score\<close>

text \<open>The exchange sort of the medians.\<close>

definition swap_if :: "nat \<Rightarrow> nat \<Rightarrow> f64 list \<Rightarrow> f64 list res" where
  "swap_if i j a = bind_res (aread a (int i)) (\<lambda>x. bind_res (aread a (int j)) (\<lambda>y.
     if y < x then bind_res (awrite a (int i) y) (\<lambda>a. awrite a (int j) x) else Inr a))"

definition exchange_sort :: "nat \<Rightarrow> f64 list \<Rightarrow> f64 list res" where
  "exchange_sort n a = for_res [0..<n - 1] (\<lambda>i. for_res [Suc i..<n] (swap_if i)) a"

definition median_of_medians :: "test_results list \<Rightarrow> f64 res" where
  "median_of_medians rs = bind_res (exchange_sort (length rs) (map (\<lambda>r. of_ll (mediantime r)) rs)) (\<lambda>a.
     let n = int (length rs) in
     if n smod 2 = 0 then bind_res (aread a (n sdiv 2)) (\<lambda>x. bind_res (aread a (n sdiv 2 - 1)) (\<lambda>y.
       Inr ((x + y) / Fin 2)))
     else aread a (n sdiv 2))"

record score_sums =
  sum_min :: f64
  sum_max :: f64
  sum_throughput :: f64
  sum_combined :: f64
  sum_consistency :: f64

abbreviation scale :: f64 where "scale \<equiv> Fin 1000000"

definition score_step :: "int list \<Rightarrow> f64 \<Rightarrow> nat \<Rightarrow> score_sums \<Rightarrow> score_sums res" where
  "score_step vs median j s = bind_res (aread vs (int j)) (\<lambda>v.
     let throughput = Fin 1 * scale / of_ll v;
         s = (if throughput < sum_min s then s\<lparr>sum_min := throughput\<rparr>
              else if sum_max s < throughput then s\<lparr>sum_max := throughput\<rparr> else s);
         s = s\<lparr>sum_throughput := sum_throughput s + throughput\<rparr> in
     bind_res (get_contribution v median) (\<lambda>c.
       Inr (s\<lparr>sum_combined := sum_combined s + (c * scale) / of_ll v,
              sum_consistency := sum_consistency s + c\<rparr>)))"

text \<open>
  \<^verbatim>\<open>result_length\<close> is never set to the number of results: only the times of the first one are
  read.  The throughput bounds start from the first value of the last result.
\<close>

definition generate_combined_score :: "test_results list \<Rightarrow> f64 \<Rightarrow> test_score list res" where
  "generate_combined_score rs reference =
     bind_res (median_of_medians rs) (\<lambda>median.
     bind_res (vget rs (int (length rs) - 1)) (\<lambda>last_r.
     bind_res (aread (tvalues last_r) 0) (\<lambda>v0.
     bind_res (vget rs 0) (\<lambda>r.
     let t0 = scale * Fin 1 / of_ll v0; n = of_ll (1 * num_entries r) in
     bind_res (for_res [0..<nat (num_entries r)] (score_step (tvalues r) median)
        \<lparr>sum_min = t0, sum_max = t0, sum_throughput = Fin 0, sum_combined = Fin 0, sum_consistency = Fin 0\<rparr>) (\<lambda>s.
     bind_res (guard_res Assert_failed (Fin 0 < reference)) (\<lambda>_.
       Inr [\<lparr>score_result = rs, consistency_score = sum_consistency s / n, min_throughput = sum_min s,
             max_throughput = sum_max s, mean_throughput = sum_throughput s / n,
             wgt_throughput = sum_combined s / (n * Fin 100),
             throughput_score = reference / median\<rparr>]))))))"

section \<open>The score of a test\<close>

definition create_test_score1 :: "test_results list \<Rightarrow> test_score" where
  "create_test_score1 rs = \<lparr>score_result = rs, consistency_score = Fin 0, min_throughput = Fin 0,
     max_throughput = Fin 0, mean_throughput = Fin 0, wgt_throughput = Fin 0, throughput_score = Fin 0\<rparr>"

definition create_test_score3 :: "test_results \<Rightarrow> test_score" where
  "create_test_score3 r = create_test_score1 [r]"

definition score_products :: "(f64 \<Rightarrow> f64 \<Rightarrow> f64) \<Rightarrow> f64 \<Rightarrow> test_score list \<Rightarrow> f64 \<times> f64 \<Rightarrow> f64 \<times> f64" where
  "score_products pw e scores = fold (\<lambda>s (t, c).
     (t * pw (throughput_score s) e, c * pw (consistency_score s) e)) scores"

definition compute_bm_test_result_scores ::
  "(f64 \<Rightarrow> f64 \<Rightarrow> f64) \<Rightarrow> final_bm_test_result \<Rightarrow> final_bm_test_result" where
  "compute_bm_test_result_scores pw f = (let n = length (fb_score f);
       (t, c) = (if n = 1 then (throughput_score (fb_score f ! 0), consistency_score (fb_score f ! 0))
                 else score_products pw (Fin 1 / of_ll (int n)) (fb_score f) (Fin 1, Fin 1)) in
     f\<lparr>consistency_test_score := c, throughput_test_score := t, fb_test_score := pw (c * t) (Fin (1 / 2))\<rparr>)"

definition create_final_bm_test_result1 ::
  "(f64 \<Rightarrow> f64 \<Rightarrow> f64) \<Rightarrow> test_score list \<Rightarrow> final_bm_test_result" where
  "create_final_bm_test_result1 pw scores = compute_bm_test_result_scores pw
     \<lparr>fb_score = scores, throughput_test_score = Fin (-1), consistency_test_score = Fin (-1),
      fb_test_score = Fin 0, test_pass = 0\<rparr>"

definition create_final_bm_test_result2 ::
  "(f64 \<Rightarrow> f64 \<Rightarrow> f64) \<Rightarrow> test_results \<Rightarrow> final_bm_test_result" where
  "create_final_bm_test_result2 pw r = create_final_bm_test_result1 pw [create_test_score3 r]"

section \<open>Entering results into the table\<close>

definition enter :: "result_table \<Rightarrow> final_bm_test_result \<Rightarrow> test_bucket_number \<Rightarrow> benchmark_test \<Rightarrow> result_table res" where
  "enter table f bucket bmtest =
     awrite table (int (bucket_no bucket)) \<lparr>fbmt = Some f, bm_test = Some bmtest, valid = 1\<rparr>"

definition add_result_to_result_table1 ::
  "result_table \<Rightarrow> test_results \<Rightarrow> test_bucket_number \<Rightarrow> benchmark_test \<Rightarrow> result_table res" where
  "add_result_to_result_table1 table r bucket bmtest = enter table
     \<lparr>fb_score = [\<lparr>score_result = [r], consistency_score = Fin 1, min_throughput = Fin 1,
        max_throughput = Fin 1, mean_throughput = Fin 1, wgt_throughput = Fin 1, throughput_score = Fin 1\<rparr>],
      throughput_test_score = Fin (-1), consistency_test_score = Fin (-1), fb_test_score = Fin 0,
      test_pass = 0\<rparr> bucket bmtest"

definition add_result_to_result_table2 :: "(f64 \<Rightarrow> f64 \<Rightarrow> f64) \<Rightarrow>
  result_table \<Rightarrow> test_results \<Rightarrow> test_bucket_number \<Rightarrow> benchmark_test \<Rightarrow> result_table res" where
  "add_result_to_result_table2 pw table r bucket bmtest =
     bind_res (generate_combined_score [r] (bt_reference_score bmtest)) (\<lambda>scores.
       enter table ((create_final_bm_test_result1 pw scores)\<lparr>test_pass := 1\<rparr>) bucket bmtest)"

definition add_result_to_result_table3 :: "(f64 \<Rightarrow> f64 \<Rightarrow> f64) \<Rightarrow>
  result_table \<Rightarrow> test_results list \<Rightarrow> test_bucket_number \<Rightarrow> benchmark_test \<Rightarrow> result_table res" where
  "add_result_to_result_table3 pw table rs bucket bmtest =
     bind_res (generate_combined_score rs (bt_reference_score bmtest)) (\<lambda>scores.
       enter table (create_final_bm_test_result1 pw scores) bucket bmtest)"

definition add_result_to_result_table4 :: "(f64 \<Rightarrow> f64 \<Rightarrow> f64) \<Rightarrow>
  result_table \<Rightarrow> test_score list \<Rightarrow> test_bucket_number \<Rightarrow> benchmark_test \<Rightarrow> int \<Rightarrow> result_table res" where
  "add_result_to_result_table4 pw table scores bucket bmtest pass =
     enter table ((create_final_bm_test_result1 pw scores)\<lparr>test_pass := pass\<rparr>) bucket bmtest"

definition add_result_to_result_table5 ::
  "result_table \<Rightarrow> test_score list \<Rightarrow> test_bucket_number \<Rightarrow> benchmark_test \<Rightarrow> int \<Rightarrow> result_table res" where
  "add_result_to_result_table5 table scores bucket bmtest pass = enter table
     \<lparr>fb_score = scores, throughput_test_score = Fin 0, consistency_test_score = Fin 0,
      fb_test_score = Fin 0, test_pass = pass\<rparr> bucket bmtest"

definition add_final_test_result ::
  "result_table \<Rightarrow> final_bm_test_result \<Rightarrow> test_bucket_number \<Rightarrow> result_table res" where
  "add_final_test_result table f bucket = bind_res (aread table (int (bucket_no bucket))) (\<lambda>e.
     awrite table (int (bucket_no bucket)) (e\<lparr>fbmt := Some f\<rparr>))"

section \<open>Reading the configuration results\<close>

text \<open>\<^verbatim>\<open>res_table[bucket].fbmt->score\<close>, its first element, and the first result of that.\<close>

definition first_result :: "result_table \<Rightarrow> test_bucket_number \<Rightarrow> test_results res" where
  "first_result table bucket = bind_res (aread table (int (bucket_no bucket))) (\<lambda>e.
     case fbmt e of None \<Rightarrow> Inl Null_deref
     | Some f \<Rightarrow> bind_res (vget (fb_score f) 0) (\<lambda>s. vget (score_result s) 0))"

definition get_ideal_sleep_time :: "result_table \<Rightarrow> int res" where
  "get_ideal_sleep_time table = bind_res (first_result table SYSTIMER_CONFIG) (\<lambda>r. Inr (opern_amount r))"

definition get_min_exec_time :: "result_table \<Rightarrow> f64 res" where
  "get_min_exec_time table = bind_res (first_result table SYSCLOCK_CONFIG) (\<lambda>r.
     bind_res (chk_ll (20 * mediantime r)) (\<lambda>t. Inr (of_ll t)))"

text \<open>The three flags say which of the pointers \<^verbatim>\<open>min\<close>, \<^verbatim>\<open>max\<close> and \<^verbatim>\<open>median\<close> is not null.\<close>

definition get_ideal_work_time ::
  "result_table \<Rightarrow> bool \<Rightarrow> bool \<Rightarrow> bool \<Rightarrow> (int option \<times> int option \<times> int option) res" where
  "get_ideal_work_time table want_min want_max want_median =
     bind_res (first_result table SYSCLOCK_CONFIG) (\<lambda>r.
     bind_res (if want_median then bind_res (chk_ll (20 * mediantime r)) (\<lambda>m. Inr (Some m)) else Inr None) (\<lambda>med.
       Inr (if want_min then Some (mintime r) else None, if want_max then Some (maxtime r) else None, med)))"

definition get_clock_accuracy :: "result_table \<Rightarrow> int res" where
  "get_clock_accuracy table = bind_res (first_result table SYSCLOCK_CONFIG) (\<lambda>r. Inr (meantime r))"

definition get_ideal_work_quantum :: "result_table \<Rightarrow> int res" where
  "get_ideal_work_quantum table = bind_res (first_result table SYSCLOCK_CONFIG) (\<lambda>r. Inr (opern_amount r))"

section \<open>The scores of the system\<close>

definition count_valid :: "result_table \<Rightarrow> int" where
  "count_valid table = fold (\<lambda>e n. if valid e \<noteq> 0 then n + 1 else n) table 0"

definition system_step :: "(f64 \<Rightarrow> f64 \<Rightarrow> f64) \<Rightarrow> f64 \<Rightarrow> result_entry \<Rightarrow> f64 \<times> f64 \<Rightarrow> (f64 \<times> f64) res" where
  "system_step pw e entry = (\<lambda>(c, t).
     if valid entry \<noteq> 0 then
       (case fbmt entry of None \<Rightarrow> Inl Null_deref
        | Some f \<Rightarrow> if test_pass f \<noteq> 0
            then Inr (if Fin 0 < consistency_test_score f then c * pw (consistency_test_score f) e else c,
                      if Fin 0 < throughput_test_score f then t * pw (throughput_test_score f) e else t)
            else Inr (c, t))
     else Inr (c, t))"

definition compute_system_scores :: "(f64 \<Rightarrow> f64 \<Rightarrow> f64) \<Rightarrow> result_table \<Rightarrow> system_scores res" where
  "compute_system_scores pw table =
     bind_res (for_res table (system_step pw (Fin 1 / of_ll (count_valid table))) (Fin 1, Fin 1)) (\<lambda>(c, t).
       Inr \<lparr>system_consistency_score = c, system_throughput_score = t, system_score = pw (c * t) (Fin (1 / 2))\<rparr>)"

section \<open>Contributions are multiples of ten\<close>

lemma exact_int: "\<bar>n\<bar> \<le> 2 ^ 53 \<Longrightarrow> rnd64 (of_int n) = Fin (of_int n)"
  by (rule rnd64_exact)

lemma floor_int_ok:
  assumes "0 \<le> v" and "v < of_int b" and "b \<le> INT_MAX"
  shows "f64_to_int (Fin v) = Inr \<lfloor>v\<rfloor> \<and> 0 \<le> \<lfloor>v\<rfloor> \<and> \<lfloor>v\<rfloor> < b"
proof -
  have "0 \<le> \<lfloor>v\<rfloor>" "\<lfloor>v\<rfloor> < b" using assms by (simp_all add: floor_less_iff)
  then show ?thesis using assms by (simp add: f64_to_int_def trunc_def is_int_def)
qed

lemma tens_below_ok:
  assumes "0 \<le> p" and "p < 100" and "representable 53 (-1022) p"
  shows "\<exists>k. 1 \<le> k \<and> k \<le> 10 \<and> tens_below (Fin p) = Inr (Fin (of_int (10 * k)))"
proof -
  have "\<exists>z. p + 10 \<le> z \<and> z < 110 \<and> representable 53 (-1022) z"
  proof (cases "p < 64")
    case True
    then show ?thesis using representable64_int [of 74] by (intro exI [of _ 74]) simp
  next
    case False
    then obtain n where n: "p = of_int n / 2 ^ 46"
      using representable_multiple [OF assms(3), of 46] by auto
    then have "(of_int n :: rat) < of_int (100 * 2 ^ 46)" using assms(2) by simp
    then have "n \<le> 100 * 2 ^ 46 - 1" by (simp only: of_int_less_iff)
    then have "(of_int n :: rat) \<le> of_int (100 * 2 ^ 46 - 1)" by (simp only: of_int_le_iff)
    then have "p + 10 \<le> of_int (110 * 2 ^ 46 - 1) / 2 ^ 46" using n by simp
    moreover have "representable 53 (-1022) (of_int (110 * 2 ^ 46 - 1) / 2 ^ 46)"
      by (rule representable_scale) simp_all
    ultimately show ?thesis by (intro exI [of _ "of_int (110 * 2 ^ 46 - 1) / 2 ^ 46"]) simp
  qed
  then obtain z where z: "p + 10 \<le> z" "z < 110" "representable 53 (-1022) z" by blast
  have "\<bar>z\<bar> \<le> 2 ^ 1000" using z assms(1) by (auto intro: order_trans [of _ 110])
  moreover have "representable 53 (-1022) 10" using representable64_int [of 10] by simp
  ultimately obtain v where v: "rnd64 (p + 10) = Fin v" "10 \<le> v" "v \<le> z"
    using rnd64_between [of 10 z "p + 10"] z assms(1) by auto
  have f: "f64_to_int (Fin v) = Inr \<lfloor>v\<rfloor>" "\<lfloor>v\<rfloor> < 110" using floor_int_ok [of v 110] v z by auto
  have "10 \<le> \<lfloor>v\<rfloor>" using v by (simp add: le_floor_iff)
  then have k: "1 \<le> \<lfloor>v\<rfloor> div 10" "\<lfloor>v\<rfloor> div 10 \<le> 10" using f(2) by linarith+
  have "div_int \<lfloor>v\<rfloor> 10 = Inr (\<lfloor>v\<rfloor> div 10)"
    using k \<open>10 \<le> \<lfloor>v\<rfloor>\<close> by (simp add: div_int_def sdiv_nonneg_eq chk_int_ok is_int_def)
  moreover have "is_int (\<lfloor>v\<rfloor> div 10)" using k by (simp add: is_int_def)
  moreover have "rnd64 (of_int (\<lfloor>v\<rfloor> div 10) * 10) = Fin (of_int (10 * (\<lfloor>v\<rfloor> div 10)))"
    using exact_int [of "10 * (\<lfloor>v\<rfloor> div 10)"] k by (simp add: mult.commute)
  ultimately show ?thesis using v(1) f(1) k
    by (intro exI [of _ "\<lfloor>v\<rfloor> div 10"]) (simp add: tens_below_def)
qed

lemma tens_exact:
  "0 \<le> j \<Longrightarrow> j < 11 \<Longrightarrow> rnd64 (of_int (10 * j)) = Fin (of_int (10 * j))"
  "0 \<le> j \<Longrightarrow> j < 11 \<Longrightarrow> rnd64 (of_int (100 - 10 * j)) = Fin (of_int (100 - 10 * j))"
  by (intro rnd64_exact; simp)+

lemma tens_above_ok:
  assumes "100 \<le> p" and "p \<le> 200"
  shows "\<exists>k. 0 \<le> k \<and> k \<le> 10 \<and> tens_above (Fin p) = Inr (Fin (of_int (10 * k)))"
proof -
  have r: "representable 53 (-1022) 100" "representable 53 (-1022) 10"
    using representable64_int [of 100] representable64_int [of 10] by simp_all
  obtain d where d: "rnd64 (p - 100) = Fin d" "0 \<le> d" "d \<le> 100"
    using rnd64_nonneg_le [of "p - 100" 100] r assms by auto
  have i: "f64_to_int (Fin d) = Inr \<lfloor>d\<rfloor>" "0 \<le> \<lfloor>d\<rfloor>" "\<lfloor>d\<rfloor> < 101" using floor_int_ok [of d 101] d by auto
  then have "is_int \<lfloor>d\<rfloor>" by (simp add: is_int_def)
  have "(of_int \<lfloor>d\<rfloor> :: rat) \<le> of_int 100" using i by (simp only: of_int_le_iff)
  then have "(of_int \<lfloor>d\<rfloor> :: rat) / 10 \<le> 10" "0 \<le> (of_int \<lfloor>d\<rfloor> :: rat) / 10" using i by simp_all
  then obtain t where t: "rnd64 (of_int \<lfloor>d\<rfloor> / 10) = Fin t" "0 \<le> t" "t \<le> 10"
    using rnd64_nonneg_le [of "of_int \<lfloor>d\<rfloor> / 10" 10] r by auto
  have j: "f64_to_int (Fin t) = Inr \<lfloor>t\<rfloor>" "0 \<le> \<lfloor>t\<rfloor>" "\<lfloor>t\<rfloor> < 11" using floor_int_ok [of t 11] t by auto
  then have "is_int \<lfloor>t\<rfloor>" "is_int (10 * \<lfloor>t\<rfloor>)" unfolding is_int_def by linarith+
  moreover note tens_exact [OF j(2,3)]
  moreover from this(1) have "rnd64 (of_int \<lfloor>t\<rfloor> * 10) = Fin (of_int (10 * \<lfloor>t\<rfloor>))"
    by (simp add: mult.commute)
  moreover have "f64_to_int (Fin (of_int (10 * \<lfloor>t\<rfloor>))) = Inr (10 * \<lfloor>t\<rfloor>)"
    using \<open>is_int (10 * \<lfloor>t\<rfloor>)\<close> by (subst f64_to_int_Fin) (simp_all only: trunc_of_int)
  moreover have "rnd64 (100 - of_int (10 * \<lfloor>t\<rfloor>)) = Fin (of_int (10 * (10 - \<lfloor>t\<rfloor>)))"
    using \<open>rnd64 (of_int (100 - 10 * \<lfloor>t\<rfloor>)) = _\<close> by simp
  ultimately have "tens_above (Fin p) = Inr (Fin (of_int (10 * (10 - \<lfloor>t\<rfloor>))))"
    using d(1) i(1) t(1) j(1) \<open>is_int \<lfloor>d\<rfloor>\<close> by (simp add: tens_above_def Let_def del: of_int_mult of_int_diff)
  then show ?thesis using j by (intro exI [of _ "10 - \<lfloor>t\<rfloor>"]) simp
qed

lemma representable_pow: "representable 53 (-1022) (2 ^ k)"
  unfolding representable_def by (intro exI [of _ 1] exI [of _ "int k"]) simp

lemma of_ll_nonneg: "0 \<le> v \<Longrightarrow> is_ll v \<Longrightarrow> \<exists>w. of_ll v = Fin w \<and> 0 \<le> w \<and> w \<le> 2 ^ 63"
proof -
  assume v: "0 \<le> v" "is_ll v"
  have "(of_int v :: rat) \<le> of_int (2 ^ 63)" using v(2) by (subst of_int_le_iff) (simp add: is_ll_def)
  moreover have "(2::rat) ^ 63 \<le> 2 ^ 1000" by (rule power_increasing) simp_all
  ultimately show ?thesis
    using rnd64_nonneg_le [of "of_int v" "2 ^ 63"] representable_pow [of 63] v(1) by (simp add: of_ll_def)
qed

text \<open>The quotient of two non-negative numbers, the divisor positive.\<close>

lemma percent_form:
  assumes "0 \<le> w" and "w \<le> 2 ^ 63" and "0 < m"
  shows "Fin w * Fin 100 / Fin m = PInf \<or>
    (\<exists>p. Fin w * Fin 100 / Fin m = Fin p \<and> 0 \<le> p \<and> representable 53 (-1022) p)"
proof -
  have "(2::rat) ^ 70 \<le> 2 ^ 1000" by (rule power_increasing) simp_all
  then obtain u where u: "rnd64 (w * 100) = Fin u" "0 \<le> u"
    using rnd64_nonneg_le [of "w * 100" "2 ^ 70"] representable_pow [of 70] assms by auto
  then have q: "0 \<le> u / m" using assms(3) by simp
  show ?thesis
  proof (cases "rnd64 (u / m)")
    case (Fin p)
    then show ?thesis
      using u assms(3) rnd64_representable [OF Fin] rnd64_sign [OF Fin q] by simp
  qed (use u assms(3) rnd64_nonneg_not_NInf [OF q] in auto)
qed

text \<open>A time contributes a multiple of ten between 0 and 100; no conversion is out of range.\<close>

definition tens_res :: "f64 res \<Rightarrow> bool" where
  "tens_res x \<longleftrightarrow> (\<exists>k. 0 \<le> k \<and> k \<le> 10 \<and> x = Inr (Fin (of_int (10 * k))))"

lemma tens_res_const: "tens_res (Inr (Fin 0))" "tens_res (Inr (Fin 10))" "tens_res (Inr (Fin 100))"
  unfolding tens_res_def by (rule exI [of _ 0], simp, rule exI [of _ 1], simp, rule exI [of _ 10], simp)

lemma tens_res_if: "(c \<Longrightarrow> tens_res x) \<Longrightarrow> (\<not> c \<Longrightarrow> tens_res y) \<Longrightarrow> tens_res (if c then x else y)"
  by simp

definition percent_tens :: "f64 \<Rightarrow> f64 res" where
  "percent_tens percent = (if Fin 200 < percent then Inr (Fin 0)
         else if feq percent (Fin 100) then Inr (Fin 100)
         else if percent < Fin 100 then tens_below percent
         else tens_above percent)"

lemma percent_tens_ok:
  assumes "percent = PInf \<or> (\<exists>p. percent = Fin p \<and> 0 \<le> p \<and> representable 53 (-1022) p)"
  shows "tens_res (percent_tens percent)"
  using assms
proof
  assume "percent = PInf"
  then show ?thesis using tens_res_const by (simp add: f64_cmp percent_tens_def)
next
  assume "\<exists>p. percent = Fin p \<and> 0 \<le> p \<and> representable 53 (-1022) p"
  then obtain p where p: "percent = Fin p" "0 \<le> p" "representable 53 (-1022) p" by blast
  have "p < 100 \<Longrightarrow> tens_res (tens_below (Fin p))"
    using tens_below_ok [OF p(2) _ p(3)] unfolding tens_res_def by force
  moreover have "100 < p \<Longrightarrow> p \<le> 200 \<Longrightarrow> tens_res (tens_above (Fin p))"
    using tens_above_ok [of p] unfolding tens_res_def by force
  ultimately show ?thesis
    unfolding percent_tens_def p(1) by (intro tens_res_if tens_res_const) (auto simp: f64_cmp)
qed

lemma contribution_tens:
  assumes "0 \<le> v" and "is_ll v" and "0 \<le> m"
  shows "tens_res (get_contribution v (Fin m))"
proof -
  obtain w where w: "of_ll v = Fin w" "0 \<le> w" "w \<le> 2 ^ 63" using of_ll_nonneg [OF assms(1,2)] by blast
  show ?thesis
  proof (cases "m = 0")
    case True
    show ?thesis
    proof (cases "rnd64 w")
      case (Fin x)
      with rnd64_sign [OF Fin w(2)] w True tens_res_const show ?thesis
        by (simp add: get_contribution_def Let_def f64_cmp f64_ops)
    qed (use w True tens_res_const rnd64_nonneg_not_NInf [OF w(2)] in
      \<open>simp_all add: get_contribution_def Let_def f64_cmp f64_ops\<close>)
  next
    case False
    with assms(3) have "0 < m" by simp
    note percent_tens_ok [OF percent_form [OF w(2,3) this]]
    then show ?thesis
      unfolding get_contribution_def Let_def w(1) percent_tens_def [symmetric]
      by (intro tens_res_if tens_res_const)
  qed
qed

section \<open>The score of one result\<close>

lemma median_of_medians_single: "median_of_medians [r] = Inr (of_ll (mediantime r))"
  by (simp add: median_of_medians_def exchange_sort_def Let_def smod_nonneg_eq sdiv_nonneg_eq aread_def)

text \<open>The sum of contributions is exact: a multiple of ten that fits 53 bits.\<close>

lemma score_step_consistency:
  assumes "j < length vs" "0 \<le> vs ! j" "is_ll (vs ! j)" "0 \<le> m" and "int j \<le> INT_MAX"
    and "sum_consistency s = Fin (of_int (10 * K))" "0 \<le> K" "K \<le> 10 * int j"
  shows "\<exists>s' k. score_step vs (Fin m) j s = Inr s' \<and> sum_consistency s' = Fin (of_int (10 * (K + k)))
    \<and> 0 \<le> k \<and> k \<le> 10 \<and> get_contribution (vs ! j) (Fin m) = Inr (Fin (of_int (10 * k)))"
proof -
  obtain k where k: "0 \<le> k" "k \<le> 10" "get_contribution (vs ! j) (Fin m) = Inr (Fin (of_int (10 * k)))"
    using contribution_tens [OF assms(2-4)] unfolding tens_res_def by blast
  have "\<bar>10 * (K + k)\<bar> \<le> 2 ^ 53" using k assms by simp
  then have "rnd64 (of_int (10 * K) + of_int (10 * k)) = Fin (of_int (10 * (K + k)))"
    using rnd64_exact [of "10 * (K + k)"] by (simp add: distrib_left)
  then show ?thesis
    using k assms(1,6) by (simp add: score_step_def Let_def aread_ok del: of_int_mult of_int_add)
qed

lemma score_loop_ok:
  assumes "n \<le> length vs" "\<forall>v \<in> set (take n vs). 0 \<le> v \<and> is_ll v" "0 \<le> m" "int n \<le> INT_MAX"
    and "sum_consistency s = Fin 0"
  shows "\<exists>s' K. for_res [0..<n] (score_step vs (Fin m)) s = Inr s'
    \<and> sum_consistency s' = Fin (of_int (10 * K)) \<and> 0 \<le> K \<and> K \<le> 10 * int n
    \<and> ((\<forall>v \<in> set (take n vs). get_contribution v (Fin m) = Inr (Fin 100)) \<longrightarrow> K = 10 * int n)"
proof -
  let ?P = "\<lambda>i (s :: score_sums). \<exists>K. sum_consistency s = Fin (of_int (10 * K)) \<and> 0 \<le> K \<and> K \<le> 10 * int i
    \<and> ((\<forall>v \<in> set (take n vs). get_contribution v (Fin m) = Inr (Fin 100)) \<longrightarrow> K = 10 * int i)"
  have "\<exists>s'. for_res [0..<n] (score_step vs (Fin m)) s = Inr s' \<and> ?P n s'"
  proof (rule for_res_inv [where P = ?P])
    fix i and s :: score_sums assume i: "i < n" and "?P i s"
    then obtain K where K: "sum_consistency s = Fin (of_int (10 * K))" "0 \<le> K" "K \<le> 10 * int i"
      "(\<forall>v \<in> set (take n vs). get_contribution v (Fin m) = Inr (Fin 100)) \<longrightarrow> K = 10 * int i" by blast
    have mem: "vs ! i \<in> set (take n vs)" using i assms(1) by (auto simp: in_set_conv_nth)
    with assms(2) have v: "0 \<le> vs ! i" "is_ll (vs ! i)" by auto
    obtain s' k where s': "score_step vs (Fin m) i s = Inr s'" "sum_consistency s' = Fin (of_int (10 * (K + k)))"
      "0 \<le> k" "k \<le> 10" "get_contribution (vs ! i) (Fin m) = Inr (Fin (of_int (10 * k)))"
      using score_step_consistency [OF _ v assms(3) _ K(1-3)] i assms(1,4) by auto
    have "k = 10" if "\<forall>v \<in> set (take n vs). get_contribution v (Fin m) = Inr (Fin 100)"
    proof -
      have "(of_int (10 * k) :: rat) = of_int 100" using that mem s'(5) by simp
      then show ?thesis by (simp only: of_int_eq_iff)
    qed
    then show "\<exists>s'. score_step vs (Fin m) i s = Inr s' \<and> ?P (Suc i) s'"
      using s' K by (intro exI [of _ s'] conjI exI [of _ "K + k"]) auto
  qed (use assms(5) in \<open>auto intro: exI [of _ 0]\<close>)
  then show ?thesis by blast
qed

lemma contribution_at_median: "is_ll v \<Longrightarrow> 0 \<le> v \<Longrightarrow> of_ll v = Fin m \<Longrightarrow> get_contribution v (Fin m) = Inr (Fin 100)"
  by (simp add: get_contribution_def Let_def f64_cmp)

text \<open>
  For a recorded result the combined score exists, its consistency is between 0 and 100, and 100
  when all times equal the median.
\<close>

lemma combined_score_ok:
  assumes "recorded r ts" and "ts \<noteq> []" and "times_ok b ts"
    and "0 \<le> mediantime r" "is_ll (mediantime r)" and "Fin 0 < reference"
  shows "\<exists>s c. generate_combined_score [r] reference = Inr [s] \<and> score_result s = [r]
    \<and> throughput_score s = reference / of_ll (mediantime r)
    \<and> consistency_score s = Fin c \<and> 0 \<le> c \<and> c \<le> 100
    \<and> ((\<forall>t \<in> set ts. t = mediantime r) \<longrightarrow> c = 100)"
proof -
  let ?n = "length ts"
  have n: "num_entries r = int ?n" "?n \<le> length (tvalues r)" "take ?n (tvalues r) = ts" "int ?n \<le> INT_MAX"
    "0 < ?n" "is_int (int ?n)"
    using assms(1,2) by (auto simp: recorded_def is_int_def)
  have vals: "\<forall>v \<in> set (take ?n (tvalues r)). 0 \<le> v \<and> is_ll v"
    using times_ok_mem [OF assms(3)] times_ok_bound [OF assms(3,2)] n(3) by (fastforce simp: is_ll_def)
  obtain m where m: "of_ll (mediantime r) = Fin m" "0 \<le> m" using of_ll_nonneg [OF assms(4,5)] by blast
  define s0 where "s0 = (let t0 = scale * Fin 1 / of_ll (tvalues r ! 0) in
    \<lparr>sum_min = t0, sum_max = t0, sum_throughput = Fin 0, sum_combined = Fin 0, sum_consistency = Fin 0\<rparr>)"
  have "sum_consistency s0 = Fin 0" by (simp add: s0_def Let_def)
  from score_loop_ok [OF n(2) vals m(2) n(4) this] obtain s' K where
    loop: "for_res [0..<?n] (score_step (tvalues r) (Fin m)) s0 = Inr s'"
      "sum_consistency s' = Fin (of_int (10 * K))" "0 \<le> K" "K \<le> 10 * int ?n"
    and all: "(\<forall>v \<in> set ts. get_contribution v (Fin m) = Inr (Fin 100)) \<longrightarrow> K = 10 * int ?n"
    unfolding n(3) by blast
  have "(of_int (10 * K) :: rat) \<le> of_int (100 * int ?n)" using loop(4) by (subst of_int_le_iff) simp
  then have q: "(0 :: rat) \<le> of_int (10 * K) / of_int (int ?n) \<and> of_int (10 * K) / of_int (int ?n) \<le> (100 :: rat)"
    using n(5) loop(3) by (simp add: field_simps)
  moreover have "representable 53 (-1022) 100" using representable64_int [of 100] by simp
  ultimately obtain c where c: "rnd64 (of_int (10 * K) / of_int (int ?n)) = Fin c" "0 \<le> c" "c \<le> 100"
    using rnd64_nonneg_le [of "of_int (10 * K) / of_int (int ?n)" 100] by auto
  have "c = 100" if "\<forall>t \<in> set ts. t = mediantime r"
  proof -
    have "\<forall>v \<in> set ts. get_contribution v (Fin m) = Inr (Fin 100)"
      using that contribution_at_median [OF assms(5,4) m(1)] by metis
    with all have "K = 10 * int ?n" by simp
    with c(1) n(5) show ?thesis by simp
  qed
  moreover have "aread (tvalues r) 0 = Inr (tvalues r ! 0)" using n(2,5) by (auto simp: aread_def)
  ultimately show ?thesis
    using loop c n(1,5,6) m assms(6)
    by (simp add: generate_combined_score_def median_of_medians_single Let_def vget_def s0_def
        guard_res_def del: of_int_mult aread_Inr)
qed

text \<open>A median of at most the reference time scores at least \<open>1\<close>.\<close>

lemma throughput_at_least_one:
  assumes "0 < v" and "is_ll v" and "of_ll v \<le> Fin x"
  shows "Fin 1 \<le> Fin x / of_ll v"
proof -
  have "of_ll 1 \<le> of_ll v" using assms(1) by (intro of_ll_mono) simp
  moreover obtain w where w: "of_ll v = Fin w" using of_ll_nonneg [of v] assms by auto
  ultimately have "1 \<le> w" by simp
  with w assms(3) have "rnd64 1 \<le> rnd64 (x / w)" by (intro rnd64_mono) simp
  with w \<open>1 \<le> w\<close> show ?thesis by simp
qed

section \<open>The exchange sort\<close>

definition swap_rat :: "nat \<Rightarrow> nat \<Rightarrow> rat list \<Rightarrow> rat list" where
  "swap_rat i j xs = (if xs ! j < xs ! i then xs[i := xs ! j, j := xs ! i] else xs)"

lemma swap_if_Fin:
  "i < length xs \<Longrightarrow> j < length xs \<Longrightarrow> swap_if i j (map Fin xs) = Inr (map Fin (swap_rat i j xs))"
  by (simp add: swap_if_def swap_rat_def aread_ok awrite_ok map_update f64_cmp)

lemma swap_rat_mset: "i < length xs \<Longrightarrow> j < length xs \<Longrightarrow> mset (swap_rat i j xs) = mset xs"
  by (simp add: swap_rat_def mset_swap)

lemma swap_rat_length [simp]: "length (swap_rat i j xs) = length xs"
  by (simp add: swap_rat_def)

text \<open>Before the outer index \<open>i\<close> the list is sorted and holds its least elements.\<close>

definition sorted_upto :: "nat \<Rightarrow> rat list \<Rightarrow> bool" where
  "sorted_upto i xs \<longleftrightarrow> (\<forall>k < i. \<forall>l < length xs. k \<le> l \<longrightarrow> xs ! k \<le> xs ! l)"

lemma exchange_inner:
  assumes "i < length xs" and "sorted_upto i xs"
  shows "\<exists>ys. for_res [Suc i..<length xs] (swap_if i) (map Fin xs) = Inr (map Fin ys)
    \<and> mset ys = mset xs \<and> sorted_upto (Suc i) ys"
proof -
  let ?P = "\<lambda>j a. \<exists>ys. a = map Fin ys \<and> mset ys = mset xs \<and> sorted_upto i ys \<and> (\<forall>l. i \<le> l \<and> l < j \<longrightarrow> ys ! i \<le> ys ! l)"
  have "\<exists>a. for_res [Suc i..<length xs] (swap_if i) (map Fin xs) = Inr a \<and> ?P (length xs) a"
  proof (rule for_res_inv [where P = ?P])
    show "?P (Suc i) (map Fin xs)" using assms by (intro exI [of _ xs]) (auto simp: less_Suc_eq_le)
  next
    fix j a assume j: "Suc i \<le> j" "j < length xs" and "?P j a"
    then obtain ys where ys: "a = map Fin ys" "mset ys = mset xs" "sorted_upto i ys"
      "\<And>l. i \<le> l \<Longrightarrow> l < j \<Longrightarrow> ys ! i \<le> ys ! l" by blast
    have len: "length ys = length xs" using ys(2) by (metis size_mset)
    define zs where "zs = swap_rat i j ys"
    have nth: "zs ! l = (if ys ! j < ys ! i then (if l = i then ys ! j else if l = j then ys ! i else ys ! l)
        else ys ! l)" if "l < length xs" for l
      using that j len by (simp add: zs_def swap_rat_def nth_list_update)
    have "sorted_upto i zs"
      unfolding sorted_upto_def
    proof (intro allI impI)
      fix k l assume kl: "k < i" "l < length zs" "k \<le> l"
      have "ys ! k \<le> ys ! i" "ys ! k \<le> ys ! j" "ys ! k \<le> ys ! l"
        using ys(3) kl j len assms(1) by (auto simp: sorted_upto_def zs_def)
      then show "zs ! k \<le> zs ! l" using kl j len nth [of k] nth [of l] by (auto simp: zs_def)
    qed
    moreover have "zs ! i \<le> zs ! l" if "i \<le> l" "l < Suc j" for l
      using that j ys(4) [of l] nth [of i] nth [of l] by (cases "l = j"; cases "l = i") auto
    moreover have "mset zs = mset xs" using ys(2) j len by (simp add: zs_def swap_rat_mset)
    ultimately show "\<exists>a'. swap_if i j a = Inr a' \<and> ?P (Suc j) a'"
      using ys(1) j len by (simp add: swap_if_Fin zs_def) (metis less_Suc_eq_le)
  qed (use assms in auto)
  then obtain ys where ys: "for_res [Suc i..<length xs] (swap_if i) (map Fin xs) = Inr (map Fin ys)"
    "mset ys = mset xs" "sorted_upto i ys" "\<forall>l. i \<le> l \<and> l < length xs \<longrightarrow> ys ! i \<le> ys ! l" by blast
  have "length ys = length xs" using ys(2) by (metis size_mset)
  with ys have "sorted_upto (Suc i) ys" by (auto simp: sorted_upto_def less_Suc_eq)
  with ys show ?thesis by blast
qed

lemma exchange_sort_sorts: "exchange_sort (length xs) (map Fin xs) = Inr (map Fin (sort xs))"
proof -
  let ?P = "\<lambda>i a. \<exists>ys. a = map Fin ys \<and> mset ys = mset xs \<and> sorted_upto i ys"
  have "\<exists>a. exchange_sort (length xs) (map Fin xs) = Inr a \<and> ?P (length xs - 1) a"
    unfolding exchange_sort_def
  proof (rule for_res_inv [where P = ?P])
    fix i a assume i: "i < length xs - 1" and "?P i a"
    then obtain ys where ys: "a = map Fin ys" "mset ys = mset xs" "sorted_upto i ys" by blast
    then have "length ys = length xs" by (metis size_mset)
    moreover have "i < length xs" using i by simp
    ultimately obtain zs where
      "for_res [Suc i..<length xs] (swap_if i) a = Inr (map Fin zs)" "mset zs = mset xs" "sorted_upto (Suc i) zs"
      using exchange_inner [of i ys] ys by auto
    then show "\<exists>a'. for_res [Suc i..<length xs] (swap_if i) a = Inr a' \<and> ?P (Suc i) a'" by blast
  qed (auto simp: sorted_upto_def)
  then obtain ys where ys: "exchange_sort (length xs) (map Fin xs) = Inr (map Fin ys)"
    "mset ys = mset xs" "sorted_upto (length xs - 1) ys" by blast
  have len: "length ys = length xs" using ys(2) by (metis size_mset)
  have "sorted ys"
    unfolding sorted_iff_nth_mono
  proof (intro allI impI)
    fix k l assume kl: "k \<le> l" "l < length ys"
    show "ys ! k \<le> ys ! l"
      using ys(3) kl len by (cases "k = l") (auto simp: sorted_upto_def)
  qed
  with ys(1,2) show ?thesis by (metis properties_for_sort)
qed

section \<open>The table is well formed\<close>

definition table_ok :: "result_table \<Rightarrow> bool" where
  "table_ok t \<longleftrightarrow> length t = MAX_TESTS \<and> (\<forall>e \<in> set t. valid e \<noteq> 0 \<longrightarrow> fbmt e \<noteq> None \<and> bm_test e \<noteq> None)"

lemma empty_table_ok [inv_intros]: "table_ok empty_table"
  by (simp add: table_ok_def empty_table_def)

lemma enter_ok:
  "table_ok t \<Longrightarrow> enter t f b bm = Inr (t[bucket_no b := \<lparr>fbmt = Some f, bm_test = Some bm, valid = 1\<rparr>])
     \<and> table_ok (t[bucket_no b := \<lparr>fbmt = Some f, bm_test = Some bm, valid = 1\<rparr>])"
  using bucket_no_less [of b]
  by (auto simp: enter_def table_ok_def awrite_def dest!: set_update_subset_insert [THEN subsetD])

lemma enter_keeps [inv_intros]: "table_ok t \<Longrightarrow> enter t f b bm = Inr t' \<Longrightarrow> table_ok t'"
  using enter_ok by fastforce

lemma enter_nth:
  "table_ok t \<Longrightarrow> enter t f b bm = Inr t' \<Longrightarrow>
     t' ! bucket_no c = (if c = b then \<lparr>fbmt = Some f, bm_test = Some bm, valid = 1\<rparr> else t ! bucket_no c)"
  using enter_ok [of t f b bm] by (auto simp: table_ok_def nth_list_update)

lemma create_final_simps [simp]:
  "fb_score (create_final_bm_test_result1 pw scores) = scores"
  "test_pass (create_final_bm_test_result1 pw scores) = 0"
  by (simp_all add: create_final_bm_test_result1_def compute_bm_test_result_scores_def Let_def split: prod.split)

lemma create_final_single:
  "throughput_test_score (create_final_bm_test_result1 pw [s]) = throughput_score s"
  "consistency_test_score (create_final_bm_test_result1 pw [s]) = consistency_score s"
  "fb_test_score (create_final_bm_test_result1 pw [s]) = pw (consistency_score s * throughput_score s) (Fin (1 / 2))"
  by (simp_all add: create_final_bm_test_result1_def compute_bm_test_result_scores_def Let_def)

text \<open>What a configuration test enters is what the later tests read.\<close>

lemma first_result_entered:
  assumes "table_ok t" and "enter t f b bm = Inr t'" and "fb_score f = s # ss" "score_result s = r # rs"
  shows "first_result t' b = Inr r"
  using enter_nth [OF assms(1,2), of b] enter_keeps [OF assms(1,2)] bucket_no_less [of b] assms(3,4)
  by (simp add: first_result_def aread_def vget_def table_ok_def)

lemma first_result_other:
  assumes "table_ok t" and "enter t f b bm = Inr t'" and "c \<noteq> b"
  shows "first_result t' c = first_result t c"
  using enter_nth [OF assms(1,2), of c] enter_keeps [OF assms(1,2)] bucket_no_less [of c] assms(1,3)
  by (simp add: first_result_def aread_def table_ok_def)

section \<open>The system scores\<close>

definition counted :: "result_entry \<Rightarrow> bool" where
  "counted e \<longleftrightarrow> valid e \<noteq> 0 \<and> test_pass (the (fbmt e)) \<noteq> 0"

definition positive_factor :: "(f64 \<Rightarrow> f64 \<Rightarrow> f64) \<Rightarrow> f64 \<Rightarrow> f64 \<Rightarrow> f64 \<Rightarrow> f64" where
  "positive_factor pw e x acc = (if Fin 0 < x then acc * pw x e else acc)"

lemma count_valid_eq: "count_valid t = int (length (filter (\<lambda>e. valid e \<noteq> 0) t))"
proof -
  have "fold (\<lambda>e n. if valid e \<noteq> 0 then n + 1 else n) t k = k + int (length (filter (\<lambda>e. valid e \<noteq> 0) t))" for k
    by (induction t arbitrary: k) simp_all
  then show ?thesis by (simp add: count_valid_def)
qed

text \<open>
  The two products run over the passed tests only, with the exponent of the number of executed
  tests; a failed test only lowers the exponent.
\<close>

lemma system_scores_eq:
  assumes "table_ok t"
  shows "compute_system_scores pw t = (let e = Fin 1 / of_ll (count_valid t); ps = map (\<lambda>x. the (fbmt x)) (filter counted t);
      c = fold (\<lambda>f. positive_factor pw e (consistency_test_score f)) ps (Fin 1);
      t = fold (\<lambda>f. positive_factor pw e (throughput_test_score f)) ps (Fin 1) in
    Inr \<lparr>system_consistency_score = c, system_throughput_score = t, system_score = pw (c * t) (Fin (1 / 2))\<rparr>)"
proof -
  define e where "e = Fin 1 / of_ll (count_valid t)"
  have "for_res es (system_step pw e) (c, u) = Inr
      (fold (\<lambda>f. positive_factor pw e (consistency_test_score f)) (map (\<lambda>x. the (fbmt x)) (filter counted es)) c,
       fold (\<lambda>f. positive_factor pw e (throughput_test_score f)) (map (\<lambda>x. the (fbmt x)) (filter counted es)) u)"
    if "\<forall>x \<in> set es. valid x \<noteq> 0 \<longrightarrow> fbmt x \<noteq> None" for es c u
    using that
  proof (induction es arbitrary: c u)
    case (Cons x es)
    then show ?case
      by (cases "fbmt x") (auto simp: system_step_def counted_def positive_factor_def)
  qed simp
  from this [of t] assms show ?thesis
    by (simp add: compute_system_scores_def Let_def table_ok_def flip: e_def)
qed

section \<open>Properties\<close>

text \<open>
  \<^verbatim>\<open>get_contribution\<close> never converts a value out of range and gives a multiple of ten
  between 0 and 100 for every non-negative time and median, and 100 for a time equal to the
  median.
\<close>

lemma contribution_is_percentage:
  assumes "0 \<le> v" and "is_ll v" and "0 \<le> m"
  shows "(\<exists>k. 0 \<le> k \<and> k \<le> 10 \<and> get_contribution v (Fin m) = Inr (Fin (of_int (10 * k))))
    \<and> get_contribution v (of_ll v) = Inr (Fin 100)"
  using contribution_tens [OF assms] of_ll_nonneg [OF assms(1,2)] contribution_at_median [OF assms(2,1)]
  by (auto simp: tens_res_def)

lemma contribution_is_percentage_witness:
  "(\<exists>k. 0 \<le> k \<and> k \<le> 10 \<and> get_contribution 123 (Fin 100) = Inr (Fin (of_int (10 * k))))
    \<and> get_contribution 123 (of_ll 123) = Inr (Fin 100)"
  by (rule contribution_is_percentage) (simp_all add: is_ll_def)

text \<open>
  C25: The combined score of a completely recorded result exists: its consistency lies between 0
  and 100 and is 100 when all times are equal, and its throughput score is the reference score
  over the median, at least 1 when the median does not exceed the reference.
\<close>

theorem combined_score_of_run:
  assumes "recorded r ts" and "summarised r ts" and "ts \<noteq> []" and "times_ok b ts" and "0 < x" "1 \<le> mediantime r"
  shows "\<exists>s c. generate_combined_score [r] (Fin x) = Inr [s]
    \<and> consistency_score s = Fin c \<and> 0 \<le> c \<and> c \<le> 100 \<and> ((\<forall>t \<in> set ts. t = mediantime r) \<longrightarrow> c = 100)
    \<and> throughput_score s = Fin x / of_ll (mediantime r)
    \<and> (of_ll (mediantime r) \<le> Fin x \<longrightarrow> Fin 1 \<le> throughput_score s)"
proof -
  have "mediantime r \<le> b"
    using median_of_bounds [OF assms(4,3)] assms(2) by (simp add: summarised_def floor_le_iff)
  then have m: "0 \<le> mediantime r" "is_ll (mediantime r)" "0 < mediantime r"
    using assms(6) times_ok_bound [OF assms(4,3)] by (simp_all add: is_ll_def)
  have "Fin 0 < Fin x" using assms(5) by simp
  from combined_score_ok [OF assms(1,3,4) m(1,2) this] throughput_at_least_one [OF m(3,2), of x]
  show ?thesis by metis
qed

definition timed_once :: test_results where
  "timed_once = one_time\<lparr>meantime := mean_of [100], stdtime := std_of [100]\<rparr>"

theorem combined_score_of_run_witness:
  "\<exists>s c. generate_combined_score [timed_once] (Fin 150) = Inr [s]
    \<and> consistency_score s = Fin c \<and> 0 \<le> c \<and> c \<le> 100 \<and> ((\<forall>t \<in> set [100]. t = mediantime timed_once) \<longrightarrow> c = 100)
    \<and> throughput_score s = Fin 150 / of_ll (mediantime timed_once)
    \<and> (of_ll (mediantime timed_once) \<le> Fin 150 \<longrightarrow> Fin 1 \<le> throughput_score s)"
proof (rule combined_score_of_run [where b = 100])
  show "recorded timed_once [100]" using one_time_recorded by (simp add: recorded_def timed_once_def)
qed (simp_all add: timed_once_def one_time_def summarised_def median_of_def times_ok_def Let_def)

text \<open>
  The exchange sort in \<^verbatim>\<open>generate_combined_score\<close> sorts the medians, for any number of
  results.
\<close>

lemma exchange_sort_correct:
  "exchange_sort (length xs) (map Fin xs) = Inr (map Fin (sort xs))"
  by (rule exchange_sort_sorts)

text \<open>
  C22: After a configuration test has entered its result, the later tests read back exactly its
  numbers: the least execution time is twenty medians of the clock test, and the clock accuracy
  is its mean; the entries of the other tests are unchanged.
\<close>

theorem clock_result_read_back:
  assumes "table_ok t" and "recorded r ts" "ts \<noteq> []" "times_ok b ts"
    and "0 \<le> mediantime r" "is_ll (20 * mediantime r)" and "Fin 0 < bt_reference_score bm"
  shows "\<exists>t'. add_result_to_result_table2 pw t r SYSCLOCK_CONFIG bm = Inr t' \<and> table_ok t'
    \<and> get_min_exec_time t' = Inr (of_ll (20 * mediantime r)) \<and> get_clock_accuracy t' = Inr (meantime r)
    \<and> get_ideal_work_quantum t' = Inr (opern_amount r) \<and> get_ideal_sleep_time t' = get_ideal_sleep_time t"
proof -
  have "is_ll (mediantime r)" using assms(5,6) by (simp add: is_ll_def)
  then obtain s where s: "generate_combined_score [r] (bt_reference_score bm) = Inr [s]" "score_result s = [r]"
    using combined_score_ok [OF assms(2-5) _ assms(7)] by blast
  define f where "f = (create_final_bm_test_result1 pw [s])\<lparr>test_pass := 1\<rparr>"
  have fs: "fb_score f = s # []" by (simp add: f_def)
  obtain t' where t': "enter t f SYSCLOCK_CONFIG bm = Inr t'" "table_ok t'"
    using enter_ok [OF assms(1)] by blast
  have "first_result t' SYSCLOCK_CONFIG = Inr r"
    using first_result_entered [OF assms(1) t'(1) fs s(2)] .
  moreover have "first_result t' SYSTIMER_CONFIG = first_result t SYSTIMER_CONFIG"
    by (rule first_result_other [OF assms(1) t'(1)]) simp
  ultimately show ?thesis using s(1) t' assms(6)
    by (simp add: add_result_to_result_table2_def get_min_exec_time_def get_clock_accuracy_def
        get_ideal_work_quantum_def get_ideal_sleep_time_def chk_ll_ok flip: f_def)
qed

theorem clock_result_read_back_witness:
  "\<exists>t'. add_result_to_result_table2 (\<lambda>x y. x) empty_table one_time SYSCLOCK_CONFIG
      \<lparr>bt_name = ''sysclock_config'', bt_desc = [], bt_iterations = 1, bt_config_test = 1, bt_threshold = 0, bt_reference_score = Fin 150\<rparr> = Inr t'
    \<and> table_ok t' \<and> get_min_exec_time t' = Inr (of_ll (20 * mediantime one_time)) \<and> get_clock_accuracy t' = Inr (meantime one_time)
    \<and> get_ideal_work_quantum t' = Inr (opern_amount one_time) \<and> get_ideal_sleep_time t' = get_ideal_sleep_time empty_table"
  by (rule clock_result_read_back [OF empty_table_ok one_time_recorded, where b = 100])
    (simp_all add: times_ok_def one_time_def is_ll_def)

text \<open>
  The system scores are the products over the passed tests, each score raised to one over the
  number of executed tests: a failed test counts as executed and contributes no factor, entries
  that are not valid have no influence, and no test at all scores 1.
\<close>

lemma system_scores_over_passed:
  assumes "table_ok t"
  shows "compute_system_scores pw t = (let e = Fin 1 / of_ll (int (length (filter (\<lambda>x. valid x \<noteq> 0) t)));
      fs = map (\<lambda>x. the (fbmt x)) (filter counted t);
      c = fold (\<lambda>f. positive_factor pw e (consistency_test_score f)) fs (Fin 1);
      u = fold (\<lambda>f. positive_factor pw e (throughput_test_score f)) fs (Fin 1) in
    Inr \<lparr>system_consistency_score = c, system_throughput_score = u, system_score = pw (c * u) (Fin (1 / 2))\<rparr>)"
  using system_scores_eq [OF assms] by (simp add: count_valid_eq)

lemma system_scores_over_passed_witness:
  "compute_system_scores (\<lambda>x y. x) empty_table
     = Inr \<lparr>system_consistency_score = Fin 1, system_throughput_score = Fin 1, system_score = Fin 1\<rparr>"
  using system_scores_over_passed [OF empty_table_ok, of "\<lambda>x y. x"]
  by (simp add: empty_table_def counted_def Let_def)

end
