(* ===== verification/World.thy ===== *)
theory World
  imports Prelude
begin

text \<open>
  What the tests see of the operating system: the readings of the clock, the results of
  \<^verbatim>\<open>nanosleep\<close>, the outcomes of file operations, the length of the temporary file and the block
  size of the file system.  Readings and outcomes are functions of the number of the call, so
  that every behaviour of the environment is covered; the records count the calls made, and those of
  \<^verbatim>\<open>nanosleep\<close> keep their arguments.
\<close>

record timespec =
  tv_sec :: int
  tv_nsec :: int

datatype sleep_result =
    Slept                   \<comment> \<open>returns \<open>0\<close>\<close>
  | Interrupted timespec    \<comment> \<open>\<^verbatim>\<open>EINTR\<close>, with the remaining time\<close>
  | Sleep_failed            \<comment> \<open>\<^verbatim>\<open>EINVAL\<close> or another error\<close>

record world =
  clk :: "nat \<Rightarrow> timespec option"
  clk_n :: nat
  nsl :: "nat \<Rightarrow> timespec \<Rightarrow> sleep_result"
  slept :: "timespec list"      \<comment> \<open>the requests to \<^verbatim>\<open>nanosleep\<close> so far\<close>
  dsk :: "nat \<Rightarrow> bool"          \<comment> \<open>whether a file operation succeeds\<close>
  dsk_n :: nat
  dfile :: "int option"        \<comment> \<open>the length of the temporary file, \<open>None\<close> when it does not exist\<close>
  bsize :: "int option"        \<comment> \<open>\<^verbatim>\<open>f_bsize\<close>, \<open>None\<close> when \<^verbatim>\<open>statvfs\<close> fails\<close>

end
