(* ===== verification/Time_Mgmt.thy ===== *)
theory Time_Mgmt
  imports World
begin

text \<open>
  \<^verbatim>\<open>testcase/util/time_mgmt/time_mgmt.c\<close>: conversion of a \<^verbatim>\<open>struct timespec\<close> to nanoseconds,
  elapsed time, the clock reading and the interruptible sleep.  The operating system is the
  environment of theory World: the answers of the successive calls of \<^verbatim>\<open>clock_gettime\<close> and
  \<^verbatim>\<open>nanosleep\<close>, with a counter of the calls made.
\<close>

section \<open>The operations\<close>

definition convert_time_to_nsec :: "timespec \<Rightarrow> int res" where
  "convert_time_to_nsec ts = bind_res (chk_ll (tv_sec ts * 1000000000))
     (\<lambda>time_ns. chk_ll (time_ns + tv_nsec ts))"

text \<open>\<open>None\<close> is the return value \<^verbatim>\<open>ERROR\<close>.\<close>

definition get_cur_time :: "world \<Rightarrow> timespec option \<times> world" where
  "get_cur_time w = (clk w (clk_n w), w\<lparr>clk_n := Suc (clk_n w)\<rparr>)"

definition get_time_diff :: "timespec \<Rightarrow> timespec \<Rightarrow> int res" where
  "get_time_diff start_time end_time = bind_res (convert_time_to_nsec end_time) (\<lambda>e.
     bind_res (convert_time_to_nsec start_time) (\<lambda>s. chk_ll (e - s)))"

definition nanosleep :: "world \<Rightarrow> timespec \<Rightarrow> sleep_result \<times> world" where
  "nanosleep w rq = (nsl w (length (slept w)) rq, w\<lparr>slept := slept w @ [rq]\<rparr>)"

text \<open>The request that \<^verbatim>\<open>do_nano_sleep\<close> builds, and its retry loop.\<close>

definition nano_request :: "int \<Rightarrow> timespec" where
  "nano_request nsecs = (let secs = nsecs sdiv 1000000000 in
     if 0 < secs then \<lparr>tv_sec = secs, tv_nsec = nsecs smod 1000000000\<rparr>
     else \<lparr>tv_sec = 0, tv_nsec = nsecs\<rparr>)"

partial_function (option) nano_loop :: "world \<Rightarrow> timespec \<Rightarrow> (int \<times> world) option" where
  "nano_loop w rqtp = (case nanosleep w rqtp of (r, w') \<Rightarrow>
     (case r of Slept \<Rightarrow> Some (0, w')
      | Interrupted rmtp \<Rightarrow> nano_loop w' rmtp
      | Sleep_failed \<Rightarrow> Some (-1, w')))"

definition do_nano_sleep :: "world \<Rightarrow> int \<Rightarrow> (int \<times> world) option" where
  "do_nano_sleep w nsecs = nano_loop w (nano_request nsecs)"

section \<open>Conversion and elapsed time\<close>

text \<open>A normalised time of less than 292 years, as the monotonic clock returns it.\<close>

definition ts_ok :: "timespec \<Rightarrow> bool" where
  "ts_ok ts \<longleftrightarrow> 0 \<le> tv_sec ts \<and> tv_sec ts < 9000000000 \<and> 0 \<le> tv_nsec ts \<and> tv_nsec ts < 1000000000"

definition ts_nsec :: "timespec \<Rightarrow> int" where
  "ts_nsec ts = tv_sec ts * 1000000000 + tv_nsec ts"

lemma convert_ok: "ts_ok ts \<Longrightarrow> convert_time_to_nsec ts = Inr (ts_nsec ts)"
  by (simp add: convert_time_to_nsec_def chk_ll_ok is_ll_def ts_ok_def ts_nsec_def)

lemma ts_nsec_range: "ts_ok ts \<Longrightarrow> 0 \<le> ts_nsec ts \<and> ts_nsec ts < 9000000000000000000"
  by (auto simp: ts_ok_def ts_nsec_def)

lemma time_diff_ok:
  "ts_ok s \<Longrightarrow> ts_ok e \<Longrightarrow> get_time_diff s e = Inr (ts_nsec e - ts_nsec s)"
  using ts_nsec_range [of s] ts_nsec_range [of e]
  by (simp add: get_time_diff_def convert_ok chk_ll_ok is_ll_def)

text \<open>The order of times is the order of their nanoseconds.\<close>

lemma ts_nsec_less_iff:
  "ts_ok s \<Longrightarrow> ts_ok e \<Longrightarrow> ts_nsec s < ts_nsec e \<longleftrightarrow>
     tv_sec s < tv_sec e \<or> tv_sec s = tv_sec e \<and> tv_nsec s < tv_nsec e"
  unfolding ts_ok_def ts_nsec_def by linarith

section \<open>Splitting a duration\<close>

lemma nano_request_nonneg:
  assumes "0 \<le> n" and "is_int n"
  shows "ts_ok (nano_request n) \<and> ts_nsec (nano_request n) = n"
proof -
  define q r where "q = n div 1000000000" and "r = n mod 1000000000"
  have n: "n = q * 1000000000 + r" by (simp add: q_def r_def)
  have r: "0 \<le> r" "r < 1000000000" by (simp_all add: r_def)
  have n3: "n \<le> 2147483647" using assms by (simp add: is_int_def)
  have q: "0 \<le> q" "q \<le> 3" using n r n3 assms(1) by linarith+
  have "nano_request n = (if 0 < q then \<lparr>tv_sec = q, tv_nsec = r\<rparr> else \<lparr>tv_sec = 0, tv_nsec = n\<rparr>)"
    using assms(1) by (simp add: nano_request_def sdiv_nonneg_eq smod_nonneg_eq q_def r_def)
  moreover have "\<not> 0 < q \<Longrightarrow> n = r" using q n by simp
  ultimately show ?thesis using q r n by (simp add: ts_ok_def ts_nsec_def)
qed

text \<open>
  What \<^verbatim>\<open>nanosleep\<close> documents: an interruption reports a remaining time that is smaller than the
  request.
\<close>

definition sleep_progress :: "world \<Rightarrow> bool" where
  "sleep_progress w \<longleftrightarrow> (\<forall>k rq rm. nsl w k rq = Interrupted rm \<longrightarrow>
     0 \<le> ts_nsec rm \<and> ts_nsec rm < ts_nsec rq)"

lemma nano_loop_returns:
  assumes "sleep_progress w"
  shows "\<exists>rc w'. nano_loop w rq = Some (rc, w') \<and> (rc = 0 \<or> rc = -1) \<and> length (slept w) < length (slept w')
    \<and> clk_n w' = clk_n w \<and> clk w' = clk w \<and> nsl w' = nsl w"
  using assms
proof (induction "nat (ts_nsec rq)" arbitrary: w rq rule: less_induct)
  case less
  define w1 where "w1 = w\<lparr>slept := slept w @ [rq]\<rparr>"
  have unfold: "nano_loop w rq = (case nsl w (length (slept w)) rq of Slept \<Rightarrow> Some (0, w1)
      | Interrupted rmtp \<Rightarrow> nano_loop w1 rmtp | Sleep_failed \<Rightarrow> Some (-1, w1))"
    unfolding w1_def by (subst nano_loop.simps) (simp add: nanosleep_def)
  show ?case
  proof (cases "nsl w (length (slept w)) rq")
    case (Interrupted rm)
    with less.prems have "0 \<le> ts_nsec rm" "ts_nsec rm < ts_nsec rq"
      unfolding sleep_progress_def by blast+
    then have lt: "nat (ts_nsec rm) < nat (ts_nsec rq)" by simp
    have "sleep_progress w1" using less.prems by (simp add: sleep_progress_def w1_def)
    from less.hyps [OF lt this] show ?thesis using Interrupted by (auto simp: unfold w1_def)
  qed (simp_all add: unfold w1_def)
qed

section \<open>The monotonic clock\<close>

text \<open>
  What \<^verbatim>\<open>CLOCK_MONOTONIC\<close> documents: readings are normalised and never go back.
  \<open>Some\<close> says that no reading fails.
\<close>

definition clock_monotonic :: "world \<Rightarrow> bool" where
  "clock_monotonic w \<longleftrightarrow> (\<forall>k. \<exists>ts. clk w k = Some ts \<and> ts_ok ts) \<and>
     (\<forall>k l s e. k \<le> l \<longrightarrow> clk w k = Some s \<longrightarrow> clk w l = Some e \<longrightarrow> ts_nsec s \<le> ts_nsec e)"

lemma clock_monotonic_read:
  assumes "clock_monotonic w"
  obtains s e where "clk w k = Some s" "clk w (k + d) = Some e" "ts_ok s" "ts_ok e"
    "ts_nsec s \<le> ts_nsec e"
  using assms unfolding clock_monotonic_def by (metis le_add1 option.inject)

lemma get_cur_time_clk [simp]: "clk (snd (get_cur_time w)) = clk w"
  by (simp add: get_cur_time_def)

text \<open>Two successive readings give a non-negative elapsed time.\<close>

lemma elapsed_nonneg:
  assumes "clock_monotonic w"
    and "get_cur_time w = (Some s, w1)" and "get_cur_time w1 = (Some e, w2)"
  shows "\<exists>d. get_time_diff s e = Inr d \<and> 0 \<le> d \<and> d < 9000000000000000000"
proof -
  have k: "clk w (clk_n w) = Some s" "clk w (clk_n w + 1) = Some e"
    using assms(2,3) by (auto simp: get_cur_time_def)
  with assms(1) have "ts_ok s" "ts_ok e" "ts_nsec s \<le> ts_nsec e"
    unfolding clock_monotonic_def by (metis option.inject, metis option.inject, metis le_add1)
  then show ?thesis
    using ts_nsec_range [of s] ts_nsec_range [of e] by (auto simp: time_diff_ok)
qed

section \<open>Properties\<close>

text \<open>
  \<^verbatim>\<open>do_nano_sleep\<close> asks \<^verbatim>\<open>nanosleep\<close> for exactly the nanoseconds it was given, as a
  normalised \<^verbatim>\<open>timespec\<close>, for every non-negative \<^verbatim>\<open>int\<close>.
\<close>

lemma nano_request_exact:
  assumes "0 \<le> n" and "is_int n"
  shows "ts_ok (nano_request n) \<and> convert_time_to_nsec (nano_request n) = Inr n"
  using nano_request_nonneg [OF assms] convert_ok by simp

lemma nano_request_exact_witness:
  "ts_ok (nano_request 2000000001) \<and> convert_time_to_nsec (nano_request 2000000001) = Inr 2000000001"
  by (rule nano_request_exact) (simp_all add: is_int_def)

text \<open>
  \<^verbatim>\<open>do_nano_sleep\<close> returns however often a signal interrupts the sleep, as long as each
  interruption reports a smaller remaining time, with \<^verbatim>\<open>SUCCESS\<close> or \<^verbatim>\<open>ERROR\<close>, and the clock is
  untouched.
\<close>

lemma nano_sleep_returns:
  assumes "sleep_progress w"
  shows "\<exists>rc w'. do_nano_sleep w n = Some (rc, w') \<and> (rc = 0 \<or> rc = -1) \<and> length (slept w) < length (slept w')
    \<and> clk_n w' = clk_n w \<and> clk w' = clk w"
  using nano_loop_returns [OF assms, of "nano_request n"] by (auto simp: do_nano_sleep_def)

definition sleepy_world :: world where
  "sleepy_world = \<lparr>clk = \<lambda>_. None, clk_n = 0,
     nsl = \<lambda>k rq. if 1 < ts_nsec rq then Interrupted \<lparr>tv_sec = 0, tv_nsec = 1\<rparr> else Slept, slept = [],
     dsk = \<lambda>_. True, dsk_n = 0, dfile = None, bsize = Some 4096\<rparr>"

lemma nano_sleep_returns_witness:
  "\<exists>rc w'. do_nano_sleep sleepy_world 50 = Some (rc, w') \<and> (rc = 0 \<or> rc = -1) \<and> length (slept sleepy_world) < length (slept w')
    \<and> clk_n w' = clk_n sleepy_world \<and> clk w' = clk sleepy_world"
  by (rule nano_sleep_returns) (simp add: sleepy_world_def sleep_progress_def ts_nsec_def split: if_splits)

end
