(* ===== verification/Timed_Run.thy ===== *)
theory Timed_Run
  imports Scores Time_Mgmt
begin

text \<open>
  The frame that the configuration tests share: what a test receives and returns, a timed
  iteration, a run of iterations, and the loop that repeats the run with twice the work until
  its median exceeds the resolution of the clock and its times are consistent, or the allowed
  number of attempts is used up.  A computation may fault or may not return (\<open>None\<close>).
\<close>

section \<open>Computations that may not return\<close>

type_synonym 'a run = "'a res option"

definition bind_run :: "'a run \<Rightarrow> ('a \<Rightarrow> 'b run) \<Rightarrow> 'b run" where
  "bind_run m k = (case m of None \<Rightarrow> None | Some (Inl e) \<Rightarrow> Some (Inl e) | Some (Inr x) \<Rightarrow> k x)"

lemma bind_run_simps [simp]:
  "bind_run None k = None" "bind_run (Some (Inl e)) k = Some (Inl e)" "bind_run (Some (Inr x)) k = k x"
  by (simp_all add: bind_run_def)

lemma bind_run_assoc: "bind_run (bind_run m k) h = bind_run m (\<lambda>x. bind_run (k x) h)"
  by (auto simp: bind_run_def split: option.split sum.split)

lemma bind_run_Inr_iff: "bind_run m k = Some (Inr y) \<longleftrightarrow> (\<exists>x. m = Some (Inr x) \<and> k x = Some (Inr y))"
  by (auto simp: bind_run_def split: option.splits sum.splits)

lemma bind_run_cong: "(\<And>x. m = Some (Inr x) \<Longrightarrow> k x = h x) \<Longrightarrow> bind_run m k = bind_run m h"
  by (auto simp: bind_run_def split: option.split sum.split)

lemma bind_run_return: "bind_run m (\<lambda>x. Some (Inr x)) = m"
  by (simp add: bind_run_def split: option.split sum.split)

lemma bind_run_total: "\<exists>x. m = Some x \<Longrightarrow> (\<And>x. m = Some (Inr x) \<Longrightarrow> \<exists>y. k x = Some y) \<Longrightarrow> \<exists>y. bind_run m k = Some y"
  by (auto simp: bind_run_def split: sum.split)

section \<open>The interface of a test\<close>

text \<open>
  A test is called with the command line options, its description, the result table, the
  percentages that all tests share and the environment; it stores a return code and may change
  the last three.
\<close>

record tenv =
  te_table :: result_table
  te_vals :: rt_params
  te_world :: world

type_synonym test_fn = "cmd_line_args \<Rightarrow> benchmark_test \<Rightarrow> tenv \<Rightarrow> (int \<times> tenv) run"

section \<open>Timed iterations\<close>

text \<open>
  What an iteration works on: the result it records in and the rest of its state, usually the
  environment.
\<close>

type_synonym 'w rws = "test_results \<times> 'w"
type_synonym rw = "world rws"

text \<open>An early return of a test empties the result first.\<close>

definition give_up :: "rw \<Rightarrow> (int \<times> rw) run" where
  "give_up s = Some (bind_res (free_chain (fst s) 0) (\<lambda>r. Inr (-1, r, snd s)))"

definition timed_step :: "(world \<Rightarrow> (int \<times> world) run) \<Rightarrow> rw \<Rightarrow> (int \<times> rw) run" where
  "timed_step work s = (case get_cur_time (snd s) of
       (None, w) \<Rightarrow> give_up (fst s, w)
     | (Some start_time, w) \<Rightarrow> bind_run (work w) (\<lambda>(rc, w). if rc = -1 then give_up (fst s, w)
         else (case get_cur_time w of (None, w) \<Rightarrow> give_up (fst s, w)
           | (Some end_time, w) \<Rightarrow> Some (bind_res (get_time_diff start_time end_time) (\<lambda>time_diff.
               bind_res (add_entry (fst s) time_diff 0) (\<lambda>r. Inr (0, r, w)))))))"

fun iterate :: "nat \<Rightarrow> ('s \<Rightarrow> (int \<times> 's) run) \<Rightarrow> 's \<Rightarrow> (int \<times> 's) run" where
  "iterate 0 step s = Some (Inr (0, s))"
| "iterate (Suc k) step s = bind_run (step s) (\<lambda>(rc, s). if rc = -1 then Some (Inr (-1, s)) else iterate k step s)"

section \<open>The retry loop\<close>

text \<open>Whether to stop, and the number of attempts whose times were long enough to be judged.\<close>

definition retry_step ::
  "f64 \<Rightarrow> real_time_mode \<Rightarrow> rt_params \<Rightarrow> int \<Rightarrow> test_results \<Rightarrow> int \<Rightarrow> (bool \<times> test_results \<times> int) res" where
  "retry_step clock mode vals threshold r cnt =
     (if clock < of_ll (mediantime r)
      then bind_res (check_pass_criteria r mode vals 0) (\<lambda>(rc, r).
             if rc = 0 then Inr (True, r, cnt)
             else bind_res (chk_int (cnt + 1)) (\<lambda>cnt. Inr (cnt = threshold, r, cnt)))
      else Inr (False, r, cnt))"

definition next_quantum :: "test_results \<Rightarrow> int \<Rightarrow> (int \<times> test_results) res" where
  "next_quantum r num = bind_res (free_chain r 0) (\<lambda>r. bind_res (chk_int (num * 2)) (\<lambda>num. Inr (num, r)))"

partial_function (option) retry_loop ::
  "(int \<Rightarrow> 'w rws \<Rightarrow> (int \<times> 'w rws) run) \<Rightarrow> (test_results \<Rightarrow> int \<Rightarrow> (bool \<times> test_results \<times> int) res) \<Rightarrow>
   int \<Rightarrow> int \<Rightarrow> 'w rws \<Rightarrow> (int \<times> int \<times> 'w rws) run" where
  "retry_loop body decide num cnt s = (case body num s of None \<Rightarrow> None
     | Some (Inl e) \<Rightarrow> Some (Inl e)
     | Some (Inr (rc, r, w)) \<Rightarrow> if rc = -1 then Some (Inr (-1, num, r, w))
         else (case decide r cnt of Inl e \<Rightarrow> Some (Inl e)
           | Inr (fin, r, cnt) \<Rightarrow> if fin then Some (Inr (0, num, r, w))
               else (case next_quantum r num of Inl e \<Rightarrow> Some (Inl e)
                 | Inr (num, r) \<Rightarrow> retry_loop body decide num cnt (r, w))))"

section \<open>Iterations record their times\<close>

text \<open>
  The hypothesis about the clock: the next \<open>2 n\<close> readings succeed, and the two readings of each
  iteration are at least \<open>lo\<close> and at most \<open>b\<close> nanoseconds apart.  The number of iterations is
  small enough for the sums.
\<close>

definition in_range :: "int \<Rightarrow> int \<Rightarrow> int \<Rightarrow> bool" where
  "in_range lo b t \<longleftrightarrow> 0 \<le> t \<and> lo \<le> t \<and> t \<le> b"

definition clock_steps :: "int \<Rightarrow> int \<Rightarrow> nat \<Rightarrow> world \<Rightarrow> bool" where
  "clock_steps lo b n w \<longleftrightarrow> (\<forall>i < n. \<exists>s e. clk w (clk_n w + 2 * i) = Some s \<and> clk w (Suc (clk_n w + 2 * i)) = Some e
     \<and> ts_ok s \<and> ts_ok e \<and> in_range lo b (ts_nsec e - ts_nsec s))"

definition run_ok :: "int \<Rightarrow> int \<Rightarrow> bool" where
  "run_ok iters b \<longleftrightarrow> 0 < iters \<and> is_int iters \<and> 1 \<le> b \<and> iters * (b * b) \<le> LLONG_MAX"

lemma clock_steps_next:
  assumes "clock_steps lo b (Suc n) w" and "clk w' = clk w" "clk_n w' = Suc (Suc (clk_n w))"
  shows "clock_steps lo b n w'"
  unfolding clock_steps_def
proof (intro allI impI)
  fix i assume "i < n"
  then have "Suc i < Suc n" by simp
  with assms(1) obtain s e where "clk w (clk_n w + 2 * Suc i) = Some s" "clk w (Suc (clk_n w + 2 * Suc i)) = Some e"
    "ts_ok s" "ts_ok e" "in_range lo b (ts_nsec e - ts_nsec s)" unfolding clock_steps_def by blast
  moreover have "clk_n w' + 2 * i = clk_n w + 2 * Suc i" using assms(3) by simp
  ultimately show "\<exists>s e. clk w' (clk_n w' + 2 * i) = Some s \<and> clk w' (Suc (clk_n w' + 2 * i)) = Some e
     \<and> ts_ok s \<and> ts_ok e \<and> in_range lo b (ts_nsec e - ts_nsec s)" using assms(2) by metis
qed

lemma two_readings:
  assumes "clock_steps lo b (Suc n) w"
  obtains s e where "clk w (clk_n w) = Some s" "clk w (Suc (clk_n w)) = Some e"
    "get_time_diff s e = Inr (ts_nsec e - ts_nsec s)" "in_range lo b (ts_nsec e - ts_nsec s)"
  using assms time_diff_ok unfolding clock_steps_def by (metis add.right_neutral mult_0_right zero_less_Suc)

text \<open>
  A step that records one time between \<open>lo\<close> and \<open>b\<close>; \<open>P n\<close> says that the environment allows \<open>n\<close>
  more steps.
\<close>

definition records_time :: "int \<Rightarrow> int \<Rightarrow> (nat \<Rightarrow> 'w \<Rightarrow> bool) \<Rightarrow> ('w rws \<Rightarrow> (int \<times> 'w rws) run) \<Rightarrow> bool" where
  "records_time lo b P step \<longleftrightarrow> (\<forall>r w n. P (Suc n) w \<longrightarrow> (\<exists>t w'. in_range lo b t \<and> P n w' \<and>
     step (r, w) = Some (bind_res (add_entry r t 0) (\<lambda>r. Inr (0, r, w')))))"

text \<open>Work that succeeds and does not touch the clock.\<close>

definition quiet_work :: "(world \<Rightarrow> (int \<times> world) run) \<Rightarrow> bool" where
  "quiet_work work \<longleftrightarrow> (\<forall>w. \<exists>rc w'. work w = Some (Inr (rc, w')) \<and> rc \<noteq> -1 \<and> clk w' = clk w \<and> clk_n w' = clk_n w)"

lemma timed_step_records:
  assumes "quiet_work work"
  shows "records_time lo b (clock_steps lo b) (timed_step work)"
  unfolding records_time_def
proof (intro allI impI)
  fix r w n assume c: "clock_steps lo b (Suc n) w"
  let ?k = "clk_n w"
  obtain s e where se: "clk w ?k = Some s" "clk w (Suc ?k) = Some e" "get_time_diff s e = Inr (ts_nsec e - ts_nsec s)"
    "in_range lo b (ts_nsec e - ts_nsec s)"
    using two_readings [OF c] .
  define w1 where "w1 = w\<lparr>clk_n := Suc ?k\<rparr>"
  obtain rc w2 where w2: "work w1 = Some (Inr (rc, w2))" "clk w2 = clk w1" "clk_n w2 = clk_n w1" "rc \<noteq> -1"
    using assms(1) unfolding quiet_work_def by blast
  define w3 where "w3 = w2\<lparr>clk_n := Suc (clk_n w2)\<rparr>"
  have "clock_steps lo b n w3" using w2 by (intro clock_steps_next [OF c]) (simp_all add: w3_def w1_def)
  moreover have "timed_step work (r, w) = Some (bind_res (add_entry r (ts_nsec e - ts_nsec s) 0) (\<lambda>r. Inr (0, r, w3)))"
    using se w2 by (simp add: timed_step_def get_cur_time_def w1_def w3_def)
  ultimately show "\<exists>t w'. in_range lo b t \<and> clock_steps lo b n w' \<and>
     timed_step work (r, w) = Some (bind_res (add_entry r t 0) (\<lambda>r. Inr (0, r, w')))"
    using se(4) by blast
qed

lemma iterate_records:
  assumes "records_time lo b P step" and "P (n + m) w"
  shows "\<exists>ts w'. length ts = n \<and> (\<forall>t \<in> set ts. in_range lo b t) \<and> P m w' \<and>
    iterate n step (r, w) = Some (bind_res (add_entries r ts) (\<lambda>r. Inr (0, r, w')))"
  using assms(2)
proof (induction n arbitrary: r w)
  case 0
  then show ?case by (intro exI [of _ "[]"] exI [of _ w]) simp
next
  case (Suc n)
  have "P (Suc (n + m)) w" using Suc.prems by simp
  then obtain t w1 where t: "in_range lo b t" "P (n + m) w1"
    "step (r, w) = Some (bind_res (add_entry r t 0) (\<lambda>r. Inr (0, r, w1)))"
    using assms(1) unfolding records_time_def by blast
  show ?case
  proof (cases "add_entry r t 0")
    case (Inl e)
    obtain ts w' where "length ts = n" "\<forall>t \<in> set ts. in_range lo b t" "P m w'"
      using Suc.IH [OF t(2), of r] by blast
    with Inl t show ?thesis by (intro exI [of _ "t # ts"] exI [of _ w']) simp
  next
    case (Inr r1)
    obtain ts w' where "length ts = n" "\<forall>t \<in> set ts. in_range lo b t" "P m w'"
      "iterate n step (r1, w1) = Some (bind_res (add_entries r1 ts) (\<lambda>r. Inr (0, r, w')))"
      using Suc.IH [OF t(2), of r1] by blast
    with Inr t show ?thesis by (intro exI [of _ "t # ts"] exI [of _ w']) simp
  qed
qed

text \<open>The result of a whole run: its times and their statistics.\<close>

definition measured :: "int \<Rightarrow> int \<Rightarrow> int \<Rightarrow> test_results \<Rightarrow> int list \<Rightarrow> bool" where
  "measured lo b iters r ts \<longleftrightarrow> recorded r ts \<and> summarised r ts \<and> int (length ts) = iters \<and> ts \<noteq> [] \<and>
     times_ok b ts \<and> (\<forall>t \<in> set ts. lo \<le> t) \<and> max_entries r = iters"

lemma iterate_run:
  assumes "records_time lo b P step" and "P (nat iters + m) w" and "run_ok iters b"
    and "recorded r []" and "max_entries r = iters"
  shows "\<exists>ts r' w'. iterate (nat iters) step (r, w) = Some (Inr (0, r', w')) \<and> measured lo b iters r' ts \<and> P m w'"
proof -
  obtain ts w' where ts: "length ts = nat iters" "\<forall>t \<in> set ts. in_range lo b t" "P m w'"
    "iterate (nat iters) step (r, w) = Some (bind_res (add_entries r ts) (\<lambda>r. Inr (0, r, w')))"
    using iterate_records [OF assms(1,2)] by blast
  have len: "int (length ts) = iters" "ts \<noteq> []" using ts(1) assms(3) by (auto simp: run_ok_def)
  have ok: "times_ok b ts" using ts(2) assms(3) len(1) by (simp add: times_ok_def run_ok_def in_range_def)
  obtain r' where "add_entries r ts = Inr r'" "recorded r' ts" "summarised r' ts" "max_entries r' = max_entries r"
    using add_entries_full [OF assms(4) _ len(2) ok] len(1) assms(5) by auto
  with ts len ok assms(5) show ?thesis by (auto simp: measured_def in_range_def)
qed

text \<open>
  The same with the times themselves: a step that records \<open>T w\<close> and leaves the environment \<open>nxt w\<close>.
\<close>

lemma iterate_exact:
  assumes "\<And>r w n. P (Suc n) w \<Longrightarrow> in_range lo b (T w) \<and> P n (nxt w)
      \<and> step (r, w) = Some (bind_res (add_entry r (T w) 0) (\<lambda>r. Inr (0, r, nxt w)))"
    and "P (n + m) w"
  shows "iterate n step (r, w) = Some (bind_res (add_entries r (map (\<lambda>i. T ((nxt ^^ i) w)) [0..<n])) (\<lambda>r. Inr (0, r, (nxt ^^ n) w)))
    \<and> P m ((nxt ^^ n) w) \<and> (\<forall>i < n. in_range lo b (T ((nxt ^^ i) w)))"
  using assms(2)
proof (induction n arbitrary: r w)
  case (Suc n)
  have "P (Suc (n + m)) w" using Suc.prems by simp
  note t = assms(1) [OF this]
  have u: "map (\<lambda>i. T ((nxt ^^ i) w)) [0..<Suc n] = T w # map (\<lambda>i. T ((nxt ^^ i) (nxt w))) [0..<n]"
    by (simp add: map_upt_Suc funpow_swap1 del: upt_Suc)
  from t Suc.IH [of "nxt w"] show ?case
    by (cases "add_entry r (T w) 0") (auto simp: u funpow_swap1 less_Suc_eq_0_disj simp del: upt_Suc)
qed simp

lemma iterate_exact_run:
  assumes "\<And>r w n. P (Suc n) w \<Longrightarrow> in_range lo b (T w) \<and> P n (nxt w)
      \<and> step (r, w) = Some (bind_res (add_entry r (T w) 0) (\<lambda>r. Inr (0, r, nxt w)))"
    and "P (nat iters + m) w" and "run_ok iters b" and "recorded r []" and "max_entries r = iters"
  shows "\<exists>r'. iterate (nat iters) step (r, w) = Some (Inr (0, r', (nxt ^^ nat iters) w))
    \<and> measured lo b iters r' (map (\<lambda>i. T ((nxt ^^ i) w)) [0..<nat iters]) \<and> P m ((nxt ^^ nat iters) w)"
proof -
  let ?ts = "map (\<lambda>i. T ((nxt ^^ i) w)) [0..<nat iters]"
  note it = iterate_exact [where P = P and T = T and nxt = nxt and step = step, OF assms(1,2)]
  have len: "int (length ?ts) = iters" "?ts \<noteq> []" using assms(3) by (auto simp: run_ok_def)
  have rng: "\<forall>t \<in> set ?ts. in_range lo b t" using it by auto
  then have ok: "times_ok b ?ts" using assms(3) len(1) by (simp add: times_ok_def run_ok_def in_range_def)
  obtain r' where "add_entries r ?ts = Inr r'" "recorded r' ?ts" "summarised r' ?ts" "max_entries r' = max_entries r"
    using add_entries_full [OF assms(4) _ len(2) ok] len(1) assms(5) by auto
  with it len ok assms(5) rng show ?thesis by (auto simp: measured_def in_range_def)
qed

text \<open>Readings in pairs: the elapsed times of the next \<open>n\<close> pairs, and the environment after them.\<close>

definition elapsed_times :: "world \<Rightarrow> nat \<Rightarrow> int list" where
  "elapsed_times w n = map (\<lambda>i. ts_nsec (the (clk w (Suc (clk_n w + 2 * i)))) - ts_nsec (the (clk w (clk_n w + 2 * i)))) [0..<n]"

definition sleep_once :: "timespec \<Rightarrow> world \<Rightarrow> world" where
  "sleep_once rq w = w\<lparr>slept := slept w @ [rq], clk_n := Suc (Suc (clk_n w))\<rparr>"

lemma sleep_often: "(sleep_once rq ^^ n) w = w\<lparr>slept := slept w @ replicate n rq, clk_n := clk_n w + 2 * n\<rparr>"
  by (induction n) (simp_all add: sleep_once_def replicate_append_same flip: replicate_Suc)

lemma median_of_ge:
  assumes "\<forall>t \<in> set ts. lo \<le> t" and "ts \<noteq> []"
  shows "lo \<le> \<lfloor>median_of ts\<rfloor>"
proof -
  let ?k = "length ts div 2"
  have l: "?k < length ts" using assms(2) by simp
  have k: "lo \<le> sort ts ! ?k" "lo \<le> sort ts ! (?k - 1)"
    using l assms(1) sort_nth_mem [of ?k ts] sort_nth_mem [of "?k - 1" ts] by auto
  then have "2 * lo \<le> sort ts ! (?k - 1) + sort ts ! ?k" by simp
  then have "(of_int (2 * lo) :: rat) \<le> of_int (sort ts ! (?k - 1) + sort ts ! ?k)" by (simp only: of_int_le_iff)
  then have "of_int lo \<le> (median_of ts :: rat)" using k(1) by (simp add: median_of_def Let_def)
  then show ?thesis by (simp add: le_floor_iff)
qed

lemma measured_median:
  assumes "measured lo b iters r ts"
  shows "lo \<le> mediantime r" "0 \<le> mediantime r" "mediantime r \<le> b" "b \<le> 3037000499"
proof -
  have ts: "ts \<noteq> []" "times_ok b ts" "\<forall>t \<in> set ts. lo \<le> t" "mediantime r = \<lfloor>median_of ts\<rfloor>"
    using assms by (simp_all add: measured_def summarised_def)
  show "lo \<le> mediantime r" using median_of_ge [OF ts(3,1)] ts(4) by simp
  show "0 \<le> mediantime r" "mediantime r \<le> b" using median_of_bounds [OF ts(2,1)] ts(4) by (simp_all add: floor_le_iff)
  show "b \<le> 3037000499" using times_ok_bound [OF ts(2,1)] .
qed

section \<open>The loop returns\<close>

lemma iterate_total: "(\<And>s. \<exists>x. step s = Some x) \<Longrightarrow> \<exists>x. iterate n step s = Some x"
  by (induction n arbitrary: s) (auto intro!: bind_run_total split: prod.split)

lemma next_quantum_Inr: "next_quantum r num = Inr (n, r') \<longleftrightarrow> is_int (num * 2) \<and> n = num * 2 \<and> r' = r\<lparr>num_entries := 0\<rparr>"
  by (auto simp: next_quantum_def free_chain_def bind_res_Inr_iff)

lemma retry_loop_total:
  assumes "\<And>q s. \<exists>x. body q s = Some x" and "0 < num"
  shows "\<exists>x. retry_loop body decide num cnt s = Some x"
  using assms(2)
proof (induction "nat (2147483648 - num)" arbitrary: num cnt s rule: less_induct)
  case less
  have "\<exists>x. retry_loop body decide n c s' = Some x" if "next_quantum r num = Inr (n, r')" for n c s' r r'
    using that less.prems by (intro less.hyps) (auto simp: next_quantum_Inr is_int_def)
  moreover obtain x where "body num s = Some x" using assms(1) by blast
  ultimately show ?case
    by (subst retry_loop.simps) (fastforce split: sum.split prod.split)
qed

section \<open>What the loop decides\<close>

definition percent_ok :: "real_time_mode \<Rightarrow> rt_params \<Rightarrow> bool" where
  "percent_ok mode p \<longleftrightarrow> (\<exists>a. acceptable_percentage (mode_vals mode p) = Fin a \<and> 0 \<le> a \<and> a \<le> 100)"

definition passed :: "test_results \<Rightarrow> bool" where
  "passed r \<longleftrightarrow> min_acceptable_iterations r \<le> num_entries r - non_conforming_iterations r"

text \<open>
  The verdict as a function of the recorded times: the number of times inside the limits around the median reaches
  the truncated percentage of the iterations.
\<close>

definition criteria_met :: "real_time_mode \<Rightarrow> rt_params \<Rightarrow> int list \<Rightarrow> bool" where
  "criteria_met mode p ts \<longleftrightarrow> (let v = mode_vals mode p; med = \<lfloor>median_of ts\<rfloor> in
     case f64_to_ll ((of_ll (int (length ts)) / Fin 100) * acceptable_percentage v) of Inl e \<Rightarrow> False
     | Inr m \<Rightarrow> m \<le> conforming (limit med (Fin 100 - range_percentage v)) (limit med (Fin 100 + range_percentage v)) ts)"

lemma check_pass_met:
  assumes "measured lo b iters r ts" and "percent_ok mode vals"
  shows "\<exists>r'. check_pass_criteria r mode vals 0 = Inr (if passed r' then 0 else -1, r') \<and> measured lo b iters r' ts
    \<and> mediantime r' = mediantime r \<and> tvalues r' = tvalues r \<and> opern_amount r' = opern_amount r \<and> passed r' = criteria_met mode vals ts"
proof -
  have "recorded r ts" using assms(1) by (simp add: measured_def)
  obtain a where a: "acceptable_percentage (mode_vals mode vals) = Fin a" "0 \<le> a" "a \<le> 100" using assms(2) by (auto simp: percent_ok_def)
  define neg where "neg = limit (mediantime r) (Fin 100 - range_percentage (mode_vals mode vals))"
  define pos where "pos = limit (mediantime r) (Fin 100 + range_percentage (mode_vals mode vals))"
  obtain m r' where c: "check_pass_criteria r mode vals 0 = Inr (if m \<le> conforming neg pos ts then 0 else -1, r')"
    and m: "f64_to_ll ((of_ll (int (length ts)) / Fin 100) * Fin a) = Inr m"
    and r': "r' = r\<lparr>non_conforming_iterations := int (length ts) - conforming neg pos ts, positive_limit := pos,
        negative_limit := neg, min_acceptable_iterations := m\<rparr>"
    using check_pass_ok [OF \<open>recorded r ts\<close> a] unfolding neg_def [symmetric] pos_def [symmetric] by blast
  have "mediantime r = \<lfloor>median_of ts\<rfloor>" using assms(1) by (simp add: measured_def summarised_def)
  then have met: "criteria_met mode vals ts \<longleftrightarrow> m \<le> conforming neg pos ts"
    using m a(1) by (simp add: criteria_met_def neg_def pos_def Let_def)
  have n: "num_entries r = int (length ts)" "int (length ts) \<le> INT_MAX"
    using assms(1) by (auto simp: measured_def recorded_def is_int_def)
  have "0 \<le> conforming neg pos ts" "conforming neg pos ts \<le> int (length ts)" by (simp_all add: conforming_def)
  then have "0 \<le> int (length ts) - conforming neg pos ts" "int (length ts) - conforming neg pos ts \<le> INT_MAX"
    using n(2) by simp_all
  moreover have "passed r' \<longleftrightarrow> m \<le> conforming neg pos ts" using n(1) by (simp add: passed_def r')
  moreover have "measured lo b iters r' ts"
    using assms(1) calculation(1,2) by (auto simp: measured_def r' recorded_def summarised_def)
  ultimately show ?thesis using c met by (simp add: r')
qed

lemma check_pass_measured:
  assumes "measured lo b iters r ts" and "percent_ok mode vals"
  shows "\<exists>r'. check_pass_criteria r mode vals 0 = Inr (if passed r' then 0 else -1, r') \<and> measured lo b iters r' ts
    \<and> mediantime r' = mediantime r \<and> tvalues r' = tvalues r \<and> opern_amount r' = opern_amount r"
  using check_pass_met [OF assms] by blast

lemma retry_step_judged:
  assumes "measured lo b iters r ts" and "percent_ok mode vals" and "clock < of_ll (mediantime r)" and "is_int (cnt + 1)"
  shows "\<exists>r'. retry_step clock mode vals threshold r cnt
      = Inr (passed r' \<or> cnt + 1 = threshold, r', if passed r' then cnt else cnt + 1)
    \<and> measured lo b iters r' ts \<and> mediantime r' = mediantime r"
proof -
  obtain r' where "check_pass_criteria r mode vals 0 = Inr (if passed r' then 0 else -1, r')"
    "measured lo b iters r' ts" "mediantime r' = mediantime r"
    using check_pass_measured [OF assms(1,2)] by blast
  with assms(3,4) show ?thesis by (intro exI [of _ r']) (simp add: retry_step_def chk_int_ok)
qed

lemma retry_step_too_short: "\<not> clock < of_ll (mediantime r) \<Longrightarrow> retry_step clock mode vals threshold r cnt = Inr (False, r, cnt)"
  by (simp add: retry_step_def)

lemma f64_less_le_trans: "x < y \<Longrightarrow> y \<le> z \<Longrightarrow> x < (z :: f64)"
  by (cases x; cases y; cases z) (auto simp: f64_cmp)

section \<open>The contract of a timed test\<close>

text \<open>
  The interface between a test and the retry loop: for every positive quantum up to \<open>qmax\<close> a run of the
  body fills an emptied result with times of at least \<open>lo\<close> and at most \<open>b\<close> nanoseconds, as long as
  the environment allows it: \<open>ready iters q lo b n\<close> says that it is prepared for a run with quantum \<open>q\<close>
  and that \<open>n\<close> more iterations are possible.
\<close>

locale quantum_body =
  fixes body :: "int \<Rightarrow> int \<Rightarrow> 'w rws \<Rightarrow> (int \<times> 'w rws) run"
    and ready :: "int \<Rightarrow> int \<Rightarrow> int \<Rightarrow> int \<Rightarrow> nat \<Rightarrow> 'w \<Rightarrow> bool"
    and qmax :: int
  assumes quantum_law: "0 < q \<Longrightarrow> q \<le> qmax \<Longrightarrow> ready iters q lo b (nat iters + m) w \<Longrightarrow> run_ok iters b
    \<Longrightarrow> recorded r [] \<Longrightarrow> max_entries r = iters
    \<Longrightarrow> \<exists>ts r' w'. body iters q (r, w) = Some (Inr (0, r', w')) \<and> measured lo b iters r' ts \<and> ready iters (q * 2) lo b m w'"
begin

text \<open>
  When every iteration is longer than the resolution of the clock, the loop ends within
  \<open>threshold\<close> attempts: the first that passes, or the last one.
\<close>

lemma ends_within_threshold:
  assumes "clock < of_ll lo" and "percent_ok mode vals" and "run_ok iters b"
    and "0 < q" "q * 2 ^ nat (threshold - 1 - cnt) \<le> qmax" "qmax \<le> INT_MAX" and "0 \<le> cnt" "cnt < threshold" "is_int threshold"
    and "ready iters q lo b (nat (threshold - cnt) * nat iters) w" and "recorded r []" "max_entries r = iters"
  shows "\<exists>k ts r' w'. retry_loop (body iters) (retry_step clock mode vals threshold) q cnt (r, w)
      = Some (Inr (0, q * 2 ^ k, r', w')) \<and> int k < threshold - cnt \<and> measured lo b iters r' ts
    \<and> (passed r' \<or> int k = threshold - 1 - cnt) \<and> (\<exists>m. ready iters (q * 2 ^ Suc k) lo b m w')"
  using assms(4,5,7-)
proof (induction "nat (threshold - cnt)" arbitrary: q cnt r w)
  case 0
  then show ?case by simp
next
  case (Suc n)
  have "q \<le> q * 2 ^ nat (threshold - 1 - cnt)" using Suc.prems(1) by simp
  then have "q \<le> qmax" using Suc.prems(2) by simp
  have "nat (threshold - cnt) = Suc (nat (threshold - (cnt + 1)))" using Suc.prems(4) by linarith
  then have "nat (threshold - cnt) * nat iters = nat iters + nat (threshold - (cnt + 1)) * nat iters" by simp
  then have "ready iters q lo b (nat iters + nat (threshold - (cnt + 1)) * nat iters) w" using Suc.prems(6) by simp
  from quantum_law [OF Suc.prems(1) \<open>q \<le> qmax\<close> this assms(3) Suc.prems(7,8)]
  obtain ts r1 w1 where r1: "body iters q (r, w) = Some (Inr (0, r1, w1))"
    "measured lo b iters r1 ts" "ready iters (q * 2) lo b (nat (threshold - (cnt + 1)) * nat iters) w1" by blast
  have "is_int (cnt + 1)" using Suc.prems(3-5) by (simp add: is_int_def)
  moreover have "clock < of_ll (mediantime r1)"
    using f64_less_le_trans [OF assms(1) of_ll_mono] measured_median(1) [OF r1(2)] by blast
  ultimately obtain r2 where r2: "retry_step clock mode vals threshold r1 cnt
      = Inr (passed r2 \<or> cnt + 1 = threshold, r2, if passed r2 then cnt else cnt + 1)" "measured lo b iters r2 ts"
    using retry_step_judged [OF r1(2) assms(2)] by blast
  show ?case
  proof (cases "passed r2 \<or> cnt + 1 = threshold")
    case True
    with r1 r2 Suc.prems(4) show ?thesis
      by (intro exI [of _ 0] exI [of _ ts] exI [of _ r2] exI [of _ w1]) (auto simp: retry_loop.simps)
  next
    case False
    have e: "nat (threshold - 1 - cnt) = Suc (nat (threshold - 1 - (cnt + 1)))" using False Suc.prems(4) by linarith
    then have q2: "q * 2 * 2 ^ nat (threshold - 1 - (cnt + 1)) \<le> qmax" using Suc.prems(2) by simp
    moreover have "q * 2 \<le> q * 2 * 2 ^ nat (threshold - 1 - (cnt + 1))" using Suc.prems(1) by simp
    ultimately have "is_int (q * 2)" using assms(6) Suc.prems(1) unfolding is_int_def by linarith
    then have next_q: "next_quantum r2 q = Inr (q * 2, r2\<lparr>num_entries := 0\<rparr>)" by (simp add: next_quantum_Inr)
    have e2: "recorded (r2\<lparr>num_entries := 0\<rparr>) []" "max_entries (r2\<lparr>num_entries := 0\<rparr>) = iters"
      using r2(2) by (auto simp: measured_def recorded_def)
    have "n = nat (threshold - (cnt + 1))" using Suc.hyps(2) by simp
    from Suc.hyps(1) [OF this _ q2 _ _ Suc.prems(5) r1(3) e2] False Suc.prems(1,3,4)
    obtain k ts' r' w' m where "retry_loop (body iters) (retry_step clock mode vals threshold)
        (q * 2) (cnt + 1) (r2\<lparr>num_entries := 0\<rparr>, w1) = Some (Inr (0, q * 2 * 2 ^ k, r', w'))"
      "int k < threshold - (cnt + 1)" "measured lo b iters r' ts'"
      "passed r' \<or> int k = threshold - 1 - (cnt + 1)" "ready iters (q * 2 * 2 ^ Suc k) lo b m w'" by auto
    moreover from this(5) have "ready iters (q * 2 ^ Suc (Suc k)) lo b m w'" by (simp add: mult.assoc)
    ultimately show ?thesis using False r1(1) r2(1) next_q
      by (intro exI [of _ "Suc k"] exI [of _ ts'] exI [of _ r'] exI [of _ w']) (auto simp: retry_loop.simps)
  qed
qed

end

text \<open>The environment often does not depend on the quantum.\<close>

locale timed_body =
  fixes body :: "int \<Rightarrow> int \<Rightarrow> 'w rws \<Rightarrow> (int \<times> 'w rws) run"
    and inv :: "int \<Rightarrow> int \<Rightarrow> nat \<Rightarrow> 'w \<Rightarrow> bool"
    and qmax :: int
  assumes run_law: "0 < q \<Longrightarrow> q \<le> qmax \<Longrightarrow> inv lo b (nat iters + m) w \<Longrightarrow> run_ok iters b
    \<Longrightarrow> recorded r [] \<Longrightarrow> max_entries r = iters
    \<Longrightarrow> \<exists>ts r' w'. body iters q (r, w) = Some (Inr (0, r', w')) \<and> measured lo b iters r' ts \<and> inv lo b m w'"

sublocale timed_body \<subseteq> quantum_body body "\<lambda>_ _. inv" qmax
  by unfold_locales (rule run_law)

text \<open>
  A test that accepts every quantum: the loop then fails only when the quantum no longer fits an
  \<^verbatim>\<open>int\<close>, whatever the clock says, and the median that it ends with exceeds the resolution.
\<close>

locale any_quantum_test = timed_body +
  assumes any_quantum: "INT_MAX \<le> qmax"
begin

lemma ends_or_overflows:
  assumes "percent_ok mode vals" and "run_ok iters b" and "0 < q" "is_int q" and "0 \<le> cnt" "cnt < q"
    and "INT_MAX < q * 2 ^ m" "inv lo b (m * nat iters) w" and "recorded r []" "max_entries r = iters"
  shows "\<exists>x. retry_loop (body iters) (retry_step clock mode vals threshold) q cnt (r, w) = Some x
    \<and> (x = Inl Overflow \<or> (\<exists>k ts r' w'. x = Inr (0, q * 2 ^ k, r', w') \<and> measured lo b iters r' ts
      \<and> clock < of_ll (mediantime r')))"
  using assms(3-)
proof (induction m arbitrary: q cnt r w)
  case 0
  then show ?case by (simp add: is_int_def)
next
  case (Suc m)
  have "q \<le> qmax" using Suc.prems(2) any_quantum by (simp add: is_int_def)
  moreover have "inv lo b (nat iters + m * nat iters) w" using Suc.prems(6) by simp
  ultimately
  obtain ts r1 w1 where r1: "body iters q (r, w) = Some (Inr (0, r1, w1))"
    "measured lo b iters r1 ts" "inv lo b (m * nat iters) w1"
    using run_law [OF Suc.prems(1) _ _ assms(2) Suc.prems(7,8)] by blast
  have ci: "is_int (cnt + 1)" using Suc.prems(2-4) by (simp add: is_int_def)
  show ?case
  proof (cases "clock < of_ll (mediantime r1) \<and> (\<exists>r2 c. retry_step clock mode vals threshold r1 cnt = Inr (True, r2, c))")
    case True
    then obtain r2 where r2: "retry_step clock mode vals threshold r1 cnt = Inr (True, r2, if passed r2 then cnt else cnt + 1)"
      "measured lo b iters r2 ts" "mediantime r2 = mediantime r1"
      using retry_step_judged [OF r1(2) assms(1) _ ci, of clock threshold] by auto
    with r1 True show ?thesis
      by (intro exI [of _ "Inr (0, q, r2, w1)"] conjI disjI2 exI [of _ 0] exI [of _ ts] exI [of _ r2] exI [of _ w1])
        (auto simp: retry_loop.simps)
  next
    case False
    then obtain r2 c where r2: "retry_step clock mode vals threshold r1 cnt = Inr (False, r2, c)"
      "measured lo b iters r2 ts" "0 \<le> c" "c \<le> cnt + 1"
      using retry_step_judged [OF r1(2) assms(1) _ ci, of clock threshold] r1(2) Suc.prems(3)
      by (cases "clock < of_ll (mediantime r1)") (fastforce simp: retry_step_too_short split: if_splits)+
    show ?thesis
    proof (cases "is_int (q * 2)")
      case False
      then have "next_quantum r2 q = Inl Overflow" by (simp add: next_quantum_def free_chain_def chk_int_def)
      with r1(1) r2(1) show ?thesis by (simp add: retry_loop.simps)
    next
      case fits: True
      then have nq: "next_quantum r2 q = Inr (q * 2, r2\<lparr>num_entries := 0\<rparr>)" by (simp add: next_quantum_Inr)
      have e2: "recorded (r2\<lparr>num_entries := 0\<rparr>) []" "max_entries (r2\<lparr>num_entries := 0\<rparr>) = iters"
        using r2(2) by (auto simp: measured_def recorded_def)
      have "0 < q * 2" "c < q * 2" "INT_MAX < q * 2 * 2 ^ m"
        using Suc.prems(1,4,5) r2(4) by auto
      from Suc.IH [OF this(1) fits r2(3) this(2,3) r1(3) e2] obtain x where x:
        "retry_loop (body iters) (retry_step clock mode vals threshold) (q * 2) c (r2\<lparr>num_entries := 0\<rparr>, w1) = Some x"
        "x = Inl Overflow \<or> (\<exists>k ts r' w'. x = Inr (0, q * 2 * 2 ^ k, r', w') \<and> measured lo b iters r' ts
          \<and> clock < of_ll (mediantime r'))" by blast
      have "q * 2 * 2 ^ k = q * 2 ^ Suc k" for k :: nat by simp
      with x(2) have "x = Inl Overflow \<or> (\<exists>k ts r' w'. x = Inr (0, q * 2 ^ k, r', w') \<and> measured lo b iters r' ts
          \<and> clock < of_ll (mediantime r'))" by metis
      with x(1) r1(1) r2(1) nq show ?thesis by (intro exI [of _ x]) (simp add: retry_loop.simps)
    qed
  qed
qed

end

text \<open>Most bodies iterate a step that records one time.\<close>

locale timed_test =
  fixes step :: "int \<Rightarrow> 'w rws \<Rightarrow> (int \<times> 'w rws) run"
    and inv :: "int \<Rightarrow> int \<Rightarrow> nat \<Rightarrow> 'w \<Rightarrow> bool"
    and qmax :: int
  assumes step_law: "0 < q \<Longrightarrow> q \<le> qmax \<Longrightarrow> records_time lo b (inv lo b) (step q)"

sublocale timed_test \<subseteq> timed_body "\<lambda>iters q. iterate (nat iters) (step q)" inv qmax
  by unfold_locales (rule iterate_run [OF step_law])

end
