(* ===== verification/Math_Opern.thy ===== *)
theory Math_Opern
  imports IEEE_Float
begin

text \<open>
  The work that the tests time: \<^verbatim>\<open>testcase/util/math_operations/simple_math_opern.c\<close>,
  \<^verbatim>\<open>testcase/util/array_operations/array_operns.c\<close> and the matrix kernels of
  \<^verbatim>\<open>thread_priority_test.c\<close> and \<^verbatim>\<open>multi_thread_test.c\<close>.  The integer kernels are modelled with
  their undefined behaviours, so that their absence in the ranges the tests use is a theorem.
\<close>

section \<open>\<^verbatim>\<open>do_simple_int_opern\<close>\<close>

definition int_opern_body :: "int \<Rightarrow> int \<Rightarrow> int res" where
  "int_opern_body i j = bind_res (chk_ll (j * i)) (\<lambda>p. bind_res (chk_ll (j + i)) (\<lambda>s.
     bind_res (chk_ll (p - s)) (\<lambda>d. div_ll d j)))"

function int_opern_loop :: "int \<Rightarrow> int \<Rightarrow> int \<Rightarrow> int \<Rightarrow> int res" where
  "int_opern_loop num i j r = (if i < num
     then bind_res (int_opern_body i j) (\<lambda>r'. bind_res (chk_ll (i + 1)) (\<lambda>i'.
            bind_res (chk_ll (j - i')) (\<lambda>j'. int_opern_loop num (i + 1) j' r')))
     else Inr r)"
  by pat_completeness auto
termination
  by (relation "measure (\<lambda>(num, i, j, r). nat (num - i))") auto

declare int_opern_loop.simps [simp del]

text \<open>The \<^verbatim>\<open>long\<close> result is returned as an \<^verbatim>\<open>int\<close>.\<close>

definition do_simple_int_opern :: "int \<Rightarrow> int res" where
  "do_simple_int_opern num = bind_res (int_opern_loop num 2 10000 0) (\<lambda>r. Inr (to_int32 r))"

text \<open>The value of \<^verbatim>\<open>j\<close> when the loop is at \<^verbatim>\<open>i\<close>.\<close>

definition int_opern_j :: "int \<Rightarrow> int" where
  "int_opern_j i = 10003 - i * (i + 1) div 2"

lemma int_opern_j_step: "int_opern_j (i + 1) = int_opern_j i - (i + 1)"
proof -
  have "(i + 1) * (i + 1 + 1) = i * (i + 1) + (i + 1) * 2" by (simp add: algebra_simps)
  then show ?thesis by (simp add: int_opern_j_def)
qed

lemma int_opern_j_twice: "2 * int_opern_j i = 20006 - i * (i + 1)"
proof -
  have "even (i * (i + 1))" by simp
  then show ?thesis by (simp add: int_opern_j_def)
qed

lemma int_opern_j_sign:
  assumes "2 \<le> i"
  shows "i \<le> 140 \<and> 133 \<le> int_opern_j i \<or> 141 \<le> i \<and> int_opern_j i \<le> -8"
proof (cases "i \<le> 140")
  case True
  with assms have "i * (i + 1) \<le> 140 * 141" by (intro mult_mono) auto
  with True int_opern_j_twice [of i] show ?thesis by linarith
next
  case False
  then have "141 * 142 \<le> i * (i + 1)" by (intro mult_mono) auto
  with False int_opern_j_twice [of i] show ?thesis by linarith
qed


text \<open>The largest loop bound for which every product fits a \<^verbatim>\<open>long\<close>.\<close>

abbreviation int_opern_max :: int where "int_opern_max \<equiv> 2600000"


lemma sdiv_between:
  fixes d j :: int
  assumes "j \<noteq> 0" and "0 \<le> d * sgn j" and "d * sgn j \<le> \<bar>j\<bar> * m"
  shows "0 \<le> d sdiv j \<and> d sdiv j \<le> m"
proof -
  have eq: "d sdiv j = (d * sgn j) div \<bar>j\<bar>"
  proof (cases "d = 0")
    case False
    have "\<bar>d\<bar> = d * sgn j \<and> sgn d = sgn j"
      using assms(1,2) False by (cases "0 < j") (auto simp: sgn_if abs_if)
    then show ?thesis using assms(1) by (simp add: signed_divide_int_def flip: mult_sgn_abs)
  qed (simp add: signed_divide_int_def)
  have "(d * sgn j) div \<bar>j\<bar> \<le> (\<bar>j\<bar> * m) div \<bar>j\<bar>"
    using assms by (intro zdiv_mono1) auto
  with assms show ?thesis unfolding eq by (simp add: pos_imp_zdiv_nonneg_iff)
qed

lemma int_opern_quotient:
  fixes i j :: int
  assumes "2 \<le> i" and "i \<le> 140 \<and> 133 \<le> j \<or> 141 \<le> i \<and> j \<le> -8"
  shows "0 \<le> (j * i - (j + i)) sdiv j \<and> (j * i - (j + i)) sdiv j \<le> 2 * i"
proof -
  define a where "a = \<bar>j\<bar>"
  have "0 \<le> (j * i - (j + i)) * sgn j \<and> (j * i - (j + i)) * sgn j \<le> a * (2 * i)"
    using assms(2)
  proof
    assume h: "i \<le> 140 \<and> 133 \<le> j"
    have "133 * (i - 1) \<le> j * (i - 1)" using assms h by (intro mult_right_mono) auto
    moreover have "0 \<le> j * i" using assms h by (intro mult_nonneg_nonneg) auto
    ultimately show ?thesis using assms h by (simp add: a_def algebra_simps)
  next
    assume h: "141 \<le> i \<and> j \<le> -8"
    have e: "(j * i - (j + i)) * sgn j = a * i + i - a" "\<bar>j\<bar> = a"
      using h by (simp_all add: a_def algebra_simps)
    have "a * 1 \<le> a * i" using h by (intro mult_left_mono) (auto simp: a_def)
    moreover have "1 * i \<le> a * i" using h by (intro mult_right_mono) (auto simp: a_def)
    moreover have "a * (2 * i) = a * i + a * i" "0 \<le> a" by (simp_all add: a_def)
    ultimately show ?thesis unfolding e using h by linarith
  qed
  with assms(2) show ?thesis by (intro sdiv_between) (auto simp: a_def)
qed

lemma int_opern_j_bounds:
  assumes "2 \<le> i" and "i \<le> int_opern_max"
  shows "- 3380001300000 \<le> int_opern_j i \<and> int_opern_j i \<le> 10003"
proof -
  have "i * (i + 1) \<le> 2600000 * 2600001" using assms by (intro mult_mono) auto
  moreover have "0 \<le> i * (i + 1)" using assms by simp
  ultimately show ?thesis using int_opern_j_twice [of i] by linarith
qed

lemma int_opern_body_ok:
  assumes "2 \<le> i" and "i < int_opern_max"
  shows "\<exists>r. int_opern_body i (int_opern_j i) = Inr r \<and> 0 \<le> r \<and> r \<le> 2 * i"
proof -
  let ?j = "int_opern_j i"
  have jb: "- 3380001300000 \<le> ?j" "?j \<le> 10003" using int_opern_j_bounds [of i] assms by auto
  have "\<bar>?j * i\<bar> \<le> 3380001300000 * 2600000"
    unfolding abs_mult using jb assms by (intro mult_mono) auto
  then have pb: "- 8788003380000000000 \<le> ?j * i" "?j * i \<le> 8788003380000000000" by linarith+
  have "is_ll (?j * i)" "is_ll (?j + i)" "is_ll (?j * i - (?j + i))"
    using jb pb assms by (auto simp: is_ll_def)
  moreover have q: "0 \<le> (?j * i - (?j + i)) sdiv ?j \<and> (?j * i - (?j + i)) sdiv ?j \<le> 2 * i"
    using int_opern_quotient int_opern_j_sign assms(1) by blast
  moreover have "is_ll ((?j * i - (?j + i)) sdiv ?j)" using q assms(2) by (simp add: is_ll_def)
  moreover have "?j \<noteq> 0" using int_opern_j_sign [OF assms(1)] by auto
  ultimately show ?thesis by (simp add: int_opern_body_def div_ll_def chk_ll_ok)
qed

lemma int_opern_loop_ok:
  assumes "2 \<le> i" and "num \<le> int_opern_max" and "0 \<le> r" and "r \<le> 2 * int_opern_max"
  shows "\<exists>r'. int_opern_loop num i (int_opern_j i) r = Inr r' \<and> 0 \<le> r' \<and> r' \<le> 2 * int_opern_max"
  using assms
proof (induction "nat (num - i)" arbitrary: i r)
  case 0
  then show ?case by (simp add: int_opern_loop.simps)
next
  case (Suc k)
  then have "i < num" by simp
  with Suc.prems obtain r' where r': "int_opern_body i (int_opern_j i) = Inr r'" "0 \<le> r'" "r' \<le> 2 * i"
    using int_opern_body_ok [of i] by auto
  have "is_ll (i + 1)" "is_ll (int_opern_j i - (i + 1))"
    using int_opern_j_bounds [of i] \<open>i < num\<close> Suc.prems by (auto simp: is_ll_def)
  then have "int_opern_loop num i (int_opern_j i) r = int_opern_loop num (i + 1) (int_opern_j (i + 1)) r'"
    using \<open>i < num\<close> r'
    by (subst int_opern_loop.simps) (simp add: chk_ll_ok int_opern_j_step)
  moreover have "\<exists>r''. int_opern_loop num (i + 1) (int_opern_j (i + 1)) r' = Inr r''
      \<and> 0 \<le> r'' \<and> r'' \<le> 2 * int_opern_max"
    using Suc.hyps(2) Suc.prems r' \<open>i < num\<close> by (intro Suc.hyps(1)) auto
  ultimately show ?case by simp
qed

lemma simple_int_opern_ok:
  assumes "num \<le> int_opern_max"
  shows "\<exists>r. do_simple_int_opern num = Inr r \<and> 0 \<le> r"
proof -
  have "(10000::int) = int_opern_j 2" by (simp add: int_opern_j_def)
  then obtain r where "int_opern_loop num 2 10000 0 = Inr r" "0 \<le> r" "r \<le> 2 * int_opern_max"
    using int_opern_loop_ok [of 2 num 0] assms by auto
  then show ?thesis by (simp add: do_simple_int_opern_def is_int_def)
qed

section \<open>\<^verbatim>\<open>add_n_numbers\<close>\<close>

function add_n_loop :: "int \<Rightarrow> int \<Rightarrow> int \<Rightarrow> int res" where
  "add_n_loop num i tot = (if i < num
     then bind_res (if num = 0 then Inl Div_by_zero else Inr (tot smod num)) (\<lambda>m.
            bind_res (chk_ll (tot + m)) (\<lambda>tot'. add_n_loop num (i + 1) tot'))
     else Inr tot)"
  by pat_completeness auto
termination
  by (relation "measure (\<lambda>(num, i, tot). nat (num - i))") auto

declare add_n_loop.simps [simp del]

definition add_n_numbers :: "int \<Rightarrow> int res" where
  "add_n_numbers num = add_n_loop num 0 0"

lemma add_n_loop_zero: "0 \<le> i \<Longrightarrow> add_n_loop num i 0 = Inr 0"
proof (induction "nat (num - i)" arbitrary: i)
  case 0
  then show ?case by (simp add: add_n_loop.simps)
next
  case (Suc k)
  then have "add_n_loop num (i + 1) 0 = Inr 0" by simp
  with Suc.prems Suc.hyps(2) show ?case
    by (subst add_n_loop.simps) (auto simp: signed_modulo_int_def chk_ll_def is_ll_def)
qed

section \<open>\<^verbatim>\<open>do_array_opern\<close>\<close>

abbreviation RTMB_PAGE_SIZE :: int where "RTMB_PAGE_SIZE \<equiv> 4096"

text \<open>
  The array is \<open>None\<close> for the null pointer; the result is the returned code and the array.
  \<open>j\<close> and \<open>i\<close> are the loop variables.
\<close>

function array_opern_loop :: "int \<Rightarrow> int \<Rightarrow> int \<Rightarrow> int \<Rightarrow> char list \<Rightarrow> char list res" where
  "array_opern_loop end_i j_inc i j m = (if i < end_i
     then bind_res (if i smod 2 = 0 then awrite m j (CHR ''a'') else awrite m (end_i - i - 1) (CHR ''b''))
            (\<lambda>m'. bind_res (chk_int (j + j_inc)) (\<lambda>j'. array_opern_loop end_i j_inc (i + 1) j' m'))
     else Inr m)"
  by pat_completeness auto
termination
  by (relation "measure (\<lambda>(end_i, j_inc, i, j, m). nat (end_i - i))") auto

declare array_opern_loop.simps [simp del]

definition do_array_opern :: "char list option \<Rightarrow> int \<Rightarrow> (int \<times> char list option) res" where
  "do_array_opern m sz = (let j_inc = RTMB_PAGE_SIZE + 1 in
     bind_res (div_int sz j_inc) (\<lambda>end_i. case m of None \<Rightarrow> Inr (-1, None)
       | Some a \<Rightarrow> bind_res (array_opern_loop end_i j_inc 0 0 a) (\<lambda>a'. Inr (0, Some a'))))"

lemma array_opern_loop_ok:
  assumes "0 \<le> i" and "j = i * 4097" and "end_i * 4097 \<le> int (length m)"
    and "int (length m) \<le> INT_MAX"
  shows "\<exists>m'. array_opern_loop end_i 4097 i j m = Inr m' \<and> length m' = length m"
  using assms
proof (induction "nat (end_i - i)" arbitrary: i j m)
  case 0
  then show ?case by (simp add: array_opern_loop.simps)
next
  case (Suc k)
  then have "i < end_i" by simp
  then have ie: "(i + 1) * 4097 \<le> end_i * 4097" by simp
  define m1 where "m1 = (if i smod 2 = 0 then m[nat j := CHR ''a''] else m[nat (end_i - i - 1) := CHR ''b''])"
  have w: "(if i smod 2 = 0 then awrite m j (CHR ''a'') else awrite m (end_i - i - 1) (CHR ''b'')) = Inr m1"
    using Suc.prems \<open>i < end_i\<close> ie by (auto simp: m1_def)
  have "length m1 = length m" by (simp add: m1_def)
  then have "\<exists>m'. array_opern_loop end_i 4097 (i + 1) ((i + 1) * 4097) m1 = Inr m' \<and> length m' = length m1"
    using Suc.prems Suc.hyps(2) by (intro Suc.hyps(1)) auto
  moreover have "j + 4097 = (i + 1) * 4097" "is_int (j + 4097)"
    using Suc.prems ie by (simp_all add: is_int_def)
  ultimately show ?case using \<open>i < end_i\<close> w \<open>length m1 = length m\<close>
    by (subst array_opern_loop.simps) (simp add: chk_int_ok)
qed

lemma array_opern_ok:
  assumes "sz = int (length m)" and "sz \<le> INT_MAX"
  shows "\<exists>m'. do_array_opern (Some m) sz = Inr (0, Some m') \<and> length m' = length m"
proof -
  have s: "sz sdiv 4097 = sz div 4097" "is_int (sz div 4097)"
    using assms by (auto simp: sdiv_nonneg_eq is_int_def div_le_dividend intro: order_trans)
  have "sz div 4097 * 4097 \<le> int (length m)" using assms(1) by simp
  then obtain m' where "array_opern_loop (sz div 4097) 4097 0 0 m = Inr m'" "length m' = length m"
    using array_opern_loop_ok [of 0 0 "sz div 4097" m] assms by auto
  then show ?thesis using s by (simp add: do_array_opern_def Let_def div_int_def chk_int_ok)
qed

section \<open>\<^verbatim>\<open>do_simple_float_opern\<close>\<close>

text \<open>
  \<^verbatim>\<open>i < num\<close> compares doubles; the loop is written without a bound, that it ends is a lemma.
\<close>

partial_function (option) float_opern_loop :: "int \<Rightarrow> f64 \<Rightarrow> f64 \<Rightarrow> f64 \<Rightarrow> f64 option" where
  "float_opern_loop num i j r = (if i < of_ll num
     then (let k = j / i; r' = ((j * k) / (j - i)) / i; i' = i + Fin 1
           in float_opern_loop num i' (j - i') r')
     else Some r)"

definition do_simple_float_opern :: "int \<Rightarrow> f64 option" where
  "do_simple_float_opern num = float_opern_loop num (Fin 2) (Fin 10000) (Fin 0)"

lemma float_opern_loop_returns:
  assumes "is_int num" and "0 \<le> i" and "i \<le> 4294967296"
  shows "\<exists>r'. float_opern_loop num (Fin (of_int i)) j r = Some r'"
  using assms
proof (induction "nat (num - i)" arbitrary: i j r)
  case 0
  then have "of_ll num = Fin (of_int num)" "num \<le> i" by simp_all
  then show ?case by (subst float_opern_loop.simps) simp
next
  case (Suc k)
  have n: "of_ll num = Fin (of_int num)" using Suc.prems by simp
  have "Fin (of_int i) + Fin 1 = Fin (of_int (i + 1))"
    using rnd64_exact [of "i + 1"] Suc.prems by (simp add: of_int_add)
  moreover have "\<exists>r''. float_opern_loop num (Fin (of_int (i + 1))) j' r' = Some r''" for j' r'
    using Suc.hyps(2) Suc.prems by (intro Suc.hyps(1)) (auto simp: is_int_def)
  ultimately show ?case using n
    by (subst float_opern_loop.simps) (simp add: Let_def)
qed

section \<open>The matrix kernels\<close>

text \<open>
  \<^verbatim>\<open>int m[n][n]\<close> is a list of rows.  The loop nest is shared; the three kernels differ in the
  size and in the elements they multiply.
\<close>

definition mat_read :: "int list list \<Rightarrow> nat \<Rightarrow> nat \<Rightarrow> int res" where
  "mat_read m i j = bind_res (aread m (int i)) (\<lambda>row. aread row (int j))"

definition mat_write :: "int list list \<Rightarrow> nat \<Rightarrow> nat \<Rightarrow> int \<Rightarrow> int list list res" where
  "mat_write m i j v = bind_res (aread m (int i)) (\<lambda>row.
     bind_res (awrite row (int j) v) (\<lambda>row'. awrite m (int i) row'))"

definition dot_step :: "(nat \<Rightarrow> int res) \<Rightarrow> (nat \<Rightarrow> int res) \<Rightarrow> nat \<Rightarrow> int \<Rightarrow> int res" where
  "dot_step x y k s = bind_res (x k) (\<lambda>u. bind_res (y k) (\<lambda>v.
     bind_res (chk_int (u * v)) (\<lambda>p. chk_int (s + p))))"

definition matrix_loops ::
  "nat \<Rightarrow> (nat \<Rightarrow> nat \<Rightarrow> nat \<Rightarrow> int res) \<Rightarrow> (nat \<Rightarrow> nat \<Rightarrow> nat \<Rightarrow> int res) \<Rightarrow>
   int list list \<Rightarrow> int list list res" where
  "matrix_loops n x y c = for_res [0..<n] (\<lambda>i c. for_res [0..<n] (\<lambda>j c.
     bind_res (for_res [0..<n] (dot_step (x i j) (y i j)) 0) (\<lambda>s. mat_write c i j s)) c) c"

definition matrix_multiply :: "int list list \<Rightarrow> int list list \<Rightarrow> int list list \<Rightarrow> int list list res" where
  "matrix_multiply a b c = matrix_loops 5 (\<lambda>i j k. mat_read a i k) (\<lambda>i j k. mat_read b k j) c"

definition sample_run_kernel :: "int list list \<Rightarrow> int list list \<Rightarrow> int list list \<Rightarrow> int list list res" where
  "sample_run_kernel a b c = matrix_loops 10 (\<lambda>p q r. mat_read a p r) (\<lambda>p q r. mat_read b r q) c"

text \<open>The timed kernel reads \<^verbatim>\<open>matrixA[p][q]\<close> and \<^verbatim>\<open>matrixB[q][r]\<close>.\<close>

definition multi_thread_kernel :: "int list list \<Rightarrow> int list list \<Rightarrow> int list list \<Rightarrow> int list list res" where
  "multi_thread_kernel a b c = matrix_loops 10 (\<lambda>p q r. mat_read a p q) (\<lambda>p q r. mat_read b q r) c"

definition is_mat :: "nat \<Rightarrow> int \<Rightarrow> int list list \<Rightarrow> bool" where
  "is_mat n b m \<longleftrightarrow> length m = n \<and> (\<forall>row \<in> set m. length row = n \<and> (\<forall>x \<in> set row. \<bar>x\<bar> \<le> b))"

lemma is_mat_iff: "is_mat n b m \<longleftrightarrow>
    length m = n \<and> (\<forall>i<n. length (m ! i) = n \<and> (\<forall>j<n. \<bar>m ! i ! j\<bar> \<le> b))"
  by (auto simp: is_mat_def all_set_conv_all_nth)

lemma is_mat_read: "is_mat n b m \<Longrightarrow> i < n \<Longrightarrow> j < n \<Longrightarrow> mat_read m i j = Inr (m ! i ! j)"
  by (simp add: is_mat_def mat_read_def aread_def)

lemma is_mat_bound: "is_mat n b m \<Longrightarrow> i < n \<Longrightarrow> j < n \<Longrightarrow> \<bar>m ! i ! j\<bar> \<le> b"
  by (metis is_mat_def nth_mem)

text \<open>The sum of \<open>k\<close> products of elements bounded by \<open>b\<close> is bounded by \<open>k * b * b\<close>.\<close>

lemma dot_loop_ok:
  assumes "\<And>k. k < n \<Longrightarrow> x k = Inr (u k) \<and> \<bar>u k\<bar> \<le> b" "\<And>k. k < n \<Longrightarrow> y k = Inr (v k) \<and> \<bar>v k\<bar> \<le> b"
    and "int n * (b * b) \<le> INT_MAX"
  shows "for_res [0..<n] (dot_step x y) 0 = Inr (\<Sum>k<n. u k * v k)"
proof -
  let ?P = "\<lambda>k s. s = (\<Sum>k<k. u k * v k) \<and> \<bar>s\<bar> \<le> int k * (b * b)"
  have "\<exists>s'. for_res [0..<n] (dot_step x y) 0 = Inr s' \<and> ?P n s'"
  proof (rule for_res_inv [where P = ?P])
    fix k s assume "k < n" and P: "?P k s"
    have uv: "\<bar>u k * v k\<bar> \<le> b * b"
      unfolding abs_mult using assms(1,2) [OF \<open>k < n\<close>] by (intro mult_mono) auto
    have "int (Suc k) * (b * b) \<le> int n * (b * b)" using \<open>k < n\<close> by (intro mult_right_mono) auto
    moreover have "0 \<le> int k * (b * b)" by simp
    moreover have "int (Suc k) * (b * b) = int k * (b * b) + b * b" by (simp add: algebra_simps)
    ultimately have "is_int (u k * v k)" "is_int (s + u k * v k)" "\<bar>s + u k * v k\<bar> \<le> int (Suc k) * (b * b)"
      using uv P assms(3) unfolding is_int_def by linarith+
    then show "\<exists>s'. dot_step x y k s = Inr s' \<and> ?P (Suc k) s'"
      using assms(1,2) [OF \<open>k < n\<close>] P by (simp add: dot_step_def chk_int_ok)
  qed auto
  then show ?thesis by simp
qed

text \<open>The loop nest computes every element of the result.\<close>

lemma matrix_loops_ok:
  assumes "\<And>i j k. i < n \<Longrightarrow> j < n \<Longrightarrow> k < n \<Longrightarrow> x i j k = Inr (u i j k) \<and> \<bar>u i j k\<bar> \<le> b"
    and "\<And>i j k. i < n \<Longrightarrow> j < n \<Longrightarrow> k < n \<Longrightarrow> y i j k = Inr (v i j k) \<and> \<bar>v i j k\<bar> \<le> b"
    and "int n * (b * b) \<le> INT_MAX" and "length c = n" "\<forall>row \<in> set c. length row = n"
  shows "matrix_loops n x y c = Inr (map (\<lambda>i. map (\<lambda>j. \<Sum>k<n. u i j k * v i j k) [0..<n]) [0..<n])"
proof -
  define d where "d = (\<lambda>i j. \<Sum>k<n. u i j k * v i j k)"
  define dims where "dims = (\<lambda>c :: int list list. length c = n \<and> (\<forall>i<n. length (c ! i) = n))"
  let ?I = "\<lambda>i c. dims c \<and> (\<forall>i'<i. \<forall>j<n. c ! i' ! j = d i' j)"
  have dot: "for_res [0..<n] (dot_step (x i j) (y i j)) 0 = Inr (d i j)" if "i < n" "j < n" for i j
    unfolding d_def using assms(1,2,3) that by (intro dot_loop_ok) auto
  have row: "\<exists>c'. for_res [0..<n] (\<lambda>j c. bind_res (for_res [0..<n] (dot_step (x i j) (y i j)) 0)
      (\<lambda>s. mat_write c i j s)) c = Inr c' \<and> ?I (Suc i) c'" if "i < n" "?I i c" for i c
  proof -
    let ?J = "\<lambda>j c. ?I i c \<and> (\<forall>j'<j. c ! i ! j' = d i j')"
    have "\<exists>c'. for_res [0..<n] (\<lambda>j c. bind_res (for_res [0..<n] (dot_step (x i j) (y i j)) 0)
      (\<lambda>s. mat_write c i j s)) c = Inr c' \<and> ?J n c'"
    proof (rule for_res_inv [where P = ?J])
      fix j c assume "j < n" and J: "?J j c"
      define c' where "c' = c[i := (c ! i)[j := d i j]]"
      have "mat_write c i j (d i j) = Inr c'"
        using J \<open>i < n\<close> \<open>j < n\<close> by (simp add: mat_write_def aread_def awrite_def dims_def c'_def)
      moreover have "?J (Suc j) c'"
        using J \<open>i < n\<close> \<open>j < n\<close> by (auto simp: c'_def dims_def nth_list_update less_Suc_eq)
      ultimately show "\<exists>c'. bind_res (for_res [0..<n] (dot_step (x i j) (y i j)) 0)
          (\<lambda>s. mat_write c i j s) = Inr c' \<and> ?J (Suc j) c'"
        using dot [OF \<open>i < n\<close> \<open>j < n\<close>] by simp
    qed (use that in auto)
    then show ?thesis by (auto simp: less_Suc_eq)
  qed
  have "?I 0 c" using assms(4,5) by (auto simp: dims_def)
  then have "\<exists>c'. matrix_loops n x y c = Inr c' \<and> ?I n c'"
    unfolding matrix_loops_def by (intro for_res_inv [where P = ?I] row) auto
  then obtain c' where c': "matrix_loops n x y c = Inr c'" and I: "?I n c'" by blast
  have "c' = map (\<lambda>i. map (d i) [0..<n]) [0..<n]"
    using I by (intro nth_equalityI) (auto simp: dims_def intro!: nth_equalityI)
  with c' show ?thesis by (simp add: d_def)
qed

section \<open>Filling the matrices\<close>

text \<open>
  \<^verbatim>\<open>1 + (int)(max * (rand_r(&seedp) / (RAND_MAX + 1.0)))\<close>: \<^verbatim>\<open>rand_r\<close> is the parameter \<open>rnd\<close>, which
  maps a seed to the number drawn and the next seed.
\<close>

definition rand_elem :: "(int \<Rightarrow> int \<times> int) \<Rightarrow> int \<Rightarrow> int \<Rightarrow> int \<Rightarrow> (int \<times> int) res" where
  "rand_elem rnd rmax maxv seed = (let (r, seed') = rnd seed in
     bind_res (f64_to_int (of_ll maxv * (of_ll r / (of_ll rmax + Fin 1))))
       (\<lambda>t. bind_res (chk_int (1 + t)) (\<lambda>v. Inr (v, seed'))))"

definition fill_loops ::
  "nat \<Rightarrow> (int \<Rightarrow> int \<times> int) \<Rightarrow> int \<Rightarrow> int \<Rightarrow> int \<Rightarrow> int list list \<Rightarrow> (int list list \<times> int) res" where
  "fill_loops n rnd rmax maxv seed m = for_res [0..<n] (\<lambda>i. for_res [0..<n] (\<lambda>j (m, seed).
     bind_res (rand_elem rnd rmax maxv seed) (\<lambda>(v, seed').
       bind_res (mat_write m i j v) (\<lambda>m'. Inr (m', seed'))))) (m, seed)"

text \<open>\<^verbatim>\<open>fill_matrix\<close> of \<^verbatim>\<open>multi_thread_test.c\<close>: every call starts from the seed 10000.\<close>

definition fill_matrix :: "(int \<Rightarrow> int \<times> int) \<Rightarrow> int \<Rightarrow> int list list \<Rightarrow> int list list res" where
  "fill_matrix rnd rmax m = bind_res (fill_loops 10 rnd rmax 10000 10000 m) (\<lambda>(m', _). Inr m')"

definition rand_ok :: "(int \<Rightarrow> int \<times> int) \<Rightarrow> int \<Rightarrow> bool" where
  "rand_ok rnd rmax \<longleftrightarrow> 0 < rmax \<and> rmax \<le> INT_MAX \<and> (\<forall>s. 0 \<le> fst (rnd s) \<and> fst (rnd s) \<le> rmax)"

text \<open>The fraction drawn rounds to less than \<open>1\<close>, and its multiple to less than the bound.\<close>

lemma rand_elem_ok:
  assumes "rand_ok rnd rmax" and "0 < maxv" and "maxv \<le> 1048576"
  shows "\<exists>v seed'. rand_elem rnd rmax maxv seed = Inr (v, seed') \<and> 1 \<le> v \<and> v \<le> maxv"
proof -
  obtain r seed' where rs: "rnd seed = (r, seed')" by fastforce
  have r: "0 \<le> r" "r \<le> rmax" "0 < rmax" "rmax \<le> INT_MAX" using assms(1) rs
    by (auto simp: rand_ok_def dest: spec [where x = seed])
  then have ex: "of_ll r = Fin (of_int r)" "of_ll rmax = Fin (of_int rmax)"
    "of_ll maxv = Fin (of_int maxv)"
    using assms by (simp_all add: is_int_def)
  have sum: "Fin (of_int rmax) + Fin 1 = Fin (of_int (rmax + 1))"
    using rnd64_exact [of "rmax + 1"] r by simp
  let ?z = "of_int 2147483647 / 2 ^ 31 :: rat"
  have "of_int r / of_int (rmax + 1) \<le> ?z"
  proof -
    have "r * 2147483648 \<le> 2147483647 * (rmax + 1)" using r by (simp add: algebra_simps)
    then have "(of_int (r * 2147483648) :: rat) \<le> of_int (2147483647 * (rmax + 1))"
      by (simp only: of_int_le_iff)
    with r show ?thesis by (simp add: field_simps)
  qed
  moreover have "representable 53 (-1022) ?z" by (rule representable_scale) simp_all
  moreover have "0 \<le> (of_int r :: rat) / of_int (rmax + 1)" using r by simp
  moreover have "?z \<le> 2 ^ 1000" by simp
  ultimately obtain q where q: "rnd64 (of_int r / of_int (rmax + 1)) = Fin q" "0 \<le> q" "q \<le> ?z"
    using rnd64_nonneg_le by blast
  let ?w = "of_int (maxv * 2147483647) / 2 ^ 31 :: rat"
  have "of_int maxv * q \<le> ?w" using q(3) assms(2) by (simp add: field_simps)
  moreover have "representable 53 (-1022) ?w" using assms by (intro representable_scale) auto
  moreover have "?w \<le> 2 ^ 1000"
  proof -
    have "?w \<le> of_int maxv" using assms by (simp add: field_simps)
    also have "\<dots> \<le> (1048576 :: rat)" using assms by simp
    also have "\<dots> \<le> 2 ^ 1000" by simp
    finally show ?thesis .
  qed
  moreover have "0 \<le> of_int maxv * q" using q(2) assms by simp
  ultimately obtain t where t: "rnd64 (of_int maxv * q) = Fin t" "0 \<le> t" "t \<le> ?w"
    using rnd64_nonneg_le by blast
  have "?w < of_int maxv" using assms by (simp add: field_simps)
  with t have "0 \<le> trunc t \<and> trunc t < maxv" by (simp add: trunc_def floor_less_iff)
  then show ?thesis
    using rs r ex sum q(1) t(1) assms
    by (simp add: rand_elem_def f64_to_int_def chk_int_ok is_int_def)
qed

lemma fill_loops_ok:
  assumes "rand_ok rnd rmax" and "0 < maxv" "maxv \<le> 1048576"
    and "length m = n" "\<forall>row \<in> set m. length row = n"
  shows "\<exists>m' seed'. fill_loops n rnd rmax maxv seed m = Inr (m', seed') \<and> is_mat n maxv m'
    \<and> (\<forall>i<n. \<forall>j<n. 1 \<le> m' ! i ! j)"
proof -
  define dims where "dims = (\<lambda>c :: int list list. length c = n \<and> (\<forall>i<n. length (c ! i) = n))"
  define ok where "ok = (\<lambda>x. 1 \<le> x \<and> x \<le> maxv)"
  let ?I = "\<lambda>i (c, seed :: int). dims c \<and> (\<forall>i'<i. \<forall>j<n. ok (c ! i' ! j))"
  let ?f = "\<lambda>i j (m, seed). bind_res (rand_elem rnd rmax maxv seed) (\<lambda>(v, seed').
       bind_res (mat_write m i j v) (\<lambda>m'. Inr (m', seed')))"
  have row: "\<exists>s'. for_res [0..<n] (?f i) s = Inr s' \<and> ?I (Suc i) s'" if "i < n" "?I i s" for i s
  proof -
    let ?J = "\<lambda>j s. ?I i s \<and> (\<forall>j'<j. ok (fst s ! i ! j'))"
    have "\<exists>s'. for_res [0..<n] (?f i) s = Inr s' \<and> ?J n s'"
    proof (rule for_res_inv [where P = ?J])
      fix j s assume "j < n" and J: "?J j s"
      obtain c seed where s: "s = (c, seed)" by fastforce
      obtain v seed' where v: "rand_elem rnd rmax maxv seed = Inr (v, seed')" "ok v"
        using rand_elem_ok [OF assms(1-3), of seed] by (auto simp: ok_def)
      define c' where "c' = c[i := (c ! i)[j := v]]"
      have "mat_write c i j v = Inr c'"
        using J \<open>i < n\<close> \<open>j < n\<close> s by (simp add: mat_write_def aread_def awrite_def dims_def c'_def)
      moreover have "?J (Suc j) (c', seed')"
        using J \<open>i < n\<close> \<open>j < n\<close> s v by (auto simp: c'_def dims_def nth_list_update less_Suc_eq)
      ultimately show "\<exists>s'. ?f i j s = Inr s' \<and> ?J (Suc j) s'" using v s by simp
    qed (use that in auto)
    then show ?thesis by (auto simp: less_Suc_eq)
  qed
  have "?I 0 (m, seed)" using assms(4,5) by (auto simp: dims_def)
  then have "\<exists>s'. fill_loops n rnd rmax maxv seed m = Inr s' \<and> ?I n s'"
    unfolding fill_loops_def by (intro for_res_inv [where P = ?I] row) auto
  then obtain m' seed' where "fill_loops n rnd rmax maxv seed m = Inr (m', seed')" "?I n (m', seed')"
    by auto
  then show ?thesis
    by (intro exI [of _ m'] exI [of _ seed']) (force simp: is_mat_iff dims_def ok_def abs_le_iff)
qed

section \<open>Properties\<close>

text \<open>
  \<^verbatim>\<open>do_simple_int_opern\<close> has no overflow and no division by zero for every loop count up to
  2,600,000: the divisor \<^verbatim>\<open>j\<close> runs through 10003 - i(i+1)/2 and jumps over zero.
\<close>

lemma simple_int_opern_safe:
  assumes "num \<le> int_opern_max"
  shows "\<exists>r. do_simple_int_opern num = Inr r \<and> 0 \<le> r"
  using assms by (rule simple_int_opern_ok)

lemma simple_int_opern_safe_witness: "\<exists>r. do_simple_int_opern 2600000 = Inr r \<and> 0 \<le> r"
  by (rule simple_int_opern_safe) simp

text \<open>
  \<^verbatim>\<open>do_simple_float_opern\<close> returns for every \<^verbatim>\<open>int\<close>: the counter, a \<^verbatim>\<open>double\<close>, is exact and
  reaches the bound.
\<close>

lemma simple_float_opern_returns:
  assumes "is_int num"
  shows "\<exists>r. do_simple_float_opern num = Some r"
  using float_opern_loop_returns [OF assms, of 2 "Fin 10000" "Fin 0"] by (simp add: do_simple_float_opern_def)

lemma simple_float_opern_returns_witness: "\<exists>r. do_simple_float_opern 2000000000 = Some r"
  by (rule simple_float_opern_returns) (simp add: is_int_def)

text \<open>
  \<^verbatim>\<open>do_array_opern\<close> writes inside the array it is given, whatever its size, and returns
  \<^verbatim>\<open>SUCCESS\<close>.
\<close>

lemma array_opern_in_bounds:
  assumes "sz = int (length m)" and "sz \<le> INT_MAX"
  shows "\<exists>m'. do_array_opern (Some m) sz = Inr (0, Some m') \<and> length m' = length m"
  using assms by (rule array_opern_ok)

lemma array_opern_in_bounds_witness:
  "\<exists>m'. do_array_opern (Some (replicate 100000 (CHR ''x''))) 100000 = Inr (0, Some m')
     \<and> length m' = length (replicate 100000 (CHR ''x''))"
  by (rule array_opern_in_bounds) simp_all

text \<open>
  The matrices that \<^verbatim>\<open>fill_matrix\<close> makes are small enough for both kernels of the multi
  thread test: neither overflows; the sampled kernel computes the product of the matrices, the
  timed one multiplies each element of the first matrix with a row sum of the second.
\<close>

lemma multi_thread_kernels:
  assumes "rand_ok rnd rmax" and "length m = 10" "\<forall>row \<in> set m. length row = 10"
    and "length c = 10" "\<forall>row \<in> set c. length row = 10"
  shows "\<exists>a. fill_matrix rnd rmax m = Inr a
    \<and> sample_run_kernel a a c = Inr (map (\<lambda>p. map (\<lambda>q. \<Sum>r<10. a ! p ! r * a ! r ! q) [0..<10]) [0..<10])
    \<and> multi_thread_kernel a a c = Inr (map (\<lambda>p. map (\<lambda>q. \<Sum>r<10. a ! p ! q * a ! q ! r) [0..<10]) [0..<10])"
proof -
  obtain a where a: "fill_matrix rnd rmax m = Inr a" "is_mat 10 10000 a"
    using fill_loops_ok [OF assms(1) _ _ assms(2,3), of 10000 10000] by (auto simp: fill_matrix_def)
  have "sample_run_kernel a a c = Inr (map (\<lambda>p. map (\<lambda>q. \<Sum>r<10. a ! p ! r * a ! r ! q) [0..<10]) [0..<10])"
    unfolding sample_run_kernel_def using a(2) assms(4,5)
    by (intro matrix_loops_ok [where b = 10000]) (simp_all add: is_mat_read is_mat_bound)
  moreover have "multi_thread_kernel a a c = Inr (map (\<lambda>p. map (\<lambda>q. \<Sum>r<10. a ! p ! q * a ! q ! r) [0..<10]) [0..<10])"
    unfolding multi_thread_kernel_def using a(2) assms(4,5)
    by (intro matrix_loops_ok [where b = 10000]) (simp_all add: is_mat_read is_mat_bound)
  ultimately show ?thesis using a(1) by blast
qed

lemma multi_thread_kernels_witness:
  "\<exists>a. fill_matrix (\<lambda>s. (s mod 32768, s * 7 + 3)) 32767 (replicate 10 (replicate 10 0)) = Inr a
    \<and> sample_run_kernel a a (replicate 10 (replicate 10 0)) = Inr (map (\<lambda>p. map (\<lambda>q. \<Sum>r<10. a ! p ! r * a ! r ! q) [0..<10]) [0..<10])
    \<and> multi_thread_kernel a a (replicate 10 (replicate 10 0)) = Inr (map (\<lambda>p. map (\<lambda>q. \<Sum>r<10. a ! p ! q * a ! q ! r) [0..<10]) [0..<10])"
proof (rule multi_thread_kernels)
  have "s mod 32768 \<le> 32767" for s :: int using pos_mod_bound [of 32768 s] by simp
  then show "rand_ok (\<lambda>s. (s mod 32768, s * 7 + 3)) 32767" by (simp add: rand_ok_def)
qed simp_all

end
