(* ===== verification/Config_Tests.thy ===== *)
theory Config_Tests
  imports Timed_Run Math_Opern
begin

text \<open>
  \<^verbatim>\<open>testcase/config_test/\<close>: the configuration tests that need only the clock, the sleep and the
  processor: integer rate, floating-point rate, memory cache, clock and timer.  The first three
  are copies of one frame around different work; a test stores its return code in \<^verbatim>\<open>targs->ret\<close>
  and its result in its bucket of the table.  What a test prints is left out.  \<open>pw\<close> is \<^verbatim>\<open>pow\<close> of
  the C library.
\<close>

section \<open>The three rate tests\<close>

definition rate_config :: "(f64 \<Rightarrow> f64 \<Rightarrow> f64) \<Rightarrow> test_bucket_number \<Rightarrow> int \<Rightarrow>
    (int \<Rightarrow> rw \<Rightarrow> (int \<times> rw) run) \<Rightarrow> test_fn" where
  "rate_config pw bucket num step args bmtest env =
     bind_run (Some (get_min_exec_time (te_table env))) (\<lambda>clock_accuracy.
     bind_run (Some (bind_res (create_test_result 1 (bt_iterations bmtest)) (\<lambda>rs. aread rs 0))) (\<lambda>r.
     bind_run (retry_loop (\<lambda>num. iterate (nat (bt_iterations bmtest)) (step num))
         (retry_step clock_accuracy (rt_mode args) (te_vals env) (bt_threshold bmtest)) num 0 (r, te_world env))
       (\<lambda>(rc, num, r, w). if rc = -1 then Some (Inr (-1, env\<lparr>te_world := w\<rparr>))
         else Some (bind_res (add_result_to_result_table2 pw (te_table env) (r\<lparr>opern_amount := num\<rparr>) bucket bmtest)
           (\<lambda>table. Inr (0, env\<lparr>te_table := table, te_world := w\<rparr>))))))"

definition int_work :: "int \<Rightarrow> world \<Rightarrow> (int \<times> world) run" where
  "int_work num w = Some (bind_res (do_simple_int_opern num) (\<lambda>rc. Inr (rc, w)))"

definition int_rate_config :: "(f64 \<Rightarrow> f64 \<Rightarrow> f64) \<Rightarrow> test_fn" where
  "int_rate_config pw = rate_config pw IRATE_CONFIG 100 (\<lambda>num. timed_step (int_work num))"

definition float_work :: "int \<Rightarrow> world \<Rightarrow> (int \<times> world) run" where
  "float_work num w = (case do_simple_float_opern num of None \<Rightarrow> None
     | Some v \<Rightarrow> Some (Inr (if feq v (Fin (-1)) then -1 else 0, w)))"

definition float_rate_config :: "(f64 \<Rightarrow> f64 \<Rightarrow> f64) \<Rightarrow> test_fn" where
  "float_rate_config pw = rate_config pw FRATE_CONFIG 100 (\<lambda>num. timed_step (float_work num))"

text \<open>The array is allocated and cleared for every iteration, before the clock is read.\<close>

definition mcache_work :: "char list \<Rightarrow> int \<Rightarrow> world \<Rightarrow> (int \<times> world) run" where
  "mcache_work m num w = Some (bind_res (do_array_opern (Some m) num) (\<lambda>(rc, m). Inr (rc, w)))"

definition mcache_step :: "int \<Rightarrow> rw \<Rightarrow> (int \<times> rw) run" where
  "mcache_step num s = (if num < 0 then Some (Inl Abort_called)
     else timed_step (mcache_work (replicate (nat num) (CHR 0x00)) num) s)"

definition mcache_perf_config :: "(f64 \<Rightarrow> f64 \<Rightarrow> f64) \<Rightarrow> test_fn" where
  "mcache_perf_config pw = rate_config pw MCACHE_CONFIG 4194304 mcache_step"

section \<open>The clock\<close>

text \<open>
  \<^verbatim>\<open>run_clock_test\<close> ignores the return value of \<^verbatim>\<open>get_cur_time\<close>: a failed reading leaves the
  variable as it is, indeterminate before the first reading that succeeds.
\<close>

type_synonym readings = "timespec option \<times> timespec option"

definition keep_reading :: "timespec option \<Rightarrow> world \<Rightarrow> timespec option \<times> world" where
  "keep_reading old w = (case get_cur_time w of (None, w) \<Rightarrow> (old, w) | (Some t, w) \<Rightarrow> (Some t, w))"

definition elapsed :: "readings \<Rightarrow> int res" where
  "elapsed rd = (case rd of (Some start_time, Some end_time) \<Rightarrow> get_time_diff start_time end_time | _ \<Rightarrow> Inl Uninitialised)"

definition clock_step :: "(readings \<times> world) rws \<Rightarrow> (int \<times> (readings \<times> world) rws) run" where
  "clock_step = (\<lambda>(r, (start_time, end_time), w).
     case keep_reading start_time w of (start_time, w) \<Rightarrow> (case keep_reading end_time w of (end_time, w) \<Rightarrow>
       Some (bind_res (elapsed (start_time, end_time)) (\<lambda>time_diff.
         bind_res (add_entry r time_diff 0) (\<lambda>r. Inr (0, r, (start_time, end_time), w))))))"

definition run_clock_test :: "int \<Rightarrow> real_time_mode \<Rightarrow> rt_params \<Rightarrow> rw \<Rightarrow> rw run" where
  "run_clock_test new_iters mode vals s = (case s of (r, w) \<Rightarrow>
     bind_run (iterate (nat new_iters) clock_step (r, (None, None), w)) (\<lambda>(rc, r, rd, w).
       Some (bind_res (check_pass_criteria r mode vals 0) (\<lambda>(rc, r). Inr (r, w)))))"

definition clock_config :: "(f64 \<Rightarrow> f64 \<Rightarrow> f64) \<Rightarrow> test_fn" where
  "clock_config pw args bmtest env =
     bind_run (Some (bind_res (create_test_result 1 (bt_iterations bmtest)) (\<lambda>rs. aread rs 0))) (\<lambda>r.
     bind_run (Some (create_test_result 1 (bt_iterations bmtest))) (\<lambda>passed_result.
     bind_run (run_clock_test (bt_iterations bmtest) (rt_mode args) (te_vals env) (r, te_world env)) (\<lambda>(r, w).
       Some (bind_res (add_result_to_result_table2 pw (te_table env) (r\<lparr>opern_amount := 100\<rparr>) SYSCLOCK_CONFIG bmtest)
         (\<lambda>table. Inr (0, env\<lparr>te_table := table, te_world := w\<rparr>))))))"

section \<open>The timer\<close>

definition timer_step :: "int \<Rightarrow> rw \<Rightarrow> (int \<times> rw) run" where
  "timer_step num = (\<lambda>(r, w). case get_cur_time w of (None, w) \<Rightarrow> Some (Inl Abort_called)
     | (Some start_time, w) \<Rightarrow>
       (case nanosleep w \<lparr>tv_sec = num sdiv 1000000000, tv_nsec = num smod 1000000000\<rparr> of (Slept, w) \<Rightarrow>
          (case get_cur_time w of (None, w) \<Rightarrow> Some (Inl Abort_called)
           | (Some end_time, w) \<Rightarrow> Some (bind_res (get_time_diff start_time end_time) (\<lambda>time_diff.
               bind_res (add_entry r time_diff 0) (\<lambda>r. Inr (0, r, w)))))
        | (_, w) \<Rightarrow> Some (Inl Abort_called)))"

definition run_timer_test :: "int \<Rightarrow> int \<Rightarrow> rw \<Rightarrow> (int \<times> rw) run" where
  "run_timer_test num iters s = iterate (nat iters) (timer_step num) s"

text \<open>The value of \<^verbatim>\<open>test_pass\<close> ends the first loop.\<close>

definition timer_decide ::
  "f64 \<Rightarrow> real_time_mode \<Rightarrow> rt_params \<Rightarrow> int \<Rightarrow> test_results \<Rightarrow> int \<Rightarrow> (bool option \<times> test_results \<times> int) res" where
  "timer_decide clock mode vals threshold r cnt =
     (if clock < of_ll (mediantime r)
      then bind_res (check_pass_criteria r mode vals 0) (\<lambda>(rc, r).
             if rc = 0 then Inr (Some True, r, cnt)
             else bind_res (chk_int (cnt + 1)) (\<lambda>cnt. Inr (if cnt = threshold then Some False else None, r, cnt)))
      else Inr (None, r, cnt))"

partial_function (option) timer_loop ::
  "(int \<Rightarrow> rw \<Rightarrow> (int \<times> rw) run) \<Rightarrow> (test_results \<Rightarrow> int \<Rightarrow> (bool option \<times> test_results \<times> int) res) \<Rightarrow>
   int \<Rightarrow> int \<Rightarrow> int \<Rightarrow> rw \<Rightarrow> (bool \<times> int \<times> int \<times> rw) run" where
  "timer_loop test decide num prev_num cnt s = (case test num s of None \<Rightarrow> None
     | Some (Inl e) \<Rightarrow> Some (Inl e)
     | Some (Inr (rc, r, w)) \<Rightarrow> (case decide r cnt of Inl e \<Rightarrow> Some (Inl e)
         | Inr (fin, r, cnt) \<Rightarrow> (case fin of Some ok \<Rightarrow> Some (Inr (ok, num, prev_num, r, w))
           | None \<Rightarrow> (case next_quantum r num of Inl e \<Rightarrow> Some (Inl e)
             | Inr (num', r) \<Rightarrow> timer_loop test decide num' num cnt (r, w)))))"

text \<open>The binary search for the least sleep that passes.\<close>

definition timer_accept :: "f64 \<Rightarrow> real_time_mode \<Rightarrow> rt_params \<Rightarrow> test_results \<Rightarrow> (bool \<times> test_results) res" where
  "timer_accept clock mode vals r = (if clock < of_ll (mediantime r)
     then bind_res (check_pass_criteria r mode vals 0) (\<lambda>(rc, r). Inr (rc = 0, r)) else Inr (False, r))"

definition mid_quantum :: "int \<Rightarrow> int \<Rightarrow> int res" where
  "mid_quantum start_quantum stop_quantum = bind_res (chk_int (start_quantum + stop_quantum)) (\<lambda>s. div_int s 2)"

partial_function (option) timer_search ::
  "(int \<Rightarrow> rw \<Rightarrow> (int \<times> rw) run) \<Rightarrow> (test_results \<Rightarrow> (bool \<times> test_results) res) \<Rightarrow>
   int \<Rightarrow> int \<Rightarrow> test_results \<Rightarrow> rw \<Rightarrow> (test_results \<times> rw) run" where
  "timer_search test accept start_quantum stop_quantum passed_result s =
     (if start_quantum \<le> stop_quantum then
        (case bind_res (free_chain (fst s) 0) (\<lambda>r. bind_res (mid_quantum start_quantum stop_quantum) (\<lambda>m. Inr (m, r))) of
           Inl e \<Rightarrow> Some (Inl e)
         | Inr (mid, r) \<Rightarrow> (case test mid (r, snd s) of None \<Rightarrow> None | Some (Inl e) \<Rightarrow> Some (Inl e)
           | Some (Inr (rc, r, w)) \<Rightarrow> (case accept r of Inl e \<Rightarrow> Some (Inl e)
             | Inr (ok, r) \<Rightarrow> if \<not> ok
                 then (case chk_int (mid + 1) of Inl e \<Rightarrow> Some (Inl e)
                   | Inr start_quantum \<Rightarrow> timer_search test accept start_quantum stop_quantum passed_result (r, w))
                 else (case bind_res (clone_results passed_result (r\<lparr>opern_amount := mid\<rparr>)) (\<lambda>p.
                     bind_res (chk_int (mid - 1)) (\<lambda>stop. Inr (p, stop))) of Inl e \<Rightarrow> Some (Inl e)
                   | Inr (p, stop_quantum) \<Rightarrow>
                       timer_search test accept start_quantum stop_quantum p (r\<lparr>opern_amount := mid\<rparr>, w)))))
      else Some (Inr (passed_result, s)))"

definition timer_run :: "int \<Rightarrow> f64 \<Rightarrow> real_time_mode \<Rightarrow> rt_params \<Rightarrow> int \<Rightarrow> test_results \<Rightarrow> rw \<Rightarrow> rw run" where
  "timer_run new_iters clock mode vals threshold passed_result s =
     bind_run (timer_loop (\<lambda>num. run_timer_test num new_iters) (timer_decide clock mode vals threshold) 2000 0 0 s)
       (\<lambda>(ok, num, prev_num, r, w). let r = r\<lparr>opern_amount := num\<rparr> in
         if ok then
           bind_run (Some (clone_results passed_result r)) (\<lambda>p.
           bind_run (timer_search (\<lambda>num. run_timer_test num new_iters) (timer_accept clock mode vals)
               prev_num num p (r, w)) (\<lambda>(p, r, w).
             Some (bind_res (compute_std_time p 0) (\<lambda>p. Inr (p, w)))))
         else Some (Inr (r, w)))"

text \<open>\<^verbatim>\<open>99.9\<close> is the nearest \<^verbatim>\<open>double\<close>.\<close>

definition change_percent :: "rt_params \<Rightarrow> real_time_mode \<Rightarrow> bool" where
  "change_percent vals mode \<longleftrightarrow>
     get_acceptable_percent vals mode < rnd64 (999 / 10) \<or> Fin 20 < get_range_percent vals mode"

definition timer_config :: "(f64 \<Rightarrow> f64 \<Rightarrow> f64) \<Rightarrow> test_fn" where
  "timer_config pw args bmtest env = (let
       change = change_percent (te_vals env) (rt_mode args);
       (vals, saved) = (if change
         then (case fill_acceptable_percentages (te_vals env) (rt_mode args) (rnd64 (999 / 10)) (Fin 20) True True of
           (vals, p, q) \<Rightarrow> (vals, p, q)) else (te_vals env, None, None)) in
     bind_run (Some (bind_res (create_test_result 1 (bt_iterations bmtest)) (\<lambda>rs. aread rs 0))) (\<lambda>r.
     bind_run (Some (bind_res (create_test_result 1 (bt_iterations bmtest)) (\<lambda>rs. aread rs 0))) (\<lambda>passed_result.
     bind_run (Some (get_min_exec_time (te_table env))) (\<lambda>clock_accuracy.
     bind_run (timer_run (bt_iterations bmtest) clock_accuracy (rt_mode args) vals (bt_threshold bmtest)
         passed_result (r, te_world env)) (\<lambda>(r, w).
     bind_run (Some (add_result_to_result_table2 pw (te_table env) r SYSTIMER_CONFIG bmtest)) (\<lambda>table.
       Some (Inr (0, \<lparr>te_table = table, te_vals = (case saved of
           (Some saved_percentage, Some saved_range) \<Rightarrow>
             fst (fill_acceptable_percentages vals (rt_mode args) saved_percentage saved_range False False)
         | _ \<Rightarrow> vals), te_world = w\<rparr>))))))))"

section \<open>Entering a measured result\<close>

definition entered :: "test_bucket_number \<Rightarrow> test_results \<Rightarrow> benchmark_test \<Rightarrow> result_table \<Rightarrow> result_table \<Rightarrow> bool" where
  "entered bucket r bmtest t t' \<longleftrightarrow> table_ok t' \<and> first_result t' bucket = Inr r \<and>
     valid (t' ! bucket_no bucket) = 1 \<and> bm_test (t' ! bucket_no bucket) = Some bmtest \<and>
     (\<exists>f s. fbmt (t' ! bucket_no bucket) = Some f \<and> fb_score f = [s] \<and> score_result s = [r]) \<and>
     (\<forall>c. c \<noteq> bucket \<longrightarrow> t' ! bucket_no c = t ! bucket_no c)"

lemma add_result2_entered:
  assumes "table_ok t" and "measured lo b iters r ts" and "Fin 0 < bt_reference_score bmtest"
  shows "\<exists>t'. add_result_to_result_table2 pw t r bucket bmtest = Inr t' \<and> entered bucket r bmtest t t'"
proof -
  have m: "recorded r ts" "ts \<noteq> []" "times_ok b ts" using assms(2) by (simp_all add: measured_def)
  have "0 \<le> mediantime r" "is_ll (mediantime r)" using measured_median [OF assms(2)] by (simp_all add: is_ll_def)
  then obtain s where s: "generate_combined_score [r] (bt_reference_score bmtest) = Inr [s]" "score_result s = [r]"
    using combined_score_ok [OF m _ _ assms(3)] by blast
  define f where "f = (create_final_bm_test_result1 pw [s])\<lparr>test_pass := 1\<rparr>"
  have fs: "fb_score f = s # []" by (simp add: f_def)
  obtain t' where t': "enter t f bucket bmtest = Inr t'" "table_ok t'" using enter_ok [OF assms(1)] by blast
  have "first_result t' bucket = Inr r" using first_result_entered [OF assms(1) t'(1) fs s(2)] .
  with t' s fs enter_nth [OF assms(1) t'(1)] show ?thesis
    by (simp add: add_result_to_result_table2_def entered_def flip: f_def)
qed

lemma measured_opern_amount: "measured lo b iters (r\<lparr>opern_amount := num\<rparr>) ts = measured lo b iters r ts"
  by (simp add: measured_def recorded_def summarised_def)

lemma passed_opern_amount: "passed (r\<lparr>opern_amount := num\<rparr>) = passed r"
  by (simp add: passed_def)

lemma create_one: "0 \<le> iters \<Longrightarrow> bind_res (create_test_result 1 iters) (\<lambda>rs. aread rs 0) = Inr (new_result iters iters)"
  by (simp add: create_test_result_def aread_def)

lemma new_result_ready: "run_ok iters b \<Longrightarrow> recorded (new_result iters iters) [] \<and> max_entries (new_result iters iters) = iters"
  using new_result_recorded [of iters iters] by (simp add: run_ok_def is_int_def new_result_def)

text \<open>What the tests need of the options, of the description of the test and of the table.\<close>

definition config_ok :: "f64 \<Rightarrow> int \<Rightarrow> cmd_line_args \<Rightarrow> benchmark_test \<Rightarrow> tenv \<Rightarrow> bool" where
  "config_ok clock b args bmtest env \<longleftrightarrow> table_ok (te_table env) \<and> get_min_exec_time (te_table env) = Inr clock \<and>
     percent_ok (rt_mode args) (te_vals env) \<and> run_ok (bt_iterations bmtest) b \<and> Fin 0 < bt_reference_score bmtest"

text \<open>The rate tests over the contract of their step.\<close>

locale rate_test = timed_test step inv qmax
  for step :: "int \<Rightarrow> rw \<Rightarrow> (int \<times> rw) run" and inv :: "int \<Rightarrow> int \<Rightarrow> nat \<Rightarrow> world \<Rightarrow> bool" and qmax :: int +
  assumes qmax_int: "qmax \<le> INT_MAX"
begin

lemma rate_config_ends:
  assumes "config_ok clock b args bmtest env" and "clock < of_ll lo"
    and "0 < num" "num * 2 ^ nat (bt_threshold bmtest - 1) \<le> qmax" and "0 < bt_threshold bmtest" "is_int (bt_threshold bmtest)"
    and "inv lo b (nat (bt_threshold bmtest) * nat (bt_iterations bmtest)) (te_world env)"
  shows "\<exists>k ts r env'. rate_config pw bucket num step args bmtest env = Some (Inr (0, env'))
    \<and> entered bucket r bmtest (te_table env) (te_table env') \<and> te_vals env' = te_vals env
    \<and> opern_amount r = num * 2 ^ k \<and> int k < bt_threshold bmtest
    \<and> measured lo b (bt_iterations bmtest) r ts \<and> (passed r \<or> int k = bt_threshold bmtest - 1)"
proof -
  have c: "table_ok (te_table env)" "get_min_exec_time (te_table env) = Inr clock" "percent_ok (rt_mode args) (te_vals env)"
    "run_ok (bt_iterations bmtest) b" "Fin 0 < bt_reference_score bmtest"
    using assms(1) by (simp_all add: config_ok_def)
  have it: "0 \<le> bt_iterations bmtest" using c(4) by (simp add: run_ok_def)
  obtain k ts r w where loop: "retry_loop (\<lambda>q. iterate (nat (bt_iterations bmtest)) (step q))
      (retry_step clock (rt_mode args) (te_vals env) (bt_threshold bmtest)) num 0
      (new_result (bt_iterations bmtest) (bt_iterations bmtest), te_world env) = Some (Inr (0, num * 2 ^ k, r, w))"
    "int k < bt_threshold bmtest" "measured lo b (bt_iterations bmtest) r ts"
    "passed r \<or> int k = bt_threshold bmtest - 1"
    using ends_within_threshold [OF assms(2) c(3,4) assms(3) _ qmax_int _ _ assms(6), where cnt = 0
        and w = "te_world env" and r = "new_result (bt_iterations bmtest) (bt_iterations bmtest)"]
      assms(4,5,7) new_result_ready [OF c(4)] by force
  obtain t' where "add_result_to_result_table2 pw (te_table env) (r\<lparr>opern_amount := num * 2 ^ k\<rparr>) bucket bmtest = Inr t'"
    "entered bucket (r\<lparr>opern_amount := num * 2 ^ k\<rparr>) bmtest (te_table env) t'"
    using add_result2_entered [OF c(1) _ c(5)] loop(3) measured_opern_amount by blast
  with loop c(2) it show ?thesis
    by (intro exI [of _ k] exI [of _ ts] exI [of _ "r\<lparr>opern_amount := num * 2 ^ k\<rparr>"]
        exI [of _ "env\<lparr>te_table := t', te_world := w\<rparr>"])
      (simp add: rate_config_def create_one measured_opern_amount passed_opern_amount)
qed

end

section \<open>The steps of the tests keep the contract\<close>

lemma int_work_quiet: "q \<le> 2600000 \<Longrightarrow> quiet_work (int_work q)"
  using simple_int_opern_ok [of q] by (auto simp: quiet_work_def int_work_def)

interpretation int_rate: rate_test "\<lambda>q. timed_step (int_work q)" clock_steps 2600000
  by unfold_locales (simp_all add: timed_step_records int_work_quiet)

lemma mcache_work_quiet: "0 \<le> q \<Longrightarrow> q \<le> INT_MAX \<Longrightarrow> quiet_work (mcache_work (replicate (nat q) c) q)"
  using array_opern_ok [of q "replicate (nat q) c"] by (auto simp: quiet_work_def mcache_work_def)

interpretation mcache: rate_test mcache_step clock_steps INT_MAX
  by unfold_locales (auto simp: mcache_step_def [abs_def] timed_step_records mcache_work_quiet)

text \<open>A rate test that accepts every quantum.\<close>

locale any_rate_test = rate_test step inv qmax + any_quantum_test "\<lambda>iters q. iterate (nat iters) (step q)" inv qmax
  for step :: "int \<Rightarrow> rw \<Rightarrow> (int \<times> rw) run" and inv :: "int \<Rightarrow> int \<Rightarrow> nat \<Rightarrow> world \<Rightarrow> bool" and qmax :: int
begin

lemma rate_config_or_overflow:
  assumes "config_ok clock b args bmtest env" and "0 < num" "is_int num" and "INT_MAX < num * 2 ^ m"
    and "inv lo b (m * nat (bt_iterations bmtest)) (te_world env)"
  shows "rate_config pw bucket num step args bmtest env = Some (Inl Overflow)
    \<or> (\<exists>k ts r env'. rate_config pw bucket num step args bmtest env = Some (Inr (0, env'))
      \<and> entered bucket r bmtest (te_table env) (te_table env') \<and> te_vals env' = te_vals env
      \<and> opern_amount r = num * 2 ^ k \<and> measured lo b (bt_iterations bmtest) r ts \<and> clock < of_ll (mediantime r))"
proof -
  have c: "table_ok (te_table env)" "get_min_exec_time (te_table env) = Inr clock" "percent_ok (rt_mode args) (te_vals env)"
    "run_ok (bt_iterations bmtest) b" "Fin 0 < bt_reference_score bmtest"
    using assms(1) by (simp_all add: config_ok_def)
  have it: "0 \<le> bt_iterations bmtest" using c(4) by (simp add: run_ok_def)
  obtain x where x: "retry_loop (\<lambda>q. iterate (nat (bt_iterations bmtest)) (step q))
      (retry_step clock (rt_mode args) (te_vals env) (bt_threshold bmtest)) num 0
      (new_result (bt_iterations bmtest) (bt_iterations bmtest), te_world env) = Some x"
    and cases: "x = Inl Overflow \<or> (\<exists>k ts r w. x = Inr (0, num * 2 ^ k, r, w)
      \<and> measured lo b (bt_iterations bmtest) r ts \<and> clock < of_ll (mediantime r))"
    using ends_or_overflows [OF c(3,4) assms(2,3) order_refl assms(2,4,5)] new_result_ready [OF c(4)] by blast
  show ?thesis
  proof (cases "x = Inl Overflow")
    case True
    with x c(2) it show ?thesis by (simp add: rate_config_def create_one)
  next
    case False
    then obtain k ts r w where k: "x = Inr (0, num * 2 ^ k, r, w)" "measured lo b (bt_iterations bmtest) r ts"
      "clock < of_ll (mediantime r)" using cases by blast
    obtain t' where "add_result_to_result_table2 pw (te_table env) (r\<lparr>opern_amount := num * 2 ^ k\<rparr>) bucket bmtest = Inr t'"
      "entered bucket (r\<lparr>opern_amount := num * 2 ^ k\<rparr>) bmtest (te_table env) t'"
      using add_result2_entered [OF c(1) _ c(5)] k(2) measured_opern_amount by blast
    with x k c(2) it show ?thesis
      by (intro disjI2 exI [of _ k] exI [of _ ts] exI [of _ "r\<lparr>opern_amount := num * 2 ^ k\<rparr>"]
          exI [of _ "env\<lparr>te_table := t', te_world := w\<rparr>"])
        (simp add: rate_config_def create_one measured_opern_amount)
  qed
qed

end

interpretation mcache_any: any_rate_test mcache_step clock_steps INT_MAX
  by unfold_locales simp

section \<open>The clock test\<close>

text \<open>\<open>Q\<close> is what holds of the environment after the \<open>n\<close> iterations that are left.\<close>

definition clock_inv :: "(world \<Rightarrow> bool) \<Rightarrow> int \<Rightarrow> int \<Rightarrow> nat \<Rightarrow> readings \<times> world \<Rightarrow> bool" where
  "clock_inv Q lo b n s \<longleftrightarrow> clock_steps lo b n (snd s) \<and> Q ((snd s)\<lparr>clk_n := clk_n (snd s) + 2 * n\<rparr>)"

lemma clock_step_records: "records_time lo b (clock_inv Q lo b) clock_step"
  unfolding records_time_def
proof (intro allI impI)
  fix r and s :: "readings \<times> world" and n assume i: "clock_inv Q lo b (Suc n) s"
  obtain u v w where s: "s = ((u, v), w)" by (metis prod.exhaust)
  have c: "clock_steps lo b (Suc n) w" using i by (simp add: clock_inv_def s)
  obtain st en where se: "clk w (clk_n w) = Some st" "clk w (Suc (clk_n w)) = Some en"
    "get_time_diff st en = Inr (ts_nsec en - ts_nsec st)" "in_range lo b (ts_nsec en - ts_nsec st)"
    using two_readings [OF c] .
  define w' where "w' = w\<lparr>clk_n := Suc (Suc (clk_n w))\<rparr>"
  have "clock_steps lo b n w'" by (rule clock_steps_next [OF c]) (simp_all add: w'_def)
  moreover have "Q (w'\<lparr>clk_n := clk_n w' + 2 * n\<rparr>)" using i by (simp add: clock_inv_def s w'_def)
  moreover have "clock_step (r, s) = Some (bind_res (add_entry r (ts_nsec en - ts_nsec st) 0)
      (\<lambda>r. Inr (0, r, (Some st, Some en), w')))"
    using se by (simp add: clock_step_def s keep_reading_def get_cur_time_def elapsed_def w'_def)
  ultimately show "\<exists>t w'. in_range lo b t \<and> clock_inv Q lo b n w' \<and>
      clock_step (r, s) = Some (bind_res (add_entry r t 0) (\<lambda>r. Inr (0, r, w')))"
    using se(4) by (intro exI [of _ "ts_nsec en - ts_nsec st"] exI [of _ "((Some st, Some en), w')"]) (simp add: clock_inv_def)
qed

interpretation clock_test: timed_test "\<lambda>_. clock_step" "clock_inv Q" INT_MAX for Q
  by unfold_locales (rule clock_step_records)

lemma clock_config_ok:
  assumes "table_ok (te_table env)" and "percent_ok (rt_mode args) (te_vals env)" and "run_ok (bt_iterations bmtest) b"
    and "Fin 0 < bt_reference_score bmtest" and "clock_steps lo b (nat (bt_iterations bmtest)) (te_world env)"
  shows "\<exists>ts r env'. clock_config pw args bmtest env = Some (Inr (0, env')) \<and> te_vals env' = te_vals env
    \<and> entered SYSCLOCK_CONFIG r bmtest (te_table env) (te_table env') \<and> measured lo b (bt_iterations bmtest) r ts
    \<and> get_min_exec_time (te_table env') = Inr (of_ll (20 * mediantime r)) \<and> opern_amount r = 100
    \<and> te_world env' = (te_world env)\<lparr>clk_n := clk_n (te_world env) + 2 * nat (bt_iterations bmtest)\<rparr>"
proof -
  let ?n = "bt_iterations bmtest" and ?w = "(te_world env)\<lparr>clk_n := clk_n (te_world env) + 2 * nat (bt_iterations bmtest)\<rparr>"
  have it: "0 \<le> ?n" using assms(3) by (simp add: run_ok_def)
  obtain ts r s where r: "iterate (nat ?n) clock_step (new_result ?n ?n, (None, None), te_world env) = Some (Inr (0, r, s))"
    "measured lo b ?n r ts" "snd s = ?w"
    using clock_test.run_law [of 1 "\<lambda>w. w = ?w" lo b ?n 0 "((None, None), te_world env)" "new_result ?n ?n"] assms(3,5)
      new_result_ready [OF assms(3)] by (auto simp: clock_inv_def)
  then obtain rd where s: "s = (rd, ?w)" by (cases s) simp
  obtain r' where r': "check_pass_criteria r (rt_mode args) (te_vals env) 0 = Inr (if passed r' then 0 else -1, r')"
    "measured lo b ?n r' ts" using check_pass_measured [OF r(2) assms(2)] by blast
  let ?r = "r'\<lparr>opern_amount := 100\<rparr>"
  have m: "measured lo b ?n ?r ts" using r'(2) by (simp add: measured_opern_amount)
  obtain t' where t': "add_result_to_result_table2 pw (te_table env) ?r SYSCLOCK_CONFIG bmtest = Inr t'"
    "entered SYSCLOCK_CONFIG ?r bmtest (te_table env) t'" using add_result2_entered [OF assms(1) m assms(4)] by blast
  have "is_ll (20 * mediantime ?r)" using measured_median [OF m] by (simp add: is_ll_def)
  then have "get_min_exec_time t' = Inr (of_ll (20 * mediantime ?r))"
    using t'(2) by (simp add: get_min_exec_time_def entered_def chk_ll_ok)
  moreover have "create_test_result 1 ?n = Inr [new_result ?n ?n]" using it by (simp add: create_test_result_def)
  ultimately show ?thesis using r(1) s r' t' m
    by (intro exI [of _ ts] exI [of _ ?r] exI [of _ "env\<lparr>te_table := t', te_world := ?w\<rparr>"])
      (simp add: clock_config_def run_clock_test_def aread_def)
qed

text \<open>A clock that fails from the start leaves the readings indeterminate.\<close>

lemma clock_config_uninitialised:
  assumes "0 < bt_iterations bmtest" and "clk (te_world env) (clk_n (te_world env)) = None"
    "clk (te_world env) (Suc (clk_n (te_world env))) = None"
  shows "clock_config pw args bmtest env = Some (Inl Uninitialised)"
proof -
  obtain n where n: "nat (bt_iterations bmtest) = Suc n" using assms(1) by (metis gr0_implies_Suc zero_less_nat_eq)
  show ?thesis using assms
    by (simp add: clock_config_def create_one create_test_result_def aread_def run_clock_test_def n clock_step_def
        keep_reading_def get_cur_time_def elapsed_def)
qed

section \<open>The timer test\<close>

definition timer_inv :: "int \<Rightarrow> int \<Rightarrow> nat \<Rightarrow> world \<Rightarrow> bool" where
  "timer_inv lo b n w \<longleftrightarrow> clock_steps lo b n w \<and> (\<forall>k rq. nsl w k rq = Slept)"

text \<open>The request for a sleep of \<open>q\<close> nanoseconds; run \<open>i\<close> takes the readings from \<open>2 n i\<close> on.\<close>

definition sleep_for :: "int \<Rightarrow> timespec" where
  "sleep_for q = \<lparr>tv_sec = q sdiv 1000000000, tv_nsec = q smod 1000000000\<rparr>"

definition run_times :: "world \<Rightarrow> nat \<Rightarrow> nat \<Rightarrow> int list" where
  "run_times w n i = elapsed_times (w\<lparr>clk_n := clk_n w + 2 * n * i\<rparr>) n"

text \<open>The world after runs of \<open>n\<close> sleeps each, with the sleeps \<open>qs\<close>.\<close>

definition after_runs :: "nat \<Rightarrow> int list \<Rightarrow> world \<Rightarrow> world" where
  "after_runs n qs w = w\<lparr>slept := slept w @ concat (map (\<lambda>q. replicate n (sleep_for q)) qs), clk_n := clk_n w + 2 * n * length qs\<rparr>"

lemma after_runs_append: "after_runs n (qs @ qs') w = after_runs n qs' (after_runs n qs w)"
  by (simp add: after_runs_def algebra_simps)

lemma run_times_after: "run_times (after_runs n qs w) n i = run_times w n (length qs + i)"
  by (simp add: run_times_def after_runs_def elapsed_times_def algebra_simps)

lemma timer_step_exact:
  assumes "timer_inv lo b (Suc n) w"
  shows "in_range lo b (ts_nsec (the (clk w (Suc (clk_n w)))) - ts_nsec (the (clk w (clk_n w)))) \<and> timer_inv lo b n (sleep_once (sleep_for q) w)
    \<and> timer_step q (r, w) = Some (bind_res (add_entry r (ts_nsec (the (clk w (Suc (clk_n w)))) - ts_nsec (the (clk w (clk_n w)))) 0)
        (\<lambda>r. Inr (0, r, sleep_once (sleep_for q) w)))"
proof -
  have c: "clock_steps lo b (Suc n) w" using assms by (simp add: timer_inv_def)
  obtain s e where se: "clk w (clk_n w) = Some s" "clk w (Suc (clk_n w)) = Some e"
    "get_time_diff s e = Inr (ts_nsec e - ts_nsec s)" "in_range lo b (ts_nsec e - ts_nsec s)"
    using two_readings [OF c] .
  have "clock_steps lo b n (sleep_once (sleep_for q) w)" by (rule clock_steps_next [OF c]) (simp_all add: sleep_once_def)
  with se assms show ?thesis
    by (simp add: timer_step_def get_cur_time_def nanosleep_def timer_inv_def sleep_once_def sleep_for_def)
qed

lemma run_timer_exact:
  assumes "timer_inv lo b (nat iters + m) w" and "run_ok iters b" and "recorded r []" "max_entries r = iters"
  shows "\<exists>r'. run_timer_test q iters (r, w) = Some (Inr (0, r', after_runs (nat iters) [q] w))
    \<and> measured lo b iters r' (run_times w (nat iters) 0) \<and> timer_inv lo b m (after_runs (nat iters) [q] w)"
proof -
  have "(sleep_once (sleep_for q) ^^ nat iters) w = after_runs (nat iters) [q] w" by (simp add: sleep_often after_runs_def)
  moreover have "map (\<lambda>i. ts_nsec (the (clk ((sleep_once (sleep_for q) ^^ i) w) (Suc (clk_n ((sleep_once (sleep_for q) ^^ i) w)))))
      - ts_nsec (the (clk ((sleep_once (sleep_for q) ^^ i) w) (clk_n ((sleep_once (sleep_for q) ^^ i) w))))) [0..<nat iters]
    = run_times w (nat iters) 0" by (simp add: run_times_def elapsed_times_def sleep_often)
  ultimately show ?thesis unfolding run_timer_test_def
    using iterate_exact_run [where step = "timer_step q" and P = "timer_inv lo b", OF timer_step_exact assms] by simp
qed

lemma timer_inv_mono: "timer_inv lo b n w \<Longrightarrow> m \<le> n \<Longrightarrow> timer_inv lo b m w"
  by (auto simp: timer_inv_def clock_steps_def)

lemma measured_emptied:
  "measured lo b iters r ts \<Longrightarrow> free_chain r 0 = Inr (r\<lparr>num_entries := 0\<rparr>)"
  "measured lo b iters r ts \<Longrightarrow> recorded (r\<lparr>num_entries := 0\<rparr>) []"
  "measured lo b iters r ts \<Longrightarrow> max_entries (r\<lparr>num_entries := 0\<rparr>) = iters"
  by (auto simp: measured_def recorded_def free_chain_def)

lemma timer_judged:
  assumes "measured lo b iters r ts" and "percent_ok mode vals" and "clock < of_ll lo" and "is_int (cnt + 1)"
  shows "\<exists>r'. timer_decide clock mode vals threshold r cnt = Inr (if criteria_met mode vals ts then Some True
      else if cnt + 1 = threshold then Some False else None, r', if criteria_met mode vals ts then cnt else cnt + 1)
    \<and> timer_accept clock mode vals r = Inr (criteria_met mode vals ts, r') \<and> measured lo b iters r' ts \<and> passed r' = criteria_met mode vals ts"
proof -
  have "clock < of_ll (mediantime r)"
    using f64_less_le_trans [OF assms(3) of_ll_mono] measured_median(1) [OF assms(1)] by blast
  moreover obtain r' where "check_pass_criteria r mode vals 0 = Inr (if passed r' then 0 else -1, r')"
    "measured lo b iters r' ts" "passed r' = criteria_met mode vals ts" using check_pass_met [OF assms(1,2)] by blast
  ultimately show ?thesis using assms(4)
    by (intro exI [of _ r']) (simp add: timer_decide_def timer_accept_def chk_int_ok)
qed

text \<open>The sleep is doubled up to the first run that meets the criteria, or the last one allowed.\<close>

lemma timer_loop_ends:
  assumes "clock < of_ll lo" and "percent_ok mode vals" and "run_ok iters b"
    and "0 < q" "q * 2 ^ nat (threshold - 1 - cnt) \<le> INT_MAX" and "0 \<le> cnt" "cnt < threshold" "is_int threshold"
    and "timer_inv lo b (nat (threshold - cnt) * nat iters + m) w" and "recorded r []" "max_entries r = iters"
  shows "\<exists>k r'. timer_loop (\<lambda>q. run_timer_test q iters) (timer_decide clock mode vals threshold) q prev cnt (r, w)
      = Some (Inr (criteria_met mode vals (run_times w (nat iters) k), q * 2 ^ k, if k = 0 then prev else q * 2 ^ (k - 1), r',
          after_runs (nat iters) (map (\<lambda>i. q * 2 ^ i) [0..<Suc k]) w))
    \<and> int k < threshold - cnt \<and> measured lo b iters r' (run_times w (nat iters) k) \<and> (\<forall>i < k. \<not> criteria_met mode vals (run_times w (nat iters) i))
    \<and> passed r' = criteria_met mode vals (run_times w (nat iters) k) \<and> (passed r' \<or> int k = threshold - 1 - cnt)
    \<and> timer_inv lo b m (after_runs (nat iters) (map (\<lambda>i. q * 2 ^ i) [0..<Suc k]) w)"
  using assms(4-7,9-)
proof (induction "nat (threshold - cnt)" arbitrary: q cnt r w prev)
  case 0
  then show ?case by simp
next
  case (Suc n)
  let ?met = "\<lambda>i. criteria_met mode vals (run_times w (nat iters) i)" and ?w1 = "after_runs (nat iters) [q] w"
  have "nat (threshold - cnt) = Suc (nat (threshold - (cnt + 1)))" using Suc.prems(4) by linarith
  then have "timer_inv lo b (nat iters + (nat (threshold - (cnt + 1)) * nat iters + m)) w"
    using Suc.prems(5) by (simp add: add.assoc)
  from run_timer_exact [OF this assms(3) Suc.prems(6,7), of q]
  obtain r1 where r1: "run_timer_test q iters (r, w) = Some (Inr (0, r1, ?w1))"
    "measured lo b iters r1 (run_times w (nat iters) 0)" "timer_inv lo b (nat (threshold - (cnt + 1)) * nat iters + m) ?w1" by blast
  have "is_int (cnt + 1)" using Suc.prems(3,4) assms(8) by (simp add: is_int_def)
  then obtain r2 where r2: "timer_decide clock mode vals threshold r1 cnt = Inr (if ?met 0 then Some True
      else if cnt + 1 = threshold then Some False else None, r2, if ?met 0 then cnt else cnt + 1)"
    "measured lo b iters r2 (run_times w (nat iters) 0)" "passed r2 = ?met 0" using timer_judged [OF r1(2) assms(2,1)] by blast
  show ?case
  proof (cases "?met 0 \<or> cnt + 1 = threshold")
    case True
    moreover have "timer_inv lo b m ?w1" by (rule timer_inv_mono [OF r1(3)]) simp
    ultimately show ?thesis using r1 r2 Suc.prems(4)
      by (intro exI [of _ 0] exI [of _ r2]) (auto simp: timer_loop.simps)
  next
    case False
    have e: "nat (threshold - 1 - cnt) = Suc (nat (threshold - 1 - (cnt + 1)))" using False Suc.prems(4) by linarith
    then have q2: "q * 2 * 2 ^ nat (threshold - 1 - (cnt + 1)) \<le> INT_MAX" using Suc.prems(2) by simp
    moreover have "q * 2 \<le> q * 2 * 2 ^ nat (threshold - 1 - (cnt + 1))" using Suc.prems(1) by simp
    ultimately have "is_int (q * 2)" using Suc.prems(1) unfolding is_int_def by linarith
    then have nq: "next_quantum r2 q = Inr (q * 2, r2\<lparr>num_entries := 0\<rparr>)" by (simp add: next_quantum_Inr)
    have "n = nat (threshold - (cnt + 1))" using Suc.hyps(2) by simp
    have rt: "run_times ?w1 (nat iters) i = run_times w (nat iters) (Suc i)" for i by (simp add: run_times_after)
    have "0 < q * 2" "0 \<le> cnt + 1" "cnt + 1 < threshold" using False Suc.prems(1,3,4) by simp_all
    from Suc.hyps(1) [OF \<open>n = nat (threshold - (cnt + 1))\<close> this(1) q2 this(2,3) r1(3) measured_emptied(2,3) [OF r2(2)], of q]
    obtain k r' where l: "timer_loop (\<lambda>q. run_timer_test q iters) (timer_decide clock mode vals threshold) (q * 2) q (cnt + 1) (r2\<lparr>num_entries := 0\<rparr>, ?w1)
        = Some (Inr (?met (Suc k), q * 2 * 2 ^ k, if k = 0 then q else q * 2 * 2 ^ (k - 1), r', after_runs (nat iters) (map (\<lambda>i. q * 2 * 2 ^ i) [0..<Suc k]) ?w1))"
      "int k < threshold - (cnt + 1)" "measured lo b iters r' (run_times w (nat iters) (Suc k))" "\<forall>i < k. \<not> ?met (Suc i)"
      "passed r' = ?met (Suc k)" "passed r' \<or> int k = threshold - 1 - (cnt + 1)"
      "timer_inv lo b m (after_runs (nat iters) (map (\<lambda>i. q * 2 * 2 ^ i) [0..<Suc k]) ?w1)"
      unfolding rt by blast
    have a: "after_runs (nat iters) (map (\<lambda>i. q * 2 * 2 ^ i) [0..<Suc k]) ?w1 = after_runs (nat iters) (map (\<lambda>i. q * 2 ^ i) [0..<Suc (Suc k)]) w"
    proof -
      have "map (\<lambda>i. q * 2 ^ i) [0..<Suc (Suc k)] = [q] @ map (\<lambda>i. q * 2 * 2 ^ i) [0..<Suc k]"
        by (simp add: map_upt_Suc mult.assoc del: upt_Suc)
      then show ?thesis by (simp only: after_runs_append)
    qed
    have p: "(if k = 0 then q else q * 2 * 2 ^ (k - 1)) = q * 2 ^ k" by (cases k) simp_all
    have "timer_loop (\<lambda>q. run_timer_test q iters) (timer_decide clock mode vals threshold) q prev cnt (r, w)
        = Some (Inr (?met (Suc k), q * 2 ^ Suc k, q * 2 ^ k, r', after_runs (nat iters) (map (\<lambda>i. q * 2 ^ i) [0..<Suc (Suc k)]) w))"
      using False r1(1) r2(1) nq l(1) unfolding a p by (simp add: timer_loop.simps [of _ _ q] del: upt_Suc)
    moreover have "\<forall>i < Suc k. \<not> ?met i" using False l(4) by (auto simp: less_Suc_eq_0_disj)
    ultimately show ?thesis using l(2,3,5-) unfolding a
      by (intro exI [of _ "Suc k"] exI [of _ r']) (auto simp del: upt_Suc)
  qed
qed

text \<open>
  The binary search halves its interval: fewer than \<open>2 ^ m\<close> quanta need at most \<open>m\<close> runs.
\<close>

lemma mid_quantum_ok:
  assumes "0 \<le> s" "s \<le> t" "2 * t \<le> INT_MAX"
  shows "mid_quantum s t = Inr ((s + t) div 2)"
proof -
  have "is_int (s + t)" "is_int ((s + t) div 2)" using assms unfolding is_int_def by linarith+
  then show ?thesis using assms by (simp add: mid_quantum_def div_int_def chk_int_ok sdiv_nonneg_eq)
qed

lemma clone_measured:
  assumes "measured lo b iters r ts" and "length (tvalues p) = length (tvalues r)"
  shows "\<exists>p'. clone_results p r = Inr p' \<and> measured lo b iters p' ts \<and> (passed p' = passed r) \<and> opern_amount p' = opern_amount r
    \<and> length (tvalues p') = length (tvalues r)"
proof -
  have "recorded r ts" using assms(1) by (simp add: measured_def)
  from clone_results_ok [OF this assms(2)] obtain p' where
    p': "clone_results p r = Inr p'" "recorded p' ts" and eq: "p' = r\<lparr>tvalues := tvalues p'\<rparr>" by blast
  have "summarised p' ts" "max_entries p' = iters" "passed p' = passed r" "opern_amount p' = opern_amount r"
    using assms(1) by (subst eq, simp add: measured_def summarised_def passed_def)+
  moreover have "length (tvalues p') = length (tvalues r)"
    using p'(2) assms(1) calculation(2) by (auto simp: recorded_def measured_def)
  ultimately show ?thesis using p' assms(1) by (simp add: measured_def)
qed

lemma measured_length: "measured lo b iters r ts \<Longrightarrow> int (length (tvalues r)) = iters"
  by (auto simp: measured_def recorded_def)

text \<open>
  What a search of the sleeps from \<open>start\<close> to \<open>stop\<close> has found out: \<open>tried\<close> are the sleeps it tried, with whether the run
  met the criteria, and \<open>found\<close> is the least one that did. The next shorter sleep was tried and failed, unless \<open>found\<close> is the
  first of the interval; without a success the longest sleep was tried and failed.
\<close>

definition least_sleep :: "int \<Rightarrow> int \<Rightarrow> (int \<times> bool) list \<Rightarrow> int option \<Rightarrow> bool" where
  "least_sleep start stop tried found \<longleftrightarrow> (\<forall>x \<in> set tried. start \<le> fst x \<and> fst x \<le> stop) \<and> (case found of
     None \<Rightarrow> (\<forall>x \<in> set tried. \<not> snd x) \<and> (start \<le> stop \<longrightarrow> (stop, False) \<in> set tried)
   | Some s \<Rightarrow> (s, True) \<in> set tried \<and> (s = start \<or> (s - 1, False) \<in> set tried) \<and> (\<forall>x \<in> set tried. if snd x then s \<le> fst x else fst x < s))"

lemma least_sleep_none: "stop < start \<Longrightarrow> least_sleep start stop [] None"
  by (simp add: least_sleep_def)

lemma least_sleep_longer:
  assumes "least_sleep (mid + 1) stop tried found" and "start \<le> mid" "mid \<le> stop"
  shows "least_sleep start stop ((mid, False) # tried) found"
proof (cases found)
  case None
  then show ?thesis using assms by (auto simp: least_sleep_def)
next
  case (Some s)
  then have s: "(s, True) \<in> set tried" "s = mid + 1 \<or> (s - 1, False) \<in> set tried" "\<forall>x \<in> set tried. if snd x then s \<le> fst x else fst x < s"
    "\<forall>x \<in> set tried. mid + 1 \<le> fst x \<and> fst x \<le> stop" using assms(1) by (simp_all add: least_sleep_def)
  have "mid < s" using s(1,4) by fastforce
  then show ?thesis using s assms(2,3) Some by (auto simp: least_sleep_def)
qed

lemma least_sleep_shorter:
  assumes "least_sleep start (mid - 1) tried found" and "start \<le> mid" "mid \<le> stop"
  shows "least_sleep start stop ((mid, True) # tried) (Some (case found of None \<Rightarrow> mid | Some s \<Rightarrow> s))"
proof (cases found)
  case None
  then have f: "\<forall>x \<in> set tried. \<not> snd x" "start \<le> mid - 1 \<longrightarrow> (mid - 1, False) \<in> set tried" "\<forall>x \<in> set tried. start \<le> fst x \<and> fst x \<le> mid - 1"
    using assms(1) by (simp_all add: least_sleep_def)
  have "mid = start \<or> (mid - 1, False) \<in> set tried" using f(2) assms(2) by linarith
  then show ?thesis using f assms(2,3) None by (auto simp: least_sleep_def)
next
  case (Some s)
  then have s: "(s, True) \<in> set tried" "s = start \<or> (s - 1, False) \<in> set tried" "\<forall>x \<in> set tried. if snd x then s \<le> fst x else fst x < s"
    "\<forall>x \<in> set tried. start \<le> fst x \<and> fst x \<le> mid - 1" using assms(1) by (simp_all add: least_sleep_def)
  have "s < mid" using s(1,4) by fastforce
  then show ?thesis using s assms(2,3) Some by (auto simp: least_sleep_def)
qed

text \<open>The sleeps \<open>qs\<close> of the runs from number \<open>k\<close> on, with their verdicts.\<close>

definition tried_runs :: "(nat \<Rightarrow> bool) \<Rightarrow> nat \<Rightarrow> int list \<Rightarrow> (int \<times> bool) list" where
  "tried_runs met k qs = map (\<lambda>i. (qs ! i, met (k + i))) [0..<length qs]"

lemma tried_runs_Cons: "tried_runs met k (q # qs) = (q, met k) # tried_runs met (Suc k) qs"
  by (simp add: tried_runs_def map_upt_Suc del: upt_Suc)

text \<open>The result that the search returns: \<open>kept\<close>, or that of the run with the sleep it has found.\<close>

definition result_of_search :: "(test_results \<Rightarrow> nat \<Rightarrow> bool) \<Rightarrow> (nat \<Rightarrow> bool) \<Rightarrow> nat \<Rightarrow> int list \<Rightarrow> int option \<Rightarrow> test_results \<Rightarrow> test_results \<Rightarrow> bool" where
  "result_of_search holds_run met k qs found kept r \<longleftrightarrow> (case found of None \<Rightarrow> r = kept
     | Some s \<Rightarrow> opern_amount r = s \<and> passed r \<and> (\<exists>i < length qs. qs ! i = s \<and> met (k + i) \<and> holds_run r (k + i)))"

lemma result_of_search_Cons:
  assumes "result_of_search H met (Suc k) qs found kept' r" and "met k \<Longrightarrow> opern_amount kept' = q \<and> passed kept' \<and> H kept' k"
    and "\<not> met k \<Longrightarrow> kept' = kept"
  shows "result_of_search H met k (q # qs) (if met k then Some (case found of None \<Rightarrow> q | Some s \<Rightarrow> s) else found) kept r"
proof (cases found)
  case None
  with assms show ?thesis by (auto simp: result_of_search_def intro!: exI [of _ 0])
next
  case (Some s)
  then obtain i where "i < length qs" "qs ! i = s" "met (k + Suc i)" "H r (k + Suc i)" "opern_amount r = s" "passed r"
    using assms(1) by (auto simp: result_of_search_def)
  then show ?thesis using Some by (auto simp: result_of_search_def intro!: exI [of _ "Suc i"])
qed

lemma timer_search_ends:
  assumes "clock < of_ll lo" and "percent_ok mode vals" and "run_ok iters b"
    and "2 * hi \<le> INT_MAX" and "0 \<le> start" "stop \<le> hi" "stop - start + 1 < 2 ^ m"
    and "timer_inv lo b (m * nat iters) (after_runs (nat iters) us w)" and "measured lo b iters r ts"
    and "length (tvalues p) = length (tvalues r)"
  defines "met \<equiv> \<lambda>i. criteria_met mode vals (run_times w (nat iters) i)"
    and "H \<equiv> \<lambda>r i. measured lo b iters r (run_times w (nat iters) i)"
  shows "\<exists>qs found p' r'. timer_search (\<lambda>q. run_timer_test q iters) (timer_accept clock mode vals) start stop p (r, after_runs (nat iters) us w)
      = Some (Inr (p', r', after_runs (nat iters) (us @ qs) w))
    \<and> least_sleep start stop (tried_runs met (length us) qs) found \<and> result_of_search H met (length us) qs found p p'"
  using assms(5-10)
proof (induction m arbitrary: start stop us r ts p)
  case 0
  then show ?case
    by (intro exI [of _ "[]"] exI [of _ None] exI [of _ p] exI [of _ r])
      (simp add: timer_search.simps tried_runs_def least_sleep_none result_of_search_def)
next
  case (Suc m)
  let ?w = "after_runs (nat iters) us w" and ?k = "length us"
  show ?case
  proof (cases "start \<le> stop")
    case False
    then show ?thesis
      by (intro exI [of _ "[]"] exI [of _ None] exI [of _ p] exI [of _ r])
        (simp add: timer_search.simps tried_runs_def least_sleep_none result_of_search_def)
  next
    case True
    define mid where "mid = (start + stop) div 2"
    have mid: "start \<le> mid" "mid \<le> stop" "0 \<le> mid" "is_int (mid + 1)" "is_int (mid - 1)"
      using True Suc.prems(1,2) assms(4) unfolding mid_def is_int_def by linarith+
    have "stop - start + 1 < 2 * 2 ^ m" using Suc.prems(3) by simp
    then have half: "stop - (mid + 1) + 1 < 2 ^ m" "(mid - 1) - start + 1 < 2 ^ m" unfolding mid_def by linarith+
    have mq: "mid_quantum start stop = Inr mid" using mid_quantum_ok [OF Suc.prems(1) True] Suc.prems(2) assms(4) by (simp add: mid_def)
    have w1: "after_runs (nat iters) [mid] ?w = after_runs (nat iters) (us @ [mid]) w" by (simp add: after_runs_append)
    have ts1: "run_times ?w (nat iters) 0 = run_times w (nat iters) ?k" by (simp add: run_times_after)
    have "timer_inv lo b (nat iters + m * nat iters) ?w" using Suc.prems(4) by simp
    from run_timer_exact [OF this assms(3) measured_emptied(2,3) [OF Suc.prems(5)], of mid]
    obtain r1 where r1: "run_timer_test mid iters (r\<lparr>num_entries := 0\<rparr>, ?w) = Some (Inr (0, r1, after_runs (nat iters) (us @ [mid]) w))"
      "measured lo b iters r1 (run_times w (nat iters) ?k)" "timer_inv lo b (m * nat iters) (after_runs (nat iters) (us @ [mid]) w)"
      unfolding w1 ts1 by blast
    obtain r2 where r2: "timer_accept clock mode vals r1 = Inr (met ?k, r2)" "H r2 ?k" "passed r2 = met ?k"
      using timer_judged [OF r1(2) assms(2,1), of 0] unfolding met_def H_def by (auto simp: is_int_def)
    have len: "length (tvalues p) = length (tvalues r2)"
      using Suc.prems(6) measured_length [OF Suc.prems(5)] measured_length [OF r2(2) [unfolded H_def]] by simp
    have step: "timer_search (\<lambda>q. run_timer_test q iters) (timer_accept clock mode vals) start stop p (r, ?w) =
      (if \<not> met ?k then timer_search (\<lambda>q. run_timer_test q iters) (timer_accept clock mode vals) (mid + 1) stop p (r2, after_runs (nat iters) (us @ [mid]) w)
       else (case bind_res (clone_results p (r2\<lparr>opern_amount := mid\<rparr>)) (\<lambda>p.
               bind_res (chk_int (mid - 1)) (\<lambda>stop. Inr (p, stop))) of Inl e \<Rightarrow> Some (Inl e)
             | Inr (p, stop) \<Rightarrow> timer_search (\<lambda>q. run_timer_test q iters) (timer_accept clock mode vals) start stop p
                 (r2\<lparr>opern_amount := mid\<rparr>, after_runs (nat iters) (us @ [mid]) w)))"
      using True mq r1(1) r2(1) mid(4) measured_emptied(1) [OF Suc.prems(5)]
      by (subst timer_search.simps) (simp add: chk_int_ok)
    show ?thesis
    proof (cases "met ?k")
      case False
      have "0 \<le> mid + 1" using mid(3) by simp
      from Suc.IH [OF this Suc.prems(2) half(1) r1(3) r2(2) [unfolded H_def] len] obtain qs found p' r' where
        "timer_search (\<lambda>q. run_timer_test q iters) (timer_accept clock mode vals) (mid + 1) stop p (r2, after_runs (nat iters) (us @ [mid]) w)
          = Some (Inr (p', r', after_runs (nat iters) ((us @ [mid]) @ qs) w))"
        "least_sleep (mid + 1) stop (tried_runs met (length (us @ [mid])) qs) found" "result_of_search H met (length (us @ [mid])) qs found p p'" by blast
      with False least_sleep_longer [OF _ mid(1,2)] result_of_search_Cons [of H met ?k qs found p p' mid p] show ?thesis
        by (intro exI [of _ "mid # qs"] exI [of _ found] exI [of _ p'] exI [of _ r']) (simp add: step tried_runs_Cons)
    next
      case True
      let ?r = "r2\<lparr>opern_amount := mid\<rparr>"
      have mr: "measured lo b iters ?r (run_times w (nat iters) ?k)" "passed ?r"
        using r2(2,3) True by (simp_all add: measured_opern_amount passed_opern_amount H_def)
      obtain p1 where p1: "clone_results p ?r = Inr p1" "H p1 ?k" "passed p1" "opern_amount p1 = mid" "length (tvalues p1) = length (tvalues ?r)"
        using clone_measured [OF mr(1), of p] mr(2) len unfolding H_def by auto
      have "mid - 1 \<le> hi" using mid(2) Suc.prems(2) by simp
      from Suc.IH [OF Suc.prems(1) this half(2) r1(3) mr(1) p1(5)] obtain qs found p' r' where
        "timer_search (\<lambda>q. run_timer_test q iters) (timer_accept clock mode vals) start (mid - 1) p1 (?r, after_runs (nat iters) (us @ [mid]) w)
          = Some (Inr (p', r', after_runs (nat iters) ((us @ [mid]) @ qs) w))"
        "least_sleep start (mid - 1) (tried_runs met (length (us @ [mid])) qs) found" "result_of_search H met (length (us @ [mid])) qs found p1 p'" by blast
      with True p1 mid(5) least_sleep_shorter [OF _ mid(1,2)] result_of_search_Cons [of H met ?k qs found p1 p' mid p] show ?thesis
        by (intro exI [of _ "mid # qs"] exI [of _ "Some (case found of None \<Rightarrow> mid | Some s \<Rightarrow> s)"] exI [of _ p'] exI [of _ r'])
          (simp add: step tried_runs_Cons chk_int_ok)
    qed
  qed
qed

lemma compute_std_measured:
  assumes "measured lo b iters r ts"
  shows "\<exists>r'. compute_std_time r 0 = Inr r' \<and> measured lo b iters r' ts \<and> (passed r' = passed r)
    \<and> opern_amount r' = opern_amount r"
proof -
  have n: "num_entries r = int (length ts)" "take (length ts) (tvalues r) = ts" "length ts \<le> length (tvalues r)"
    "ts \<noteq> []" "times_ok b ts" using assms by (auto simp: measured_def recorded_def)
  then have "compute_std_time r 0 = Inr (r\<lparr>meantime := mean_of ts, stdtime := std_of ts\<rparr>)"
    using compute_std_time_ok [of 0 b "length ts" r] times_ok_stamps [of b ts] by simp
  moreover have "measured lo b iters (r\<lparr>meantime := mean_of ts, stdtime := std_of ts\<rparr>) ts"
    using assms by (auto simp: measured_def recorded_def summarised_def)
  ultimately show ?thesis by (simp add: passed_def)
qed

text \<open>
  What the test enters: \<open>k\<close> doublings of the first sleep, then the sleeps \<open>qs\<close> of the search, whose verdict on run \<open>i\<close> is \<open>met i\<close>.
\<close>

definition timer_outcome :: "(test_results \<Rightarrow> nat \<Rightarrow> bool) \<Rightarrow> (nat \<Rightarrow> bool) \<Rightarrow> int \<Rightarrow> nat \<Rightarrow> int list \<Rightarrow> test_results \<Rightarrow> bool" where
  "timer_outcome holds_run met threshold k qs r \<longleftrightarrow> int k < threshold \<and> (\<forall>i < k. \<not> met i) \<and> (met k \<or> int k = threshold - 1) \<and> passed r = met k \<and>
     (if met k then \<exists>found. least_sleep (if k = 0 then 0 else 2000 * 2 ^ (k - 1)) (2000 * 2 ^ k) (tried_runs met (Suc k) qs) found \<and>
        (case found of None \<Rightarrow> opern_amount r = 2000 * 2 ^ k \<and> holds_run r k
         | Some s \<Rightarrow> opern_amount r = s \<and> (\<exists>i < length qs. qs ! i = s \<and> met (Suc k + i) \<and> holds_run r (Suc k + i)))
      else qs = [] \<and> opern_amount r = 2000 * 2 ^ k \<and> holds_run r k)"

lemma timer_run_ends:
  assumes "clock < of_ll lo" and "percent_ok mode vals" and "run_ok iters b" and "1 \<le> threshold" "threshold \<le> 20"
    and "timer_inv lo b (nat threshold * nat iters + 32 * nat iters) w"
    and "recorded r []" "max_entries r = iters" and "recorded p []" "max_entries p = iters"
  shows "\<exists>k qs r'. timer_run iters clock mode vals threshold p (r, w)
      = Some (Inr (r', after_runs (nat iters) (map (\<lambda>i. 2000 * 2 ^ i) [0..<Suc k] @ qs) w))
    \<and> timer_outcome (\<lambda>r i. measured lo b iters r (run_times w (nat iters) i)) (\<lambda>i. criteria_met mode vals (run_times w (nat iters) i)) threshold k qs r'"
proof -
  let ?met = "\<lambda>i. criteria_met mode vals (run_times w (nat iters) i)" and ?H = "\<lambda>r i. measured lo b iters r (run_times w (nat iters) i)"
  have "(2::int) ^ nat (threshold - 1) \<le> 2 ^ 19" using assms(5) by (intro power_increasing) simp_all
  then have hi: "2 * (2000 * 2 ^ nat (threshold - 1)) \<le> INT_MAX" by simp
  have "2000 * 2 ^ nat (threshold - 1 - 0) \<le> INT_MAX" using hi by simp
  from timer_loop_ends [OF assms(1-3) _ this order_refl _ _ _ assms(7,8), of "32 * nat iters" w 0] assms(4,5,6)
  obtain k r1 where loop: "timer_loop (\<lambda>q. run_timer_test q iters) (timer_decide clock mode vals threshold) 2000 0 0 (r, w)
      = Some (Inr (?met k, 2000 * 2 ^ k, if k = 0 then 0 else 2000 * 2 ^ (k - 1), r1, after_runs (nat iters) (map (\<lambda>i. 2000 * 2 ^ i) [0..<Suc k]) w))"
    "int k < threshold" "?H r1 k" "\<forall>i < k. \<not> ?met i" "passed r1 = ?met k" "passed r1 \<or> int k = threshold - 1"
    "timer_inv lo b (32 * nat iters) (after_runs (nat iters) (map (\<lambda>i. 2000 * 2 ^ i) [0..<Suc k]) w)"
    by (auto simp: is_int_def)
  let ?us = "map (\<lambda>i. 2000 * 2 ^ i) [0..<Suc k] :: int list" and ?prev = "if k = 0 then 0 else 2000 * 2 ^ (k - 1) :: int"
  have k: "(2::int) ^ k \<le> 2 ^ nat (threshold - 1)" using loop(2) by (intro power_increasing) auto
  define r2 where "r2 = r1\<lparr>opern_amount := 2000 * 2 ^ k\<rparr>"
  have r2: "?H r2 k" "passed r2 = ?met k" "opern_amount r2 = 2000 * 2 ^ k"
    using loop(3,5) by (simp_all add: r2_def measured_opern_amount passed_opern_amount)
  show ?thesis
  proof (cases "?met k")
    case False
    then have "timer_run iters clock mode vals threshold p (r, w) = Some (Inr (r2, after_runs (nat iters) ?us w))"
      using loop(1) by (simp add: timer_run_def Let_def r2_def)
    with False loop r2 show ?thesis
      by (intro exI [of _ k] exI [of _ "[]"] exI [of _ r2]) (simp add: timer_outcome_def del: upt_Suc)
  next
    case True
    have "length (tvalues p) = length (tvalues r2)" using measured_length [OF r2(1)] assms(9,10) by (auto simp: recorded_def)
    from clone_measured [OF r2(1) this] obtain p1 where p1: "clone_results p r2 = Inr p1" "?H p1 k" "passed p1"
      "opern_amount p1 = 2000 * 2 ^ k" "length (tvalues p1) = length (tvalues r2)" using True r2(2,3) by auto
    have prev: "0 \<le> ?prev" by simp
    have "2000 * 2 ^ k - ?prev + 1 < 4294967296" "2 * (2000 * 2 ^ k) \<le> INT_MAX" using k hi prev by linarith+
    then have b2: "2000 * 2 ^ k - ?prev + 1 < (2::int) ^ 32" "2 * (2000 * 2 ^ k) \<le> INT_MAX" by simp_all
    have us: "length ?us = Suc k" by simp
    obtain qs found p2 r3 where s: "timer_search (\<lambda>q. run_timer_test q iters) (timer_accept clock mode vals) ?prev (2000 * 2 ^ k) p1 (r2, after_runs (nat iters) ?us w)
        = Some (Inr (p2, r3, after_runs (nat iters) (?us @ qs) w))"
      "least_sleep ?prev (2000 * 2 ^ k) (tried_runs ?met (Suc k) qs) found" "result_of_search ?H ?met (Suc k) qs found p1 p2"
      using timer_search_ends [OF assms(1-3) b2(2) prev order_refl b2(1) loop(7) r2(1) p1(5)] unfolding us by blast
    have p2: "passed p2" "case found of None \<Rightarrow> opern_amount p2 = 2000 * 2 ^ k \<and> ?H p2 k
        | Some s \<Rightarrow> opern_amount p2 = s \<and> (\<exists>i < length qs. qs ! i = s \<and> ?met (Suc k + i) \<and> ?H p2 (Suc k + i))"
      using s(3) p1(2-4) by (auto simp: result_of_search_def split: option.splits)
    obtain ts where "measured lo b iters p2 ts" using p2(2) by (auto split: option.splits)
    then obtain p3 where p3: "compute_std_time p2 0 = Inr p3" "passed p3 = passed p2" "opern_amount p3 = opern_amount p2"
      "\<And>i. ?H p2 i \<Longrightarrow> ?H p3 i"
    proof -
      obtain p3 where c: "compute_std_time p2 0 = Inr p3" "passed p3 = passed p2" "opern_amount p3 = opern_amount p2"
        using compute_std_measured [OF \<open>measured lo b iters p2 ts\<close>] by blast
      moreover have "?H p3 i" if "?H p2 i" for i using compute_std_measured [OF that] c(1) by auto
      ultimately show thesis using that by blast
    qed
    have "timer_run iters clock mode vals threshold p (r, w) = Some (Inr (p3, after_runs (nat iters) (?us @ qs) w))"
      using loop(1) True p1(1) s(1) p3(1) by (simp add: timer_run_def Let_def flip: r2_def del: upt_Suc)
    moreover have "timer_outcome ?H ?met threshold k qs p3"
      using True loop(2,4,6) s(2) p2 p3 unfolding timer_outcome_def by (auto split: option.splits intro!: exI [of _ found])
    ultimately show ?thesis by blast
  qed
qed

lemma cfg_percentage: "\<exists>a. to_f32 (rnd64 (999 / 10)) = Fin a \<and> 0 \<le> a \<and> a \<le> 100"
proof -
  have "representable 53 (-1022) 100" using representable64_int [of 100] by simp
  then obtain v where v: "rnd64 (999 / 10) = Fin v" "0 \<le> v" "v \<le> 100" using rnd64_nonneg_le [of "999 / 10" 100] by auto
  have r: "representable 24 (-126) 0" "representable 24 (-126) 100"
    unfolding representable_def by (intro exI [of _ 0] exI [of _ 0]; simp) (intro exI [of _ 100] exI [of _ 0]; simp)
  define u where "u = roundv 24 (-126) v"
  have u: "0 \<le> u" "u \<le> 100" using roundv_ge [of 24 0 v] roundv_le [of 24 v 100] r v by (simp_all add: u_def)
  have "(100::rat) < 2 powi 128" by simp
  with u have "\<bar>u\<bar> < 2 powi 128" by linarith
  then have "rnd32 v = Fin u" by (simp add: rnd32_def u_def [symmetric] pack_Fin)
  with v(1) u show ?thesis by simp
qed

definition timer_percents :: "rt_params \<Rightarrow> real_time_mode \<Rightarrow> rt_params" where
  "timer_percents vals mode = (if change_percent vals mode
     then fst (fill_acceptable_percentages vals mode (rnd64 (999 / 10)) (Fin 20) True True) else vals)"

lemma timer_config_ok:
  assumes "config_ok clock b args bmtest env" and "clock < of_ll lo" and "params_f32 (te_vals env)"
    and "1 \<le> bt_threshold bmtest" "bt_threshold bmtest \<le> 20"
    and "timer_inv lo b ((nat (bt_threshold bmtest) + 32) * nat (bt_iterations bmtest)) (te_world env)"
  defines "n \<equiv> nat (bt_iterations bmtest)" and "w \<equiv> te_world env"
  shows "\<exists>k qs r env'. timer_config pw args bmtest env = Some (Inr (0, env')) \<and> te_vals env' = te_vals env
    \<and> entered SYSTIMER_CONFIG r bmtest (te_table env) (te_table env')
    \<and> te_world env' = after_runs n (map (\<lambda>i. 2000 * 2 ^ i) [0..<Suc k] @ qs) w
    \<and> timer_outcome (\<lambda>r i. measured lo b (bt_iterations bmtest) r (run_times w n i))
        (\<lambda>i. criteria_met (rt_mode args) (timer_percents (te_vals env) (rt_mode args)) (run_times w n i)) (bt_threshold bmtest) k qs r"
proof -
  let ?m = "rt_mode args" and ?n = "bt_iterations bmtest"
  have c: "table_ok (te_table env)" "get_min_exec_time (te_table env) = Inr clock" "percent_ok ?m (te_vals env)"
    "run_ok ?n b" "Fin 0 < bt_reference_score bmtest"
    using assms(1) by (simp_all add: config_ok_def)
  have it: "0 \<le> ?n" using c(4) by (simp add: run_ok_def)
  obtain vals sp sr where f: "fill_acceptable_percentages (te_vals env) ?m (rnd64 (999 / 10)) (Fin 20) True True
      = (vals, Some sp, Some sr)" by (cases ?m) (simp_all add: fill_acceptable_percentages_def)
  have restored: "fst (fill_acceptable_percentages vals ?m sp sr False False) = te_vals env"
    using fill_then_restore [OF assms(3) f] .
  define used where "used = timer_percents (te_vals env) ?m"
  have used: "used = (if change_percent (te_vals env) ?m then vals else te_vals env)" using f by (simp add: used_def timer_percents_def)
  have "percent_ok ?m vals"
    using cfg_percentage f by (cases ?m) (auto simp: fill_acceptable_percentages_def fill_vals_def percent_ok_def mode_vals_def)
  then have "percent_ok ?m used" using c(3) by (simp add: used)
  moreover have "timer_inv lo b (nat (bt_threshold bmtest) * nat ?n + 32 * nat ?n) (te_world env)"
    using assms(6) by (simp add: algebra_simps)
  ultimately obtain k qs r where r: "timer_run ?n clock ?m used (bt_threshold bmtest) (new_result ?n ?n) (new_result ?n ?n, w)
      = Some (Inr (r, after_runs n (map (\<lambda>i. 2000 * 2 ^ i) [0..<Suc k] @ qs) w))"
    "timer_outcome (\<lambda>r i. measured lo b ?n r (run_times w n i)) (\<lambda>i. criteria_met ?m used (run_times w n i)) (bt_threshold bmtest) k qs r"
    using timer_run_ends [OF assms(2) _ c(4) assms(4,5)] new_result_ready [OF c(4)] unfolding n_def w_def by blast
  obtain ts where "measured lo b ?n r ts" using r(2) by (auto simp: timer_outcome_def split: if_splits option.splits)
  then obtain t' where t': "add_result_to_result_table2 pw (te_table env) r SYSTIMER_CONFIG bmtest = Inr t'"
    "entered SYSTIMER_CONFIG r bmtest (te_table env) t'" using add_result2_entered [OF c(1) _ c(5)] by blast
  let ?w' = "after_runs n (map (\<lambda>i. 2000 * 2 ^ i) [0..<Suc k] @ qs) w"
  have "timer_config pw args bmtest env = Some (Inr (0, \<lparr>te_table = t', te_vals = te_vals env, te_world = ?w'\<rparr>))"
    using r(1) t'(1) c(2) f restored it unfolding w_def by (simp add: timer_config_def create_one used Let_def split: if_splits)
  with r(2) t' show ?thesis unfolding used_def
    by (intro exI [of _ k] exI [of _ qs] exI [of _ r] exI [of _ "\<lparr>te_table = t', te_vals = te_vals env, te_world = ?w'\<rparr>"]) simp
qed

section \<open>What a test may change\<close>

text \<open>A test that returns leaves the shared percentages alone and writes its own bucket only, or nothing.\<close>

definition only_bucket :: "test_bucket_number \<Rightarrow> benchmark_test \<Rightarrow> tenv \<Rightarrow> (int \<times> tenv) run \<Rightarrow> bool" where
  "only_bucket bucket bmtest env x = (case x of Some (Inr (rc, env')) \<Rightarrow> te_vals env' = te_vals env \<and>
       (if rc = -1 then te_table env' = te_table env
        else rc = 0 \<and> (\<exists>e. te_table env' = (te_table env)[bucket_no bucket := e] \<and> valid e = 1 \<and> bm_test e = Some bmtest))
     | _ \<Rightarrow> True)"

lemma add_result2_writes: "add_result_to_result_table2 pw t r bucket bmtest = Inr t' \<Longrightarrow>
    \<exists>e. t' = t[bucket_no bucket := e] \<and> valid e = 1 \<and> bm_test e = Some bmtest"
  by (auto simp: add_result_to_result_table2_def enter_def awrite_def bind_res_Inr_iff split: if_splits)

lemma only_bucket_add: "only_bucket bucket bmtest env (Some (bind_res (add_result_to_result_table2 pw (te_table env) r bucket bmtest)
    (\<lambda>table. Inr (0, env\<lparr>te_table := table, te_world := w\<rparr>))))"
  by (cases "add_result_to_result_table2 pw (te_table env) r bucket bmtest")
    (auto simp: only_bucket_def dest: add_result2_writes)

lemma only_bucket_bind: "(\<And>x. m = Some (Inr x) \<Longrightarrow> only_bucket bucket bmtest env (k x)) \<Longrightarrow>
    only_bucket bucket bmtest env (bind_run m k)"
  by (auto simp: bind_run_def only_bucket_def split: option.splits sum.splits)

lemma rate_config_frame: "only_bucket bucket bmtest env (rate_config pw bucket num step args bmtest env)"
  unfolding rate_config_def
  by (intro only_bucket_bind) (auto simp: only_bucket_add simp del: One_nat_def, simp add: only_bucket_def)

lemma clock_config_frame: "only_bucket SYSCLOCK_CONFIG bmtest env (clock_config pw args bmtest env)"
  unfolding clock_config_def by (intro only_bucket_bind) (auto simp: only_bucket_add)

lemma int_rate_ends:
  assumes "config_ok clock b args bmtest env" and "clock < of_ll lo"
    and "1 \<le> bt_threshold bmtest" "bt_threshold bmtest \<le> 15"
    and "clock_steps lo b (nat (bt_threshold bmtest) * nat (bt_iterations bmtest)) (te_world env)"
  shows "\<exists>k ts r env'. int_rate_config pw args bmtest env = Some (Inr (0, env'))
    \<and> entered IRATE_CONFIG r bmtest (te_table env) (te_table env') \<and> te_vals env' = te_vals env
    \<and> opern_amount r = 100 * 2 ^ k \<and> int k < bt_threshold bmtest
    \<and> measured lo b (bt_iterations bmtest) r ts \<and> (passed r \<or> int k = bt_threshold bmtest - 1)"
proof -
  have "(2::int) ^ nat (bt_threshold bmtest - 1) \<le> 2 ^ 14" using assms(4) by (intro power_increasing) simp_all
  then have "100 * 2 ^ nat (bt_threshold bmtest - 1) \<le> (2600000::int)" by simp
  then show ?thesis unfolding int_rate_config_def
    using assms by (intro int_rate.rate_config_ends) (simp_all add: is_int_def)
qed

section \<open>Properties\<close>

text \<open>
  Whatever the clock and the work do, a rate test or the clock test that returns has written
  its own bucket of the result table and returns \<^verbatim>\<open>SUCCESS\<close>, or returns \<^verbatim>\<open>ERROR\<close> and has written
  nothing; the shared percentages are unchanged.
\<close>

lemma config_tests_write_own_bucket:
  "only_bucket IRATE_CONFIG bmtest env (int_rate_config pw args bmtest env)
    \<and> only_bucket FRATE_CONFIG bmtest env (float_rate_config pw args bmtest env)
    \<and> only_bucket MCACHE_CONFIG bmtest env (mcache_perf_config pw args bmtest env)
    \<and> only_bucket SYSCLOCK_CONFIG bmtest env (clock_config pw args bmtest env)"
  by (simp add: int_rate_config_def float_rate_config_def mcache_perf_config_def rate_config_frame clock_config_frame)

text \<open>
  C8: When every iteration takes longer than the resolution of the clock, \<^verbatim>\<open>int_rate_config\<close>
  returns \<^verbatim>\<open>SUCCESS\<close> after fewer than \<^verbatim>\<open>_threshold\<close> doublings of its work, for thresholds up to 15:
  its arithmetic never overflows, and its bucket holds the complete statistics of the last run,
  which met the pass criteria unless all attempts were used up.
\<close>

theorem int_rate_config_ends:
  assumes "config_ok clock b args bmtest env" and "clock < of_ll lo"
    and "1 \<le> bt_threshold bmtest" "bt_threshold bmtest \<le> 15"
    and "clock_steps lo b (nat (bt_threshold bmtest) * nat (bt_iterations bmtest)) (te_world env)"
  shows "\<exists>k ts r env'. int_rate_config pw args bmtest env = Some (Inr (0, env'))
    \<and> entered IRATE_CONFIG r bmtest (te_table env) (te_table env') \<and> te_vals env' = te_vals env
    \<and> opern_amount r = 100 * 2 ^ k \<and> int k < bt_threshold bmtest
    \<and> measured lo b (bt_iterations bmtest) r ts \<and> (passed r \<or> int k = bt_threshold bmtest - 1)"
  using assms by (rule int_rate_ends)

text \<open>A concrete environment: each iteration takes 50 microseconds, the clock resolves 100 ns.\<close>

definition steady_world :: world where
  "steady_world = \<lparr>clk = \<lambda>k. Some \<lparr>tv_sec = 0, tv_nsec = (if even k then 0 else 50000)\<rparr>, clk_n = 0,
     nsl = \<lambda>_ _. Slept, slept = [], dsk = \<lambda>_. True, dsk_n = 0, dfile = None, bsize = Some 4096\<rparr>"

definition steady_test :: benchmark_test where
  "steady_test = \<lparr>bt_name = ''config'', bt_desc = [], bt_iterations = 3, bt_config_test = 1, bt_threshold = 5,
     bt_reference_score = Fin 150\<rparr>"

definition steady_args :: cmd_line_args where
  "steady_args = \<lparr>verbose = 0, verbose_lvl = 0, quick = 0, rt_mode = SOFT_RT, file_name = None, dir_name = [], test_list = []\<rparr>"

definition clock_table :: result_table where
  "clock_table = empty_table[0 := \<lparr>fbmt = Some \<lparr>fb_score = [create_test_score3 one_time], throughput_test_score = Fin 1,
     consistency_test_score = Fin 100, fb_test_score = Fin 1, test_pass = 1\<rparr>, bm_test = Some steady_test, valid = 1\<rparr>]"

definition steady_env :: tenv where
  "steady_env = \<lparr>te_table = clock_table, te_vals = fifty_params, te_world = steady_world\<rparr>"

lemma steady_clock: "clock_steps 50000 50000 n steady_world"
  by (simp add: clock_steps_def steady_world_def ts_ok_def ts_nsec_def in_range_def)

lemma clock_table_ok: "table_ok clock_table \<and> get_min_exec_time clock_table = Inr (Fin 2000)"
proof -
  have "table_ok clock_table" using empty_table_ok
    by (auto simp: table_ok_def clock_table_def dest!: set_update_subset_insert [THEN subsetD])
  moreover have "length empty_table = 18" using empty_table_ok by (simp add: table_ok_def)
  ultimately show ?thesis
    by (simp add: clock_table_def get_min_exec_time_def first_result_def aread_def vget_def create_test_score3_def
        create_test_score1_def one_time_def chk_ll_def is_ll_def)
qed

lemma steady_config: "config_ok (Fin 2000) 50000 steady_args steady_test steady_env"
  using clock_table_ok by (simp add: config_ok_def steady_env_def percent_ok_def steady_args_def steady_test_def
      fifty_params_def mode_vals_def run_ok_def is_int_def Let_def)

theorem int_rate_config_ends_witness:
  "\<exists>k ts r env'. int_rate_config (\<lambda>x y. x) steady_args steady_test steady_env = Some (Inr (0, env'))
    \<and> entered IRATE_CONFIG r steady_test (te_table steady_env) (te_table env') \<and> te_vals env' = te_vals steady_env
    \<and> opern_amount r = 100 * 2 ^ k \<and> int k < bt_threshold steady_test
    \<and> measured 50000 50000 (bt_iterations steady_test) r ts \<and> (passed r \<or> int k = bt_threshold steady_test - 1)"
  by (rule int_rate_config_ends [OF steady_config])
    (simp_all add: steady_test_def steady_clock steady_env_def)

text \<open>
  \<^verbatim>\<open>mcache_perf_config\<close> accepts every array size, so it fails only when the doubled size no
  longer fits an \<^verbatim>\<open>int\<close>: with readings for ten attempts it either returns \<^verbatim>\<open>SUCCESS\<close> with the
  statistics of a run whose median exceeds the resolution of the clock, or overflows.
\<close>

lemma mcache_config_ends:
  assumes "config_ok clock b args bmtest env"
    and "clock_steps 0 b (10 * nat (bt_iterations bmtest)) (te_world env)"
  shows "mcache_perf_config pw args bmtest env = Some (Inl Overflow)
    \<or> (\<exists>k ts r env'. mcache_perf_config pw args bmtest env = Some (Inr (0, env'))
      \<and> entered MCACHE_CONFIG r bmtest (te_table env) (te_table env') \<and> te_vals env' = te_vals env
      \<and> opern_amount r = 4194304 * 2 ^ k \<and> measured 0 b (bt_iterations bmtest) r ts \<and> clock < of_ll (mediantime r))"
  unfolding mcache_perf_config_def
  by (rule mcache_any.rate_config_or_overflow [where m = 10, OF assms(1) _ _ _ assms(2)]) (simp_all add: is_int_def)

lemma mcache_config_ends_witness:
  "mcache_perf_config (\<lambda>x y. x) steady_args steady_test steady_env = Some (Inl Overflow)
    \<or> (\<exists>k ts r env'. mcache_perf_config (\<lambda>x y. x) steady_args steady_test steady_env = Some (Inr (0, env'))
      \<and> entered MCACHE_CONFIG r steady_test (te_table steady_env) (te_table env') \<and> te_vals env' = te_vals steady_env
      \<and> opern_amount r = 4194304 * 2 ^ k \<and> measured 0 50000 (bt_iterations steady_test) r ts
      \<and> Fin 2000 < of_ll (mediantime r))"
proof (rule mcache_config_ends [OF steady_config])
  show "clock_steps 0 50000 (10 * nat (bt_iterations steady_test)) (te_world steady_env)"
    using steady_clock [of "10 * nat (bt_iterations steady_test)"]
    by (simp add: clock_steps_def in_range_def steady_env_def steady_world_def ts_ok_def ts_nsec_def)
qed

text \<open>
  \<^verbatim>\<open>clock_config\<close> enters the statistics of the elapsed times between successive readings, and
  the least execution time that later tests use becomes twenty medians of them; a clock that
  fails at the first two readings makes it read indeterminate values, since it ignores the
  return value of \<^verbatim>\<open>get_cur_time\<close>.
\<close>

lemma clock_config_result:
  assumes "table_ok (te_table env)" and "percent_ok (rt_mode args) (te_vals env)" and "run_ok (bt_iterations bmtest) b"
    and "Fin 0 < bt_reference_score bmtest" and "clock_steps lo b (nat (bt_iterations bmtest)) (te_world env)"
  shows "(\<exists>ts r env'. clock_config pw args bmtest env = Some (Inr (0, env')) \<and> te_vals env' = te_vals env
      \<and> entered SYSCLOCK_CONFIG r bmtest (te_table env) (te_table env') \<and> measured lo b (bt_iterations bmtest) r ts
      \<and> get_min_exec_time (te_table env') = Inr (of_ll (20 * mediantime r)) \<and> opern_amount r = 100)
    \<and> clock_config pw args bmtest (env\<lparr>te_world := (te_world env)\<lparr>clk := \<lambda>_. None\<rparr>\<rparr>) = Some (Inl Uninitialised)"
proof
  show "\<exists>ts r env'. clock_config pw args bmtest env = Some (Inr (0, env')) \<and> te_vals env' = te_vals env
      \<and> entered SYSCLOCK_CONFIG r bmtest (te_table env) (te_table env') \<and> measured lo b (bt_iterations bmtest) r ts
      \<and> get_min_exec_time (te_table env') = Inr (of_ll (20 * mediantime r)) \<and> opern_amount r = 100"
    using clock_config_ok [OF assms] by blast
  show "clock_config pw args bmtest (env\<lparr>te_world := (te_world env)\<lparr>clk := \<lambda>_. None\<rparr>\<rparr>) = Some (Inl Uninitialised)"
    using assms(3) by (intro clock_config_uninitialised) (simp_all add: run_ok_def)
qed

lemma clock_config_result_witness:
  "(\<exists>ts r env'. clock_config (\<lambda>x y. x) steady_args steady_test steady_env = Some (Inr (0, env')) \<and> te_vals env' = te_vals steady_env
      \<and> entered SYSCLOCK_CONFIG r steady_test (te_table steady_env) (te_table env') \<and> measured 50000 50000 (bt_iterations steady_test) r ts
      \<and> get_min_exec_time (te_table env') = Inr (of_ll (20 * mediantime r)) \<and> opern_amount r = 100)
    \<and> clock_config (\<lambda>x y. x) steady_args steady_test (steady_env\<lparr>te_world := (te_world steady_env)\<lparr>clk := \<lambda>_. None\<rparr>\<rparr>)
      = Some (Inl Uninitialised)"
  by (rule clock_config_result)
    (use steady_config steady_clock in \<open>simp_all add: config_ok_def steady_env_def steady_test_def\<close>)

text \<open>
  C21: When every sleep takes longer than the resolution of the clock, \<^verbatim>\<open>timer_config\<close> ends within
  the readings of \<^verbatim>\<open>_threshold\<close> attempts and 32 runs of the binary search, without overflow for
  thresholds up to 20, and restores the percentages that it changes.  It sleeps 2000 ns, 4000 ns and so on in each iteration of a
  run, up to the first run that meets the criteria, or the last one allowed; if none met them it enters that one.  Otherwise it
  enters the shortest sleep whose run met the criteria, with the times of that run: of the
  sleeps that the search tried all shorter ones failed, and the one shorter by a nanosecond is among them unless the
  entered sleep is the first of the interval.  The search starts with the last sleep that failed in the doubling, or 0.
\<close>

theorem timer_config_result:
  assumes "config_ok clock b args bmtest env" and "clock < of_ll lo" and "params_f32 (te_vals env)"
    and "1 \<le> bt_threshold bmtest" "bt_threshold bmtest \<le> 20"
    and "timer_inv lo b ((nat (bt_threshold bmtest) + 32) * nat (bt_iterations bmtest)) (te_world env)"
  shows "\<exists>k qs r env'. timer_config pw args bmtest env = Some (Inr (0, env')) \<and> te_vals env' = te_vals env
    \<and> entered SYSTIMER_CONFIG r bmtest (te_table env) (te_table env')
    \<and> te_world env' = after_runs (nat (bt_iterations bmtest)) (map (\<lambda>i. 2000 * 2 ^ i) [0..<Suc k] @ qs) (te_world env)
    \<and> timer_outcome (\<lambda>r i. measured lo b (bt_iterations bmtest) r (run_times (te_world env) (nat (bt_iterations bmtest)) i))
        (\<lambda>i. criteria_met (rt_mode args) (timer_percents (te_vals env) (rt_mode args)) (run_times (te_world env) (nat (bt_iterations bmtest)) i))
        (bt_threshold bmtest) k qs r"
  using assms by (rule timer_config_ok)

lemma fifty_f32: "params_f32 fifty_params"
proof -
  have "to_f32 (Fin x) = Fin x" if "x \<in> {50, 10}" for x
  proof -
    have "representable 24 (-126) x" unfolding representable_def
      using that by (intro exI [of _ "\<lfloor>x\<rfloor>"] exI [of _ 0]) auto
    moreover have "\<bar>x\<bar> < 2 powi 128" using that by auto
    ultimately show ?thesis by (simp add: rnd32_def roundv_representable pack_Fin)
  qed
  then show ?thesis by (simp add: params_f32_def fifty_params_def is_f32_def Let_def)
qed

theorem timer_config_result_witness:
  "\<exists>k qs r env'. timer_config (\<lambda>x y. x) steady_args steady_test steady_env = Some (Inr (0, env')) \<and> te_vals env' = te_vals steady_env
    \<and> entered SYSTIMER_CONFIG r steady_test (te_table steady_env) (te_table env')
    \<and> te_world env' = after_runs (nat (bt_iterations steady_test)) (map (\<lambda>i. 2000 * 2 ^ i) [0..<Suc k] @ qs) (te_world steady_env)
    \<and> timer_outcome (\<lambda>r i. measured 50000 50000 (bt_iterations steady_test) r (run_times (te_world steady_env) (nat (bt_iterations steady_test)) i))
        (\<lambda>i. criteria_met (rt_mode steady_args) (timer_percents (te_vals steady_env) (rt_mode steady_args))
          (run_times (te_world steady_env) (nat (bt_iterations steady_test)) i)) (bt_threshold steady_test) k qs r"
proof (rule timer_config_result [OF steady_config])
  show "timer_inv 50000 50000 ((nat (bt_threshold steady_test) + 32) * nat (bt_iterations steady_test)) (te_world steady_env)"
    unfolding timer_inv_def by (simp add: steady_env_def steady_clock) (simp add: steady_world_def)
qed (simp_all add: steady_test_def steady_env_def fifty_f32)

end
