(* ===== verification/C_Strings.thy ===== *)
theory C_Strings
  imports IEEE_Float "HOL-Library.Sublist"
begin

text \<open>
  The functions of \<^verbatim>\<open>string.h\<close>, \<^verbatim>\<open>stdlib.h\<close> and \<^verbatim>\<open>stdio.h\<close> that the harness calls on strings:
  \<^verbatim>\<open>fgets\<close>, \<^verbatim>\<open>strtok\<close> with the one-character delimiters the source uses, \<^verbatim>\<open>strncmp\<close> and \<^verbatim>\<open>strstr\<close>
  as tests, \<^verbatim>\<open>atoi\<close> and \<^verbatim>\<open>strtod\<close> (which \<^verbatim>\<open>atof\<close> is), together with the printing of decimal
  numbers that \<^verbatim>\<open>atoi\<close> and \<^verbatim>\<open>strtod\<close> read back.  A string is the list of its characters without
  the terminating null.
\<close>

section \<open>Reading lines\<close>

abbreviation newline :: char where "newline \<equiv> CHR 0x0A"
abbreviation nul :: char where "nul \<equiv> CHR 0x00"

text \<open>At most \<open>k\<close> characters, up to and including a newline; and the rest of the file.\<close>

fun fgets :: "nat \<Rightarrow> string \<Rightarrow> string \<times> string" where
  "fgets 0 s = ([], s)"
| "fgets (Suc k) [] = ([], [])"
| "fgets (Suc k) (c # cs) = (if c = newline then ([c], cs)
     else (case fgets k cs of (l, r) \<Rightarrow> (c # l, r)))"

lemma fgets_length: "length (snd (fgets k s)) \<le> length s"
  by (induction k s rule: fgets.induct) (auto split: prod.splits)

lemma fgets_shorter: "s \<noteq> [] \<Longrightarrow> length (snd (fgets (Suc k) s)) < length s"
  using fgets_length [of k "tl s"] by (cases s) (auto split: prod.splits)

text \<open>The successive results of \<^verbatim>\<open>fgets(buf, k + 2, fp)\<close> until it returns the null pointer.\<close>

function fgets_all :: "nat \<Rightarrow> string \<Rightarrow> string list" where
  "fgets_all k s = (if s = [] then [] else (case fgets (Suc k) s of (l, r) \<Rightarrow> l # fgets_all k r))"
  by pat_completeness auto
termination
  by (relation "measure (\<lambda>(k, s). length s)") (auto dest: fgets_shorter split: prod.splits,
      metis fgets_shorter snd_conv)

declare fgets_all.simps [simp del]

lemma fgets_line: "newline \<notin> set l \<Longrightarrow> length l \<le> k \<Longrightarrow> fgets (Suc k) (l @ newline # r) = (l @ [newline], r)"
proof (induction l arbitrary: k)
  case (Cons c l)
  then obtain j where "k = Suc j" by (cases k) auto
  with Cons show ?case by auto
qed simp

text \<open>A file of short lines is read line by line.\<close>

definition file_of :: "string list \<Rightarrow> string" where
  "file_of ls = concat (map (\<lambda>l. l @ [newline]) ls)"

lemma fgets_all_file:
  "\<forall>l \<in> set ls. newline \<notin> set l \<and> length l \<le> k \<Longrightarrow> fgets_all k (file_of ls) = map (\<lambda>l. l @ [newline]) ls"
proof (induction ls)
  case (Cons l ls)
  then show ?case
    using fgets_line [of l k "file_of ls"] by (subst fgets_all.simps) (simp add: file_of_def)
qed (simp add: file_of_def fgets_all.simps)

section \<open>Searching and splitting\<close>

fun strstr :: "string \<Rightarrow> string \<Rightarrow> bool" where
  "strstr pat [] = (pat = [])"
| "strstr pat (c # cs) = (prefix pat (c # cs) \<or> strstr pat cs)"

definition strtok :: "char \<Rightarrow> string \<Rightarrow> (string \<times> string) option" where
  "strtok d s = (let s = dropWhile (\<lambda>c. c = d) s in
     if s = [] then None else Some (takeWhile (\<lambda>c. c \<noteq> d) s, drop 1 (dropWhile (\<lambda>c. c \<noteq> d) s)))"

lemma strstr_split:
  assumes "c \<notin> set pat" and "pat \<noteq> []"
  shows "strstr pat (xs @ c # ys) \<longleftrightarrow> strstr pat xs \<or> strstr pat ys"
proof (induction xs)
  case Nil
  show ?case using assms by (cases pat) auto
next
  case (Cons x xs)
  have "prefix pat ((x # xs) @ c # ys) \<longleftrightarrow> prefix pat (x # xs)"
    using assms(1) prefix_append [of pat "x # xs" "c # ys"] by (cases pat) (auto simp: prefix_Cons)
  with Cons show ?case by simp
qed

lemma strstr_no_head: "pat \<noteq> [] \<Longrightarrow> hd pat \<notin> set s \<Longrightarrow> \<not> strstr pat s"
  by (induction s) (auto simp: prefix_def Cons_eq_append_conv)

lemma until_delimiter:
  "d \<notin> set k \<Longrightarrow> takeWhile (\<lambda>c. c \<noteq> d) (k @ d # v) = k"
  "d \<notin> set k \<Longrightarrow> dropWhile (\<lambda>c. c \<noteq> d) (k @ d # v) = d # v"
  "d \<notin> set k \<Longrightarrow> takeWhile (\<lambda>c. c \<noteq> d) k = k"
  "d \<notin> set k \<Longrightarrow> dropWhile (\<lambda>c. c \<noteq> d) k = []"
  by (induction k) auto

lemma strtok_key:
  "d \<notin> set k \<Longrightarrow> k \<noteq> [] \<Longrightarrow> strtok d (k @ d # v) = Some (k, v)"
  by (cases k) (auto simp: strtok_def Let_def until_delimiter)

lemma strtok_value: "d \<notin> set v \<Longrightarrow> v \<noteq> [] \<Longrightarrow> strtok d v = Some (v, [])"
  by (cases v) (auto simp: strtok_def Let_def until_delimiter)

section \<open>Integers\<close>

definition is_space :: "char \<Rightarrow> bool" where
  "is_space c \<longleftrightarrow> c \<in> {CHR 0x20, CHR 0x09, CHR 0x0A, CHR 0x0B, CHR 0x0C, CHR 0x0D}"

definition is_digit :: "char \<Rightarrow> bool" where
  "is_digit c \<longleftrightarrow> 48 \<le> (of_char c :: nat) \<and> (of_char c :: nat) \<le> 57"

definition digit_val :: "char \<Rightarrow> int" where
  "digit_val c = int (of_char c) - 48"

definition digits_val :: "string \<Rightarrow> int" where
  "digits_val ds = foldl (\<lambda>n c. 10 * n + digit_val c) 0 ds"

definition split_sign :: "string \<Rightarrow> int \<times> string" where
  "split_sign s = (case s of [] \<Rightarrow> (1, [])
     | c # cs \<Rightarrow> if c = CHR ''-'' then (-1, cs) else if c = CHR ''+'' then (1, cs) else (1, c # cs))"

text \<open>A value that does not fit an \<^verbatim>\<open>int\<close> is undefined behaviour.\<close>

definition atoi :: "string \<Rightarrow> int res" where
  "atoi s = (case split_sign (dropWhile is_space s) of (sg, s) \<Rightarrow>
     chk_int (sg * digits_val (takeWhile is_digit s)))"

definition digit_char :: "nat \<Rightarrow> char" where
  "digit_char n = char_of (48 + n)"

fun dec :: "nat \<Rightarrow> string" where
  "dec n = (if n < 10 then [digit_char n] else dec (n div 10) @ [digit_char (n mod 10)])"

declare dec.simps [simp del]

lemma digit_char_props:
  assumes "n < 10"
  shows "is_digit (digit_char n)" "digit_val (digit_char n) = int n" "\<not> is_space (digit_char n)"
    "digit_char n \<notin> {CHR ''-'', CHR ''+'', CHR ''='', newline, nul}"
proof -
  have d: "(of_char (digit_char n) :: nat) = 48 + n"
    using assms by (simp add: digit_char_def of_char_of)
  show "is_digit (digit_char n)" "digit_val (digit_char n) = int n"
    using d assms by (simp_all add: is_digit_def digit_val_def)
  have "digit_char n \<noteq> c" if "(of_char c :: nat) < 48 \<or> 57 < (of_char c :: nat)" for c
    using that d assms by auto
  then show "\<not> is_space (digit_char n)" "digit_char n \<notin> {CHR ''-'', CHR ''+'', CHR ''='', newline, nul}"
    by (simp_all add: is_space_def)
qed

lemma dec_digits: "\<forall>c \<in> set (dec n). is_digit c"
proof (induction n rule: dec.induct)
  case (1 n)
  then show ?case by (subst dec.simps) (auto simp: digit_char_props)
qed

lemma dec_not_Nil [simp]: "dec n \<noteq> []"
  by (subst dec.simps) simp

lemma digits_val_snoc: "digits_val (ds @ [c]) = 10 * digits_val ds + digit_val c"
  by (simp add: digits_val_def)

lemma dec_val: "digits_val (dec n) = int n"
proof (induction n rule: dec.induct)
  case (1 n)
  show ?case
  proof (cases "n < 10")
    case True
    then show ?thesis by (subst dec.simps) (simp add: digits_val_def digit_char_props)
  next
    case False
    then have "dec n = dec (n div 10) @ [digit_char (n mod 10)]" by (subst dec.simps) simp
    moreover have "int n = int (10 * (n div 10) + n mod 10)" by simp
    ultimately show ?thesis
      using 1 False digit_char_props(2) [of "n mod 10"] unfolding of_nat_add of_nat_mult
      by (simp only: digits_val_snoc) simp
  qed
qed

lemma is_digit_not:
  "is_digit c \<Longrightarrow> \<not> is_space c \<and> c \<notin> {CHR ''-'', CHR ''+'', CHR ''='', CHR ''.'', newline, nul}"
  by (auto simp: is_digit_def is_space_def)

lemma dec_no: "c \<in> {CHR ''-'', CHR ''+'', CHR ''='', CHR ''.'', newline, nul} \<Longrightarrow> c \<notin> set (dec n)"
  using dec_digits [of n] is_digit_not by blast

lemma dec_head: "\<exists>c cs. dec n = c # cs \<and> is_digit c"
  using dec_digits [of n] by (cases "dec n") auto

lemma split_sign_dec: "split_sign (dropWhile is_space (dec n)) = (1, dec n)"
  using dec_head [of n] is_digit_not by (fastforce simp: split_sign_def)

lemma atoi_dec: "int n \<le> INT_MAX \<Longrightarrow> atoi (dec n) = Inr (int n)"
  using dec_digits [of n]
  by (simp add: atoi_def split_sign_dec dec_val chk_int_ok is_int_def takeWhile_eq_all_conv [THEN iffD2])

section \<open>Floating-point numbers\<close>

definition lower :: "char \<Rightarrow> char" where
  "lower c = (let n = of_char c :: nat in if 65 \<le> n \<and> n \<le> 90 then char_of (n + 32) else c)"

definition hex_digit :: "char \<Rightarrow> bool" where
  "hex_digit c \<longleftrightarrow> is_digit c \<or> (97 \<le> (of_char (lower c) :: nat) \<and> (of_char (lower c) :: nat) \<le> 102)"

definition hex_val :: "char \<Rightarrow> int" where
  "hex_val c = (if is_digit c then digit_val c else int (of_char (lower c)) - 87)"

definition number_val :: "int \<Rightarrow> (char \<Rightarrow> int) \<Rightarrow> string \<Rightarrow> int" where
  "number_val base val ds = foldl (\<lambda>n c. base * n + val c) 0 ds"

text \<open>The digits before and after the point, and what follows.\<close>

definition split_point :: "(char \<Rightarrow> bool) \<Rightarrow> string \<Rightarrow> string \<times> string \<times> string" where
  "split_point dig s = (case dropWhile dig s of [] \<Rightarrow> (takeWhile dig s, [], [])
     | c # t \<Rightarrow> if c = CHR ''.'' then (takeWhile dig s, takeWhile dig t, dropWhile dig t)
                 else (takeWhile dig s, [], c # t))"

definition exponent :: "char \<Rightarrow> string \<Rightarrow> int" where
  "exponent e s = (case s of [] \<Rightarrow> 0 | c # t \<Rightarrow> if lower c = e
     then (case split_sign t of (sg, u) \<Rightarrow> sg * digits_val (takeWhile is_digit u)) else 0)"

definition decimal_val :: "string \<Rightarrow> rat" where
  "decimal_val s = (case split_point is_digit s of (ip, fp, r) \<Rightarrow> if ip = [] \<and> fp = [] then 0
     else of_int (number_val 10 digit_val (ip @ fp)) * 10 powi (exponent (CHR ''e'') r - int (length fp)))"

definition hex_number :: "string \<Rightarrow> bool" where
  "hex_number s \<longleftrightarrow> prefix ''0x'' (map lower s) \<and> (case split_point hex_digit (drop 2 s) of (ip, fp, r) \<Rightarrow> ip \<noteq> [] \<or> fp \<noteq> [])"

definition hexadecimal_val :: "string \<Rightarrow> rat" where
  "hexadecimal_val s = (case split_point hex_digit (drop 2 s) of (ip, fp, r) \<Rightarrow>
     of_int (number_val 16 hex_val (ip @ fp)) * 2 powi (exponent (CHR ''p'') r - 4 * int (length fp)))"

definition strtod :: "string \<Rightarrow> f64" where
  "strtod s = (case split_sign (dropWhile is_space s) of (sg, s) \<Rightarrow>
     if prefix ''inf'' (map lower s) then (if sg = 1 then PInf else NInf)
     else if prefix ''nan'' (map lower s) then NaN
     else if hex_number s then rnd64 (of_int sg * hexadecimal_val s)
     else rnd64 (of_int sg * decimal_val s))"

lemma lower_digit: "is_digit c \<Longrightarrow> lower c = c"
  by (simp add: lower_def is_digit_def Let_def)

lemma digit_not_letter: "is_digit c \<Longrightarrow> c \<notin> {CHR ''i'', CHR ''n'', CHR ''x''}"
  by (auto simp: is_digit_def)

lemma digits_no_prefix:
  assumes "\<forall>c \<in> set s. is_digit c"
  shows "\<not> prefix ''inf'' (map lower s)" "\<not> prefix ''nan'' (map lower s)" "\<not> prefix ''0x'' (map lower s)"
proof -
  have "map lower s = s" using assms lower_digit by (induction s) auto
  moreover have "CHR ''i'' \<notin> set s" "CHR ''n'' \<notin> set s" "CHR ''x'' \<notin> set s"
    using assms digit_not_letter by blast+
  ultimately show "\<not> prefix ''inf'' (map lower s)" "\<not> prefix ''nan'' (map lower s)"
    "\<not> prefix ''0x'' (map lower s)"
    by (auto simp: prefix_def)
qed

lemma strtod_dec:
  assumes "int n \<le> 2 ^ 53"
  shows "strtod (dec n) = Fin (of_int (int n))"
proof -
  have d: "\<forall>c \<in> set (dec n). is_digit c" by (rule dec_digits)
  then have tw: "takeWhile is_digit (dec n) = dec n" "dropWhile is_digit (dec n) = []"
    by (simp_all add: takeWhile_eq_all_conv dropWhile_eq_Nil_conv)
  have "decimal_val (dec n) = of_int (int n)"
    using dec_val [of n] unfolding decimal_val_def split_point_def tw
    by (simp add: exponent_def number_val_def digits_val_def)
  moreover have "rnd64 (of_int (int n)) = Fin (of_int (int n))" using assms by (intro rnd64_exact) simp
  ultimately show ?thesis
    using digits_no_prefix [OF d] by (simp add: strtod_def split_sign_dec hex_number_def)
qed

end
