(* ===== verification/Input_File.thy ===== *)
theory Input_File
  imports Test_Types C_Strings
begin

text \<open>
  \<^verbatim>\<open>harness/RTMB_parse_in_file.c\<close>: the parser of the configuration file.  The state is the
  parameters filled so far, the flag \<^verbatim>\<open>newtest\<close> and the test entry being filled, \<open>None\<close> while the
  pointer is uninitialised.  A step either goes on or returns \<^verbatim>\<open>ERROR\<close>, in both cases with what has
  been entered.  The assertions are those of the source.
\<close>

section \<open>Setting one parameter\<close>

datatype param = NAME | DESC | ITERATIONS | CONFIG_TEST | THRESHOLD | REFERENCE_SCORE

datatype exp_vals =
    SRT_ACCEPTABLE_PERCENT | SRT_RANGE_PERCENT | SRT_MULTIPLIER
  | HRT_ACCEPTABLE_PERCENT | HRT_RANGE_PERCENT | HRT_MULTIPLIER
  | GRT_ACCEPTABLE_PERCENT | GRT_RANGE_PERCENT | GRT_MULTIPLIER

abbreviation TESTNAME_SIZE :: nat where "TESTNAME_SIZE \<equiv> 32"
abbreviation TESTDESC_SIZE :: nat where "TESTDESC_SIZE \<equiv> 64"

definition alloc_new_benchmark_test :: benchmark_test where
  "alloc_new_benchmark_test = \<lparr>bt_name = [], bt_desc = [], bt_iterations = 0, bt_config_test = 0,
     bt_threshold = 0, bt_reference_score = Fin 0\<rparr>"

definition insert_new_test_entry :: "input_params \<Rightarrow> benchmark_test \<Rightarrow> input_params" where
  "insert_new_test_entry p t = p\<lparr>ip_tests := t # ip_tests p\<rparr>"

text \<open>\<^verbatim>\<open>strcpy\<close> into an array, and a pointer that may be null.\<close>

definition strcpy :: "nat \<Rightarrow> string \<Rightarrow> string res" where
  "strcpy n s = (if length s < n then Inr s else Inl Out_of_bounds)"

definition nonnull :: "'a option \<Rightarrow> 'a res" where
  "nonnull p = (case p of None \<Rightarrow> Inl Null_deref | Some x \<Rightarrow> Inr x)"

definition set_param :: "benchmark_test \<Rightarrow> string \<Rightarrow> param \<Rightarrow> (int \<times> benchmark_test) res" where
  "set_param t v param = (case param of
       NAME \<Rightarrow> bind_res (strcpy TESTNAME_SIZE v) (\<lambda>s. Inr (0, t\<lparr>bt_name := s\<rparr>))
     | DESC \<Rightarrow> bind_res (strcpy TESTDESC_SIZE v) (\<lambda>s. Inr (0, t\<lparr>bt_desc := s\<rparr>))
     | ITERATIONS \<Rightarrow> bind_res (atoi v) (\<lambda>n. Inr (0, t\<lparr>bt_iterations := n\<rparr>))
     | CONFIG_TEST \<Rightarrow> bind_res (atoi v) (\<lambda>n. Inr (0, t\<lparr>bt_config_test := n\<rparr>))
     | THRESHOLD \<Rightarrow> bind_res (atoi v) (\<lambda>n. Inr (0, t\<lparr>bt_threshold := n\<rparr>))
     | REFERENCE_SCORE \<Rightarrow> (let x = strtod v in
         Inr (if feq x (Fin 0) then -1 else 0, t\<lparr>bt_reference_score := x\<rparr>)))"

definition set_input_params :: "benchmark_test \<Rightarrow> string \<Rightarrow> param \<Rightarrow> (int \<times> benchmark_test) res" where
  "set_input_params t line param = (case strtok (CHR ''='') line of None \<Rightarrow> Inr (-1, t)
     | Some (_, rest) \<Rightarrow> bind_res (nonnull (strtok (CHR ''='') rest)) (\<lambda>(v, _). set_param t v param))"

definition set_exp :: "rt_params \<Rightarrow> f64 \<Rightarrow> exp_vals \<Rightarrow> rt_params" where
  "set_exp p x vals = (case vals of
       SRT_ACCEPTABLE_PERCENT \<Rightarrow> p\<lparr>srt := (srt p)\<lparr>acceptable_percentage := to_f32 x\<rparr>\<rparr>
     | SRT_RANGE_PERCENT \<Rightarrow> p\<lparr>srt := (srt p)\<lparr>range_percentage := to_f32 x\<rparr>\<rparr>
     | SRT_MULTIPLIER \<Rightarrow> p\<lparr>srt := (srt p)\<lparr>multiplier := to_f32 x\<rparr>\<rparr>
     | HRT_ACCEPTABLE_PERCENT \<Rightarrow> p\<lparr>hrt := (hrt p)\<lparr>acceptable_percentage := to_f32 x\<rparr>\<rparr>
     | HRT_RANGE_PERCENT \<Rightarrow> p\<lparr>hrt := (hrt p)\<lparr>range_percentage := to_f32 x\<rparr>\<rparr>
     | HRT_MULTIPLIER \<Rightarrow> p\<lparr>hrt := (hrt p)\<lparr>multiplier := to_f32 x\<rparr>\<rparr>
     | GRT_ACCEPTABLE_PERCENT \<Rightarrow> p\<lparr>grt := (grt p)\<lparr>acceptable_percentage := to_f32 x\<rparr>\<rparr>
     | GRT_RANGE_PERCENT \<Rightarrow> p\<lparr>grt := (grt p)\<lparr>range_percentage := to_f32 x\<rparr>\<rparr>
     | GRT_MULTIPLIER \<Rightarrow> p\<lparr>grt := (grt p)\<lparr>multiplier := to_f32 x\<rparr>\<rparr>)"

definition set_exp_values :: "input_params \<Rightarrow> string \<Rightarrow> exp_vals \<Rightarrow> int \<times> input_params" where
  "set_exp_values p line vals = (case strtok (CHR ''='') line of None \<Rightarrow> (-1, p)
     | Some (_, rest) \<Rightarrow> (case strtok (CHR ''='') rest of None \<Rightarrow> (-1, p)
        | Some (v, _) \<Rightarrow> (0, p\<lparr>ip_vals := set_exp (ip_vals p) (strtod v) vals\<rparr>)))"

section \<open>One line\<close>

record parse_state =
  ps_params :: input_params
  ps_newtest :: bool
  ps_entry :: "benchmark_test option"

datatype outcome = Go_on parse_state | Return_error parse_state

definition after :: "int \<Rightarrow> parse_state \<Rightarrow> outcome" where
  "after rc st = (if rc = -1 then Return_error st else Go_on st)"

definition test_line :: "parse_state \<Rightarrow> string \<Rightarrow> param \<Rightarrow> outcome res" where
  "test_line st line param = bind_res (guard_res Assert_failed (ps_newtest st)) (\<lambda>_.
     bind_res (nonnull (ps_entry st)) (\<lambda>t. bind_res (set_input_params t line param) (\<lambda>(rc, t).
       Inr (after rc (st\<lparr>ps_entry := Some t\<rparr>)))))"

definition exp_line :: "parse_state \<Rightarrow> string \<Rightarrow> exp_vals \<Rightarrow> outcome res" where
  "exp_line st line vals = (case set_exp_values (ps_params st) line vals of (rc, p) \<Rightarrow>
     Inr (after rc (st\<lparr>ps_params := p\<rparr>)))"

text \<open>\<^verbatim>\<open>line[0]\<close> is the terminating null of an empty string.\<close>

definition first_char :: "string \<Rightarrow> char" where
  "first_char s = (case s of [] \<Rightarrow> nul | c # _ \<Rightarrow> c)"

definition parse_line :: "parse_state \<Rightarrow> string \<Rightarrow> outcome res" where
  "parse_line st line =
     (if first_char line = CHR ''#'' then Inr (Go_on st)
      else if first_char line = newline then Inr (Go_on st)
      else if first_char line = CHR '' '' then Inr (Go_on st)
      else if line = ''test'' then
        (if ps_newtest st then Inr (Return_error st)
         else Inr (Go_on (st\<lparr>ps_newtest := True, ps_entry := Some alloc_new_benchmark_test\<rparr>)))
      else if line = ''/test'' then
        (if \<not> ps_newtest st then Inr (Return_error st)
         else bind_res (nonnull (ps_entry st)) (\<lambda>t.
           Inr (Go_on (st\<lparr>ps_newtest := False, ps_params := insert_new_test_entry (ps_params st) t\<rparr>))))
      else if prefix ''name'' line then test_line st line NAME
      else if prefix ''desc'' line then test_line st line DESC
      else if strstr ''threshold'' line then test_line st line THRESHOLD
      else if strstr ''reference_score'' line then test_line st line REFERENCE_SCORE
      else if prefix ''iterations'' line then test_line st line ITERATIONS
      else if prefix ''config_test'' line then test_line st line CONFIG_TEST
      else if strstr ''soft.acceptable_percentage'' line then exp_line st line SRT_ACCEPTABLE_PERCENT
      else if strstr ''soft.range_percentage'' line then exp_line st line SRT_RANGE_PERCENT
      else if strstr ''soft.multiplier'' line then exp_line st line SRT_MULTIPLIER
      else if strstr ''hard.acceptable_percentage'' line then exp_line st line HRT_ACCEPTABLE_PERCENT
      else if strstr ''hard.range_percentage'' line then exp_line st line HRT_RANGE_PERCENT
      else if strstr ''hard.multiplier'' line then exp_line st line HRT_MULTIPLIER
      else if strstr ''guaranteed.acceptable_percentage'' line then exp_line st line GRT_ACCEPTABLE_PERCENT
      else if strstr ''guaranteed.range_percentage'' line then exp_line st line GRT_RANGE_PERCENT
      else if strstr ''guaranteed.multiplier'' line then exp_line st line GRT_MULTIPLIER
      else Inr (Return_error st))"

section \<open>The file\<close>

text \<open>
  What \<^verbatim>\<open>fgets\<close> read, as a string without its newline.  A line that starts with a null character
  has length 0, and \<^verbatim>\<open>input_line[len - 1]\<close> is in front of the buffer.
\<close>

definition chomp :: "string \<Rightarrow> string res" where
  "chomp chunk = (let s = takeWhile (\<lambda>c. c \<noteq> nul) chunk in
     if s = [] then Inl Out_of_bounds else Inr (if last s = newline then butlast s else s))"

fun parse_lines :: "parse_state \<Rightarrow> string list \<Rightarrow> outcome res" where
  "parse_lines st [] = Inr (Go_on st)"
| "parse_lines st (c # cs) = bind_res (chomp c) (\<lambda>line. bind_res (parse_line st line) (\<lambda>r.
     case r of Go_on st' \<Rightarrow> parse_lines st' cs | Return_error st' \<Rightarrow> Inr (Return_error st')))"

text \<open>\<open>None\<close> is a file that cannot be opened; \<^verbatim>\<open>MAX_INPUT_LINE_SIZE\<close> is 1024.\<close>

definition parse_input_file :: "string option \<Rightarrow> input_params \<Rightarrow> (int \<times> input_params) res" where
  "parse_input_file file p = (case file of None \<Rightarrow> Inr (-1, p)
     | Some content \<Rightarrow> bind_res (parse_lines \<lparr>ps_params = p, ps_newtest = False, ps_entry = None\<rparr>
         (fgets_all 1022 content)) (\<lambda>r. case r of Go_on st \<Rightarrow> Inr (0, ps_params st)
           | Return_error st \<Rightarrow> Inr (-1, ps_params st)))"

section \<open>Rendering\<close>

text \<open>The files the documentation of the configuration describes, as data.\<close>

record test_spec =
  sp_name :: string
  sp_desc :: string
  sp_iterations :: nat
  sp_config :: nat
  sp_threshold :: nat
  sp_reference :: nat

definition key_line :: "string \<Rightarrow> string \<Rightarrow> string" where
  "key_line k v = k @ CHR ''='' # v"

definition render_test :: "test_spec \<Rightarrow> string list" where
  "render_test t = [''test'', key_line ''name'' (sp_name t), key_line ''desc'' (sp_desc t),
     key_line ''iterations'' (dec (sp_iterations t)), key_line ''config_test'' (dec (sp_config t)),
     key_line ''threshold'' (dec (sp_threshold t)), key_line ''reference_score'' (dec (sp_reference t)), ''/test'']"

fun exp_key :: "exp_vals \<Rightarrow> string" where
  "exp_key SRT_ACCEPTABLE_PERCENT = ''soft.acceptable_percentage''"
| "exp_key SRT_RANGE_PERCENT = ''soft.range_percentage''"
| "exp_key SRT_MULTIPLIER = ''soft.multiplier''"
| "exp_key HRT_ACCEPTABLE_PERCENT = ''hard.acceptable_percentage''"
| "exp_key HRT_RANGE_PERCENT = ''hard.range_percentage''"
| "exp_key HRT_MULTIPLIER = ''hard.multiplier''"
| "exp_key GRT_ACCEPTABLE_PERCENT = ''guaranteed.acceptable_percentage''"
| "exp_key GRT_RANGE_PERCENT = ''guaranteed.range_percentage''"
| "exp_key GRT_MULTIPLIER = ''guaranteed.multiplier''"

definition render_exp :: "exp_vals \<times> nat \<Rightarrow> string" where
  "render_exp e = key_line (exp_key (fst e)) (dec (snd e))"

definition entry_of :: "test_spec \<Rightarrow> benchmark_test" where
  "entry_of t = \<lparr>bt_name = sp_name t, bt_desc = sp_desc t, bt_iterations = int (sp_iterations t),
     bt_config_test = int (sp_config t), bt_threshold = int (sp_threshold t),
     bt_reference_score = Fin (of_int (int (sp_reference t)))\<rparr>"

definition word_ok :: "nat \<Rightarrow> string \<Rightarrow> bool" where
  "word_ok n s \<longleftrightarrow> s \<noteq> [] \<and> length s < n \<and> CHR ''='' \<notin> set s \<and> newline \<notin> set s \<and> nul \<notin> set s"

definition spec_ok :: "test_spec \<Rightarrow> bool" where
  "spec_ok t \<longleftrightarrow> word_ok TESTNAME_SIZE (sp_name t) \<and> word_ok TESTDESC_SIZE (sp_desc t)
     \<and> int (sp_iterations t) \<le> INT_MAX \<and> int (sp_config t) \<le> INT_MAX \<and> int (sp_threshold t) \<le> INT_MAX
     \<and> 0 < sp_reference t \<and> int (sp_reference t) \<le> INT_MAX"

section \<open>Lines\<close>

text \<open>A line that \<^verbatim>\<open>fgets\<close> delivers whole.\<close>

definition line_ok :: "string \<Rightarrow> bool" where
  "line_ok l \<longleftrightarrow> newline \<notin> set l \<and> nul \<notin> set l \<and> length l \<le> 1022"

lemma chomp_line: "line_ok l \<Longrightarrow> chomp (l @ [newline]) = Inr l"
proof -
  assume l: "line_ok l"
  then have "takeWhile (\<lambda>c. c \<noteq> nul) (l @ [newline]) = l @ [newline]"
    unfolding takeWhile_eq_all_conv line_ok_def by auto
  then show ?thesis unfolding chomp_def Let_def by simp
qed

definition parse_text :: "parse_state \<Rightarrow> string list \<Rightarrow> outcome res" where
  "parse_text st ls = parse_lines st (map (\<lambda>l. l @ [newline]) ls)"

lemma parse_text_Nil [simp]: "parse_text st [] = Inr (Go_on st)"
  by (simp add: parse_text_def)

lemma parse_text_Cons:
  "line_ok l \<Longrightarrow> parse_text st (l # ls) = bind_res (parse_line st l) (\<lambda>r.
     case r of Go_on st' \<Rightarrow> parse_text st' ls | Return_error st' \<Rightarrow> Inr (Return_error st'))"
  by (auto simp: parse_text_def chomp_line bind_res_def split: sum.splits outcome.splits)

lemma parse_text_step:
  "line_ok l \<Longrightarrow> parse_line st l = Inr (Go_on st') \<Longrightarrow> parse_text st (l # ls) = parse_text st' ls"
  by (simp add: parse_text_Cons)

lemma parse_file_text:
  assumes "\<forall>l \<in> set ls. line_ok l"
  shows "parse_input_file (Some (file_of ls)) p =
    bind_res (parse_text \<lparr>ps_params = p, ps_newtest = False, ps_entry = None\<rparr> ls)
      (\<lambda>r. case r of Go_on st \<Rightarrow> Inr (0, ps_params st) | Return_error st \<Rightarrow> Inr (-1, ps_params st))"
proof -
  have "\<forall>l \<in> set ls. newline \<notin> set l \<and> length l \<le> 1022" using assms by (simp add: line_ok_def)
  then have "fgets_all 1022 (file_of ls) = map (\<lambda>l. l @ [newline]) ls" by (rule fgets_all_file)
  then show ?thesis by (simp add: parse_input_file_def parse_text_def)
qed

text \<open>Splitting a key line.\<close>

lemma key_line_value:
  assumes "CHR ''='' \<notin> set k" "k \<noteq> []" "CHR ''='' \<notin> set v" "v \<noteq> []"
  shows "strtok (CHR ''='') (key_line k v) = Some (k, v) \<and> strtok (CHR ''='') v = Some (v, [])"
  using assms by (simp add: key_line_def strtok_key strtok_value)

lemma dec_length: "int n \<le> INT_MAX \<Longrightarrow> length (dec n) \<le> 10"
proof -
  have "n < 10 ^ Suc k \<Longrightarrow> length (dec n) \<le> Suc k" for k
  proof (induction k arbitrary: n)
    case 0
    then show ?case by (simp add: dec.simps)
  next
    case (Suc k)
    then have "n div 10 < 10 ^ Suc k" by (simp add: less_mult_imp_div_less)
    with Suc.IH [of "n div 10"] show ?case by (subst dec.simps) simp
  qed
  from this [of 9] show "int n \<le> INT_MAX \<Longrightarrow> ?thesis" by simp
qed

lemma dec_chars [simp]: "CHR ''='' \<notin> set (dec n)" "newline \<notin> set (dec n)" "nul \<notin> set (dec n)"
  using dec_no by simp_all

lemma dec_strstr: "pat \<noteq> [] \<Longrightarrow> \<not> is_digit (hd pat) \<Longrightarrow> \<not> strstr pat (dec n)"
  using strstr_no_head [of pat "dec n"] dec_digits [of n] by auto

text \<open>A pattern of letters in a key line with a number is a pattern in the key.\<close>

lemma strstr_key_line:
  "CHR ''='' \<notin> set pat \<Longrightarrow> pat \<noteq> [] \<Longrightarrow> \<not> is_digit (hd pat) \<Longrightarrow>
     strstr pat (key_line k (dec n)) \<longleftrightarrow> strstr pat k"
  by (simp add: key_line_def strstr_split dec_strstr)

lemma not_digits [simp]:
  "\<not> is_digit (CHR ''t'')" "\<not> is_digit (CHR ''r'')" "\<not> is_digit (CHR ''s'')" "\<not> is_digit (CHR ''h'')"
  "\<not> is_digit (CHR ''g'')"
  by (simp_all add: is_digit_def)

section \<open>Parsing what was rendered\<close>

lemma set_param_word:
  "word_ok TESTNAME_SIZE v \<Longrightarrow> set_param t v NAME = Inr (0, t\<lparr>bt_name := v\<rparr>)"
  "word_ok TESTDESC_SIZE v \<Longrightarrow> set_param t v DESC = Inr (0, t\<lparr>bt_desc := v\<rparr>)"
  by (simp_all add: set_param_def word_ok_def strcpy_def)

lemma set_param_number:
  "int n \<le> INT_MAX \<Longrightarrow> set_param t (dec n) ITERATIONS = Inr (0, t\<lparr>bt_iterations := int n\<rparr>)"
  "int n \<le> INT_MAX \<Longrightarrow> set_param t (dec n) CONFIG_TEST = Inr (0, t\<lparr>bt_config_test := int n\<rparr>)"
  "int n \<le> INT_MAX \<Longrightarrow> set_param t (dec n) THRESHOLD = Inr (0, t\<lparr>bt_threshold := int n\<rparr>)"
  "0 < n \<Longrightarrow> int n \<le> INT_MAX \<Longrightarrow> set_param t (dec n) REFERENCE_SCORE
     = Inr (0, t\<lparr>bt_reference_score := Fin (of_int (int n))\<rparr>)"
  by (simp_all add: set_param_def atoi_dec strtod_dec Let_def f64_cmp)

lemma test_line_ok:
  assumes "ps_newtest st" "ps_entry st = Some t" and "CHR ''='' \<notin> set k" "k \<noteq> []" "CHR ''='' \<notin> set v" "v \<noteq> []"
    and "set_param t v param = Inr (0, t')"
  shows "test_line st (key_line k v) param = Inr (Go_on (st\<lparr>ps_entry := Some t'\<rparr>))"
  using assms key_line_value [OF assms(3-6)]
  by (simp add: test_line_def set_input_params_def nonnull_def after_def)

text \<open>Which branch a key line takes.\<close>

lemma parse_line_keys:
  "parse_line st (key_line ''name'' (v)) = test_line st (key_line ''name'' (v)) NAME"
  "parse_line st (key_line ''desc'' (v)) = test_line st (key_line ''desc'' (v)) DESC"
  "parse_line st (key_line ''iterations'' (dec n)) = test_line st (key_line ''iterations'' (dec n)) ITERATIONS"
  "parse_line st (key_line ''config_test'' (dec n)) = test_line st (key_line ''config_test'' (dec n)) CONFIG_TEST"
  "parse_line st (key_line ''threshold'' (dec n)) = test_line st (key_line ''threshold'' (dec n)) THRESHOLD"
  "parse_line st (key_line ''reference_score'' (dec n)) = test_line st (key_line ''reference_score'' (dec n)) REFERENCE_SCORE"
  by (simp_all add: parse_line_def key_line_def first_char_def dec_strstr)

lemma parse_key_lines:
  assumes "ps_newtest st" "ps_entry st = Some t"
  shows "word_ok TESTNAME_SIZE v \<Longrightarrow> parse_line st (key_line ''name'' (v))
      = Inr (Go_on (st\<lparr>ps_entry := Some (t\<lparr>bt_name := v\<rparr>)\<rparr>))"
    and "word_ok TESTDESC_SIZE v \<Longrightarrow> parse_line st (key_line ''desc'' (v))
      = Inr (Go_on (st\<lparr>ps_entry := Some (t\<lparr>bt_desc := v\<rparr>)\<rparr>))"
    and "int n \<le> INT_MAX \<Longrightarrow> parse_line st (key_line ''iterations'' (dec n))
      = Inr (Go_on (st\<lparr>ps_entry := Some (t\<lparr>bt_iterations := int n\<rparr>)\<rparr>))"
    and "int n \<le> INT_MAX \<Longrightarrow> parse_line st (key_line ''config_test'' (dec n))
      = Inr (Go_on (st\<lparr>ps_entry := Some (t\<lparr>bt_config_test := int n\<rparr>)\<rparr>))"
    and "int n \<le> INT_MAX \<Longrightarrow> parse_line st (key_line ''threshold'' (dec n))
      = Inr (Go_on (st\<lparr>ps_entry := Some (t\<lparr>bt_threshold := int n\<rparr>)\<rparr>))"
    and "0 < n \<and> int n \<le> INT_MAX \<Longrightarrow> parse_line st (key_line ''reference_score'' (dec n))
      = Inr (Go_on (st\<lparr>ps_entry := Some (t\<lparr>bt_reference_score := Fin (of_int (int n))\<rparr>)\<rparr>))"
  unfolding parse_line_keys
  by (rule test_line_ok [OF assms]; simp add: set_param_word set_param_number word_ok_def)+

lemma parse_exp_line:
  assumes "int n \<le> INT_MAX"
  shows "parse_line st (render_exp (k, n)) = Inr (Go_on (st\<lparr>ps_params := (ps_params st)\<lparr>ip_vals :=
    set_exp (ip_vals (ps_params st)) (Fin (of_int (int n))) k\<rparr>\<rparr>))"
proof -
  have "parse_line st (render_exp (k, n)) = exp_line st (render_exp (k, n)) k"
    by (cases k; simp add: render_exp_def parse_line_def key_line_def first_char_def dec_strstr)
  moreover have "strtok (CHR ''='') (render_exp (k, n)) = Some (exp_key k, dec n) \<and> strtok (CHR ''='') (dec n) = Some (dec n, [])"
    unfolding render_exp_def fst_conv snd_conv by (rule key_line_value) (cases k; simp)+
  ultimately show ?thesis
    using strtod_dec [of n] assms by (simp add: exp_line_def set_exp_values_def after_def)
qed

lemma key_line_ok: "line_ok k \<Longrightarrow> line_ok v \<Longrightarrow> length k + length v < 1022 \<Longrightarrow> line_ok (key_line k v)"
  by (simp add: line_ok_def key_line_def)

lemma render_test_lines: "spec_ok t \<Longrightarrow> \<forall>l \<in> set (render_test t). line_ok l"
  using dec_length [of "sp_iterations t"] dec_length [of "sp_config t"] dec_length [of "sp_threshold t"]
    dec_length [of "sp_reference t"]
  by (auto simp: render_test_def spec_ok_def word_ok_def line_ok_def key_line_def)

lemma render_exp_line: "int n \<le> INT_MAX \<Longrightarrow> line_ok (render_exp (k, n))"
  using dec_length [of n] by (cases k) (simp_all add: render_exp_def line_ok_def key_line_def)

text \<open>A rendered test is entered at the head of the list.\<close>

lemma parse_rendered_test:
  assumes "spec_ok t" and "\<not> ps_newtest st"
  shows "\<exists>e. parse_text st (render_test t @ ls) = parse_text (st\<lparr>ps_params :=
    insert_new_test_entry (ps_params st) (entry_of t), ps_entry := e\<rparr>) ls"
proof -
  let ?st1 = "st\<lparr>ps_newtest := True, ps_entry := Some alloc_new_benchmark_test\<rparr>"
  have ok: "\<And>l. l \<in> set (render_test t) \<Longrightarrow> line_ok l" using render_test_lines [OF assms(1)] by blast
  note step = parse_text_step [OF ok]
  have "parse_line st ''test'' = Inr (Go_on ?st1)"
    using assms(2) by (simp add: parse_line_def first_char_def)
  note s1 = step [OF _ this]
  have p: "spec_ok t" by fact
  note keys = parse_key_lines [THEN step [rotated]]
  have "parse_text st (render_test t @ ls) = parse_text (st\<lparr>ps_newtest := True, ps_entry := Some (entry_of t)\<rparr>) (''/test'' # ls)"
    using p unfolding render_test_def
    apply (simp add: s1 render_test_def spec_ok_def)
    apply (subst keys(1), simp_all add: render_test_def spec_ok_def)
    apply (subst keys(2), simp_all add: render_test_def)
    apply (subst keys(3), simp_all add: render_test_def)
    apply (subst keys(4), simp_all add: render_test_def)
    apply (subst keys(5), simp_all add: render_test_def)
    apply (subst keys(6), simp_all add: render_test_def)
    apply (simp add: entry_of_def alloc_new_benchmark_test_def)
    done
  also have "\<dots> = parse_text (st\<lparr>ps_params := insert_new_test_entry (ps_params st) (entry_of t), ps_entry := Some (entry_of t)\<rparr>) ls"
    using assms(2) by (subst parse_text_step) (simp_all add: line_ok_def parse_line_def first_char_def nonnull_def)
  finally show ?thesis by blast
qed

lemma parse_rendered_tests:
  assumes "\<forall>t \<in> set ts. spec_ok t" and "\<not> ps_newtest st"
  shows "\<exists>st'. parse_text st (concat (map render_test ts) @ ls) = parse_text st' ls \<and> \<not> ps_newtest st'
    \<and> ps_params st' = (ps_params st)\<lparr>ip_tests := rev (map entry_of ts) @ ip_tests (ps_params st)\<rparr>"
  using assms
proof (induction ts arbitrary: st)
  case Nil
  then show ?case by auto
next
  case (Cons t ts)
  obtain e where e: "parse_text st (render_test t @ concat (map render_test ts) @ ls) = parse_text (st\<lparr>ps_params :=
      insert_new_test_entry (ps_params st) (entry_of t), ps_entry := e\<rparr>) (concat (map render_test ts) @ ls)"
    using parse_rendered_test [of t st "concat (map render_test ts) @ ls"] Cons.prems by auto
  let ?st = "st\<lparr>ps_params := insert_new_test_entry (ps_params st) (entry_of t), ps_entry := e\<rparr>"
  obtain st' where "parse_text ?st (concat (map render_test ts) @ ls) = parse_text st' ls" "\<not> ps_newtest st'"
    "ps_params st' = (ps_params ?st)\<lparr>ip_tests := rev (map entry_of ts) @ ip_tests (ps_params ?st)\<rparr>"
    using Cons.IH [of ?st] Cons.prems by auto
  with e show ?case by (auto simp: insert_new_test_entry_def)
qed

lemma parse_rendered_exps:
  assumes "\<forall>e \<in> set es. int (snd e) \<le> INT_MAX"
  shows "\<exists>st'. parse_text st (map render_exp es) = Inr (Go_on st') \<and> ps_params st' = (ps_params st)\<lparr>ip_vals :=
    fold (\<lambda>(k, n) p. set_exp p (Fin (of_int (int n))) k) es (ip_vals (ps_params st))\<rparr>"
  using assms
proof (induction es arbitrary: st)
  case (Cons e es)
  obtain k n where e: "e = (k, n)" by fastforce
  with Cons.prems have n: "int n \<le> INT_MAX" by simp
  let ?st = "st\<lparr>ps_params := (ps_params st)\<lparr>ip_vals := set_exp (ip_vals (ps_params st)) (Fin (of_int (int n))) k\<rparr>\<rparr>"
  have "parse_text st (map render_exp (e # es)) = parse_text ?st (map render_exp es)"
    using parse_text_step [OF render_exp_line [OF n] parse_exp_line [OF n], of st k] e by simp
  moreover obtain st' where "parse_text ?st (map render_exp es) = Inr (Go_on st')" "ps_params st' = (ps_params ?st)\<lparr>ip_vals :=
    fold (\<lambda>(k, n) p. set_exp p (Fin (of_int (int n))) k) es (ip_vals (ps_params ?st))\<rparr>"
    using Cons.IH [of ?st] Cons.prems by auto
  ultimately show ?case using e by auto
qed simp

section \<open>Comments and blank lines\<close>

definition skipped :: "string \<Rightarrow> bool" where
  "skipped l \<longleftrightarrow> line_ok l \<and> l \<noteq> [] \<and> (hd l = CHR ''#'' \<or> hd l = CHR '' '')"

lemma parse_text_skip: "skipped l \<Longrightarrow> parse_text st (l # ls) = parse_text st ls"
proof (rule parse_text_step)
  assume "skipped l"
  then obtain c cs where "l = c # cs" "c = CHR ''#'' \<or> c = CHR '' ''" by (cases l) (auto simp: skipped_def)
  then have "first_char l = CHR ''#'' \<or> first_char l = CHR '' ''" by (auto simp: first_char_def)
  then show "parse_line st l = Inr (Go_on st)" unfolding parse_line_def by (elim disjE) simp_all
qed (simp add: skipped_def)

lemma parse_text_skips: "\<forall>l \<in> set ls. line_ok l \<Longrightarrow> parse_text st (filter (\<lambda>l. \<not> skipped l) ls) = parse_text st ls"
proof (induction ls arbitrary: st)
  case (Cons l ls)
  then have IH: "parse_text st (filter (\<lambda>l. \<not> skipped l) ls) = parse_text st ls" for st by simp
  show ?case
  proof (cases "skipped l")
    case True
    then show ?thesis by (simp add: IH parse_text_skip)
  next
    case False
    then show ?thesis using Cons.prems
      by (cases "parse_line st l") (auto simp: IH parse_text_Cons split: outcome.split)
  qed
qed simp

text \<open>The parser is an inverse of rendering.\<close>

lemma parse_file_rendered:
  assumes "\<forall>t \<in> set ts. spec_ok t" and "\<forall>e \<in> set es. int (snd e) \<le> INT_MAX"
  shows "parse_input_file (Some (file_of (concat (map render_test ts) @ map render_exp es))) p
    = Inr (0, \<lparr>ip_tests = rev (map entry_of ts) @ ip_tests p,
               ip_vals = fold (\<lambda>(k, n) v. set_exp v (Fin (of_int (int n))) k) es (ip_vals p)\<rparr>)"
proof -
  let ?ls = "concat (map render_test ts) @ map render_exp es"
  have "\<forall>l \<in> set ?ls. line_ok l"
    using assms render_test_lines render_exp_line by fastforce
  note whole = parse_file_text [OF this, of p]
  obtain st where st: "parse_text \<lparr>ps_params = p, ps_newtest = False, ps_entry = None\<rparr> ?ls = parse_text st (map render_exp es)"
    "ps_params st = p\<lparr>ip_tests := rev (map entry_of ts) @ ip_tests p\<rparr>"
    using parse_rendered_tests [OF assms(1), of "\<lparr>ps_params = p, ps_newtest = False, ps_entry = None\<rparr>"] by auto
  then show ?thesis
    using whole parse_rendered_exps [OF assms(2), of st] by auto
qed

lemma parse_empty_line:
  assumes "\<forall>t \<in> set ts. spec_ok t" and "\<forall>l \<in> set rest. line_ok l"
  shows "parse_input_file (Some (file_of (concat (map render_test ts) @ [] # rest))) p
    = Inr (-1, p\<lparr>ip_tests := rev (map entry_of ts) @ ip_tests p\<rparr>)"
proof -
  have "\<forall>l \<in> set (concat (map render_test ts) @ [] # rest). line_ok l"
    using assms render_test_lines by (fastforce simp: line_ok_def)
  note whole = parse_file_text [OF this, of p]
  obtain st where st: "parse_text \<lparr>ps_params = p, ps_newtest = False, ps_entry = None\<rparr> (concat (map render_test ts) @ [] # rest)
      = parse_text st ([] # rest)" "ps_params st = p\<lparr>ip_tests := rev (map entry_of ts) @ ip_tests p\<rparr>"
    using parse_rendered_tests [OF assms(1), of "\<lparr>ps_params = p, ps_newtest = False, ps_entry = None\<rparr>" "[] # rest"] by auto
  have "parse_line st [] = Inr (Return_error st)" by (simp add: parse_line_def first_char_def)
  then have "parse_text st ([] # rest) = Inr (Return_error st)" by (simp add: parse_text_Cons line_ok_def)
  with st whole show ?thesis by simp
qed

section \<open>Properties\<close>

text \<open>
  C23: Parsing a file of well-formed test entries followed by percentage lines succeeds and gives
  exactly these tests, the last of the file first, in front of the tests already known, and the
  percentages of the lines.
\<close>

theorem parse_rendered_file:
  assumes "\<forall>t \<in> set ts. spec_ok t" and "\<forall>e \<in> set es. int (snd e) \<le> INT_MAX"
  shows "parse_input_file (Some (file_of (concat (map render_test ts) @ map render_exp es))) p
    = Inr (0, \<lparr>ip_tests = rev (map entry_of ts) @ ip_tests p,
               ip_vals = fold (\<lambda>(k, n) v. set_exp v (Fin (of_int (int n))) k) es (ip_vals p)\<rparr>)"
  using assms by (rule parse_file_rendered)

definition no_params :: input_params where
  "no_params = (let v = \<lparr>acceptable_percentage = Fin 0, range_percentage = Fin 0, multiplier = Fin 0\<rparr> in
     \<lparr>ip_tests = [], ip_vals = \<lparr>hrt = v, srt = v, grt = v\<rparr>\<rparr>)"

definition sample_spec :: test_spec where
  "sample_spec = \<lparr>sp_name = ''timer_config'', sp_desc = ''Determines the accuracy of the timer.'',
     sp_iterations = 1000, sp_config = 1, sp_threshold = 8, sp_reference = 1000000\<rparr>"

theorem parse_rendered_file_witness:
  "parse_input_file (Some (file_of (concat (map render_test [sample_spec]) @ map render_exp [(SRT_ACCEPTABLE_PERCENT, 99)])))
      no_params = Inr (0, \<lparr>ip_tests = rev (map entry_of [sample_spec]) @ ip_tests no_params,
        ip_vals = fold (\<lambda>(k, n) v. set_exp v (Fin (of_int (int n))) k) [(SRT_ACCEPTABLE_PERCENT, 99)] (ip_vals no_params)\<rparr>)"
  by (rule parse_rendered_file) (simp_all add: spec_ok_def word_ok_def sample_spec_def)

text \<open>
  Lines that start with a number sign or a blank have no influence, wherever they stand; an
  empty line makes the parser return \<^verbatim>\<open>ERROR\<close> with the tests entered so far.
\<close>

lemma comments_ignored:
  assumes "\<forall>l \<in> set ls. line_ok l"
  shows "parse_input_file (Some (file_of ls)) p = parse_input_file (Some (file_of (filter (\<lambda>l. \<not> skipped l) ls))) p"
  using assms parse_text_skips [of ls] by (simp add: parse_file_text)

lemma comments_ignored_witness:
  "parse_input_file (Some (file_of [''# a comment'', '' x'', ''test''])) no_params
     = parse_input_file (Some (file_of (filter (\<lambda>l. \<not> skipped l) [''# a comment'', '' x'', ''test'']))) no_params"
  by (rule comments_ignored) (simp add: line_ok_def)

text \<open>
  The parser stops at the first empty line with \<^verbatim>\<open>ERROR\<close>, although the source means to skip
  it: whatever follows is not read.
\<close>

lemma empty_line_is_error:
  assumes "\<forall>t \<in> set ts. spec_ok t" and "\<forall>l \<in> set rest. line_ok l"
  shows "parse_input_file (Some (file_of (concat (map render_test ts) @ [] # rest))) p
    = Inr (-1, p\<lparr>ip_tests := rev (map entry_of ts) @ ip_tests p\<rparr>)"
  using assms by (rule parse_empty_line)

lemma empty_line_is_error_witness:
  "parse_input_file (Some (file_of (concat (map render_test [sample_spec]) @ [] # [''test'', ''/test'']))) no_params
    = Inr (-1, no_params\<lparr>ip_tests := rev (map entry_of [sample_spec]) @ ip_tests no_params\<rparr>)"
  by (rule empty_line_is_error) (simp_all add: spec_ok_def word_ok_def sample_spec_def line_ok_def)

text \<open>
  A test name of 32 characters or more overruns its array, a key without a value
  dereferences the null pointer, and a parameter outside a test fails the assertion.
\<close>

lemma parse_errors:
  assumes "line_ok v" and "CHR ''='' \<notin> set v" and "TESTNAME_SIZE \<le> length v" and "length v \<le> 1000"
  shows "parse_input_file (Some (file_of [''test'', key_line ''name'' v])) p = Inl Out_of_bounds
    \<and> parse_input_file (Some (file_of [''test'', ''name=''])) p = Inl Null_deref
    \<and> parse_input_file (Some (file_of [key_line ''name'' v])) p = Inl Assert_failed"
proof -
  let ?init = "\<lparr>ps_params = p, ps_newtest = False, ps_entry = None\<rparr>"
  let ?st = "?init\<lparr>ps_newtest := True, ps_entry := Some alloc_new_benchmark_test\<rparr>"
  have ok: "line_ok ''test''" "line_ok (key_line ''name'' v)" "line_ok ''name=''"
    using assms by (simp_all add: line_ok_def key_line_def)
  have "parse_line ?init ''test'' = Inr (Go_on ?st)" by (simp add: parse_line_def first_char_def)
  then have t: "parse_text ?init (''test'' # ls) = parse_text ?st ls" for ls
    by (rule parse_text_step [OF ok(1)])
  have v: "v \<noteq> []" using assms(3) by (cases v) auto
  have "parse_line ?st (key_line ''name'' v) = Inl Out_of_bounds"
    unfolding parse_line_keys using key_line_value [of "''name''" v] assms v
    by (simp add: test_line_def nonnull_def set_input_params_def set_param_def strcpy_def)
  moreover have "parse_line ?st ''name='' = Inl Null_deref"
    by (simp add: parse_line_def first_char_def test_line_def nonnull_def set_input_params_def strtok_def Let_def)
  moreover have "parse_line ?init (key_line ''name'' v) = Inl Assert_failed"
    unfolding parse_line_keys by (simp add: test_line_def)
  ultimately show ?thesis
    using ok t by (simp add: parse_file_text parse_text_Cons)
qed

lemma parse_errors_witness:
  "parse_input_file (Some (file_of [''test'', key_line ''name'' (replicate 40 (CHR ''x''))])) no_params = Inl Out_of_bounds
    \<and> parse_input_file (Some (file_of [''test'', ''name=''])) no_params = Inl Null_deref
    \<and> parse_input_file (Some (file_of [key_line ''name'' (replicate 40 (CHR ''x''))])) no_params = Inl Assert_failed"
  by (rule parse_errors) (simp_all add: line_ok_def)

end
