(* ===== verification/Cmd_Line.thy ===== *)
theory Cmd_Line
  imports Test_Types C_Strings
begin

text \<open>
  \<^verbatim>\<open>harness/RTMB_rd_cmd_line.c\<close> and \<^verbatim>\<open>util/RTMB_print.c\<close>: the command line parser and the
  printing that depends on the verbosity.  The arguments are the list after \<^verbatim>\<open>argv[0]\<close>; the
  character buffers of \<^verbatim>\<open>MAXPATHLEN + 1\<close> bytes are checked when they are written.  What goes to
  standard output is a list of messages; the texts of the usage message and of the list of tests
  are left out.
\<close>

abbreviation MAXPATHLEN :: nat where "MAXPATHLEN \<equiv> 4096"

section \<open>Printing\<close>

text \<open>
  The value returned is \<open>None\<close> when nothing is printed: the variable is then uninitialised.
\<close>

definition RTMB_verbose_printf :: "string list \<Rightarrow> cmd_line_args \<Rightarrow> int \<Rightarrow> string \<Rightarrow> int option \<times> string list" where
  "RTMB_verbose_printf out ca lvl msg = (if verbose ca = 1
     then (if verbose_lvl ca \<ge> lvl then (Some (int (length msg)), out @ [msg]) else (None, out))
     else (None, out))"

definition RTMB_printf :: "string list \<Rightarrow> string \<Rightarrow> int \<times> string list" where
  "RTMB_printf out msg = (int (length msg), out @ [msg])"

fun numbered :: "nat \<Rightarrow> string list \<Rightarrow> string list" where
  "numbered i [] = []"
| "numbered i (t # ts) = (dec i @ ''.'' @ [CHR 0x09] @ t @ [newline]) # numbered (Suc i) ts"

definition selected_messages :: "cmd_line_args \<Rightarrow> string list" where
  "selected_messages ca =
     [replicate 68 (CHR ''='') @ [newline], ''Command Line options:'' @ [newline], [newline],
      ''Input Parameter file: '' @ (case file_name ca of None \<Rightarrow> ''(null)'' | Some f \<Rightarrow> f) @ [newline],
      ''Report Directory: '' @ dir_name ca @ [newline], ''Verbose mode enabled.'' @ [newline],
      (if quick ca \<noteq> 0 then ''Performing a quick single iteration run.'' else ''Performing a full compliant run.'') @ [newline]]
     @ (if test_list ca \<noteq> [] then (''Tests requested to be run:'' @ [newline]) # numbered 0 (test_list ca)
        else [''No user specified tests. Running all the tests.'' @ [newline]])
     @ [(case rt_mode ca of HARD_RT \<Rightarrow> ''Hard real-time mode option selected''
         | SOFT_RT \<Rightarrow> ''Soft real-time mode option selected''
         | GUARANTEED_RT \<Rightarrow> ''Guaranteed real-time mode option selected'') @ [newline],
        replicate 68 (CHR ''='') @ [newline]]"

definition print_selected_options :: "string list \<Rightarrow> cmd_line_args \<Rightarrow> string list" where
  "print_selected_options out ca = foldl (\<lambda>out m. snd (RTMB_verbose_printf out ca 1 m)) out (selected_messages ca)"

section \<open>The list of test names\<close>

function strtok_all :: "char \<Rightarrow> string \<Rightarrow> string list" where
  "strtok_all d s = (case strtok d s of None \<Rightarrow> [] | Some (t, r) \<Rightarrow> t # strtok_all d r)"
  by pat_completeness auto
termination
proof (relation "measure (\<lambda>(d, s). length s)")
  fix d s x t r
  assume x: "strtok d s = Some x" "(t, r) = x"
  let ?u = "dropWhile (\<lambda>c. c = d) s"
  have u: "?u \<noteq> []" "r = drop 1 (dropWhile (\<lambda>c. c \<noteq> d) ?u)"
    using x by (auto simp: strtok_def Let_def split: if_splits)
  have "length (dropWhile (\<lambda>c. c \<noteq> d) ?u) \<le> length ?u" "length ?u \<le> length s"
    by (rule length_dropWhile_le)+
  then show "((d, r), (d, s)) \<in> measure (\<lambda>(d, s). length s)"
    using u by (cases ?u) (auto simp: less_Suc_eq_le split: if_splits)
qed simp

declare strtok_all.simps [simp del]

definition insert_in_test_list :: "cmd_line_args \<Rightarrow> string \<Rightarrow> cmd_line_args" where
  "insert_in_test_list ca t = ca\<lparr>test_list := t # test_list ca\<rparr>"

text \<open>An argument without a token is entered as it is.\<close>

definition setup_testcase_names :: "cmd_line_args \<Rightarrow> string \<Rightarrow> cmd_line_args" where
  "setup_testcase_names ca names = (case strtok_all (CHR '':'') names of
       [] \<Rightarrow> insert_in_test_list ca names
     | ts \<Rightarrow> foldl insert_in_test_list ca ts)"

section \<open>Options\<close>

text \<open>\<^verbatim>\<open>strcpy\<close> into a buffer of \<^verbatim>\<open>MAXPATHLEN + 1\<close> bytes.\<close>

definition path_copy :: "string \<Rightarrow> string res" where
  "path_copy s = (if length s \<le> MAXPATHLEN then Inr s else Inl Out_of_bounds)"

text \<open>\<open>cwd\<close> is the result of \<^verbatim>\<open>getcwd\<close>, \<open>None\<close> when it fails.\<close>

definition setup_default_options :: "cmd_line_args \<Rightarrow> string option \<Rightarrow> (int \<times> cmd_line_args) res" where
  "setup_default_options ca cwd = (let ca = ca\<lparr>verbose := 0, quick := 0, rt_mode := SOFT_RT\<rparr> in
     case cwd of None \<Rightarrow> Inr (-1, ca)
     | Some d \<Rightarrow> bind_res (path_copy (d @ ''/config/input.txt'')) (\<lambda>f.
         Inr (0, ca\<lparr>dir_name := d, file_name := Some f\<rparr>)))"

datatype cl_outcome =
    Exits                          \<comment> \<open>\<^verbatim>\<open>exit(0)\<close> after a help option\<close>
  | Returns int cmd_line_args

fun parse_args :: "cmd_line_args \<Rightarrow> bool \<Rightarrow> string list \<Rightarrow> cl_outcome res" where
  "parse_args ca bad [] = Inr (Returns (if bad then -1 else 0) ca)"
| "parse_args ca bad (a # as) =
     (if a = ''--help'' \<or> a = ''-h'' \<or> a = ''-?'' then Inr Exits
      else if prefix ''--verbose:simple'' a \<or> prefix ''-v:simple'' a
        then parse_args (ca\<lparr>verbose := 1, verbose_lvl := 1\<rparr>) bad as
      else if prefix ''--verbose:detailed'' a \<or> prefix ''-v:detailed'' a
        then parse_args (ca\<lparr>verbose := 1, verbose_lvl := 2\<rparr>) bad as
      else if a = ''--silent'' \<or> a = ''-s'' then parse_args (ca\<lparr>verbose := 0\<rparr>) bad as
      else if a = ''--file'' \<or> a = ''-f'' then
        (case as of [] \<Rightarrow> Inr (Returns (-1) ca)
         | b # bs \<Rightarrow> bind_res (path_copy b) (\<lambda>f. parse_args (ca\<lparr>file_name := Some f\<rparr>) bad bs))
      else if a = ''--report'' \<or> a = ''-r'' then
        (case as of [] \<Rightarrow> Inr (Returns (-1) ca)
         | b # bs \<Rightarrow> bind_res (path_copy b) (\<lambda>d. parse_args (ca\<lparr>dir_name := d\<rparr>) bad bs))
      else if a = ''--quick'' \<or> a = ''-q'' then parse_args (ca\<lparr>quick := 1\<rparr>) bad as
      else if a = ''--compliant'' \<or> a = ''-c'' then parse_args (ca\<lparr>quick := 0\<rparr>) bad as
      else if a = ''--test'' \<or> a = ''-t'' then
        (case as of [] \<Rightarrow> Inr (Returns (-1) ca)
         | b # bs \<Rightarrow> parse_args (setup_testcase_names ca b) bad bs)
      else if a = ''--test?'' \<or> a = ''-t?'' then Inr Exits
      else if a = ''--hard-rt'' then parse_args (ca\<lparr>rt_mode := HARD_RT\<rparr>) bad as
      else if a = ''--soft-rt'' then parse_args (ca\<lparr>rt_mode := SOFT_RT\<rparr>) bad as
      else if a = ''--guaranteed-rt'' then parse_args (ca\<lparr>rt_mode := GUARANTEED_RT\<rparr>) bad as
      else parse_args ca True as)"

text \<open>After a successful parse the options are printed.\<close>

definition parse_cmd_line :: "cmd_line_args \<Rightarrow> string list \<Rightarrow> (cl_outcome \<times> string list) res" where
  "parse_cmd_line ca args = bind_res (parse_args ca False args) (\<lambda>r.
     Inr (r, case r of Returns rc ca' \<Rightarrow> (if rc = 0 then print_selected_options [] ca' else []) | Exits \<Rightarrow> []))"

section \<open>The names are the fields of the argument\<close>

fun join :: "char \<Rightarrow> string list \<Rightarrow> string" where
  "join d [] = []"
| "join d [t] = t"
| "join d (t # u # us) = t @ d # join d (u # us)"

definition name_ok :: "char \<Rightarrow> string \<Rightarrow> bool" where
  "name_ok d t \<longleftrightarrow> t \<noteq> [] \<and> d \<notin> set t"

lemma strtok_all_join: "\<forall>t \<in> set ts. name_ok d t \<Longrightarrow> strtok_all d (join d ts) = ts"
proof (induction d ts rule: join.induct)
  case (1 d)
  then show ?case by (simp add: strtok_all.simps strtok_def)
next
  case (2 d t)
  then show ?case
    by (subst strtok_all.simps) (simp add: strtok_value name_ok_def, simp add: strtok_all.simps strtok_def)
next
  case (3 d t u us)
  then show ?case by (subst strtok_all.simps) (simp add: strtok_key name_ok_def)
qed

lemma foldl_insert: "foldl insert_in_test_list ca ts = ca\<lparr>test_list := rev ts @ test_list ca\<rparr>"
  by (induction ts arbitrary: ca) (simp_all add: insert_in_test_list_def)

lemma setup_names_join:
  "ts \<noteq> [] \<Longrightarrow> \<forall>t \<in> set ts. name_ok (CHR '':'') t \<Longrightarrow>
    setup_testcase_names ca (join (CHR '':'') ts) = ca\<lparr>test_list := rev ts @ test_list ca\<rparr>"
  by (cases ts) (simp_all add: setup_testcase_names_def strtok_all_join foldl_insert insert_in_test_list_def)

section \<open>Options as data\<close>

datatype cl_option =
    Simple | Detailed | Silent | File string | Report string | Quick | Compliant
  | Tests "string list" | Mode real_time_mode

fun render_option :: "cl_option \<Rightarrow> string list" where
  "render_option Simple = [''-v:simple'']"
| "render_option Detailed = [''-v:detailed'']"
| "render_option Silent = [''-s'']"
| "render_option (File f) = [''-f'', f]"
| "render_option (Report d) = [''-r'', d]"
| "render_option Quick = [''-q'']"
| "render_option Compliant = [''-c'']"
| "render_option (Tests ts) = [''-t'', join (CHR '':'') ts]"
| "render_option (Mode m) = [case m of HARD_RT \<Rightarrow> ''--hard-rt'' | SOFT_RT \<Rightarrow> ''--soft-rt'' | GUARANTEED_RT \<Rightarrow> ''--guaranteed-rt'']"

fun apply_option :: "cl_option \<Rightarrow> cmd_line_args \<Rightarrow> cmd_line_args" where
  "apply_option Simple ca = ca\<lparr>verbose := 1, verbose_lvl := 1\<rparr>"
| "apply_option Detailed ca = ca\<lparr>verbose := 1, verbose_lvl := 2\<rparr>"
| "apply_option Silent ca = ca\<lparr>verbose := 0\<rparr>"
| "apply_option (File f) ca = ca\<lparr>file_name := Some f\<rparr>"
| "apply_option (Report d) ca = ca\<lparr>dir_name := d\<rparr>"
| "apply_option Quick ca = ca\<lparr>quick := 1\<rparr>"
| "apply_option Compliant ca = ca\<lparr>quick := 0\<rparr>"
| "apply_option (Tests ts) ca = ca\<lparr>test_list := rev ts @ test_list ca\<rparr>"
| "apply_option (Mode m) ca = ca\<lparr>rt_mode := m\<rparr>"

fun option_ok :: "cl_option \<Rightarrow> bool" where
  "option_ok (File f) = (length f \<le> MAXPATHLEN)"
| "option_ok (Report d) = (length d \<le> MAXPATHLEN)"
| "option_ok (Tests ts) = (ts \<noteq> [] \<and> (\<forall>t \<in> set ts. name_ok (CHR '':'') t))"
| "option_ok _ = True"

lemma parse_one_option:
  "option_ok opt \<Longrightarrow> parse_args ca bad (render_option opt @ as) = parse_args (apply_option opt ca) bad as"
  by (cases opt) (simp_all add: path_copy_def setup_names_join split: real_time_mode.split)

lemma parse_options:
  "\<forall>opt \<in> set opts. option_ok opt \<Longrightarrow>
    parse_args ca bad (concat (map render_option opts) @ as) = parse_args (fold apply_option opts ca) bad as"
  by (induction opts arbitrary: ca) (simp_all add: parse_one_option del: parse_args.simps)

lemma parse_unknown: "parse_args ca bad (''--jvm-options'' # as) = parse_args ca True as"
  by simp

section \<open>Properties\<close>

text \<open>
  A command line that is a sequence of well-formed options, in any order and with repetitions,
  is accepted, and each option has its effect in turn; an unknown option among them is reported
  as an error only after the others have been processed.
\<close>

lemma parse_options_applied:
  assumes "\<forall>opt \<in> set opts. option_ok opt" and "\<forall>opt \<in> set opts'. option_ok opt"
  shows "parse_args ca False (concat (map render_option opts)) = Inr (Returns 0 (fold apply_option opts ca))
    \<and> parse_args ca False (concat (map render_option opts) @ ''--jvm-options'' # concat (map render_option opts'))
      = Inr (Returns (-1) (fold apply_option opts' (fold apply_option opts ca)))"
proof
  show "parse_args ca False (concat (map render_option opts)) = Inr (Returns 0 (fold apply_option opts ca))"
    using parse_options [OF assms(1), of ca False "[]"] by simp
  have "parse_args c True (concat (map render_option opts')) = Inr (Returns (-1) (fold apply_option opts' c))" for c
    using parse_options [OF assms(2), of c True "[]"] by simp
  then show "parse_args ca False (concat (map render_option opts) @ ''--jvm-options'' # concat (map render_option opts'))
      = Inr (Returns (-1) (fold apply_option opts' (fold apply_option opts ca)))"
    unfolding parse_options [OF assms(1)] parse_unknown .
qed

definition no_options :: cmd_line_args where
  "no_options = \<lparr>verbose = 0, verbose_lvl = 0, quick = 0, rt_mode = SOFT_RT, file_name = None, dir_name = [], test_list = []\<rparr>"

lemma parse_options_applied_witness:
  "parse_args no_options False (concat (map render_option [Tests [''timer_config'', ''net_io_config''], Mode HARD_RT, Quick]))
      = Inr (Returns 0 (fold apply_option [Tests [''timer_config'', ''net_io_config''], Mode HARD_RT, Quick] no_options))
    \<and> parse_args no_options False (concat (map render_option [Tests [''timer_config'', ''net_io_config''], Mode HARD_RT, Quick])
        @ ''--jvm-options'' # concat (map render_option [File ''in.txt'']))
      = Inr (Returns (-1) (fold apply_option [File ''in.txt''] (fold apply_option [Tests [''timer_config'', ''net_io_config''], Mode HARD_RT, Quick] no_options)))"
  by (rule parse_options_applied) (simp_all add: name_ok_def)

text \<open>
  The names given with \<^verbatim>\<open>-t\<close> are the non-empty fields between the colons, in reverse order and
  in front of the names of earlier options; an argument without any field is entered as it is.
\<close>

lemma test_names_are_fields:
  "test_list (setup_testcase_names ca names) =
    (if strtok_all (CHR '':'') names = [] then [names] else rev (strtok_all (CHR '':'') names)) @ test_list ca
   \<and> list_all (name_ok (CHR '':'')) (strtok_all (CHR '':'') names)"
proof
  show "test_list (setup_testcase_names ca names) =
    (if strtok_all (CHR '':'') names = [] then [names] else rev (strtok_all (CHR '':'') names)) @ test_list ca"
    by (cases "strtok_all (CHR '':'') names")
      (simp_all add: setup_testcase_names_def foldl_insert insert_in_test_list_def)
  have "\<forall>t \<in> set (strtok_all d s). name_ok d t" for d s
  proof (induction d s rule: strtok_all.induct)
    case (1 d s)
    have tok: "name_ok d t" if "strtok d s = Some (t, r)" for t r
    proof -
      let ?u = "dropWhile (\<lambda>c. c = d) s"
      have u: "?u \<noteq> []" "t = takeWhile (\<lambda>c. c \<noteq> d) ?u"
        using that by (auto simp: strtok_def Let_def split: if_splits)
      moreover have "hd ?u \<noteq> d" using u(1) hd_dropWhile by blast
      ultimately have "t \<noteq> []" by (cases ?u) simp_all
      moreover have "d \<notin> set t" unfolding u(2) using set_takeWhileD by metis
      ultimately show ?thesis by (simp add: name_ok_def)
    qed
    show ?case
    proof (cases "strtok d s")
      case None
      then show ?thesis by (subst strtok_all.simps) simp
    next
      case (Some x)
      obtain t r where "x = (t, r)" by fastforce
      with Some 1 [OF Some, of t r] tok [of t r] show ?thesis by (subst strtok_all.simps) simp
    qed
  qed
  then show "list_all (name_ok (CHR '':'')) (strtok_all (CHR '':'') names)" by (simp add: list_all_iff)
qed

text \<open>
  A silent run prints none of the verbose messages, and a verbose run prints all selected
  options in their order.
\<close>

lemma selected_options_printed:
  "print_selected_options out ca = (if verbose ca = 1 \<and> 1 \<le> verbose_lvl ca then out @ selected_messages ca else out)"
proof -
  have "foldl (\<lambda>out m. snd (RTMB_verbose_printf out ca 1 m)) out ms =
      (if verbose ca = 1 \<and> 1 \<le> verbose_lvl ca then out @ ms else out)" for ms
    by (induction ms arbitrary: out) (simp_all add: RTMB_verbose_printf_def)
  then show ?thesis by (simp add: print_selected_options_def)
qed

text \<open>
  The default options are silent, compliant and soft real-time, with the working directory as
  report directory and \<^verbatim>\<open>config/input.txt\<close> below it as input; a working directory of more than 4079
  characters overruns the buffer of the file name.
\<close>

lemma default_options:
  "setup_default_options ca (Some d) = (if length d \<le> 4079
     then Inr (0, ca\<lparr>verbose := 0, quick := 0, rt_mode := SOFT_RT, dir_name := d, file_name := Some (d @ ''/config/input.txt'')\<rparr>)
     else Inl Out_of_bounds)"
  by (simp add: setup_default_options_def path_copy_def Let_def)

end
