(* ===== verification/Home_Dir.thy ===== *)
theory Home_Dir
  imports C_Strings
begin

text \<open>
  \<^verbatim>\<open>harness/RTMB.c\<close>: \<^verbatim>\<open>build_home_dir\<close> finds the directory above the one of the program, from the name by
  which it was called, the current directory and \<^verbatim>\<open>PATH\<close>.  Which names exist and what symbolic links they
  resolve to is given by \<open>home_env\<close>.
\<close>

section \<open>Names\<close>

datatype file_kind = Regular_file | Other_file

record home_env =
  he_stat :: "string \<Rightarrow> file_kind option"   \<comment> \<open>\<^verbatim>\<open>stat\<close>\<close>
  he_path :: "string option"               \<comment> \<open>\<^verbatim>\<open>getenv("PATH")\<close>\<close>
  he_real :: "string \<Rightarrow> string option"      \<comment> \<open>\<^verbatim>\<open>realpath\<close>\<close>

text \<open>POSIX \<^verbatim>\<open>dirname\<close>.\<close>

definition rstrip :: "string \<Rightarrow> string" where
  "rstrip s = rev (dropWhile (\<lambda>c. c = CHR ''/'') (rev s))"

definition dirname :: "string \<Rightarrow> string" where
  "dirname path = (let q = rstrip path; d = rev (dropWhile (\<lambda>c. c \<noteq> CHR ''/'') (rev q)) in
     if q = [] then (if path = [] then ''.'' else ''/'') else if d = [] then ''.''
     else if rstrip d = [] then ''/'' else rstrip d)"

definition resolve_symbolic_link :: "home_env \<Rightarrow> string \<Rightarrow> string" where
  "resolve_symbolic_link e file = (case he_real e file of None \<Rightarrow> file | Some buffer \<Rightarrow> buffer)"

text \<open>\<^verbatim>\<open>char dir[MAXPATHLEN]\<close>\<close>

definition dir_copy :: "string \<Rightarrow> string res" where
  "dir_copy s = (if length s < 4096 then Inr s else Inl Out_of_bounds)"

section \<open>A name with a slash\<close>

text \<open>
  Leading \<^verbatim>\<open>../\<close> and \<^verbatim>\<open>./\<close> of a relative name; every other name that starts with a dot loses two
  characters, and the name \<^verbatim>\<open>.\<close> is left behind its end.
\<close>

function strip_dots :: "string \<Rightarrow> string \<Rightarrow> (string \<times> string) res" where
  "strip_dots p path = (if p = [] \<or> hd p \<noteq> CHR ''.'' then Inr (p, path)
     else if take 3 p = ''../'' then strip_dots (drop 3 p) (dirname path)
     else if length p < 2 then Inl Out_of_bounds else strip_dots (drop 2 p) path)"
  by auto
termination by (relation "measure (\<lambda>(p, path). length p)") auto

declare strip_dots.simps [simp del]

section \<open>A name without one\<close>

function path_elements :: "string \<Rightarrow> string list" where
  "path_elements path = (case dropWhile (\<lambda>c. c \<noteq> CHR '':'') path of
     [] \<Rightarrow> [path] | p # rest \<Rightarrow> takeWhile (\<lambda>c. c \<noteq> CHR '':'') path # path_elements rest)"
  by auto
termination
proof (relation "measure length")
  fix path :: string and p rest assume "dropWhile (\<lambda>c. c \<noteq> CHR '':'') path = p # rest"
  then have "Suc (length rest) \<le> length path" using length_dropWhile_le [of "\<lambda>c. c \<noteq> CHR '':''" path] by simp
  then show "(rest, path) \<in> measure length" by simp
qed simp

declare path_elements.simps [simp del]

fun search_path :: "home_env \<Rightarrow> string \<Rightarrow> string list \<Rightarrow> string option res" where
  "search_path e file_name [] = Inr None"
| "search_path e file_name (el # els) = bind_res (dir_copy (el @ ''/'' @ file_name)) (\<lambda>dir.
     if he_stat e dir = Some Regular_file then Inr (Some dir) else search_path e file_name els)"

section \<open>The home directory\<close>

definition find_binary :: "home_env \<Rightarrow> string option \<Rightarrow> string \<Rightarrow> string option res" where
  "find_binary e cwd file_name =
     (if CHR ''/'' \<in> set file_name \<and> he_stat e file_name \<noteq> None
      then (if hd file_name = CHR ''/'' then bind_res (dir_copy file_name) (\<lambda>dir. Inr (Some dir))
        else (case cwd of None \<Rightarrow> Inl Uninitialised | Some dir \<Rightarrow> bind_res (strip_dots file_name dir) (\<lambda>(p, path).
          bind_res (dir_copy (path @ ''/'' @ p)) (\<lambda>path. Inr (Some path)))))
      else (case he_path e of None \<Rightarrow> Inr None | Some path \<Rightarrow> search_path e file_name (path_elements path)))"

text \<open>When no program is found the function returns a variable that it has not set.\<close>

definition build_home_dir :: "home_env \<Rightarrow> string option \<Rightarrow> string \<Rightarrow> string res" where
  "build_home_dir e cwd file_name = bind_res (find_binary e cwd file_name) (\<lambda>found. case found of
     None \<Rightarrow> Inl Uninitialised
   | Some found \<Rightarrow> Inr (resolve_symbolic_link e (dirname (resolve_symbolic_link e (dirname (resolve_symbolic_link e found))))))"

section \<open>The directory above the program\<close>

lemma rstrip_last: "s \<noteq> [] \<Longrightarrow> last s \<noteq> CHR ''/'' \<Longrightarrow> rstrip s = s"
  by (cases s rule: rev_cases) (simp_all add: rstrip_def)

lemma dirname_join:
  assumes "d \<noteq> []" "last d \<noteq> CHR ''/''" and "b \<noteq> []" "CHR ''/'' \<notin> set b"
  shows "dirname (d @ CHR ''/'' # b) = d"
proof -
  have "last (d @ CHR ''/'' # b) \<noteq> CHR ''/''" using assms(3,4) by (metis last_ConsR last_appendR last_in_set list.distinct(1))
  then have q: "rstrip (d @ CHR ''/'' # b) = d @ CHR ''/'' # b" by (simp add: rstrip_last)
  have "dropWhile (\<lambda>c. c \<noteq> CHR ''/'') (rev b @ CHR ''/'' # rev d) = CHR ''/'' # rev d"
    using assms(4) by (subst dropWhile_append2) auto
  moreover have "rstrip (d @ [CHR ''/'']) = d" using rstrip_last [OF assms(1,2)] by (simp add: rstrip_def)
  ultimately show ?thesis using assms(1) by (simp add: dirname_def Let_def q)
qed

lemma path_elements_snoc: "CHR '':'' \<notin> set el \<Longrightarrow> path_elements (el @ CHR '':'' # rest) = el # path_elements rest"
proof -
  assume "CHR '':'' \<notin> set el"
  then have "takeWhile (\<lambda>c. c \<noteq> CHR '':'') (el @ CHR '':'' # rest) = el" "dropWhile (\<lambda>c. c \<noteq> CHR '':'') (el @ CHR '':'' # rest) = CHR '':'' # rest"
    by (subst takeWhile_append2 dropWhile_append2; auto)+
  then show ?thesis by (subst path_elements.simps) simp
qed

lemma path_elements_single: "CHR '':'' \<notin> set el \<Longrightarrow> path_elements el = [el]"
proof -
  assume "CHR '':'' \<notin> set el"
  then have "dropWhile (\<lambda>c. c \<noteq> CHR '':'') el = []" by (auto simp: dropWhile_eq_Nil_conv)
  then show ?thesis by (subst path_elements.simps) (simp only: list.case)
qed

lemma path_elements_join:
  "\<forall>el \<in> set els. CHR '':'' \<notin> set el \<Longrightarrow> path_elements (concat (map (\<lambda>el. el @ '':'') els) @ rest) = els @ path_elements rest"
  by (induction els) (simp_all add: path_elements_snoc)

lemma search_path_skip:
  assumes "\<forall>el \<in> set els. length (el @ ''/'' @ prog) < 4096 \<and> he_stat e (el @ ''/'' @ prog) \<noteq> Some Regular_file"
  shows "search_path e prog (els @ later) = search_path e prog later"
  using assms by (induction els) (simp_all add: dir_copy_def)

lemma strip_plain: "p \<noteq> [] \<Longrightarrow> hd p \<noteq> CHR ''.'' \<Longrightarrow> strip_dots p path = Inr (p, path)"
  by (simp add: strip_dots.simps)

lemma strip_here: "strip_dots (''./'' @ p) path = strip_dots p path"
  by (subst strip_dots.simps) simp

lemma strip_parent: "strip_dots (''../'' @ p) path = strip_dots p (dirname path)"
  by (subst strip_dots.simps) simp

section \<open>Properties\<close>

text \<open>
  When the program is \<^verbatim>\<open>bin/prog\<close> below a directory and no name on the way is a symbolic link, that
  directory is the home directory, whether the program is called by its absolute name, as \<^verbatim>\<open>./prog\<close> in
  its own directory, as \<^verbatim>\<open>../bin/prog\<close> from beside it, or found as the first program of that name on \<^verbatim>\<open>PATH\<close>.
  When it is not found the result is an indeterminate value.
\<close>

lemma home_above_binary:
  assumes "home \<noteq> []" "hd home = CHR ''/''" "last home \<noteq> CHR ''/''" and "prog \<noteq> []" "CHR ''/'' \<notin> set prog" "hd prog \<noteq> CHR ''.''"
    and "length (home @ ''/bin/'' @ prog) < 4096"
    and "\<forall>s \<in> {home @ ''/bin/'' @ prog, home @ ''/bin'', home}. resolve_symbolic_link e s = s"
    and "\<forall>el \<in> set els. CHR '':'' \<notin> set el \<and> length (el @ ''/'' @ prog) < 4096 \<and> he_stat e (el @ ''/'' @ prog) \<noteq> Some Regular_file"
    and "CHR '':'' \<notin> set home" and "beside \<noteq> []" "CHR ''/'' \<notin> set beside"
  shows "(he_stat e (home @ ''/bin/'' @ prog) \<noteq> None \<longrightarrow> build_home_dir e cwd (home @ ''/bin/'' @ prog) = Inr home)
    \<and> (he_stat e (''./'' @ prog) \<noteq> None \<longrightarrow> build_home_dir e (Some (home @ ''/bin'')) (''./'' @ prog) = Inr home)
    \<and> (he_stat e (''../bin/'' @ prog) \<noteq> None \<longrightarrow> build_home_dir e (Some (home @ ''/'' @ beside)) (''../bin/'' @ prog) = Inr home)
    \<and> (he_path e = Some (concat (map (\<lambda>el. el @ '':'') els) @ home @ ''/bin'') \<and> he_stat e (home @ ''/bin/'' @ prog) = Some Regular_file
        \<longrightarrow> build_home_dir e cwd prog = Inr home)
    \<and> (he_path e = None \<longrightarrow> build_home_dir e cwd prog = Inl Uninitialised)"
proof -
  have res: "resolve_symbolic_link e (dirname (resolve_symbolic_link e (dirname (resolve_symbolic_link e (home @ ''/bin/'' @ prog))))) = home"
    using assms(8) dirname_join [OF assms(1,3), of "''bin''"] dirname_join [of "home @ ''/bin''" prog] assms(4,5) by simp
  have found: "build_home_dir e cwd name = Inr home" if "find_binary e cwd name = Inr (Some (home @ ''/bin/'' @ prog))" for cwd name
    using that res by (simp add: build_home_dir_def)
  have copy: "dir_copy (home @ ''/bin/'' @ prog) = Inr (home @ ''/bin/'' @ prog)" using assms(7) by (simp add: dir_copy_def)
  have "strip_dots (''./'' @ prog) (home @ ''/bin'') = Inr (prog, home @ ''/bin'')"
    unfolding strip_here by (rule strip_plain [OF assms(4,6)])
  moreover have "strip_dots (''../'' @ ''bin/'' @ prog) (home @ ''/'' @ beside) = Inr (''bin/'' @ prog, home)"
    unfolding strip_parent using dirname_join [OF assms(1,3,11,12)] by (simp add: strip_plain)
  moreover have "path_elements (concat (map (\<lambda>el. el @ '':'') els) @ home @ ''/bin'') = els @ [home @ ''/bin'']"
    using path_elements_join [of els "home @ ''/bin''"] path_elements_single [of "home @ ''/bin''"] assms(9,10) by simp
  moreover have "search_path e prog (els @ [home @ ''/bin'']) = search_path e prog [home @ ''/bin'']"
    using search_path_skip assms(9) by blast
  ultimately show ?thesis using assms(1,2,5) copy
    by (intro conjI impI found) (auto simp: find_binary_def build_home_dir_def)
qed

definition installed :: home_env where
  "installed = \<lparr>he_stat = (\<lambda>s. if s = ''/opt/rtmb/bin/rtmb'' then Some Regular_file else if s = ''./rtmb'' then Some Regular_file else None),
     he_path = Some ''/usr/bin:/opt/rtmb/bin'', he_real = Some\<rparr>"

lemma installed_home: "build_home_dir installed cwd ''/opt/rtmb/bin/rtmb'' = Inr ''/opt/rtmb''"
  by (simp add: build_home_dir_def find_binary_def installed_def dir_copy_def resolve_symbolic_link_def dirname_def rstrip_def Let_def)

lemma home_above_binary_witness:
  "build_home_dir installed None ''/opt/rtmb/bin/rtmb'' = Inr ''/opt/rtmb''
    \<and> build_home_dir installed (Some ''/opt/rtmb/bin'') ''./rtmb'' = Inr ''/opt/rtmb'' \<and> build_home_dir installed None ''rtmb'' = Inr ''/opt/rtmb''"
  using home_above_binary [of "''/opt/rtmb''" "''rtmb''" installed "[''/usr/bin'']" "''x''" None]
  by (simp add: installed_def resolve_symbolic_link_def)

end
