(* ===== verification/Launch.thy ===== *)
theory Launch
  imports Config_Tests Input_File Cmd_Line Home_Dir
begin

text \<open>
  \<^verbatim>\<open>harness/RTMB_launch_tests.c\<close> and the main function of \<^verbatim>\<open>harness/RTMB.c\<close>: which tests run, in
  which order, with how many iterations, and what becomes of their return codes.  The shared
  objects that implement the tests are a parameter \<open>dl\<close>: what \<^verbatim>\<open>dlopen\<close>, \<^verbatim>\<open>dlsym\<close> and the
  threads do for a library name and a test name.  A list of benchmark tests stands for the list
  linked by \<^verbatim>\<open>_next\<close>; a test is named by its position, since \<^verbatim>\<open>get_iters\<close> changes it in place.
\<close>

section \<open>Running one test\<close>

datatype lib_entry =
    No_library               \<comment> \<open>\<^verbatim>\<open>dlopen\<close> fails\<close>
  | No_symbol                \<comment> \<open>\<^verbatim>\<open>dlsym\<close> finds nothing\<close>
  | No_thread                \<comment> \<open>\<^verbatim>\<open>pthread_create\<close> fails\<close>
  | Runs bool test_fn        \<comment> \<open>the test runs; whether \<^verbatim>\<open>pthread_join\<close> reports success\<close>

record launch =
  la_tests :: "benchmark_test list"
  la_env :: tenv

text \<open>\<^verbatim>\<open>new_iters *= multiplier\<close>: an \<^verbatim>\<open>int\<close> times a \<^verbatim>\<open>float\<close>, converted back.\<close>

definition times_float :: "int \<Rightarrow> f64 \<Rightarrow> int res" where
  "times_float n m = f64_to_int (to_f32 (of_int32f n * m))"

definition get_iters :: "benchmark_test \<Rightarrow> cmd_line_args \<Rightarrow> rt_params \<Rightarrow> benchmark_test res" where
  "get_iters bmtest args vals = bind_res
     (if quick args = 1 then Inr 1
      else (case rt_mode args of
          HARD_RT \<Rightarrow> times_float (bt_iterations bmtest) (multiplier (hrt vals))
        | SOFT_RT \<Rightarrow> times_float (bt_iterations bmtest) (multiplier (srt vals))
        | GUARANTEED_RT \<Rightarrow> times_float (bt_iterations bmtest) (multiplier (grt vals))))
     (\<lambda>new_iters. Inr (bmtest\<lparr>bt_iterations := new_iters\<rparr>))"

text \<open>
  \<^verbatim>\<open>print_scores\<close>: the throughput numbers of every score, and the final ones, or nothing;
  \<open>cpus\<close> is the number of processors.  The formatting is left out.
\<close>

fun find_valid :: "result_entry list \<Rightarrow> string \<Rightarrow> result_entry option res" where
  "find_valid [] name = Inr None"
| "find_valid (e # es) name = (if valid e \<noteq> 0
     then (case bm_test e of None \<Rightarrow> Inl Null_deref
        | Some b \<Rightarrow> if bt_name b = name then Inr (Some e) else find_valid es name)
     else find_valid es name)"

type_synonym printed = "(f64 \<times> f64 \<times> f64 \<times> f64) list \<times> f64 \<times> f64 \<times> f64"

definition print_scores :: "int \<Rightarrow> benchmark_test \<Rightarrow> result_table \<Rightarrow> printed option res" where
  "print_scores cpus bmtest table =
     (if cpus = 1 \<and> (bt_name bmtest = ''thread_priority'' \<or> bt_name bmtest = ''multi_thread'') then Inr None
      else bind_res (find_valid (take MAX_TESTS table) (bt_name bmtest)) (\<lambda>found. case found of None \<Rightarrow> Inr None
        | Some e \<Rightarrow> (case fbmt e of None \<Rightarrow> Inr None
          | Some f \<Rightarrow> Inr (Some (map (\<lambda>s. (max_throughput s, min_throughput s, mean_throughput s, wgt_throughput s)) (fb_score f),
              throughput_test_score f, consistency_test_score f, fb_test_score f)))))"

text \<open>The name of the library, in a buffer of \<^verbatim>\<open>MAXPATHLEN + 16 + strlen(testname)\<close> bytes.\<close>

definition lib_path :: "string \<Rightarrow> string \<Rightarrow> string res" where
  "lib_path home_dir testname = (let p = home_dir @ ''/lib/'' @ ''lib'' @ testname @ ''.so'' in
     if length p < MAXPATHLEN + 16 + length testname then Inr p else Inl Out_of_bounds)"

type_synonym loader = "string \<Rightarrow> string \<Rightarrow> lib_entry"

definition run_test :: "loader \<Rightarrow> int \<Rightarrow> cmd_line_args \<Rightarrow> string \<Rightarrow> nat \<Rightarrow> launch \<Rightarrow> (int \<times> launch) run" where
  "run_test dl cpus args home_dir i s =
     bind_run (Some (aread (la_tests s) (int i))) (\<lambda>test_node.
     bind_run (Some (lib_path home_dir (bt_name test_node))) (\<lambda>libname.
     case dl libname (bt_name test_node) of
       No_library \<Rightarrow> Some (Inr (-1, s))
     | No_symbol \<Rightarrow> Some (Inr (-1, s))
     | No_thread \<Rightarrow> bind_run (Some (get_iters test_node args (te_vals (la_env s)))) (\<lambda>bmtest.
         Some (Inr (-1, s\<lparr>la_tests := (la_tests s)[i := bmtest]\<rparr>)))
     | Runs joined test \<Rightarrow> bind_run (Some (get_iters test_node args (te_vals (la_env s)))) (\<lambda>bmtest.
         bind_run (test args bmtest (la_env s)) (\<lambda>(ret, env).
           let s = \<lparr>la_tests = (la_tests s)[i := bmtest], la_env = env\<rparr> in
           if \<not> joined then Some (Inr (-1, s))
           else if ret = -1 then Some (Inr (-1, s))
           else bind_run (Some (print_scores cpus bmtest (te_table env))) (\<lambda>_. Some (Inr (0, s)))))))"

section \<open>Running the tests\<close>

text \<open>
  A loop over the list with a condition on the test: whether one was run, the last return code
  (\<open>rc\<close> before), and the state.
\<close>

fun run_where :: "(nat \<Rightarrow> launch \<Rightarrow> (int \<times> launch) run) \<Rightarrow> (benchmark_test \<Rightarrow> bool) \<Rightarrow> nat list \<Rightarrow>
    bool \<Rightarrow> int \<Rightarrow> launch \<Rightarrow> (bool \<times> int \<times> launch) run" where
  "run_where run_i p [] found rc s = Some (Inr (found, rc, s))"
| "run_where run_i p (i # is) found rc s = bind_run (Some (aread (la_tests s) (int i))) (\<lambda>j.
     if p j then bind_run (run_i i s) (\<lambda>(rc, s). run_where run_i p is True rc s)
     else run_where run_i p is found rc s)"

fun run_named :: "(nat \<Rightarrow> launch \<Rightarrow> (int \<times> launch) run) \<Rightarrow> string list \<Rightarrow> nat list \<Rightarrow> int \<Rightarrow> launch \<Rightarrow> (int \<times> launch) run" where
  "run_named run_i [] is rc s = Some (Inr (rc, s))"
| "run_named run_i (name # names) is rc s = bind_run (run_where run_i (\<lambda>j. name = bt_name j) is False rc s)
     (\<lambda>(found, rc, s). run_named run_i names is (if found then rc else -1) s)"

definition launch_tests :: "loader \<Rightarrow> int \<Rightarrow> cmd_line_args \<Rightarrow> string \<Rightarrow> launch \<Rightarrow> (int \<times> launch) run" where
  "launch_tests dl cpus args home_dir s = (let
       s = s\<lparr>la_env := (la_env s)\<lparr>te_table := empty_table\<rparr>\<rparr>;
       is = [0..<length (la_tests s)];
       run_i = run_test dl cpus args home_dir in
     bind_run (run_where run_i (\<lambda>j. bt_config_test j = 1) is False 0 s) (\<lambda>(_, _, s).
       if test_list args \<noteq> [] then run_named run_i (test_list args) is 0 s
       else bind_run (run_where run_i (\<lambda>j. bt_config_test j \<noteq> 1) is False 0 s) (\<lambda>(_, rc, s). Some (Inr (rc, s)))))"

section \<open>The main function\<close>

text \<open>
  What \<^verbatim>\<open>main\<close> asks the system: whether \<^verbatim>\<open>mlockall\<close> succeeds, which names exist, the
  current directory, the contents of files, the number of processors, the clock and the rest of
  the environment.
\<close>

record system =
  sys_mlock :: bool
  sys_names :: home_env
  sys_cwd :: "string option"
  sys_file :: "string \<Rightarrow> string option"
  sys_cpus :: int
  sys_world :: world

datatype main_result =
    Exit int                                                 \<comment> \<open>\<^verbatim>\<open>exit\<close> or an early return\<close>
  | Reported string result_table int system_scores           \<comment> \<open>what is handed to the reporter\<close>

definition report_dir :: "string \<Rightarrow> string res" where
  "report_dir d = (if d = [] then Inr ''./''
     else if last d \<noteq> CHR ''/'' then path_copy (d @ ''/'') else Inr d)"

definition main :: "(f64 \<Rightarrow> f64 \<Rightarrow> f64) \<Rightarrow> loader \<Rightarrow> system \<Rightarrow> string \<Rightarrow> string list \<Rightarrow> main_result run" where
  "main pw dl sys argv0 args =
     (if \<not> sys_mlock sys then Some (Inr (Exit (-1)))
      else bind_run (Some (build_home_dir (sys_names sys) (sys_cwd sys) argv0)) (\<lambda>home_dir.
      bind_run (Some (setup_default_options no_options (sys_cwd sys))) (\<lambda>(rc, ca).
      if rc = -1 then Some (Inr (Exit (-1))) else
      bind_run (Some (parse_cmd_line ca args)) (\<lambda>(r, _). case r of Exits \<Rightarrow> Some (Inr (Exit 0))
       | Returns rc ca \<Rightarrow> if rc = -1 then Some (Inr (Exit (-1))) else
      bind_run (Some (nonnull (file_name ca))) (\<lambda>f.
      bind_run (Some (parse_input_file (sys_file sys f) no_params)) (\<lambda>(rc, p).
      if rc = -1 then Some (Inr (Exit (-1))) else
      bind_run (launch_tests dl (sys_cpus sys) ca home_dir
          \<lparr>la_tests = ip_tests p, la_env = \<lparr>te_table = empty_table, te_vals = ip_vals p, te_world = sys_world sys\<rparr>\<rparr>) (\<lambda>(_, s).
      bind_run (Some (report_dir (dir_name ca))) (\<lambda>d.
      bind_run (Some (compute_system_scores pw (te_table (la_env s)))) (\<lambda>scores.
        Some (Inr (Reported d (te_table (la_env s)) (verbose_lvl ca) scores)))))))))))"

section \<open>The flat schedule\<close>

text \<open>
  The nested loops run a schedule that is known beforehand: the configuration tests in the order
  of the list, then either the tests that are not configuration tests, or for each name of the
  option the tests of that name.  A step is a test or a name that does not exist.
\<close>

datatype sched = Run nat | Missing string

definition indices :: "(benchmark_test \<Rightarrow> bool) \<Rightarrow> benchmark_test list \<Rightarrow> nat list" where
  "indices p ts = filter (\<lambda>i. p (ts ! i)) [0..<length ts]"

definition config_steps :: "benchmark_test list \<Rightarrow> sched list" where
  "config_steps ts = map Run (indices (\<lambda>j. bt_config_test j = 1) ts)"

definition named_steps :: "benchmark_test list \<Rightarrow> string \<Rightarrow> sched list" where
  "named_steps ts name = (let is = indices (\<lambda>j. name = bt_name j) ts in if is = [] then [Missing name] else map Run is)"

definition selected_steps :: "cmd_line_args \<Rightarrow> benchmark_test list \<Rightarrow> sched list" where
  "selected_steps args ts = (if test_list args \<noteq> [] then concat (map (named_steps ts) (test_list args))
     else map Run (indices (\<lambda>j. bt_config_test j \<noteq> 1) ts))"

text \<open>The return codes of the steps, in order.\<close>

fun run_steps :: "(nat \<Rightarrow> launch \<Rightarrow> (int \<times> launch) run) \<Rightarrow> sched list \<Rightarrow> launch \<Rightarrow> (int list \<times> launch) run" where
  "run_steps run_i [] s = Some (Inr ([], s))"
| "run_steps run_i (Run i # steps) s = bind_run (run_i i s) (\<lambda>(rc, s). bind_run (run_steps run_i steps s)
     (\<lambda>(rcs, s). Some (Inr (rc # rcs, s))))"
| "run_steps run_i (Missing name # steps) s = bind_run (run_steps run_i steps s) (\<lambda>(rcs, s). Some (Inr (-1 # rcs, s)))"

section \<open>The loops run the schedule\<close>

text \<open>Running tests changes their iterations only.\<close>

definition same_tests :: "benchmark_test list \<Rightarrow> benchmark_test list \<Rightarrow> bool" where
  "same_tests ts us \<longleftrightarrow> map (\<lambda>t. t\<lparr>bt_iterations := 0\<rparr>) ts = map (\<lambda>t. t\<lparr>bt_iterations := 0\<rparr>) us"

lemma same_tests_refl [simp]: "same_tests ts ts"
  by (simp add: same_tests_def)

lemma same_tests_trans: "same_tests ts us \<Longrightarrow> same_tests us vs \<Longrightarrow> same_tests ts vs"
  by (simp add: same_tests_def)

lemma same_tests_length: "same_tests ts us \<Longrightarrow> length us = length ts"
  unfolding same_tests_def by (metis length_map)

lemma same_tests_nth: "same_tests ts us \<Longrightarrow> i < length ts \<Longrightarrow>
    bt_name (us ! i) = bt_name (ts ! i) \<and> bt_config_test (us ! i) = bt_config_test (ts ! i)"
proof -
  assume same: "same_tests ts us" and i: "i < length ts"
  have "(ts ! i)\<lparr>bt_iterations := 0\<rparr> = map (\<lambda>t. t\<lparr>bt_iterations := 0\<rparr>) ts ! i" using i by simp
  also have "\<dots> = (us ! i)\<lparr>bt_iterations := 0\<rparr>" using same same_tests_length [OF same] i by (simp add: same_tests_def)
  finally have eq: "(ts ! i)\<lparr>bt_iterations := 0\<rparr> = (us ! i)\<lparr>bt_iterations := 0\<rparr>" .
  have "bt_name ((ts ! i)\<lparr>bt_iterations := 0\<rparr>) = bt_name ((us ! i)\<lparr>bt_iterations := 0\<rparr>)"
    "bt_config_test ((ts ! i)\<lparr>bt_iterations := 0\<rparr>) = bt_config_test ((us ! i)\<lparr>bt_iterations := 0\<rparr>)"
    by (simp_all only: eq)
  then show ?thesis by simp
qed

definition static :: "(benchmark_test \<Rightarrow> bool) \<Rightarrow> bool" where
  "static p \<longleftrightarrow> (\<forall>a b. bt_name a = bt_name b \<longrightarrow> bt_config_test a = bt_config_test b \<longrightarrow> p a = p b)"

lemma static_intros [simp]: "static (\<lambda>j. bt_config_test j = k)" "static (\<lambda>j. bt_config_test j \<noteq> k)" "static (\<lambda>j. n = bt_name j)"
  by (simp_all add: static_def)

lemma same_tests_filter:
  assumes "same_tests ts us" and "static p" and "\<forall>i \<in> set is. i < length ts"
  shows "filter (\<lambda>i. p (us ! i)) is = filter (\<lambda>i. p (ts ! i)) is"
proof (rule filter_cong [OF refl])
  fix i assume "i \<in> set is"
  then have "i < length ts" using assms(3) by blast
  from same_tests_nth [OF assms(1) this] assms(2) show "p (us ! i) = p (ts ! i)" unfolding static_def by metis
qed

lemma same_tests_indices: "same_tests ts us \<Longrightarrow> static p \<Longrightarrow> indices p us = indices p ts"
  using same_tests_filter [of ts us p "[0..<length ts]"] same_tests_length [of ts us] by (simp add: indices_def)

lemma run_steps_append: "run_steps run_i (xs @ ys) s = bind_run (run_steps run_i xs s) (\<lambda>(r, s).
    bind_run (run_steps run_i ys s) (\<lambda>(r', s). Some (Inr (r @ r', s))))"
proof (induction xs arbitrary: s)
  case Nil
  have "bind_run m (\<lambda>(r', s). Some (Inr (r', s))) = m" for m :: "(int list \<times> launch) run"
    by (auto simp: bind_run_def split: option.split sum.split)
  then show ?case by simp
next
  case (Cons x xs)
  then show ?case
    by (cases x) (simp_all add: bind_run_assoc case_prod_unfold)
qed

text \<open>The interface to the launcher: a way to run one test that keeps the list.\<close>

locale test_runner =
  fixes run_i :: "nat \<Rightarrow> launch \<Rightarrow> (int \<times> launch) run"
  assumes keeps: "run_i i s = Some (Inr (rc, s')) \<Longrightarrow> same_tests (la_tests s) (la_tests s')"
begin

lemma run_steps_keeps: "run_steps run_i steps s = Some (Inr (rcs, s')) \<Longrightarrow>
    same_tests (la_tests s) (la_tests s') \<and> length rcs = length steps"
proof (induction steps arbitrary: s rcs)
  case (Cons x steps)
  then show ?case
    by (cases x) (fastforce simp: bind_run_Inr_iff dest: keeps intro: same_tests_trans)+
qed simp

lemma run_where_steps:
  assumes "static p" and "\<forall>i \<in> set is. i < length (la_tests s)"
  shows "run_where run_i p is found rc s = bind_run (run_steps run_i (map Run (filter (\<lambda>i. p (la_tests s ! i)) is)) s)
    (\<lambda>(rcs, s'). Some (Inr (found \<or> rcs \<noteq> [], last (rc # rcs), s')))"
  using assms(2)
proof (induction "is" arbitrary: found rc s)
  case (Cons i "is")
  then have i: "aread (la_tests s) (int i) = Inr (la_tests s ! i)" by simp
  show ?case
  proof (cases "p (la_tests s ! i)")
    case True
    have "run_where run_i p is True rc' s' = bind_run (run_steps run_i (map Run (filter (\<lambda>i. p (la_tests s ! i)) is)) s')
        (\<lambda>(rcs, s'). Some (Inr (True, last (rc' # rcs), s')))" if "run_i i s = Some (Inr (rc', s'))" for rc' s'
    proof -
      have "same_tests (la_tests s) (la_tests s')" using keeps [OF that] .
      with Cons.IH [of s' True rc'] same_tests_filter [OF this assms(1), of "is"] same_tests_length [OF this] Cons.prems
      show ?thesis by simp
    qed
    then show ?thesis using True i
      by (simp add: bind_run_assoc case_prod_unfold del: aread_Inr) (intro bind_run_cong, simp add: case_prod_unfold)
  next
    case False
    with i Cons show ?thesis by (simp del: aread_Inr)
  qed
qed simp

lemma run_where_indices:
  assumes "static p"
  shows "run_where run_i p [0..<length (la_tests s)] False rc s = bind_run (run_steps run_i (map Run (indices p (la_tests s))) s)
    (\<lambda>(rcs, s'). Some (Inr (rcs \<noteq> [], last (rc # rcs), s')))"
  using run_where_steps [OF assms, of "[0..<length (la_tests s)]" s False rc] by (simp add: indices_def)

lemma run_one_name:
  "bind_run (run_where run_i (\<lambda>j. name = bt_name j) [0..<length (la_tests s)] False rc s)
     (\<lambda>(found, rc, s). k (if found then rc else -1) s)
   = bind_run (run_steps run_i (named_steps (la_tests s) name) s) (\<lambda>(rcs, s). k (last (rc # rcs)) s)"
proof (cases "indices (\<lambda>j. name = bt_name j) (la_tests s) = []")
  case True
  then show ?thesis by (simp add: run_where_indices named_steps_def)
next
  case False
  have "fst x \<noteq> []" if "run_steps run_i (map Run (indices (\<lambda>j. name = bt_name j) (la_tests s))) s = Some (Inr x)" for x
    using run_steps_keeps [of "map Run (indices (\<lambda>j. name = bt_name j) (la_tests s))" s "fst x" "snd x"] that False by auto
  with False show ?thesis
    by (simp add: run_where_indices named_steps_def bind_run_assoc Let_def case_prod_unfold)
      (intro bind_run_cong, simp add: case_prod_unfold prod.expand)
qed

lemma run_named_steps:
  "run_named run_i names [0..<length (la_tests s)] rc s
     = bind_run (run_steps run_i (concat (map (named_steps (la_tests s)) names)) s) (\<lambda>(rcs, s'). Some (Inr (last (rc # rcs), s')))"
proof (induction names arbitrary: rc s)
  case (Cons name names)
  have "run_named run_i names [0..<length (la_tests s)] rc' s' = bind_run
      (run_steps run_i (concat (map (named_steps (la_tests s)) names)) s') (\<lambda>(rcs, s'). Some (Inr (last (rc' # rcs), s')))"
    if "run_steps run_i (named_steps (la_tests s) name) s = Some (Inr (rcs, s'))" for rcs s' rc'
  proof -
    have same: "same_tests (la_tests s) (la_tests s')" using run_steps_keeps [OF that] by simp
    have "named_steps (la_tests s') = named_steps (la_tests s)"
      using same_tests_indices [OF same] by (simp add: fun_eq_iff named_steps_def)
    with Cons.IH [of s' rc'] same_tests_length [OF same] show ?thesis by simp
  qed
  note rest = this
  have "run_named run_i (name # names) [0..<length (la_tests s)] rc s = bind_run (run_steps run_i (named_steps (la_tests s) name) s)
      (\<lambda>(rcs, s'). run_named run_i names [0..<length (la_tests s)] (last (rc # rcs)) s')"
    using run_one_name [of name s rc "run_named run_i names [0..<length (la_tests s)]"] by simp
  also have "\<dots> = bind_run (run_steps run_i (named_steps (la_tests s) name) s) (\<lambda>(rcs, s'). bind_run
      (run_steps run_i (concat (map (named_steps (la_tests s)) names)) s') (\<lambda>(rcs', s'). Some (Inr (last (last (rc # rcs) # rcs'), s'))))"
    using rest by (intro bind_run_cong) (auto simp: case_prod_unfold simp del: last.simps)
  also have "\<dots> = bind_run (run_steps run_i (concat (map (named_steps (la_tests s)) (name # names))) s)
      (\<lambda>(rcs, s'). Some (Inr (last (rc # rcs), s')))"
    by (simp add: run_steps_append bind_run_assoc case_prod_unfold) (intro bind_run_cong, auto simp: last_append)
  finally show ?case .
qed simp

end

lemma get_iters_keeps: "get_iters t args vals = Inr u \<Longrightarrow> u\<lparr>bt_iterations := 0\<rparr> = t\<lparr>bt_iterations := 0\<rparr>"
  by (auto simp: get_iters_def bind_res_Inr_iff)

lemma same_tests_update: "i < length ts \<Longrightarrow> u\<lparr>bt_iterations := 0\<rparr> = (ts ! i)\<lparr>bt_iterations := 0\<rparr> \<Longrightarrow> same_tests ts (ts[i := u])"
  by (simp add: same_tests_def map_update) (metis list_update_id nth_map)

lemma run_test_keeps:
  assumes "run_test dl cpus args home i s = Some (Inr (rc, s'))"
  shows "same_tests (la_tests s) (la_tests s')"
proof -
  have i: "i < length (la_tests s)" using assms by (auto simp: run_test_def bind_run_Inr_iff)
  then obtain p where p: "lib_path home (bt_name (la_tests s ! i)) = Inr p"
    using assms by (auto simp: run_test_def bind_run_Inr_iff)
  note run = assms [unfolded run_test_def, simplified bind_run_simps aread_ok [OF i] p]
  have "la_tests s' = la_tests s
      \<or> (\<exists>u. get_iters (la_tests s ! i) args (te_vals (la_env s)) = Inr u \<and> la_tests s' = (la_tests s)[i := u])"
  proof (cases "dl p (bt_name (la_tests s ! i))")
    case (Runs joined test)
    then show ?thesis using run by (auto simp: bind_run_Inr_iff Let_def split: if_splits)
  qed (use run in \<open>auto simp: bind_run_Inr_iff\<close>)
  then show ?thesis
    using same_tests_update [OF i get_iters_keeps] by auto
qed

interpretation runner: test_runner "run_test dl cpus args home" for dl cpus args home
  by unfold_locales (rule run_test_keeps)

lemma launch_schedule:
  "launch_tests dl cpus args home s = (let
     s0 = s\<lparr>la_env := (la_env s)\<lparr>te_table := empty_table\<rparr>\<rparr>; run_i = run_test dl cpus args home in
     bind_run (run_steps run_i (config_steps (la_tests s)) s0) (\<lambda>(_, s1).
     bind_run (run_steps run_i (selected_steps args (la_tests s)) s1) (\<lambda>(rcs, s2). Some (Inr (last (0 # rcs), s2)))))"
proof -
  define s0 where "s0 = s\<lparr>la_env := (la_env s)\<lparr>te_table := empty_table\<rparr>\<rparr>"
  have ts: "la_tests s0 = la_tests s" by (simp add: s0_def)
  have second: "(if test_list args \<noteq> [] then run_named (run_test dl cpus args home) (test_list args) [0..<length (la_tests s)] 0 s1
      else bind_run (run_where (run_test dl cpus args home) (\<lambda>j. bt_config_test j \<noteq> 1) [0..<length (la_tests s)] False 0 s1)
        (\<lambda>(_, rc, s). Some (Inr (rc, s))))
    = bind_run (run_steps (run_test dl cpus args home) (selected_steps args (la_tests s)) s1) (\<lambda>(rcs, s2). Some (Inr (last (0 # rcs), s2)))"
    if same: "same_tests (la_tests s) (la_tests s1)" for s1
  proof -
    have "named_steps (la_tests s1) = named_steps (la_tests s)"
      "indices (\<lambda>j. bt_config_test j \<noteq> 1) (la_tests s1) = indices (\<lambda>j. bt_config_test j \<noteq> 1) (la_tests s)"
      using same_tests_indices [OF same] by (simp_all add: fun_eq_iff named_steps_def)
    then show ?thesis
      using runner.run_named_steps [of dl cpus args home "test_list args" s1 0]
        runner.run_where_indices [of "\<lambda>j. bt_config_test j \<noteq> 1" dl cpus args home s1 0] same_tests_length [OF same]
      by (simp add: selected_steps_def bind_run_assoc case_prod_unfold)
  qed
  show ?thesis
    using runner.run_where_indices [of "\<lambda>j. bt_config_test j = 1" dl cpus args home s0 0] second ts
    by (simp add: launch_tests_def Let_def config_steps_def bind_run_assoc case_prod_unfold flip: s0_def)
      (intro bind_run_cong, auto simp: case_prod_unfold dest!: runner.run_steps_keeps [of _ _ _ _ _ _ "fst x" "snd x" for x, simplified])
qed

section \<open>Iterations\<close>

lemma f32_int: "\<bar>n\<bar> \<le> 2 ^ 24 \<Longrightarrow> rnd32 (of_int n) = Fin (of_int n)"
proof -
  assume n: "\<bar>n\<bar> \<le> 2 ^ 24"
  have "representable 24 (-126) (of_int n)" using n by (intro representable_of_int) simp_all
  moreover have "\<bar>of_int n :: rat\<bar> \<le> of_int (2 ^ 24)" using n by (simp only: of_int_abs [symmetric] of_int_le_iff)
  moreover have "(of_int (2 ^ 24) :: rat) < 2 powi 128" by simp
  ultimately show ?thesis by (simp add: rnd32_def roundv_representable pack_Fin del: of_int_power)
qed

lemma times_float_int:
  assumes "0 \<le> n" "0 \<le> m" "n * m \<le> 2 ^ 24" "n \<le> 2 ^ 24"
  shows "times_float n (Fin (of_int m)) = Inr (n * m)"
proof -
  have nm: "0 \<le> n * m" using assms by simp
  have "rnd64 (of_int (n * m)) = Fin (of_int (n * m))" by (rule rnd64_exact) (use nm assms(3) in simp)
  moreover have "rnd32 (of_int (n * m)) = Fin (of_int (n * m))" by (rule f32_int) (use nm assms(3) in simp)
  moreover have "of_int32f n = Fin (of_int n)" using assms by (simp add: of_int32f_def f32_int)
  moreover have "is_int (n * m)" using nm assms(3) by (simp add: is_int_def)
  ultimately show ?thesis
    by (simp add: times_float_def f64_to_int_Fin del: of_int_mult flip: of_int_mult)
qed

definition mode_multiplier :: "cmd_line_args \<Rightarrow> rt_params \<Rightarrow> f64" where
  "mode_multiplier args vals = multiplier (mode_vals (rt_mode args) vals)"

lemma get_iters_eq: "get_iters t args vals = bind_res (if quick args = 1 then Inr 1
    else times_float (bt_iterations t) (mode_multiplier args vals)) (\<lambda>n. Inr (t\<lparr>bt_iterations := n\<rparr>))"
  by (cases "rt_mode args") (simp_all add: get_iters_def mode_multiplier_def mode_vals_def)

section \<open>Printing the scores of a well-formed table\<close>

lemma print_scores_ok: "table_ok t \<Longrightarrow> \<exists>x. print_scores cpus bmtest t = Inr x"
proof -
  assume ok: "table_ok t"
  have "\<exists>x. find_valid es name = Inr x" if "\<forall>e \<in> set es. valid e \<noteq> 0 \<longrightarrow> bm_test e \<noteq> None" for es name
    using that by (induction es) auto
  moreover have "\<forall>e \<in> set (take MAX_TESTS t). valid e \<noteq> 0 \<longrightarrow> bm_test e \<noteq> None"
    using ok unfolding table_ok_def by (meson in_set_takeD)
  ultimately obtain x where "find_valid (take MAX_TESTS t) (bt_name bmtest) = Inr x" by blast
  then show ?thesis by (auto simp: print_scores_def split: option.split)
qed

section \<open>The main function on a well-formed file\<close>

lemma options_parsed:
  assumes "length d \<le> 4079" and "\<forall>opt \<in> set opts. option_ok opt"
    and "ca = fold apply_option opts (no_options\<lparr>dir_name := d, file_name := Some (d @ ''/config/input.txt'')\<rparr>)"
  shows "\<exists>ca0 out. setup_default_options no_options (Some d) = Inr (0, ca0)
    \<and> parse_cmd_line ca0 (concat (map render_option opts)) = Inr (Returns 0 ca, out)"
proof -
  let ?ca0 = "no_options\<lparr>dir_name := d, file_name := Some (d @ ''/config/input.txt'')\<rparr>"
  have "setup_default_options no_options (Some d) = Inr (0, ?ca0)"
    using assms(1) by (simp add: setup_default_options_def path_copy_def no_options_def Let_def)
  moreover have "parse_args ?ca0 False (concat (map render_option opts)) = Inr (Returns 0 ca)"
    using parse_options [OF assms(2), of ?ca0 False "[]"] assms(3) by simp
  ultimately show ?thesis by (simp add: parse_cmd_line_def)
qed

lemma main_launches:
  assumes "sys_mlock sys" and "build_home_dir (sys_names sys) (sys_cwd sys) argv0 = Inr home" and "sys_cwd sys = Some d" "length d \<le> 4079"
    and "\<forall>opt \<in> set opts. option_ok opt"
    and "ca = fold apply_option opts (no_options\<lparr>dir_name := d, file_name := Some (d @ ''/config/input.txt'')\<rparr>)" "file_name ca = Some f"
    and "\<forall>t \<in> set ts. spec_ok t" and "\<forall>e \<in> set es. int (snd e) \<le> INT_MAX"
    and "contents = file_of (concat (map render_test ts) @ map render_exp es)"
    and "vals = fold (\<lambda>(k, n) v. set_exp v (Fin (of_int (int n))) k) es (ip_vals no_params)"
    and "s0 = \<lparr>la_tests = rev (map entry_of ts), la_env = \<lparr>te_table = empty_table, te_vals = vals, te_world = sys_world sys\<rparr>\<rparr>"
  shows "main pw dl (sys\<lparr>sys_file := (\<lambda>_. None)(f \<mapsto> contents)\<rparr>) argv0 (concat (map render_option opts)) =
      bind_run (launch_tests dl (sys_cpus sys) ca home s0) (\<lambda>(_, s).
      bind_run (Some (report_dir (dir_name ca))) (\<lambda>dir.
      bind_run (Some (compute_system_scores pw (te_table (la_env s)))) (\<lambda>scores.
        Some (Inr (Reported dir (te_table (la_env s)) (verbose_lvl ca) scores)))))"
proof -
  have "parse_input_file (Some contents) no_params = Inr (0, \<lparr>ip_tests = rev (map entry_of ts), ip_vals = vals\<rparr>)"
    using parse_file_rendered [OF assms(8,9), of no_params] assms(10,11) by (simp add: no_params_def Let_def)
  then show ?thesis
    using assms(1-3,7) options_parsed [OF assms(4-6)] by (auto simp: main_def nonnull_def assms(12))
qed

lemma main_empty_line:
  assumes "sys_mlock sys" and "build_home_dir (sys_names sys) (sys_cwd sys) argv0 = Inr home" and "sys_cwd sys = Some d" "length d \<le> 4079"
    and "\<forall>opt \<in> set opts. option_ok opt"
    and "ca = fold apply_option opts (no_options\<lparr>dir_name := d, file_name := Some (d @ ''/config/input.txt'')\<rparr>)" "file_name ca = Some f"
    and "\<forall>t \<in> set ts. spec_ok t" and "\<forall>l \<in> set rest. line_ok l"
  shows "main pw dl (sys\<lparr>sys_file := (\<lambda>_. None)(f \<mapsto> file_of (concat (map render_test ts) @ [] # rest))\<rparr>)
        argv0 (concat (map render_option opts)) = Some (Inr (Exit (-1)))"
  using assms(1-3,7) options_parsed [OF assms(4-6)] parse_empty_line [OF assms(8,9), of no_params]
  by (auto simp: main_def nonnull_def)

section \<open>Properties\<close>

text \<open>
  C4: \<^verbatim>\<open>launch_tests\<close> clears the result table and then runs a schedule known beforehand: every
  configuration test in the order of the list, then the tests named with \<^verbatim>\<open>-t\<close>, each name with all
  tests that bear it, or else the tests that are not configuration tests.  Its return code is that
  of the last step alone, \<^verbatim>\<open>ERROR\<close> for a name that does not exist: the codes of the configuration
  tests and of all earlier steps are lost.
\<close>

theorem launch_runs_schedule:
  "launch_tests dl cpus args home s = (let
     s0 = s\<lparr>la_env := (la_env s)\<lparr>te_table := empty_table\<rparr>\<rparr>; run_i = run_test dl cpus args home in
     bind_run (run_steps run_i (config_steps (la_tests s)) s0) (\<lambda>(_, s1).
     bind_run (run_steps run_i (selected_steps args (la_tests s)) s1) (\<lambda>(rcs, s2). Some (Inr (last (0 # rcs), s2)))))"
  by (rule launch_schedule)

text \<open>
  The number of iterations is multiplied in place each time a test is run: with a whole
  multiplier the first run of a test has \<open>n * m\<close> iterations and a second one \<open>n * m * m\<close>, exactly,
  as long as the products stay below 16,777,217; a quick run always has one.
\<close>

lemma iterations_multiply_again:
  assumes "quick args \<noteq> 1" and "mode_multiplier args vals = Fin (of_int m)"
    and "0 \<le> bt_iterations t" "1 \<le> m" "bt_iterations t * m * m \<le> 2 ^ 24"
  shows "get_iters t args vals = Inr (t\<lparr>bt_iterations := bt_iterations t * m\<rparr>)
    \<and> get_iters (t\<lparr>bt_iterations := bt_iterations t * m\<rparr>) args vals = Inr (t\<lparr>bt_iterations := bt_iterations t * m * m\<rparr>)
    \<and> get_iters t (args\<lparr>quick := 1\<rparr>) vals = Inr (t\<lparr>bt_iterations := 1\<rparr>)"
proof -
  let ?n = "bt_iterations t"
  have "?n \<le> ?n * m" "?n * m \<le> ?n * m * m"
    using mult_left_mono [of 1 m ?n] mult_left_mono [of 1 m "?n * m"] assms(3,4) by simp_all
  then have "times_float ?n (Fin (of_int m)) = Inr (?n * m)" "times_float (?n * m) (Fin (of_int m)) = Inr (?n * m * m)"
    using assms(3-5) by (intro times_float_int; simp)+
  then show ?thesis using assms(1,2) by (simp add: get_iters_eq)
qed

lemma iterations_multiply_again_witness:
  "get_iters steady_test steady_args
      \<lparr>hrt = hrt fifty_params, srt = \<lparr>acceptable_percentage = Fin 50, range_percentage = Fin 10, multiplier = Fin (of_int 10)\<rparr>, grt = grt fifty_params\<rparr>
    = Inr (steady_test\<lparr>bt_iterations := bt_iterations steady_test * 10\<rparr>)
   \<and> get_iters (steady_test\<lparr>bt_iterations := bt_iterations steady_test * 10\<rparr>) steady_args
      \<lparr>hrt = hrt fifty_params, srt = \<lparr>acceptable_percentage = Fin 50, range_percentage = Fin 10, multiplier = Fin (of_int 10)\<rparr>, grt = grt fifty_params\<rparr>
    = Inr (steady_test\<lparr>bt_iterations := bt_iterations steady_test * 10 * 10\<rparr>)
   \<and> get_iters steady_test (steady_args\<lparr>quick := 1\<rparr>)
      \<lparr>hrt = hrt fifty_params, srt = \<lparr>acceptable_percentage = Fin 50, range_percentage = Fin 10, multiplier = Fin (of_int 10)\<rparr>, grt = grt fifty_params\<rparr>
    = Inr (steady_test\<lparr>bt_iterations := 1\<rparr>)"
  by (rule iterations_multiply_again) (simp_all add: steady_args_def steady_test_def mode_multiplier_def mode_vals_def)

text \<open>
  The launcher reports \<^verbatim>\<open>ERROR\<close> for a test whose library or function is missing, whose thread
  cannot be created or joined, or that reports it itself, and \<^verbatim>\<open>SUCCESS\<close> otherwise; printing the
  scores of a well-formed table never fails, and the iterations change only when the function was
  found.
\<close>

lemma run_test_outcomes:
  assumes "i < length (la_tests s)" and "lib_path home (bt_name (la_tests s ! i)) = Inr p"
    and "get_iters (la_tests s ! i) args (te_vals (la_env s)) = Inr t"
    and "f args t (la_env s) = Some (Inr (ret, env))" and "table_ok (te_table env)"
  shows "run_test (\<lambda>_ _. No_library) cpus args home i s = Some (Inr (-1, s))
    \<and> run_test (\<lambda>_ _. No_symbol) cpus args home i s = Some (Inr (-1, s))
    \<and> run_test (\<lambda>_ _. No_thread) cpus args home i s = Some (Inr (-1, s\<lparr>la_tests := (la_tests s)[i := t]\<rparr>))
    \<and> run_test (\<lambda>_ _. Runs joined f) cpus args home i s
      = Some (Inr (if joined \<and> ret \<noteq> -1 then 0 else -1, \<lparr>la_tests = (la_tests s)[i := t], la_env = env\<rparr>))"
  using assms(2-4) aread_ok [OF assms(1)] print_scores_ok [OF assms(5), of cpus t]
  by (auto simp: run_test_def Let_def simp del: aread_Inr)

lemma run_test_outcomes_witness:
  "run_test (\<lambda>_ _. No_library) 4 (steady_args\<lparr>quick := 1\<rparr>) ''/opt/rtmb'' 0 \<lparr>la_tests = [steady_test], la_env = steady_env\<rparr>
      = Some (Inr (-1, \<lparr>la_tests = [steady_test], la_env = steady_env\<rparr>))
    \<and> run_test (\<lambda>_ _. No_symbol) 4 (steady_args\<lparr>quick := 1\<rparr>) ''/opt/rtmb'' 0 \<lparr>la_tests = [steady_test], la_env = steady_env\<rparr>
      = Some (Inr (-1, \<lparr>la_tests = [steady_test], la_env = steady_env\<rparr>))
    \<and> run_test (\<lambda>_ _. No_thread) 4 (steady_args\<lparr>quick := 1\<rparr>) ''/opt/rtmb'' 0 \<lparr>la_tests = [steady_test], la_env = steady_env\<rparr>
      = Some (Inr (-1, \<lparr>la_tests = [steady_test], la_env = steady_env\<rparr>\<lparr>la_tests := [steady_test\<lparr>bt_iterations := 1\<rparr>]\<rparr>))
    \<and> run_test (\<lambda>_ _. Runs True (\<lambda>_ _ env. Some (Inr (0, env)))) 4 (steady_args\<lparr>quick := 1\<rparr>) ''/opt/rtmb'' 0 \<lparr>la_tests = [steady_test], la_env = steady_env\<rparr>
      = Some (Inr (0, \<lparr>la_tests = [steady_test\<lparr>bt_iterations := 1\<rparr>], la_env = steady_env\<rparr>))"
proof -
  let ?s = "\<lparr>la_tests = [steady_test], la_env = steady_env\<rparr>" and ?t = "steady_test\<lparr>bt_iterations := 1\<rparr>"
  have "table_ok (te_table steady_env)" using clock_table_ok by (simp add: steady_env_def)
  from run_test_outcomes [of 0 ?s "''/opt/rtmb''" "''/opt/rtmb/lib/libconfig.so''" "steady_args\<lparr>quick := 1\<rparr>" ?t
      "\<lambda>_ _ env. Some (Inr (0, env))" 0 steady_env 4 True, OF _ _ _ _ this]
  show ?thesis by (simp add: lib_path_def steady_test_def get_iters_eq)
qed

text \<open>
  C3: With a readable input file of well-formed test entries, the program runs exactly the schedule
  of these tests, the last entry of the file first, with the options of the command line, and
  reports the scores whatever the tests return; an empty line in the file ends the program with
  \<^verbatim>\<open>ERROR\<close> before any test.
\<close>

theorem main_runs_file:
  assumes "sys_mlock sys" and "build_home_dir (sys_names sys) (sys_cwd sys) argv0 = Inr home" and "sys_cwd sys = Some d" "length d \<le> 4079"
    and "\<forall>opt \<in> set opts. option_ok opt"
    and "ca = fold apply_option opts (no_options\<lparr>dir_name := d, file_name := Some (d @ ''/config/input.txt'')\<rparr>)" "file_name ca = Some f"
    and "\<forall>t \<in> set ts. spec_ok t" and "\<forall>e \<in> set es. int (snd e) \<le> INT_MAX" and "\<forall>l \<in> set rest. line_ok l"
    and "contents = file_of (concat (map render_test ts) @ map render_exp es)"
    and "vals = fold (\<lambda>(k, n) v. set_exp v (Fin (of_int (int n))) k) es (ip_vals no_params)"
    and "s0 = \<lparr>la_tests = rev (map entry_of ts), la_env = \<lparr>te_table = empty_table, te_vals = vals, te_world = sys_world sys\<rparr>\<rparr>"
  shows "main pw dl (sys\<lparr>sys_file := (\<lambda>_. None)(f \<mapsto> contents)\<rparr>) argv0 (concat (map render_option opts)) =
      bind_run (run_steps (run_test dl (sys_cpus sys) ca home) (config_steps (la_tests s0)) s0) (\<lambda>(_, s1).
      bind_run (run_steps (run_test dl (sys_cpus sys) ca home) (selected_steps ca (la_tests s0)) s1) (\<lambda>(_, s2).
      bind_run (Some (report_dir (dir_name ca))) (\<lambda>dir.
      bind_run (Some (compute_system_scores pw (te_table (la_env s2)))) (\<lambda>scores.
        Some (Inr (Reported dir (te_table (la_env s2)) (verbose_lvl ca) scores))))))
    \<and> main pw dl (sys\<lparr>sys_file := (\<lambda>_. None)(f \<mapsto> file_of (concat (map render_test ts) @ [] # rest))\<rparr>)
        argv0 (concat (map render_option opts)) = Some (Inr (Exit (-1)))"
proof -
  have same: "s0\<lparr>la_env := (la_env s0)\<lparr>te_table := empty_table\<rparr>\<rparr> = s0" using assms(13) by simp
  show ?thesis
    using main_launches [OF assms(1-9,11-13), of pw dl] main_empty_line [OF assms(1-8,10), of pw dl]
      launch_schedule [of dl "sys_cpus sys" ca home s0, unfolded Let_def same]
    by (simp add: bind_run_assoc case_prod_unfold)
qed

definition sample_system :: system where
  "sample_system = \<lparr>sys_mlock = True, sys_names = installed, sys_cwd = Some ''/opt/rtmb'', sys_file = \<lambda>_. None,
     sys_cpus = 4, sys_world = steady_world\<rparr>"

definition sample_options :: cmd_line_args where
  "sample_options = fold apply_option [Quick] (no_options\<lparr>dir_name := ''/opt/rtmb'', file_name := Some (''/opt/rtmb'' @ ''/config/input.txt'')\<rparr>)"

definition sample_launch :: launch where
  "sample_launch = \<lparr>la_tests = rev (map entry_of [sample_spec]), la_env = \<lparr>te_table = empty_table,
     te_vals = fold (\<lambda>(k, n) v. set_exp v (Fin (of_int (int n))) k) [(SRT_MULTIPLIER, 1)] (ip_vals no_params), te_world = sys_world sample_system\<rparr>\<rparr>"

theorem main_runs_file_witness:
  "main (\<lambda>x y. x) (\<lambda>_ _. No_library)
        (sample_system\<lparr>sys_file := (\<lambda>_. None)(''/opt/rtmb/config/input.txt'' \<mapsto> file_of (concat (map render_test [sample_spec]) @ map render_exp [(SRT_MULTIPLIER, 1)]))\<rparr>)
        ''/opt/rtmb/bin/rtmb'' (concat (map render_option [Quick])) =
      bind_run (run_steps (run_test (\<lambda>_ _. No_library) (sys_cpus sample_system) sample_options ''/opt/rtmb'')
        (config_steps (la_tests sample_launch)) sample_launch) (\<lambda>(_, s1).
      bind_run (run_steps (run_test (\<lambda>_ _. No_library) (sys_cpus sample_system) sample_options ''/opt/rtmb'')
        (selected_steps sample_options (la_tests sample_launch)) s1) (\<lambda>(_, s2).
      bind_run (Some (report_dir (dir_name sample_options))) (\<lambda>dir.
      bind_run (Some (compute_system_scores (\<lambda>x y. x) (te_table (la_env s2)))) (\<lambda>scores.
        Some (Inr (Reported dir (te_table (la_env s2)) (verbose_lvl sample_options) scores))))))
    \<and> main (\<lambda>x y. x) (\<lambda>_ _. No_library)
        (sample_system\<lparr>sys_file := (\<lambda>_. None)(''/opt/rtmb/config/input.txt'' \<mapsto> file_of (concat (map render_test [sample_spec]) @ [] # [''test'']))\<rparr>)
        ''/opt/rtmb/bin/rtmb'' (concat (map render_option [Quick])) = Some (Inr (Exit (-1)))"
proof (rule main_runs_file [OF _ _ _ _ _ sample_options_def _ _ _ _ refl refl sample_launch_def])
  show "\<forall>t \<in> set [sample_spec]. spec_ok t" by (simp add: spec_ok_def word_ok_def sample_spec_def)
qed (simp_all add: sample_system_def sample_options_def no_options_def line_ok_def installed_home)

end
