(* ===== verification/Disk_Io.thy ===== *)
theory Disk_Io
  imports Config_Tests
begin

text \<open>
  \<^verbatim>\<open>testcase/util/io_opern/disk_io_opern.c\<close> and the configuration tests of disk writes and reads.
  The environment says which file operations succeed (\<open>dsk\<close>), the length of the temporary file
  (\<open>dfile\<close>) and the block size of the file system; the contents of the file are all zeros.  The
  name of the file, made from the process number, is constant and left out, as is \<^verbatim>\<open>fclose\<close>,
  whose result no code looks at.
\<close>

section \<open>Operations on the temporary file\<close>

definition file_ok :: "world \<Rightarrow> bool \<times> world" where
  "file_ok w = (dsk w (dsk_n w), w\<lparr>dsk_n := Suc (dsk_n w)\<rparr>)"

definition open_file_for_read :: "world \<Rightarrow> world res" where
  "open_file_for_read w = (case file_ok w of (ok, w) \<Rightarrow>
     if ok \<and> dfile w \<noteq> None then Inr w else Inl Abort_called)"

definition open_file_for_write :: "world \<Rightarrow> world res" where
  "open_file_for_write w = (case file_ok w of (ok, w) \<Rightarrow>
     if ok then Inr (w\<lparr>dfile := Some 0\<rparr>) else Inl Abort_called)"

text \<open>A write that fails writes nothing; a read at \<open>pos\<close> is short at the end of the file.\<close>

definition fwrite :: "int \<Rightarrow> world \<Rightarrow> int \<times> world" where
  "fwrite n w = (case file_ok w of (ok, w) \<Rightarrow>
     if ok then (n, w\<lparr>dfile := map_option (\<lambda>len. len + n) (dfile w)\<rparr>) else (0, w))"

definition fread :: "int \<Rightarrow> int \<Rightarrow> world \<Rightarrow> int \<times> world" where
  "fread n pos w = (case file_ok w of (ok, w) \<Rightarrow>
     (if ok then (case dfile w of None \<Rightarrow> 0 | Some len \<Rightarrow> max 0 (min n (len - pos))) else 0, w))"

text \<open>\<open>k\<close> blocks are written one after the other; a short one aborts.\<close>

fun write_blocks :: "nat \<Rightarrow> int \<Rightarrow> world \<Rightarrow> world res" where
  "write_blocks 0 block_size w = Inr w"
| "write_blocks (Suc k) block_size w = (case fwrite block_size w of (n, w) \<Rightarrow>
     if n \<noteq> block_size then Inl Abort_called else write_blocks k block_size w)"

fun read_blocks :: "nat \<Rightarrow> int \<Rightarrow> int \<Rightarrow> world \<Rightarrow> world res" where
  "read_blocks 0 block_size pos w = Inr w"
| "read_blocks (Suc k) block_size pos w = (case fread block_size pos w of (n, w) \<Rightarrow>
     if n \<noteq> block_size then Inl Abort_called else read_blocks k block_size (pos + n) w)"

definition setup_file_for_read :: "int \<Rightarrow> int \<Rightarrow> world \<Rightarrow> world res" where
  "setup_file_for_read loops block_size w = (case file_ok w of (ok, w) \<Rightarrow>
     if \<not> ok then Inl Assert_failed
     else if block_size < 0 then Inl Abort_called
     else write_blocks (nat loops) block_size (w\<lparr>dfile := Some 0\<rparr>))"

definition disk_io_cleanup :: "world \<Rightarrow> world" where
  "disk_io_cleanup w = (case file_ok w of (ok, w) \<Rightarrow> if ok then w\<lparr>dfile := None\<rparr> else w)"

text \<open>\<^verbatim>\<open>f_bsize\<close> is an \<^verbatim>\<open>unsigned long\<close> and the function returns an \<^verbatim>\<open>int\<close>.\<close>

definition get_block_size :: "world \<Rightarrow> int res" where
  "get_block_size w = (case bsize w of None \<Rightarrow> Inl Abort_called | Some n \<Rightarrow> Inr (to_int32 n))"

section \<open>Measuring writes\<close>

text \<open>The readings of the clock are not checked; the two variables outlive the attempts.\<close>

definition disk_write_step :: "int \<Rightarrow> int \<Rightarrow> (readings \<times> world) rws \<Rightarrow> (int \<times> (readings \<times> world) rws) run" where
  "disk_write_step block_size sub_iters = (\<lambda>(r, (start_time, end_time), w).
     Some (bind_res (open_file_for_write w) (\<lambda>w. case keep_reading start_time w of (start_time, w) \<Rightarrow>
       bind_res (write_blocks (nat sub_iters) block_size w) (\<lambda>w. case keep_reading end_time w of (end_time, w) \<Rightarrow>
       bind_res (elapsed (start_time, end_time)) (\<lambda>time_diff.
       bind_res (add_entry r time_diff 0) (\<lambda>r. Inr (0, r, (start_time, end_time), w)))))))"

definition disk_write_run :: "int \<Rightarrow> int \<Rightarrow> int \<Rightarrow> (readings \<times> world) rws \<Rightarrow> (int \<times> (readings \<times> world) rws) run" where
  "disk_write_run block_size iters sub_iters s = iterate (nat iters) (disk_write_step block_size sub_iters) s"

definition disk_io_write :: "int \<Rightarrow> real_time_mode \<Rightarrow> rt_params \<Rightarrow> int \<Rightarrow> result_table \<Rightarrow> rw \<Rightarrow> rw run" where
  "disk_io_write iters mode vals threshold table s = (case s of (r, w) \<Rightarrow>
     bind_run (Some (get_block_size w)) (\<lambda>block_size.
     bind_run (Some (guard_res Assert_failed (0 < block_size))) (\<lambda>_.
     bind_run (Some (get_min_exec_time table)) (\<lambda>clock_accuracy.
     bind_run (retry_loop (disk_write_run block_size iters) (retry_step clock_accuracy mode vals threshold) 1 0
         (r, (None, None), w)) (\<lambda>(rc, sub_iters, r, rd, w).
       Some (bind_res (chk_int (block_size * sub_iters)) (\<lambda>n. Inr (r\<lparr>opern_amount := n\<rparr>, w))))))))"

definition disk_io_write_config :: "(f64 \<Rightarrow> f64 \<Rightarrow> f64) \<Rightarrow> test_fn" where
  "disk_io_write_config pw args bmtest env =
     bind_run (Some (bind_res (create_test_result 1 (bt_iterations bmtest)) (\<lambda>rs. aread rs 0))) (\<lambda>r.
     bind_run (disk_io_write (bt_iterations bmtest) (rt_mode args) (te_vals env) (bt_threshold bmtest) (te_table env)
         (r, te_world env)) (\<lambda>(r, w).
     Some (bind_res (add_result_to_result_table2 pw (te_table env) r DISKIO_WRITE_CONFIG bmtest)
       (\<lambda>table. Inr (0, env\<lparr>te_table := table, te_world := disk_io_cleanup w\<rparr>)))))"

section \<open>Measuring reads\<close>

definition disk_read_step :: "int \<Rightarrow> int \<Rightarrow> rw \<Rightarrow> (int \<times> rw) run" where
  "disk_read_step block_size sub_iters = (\<lambda>(r, w).
     Some (bind_res (open_file_for_read w) (\<lambda>w. case get_cur_time w of (None, w) \<Rightarrow> Inl Abort_called
       | (Some start_time, w) \<Rightarrow> bind_res (read_blocks (nat sub_iters) block_size 0 w) (\<lambda>w.
         case get_cur_time w of (None, w) \<Rightarrow> Inl Abort_called
         | (Some end_time, w) \<Rightarrow> bind_res (get_time_diff start_time end_time) (\<lambda>time_diff.
             bind_res (add_entry r time_diff 0) (\<lambda>r. Inr (0, r, w)))))))"

text \<open>Before each run the file is set up, byte by byte, with as much as an iteration reads.\<close>

definition disk_read_run :: "int \<Rightarrow> int \<Rightarrow> int \<Rightarrow> rw \<Rightarrow> (int \<times> rw) run" where
  "disk_read_run block_size iters sub_iters s =
     bind_run (Some (bind_res (chk_int (block_size * sub_iters)) (\<lambda>n. setup_file_for_read n 1 (snd s)))) (\<lambda>w.
       iterate (nat iters) (disk_read_step block_size sub_iters) (fst s, w))"

definition disk_io_read :: "int \<Rightarrow> real_time_mode \<Rightarrow> rt_params \<Rightarrow> int \<Rightarrow> result_table \<Rightarrow> rw \<Rightarrow> rw run" where
  "disk_io_read iters mode vals threshold table s = (case s of (r, w) \<Rightarrow>
     bind_run (Some (get_block_size w)) (\<lambda>block_size.
     bind_run (Some (guard_res Assert_failed (0 < block_size))) (\<lambda>_.
     bind_run (Some (get_min_exec_time table)) (\<lambda>clock_accuracy.
     bind_run (retry_loop (disk_read_run block_size iters) (retry_step clock_accuracy mode vals threshold) 2 0 (r, w))
       (\<lambda>(rc, sub_iters, r, w).
       Some (bind_res (chk_int (block_size * sub_iters)) (\<lambda>n. Inr (r\<lparr>opern_amount := n\<rparr>, w))))))))"

definition disk_io_read_config :: "(f64 \<Rightarrow> f64 \<Rightarrow> f64) \<Rightarrow> test_fn" where
  "disk_io_read_config pw args bmtest env =
     bind_run (Some (bind_res (create_test_result 1 (bt_iterations bmtest)) (\<lambda>rs. aread rs 0))) (\<lambda>r.
     bind_run (disk_io_read (bt_iterations bmtest) (rt_mode args) (te_vals env) (bt_threshold bmtest) (te_table env)
         (r, te_world env)) (\<lambda>(r, w).
     Some (bind_res (add_result_to_result_table2 pw (te_table env) r DISKIO_READ_CONFIG bmtest)
       (\<lambda>table. Inr (0, env\<lparr>te_table := table, te_world := disk_io_cleanup w\<rparr>)))))"

section \<open>What is written can be read\<close>

definition disk_works :: "world \<Rightarrow> bool" where
  "disk_works w \<longleftrightarrow> (\<forall>k. dsk w k)"

text \<open>Two environments that differ only in the file and the number of file operations.\<close>

definition same_clock :: "world \<Rightarrow> world \<Rightarrow> bool" where
  "same_clock w w' \<longleftrightarrow> clk w' = clk w \<and> clk_n w' = clk_n w \<and> dsk w' = dsk w \<and> bsize w' = bsize w"

lemma same_clock_trans: "same_clock u v \<Longrightarrow> same_clock v w \<Longrightarrow> same_clock u w"
  by (simp add: same_clock_def)

lemma same_clock_works: "same_clock u v \<Longrightarrow> disk_works u \<Longrightarrow> disk_works v"
  by (simp add: same_clock_def disk_works_def)

lemma write_blocks_ok:
  assumes "disk_works w" and "dfile w = Some len"
  shows "\<exists>w'. write_blocks k n w = Inr w' \<and> same_clock w w' \<and> dfile w' = Some (len + int k * n)"
  using assms
proof (induction k arbitrary: w len)
  case 0
  then show ?case by (simp add: same_clock_def)
next
  case (Suc k)
  define w1 where "w1 = w\<lparr>dsk_n := Suc (dsk_n w), dfile := Some (len + n)\<rparr>"
  have w1: "fwrite n w = (n, w1)" using Suc.prems by (simp add: fwrite_def file_ok_def disk_works_def w1_def)
  have sc: "same_clock w w1" by (simp add: same_clock_def w1_def)
  have "dfile w1 = Some (len + n)" by (simp add: w1_def)
  from Suc.IH [OF same_clock_works [OF sc Suc.prems(1)] this] w1 sc same_clock_trans [OF sc]
  show ?case by (auto simp: algebra_simps)
qed

lemma read_blocks_ok:
  assumes "disk_works w" and "dfile w = Some len" and "0 \<le> n" "pos + int k * n \<le> len" "0 \<le> pos"
  shows "\<exists>w'. read_blocks k n pos w = Inr w' \<and> same_clock w w' \<and> dfile w' = Some len"
  using assms
proof (induction k arbitrary: w pos)
  case 0
  then show ?case by (simp add: same_clock_def)
next
  case (Suc k)
  define w1 where "w1 = w\<lparr>dsk_n := Suc (dsk_n w)\<rparr>"
  have kn: "0 \<le> int k * n" using Suc.prems(3) by simp
  have split: "pos + n + int k * n \<le> len" using Suc.prems(4) by (simp add: algebra_simps)
  then have "n \<le> len - pos" using kn by linarith
  then have w1: "fread n pos w = (n, w1)" using Suc.prems(1,2,3)
    by (simp add: fread_def file_ok_def disk_works_def w1_def)
  have sc: "same_clock w w1" by (simp add: same_clock_def w1_def)
  have "dfile w1 = Some len" "0 \<le> pos + n" using Suc.prems by (simp_all add: w1_def)
  from Suc.IH [OF same_clock_works [OF sc Suc.prems(1)] this(1) Suc.prems(3) split this(2)] w1 same_clock_trans [OF sc]
  show ?case by auto
qed

lemma setup_file_ok:
  assumes "disk_works w" and "0 \<le> n"
  shows "\<exists>w'. setup_file_for_read n 1 w = Inr w' \<and> same_clock w w' \<and> dfile w' = Some n"
proof -
  define w1 where "w1 = w\<lparr>dsk_n := Suc (dsk_n w), dfile := Some 0\<rparr>"
  have sc: "same_clock w w1" by (simp add: same_clock_def w1_def)
  have "setup_file_for_read n 1 w = write_blocks (nat n) 1 w1"
    using assms by (simp add: setup_file_for_read_def file_ok_def disk_works_def w1_def)
  with write_blocks_ok [OF same_clock_works [OF sc assms(1)], of 0 "nat n" 1] same_clock_trans [OF sc] assms(2)
  show ?thesis by (auto simp: w1_def)
qed

lemma cleanup_removes: "disk_works w \<Longrightarrow> dfile (disk_io_cleanup w) = None"
  by (simp add: disk_io_cleanup_def file_ok_def disk_works_def)

section \<open>The runs keep the contract\<close>

lemma same_clock_steps: "same_clock w w' \<Longrightarrow> clock_steps lo b n w' = clock_steps lo b n w"
  by (simp add: same_clock_def clock_steps_def)

definition disk_write_inv :: "int \<Rightarrow> int \<Rightarrow> nat \<Rightarrow> readings \<times> world \<Rightarrow> bool" where
  "disk_write_inv lo b n s \<longleftrightarrow> clock_steps lo b n (snd s) \<and> disk_works (snd s)"

lemma disk_write_step_records: "records_time lo b (disk_write_inv lo b) (disk_write_step bs q)"
  unfolding records_time_def
proof (intro allI impI)
  fix r and s :: "readings \<times> world" and n assume i: "disk_write_inv lo b (Suc n) s"
  obtain u v w where s: "s = ((u, v), w)" by (metis prod.exhaust)
  have c: "clock_steps lo b (Suc n) w" and d: "disk_works w" using i by (simp_all add: disk_write_inv_def s)
  obtain st en where se: "clk w (clk_n w) = Some st" "clk w (Suc (clk_n w)) = Some en"
    "get_time_diff st en = Inr (ts_nsec en - ts_nsec st)" "in_range lo b (ts_nsec en - ts_nsec st)"
    using two_readings [OF c] .
  define w1 where "w1 = w\<lparr>dsk_n := Suc (dsk_n w), dfile := Some 0\<rparr>"
  define w2 where "w2 = w1\<lparr>clk_n := Suc (clk_n w)\<rparr>"
  have "disk_works w2" "dfile w2 = Some 0" using d by (simp_all add: w2_def w1_def disk_works_def)
  from write_blocks_ok [OF this, of "nat q" bs] obtain w3 where
    w3: "write_blocks (nat q) bs w2 = Inr w3" "same_clock w2 w3" by blast
  define w4 where "w4 = w3\<lparr>clk_n := Suc (clk_n w3)\<rparr>"
  have "clock_steps lo b n w4"
    using w3(2) by (intro clock_steps_next [OF c]) (simp_all add: w4_def same_clock_def w2_def w1_def)
  moreover have "disk_works w4" using w3(2) d by (simp add: w4_def same_clock_def w2_def w1_def disk_works_def)
  moreover have "open_file_for_write w = Inr w1" using d by (simp add: open_file_for_write_def file_ok_def disk_works_def w1_def)
  then have "disk_write_step bs q (r, s) = Some (bind_res (add_entry r (ts_nsec en - ts_nsec st) 0)
      (\<lambda>r. Inr (0, r, (Some st, Some en), w4)))"
    using se w3 by (simp add: disk_write_step_def s keep_reading_def get_cur_time_def elapsed_def w4_def same_clock_def
        w2_def w1_def)
  ultimately show "\<exists>t w'. in_range lo b t \<and> disk_write_inv lo b n w' \<and>
      disk_write_step bs q (r, s) = Some (bind_res (add_entry r t 0) (\<lambda>r. Inr (0, r, w')))"
    using se(4) by (intro exI [of _ "ts_nsec en - ts_nsec st"] exI [of _ "((Some st, Some en), w4)"]) (simp add: disk_write_inv_def)
qed

interpretation disk_write: timed_body "disk_write_run bs" disk_write_inv INT_MAX for bs
proof unfold_locales
  fix q lo b iters m r and w :: "readings \<times> world"
  assume "disk_write_inv lo b (nat iters + m) w" "run_ok iters b" "recorded r []" "max_entries r = iters"
  from iterate_run [OF disk_write_step_records this]
  show "\<exists>ts r' w'. disk_write_run bs iters q (r, w) = Some (Inr (0, r', w')) \<and> measured lo b iters r' ts \<and> disk_write_inv lo b m w'"
    by (simp add: disk_write_run_def)
qed

text \<open>While it is read the file has the length that was set up.\<close>

definition disk_read_inv :: "int \<Rightarrow> int \<Rightarrow> nat \<Rightarrow> world \<Rightarrow> bool" where
  "disk_read_inv lo b n w \<longleftrightarrow> clock_steps lo b n w \<and> disk_works w"

lemma disk_read_step_records:
  assumes "0 \<le> bs" "0 \<le> q"
  shows "records_time lo b (\<lambda>n w. disk_read_inv lo b n w \<and> dfile w = Some (bs * q)) (disk_read_step bs q)"
  unfolding records_time_def
proof (intro allI impI)
  fix r w n assume i: "disk_read_inv lo b (Suc n) w \<and> dfile w = Some (bs * q)"
  have c: "clock_steps lo b (Suc n) w" and d: "disk_works w" using i by (simp_all add: disk_read_inv_def)
  obtain st en where se: "clk w (clk_n w) = Some st" "clk w (Suc (clk_n w)) = Some en"
    "get_time_diff st en = Inr (ts_nsec en - ts_nsec st)" "in_range lo b (ts_nsec en - ts_nsec st)"
    using two_readings [OF c] .
  define w1 where "w1 = w\<lparr>dsk_n := Suc (dsk_n w)\<rparr>"
  define w2 where "w2 = w1\<lparr>clk_n := Suc (clk_n w)\<rparr>"
  have "disk_works w2" "dfile w2 = Some (bs * q)" using i d by (simp_all add: w2_def w1_def disk_works_def)
  from read_blocks_ok [OF this assms(1), of 0 "nat q"] assms(2) obtain w3 where
    w3: "read_blocks (nat q) bs 0 w2 = Inr w3" "same_clock w2 w3" "dfile w3 = Some (bs * q)" by (auto simp: mult.commute)
  define w4 where "w4 = w3\<lparr>clk_n := Suc (clk_n w3)\<rparr>"
  have "clock_steps lo b n w4"
    using w3(2) by (intro clock_steps_next [OF c]) (simp_all add: w4_def same_clock_def w2_def w1_def)
  moreover have "disk_works w4" "dfile w4 = Some (bs * q)"
    using w3(2,3) d by (simp_all add: w4_def same_clock_def w2_def w1_def disk_works_def)
  moreover have "open_file_for_read w = Inr w1"
    using i d by (simp add: open_file_for_read_def file_ok_def disk_works_def w1_def)
  then have "disk_read_step bs q (r, w) = Some (bind_res (add_entry r (ts_nsec en - ts_nsec st) 0) (\<lambda>r. Inr (0, r, w4)))"
    using se w3 by (simp add: disk_read_step_def get_cur_time_def w4_def same_clock_def w2_def w1_def)
  ultimately show "\<exists>t w'. in_range lo b t \<and> (disk_read_inv lo b n w' \<and> dfile w' = Some (bs * q)) \<and>
      disk_read_step bs q (r, w) = Some (bind_res (add_entry r t 0) (\<lambda>r. Inr (0, r, w')))"
    using se(4) by (intro exI [of _ "ts_nsec en - ts_nsec st"] exI [of _ w4]) (simp add: disk_read_inv_def)
qed

lemma disk_read_run_law:
  assumes "0 < bs" and "0 \<le> q" "q \<le> INT_MAX div bs" and "disk_read_inv lo b (nat iters + m) w" and "run_ok iters b"
    and "recorded r []" "max_entries r = iters"
  shows "\<exists>ts r' w'. disk_read_run bs iters q (r, w) = Some (Inr (0, r', w')) \<and> measured lo b iters r' ts \<and> disk_read_inv lo b m w'"
proof -
  have "bs * q \<le> bs * (INT_MAX div bs)" using assms(1,3) by (intro mult_left_mono) simp_all
  also have "\<dots> \<le> INT_MAX" using minus_mod_eq_mult_div [of INT_MAX bs] pos_mod_sign [OF assms(1), of INT_MAX] by linarith
  finally have n: "is_int (bs * q)" "0 \<le> bs * q" using assms(1,2) by (simp_all add: is_int_def order_trans [of _ 0])
  obtain w1 where w1: "setup_file_for_read (bs * q) 1 w = Inr w1" "same_clock w w1" "dfile w1 = Some (bs * q)"
    using setup_file_ok [OF _ n(2), of w] assms(4) by (auto simp: disk_read_inv_def)
  have "disk_read_inv lo b (nat iters + m) w1 \<and> dfile w1 = Some (bs * q)"
    using assms(4) w1 same_clock_steps [OF w1(2)] same_clock_works [OF w1(2)] by (simp add: disk_read_inv_def)
  from iterate_run [OF disk_read_step_records [of bs q], where m = m, OF _ _ this assms(5-7)] assms(1,2)
  show ?thesis using w1(1) n(1) by (auto simp: disk_read_run_def chk_int_ok)
qed

interpretation disk_read: timed_body "disk_read_run bs" disk_read_inv "if 0 < bs then INT_MAX div bs else -1" for bs
  by unfold_locales (rule disk_read_run_law, auto split: if_splits)

section \<open>Properties\<close>

text \<open>What the two tests need of the environment: a block size that is positive as an \<^verbatim>\<open>int\<close>, and room for the largest amount.\<close>

definition disk_config_ok :: "int \<Rightarrow> int \<Rightarrow> int \<Rightarrow> int \<Rightarrow> benchmark_test \<Rightarrow> world \<Rightarrow> bool" where
  "disk_config_ok lo b q blocks bmtest w \<longleftrightarrow> (\<exists>size. bsize w = Some size \<and> to_int32 size = blocks) \<and> 0 < blocks \<and>
     1 \<le> bt_threshold bmtest \<and> is_int (bt_threshold bmtest) \<and> blocks * (q * 2 ^ nat (bt_threshold bmtest - 1)) \<le> INT_MAX \<and>
     disk_works w \<and> clock_steps lo b (nat (bt_threshold bmtest) * nat (bt_iterations bmtest)) w"

lemma quantum_le:
  assumes "blocks * (q * 2 ^ n) \<le> INT_MAX" and "0 < blocks" "0 < (q :: int)" "k \<le> n"
  shows "is_int (blocks * (q * 2 ^ k))" "q * 2 ^ n \<le> INT_MAX" "q * 2 ^ n \<le> INT_MAX div blocks"
proof -
  have "(2::int) ^ k \<le> 2 ^ n" using assms(4) by simp
  then have "blocks * (q * 2 ^ k) \<le> blocks * (q * 2 ^ n)" using assms(2,3) by simp
  moreover have "0 \<le> blocks * (q * 2 ^ k)" using assms(2,3) by simp
  ultimately show "is_int (blocks * (q * 2 ^ k))" using assms(1) unfolding is_int_def by linarith
  have "0 \<le> q * 2 ^ n" using assms(3) by simp
  then have "1 * (q * 2 ^ n) \<le> blocks * (q * 2 ^ n)" using assms(2) by (intro mult_right_mono) simp_all
  then show "q * 2 ^ n \<le> INT_MAX" using assms(1) by simp
  show "q * 2 ^ n \<le> INT_MAX div blocks" using zdiv_mono1 [OF assms(1,2)] assms(2) by simp
qed

text \<open>
  With a working disk and clock \<^verbatim>\<open>disk_io_write_config\<close> ends within \<^verbatim>\<open>_threshold\<close> attempts: it
  enters the statistics of the last run, the amount is the block size times the number of blocks
  that an iteration wrote, and the temporary file is removed.
\<close>

lemma disk_write_config_ends:
  assumes "config_ok clock b args bmtest env" and "clock < of_ll lo"
    and "disk_config_ok lo b 1 blocks bmtest (te_world env)"
  shows "\<exists>k ts r env'. disk_io_write_config pw args bmtest env = Some (Inr (0, env'))
    \<and> entered DISKIO_WRITE_CONFIG r bmtest (te_table env) (te_table env') \<and> te_vals env' = te_vals env
    \<and> opern_amount r = blocks * 2 ^ k \<and> int k < bt_threshold bmtest \<and> measured lo b (bt_iterations bmtest) r ts
    \<and> (passed r \<or> int k = bt_threshold bmtest - 1) \<and> dfile (te_world env') = None"
proof -
  have c: "table_ok (te_table env)" "get_min_exec_time (te_table env) = Inr clock" "percent_ok (rt_mode args) (te_vals env)"
    "run_ok (bt_iterations bmtest) b" "Fin 0 < bt_reference_score bmtest"
    using assms(1) by (simp_all add: config_ok_def)
  obtain size where d: "bsize (te_world env) = Some size" "to_int32 size = blocks" "0 < blocks" "1 \<le> bt_threshold bmtest"
    "is_int (bt_threshold bmtest)" "blocks * (1 * 2 ^ nat (bt_threshold bmtest - 1)) \<le> INT_MAX" "disk_works (te_world env)"
    "clock_steps lo b (nat (bt_threshold bmtest) * nat (bt_iterations bmtest)) (te_world env)"
    using assms(3) unfolding disk_config_ok_def by blast
  let ?r0 = "new_result (bt_iterations bmtest) (bt_iterations bmtest)"
  have "disk_write_inv lo b (nat (bt_threshold bmtest - 0) * nat (bt_iterations bmtest)) ((None, None), te_world env)"
    using d(7,8) by (simp add: disk_write_inv_def)
  from disk_write.ends_within_threshold [OF assms(2) c(3,4) zero_less_one _ order_refl order_refl _ d(5) this, where bs = blocks and r = ?r0]
    quantum_le(2) [OF d(6,3) zero_less_one order_refl] d(4) new_result_ready [OF c(4)]
  obtain k ts r rd w m where loop: "retry_loop (disk_write_run blocks (bt_iterations bmtest))
      (retry_step clock (rt_mode args) (te_vals env) (bt_threshold bmtest)) 1 0 (?r0, (None, None), te_world env)
      = Some (Inr (0, 2 ^ k, r, rd, w))" "int k < bt_threshold bmtest" "measured lo b (bt_iterations bmtest) r ts"
    "passed r \<or> int k = bt_threshold bmtest - 1" "disk_works w" by (force simp: disk_write_inv_def)
  have "is_int (blocks * 2 ^ k)" using quantum_le(1) [OF d(6,3), of k] loop(2) by (simp add: le_nat_iff)
  moreover
  obtain t' where "add_result_to_result_table2 pw (te_table env) (r\<lparr>opern_amount := blocks * 2 ^ k\<rparr>) DISKIO_WRITE_CONFIG bmtest = Inr t'"
    "entered DISKIO_WRITE_CONFIG (r\<lparr>opern_amount := blocks * 2 ^ k\<rparr>) bmtest (te_table env) t'"
    using add_result2_entered [OF c(1) _ c(5)] loop(3) measured_opern_amount by blast
  moreover have "0 \<le> bt_iterations bmtest" using c(4) by (simp add: run_ok_def)
  ultimately show ?thesis using loop c(2) d(1-3)
    by (intro exI [of _ k] exI [of _ ts] exI [of _ "r\<lparr>opern_amount := blocks * 2 ^ k\<rparr>"]
        exI [of _ "env\<lparr>te_table := t', te_world := disk_io_cleanup w\<rparr>"])
      (simp add: disk_io_write_config_def disk_io_write_def create_one measured_opern_amount passed_opern_amount
        get_block_size_def guard_res_def chk_int_ok cleanup_removes)
qed

lemma steady_disk: "q \<in> {1, 2} \<Longrightarrow> disk_config_ok 50000 50000 q 4096 steady_test (te_world steady_env)"
  by (auto simp: disk_config_ok_def steady_test_def steady_env_def steady_clock is_int_def)
    (simp_all add: steady_world_def disk_works_def to_int32_def)

lemma disk_write_config_ends_witness:
  "\<exists>k ts r env'. disk_io_write_config (\<lambda>x y. x) steady_args steady_test steady_env = Some (Inr (0, env'))
    \<and> entered DISKIO_WRITE_CONFIG r steady_test (te_table steady_env) (te_table env') \<and> te_vals env' = te_vals steady_env
    \<and> opern_amount r = 4096 * 2 ^ k \<and> int k < bt_threshold steady_test \<and> measured 50000 50000 (bt_iterations steady_test) r ts
    \<and> (passed r \<or> int k = bt_threshold steady_test - 1) \<and> dfile (te_world env') = None"
  by (rule disk_write_config_ends [OF steady_config]) (simp_all add: steady_disk)

text \<open>
  C27: With a working disk and clock \<^verbatim>\<open>disk_io_read_config\<close> ends within \<^verbatim>\<open>_threshold\<close> attempts: it
  enters the statistics of the last run, the amount is the block size times the number of blocks
  that an iteration read from a file that was set up with as many bytes, and the temporary file is removed.
\<close>

theorem disk_read_config_ends:
  assumes "config_ok clock b args bmtest env" and "clock < of_ll lo"
    and "disk_config_ok lo b 2 blocks bmtest (te_world env)"
  shows "\<exists>k ts r env'. disk_io_read_config pw args bmtest env = Some (Inr (0, env'))
    \<and> entered DISKIO_READ_CONFIG r bmtest (te_table env) (te_table env') \<and> te_vals env' = te_vals env
    \<and> opern_amount r = blocks * (2 * 2 ^ k) \<and> int k < bt_threshold bmtest \<and> measured lo b (bt_iterations bmtest) r ts
    \<and> (passed r \<or> int k = bt_threshold bmtest - 1) \<and> dfile (te_world env') = None"
proof -
  have c: "table_ok (te_table env)" "get_min_exec_time (te_table env) = Inr clock" "percent_ok (rt_mode args) (te_vals env)"
    "run_ok (bt_iterations bmtest) b" "Fin 0 < bt_reference_score bmtest"
    using assms(1) by (simp_all add: config_ok_def)
  obtain size where d: "bsize (te_world env) = Some size" "to_int32 size = blocks" "0 < blocks" "1 \<le> bt_threshold bmtest"
    "is_int (bt_threshold bmtest)" "blocks * (2 * 2 ^ nat (bt_threshold bmtest - 1)) \<le> INT_MAX" "disk_works (te_world env)"
    "clock_steps lo b (nat (bt_threshold bmtest) * nat (bt_iterations bmtest)) (te_world env)"
    using assms(3) unfolding disk_config_ok_def by blast
  let ?r0 = "new_result (bt_iterations bmtest) (bt_iterations bmtest)"
  have inv: "disk_read_inv lo b (nat (bt_threshold bmtest - 0) * nat (bt_iterations bmtest)) (te_world env)"
    using d(7,8) by (simp add: disk_read_inv_def)
  have qm: "(if 0 < blocks then INT_MAX div blocks else -1) \<le> INT_MAX"
    using d(3) zdiv_mono2 [of INT_MAX 1 blocks] by simp
  from disk_read.ends_within_threshold [OF assms(2) c(3,4) zero_less_numeral _ qm _ _ d(5) inv, where r = ?r0]
    quantum_le(3) [OF d(6,3) zero_less_numeral order_refl] d(3,4) new_result_ready [OF c(4)]
  obtain k ts r w m where loop: "retry_loop (disk_read_run blocks (bt_iterations bmtest))
      (retry_step clock (rt_mode args) (te_vals env) (bt_threshold bmtest)) 2 0 (?r0, te_world env)
      = Some (Inr (0, 2 * 2 ^ k, r, w))" "int k < bt_threshold bmtest" "measured lo b (bt_iterations bmtest) r ts"
    "passed r \<or> int k = bt_threshold bmtest - 1" "disk_works w" by (force simp: disk_read_inv_def)
  have "is_int (blocks * (2 * 2 ^ k))" using quantum_le(1) [OF d(6,3), of k] loop(2) by (simp add: le_nat_iff)
  moreover
  obtain t' where "add_result_to_result_table2 pw (te_table env) (r\<lparr>opern_amount := blocks * (2 * 2 ^ k)\<rparr>) DISKIO_READ_CONFIG bmtest = Inr t'"
    "entered DISKIO_READ_CONFIG (r\<lparr>opern_amount := blocks * (2 * 2 ^ k)\<rparr>) bmtest (te_table env) t'"
    using add_result2_entered [OF c(1) _ c(5)] loop(3) measured_opern_amount by blast
  moreover have "0 \<le> bt_iterations bmtest" using c(4) by (simp add: run_ok_def)
  ultimately show ?thesis using loop c(2) d(1-3)
    by (intro exI [of _ k] exI [of _ ts] exI [of _ "r\<lparr>opern_amount := blocks * (2 * 2 ^ k)\<rparr>"]
        exI [of _ "env\<lparr>te_table := t', te_world := disk_io_cleanup w\<rparr>"])
      (simp add: disk_io_read_config_def disk_io_read_def create_one measured_opern_amount passed_opern_amount
        get_block_size_def guard_res_def chk_int_ok cleanup_removes)
qed

theorem disk_read_config_ends_witness:
  "\<exists>k ts r env'. disk_io_read_config (\<lambda>x y. x) steady_args steady_test steady_env = Some (Inr (0, env'))
    \<and> entered DISKIO_READ_CONFIG r steady_test (te_table steady_env) (te_table env') \<and> te_vals env' = te_vals steady_env
    \<and> opern_amount r = 4096 * (2 * 2 ^ k) \<and> int k < bt_threshold steady_test \<and> measured 50000 50000 (bt_iterations steady_test) r ts
    \<and> (passed r \<or> int k = bt_threshold steady_test - 1) \<and> dfile (te_world env') = None"
  by (rule disk_read_config_ends [OF steady_config]) (simp_all add: steady_disk)

end
