(* ===== verification/Time_Accuracy.thy ===== *)
theory Time_Accuracy
  imports Config_Tests
begin

text \<open>
  \<^verbatim>\<open>testcase/time_accuracy_test/time_accuracy_test.c\<close>: the test sleeps for the time that the timer
  test found and records by how much each sleep was too long.  What it prints is left out.
\<close>

section \<open>The test\<close>

text \<open>\<^verbatim>\<open>req_time\<close> is computed once, by C division.\<close>

definition sleep_request :: "int \<Rightarrow> timespec" where
  "sleep_request sleep_time = \<lparr>tv_sec = sleep_time sdiv 1000000000, tv_nsec = sleep_time smod 1000000000\<rparr>"

definition accuracy_step :: "int \<Rightarrow> rw \<Rightarrow> (int \<times> rw) run" where
  "accuracy_step sleep_time s = (case get_cur_time (snd s) of
       (None, w) \<Rightarrow> give_up (fst s, w)
     | (Some start_time, w) \<Rightarrow> (case nanosleep w (sleep_request sleep_time) of
         (Slept, w) \<Rightarrow> (case get_cur_time w of
             (None, w) \<Rightarrow> give_up (fst s, w)
           | (Some end_time, w) \<Rightarrow> Some (bind_res (get_time_diff start_time end_time) (\<lambda>time_diff.
               bind_res (chk_ll (time_diff - sleep_time)) (\<lambda>delta.
               if delta < 0 then Inl Abort_called
               else bind_res (add_entry (fst s) delta 0) (\<lambda>r. Inr (0, r, w))))))
       | (_, w) \<Rightarrow> Some (Inl Abort_called)))"

definition time_accuracy :: "(f64 \<Rightarrow> f64 \<Rightarrow> f64) \<Rightarrow> test_fn" where
  "time_accuracy pw args bmtest env =
     bind_run (Some (bind_res (create_test_result 1 (bt_iterations bmtest)) (\<lambda>rs. aread rs 0))) (\<lambda>r.
     bind_run (Some (get_ideal_sleep_time (te_table env))) (\<lambda>sleep_time.
     bind_run (iterate (nat (bt_iterations bmtest)) (accuracy_step sleep_time) (r, te_world env)) (\<lambda>(rc, r, w).
       if rc = -1 then Some (Inr (-1, env\<lparr>te_world := w\<rparr>))
       else Some (bind_res (set_test_result_name r ''time accuracy test '') (\<lambda>r.
         bind_res (check_pass_criteria r (rt_mode args) (te_vals env) 0) (\<lambda>(rc, r).
         bind_res (add_result_to_result_table2 pw (te_table env) r TIMER_ACCURACY_TEST bmtest) (\<lambda>table.
         Inr (0, env\<lparr>te_table := table, te_world := w\<rparr>))))))))"

section \<open>An iteration records the excess\<close>

definition sleeps_well :: "world \<Rightarrow> bool" where
  "sleeps_well w \<longleftrightarrow> (\<forall>k rq. nsl w k rq = Slept)"

definition accuracy_inv :: "int \<Rightarrow> int \<Rightarrow> nat \<Rightarrow> world \<Rightarrow> bool" where
  "accuracy_inv sleep_time b n w \<longleftrightarrow> clock_steps sleep_time (sleep_time + b) n w \<and> sleeps_well w"

lemma accuracy_step_exact:
  assumes "0 \<le> sleep_time" and "accuracy_inv sleep_time b (Suc n) w"
  defines "t \<equiv> ts_nsec (the (clk w (Suc (clk_n w)))) - ts_nsec (the (clk w (clk_n w))) - sleep_time"
  shows "in_range 0 b t \<and> accuracy_inv sleep_time b n (sleep_once (sleep_request sleep_time) w)
    \<and> accuracy_step sleep_time (r, w) = Some (bind_res (add_entry r t 0) (\<lambda>r. Inr (0, r, sleep_once (sleep_request sleep_time) w)))"
proof -
  have i: "clock_steps sleep_time (sleep_time + b) (Suc n) w" "sleeps_well w" using assms(2) by (simp_all add: accuracy_inv_def)
  obtain s e where se: "clk w (clk_n w) = Some s" "clk w (Suc (clk_n w)) = Some e"
    "get_time_diff s e = Inr (ts_nsec e - ts_nsec s)" "in_range sleep_time (sleep_time + b) (ts_nsec e - ts_nsec s)"
    using two_readings [OF i(1)] .
  have ll: "is_ll (ts_nsec e - ts_nsec s)" using se(3) by (auto simp: get_time_diff_def bind_res_Inr_iff)
  have t: "t = ts_nsec e - ts_nsec s - sleep_time" using se(1,2) by (simp add: t_def)
  have r: "in_range 0 b t" "is_ll t" using se(4) ll assms(1) by (auto simp: t in_range_def is_ll_def)
  have "clock_steps sleep_time (sleep_time + b) n (sleep_once (sleep_request sleep_time) w)"
    by (rule clock_steps_next [OF i(1)]) (simp_all add: sleep_once_def)
  with se r i(2) show ?thesis
    by (simp add: accuracy_step_def accuracy_inv_def get_cur_time_def nanosleep_def sleeps_well_def chk_ll_ok sleep_once_def in_range_def flip: t)
qed

lemma measured_named: "measured lo b iters (r\<lparr>tname := s\<rparr>) ts = measured lo b iters r ts"
  by (simp add: measured_def recorded_def summarised_def)

text \<open>A clock that runs slower than the sleep ends the program.\<close>

lemma accuracy_too_short:
  assumes "clk w (clk_n w) = Some s" "clk w (Suc (clk_n w)) = Some e" "nsl w (length (slept w)) (sleep_request sleep_time) = Slept"
    and "ts_ok s" "ts_ok e" "0 \<le> sleep_time" "ts_nsec e - ts_nsec s < sleep_time" "is_ll sleep_time"
  shows "accuracy_step sleep_time (r, w) = Some (Inl (if is_ll (ts_nsec e - ts_nsec s - sleep_time) then Abort_called else Overflow))"
  using assms by (simp add: accuracy_step_def get_cur_time_def nanosleep_def time_diff_ok chk_ll_def)

section \<open>Properties\<close>

text \<open>
  C29: When every sleep lasts at least as long as asked, by less than \<open>b\<close>, \<^verbatim>\<open>time_accuracy\<close> returns
  \<^verbatim>\<open>SUCCESS\<close>: it asks once in every iteration for the sleep time of the timer test's entry, and enters, with their complete
  statistics, the elapsed times between its pairs of readings less the sleep time, in their order; only its own bucket changes.
\<close>

theorem time_accuracy_result:
  assumes "table_ok (te_table env)" and "get_ideal_sleep_time (te_table env) = Inr sleep_time" and "0 \<le> sleep_time"
    and "percent_ok (rt_mode args) (te_vals env)" and "run_ok (bt_iterations bmtest) b" and "Fin 0 < bt_reference_score bmtest"
    and "clock_steps sleep_time (sleep_time + b) (nat (bt_iterations bmtest)) (te_world env)" and "sleeps_well (te_world env)"
  shows "\<exists>r env'. time_accuracy pw args bmtest env = Some (Inr (0, env'))
    \<and> entered TIMER_ACCURACY_TEST r bmtest (te_table env) (te_table env') \<and> te_vals env' = te_vals env
    \<and> measured 0 b (bt_iterations bmtest) r (map (\<lambda>t. t - sleep_time) (elapsed_times (te_world env) (nat (bt_iterations bmtest))))
    \<and> slept (te_world env') = slept (te_world env) @ replicate (nat (bt_iterations bmtest)) (sleep_request sleep_time)
    \<and> tname r = ''time accuracy test ''"
proof -
  let ?n = "bt_iterations bmtest" and ?w = "te_world env" and ?next = "sleep_once (sleep_request sleep_time)"
  let ?ts = "map (\<lambda>t. t - sleep_time) (elapsed_times ?w (nat ?n))"
  have it: "0 \<le> ?n" using assms(5) by (simp add: run_ok_def)
  have inv: "accuracy_inv sleep_time b (nat ?n + 0) ?w" using assms(7,8) by (simp add: accuracy_inv_def)
  have ts: "map (\<lambda>i. ts_nsec (the (clk ((?next ^^ i) ?w) (Suc (clk_n ((?next ^^ i) ?w))))) - ts_nsec (the (clk ((?next ^^ i) ?w) (clk_n ((?next ^^ i) ?w))))
      - sleep_time) [0..<nat ?n] = ?ts" by (simp add: elapsed_times_def sleep_often)
  obtain r where r: "iterate (nat ?n) (accuracy_step sleep_time) (new_result ?n ?n, ?w) = Some (Inr (0, r, (?next ^^ nat ?n) ?w))"
    "measured 0 b ?n r ?ts"
    using iterate_exact_run [where step = "accuracy_step sleep_time" and P = "accuracy_inv sleep_time b", OF accuracy_step_exact [OF assms(3)] inv assms(5)]
      new_result_ready [OF assms(5)] unfolding ts by blast
  let ?r1 = "r\<lparr>tname := ''time accuracy test ''\<rparr>"
  obtain r' where r': "check_pass_criteria ?r1 (rt_mode args) (te_vals env) 0 = Inr (if passed r' then 0 else -1, r')"
    "measured 0 b ?n r' ?ts"
    using check_pass_measured [OF _ assms(4), of 0 b ?n ?r1] r(2) by (auto simp: measured_named)
  have "tname r' = ''time accuracy test ''"
    using r'(1) by (auto simp: check_pass_criteria_def bind_res_Inr_iff synch_do_def Let_def)
  moreover obtain t' where "add_result_to_result_table2 pw (te_table env) r' TIMER_ACCURACY_TEST bmtest = Inr t'"
    "entered TIMER_ACCURACY_TEST r' bmtest (te_table env) t'" using add_result2_entered [OF assms(1) r'(2) assms(6)] by blast
  ultimately show ?thesis using r r' assms(2) it
    by (intro exI [of _ r'] exI [of _ "env\<lparr>te_table := t', te_world := (?next ^^ nat ?n) ?w\<rparr>"])
      (simp add: time_accuracy_def create_one set_test_result_name_def sleep_often)
qed

text \<open>The timer test entered a sleep time of 2000 ns; each sleep takes 50 microseconds.\<close>

definition timer_table :: result_table where
  "timer_table = empty_table[1 := \<lparr>fbmt = Some \<lparr>fb_score = [create_test_score3 (one_time\<lparr>opern_amount := 2000\<rparr>)],
     throughput_test_score = Fin 1, consistency_test_score = Fin 100, fb_test_score = Fin 1, test_pass = 1\<rparr>,
     bm_test = Some steady_test, valid = 1\<rparr>]"

lemma timer_table_ok: "table_ok timer_table \<and> get_ideal_sleep_time timer_table = Inr 2000"
proof -
  have "table_ok timer_table" using empty_table_ok
    by (auto simp: table_ok_def timer_table_def dest!: set_update_subset_insert [THEN subsetD])
  moreover have "length empty_table = 18" using empty_table_ok by (simp add: table_ok_def)
  ultimately show ?thesis
    by (simp add: timer_table_def get_ideal_sleep_time_def first_result_def aread_def vget_def create_test_score3_def
        create_test_score1_def)
qed

theorem time_accuracy_result_witness:
  "\<exists>r env'. time_accuracy (\<lambda>x y. x) steady_args steady_test (steady_env\<lparr>te_table := timer_table\<rparr>) = Some (Inr (0, env'))
    \<and> entered TIMER_ACCURACY_TEST r steady_test (te_table (steady_env\<lparr>te_table := timer_table\<rparr>)) (te_table env')
    \<and> te_vals env' = te_vals (steady_env\<lparr>te_table := timer_table\<rparr>)
    \<and> measured 0 50000 (bt_iterations steady_test) r
        (map (\<lambda>t. t - 2000) (elapsed_times (te_world (steady_env\<lparr>te_table := timer_table\<rparr>)) (nat (bt_iterations steady_test))))
    \<and> slept (te_world env') = slept (te_world (steady_env\<lparr>te_table := timer_table\<rparr>))
        @ replicate (nat (bt_iterations steady_test)) (sleep_request 2000)
    \<and> tname r = ''time accuracy test ''"
proof (rule time_accuracy_result [where sleep_time = 2000])
  have "clock_steps 50000 50000 n steady_world" for n by (rule steady_clock)
  then show "clock_steps 2000 (2000 + 50000) (nat (bt_iterations steady_test)) (te_world (steady_env\<lparr>te_table := timer_table\<rparr>))"
    by (auto simp: clock_steps_def in_range_def steady_env_def steady_world_def ts_ok_def ts_nsec_def)
qed (use steady_config timer_table_ok in \<open>simp_all add: config_ok_def steady_env_def steady_test_def sleeps_well_def steady_world_def\<close>)

end
