(* ===== verification/Periodic_Event.thy ===== *)
theory Periodic_Event
  imports Time_Accuracy
begin

text \<open>
  \<^verbatim>\<open>testcase/periodic_event_test/periodic_event_test.c\<close>: a timer sends a signal periodically; the
  handler stores when it ran, and the test waits until it has run once more than there are
  iterations, records by how much each run was late, and tries again with a longer period.  The
  environment says at which ticks of the waiting loop a signal arrives (\<open>arrives\<close>); a tick without
  one is a wait that timed out.
\<close>

section \<open>The signal handler\<close>

record periodic =
  dispatch_times :: "timespec list"
  events_fired :: int
  pe_done :: bool
  pe_world :: world

definition timer_expiry_handler :: "int \<Rightarrow> periodic \<Rightarrow> periodic res" where
  "timer_expiry_handler events_to_fire s = (case get_cur_time (pe_world s) of
       (None, w) \<Rightarrow> Inl Abort_called
     | (Some fired_time, w) \<Rightarrow> let s = s\<lparr>pe_world := w\<rparr> in
         if pe_done s then Inr s
         else if events_fired s < events_to_fire then bind_res (awrite (dispatch_times s) (events_fired s) fired_time) (\<lambda>ts.
           Inr (s\<lparr>dispatch_times := ts, events_fired := events_fired s + 1\<rparr>))
         else Inr (s\<lparr>pe_done := True\<rparr>))"

text \<open>\<^verbatim>\<open>while (!done) sigtimedwait(...)\<close>\<close>

partial_function (option) wait_until_done :: "(nat \<Rightarrow> bool) \<Rightarrow> int \<Rightarrow> nat \<Rightarrow> periodic \<Rightarrow> (nat \<times> periodic) run" where
  "wait_until_done arrives events_to_fire tick s = (if pe_done s then Some (Inr (tick, s))
     else if arrives tick then (case timer_expiry_handler events_to_fire s of Inl e \<Rightarrow> Some (Inl e)
       | Inr s' \<Rightarrow> wait_until_done arrives events_to_fire (Suc tick) s')
     else wait_until_done arrives events_to_fire (Suc tick) s)"

section \<open>One attempt\<close>

text \<open>
  Which calls of the signal and timer library succeed in the attempt with factor \<open>sub_iters\<close>: those
  before the clock is read, \<^verbatim>\<open>timer_create\<close> and \<^verbatim>\<open>timer_settime\<close>.  The result is \<open>None\<close> for \<^verbatim>\<open>ERROR\<close>,
  else the start, the period and the dispatch times.
\<close>

record timer_env =
  te_signals :: "int \<Rightarrow> bool"
  te_create :: "int \<Rightarrow> bool"
  te_settime :: "int \<Rightarrow> bool"

type_synonym fired = "timespec \<times> timespec \<times> timespec list"

definition do_run :: "timer_env \<Rightarrow> (nat \<Rightarrow> bool) \<Rightarrow> int \<Rightarrow> int \<Rightarrow> int \<Rightarrow> world \<Rightarrow> nat \<Rightarrow> (fired option \<times> world \<times> nat) run" where
  "do_run te arrives timeAccuracy iterations sub_iters w tick =
     (if \<not> te_signals te sub_iters then Some (Inr (None, w, tick)) else case get_cur_time w of
       (None, w) \<Rightarrow> Some (Inr (None, w, tick))
     | (Some now, w) \<Rightarrow> if \<not> te_create te sub_iters then Some (Inr (None, w, tick))
         else bind_run (Some (bind_res (chk_ll (tv_sec now + 5)) (\<lambda>sec. bind_res (chk_ll (timeAccuracy * sub_iters)) (\<lambda>per.
             Inr (\<lparr>tv_sec = sec, tv_nsec = 0\<rparr>, \<lparr>tv_sec = per sdiv 1000000000, tv_nsec = per smod 1000000000\<rparr>)))))
           (\<lambda>(start_time, period). if \<not> te_settime te sub_iters then Some (Inr (None, w, tick))
             else bind_run (wait_until_done arrives iterations tick
                 \<lparr>dispatch_times = replicate (nat iterations) \<lparr>tv_sec = 0, tv_nsec = 0\<rparr>, events_fired = 0, pe_done = False, pe_world = w\<rparr>)
               (\<lambda>(tick, s). Some (Inr (Some (start_time, period, dispatch_times s), pe_world s, tick)))))"

definition add_lateness :: "int \<Rightarrow> timespec list \<Rightarrow> nat \<Rightarrow> int \<times> test_results \<Rightarrow> (int \<times> test_results) res" where
  "add_lateness per ts i = (\<lambda>(expected_fire_time, r). bind_res (aread ts (int i)) (\<lambda>t. bind_res (convert_time_to_nsec t) (\<lambda>t.
     bind_res (chk_ll (t - expected_fire_time)) (\<lambda>time_diff. bind_res (chk_ll (expected_fire_time + per)) (\<lambda>expected_fire_time.
     bind_res (add_entry r time_diff 0) (\<lambda>r. Inr (expected_fire_time, r)))))))"

definition add_results :: "fired \<Rightarrow> int \<Rightarrow> test_results \<Rightarrow> test_results res" where
  "add_results f iterations r = (case f of (start_time, period, ts) \<Rightarrow>
     bind_res (convert_time_to_nsec period) (\<lambda>per. bind_res (convert_time_to_nsec start_time) (\<lambda>expected_fire_time.
     bind_res (for_res [0..<nat iterations] (add_lateness per ts) (expected_fire_time, r)) (\<lambda>(expected, r). Inr r))))"

definition check_results :: "test_results \<Rightarrow> real_time_mode \<Rightarrow> rt_params \<Rightarrow> (int \<times> test_results) res" where
  "check_results r mode vals = check_pass_criteria r mode vals 0"

section \<open>The test\<close>

text \<open>An attempt: whether it ends the loop, the new result, the environment and the tick.\<close>

definition periodic_attempt :: "timer_env \<Rightarrow> (nat \<Rightarrow> bool) \<Rightarrow> int \<Rightarrow> int \<Rightarrow> real_time_mode \<Rightarrow> rt_params \<Rightarrow> int \<Rightarrow>
    world \<times> nat \<Rightarrow> (bool \<times> test_results \<times> world \<times> nat) run" where
  "periodic_attempt te arrives timeAccuracy new_iters mode vals sub_iters = (\<lambda>(w, tick).
     bind_run (Some (bind_res (create_test_result 1 new_iters) (\<lambda>rs. aread rs 0))) (\<lambda>results.
     bind_run (do_run te arrives timeAccuracy new_iters sub_iters w tick) (\<lambda>(fired, w, tick). case fired of
         None \<Rightarrow> Some (Inr (False, results, w, tick))
       | Some f \<Rightarrow> Some (bind_res (add_results f new_iters results) (\<lambda>results.
           bind_res (check_results results mode vals) (\<lambda>(rc, results). Inr (rc = 0, results, w, tick)))))))"

fun periodic_loop :: "(int \<Rightarrow> world \<times> nat \<Rightarrow> (bool \<times> test_results \<times> world \<times> nat) run) \<Rightarrow> int list \<Rightarrow>
    test_results option \<Rightarrow> world \<times> nat \<Rightarrow> (test_results option \<times> world \<times> nat) run" where
  "periodic_loop attempt [] results s = Some (Inr (results, s))"
| "periodic_loop attempt (sub_iters # ks) results s = bind_run (attempt sub_iters s) (\<lambda>(fin, results, s).
     if fin then Some (Inr (Some results, s)) else periodic_loop attempt ks (Some results) s)"

definition periodic_event :: "(f64 \<Rightarrow> f64 \<Rightarrow> f64) \<Rightarrow> timer_env \<Rightarrow> (nat \<Rightarrow> bool) \<Rightarrow> test_fn" where
  "periodic_event pw te arrives args bmtest env =
     bind_run (Some (get_ideal_sleep_time (te_table env))) (\<lambda>timeAccuracy.
     bind_run (periodic_loop (periodic_attempt te arrives timeAccuracy (bt_iterations bmtest) (rt_mode args) (te_vals env))
         [1..bt_threshold bmtest] None (te_world env, 0)) (\<lambda>(results, w, tick). case results of
       None \<Rightarrow> Some (Inl Null_deref)
     | Some r \<Rightarrow> Some (bind_res (add_result_to_result_table2 pw (te_table env) r PERIODIC_EVENTS_TEST bmtest)
         (\<lambda>table. Inr (0, env\<lparr>te_table := table, te_world := w\<rparr>)))))"

section \<open>Waiting ends\<close>

text \<open>Signals keep arriving.\<close>

definition keeps_arriving :: "(nat \<Rightarrow> bool) \<Rightarrow> bool" where
  "keeps_arriving arrives \<longleftrightarrow> (\<forall>k. \<exists>l \<ge> k. arrives l)"

text \<open>Nothing happens before the next signal.\<close>

lemma wait_next_signal:
  assumes "\<not> pe_done s" and "tick \<le> l" "arrives l"
  shows "\<exists>l'. wait_until_done arrives n tick s = (case timer_expiry_handler n s of Inl e \<Rightarrow> Some (Inl e)
    | Inr s' \<Rightarrow> wait_until_done arrives n l' s')"
  using assms(2)
proof (induction "l - tick" arbitrary: tick rule: less_induct)
  case less
  show ?case
  proof (cases "arrives tick")
    case True
    then show ?thesis using assms(1) by (subst wait_until_done.simps) auto
  next
    case False
    then have "tick < l" using less.prems assms(3) by (metis le_neq_implies_less)
    then have "l - Suc tick < l - tick" "Suc tick \<le> l" by simp_all
    from less.hyps [OF this] show ?thesis using assms(1) False by (subst wait_until_done.simps) auto
  qed
qed

text \<open>With \<open>m\<close> events to go, \<open>m + 1\<close> signals end the wait, and the readings are stored in order.\<close>

lemma wait_ends:
  assumes "keeps_arriving arrives" and "\<not> pe_done s" and "events_fired s = int (length (dispatch_times s)) - int m" "m \<le> length (dispatch_times s)"
    and "\<forall>i \<le> m. \<exists>t. clk (pe_world s) (clk_n (pe_world s) + i) = Some t"
  shows "\<exists>tick' s'. wait_until_done arrives (int (length (dispatch_times s))) tick s = Some (Inr (tick', s')) \<and>
    dispatch_times s' = take (length (dispatch_times s) - m) (dispatch_times s)
      @ map (\<lambda>i. the (clk (pe_world s) (clk_n (pe_world s) + i))) [0..<m] \<and>
    pe_world s' = (pe_world s)\<lparr>clk_n := clk_n (pe_world s) + Suc m\<rparr>"
  using assms(2-)
proof (induction m arbitrary: s tick)
  case 0
  obtain t where t: "clk (pe_world s) (clk_n (pe_world s)) = Some t" using 0 by auto
  obtain l where "tick \<le> l" "arrives l" using assms(1) by (auto simp: keeps_arriving_def)
  from wait_next_signal [where arrives = arrives and l = l and tick = tick and n = "int (length (dispatch_times s))", OF 0(1) this] obtain l' where
    "wait_until_done arrives (int (length (dispatch_times s))) tick s
      = (case timer_expiry_handler (int (length (dispatch_times s))) s of Inl e \<Rightarrow> Some (Inl e)
         | Inr s' \<Rightarrow> wait_until_done arrives (int (length (dispatch_times s))) l' s')" by blast
  then show ?case using 0 t
    by (simp add: timer_expiry_handler_def get_cur_time_def wait_until_done.simps [of _ _ l'])
next
  case (Suc m)
  let ?n = "length (dispatch_times s)" and ?w = "pe_world s"
  have t: "clk ?w (clk_n ?w + i) = Some (the (clk ?w (clk_n ?w + i)))" if "i \<le> Suc m" for i using Suc.prems(4) that by fastforce
  obtain l where "tick \<le> l" "arrives l" using assms(1) by (auto simp: keeps_arriving_def)
  from wait_next_signal [where arrives = arrives and l = l and tick = tick and n = "int (length (dispatch_times s))", OF Suc.prems(1) this] obtain l' where step:
    "wait_until_done arrives (int ?n) tick s = (case timer_expiry_handler (int ?n) s of Inl e \<Rightarrow> Some (Inl e)
         | Inr s' \<Rightarrow> wait_until_done arrives (int ?n) l' s')" by blast
  define k where "k = ?n - Suc m"
  have k: "k < ?n" "events_fired s = int k" using Suc.prems(2,3) by (simp_all add: k_def of_nat_diff)
  define s1 where "s1 = s\<lparr>pe_world := ?w\<lparr>clk_n := Suc (clk_n ?w)\<rparr>,
    dispatch_times := (dispatch_times s)[k := the (clk ?w (clk_n ?w))], events_fired := int k + 1\<rparr>"
  obtain t0 where "clk ?w (clk_n ?w) = Some t0" using t [of 0] by auto
  then have h: "timer_expiry_handler (int ?n) s = Inr s1"
    using Suc.prems(1) k by (simp add: timer_expiry_handler_def get_cur_time_def awrite_ok s1_def Let_def)
  have "\<not> pe_done s1" "events_fired s1 = int (length (dispatch_times s1)) - int m" "m \<le> length (dispatch_times s1)"
    using Suc.prems k by (simp_all add: s1_def k_def of_nat_diff)
  moreover have "\<forall>i \<le> m. \<exists>t. clk (pe_world s1) (clk_n (pe_world s1) + i) = Some t"
    using Suc.prems(4) by (auto simp: s1_def dest: spec [of _ "Suc _"])
  ultimately obtain tick' s' where "wait_until_done arrives (int (length (dispatch_times s1))) l' s1 = Some (Inr (tick', s'))"
    "dispatch_times s' = take (length (dispatch_times s1) - m) (dispatch_times s1)
      @ map (\<lambda>i. the (clk (pe_world s1) (clk_n (pe_world s1) + i))) [0..<m]"
    "pe_world s' = (pe_world s1)\<lparr>clk_n := clk_n (pe_world s1) + Suc m\<rparr>"
    using Suc.IH [of s1 l'] by blast
  moreover have "take (?n - m) ((dispatch_times s)[k := x]) = take (?n - Suc m) (dispatch_times s) @ [x]" for x
    using take_Suc_update [OF k(1), of x] k(1) Suc.prems(3) by (simp add: k_def Suc_diff_Suc)
  ultimately show ?case using step h by (simp add: s1_def map_upt_Suc del: upt_Suc)
qed


section \<open>An attempt records the lateness\<close>

text \<open>
  What the clock says in the attempt that starts with reading \<open>n\<close>: the first reading is the present
  time, the next \<open>iters\<close> are those of the handler, and one more ends the wait.
\<close>

definition due :: "timespec \<Rightarrow> int \<Rightarrow> nat \<Rightarrow> int" where
  "due now per i = (tv_sec now + 5) * 1000000000 + int i * per"

definition fires_late :: "int \<Rightarrow> int \<Rightarrow> int \<Rightarrow> nat \<Rightarrow> (nat \<Rightarrow> timespec option) \<Rightarrow> nat \<Rightarrow> bool" where
  "fires_late lo b per iters c n \<longleftrightarrow> c (n + Suc iters) \<noteq> None \<and> (\<exists>now. c n = Some now \<and> 0 \<le> tv_sec now \<and> tv_sec now < 8999999995
     \<and> (\<forall>i < iters. \<exists>t. c (n + Suc i) = Some t \<and> ts_ok t \<and> in_range lo b (ts_nsec t - due now per i)))"

definition lateness :: "nat \<Rightarrow> (nat \<Rightarrow> timespec option) \<Rightarrow> int \<Rightarrow> nat \<Rightarrow> int list" where
  "lateness iters c per n = map (\<lambda>i. ts_nsec (the (c (n + Suc i))) - due (the (c n)) per i) [0..<iters]"

lemma period_nsec:
  assumes "0 \<le> per" "per \<le> 100000000000000000"
  shows "convert_time_to_nsec \<lparr>tv_sec = per sdiv 1000000000, tv_nsec = per smod 1000000000\<rparr> = Inr per"
proof -
  have "0 \<le> per div 1000000000" "per div 1000000000 \<le> 100000000" "0 \<le> per mod 1000000000" "per mod 1000000000 < 1000000000"
    using assms by auto
  then have "ts_ok \<lparr>tv_sec = per div 1000000000, tv_nsec = per mod 1000000000\<rparr>" by (simp add: ts_ok_def)
  from convert_ok [OF this] show ?thesis using assms by (simp add: sdiv_nonneg_eq smod_nonneg_eq ts_nsec_def)
qed

text \<open>The loop of \<^verbatim>\<open>add_results\<close> is a run of entries.\<close>

lemma add_lateness_entries:
  assumes "m \<le> length ts" "\<forall>t \<in> set ts. ts_ok t" "0 \<le> per" "per \<le> 100000000000000000"
    and "\<forall>i < m. in_range lo b (ts_nsec (ts ! i) - (e + int i * per))" "0 \<le> e"
  shows "for_res [0..<m] (add_lateness per ts) (e, r)
    = bind_res (add_entries r (map (\<lambda>i. ts_nsec (ts ! i) - (e + int i * per)) [0..<m])) (\<lambda>r. Inr (e + int m * per, r))"
  using assms(1,5)
proof (induction m)
  case (Suc m)
  let ?t = "ts ! m" and ?e = "e + int m * per"
  have t: "ts_ok ?t" using Suc.prems(1) assms(2) by simp
  have "in_range lo b (ts_nsec ?t - ?e)" using Suc.prems(2) by blast
  then have "?e \<le> ts_nsec ?t" by (simp add: in_range_def)
  moreover have "0 \<le> ?e" using assms(3,6) by simp
  ultimately have ll: "is_ll (ts_nsec ?t - ?e)" "is_ll (?e + per)"
    using ts_nsec_range [OF t] assms(3,4) unfolding is_ll_def by linarith+
  have step: "add_lateness per ts m (?e, r') = bind_res (add_entry r' (ts_nsec ?t - ?e) 0) (\<lambda>r. Inr (?e + per, r))" for r'
    using Suc.prems(1) ll by (simp add: add_lateness_def aread_ok convert_ok [OF t] chk_ll_ok)
  have "for_res [0..<m] (add_lateness per ts) (e, r)
      = bind_res (add_entries r (map (\<lambda>i. ts_nsec (ts ! i) - (e + int i * per)) [0..<m])) (\<lambda>r. Inr (?e, r))"
    using Suc.IH Suc.prems by simp
  moreover have "?e + per = e + int (Suc m) * per" by (simp add: distrib_right)
  ultimately show ?case
    by (auto simp: for_res_append add_entries_append step bind_res_def simp del: of_nat_Suc split: sum.splits)
qed simp

text \<open>The readings of an attempt are the dispatch times, and the world has moved on by \<open>iters + 2\<close> readings.\<close>

lemma do_run_fires:
  assumes "keeps_arriving arrives" and "te_signals te k" "te_create te k" "te_settime te k" and "0 \<le> iters"
    and "0 \<le> A * k" "A * k \<le> 100000000000000000" and "fires_late lo b (A * k) (nat iters) (clk w) (clk_n w)"
    and "clk w (clk_n w) = Some now"
  shows "\<exists>tick'. do_run te arrives A iters k w tick = Some (Inr (Some (\<lparr>tv_sec = tv_sec now + 5, tv_nsec = 0\<rparr>,
      \<lparr>tv_sec = (A * k) sdiv 1000000000, tv_nsec = (A * k) smod 1000000000\<rparr>,
      map (\<lambda>i. the (clk w (clk_n w + Suc i))) [0..<nat iters]), w\<lparr>clk_n := clk_n w + nat iters + 2\<rparr>, tick'))"
proof -
  let ?w = "w\<lparr>clk_n := Suc (clk_n w)\<rparr>"
  let ?s = "\<lparr>dispatch_times = replicate (nat iters) \<lparr>tv_sec = 0, tv_nsec = 0\<rparr>, events_fired = 0, pe_done = False, pe_world = ?w\<rparr>"
  have "\<exists>t. clk w (clk_n w + Suc i) = Some t" if "i \<le> nat iters" for i
    using assms(8) that unfolding fires_late_def by (cases "i = nat iters") (auto simp: le_less)
  then have r: "\<forall>i \<le> nat iters. \<exists>t. clk (pe_world ?s) (clk_n (pe_world ?s) + i) = Some t" by simp
  obtain tick' s' where s': "wait_until_done arrives iters tick ?s = Some (Inr (tick', s'))"
    "dispatch_times s' = map (\<lambda>i. the (clk w (Suc (clk_n w) + i))) [0..<nat iters]"
    "pe_world s' = w\<lparr>clk_n := clk_n w + nat iters + 2\<rparr>"
    using wait_ends [where tick = tick, OF assms(1) _ _ _ r] assms(5) by auto
  have "0 \<le> tv_sec now" "tv_sec now < 8999999995" using assms(8,9) by (auto simp: fires_late_def)
  then have "is_ll (tv_sec now + 5)" by (simp add: is_ll_def)
  moreover have "is_ll (A * k)" using assms(6,7) by (simp add: is_ll_def)
  ultimately show ?thesis using s' assms(2-4,9)
    by (simp add: do_run_def get_cur_time_def chk_ll_ok)
qed

lemma add_results_lateness:
  assumes "fires_late lo b per (nat iters) c n" "c n = Some now" and "0 \<le> per" "per \<le> 100000000000000000"
    and "run_ok iters b" and "recorded r []" "max_entries r = iters"
  shows "\<exists>r'. add_results (\<lparr>tv_sec = tv_sec now + 5, tv_nsec = 0\<rparr>, \<lparr>tv_sec = per sdiv 1000000000, tv_nsec = per smod 1000000000\<rparr>,
      map (\<lambda>i. the (c (n + Suc i))) [0..<nat iters]) iters r = Inr r' \<and> measured lo b iters r' (lateness (nat iters) c per n)"
proof -
  let ?ds = "map (\<lambda>i. the (c (n + Suc i))) [0..<nat iters]"
  let ?ts = "map (\<lambda>i. ts_nsec (the (c (n + Suc i))) - due now per i) [0..<nat iters]"
  have now: "0 \<le> tv_sec now" "tv_sec now < 8999999995" using assms(1,2) by (auto simp: fires_late_def)
  have f: "ts_ok (the (c (n + Suc i)))" "in_range lo b (ts_nsec (the (c (n + Suc i))) - due now per i)" if "i < nat iters" for i
    using assms(1,2) that unfolding fires_late_def by fastforce+
  have len: "int (length ?ts) = iters" "?ts \<noteq> []" using assms(5) by (simp_all add: run_ok_def)
  have range: "\<forall>t \<in> set ?ts. in_range lo b t" using f(2) by auto
  then have ok: "times_ok b ?ts" using assms(5) len(1) by (simp add: times_ok_def run_ok_def in_range_def)
  obtain r' where r': "add_entries r ?ts = Inr r'" "recorded r' ?ts" "summarised r' ?ts" "max_entries r' = max_entries r"
    using add_entries_full [OF assms(6) _ len(2) ok] len(1) assms(7) by auto
  have m: "measured lo b iters r' ?ts"
    using r' len ok range assms(7) by (auto simp: measured_def in_range_def)
  define E where "E = (tv_sec now + 5) * 1000000000"
  define ds where "ds = ?ds"
  have st: "convert_time_to_nsec \<lparr>tv_sec = tv_sec now + 5, tv_nsec = 0\<rparr> = Inr E"
    using now convert_ok [of "\<lparr>tv_sec = tv_sec now + 5, tv_nsec = 0\<rparr>"] by (simp add: ts_ok_def ts_nsec_def E_def)
  have ds: "length ds = nat iters" "\<forall>t \<in> set ds. ts_ok t" using f(1) by (auto simp: ds_def)
  have late: "ts_nsec (ds ! i) - (E + int i * per) = ts_nsec (the (c (n + Suc i))) - due now per i" if "i < nat iters" for i
    using that by (simp add: due_def ds_def E_def)
  have "for_res [0..<nat iters] (add_lateness per ds) (E, r)
      = bind_res (add_entries r (map (\<lambda>i. ts_nsec (ds ! i) - (E + int i * per)) [0..<nat iters])) (\<lambda>r. Inr (E + int (nat iters) * per, r))"
    using assms(3,4) now(1) ds late f(2) by (intro add_lateness_entries [where lo = lo and b = b]) (simp_all add: E_def)
  moreover have "map (\<lambda>i. ts_nsec (ds ! i) - (E + int i * per)) [0..<nat iters] = ?ts" using late by (intro map_cong) simp_all
  ultimately have "for_res [0..<nat iters] (add_lateness per ds) (E, r) = Inr (E + int (nat iters) * per, r')"
    using r'(1) by simp
  then have "add_results (\<lparr>tv_sec = tv_sec now + 5, tv_nsec = 0\<rparr>, \<lparr>tv_sec = per sdiv 1000000000, tv_nsec = per smod 1000000000\<rparr>, ds) iters r = Inr r'"
    using period_nsec [OF assms(3,4)] st by (simp add: add_results_def)
  with m show ?thesis using assms(2) unfolding ds_def lateness_def by auto
qed


lemma periodic_attempt_ends:
  assumes "keeps_arriving arrives" and "te_signals te k" "te_create te k" "te_settime te k" and "run_ok iters b" "percent_ok mode vals"
    and "0 \<le> A * k" "A * k \<le> 100000000000000000" and "fires_late lo b (A * k) (nat iters) (clk w) (clk_n w)"
  defines "late \<equiv> lateness (nat iters) (clk w) (A * k) (clk_n w)"
  shows "\<exists>r tick'. periodic_attempt te arrives A iters mode vals k (w, tick)
      = Some (Inr (criteria_met mode vals late, r, w\<lparr>clk_n := clk_n w + nat iters + 2\<rparr>, tick'))
    \<and> measured lo b iters r late"
proof -
  obtain now where now: "clk w (clk_n w) = Some now" using assms(9) by (auto simp: fires_late_def)
  have it: "0 \<le> iters" using assms(5) by (simp add: run_ok_def)
  obtain tick' where run: "do_run te arrives A iters k w tick = Some (Inr (Some (\<lparr>tv_sec = tv_sec now + 5, tv_nsec = 0\<rparr>,
      \<lparr>tv_sec = (A * k) sdiv 1000000000, tv_nsec = (A * k) smod 1000000000\<rparr>,
      map (\<lambda>i. the (clk w (clk_n w + Suc i))) [0..<nat iters]), w\<lparr>clk_n := clk_n w + nat iters + 2\<rparr>, tick'))"
    using do_run_fires [OF assms(1-4) it assms(7-9) now] by blast
  let ?r0 = "new_result iters iters"
  obtain r1 where r1: "add_results (\<lparr>tv_sec = tv_sec now + 5, tv_nsec = 0\<rparr>, \<lparr>tv_sec = (A * k) sdiv 1000000000, tv_nsec = (A * k) smod 1000000000\<rparr>,
      map (\<lambda>i. the (clk w (clk_n w + Suc i))) [0..<nat iters]) iters ?r0 = Inr r1"
    "measured lo b iters r1 (lateness (nat iters) (clk w) (A * k) (clk_n w))"
    using add_results_lateness [OF assms(9) now assms(7,8,5)] new_result_ready [OF assms(5)] by blast
  obtain r2 where "check_pass_criteria r1 mode vals 0 = Inr (if passed r2 then 0 else -1, r2)"
    "measured lo b iters r2 late" "passed r2 = criteria_met mode vals late"
    using check_pass_met [OF r1(2) assms(6)] unfolding late_def by blast
  with run r1(1) it show ?thesis
    by (intro exI [of _ r2] exI [of _ tick']) (simp add: periodic_attempt_def create_one check_results_def)
qed

text \<open>The attempts follow each other on the clock; the first that passes, or the last, gives the result.\<close>

lemma periodic_loop_ends:
  assumes "\<And>k tick. 1 \<le> k \<Longrightarrow> k \<le> thr \<Longrightarrow> \<exists>r tick'. attempt k (w\<lparr>clk_n := n + nat (k - 1) * d\<rparr>, tick)
      = Some (Inr (met k, r, w\<lparr>clk_n := n + nat k * d\<rparr>, tick')) \<and> P k r"
    and "1 \<le> k" "k \<le> thr"
  shows "\<exists>j r tick'. periodic_loop attempt [k..thr] res (w\<lparr>clk_n := n + nat (k - 1) * d\<rparr>, tick)
      = Some (Inr (Some r, w\<lparr>clk_n := n + nat j * d\<rparr>, tick')) \<and> k \<le> j \<and> j \<le> thr \<and> P j r
    \<and> (\<forall>i. k \<le> i \<longrightarrow> i < j \<longrightarrow> \<not> met i) \<and> (met j \<or> j = thr)"
  using assms(2,3)
proof (induction "nat (thr - k)" arbitrary: k res tick)
  case 0
  then have k: "k = thr" by simp
  obtain r tick' where "attempt k (w\<lparr>clk_n := n + nat (k - 1) * d\<rparr>, tick)
      = Some (Inr (met k, r, w\<lparr>clk_n := n + nat k * d\<rparr>, tick'))" "P k r" using assms(1) 0 by blast
  with k show ?case by (intro exI [of _ k] exI [of _ r] exI [of _ tick']) simp
next
  case (Suc m)
  obtain r tick' where a: "attempt k (w\<lparr>clk_n := n + nat (k - 1) * d\<rparr>, tick)
      = Some (Inr (met k, r, w\<lparr>clk_n := n + nat k * d\<rparr>, tick'))" "P k r" using assms(1) Suc.prems by blast
  have u: "[k..thr] = k # [k + 1..thr]" using Suc.prems by (simp add: upto_rec1)
  show ?case
  proof (cases "met k")
    case True
    with a u Suc.prems show ?thesis by (intro exI [of _ k] exI [of _ r] exI [of _ tick']) simp
  next
    case False
    have "m = nat (thr - (k + 1))" "1 \<le> k + 1" "k + 1 \<le> thr" using Suc.hyps(2) Suc.prems by simp_all
    from Suc.hyps(1) [OF this, of "Some r" tick'] obtain j r' tick'' where j:
      "periodic_loop attempt [k + 1..thr] (Some r) (w\<lparr>clk_n := n + nat k * d\<rparr>, tick')
        = Some (Inr (Some r', w\<lparr>clk_n := n + nat j * d\<rparr>, tick''))" "k + 1 \<le> j" "j \<le> thr" "P j r'"
      "\<forall>i. k + 1 \<le> i \<longrightarrow> i < j \<longrightarrow> \<not> met i" "met j \<or> j = thr"
      by auto
    have "\<not> met i" if "k \<le> i" "i < j" for i using False j(5) that by (cases "i = k") simp_all
    with a False u j show ?thesis by (intro exI [of _ j] exI [of _ r'] exI [of _ tick'']) simp
  qed
qed

text \<open>The lateness in attempt \<open>k\<close>, whose first reading comes after the readings of the attempts before it.\<close>

definition attempt_lateness :: "world \<Rightarrow> int \<Rightarrow> int \<Rightarrow> int \<Rightarrow> int list" where
  "attempt_lateness w A iters k = lateness (nat iters) (clk w) (A * k) (clk_n w + nat (k - 1) * (nat iters + 2))"

section \<open>Properties\<close>

text \<open>
  C12: When the signals of the timer keep arriving, \<^verbatim>\<open>periodic_event\<close> returns: the handler ends the wait
  of every attempt with the signal after the last iteration, the result is the lateness of the
  handler's readings against multiples of the period of attempt \<open>j\<close>, which is \<open>j\<close> sleep times. No attempt before \<open>j\<close> met the
  pass criteria, and attempt \<open>j\<close> met them or is the last one allowed.
\<close>

theorem periodic_event_ends:
  assumes "keeps_arriving arrives" and "table_ok (te_table env)" "get_ideal_sleep_time (te_table env) = Inr A"
    and "percent_ok (rt_mode args) (te_vals env)" "run_ok (bt_iterations bmtest) b" "Fin 0 < bt_reference_score bmtest"
    and "1 \<le> bt_threshold bmtest" "0 \<le> A" "A * bt_threshold bmtest \<le> 100000000000000000"
    and "\<And>k. 1 \<le> k \<Longrightarrow> k \<le> bt_threshold bmtest \<Longrightarrow> te_signals te k \<and> te_create te k \<and> te_settime te k
      \<and> fires_late lo b (A * k) (nat (bt_iterations bmtest)) (clk (te_world env))
          (clk_n (te_world env) + nat (k - 1) * (nat (bt_iterations bmtest) + 2))"
  shows "\<exists>j r env'. periodic_event pw te arrives args bmtest env = Some (Inr (0, env'))
    \<and> entered PERIODIC_EVENTS_TEST r bmtest (te_table env) (te_table env') \<and> te_vals env' = te_vals env
    \<and> 1 \<le> j \<and> j \<le> bt_threshold bmtest
    \<and> (\<forall>i. 1 \<le> i \<longrightarrow> i < j \<longrightarrow> \<not> criteria_met (rt_mode args) (te_vals env) (attempt_lateness (te_world env) A (bt_iterations bmtest) i))
    \<and> (criteria_met (rt_mode args) (te_vals env) (attempt_lateness (te_world env) A (bt_iterations bmtest) j) \<or> j = bt_threshold bmtest)
    \<and> measured lo b (bt_iterations bmtest) r (attempt_lateness (te_world env) A (bt_iterations bmtest) j)"
proof -
  let ?w = "te_world env" and ?d = "nat (bt_iterations bmtest) + 2" and ?thr = "bt_threshold bmtest"
  let ?att = "periodic_attempt te arrives A (bt_iterations bmtest) (rt_mode args) (te_vals env)"
  let ?late = "attempt_lateness ?w A (bt_iterations bmtest)"
  let ?met = "\<lambda>k. criteria_met (rt_mode args) (te_vals env) (?late k)"
  define P where "P = (\<lambda>k r. measured lo b (bt_iterations bmtest) r (?late k))"
  have att: "\<exists>r tick'. ?att k (?w\<lparr>clk_n := clk_n ?w + nat (k - 1) * ?d\<rparr>, tick)
      = Some (Inr (?met k, r, ?w\<lparr>clk_n := clk_n ?w + nat k * ?d\<rparr>, tick')) \<and> P k r" if "1 \<le> k" "k \<le> ?thr" for k tick
  proof -
    have "A * k \<le> A * ?thr" using that assms(8) by (intro mult_left_mono)
    then have "A * k \<le> 100000000000000000" using assms(9) by linarith
    moreover have "0 \<le> A * k" using that assms(8) by simp
    moreover have "nat k = Suc (nat (k - 1))" using that by simp
    ultimately show ?thesis
      using periodic_attempt_ends [where w = "?w\<lparr>clk_n := clk_n ?w + nat (k - 1) * ?d\<rparr>" and tick = tick and te = te and k = k
          and A = A and lo = lo, OF assms(1) _ _ _ assms(5,4)] assms(10) [OF that]
      by (simp add: P_def attempt_lateness_def algebra_simps)
  qed
  obtain j r tick where j: "periodic_loop ?att [1..?thr] None (?w, 0) = Some (Inr (Some r, ?w\<lparr>clk_n := clk_n ?w + nat j * ?d\<rparr>, tick))"
    "1 \<le> j" "j \<le> ?thr" "P j r" "\<forall>i. 1 \<le> i \<longrightarrow> i < j \<longrightarrow> \<not> ?met i" "?met j \<or> j = ?thr"
    using periodic_loop_ends [where k = 1 and thr = ?thr and w = ?w and n = "clk_n ?w" and d = ?d and P = P and attempt = ?att
        and met = ?met and res = None and tick = 0, OF att _ assms(7)] by auto
  obtain t' where "add_result_to_result_table2 pw (te_table env) r PERIODIC_EVENTS_TEST bmtest = Inr t'"
    "entered PERIODIC_EVENTS_TEST r bmtest (te_table env) t'" using add_result2_entered [OF assms(2) _ assms(6)] j(4) unfolding P_def by blast
  with j show ?thesis using assms(3) unfolding P_def
    by (intro exI [of _ j] exI [of _ r] exI [of _ "env\<lparr>te_table := t', te_world := ?w\<lparr>clk_n := clk_n ?w + nat j * ?d\<rparr>\<rparr>"])
      (simp add: periodic_event_def)
qed

text \<open>
  Three iterations, so five readings for each attempt: the handler runs 100 ns late every time.
\<close>

definition late_env :: tenv where
  "late_env = \<lparr>te_table = timer_table, te_vals = fifty_params, te_world = steady_world\<lparr>clk := \<lambda>k.
     Some (if k mod 5 = 0 then \<lparr>tv_sec = 0, tv_nsec = 0\<rparr>
       else \<lparr>tv_sec = 5, tv_nsec = (int (k mod 5) - 1) * 2000 * (int (k div 5) + 1) + 100\<rparr>)\<rparr>\<rparr>"

definition all_timers :: timer_env where
  "all_timers = \<lparr>te_signals = (\<lambda>_. True), te_create = (\<lambda>_. True), te_settime = (\<lambda>_. True)\<rparr>"

lemma late_fires:
  assumes "m < 5"
  shows "fires_late 100 100 (2000 * (int m + 1)) 3 (clk (te_world late_env)) (m * 5)"
proof -
  have "ts_ok \<lparr>tv_sec = 5, tv_nsec = int i * 2000 * (int m + 1) + 100\<rparr>
      \<and> in_range 100 100 (ts_nsec \<lparr>tv_sec = 5, tv_nsec = int i * 2000 * (int m + 1) + 100\<rparr>
          - due \<lparr>tv_sec = 0, tv_nsec = 0\<rparr> (2000 * (int m + 1)) i)" if "i < 3" for i
  proof -
    have "int i * (2000 * (int m + 1)) \<le> 3 * (2000 * (int m + 1))" using that by (intro mult_right_mono) simp_all
    moreover have "0 \<le> int i * (2000 * (int m + 1))" by simp
    moreover have "int i * 2000 * (int m + 1) = int i * (2000 * (int m + 1))" by (simp only: mult.assoc)
    ultimately show ?thesis using assms by (simp only: ts_ok_def ts_nsec_def due_def in_range_def timespec.simps) auto
  qed
  moreover have "clk (te_world late_env) (m * 5 + Suc i) = Some \<lparr>tv_sec = 5, tv_nsec = int i * 2000 * (int m + 1) + 100\<rparr>" if "i < 3" for i
  proof -
    have "(m * 5 + Suc i) mod 5 = Suc i" "(m * 5 + Suc i) div 5 = m" using that by simp_all
    then show ?thesis by (simp add: late_env_def del: add_Suc_right)
  qed
  moreover have "clk (te_world late_env) (m * 5) = Some \<lparr>tv_sec = 0, tv_nsec = 0\<rparr>" "clk (te_world late_env) (m * 5 + Suc 3) \<noteq> None"
    by (simp_all add: late_env_def)
  ultimately show ?thesis unfolding fires_late_def
    by (intro conjI exI [of _ "\<lparr>tv_sec = 0, tv_nsec = 0\<rparr>"]) auto
qed

theorem periodic_event_ends_witness:
  "\<exists>j r env'. periodic_event (\<lambda>x y. x) all_timers even steady_args steady_test late_env = Some (Inr (0, env'))
    \<and> entered PERIODIC_EVENTS_TEST r steady_test (te_table late_env) (te_table env') \<and> te_vals env' = te_vals late_env
    \<and> 1 \<le> j \<and> j \<le> bt_threshold steady_test
    \<and> (\<forall>i. 1 \<le> i \<longrightarrow> i < j \<longrightarrow> \<not> criteria_met (rt_mode steady_args) (te_vals late_env) (attempt_lateness (te_world late_env) 2000 (bt_iterations steady_test) i))
    \<and> (criteria_met (rt_mode steady_args) (te_vals late_env) (attempt_lateness (te_world late_env) 2000 (bt_iterations steady_test) j)
        \<or> j = bt_threshold steady_test)
    \<and> measured 100 100 (bt_iterations steady_test) r (attempt_lateness (te_world late_env) 2000 (bt_iterations steady_test) j)"
proof (rule periodic_event_ends)
  show "keeps_arriving even"
    unfolding keeps_arriving_def
  proof
    fix k :: nat
    show "\<exists>l \<ge> k. even l" by (intro exI [of _ "2 * k"]) simp
  qed
  fix k :: int assume k: "1 \<le> k" "k \<le> bt_threshold steady_test"
  then show "te_signals all_timers k \<and> te_create all_timers k \<and> te_settime all_timers k
      \<and> fires_late 100 100 (2000 * k) (nat (bt_iterations steady_test)) (clk (te_world late_env))
          (clk_n (te_world late_env) + nat (k - 1) * (nat (bt_iterations steady_test) + 2))"
    using late_fires [of "nat (k - 1)"] by (simp add: all_timers_def steady_test_def late_env_def steady_world_def)
qed (use timer_table_ok steady_config in \<open>simp_all add: config_ok_def steady_env_def late_env_def steady_test_def run_ok_def is_int_def\<close>)

end
