(* ===== verification/Thread_Oprn.thy ===== *)
theory Thread_Oprn
  imports Timed_Run
begin

text \<open>
  \<^verbatim>\<open>testcase/util/thread_oprn/thread_oprn.c\<close>: setting and reading the scheduling policy and
  priority of a thread and of a thread attribute, and the number of processors.  Which calls of
  the thread library succeed, and the limits of the priorities, are given by an environment
  (\<open>sched_env\<close>); a call that succeeds does what POSIX documents, one that fails changes nothing.
  The messages that a failure prints are left out.
\<close>

datatype policy = SCHED_OTHER | SCHED_FIFO | SCHED_RR

record sched =
  sc_policy :: policy
  sc_priority :: int

record pthread_attr =
  at_explicit :: bool        \<comment> \<open>\<^verbatim>\<open>PTHREAD_EXPLICIT_SCHED\<close>\<close>
  at_sched :: sched

record sched_env =
  se_inherit :: bool         \<comment> \<open>\<^verbatim>\<open>pthread_attr_setinheritsched\<close> succeeds\<close>
  se_policy :: bool          \<comment> \<open>\<^verbatim>\<open>pthread_attr_setschedpolicy\<close> succeeds\<close>
  se_param :: bool           \<comment> \<open>\<^verbatim>\<open>pthread_attr_setschedparam\<close> succeeds\<close>
  se_create :: "nat \<Rightarrow> bool"  \<comment> \<open>the \<open>n\<close>-th \<^verbatim>\<open>pthread_create\<close> succeeds\<close>
  se_get :: bool             \<comment> \<open>\<^verbatim>\<open>pthread_getschedparam\<close> succeeds\<close>
  se_set :: bool             \<comment> \<open>\<^verbatim>\<open>pthread_setschedparam\<close> succeeds\<close>
  se_max :: int              \<comment> \<open>\<^verbatim>\<open>sched_get_priority_max(SCHED_FIFO)\<close>\<close>
  se_min :: int              \<comment> \<open>\<^verbatim>\<open>sched_get_priority_min(SCHED_FIFO)\<close>\<close>
  se_cpus :: int             \<comment> \<open>\<^verbatim>\<open>sysconf(_SC_NPROCESSORS_ONLN)\<close>\<close>

definition set_sched_param :: "sched_env \<Rightarrow> sched \<Rightarrow> policy \<Rightarrow> int \<Rightarrow> int \<times> sched" where
  "set_sched_param e thr pol prio = (if se_set e then (0, \<lparr>sc_policy = pol, sc_priority = prio\<rparr>) else (-1, thr))"

text \<open>\<open>None\<close> is the return value \<^verbatim>\<open>ERROR\<close>.\<close>

definition get_sched_param :: "sched_env \<Rightarrow> sched \<Rightarrow> sched option" where
  "get_sched_param e thr = (if se_get e then Some thr else None)"

text \<open>All three calls are made, whether or not an earlier one fails.\<close>

definition set_pthreadattr_sched_param :: "sched_env \<Rightarrow> pthread_attr \<Rightarrow> policy \<Rightarrow> int \<Rightarrow> int \<times> pthread_attr" where
  "set_pthreadattr_sched_param e attr pol prio = (
     let (rc, attr) = (if se_inherit e then (0, attr\<lparr>at_explicit := True\<rparr>) else (-1, attr));
         (rc, attr) = (if se_policy e then (rc, attr\<lparr>at_sched := (at_sched attr)\<lparr>sc_policy := pol\<rparr>\<rparr>) else (-1, attr))
     in if se_param e then (rc, attr\<lparr>at_sched := (at_sched attr)\<lparr>sc_priority := prio\<rparr>\<rparr>) else (-1, attr))"

definition get_pthreadattr_sched_param :: "bool \<Rightarrow> bool \<Rightarrow> pthread_attr \<Rightarrow> int \<times> int option \<times> policy option" where
  "get_pthreadattr_sched_param param_ok policy_ok attr = (
     let (rc, param) = (if param_ok then (0, Some (sc_priority (at_sched attr))) else (-1, None))
     in if policy_ok then (rc, param, Some (sc_policy (at_sched attr))) else (-1, param, None))"

definition get_num_online_cpus :: "sched_env \<Rightarrow> int" where
  "get_num_online_cpus e = se_cpus e"

text \<open>What \<^verbatim>\<open>pthread_attr_init\<close> leaves in an attribute, and the scheduling of a new thread.\<close>

definition pthread_attr_init :: pthread_attr where
  "pthread_attr_init = \<lparr>at_explicit = False, at_sched = \<lparr>sc_policy = SCHED_OTHER, sc_priority = 0\<rparr>\<rparr>"

definition thread_sched :: "sched \<Rightarrow> pthread_attr \<Rightarrow> sched" where
  "thread_sched parent attr = (if at_explicit attr then at_sched attr else parent)"

text \<open>
  What every thread of the tests checks first: its own policy and priority.  When the library
  cannot tell them the policy is set to -1, so the assertion fails.
\<close>

definition assert_sched :: "sched_env \<Rightarrow> sched \<Rightarrow> int \<Rightarrow> unit res" where
  "assert_sched e self prio = guard_res Assert_failed (case get_sched_param e self of None \<Rightarrow> False
     | Some s \<Rightarrow> sc_priority s = prio \<and> sc_policy s = SCHED_FIFO)"

lemma set_attr_ok: "set_pthreadattr_sched_param e attr pol prio = (0, attr') \<Longrightarrow>
    thread_sched parent attr' = \<lparr>sc_policy = pol, sc_priority = prio\<rparr>"
  by (auto simp: set_pthreadattr_sched_param_def thread_sched_def split: if_splits)

lemma set_attr_rc: "fst (set_pthreadattr_sched_param e attr pol prio) = (if se_inherit e \<and> se_policy e \<and> se_param e then 0 else -1)"
  by (simp add: set_pthreadattr_sched_param_def)

lemma assert_sched_ok: "assert_sched e \<lparr>sc_policy = SCHED_FIFO, sc_priority = prio\<rparr> prio = (if se_get e then Inr () else Inl Assert_failed)"
  by (simp add: assert_sched_def get_sched_param_def)

section \<open>Properties\<close>

text \<open>
  A thread that is created with an attribute for which \<^verbatim>\<open>set_pthreadattr_sched_param\<close> reported
  success runs with the requested policy and priority, whatever its parent's are, and the values
  read back from the attribute; if any of its three calls fails it reports \<^verbatim>\<open>ERROR\<close>, but the calls
  after the failing one have changed the attribute all the same.
\<close>

lemma attr_sched_roundtrip:
  "(case set_pthreadattr_sched_param e attr pol prio of (rc, attr') \<Rightarrow>
      if se_inherit e \<and> se_policy e \<and> se_param e
      then rc = 0 \<and> thread_sched parent attr' = \<lparr>sc_policy = pol, sc_priority = prio\<rparr>
        \<and> get_pthreadattr_sched_param True True attr' = (0, Some prio, Some pol)
      else rc = -1 \<and> (if se_param e then sc_priority (at_sched attr') = prio else True))"
  by (simp add: set_pthreadattr_sched_param_def thread_sched_def get_pthreadattr_sched_param_def)

end
