(* ===== verification/Dispatch_Threads.thy ===== *)
theory Dispatch_Threads
  imports Config_Tests Thread_Oprn
begin

text \<open>
  \<^verbatim>\<open>testcase/event_dispatch_test/\<close>: a sender and a receiver thread pass a signal back and forth over
  one condition variable, after a rendezvous over a second one.  The threads are state machines
  whose steps are the calls of the thread library; the schedule, a function that says which
  thread is tried first at each tick, is arbitrary.  A condition variable has no memory: a signal
  wakes a thread that waits and is lost otherwise.
\<close>

section \<open>The two threads\<close>

datatype thr = Sender | Receiver

datatype s_pc =
    S_Top            \<comment> \<open>the head of the loop over the major iterations\<close>
  | S_Test           \<comment> \<open>\<^verbatim>\<open>while (!is_receiver_started)\<close>, with \<^verbatim>\<open>ready_lock\<close>\<close>
  | S_WaitReady      \<comment> \<open>in \<^verbatim>\<open>pthread_cond_wait(&ready_condn, ...)\<close>\<close>
  | S_WokenReady     \<comment> \<open>signalled, needs \<^verbatim>\<open>ready_lock\<close> to return\<close>
  | S_UnlockReady
  | S_LockWait
  | S_Start          \<comment> \<open>the first reading, with \<^verbatim>\<open>wait_notify_lock\<close>\<close>
  | S_Loop           \<comment> \<open>the head of the loop over the sub iterations\<close>
  | S_Wait           \<comment> \<open>about to wait on \<^verbatim>\<open>wait_notify_condn\<close>\<close>
  | S_Waiting
  | S_Woken
  | S_End            \<comment> \<open>the second reading\<close>
  | S_UnlockWait
  | S_Record
  | S_Done

datatype r_pc =
    R_Top
  | R_LockReady      \<comment> \<open>\<^verbatim>\<open>set_receiver_started\<close>, with \<^verbatim>\<open>wait_notify_lock\<close>\<close>
  | R_Set            \<comment> \<open>with both locks\<close>
  | R_UnlockReady
  | R_Loop
  | R_Waiting
  | R_Woken
  | R_Signal
  | R_Unlock
  | R_Done

record dispatch =
  spc :: s_pc
  s_major :: nat
  s_sub :: nat
  rpc :: r_pc
  r_major :: nat
  r_sub :: nat
  is_receiver_started :: bool
  ready_lock :: "thr option"
  wait_notify_lock :: "thr option"
  start_tm :: "timespec option"
  end_tm :: "timespec option"
  sender_start_time :: "int list"
  receiver_end_time :: "int list"
  ed_world :: world

text \<open>\<^verbatim>\<open>pthread_cond_signal\<close> on the two condition variables.\<close>

definition signal_ready :: "dispatch \<Rightarrow> dispatch" where
  "signal_ready s = (if spc s = S_WaitReady then s\<lparr>spc := S_WokenReady\<rparr> else s)"

definition signal_wait_notify :: "dispatch \<Rightarrow> dispatch" where
  "signal_wait_notify s = (if spc s = S_Waiting then s\<lparr>spc := S_Woken\<rparr>
     else if rpc s = R_Waiting then s\<lparr>rpc := R_Woken\<rparr> else s)"

definition record_times :: "dispatch \<Rightarrow> dispatch res" where
  "record_times s = (case (start_tm s, end_tm s) of
     (Some start_time, Some end_time) \<Rightarrow> bind_res (convert_time_to_nsec end_time) (\<lambda>e.
       bind_res (awrite (receiver_end_time s) (int (s_major s)) e) (\<lambda>ends.
       bind_res (convert_time_to_nsec start_time) (\<lambda>b.
       bind_res (awrite (sender_start_time s) (int (s_major s)) b) (\<lambda>starts.
         Inr (s\<lparr>receiver_end_time := ends, sender_start_time := starts, s_major := Suc (s_major s), spc := S_Top\<rparr>)))))
   | _ \<Rightarrow> Inl Uninitialised)"

text \<open>\<open>None\<close>: the thread is blocked, or has returned.\<close>

definition sender_step :: "nat \<Rightarrow> nat \<Rightarrow> dispatch \<Rightarrow> dispatch res option" where
  "sender_step major sub s = (case spc s of
       S_Top \<Rightarrow> if s_major s < major
         then (if ready_lock s = None then Some (Inr (s\<lparr>ready_lock := Some Sender, spc := S_Test\<rparr>)) else None)
         else Some (Inr (s\<lparr>spc := S_Done\<rparr>))
     | S_Test \<Rightarrow> Some (Inr (if is_receiver_started s
         then s\<lparr>is_receiver_started := False, spc := S_UnlockReady\<rparr>
         else s\<lparr>ready_lock := None, spc := S_WaitReady\<rparr>))
     | S_WaitReady \<Rightarrow> None
     | S_WokenReady \<Rightarrow> if ready_lock s = None then Some (Inr (s\<lparr>ready_lock := Some Sender, spc := S_Test\<rparr>)) else None
     | S_UnlockReady \<Rightarrow> Some (Inr (s\<lparr>ready_lock := None, spc := S_LockWait\<rparr>))
     | S_LockWait \<Rightarrow> if wait_notify_lock s = None
         then Some (Inr (s\<lparr>wait_notify_lock := Some Sender, spc := S_Start\<rparr>)) else None
     | S_Start \<Rightarrow> (case keep_reading (start_tm s) (ed_world s) of (t, w) \<Rightarrow>
         Some (Inr (s\<lparr>start_tm := t, ed_world := w, s_sub := 0, spc := S_Loop\<rparr>)))
     | S_Loop \<Rightarrow> Some (Inr (if s_sub s < sub then (signal_wait_notify s)\<lparr>spc := S_Wait\<rparr> else s\<lparr>spc := S_End\<rparr>))
     | S_Wait \<Rightarrow> Some (Inr (s\<lparr>wait_notify_lock := None, spc := S_Waiting\<rparr>))
     | S_Waiting \<Rightarrow> None
     | S_Woken \<Rightarrow> if wait_notify_lock s = None
         then Some (Inr (s\<lparr>wait_notify_lock := Some Sender, s_sub := Suc (s_sub s), spc := S_Loop\<rparr>)) else None
     | S_End \<Rightarrow> (case keep_reading (end_tm s) (ed_world s) of (t, w) \<Rightarrow>
         Some (Inr (s\<lparr>end_tm := t, ed_world := w, spc := S_UnlockWait\<rparr>)))
     | S_UnlockWait \<Rightarrow> Some (Inr (s\<lparr>wait_notify_lock := None, spc := S_Record\<rparr>))
     | S_Record \<Rightarrow> Some (record_times s)
     | S_Done \<Rightarrow> None)"

definition receiver_step :: "nat \<Rightarrow> nat \<Rightarrow> dispatch \<Rightarrow> dispatch option" where
  "receiver_step major sub s = (case rpc s of
       R_Top \<Rightarrow> if r_major s < major
         then (if wait_notify_lock s = None then Some (s\<lparr>wait_notify_lock := Some Receiver, rpc := R_LockReady\<rparr>) else None)
         else Some (s\<lparr>rpc := R_Done\<rparr>)
     | R_LockReady \<Rightarrow> if ready_lock s = None then Some (s\<lparr>ready_lock := Some Receiver, rpc := R_Set\<rparr>) else None
     | R_Set \<Rightarrow> Some ((signal_ready s)\<lparr>is_receiver_started := True, rpc := R_UnlockReady\<rparr>)
     | R_UnlockReady \<Rightarrow> Some (s\<lparr>ready_lock := None, r_sub := 0, rpc := R_Loop\<rparr>)
     | R_Loop \<Rightarrow> Some (if r_sub s < sub then s\<lparr>wait_notify_lock := None, rpc := R_Waiting\<rparr> else s\<lparr>rpc := R_Unlock\<rparr>)
     | R_Waiting \<Rightarrow> None
     | R_Woken \<Rightarrow> if wait_notify_lock s = None then Some (s\<lparr>wait_notify_lock := Some Receiver, rpc := R_Signal\<rparr>) else None
     | R_Signal \<Rightarrow> Some ((signal_wait_notify s)\<lparr>r_sub := Suc (r_sub s), rpc := R_Loop\<rparr>)
     | R_Unlock \<Rightarrow> Some (s\<lparr>wait_notify_lock := None, r_major := Suc (r_major s), rpc := R_Top\<rparr>)
     | R_Done \<Rightarrow> None)"

text \<open>Every interleaving, with the additional wakeups that POSIX allows \<^verbatim>\<open>pthread_cond_wait\<close>.\<close>

inductive dispatch_step :: "nat \<Rightarrow> nat \<Rightarrow> dispatch \<Rightarrow> dispatch \<Rightarrow> bool" for major sub where
  sender: "sender_step major sub s = Some (Inr s') \<Longrightarrow> dispatch_step major sub s s'"
| receiver: "receiver_step major sub s = Some s' \<Longrightarrow> dispatch_step major sub s s'"

inductive spurious_step :: "dispatch \<Rightarrow> dispatch \<Rightarrow> bool" where
  sender: "spc s = S_Waiting \<Longrightarrow> spurious_step s (s\<lparr>spc := S_Woken\<rparr>)"
| sender_ready: "spc s = S_WaitReady \<Longrightarrow> spurious_step s (s\<lparr>spc := S_WokenReady\<rparr>)"
| receiver: "rpc s = R_Waiting \<Longrightarrow> spurious_step s (s\<lparr>rpc := R_Woken\<rparr>)"

inductive_cases dispatch_stepE: "dispatch_step major sub s s'"

section \<open>The protocol\<close>

text \<open>
  The last part of a major iteration of the sender, after the receiver's last signal.
\<close>

definition finishing :: "nat \<Rightarrow> dispatch \<Rightarrow> bool" where
  "finishing sub s \<longleftrightarrow> spc s = S_Woken \<and> Suc (s_sub s) = sub \<or> spc s = S_Loop \<and> s_sub s = sub
     \<or> spc s \<in> {S_End, S_UnlockWait, S_Record}"

text \<open>Where the sender is when it has not accepted the rendezvous of the receiver's major iteration.\<close>

definition before :: "nat \<Rightarrow> s_pc set \<Rightarrow> dispatch \<Rightarrow> bool" where
  "before sub pcs s \<longleftrightarrow> s_major s = r_major s \<and> spc s \<in> pcs \<or> Suc (s_major s) = r_major s \<and> finishing sub s"

definition protocol :: "nat \<Rightarrow> dispatch \<Rightarrow> bool" where
  "protocol sub s \<longleftrightarrow> (case rpc s of
       R_Top \<Rightarrow> \<not> is_receiver_started s \<and> before sub {S_Top, S_Test, S_WaitReady, S_Done} s
     | R_LockReady \<Rightarrow> \<not> is_receiver_started s \<and> before sub {S_Top, S_Test, S_WaitReady} s
     | R_Set \<Rightarrow> \<not> is_receiver_started s \<and> before sub {S_Top, S_WaitReady} s
     | R_UnlockReady \<Rightarrow> is_receiver_started s \<and> before sub {S_Top, S_WokenReady} s
     | R_Loop \<Rightarrow> r_sub s = 0 \<and> is_receiver_started s \<and> before sub {S_Top, S_WokenReady, S_Test} s
         \<or> r_sub s = 0 \<and> \<not> is_receiver_started s \<and> s_major s = r_major s \<and> spc s \<in> {S_UnlockReady, S_LockWait}
         \<or> r_sub s = Suc (s_sub s) \<and> r_sub s \<le> sub \<and> \<not> is_receiver_started s \<and> s_major s = r_major s \<and> spc s = S_Woken
     | R_Waiting \<Rightarrow> r_sub s < sub \<and>
         (r_sub s = 0 \<and> is_receiver_started s \<and> before sub {S_Top, S_WokenReady, S_Test} s
         \<or> r_sub s = 0 \<and> \<not> is_receiver_started s \<and> s_major s = r_major s \<and> spc s \<in> {S_UnlockReady, S_LockWait, S_Start}
         \<or> r_sub s = s_sub s \<and> \<not> is_receiver_started s \<and> s_major s = r_major s \<and> spc s = S_Loop
         \<or> r_sub s = Suc (s_sub s) \<and> \<not> is_receiver_started s \<and> s_major s = r_major s \<and> spc s = S_Woken)
     | R_Woken \<Rightarrow> r_sub s < sub \<and> r_sub s = s_sub s \<and> \<not> is_receiver_started s \<and> s_major s = r_major s \<and> spc s \<in> {S_Wait, S_Waiting}
     | R_Signal \<Rightarrow> r_sub s < sub \<and> r_sub s = s_sub s \<and> \<not> is_receiver_started s \<and> s_major s = r_major s \<and> spc s = S_Waiting
     | R_Unlock \<Rightarrow> Suc (s_sub s) = sub \<and> \<not> is_receiver_started s \<and> s_major s = r_major s \<and> spc s = S_Woken
     | R_Done \<Rightarrow> \<not> is_receiver_started s \<and> before sub {S_Top, S_Done} s)"

text \<open>Who holds which lock, and the bounds of the counters.\<close>

definition locks_ok :: "dispatch \<Rightarrow> bool" where
  "locks_ok s \<longleftrightarrow> (ready_lock s = Some Sender \<longleftrightarrow> spc s \<in> {S_Test, S_UnlockReady}) \<and>
     (ready_lock s = Some Receiver \<longleftrightarrow> rpc s \<in> {R_Set, R_UnlockReady}) \<and>
     (wait_notify_lock s = Some Sender \<longleftrightarrow> spc s \<in> {S_Start, S_Loop, S_Wait, S_End, S_UnlockWait}) \<and>
     (wait_notify_lock s = Some Receiver \<longleftrightarrow> rpc s \<in> {R_LockReady, R_Set, R_UnlockReady, R_Loop, R_Signal, R_Unlock})"

definition counters_ok :: "nat \<Rightarrow> dispatch \<Rightarrow> bool" where
  "counters_ok major s \<longleftrightarrow> r_major s \<le> major \<and> (rpc s = R_Done \<longrightarrow> r_major s = major) \<and> (spc s = S_Done \<longrightarrow> s_major s = major) \<and>
     (rpc s \<in> {R_Top, R_Done} \<or> r_major s < major) \<and> (spc s \<in> {S_Top, S_Done} \<or> s_major s < major)"

definition dispatch_inv :: "nat \<Rightarrow> nat \<Rightarrow> dispatch \<Rightarrow> bool" where
  "dispatch_inv major sub s \<longleftrightarrow> 0 < sub \<and> protocol sub s \<and> locks_ok s \<and> counters_ok major s"

lemmas dispatch_invs = dispatch_inv_def protocol_def locks_ok_def counters_ok_def before_def finishing_def

text \<open>The steps one by one, for case analysis.\<close>

lemma receiver_step_cases:
  assumes "receiver_step major sub s = Some s'"
  obtains (lock) "rpc s = R_Top" "r_major s < major" "wait_notify_lock s = None"
      "s' = s\<lparr>wait_notify_lock := Some Receiver, rpc := R_LockReady\<rparr>"
    | (finish) "rpc s = R_Top" "\<not> r_major s < major" "s' = s\<lparr>rpc := R_Done\<rparr>"
    | (ready) "rpc s = R_LockReady" "ready_lock s = None" "s' = s\<lparr>ready_lock := Some Receiver, rpc := R_Set\<rparr>"
    | (set_started) "rpc s = R_Set" "s' = (signal_ready s)\<lparr>is_receiver_started := True, rpc := R_UnlockReady\<rparr>"
    | (unlock_ready) "rpc s = R_UnlockReady" "s' = s\<lparr>ready_lock := None, r_sub := 0, rpc := R_Loop\<rparr>"
    | (await) "rpc s = R_Loop" "r_sub s < sub" "s' = s\<lparr>wait_notify_lock := None, rpc := R_Waiting\<rparr>"
    | (leave) "rpc s = R_Loop" "\<not> r_sub s < sub" "s' = s\<lparr>rpc := R_Unlock\<rparr>"
    | (resume) "rpc s = R_Woken" "wait_notify_lock s = None" "s' = s\<lparr>wait_notify_lock := Some Receiver, rpc := R_Signal\<rparr>"
    | (answer) "rpc s = R_Signal" "s' = (signal_wait_notify s)\<lparr>r_sub := Suc (r_sub s), rpc := R_Loop\<rparr>"
    | (unlock) "rpc s = R_Unlock" "s' = s\<lparr>wait_notify_lock := None, r_major := Suc (r_major s), rpc := R_Top\<rparr>"
proof (cases "rpc s")
  case R_Top
  then show thesis using assms lock finish by (simp add: receiver_step_def split: if_splits)
next
  case R_LockReady
  then show thesis using assms ready by (simp add: receiver_step_def split: if_splits)
next
  case R_Set
  then show thesis using assms set_started by (simp add: receiver_step_def split: if_splits)
next
  case R_UnlockReady
  then show thesis using assms unlock_ready by (simp add: receiver_step_def split: if_splits)
next
  case R_Loop
  then show thesis using assms await leave by (simp add: receiver_step_def split: if_splits)
next
  case R_Woken
  then show thesis using assms resume by (simp add: receiver_step_def split: if_splits)
next
  case R_Signal
  then show thesis using assms answer by (simp add: receiver_step_def split: if_splits)
next
  case R_Unlock
  then show thesis using assms unlock by (simp add: receiver_step_def split: if_splits)
next
  case R_Waiting
  then show thesis using assms by (simp add: receiver_step_def)
next
  case R_Done
  then show thesis using assms by (simp add: receiver_step_def)
qed

lemma receiver_keeps:
  assumes "receiver_step major sub s = Some s'" and "dispatch_inv major sub s"
  shows "dispatch_inv major sub s'"
  using assms
  by (cases rule: receiver_step_cases; cases "spc s"; auto simp: dispatch_invs signal_ready_def signal_wait_notify_def)

lemma sender_step_cases:
  assumes "sender_step major sub s = Some (Inr s')"
  obtains (lock) "spc s = S_Top" "s_major s < major" "ready_lock s = None" "s' = s\<lparr>ready_lock := Some Sender, spc := S_Test\<rparr>"
    | (finish) "spc s = S_Top" "\<not> s_major s < major" "s' = s\<lparr>spc := S_Done\<rparr>"
    | (accept) "spc s = S_Test" "is_receiver_started s" "s' = s\<lparr>is_receiver_started := False, spc := S_UnlockReady\<rparr>"
    | (wait_ready) "spc s = S_Test" "\<not> is_receiver_started s" "s' = s\<lparr>ready_lock := None, spc := S_WaitReady\<rparr>"
    | (resume_ready) "spc s = S_WokenReady" "ready_lock s = None" "s' = s\<lparr>ready_lock := Some Sender, spc := S_Test\<rparr>"
    | (unlock_ready) "spc s = S_UnlockReady" "s' = s\<lparr>ready_lock := None, spc := S_LockWait\<rparr>"
    | (lock_wait) "spc s = S_LockWait" "wait_notify_lock s = None" "s' = s\<lparr>wait_notify_lock := Some Sender, spc := S_Start\<rparr>"
    | (start) "spc s = S_Start" "s' = s\<lparr>start_tm := fst (keep_reading (start_tm s) (ed_world s)), ed_world := snd (keep_reading (start_tm s) (ed_world s)), s_sub := 0, spc := S_Loop\<rparr>"
    | (signal) "spc s = S_Loop" "s_sub s < sub" "s' = (signal_wait_notify s)\<lparr>spc := S_Wait\<rparr>"
    | (leave) "spc s = S_Loop" "\<not> s_sub s < sub" "s' = s\<lparr>spc := S_End\<rparr>"
    | (await) "spc s = S_Wait" "s' = s\<lparr>wait_notify_lock := None, spc := S_Waiting\<rparr>"
    | (resume) "spc s = S_Woken" "wait_notify_lock s = None" "s' = s\<lparr>wait_notify_lock := Some Sender, s_sub := Suc (s_sub s), spc := S_Loop\<rparr>"
    | (stop) "spc s = S_End" "s' = s\<lparr>end_tm := fst (keep_reading (end_tm s) (ed_world s)), ed_world := snd (keep_reading (end_tm s) (ed_world s)), spc := S_UnlockWait\<rparr>"
    | (unlock) "spc s = S_UnlockWait" "s' = s\<lparr>wait_notify_lock := None, spc := S_Record\<rparr>"
    | (enter) "spc s = S_Record" "record_times s = Inr s'"
proof (cases "spc s")
  case S_Top
  then show thesis using assms lock finish by (simp add: sender_step_def split: if_splits)
next
  case S_Test
  then show thesis using assms accept wait_ready by (simp add: sender_step_def split: if_splits)
next
  case S_WokenReady
  then show thesis using assms resume_ready by (simp add: sender_step_def split: if_splits)
next
  case S_UnlockReady
  then show thesis using assms unlock_ready by (simp add: sender_step_def split: if_splits)
next
  case S_LockWait
  then show thesis using assms lock_wait by (simp add: sender_step_def split: if_splits)
next
  case S_Start
  then show thesis using assms start by (simp add: sender_step_def split: prod.splits)
next
  case S_Loop
  then show thesis using assms signal leave by (simp add: sender_step_def split: if_splits)
next
  case S_Wait
  then show thesis using assms await by (simp add: sender_step_def split: if_splits)
next
  case S_Woken
  then show thesis using assms resume by (simp add: sender_step_def split: if_splits)
next
  case S_End
  then show thesis using assms stop by (simp add: sender_step_def split: prod.splits)
next
  case S_UnlockWait
  then show thesis using assms unlock by (simp add: sender_step_def split: if_splits)
next
  case S_Record
  then show thesis using assms enter by (simp add: sender_step_def split: if_splits)
next
  case S_WaitReady
  then show thesis using assms by (simp add: sender_step_def)
next
  case S_Waiting
  then show thesis using assms by (simp add: sender_step_def)
next
  case S_Done
  then show thesis using assms by (simp add: sender_step_def)
qed

lemma record_times_control: "record_times s = Inr s' \<Longrightarrow>
    \<exists>starts ends. s' = s\<lparr>receiver_end_time := ends, sender_start_time := starts, s_major := Suc (s_major s), spc := S_Top\<rparr>"
  by (auto simp: record_times_def bind_res_Inr_iff split: option.splits)

lemma sender_keeps:
  assumes "sender_step major sub s = Some (Inr s')" and "dispatch_inv major sub s"
  shows "dispatch_inv major sub s'"
  using assms
  by (cases rule: sender_step_cases; cases "rpc s"; auto simp: dispatch_invs signal_wait_notify_def dest!: record_times_control)

end
