(* ===== verification/Dispatch_Progress.thy ===== *)
theory Dispatch_Progress
  imports Dispatch_Threads
begin

text \<open>
  The two threads of the event dispatch test never deadlock and always end: some thread can take
  a step until both have returned, and every step brings them nearer to their end.
\<close>

section \<open>No deadlock, and an end\<close>

definition both_done :: "dispatch \<Rightarrow> bool" where
  "both_done s \<longleftrightarrow> spc s = S_Done \<and> rpc s = R_Done"

lemma sender_runs:
  "spc s \<in> {S_Test, S_UnlockReady, S_Start, S_Loop, S_Wait, S_End, S_UnlockWait, S_Record} \<Longrightarrow> sender_step major sub s \<noteq> None"
  "spc s \<in> {S_Top, S_WokenReady} \<Longrightarrow> ready_lock s = None \<Longrightarrow> sender_step major sub s \<noteq> None"
  "spc s \<in> {S_LockWait, S_Woken} \<Longrightarrow> wait_notify_lock s = None \<Longrightarrow> sender_step major sub s \<noteq> None"
  by (auto simp: sender_step_def split: prod.split)

lemma receiver_runs:
  "rpc s \<in> {R_Set, R_UnlockReady, R_Loop, R_Signal, R_Unlock} \<Longrightarrow> receiver_step major sub s \<noteq> None"
  "rpc s = R_LockReady \<Longrightarrow> ready_lock s = None \<Longrightarrow> receiver_step major sub s \<noteq> None"
  "rpc s \<in> {R_Top, R_Woken} \<Longrightarrow> wait_notify_lock s = None \<Longrightarrow> receiver_step major sub s \<noteq> None"
  by (auto simp: receiver_step_def)

lemma some_thread_runs:
  assumes "dispatch_inv major sub s" and "\<not> both_done s"
  shows "sender_step major sub s \<noteq> None \<or> receiver_step major sub s \<noteq> None"
proof (rule ccontr)
  assume "\<not> ?thesis"
  then have n: "sender_step major sub s = None" "receiver_step major sub s = None" by simp_all
  have l: "locks_ok s" "protocol sub s" using assms(1) by (simp_all add: dispatch_inv_def)
  have sn: "spc s \<notin> {S_Test, S_UnlockReady, S_Start, S_Loop, S_Wait, S_End, S_UnlockWait, S_Record}" using sender_runs(1) n(1) by blast
  have rn: "rpc s \<notin> {R_Set, R_UnlockReady, R_Loop, R_Signal, R_Unlock}" using receiver_runs(1) n(2) by blast
  have "ready_lock s \<noteq> Some Sender" "ready_lock s \<noteq> Some Receiver" using l(1) sn rn unfolding locks_ok_def by blast+
  then have rl: "ready_lock s = None" by (metis not_None_eq thr.exhaust)
  then have rr: "rpc s \<noteq> R_LockReady" using receiver_runs(2) n(2) by blast
  have "wait_notify_lock s \<noteq> Some Sender" "wait_notify_lock s \<noteq> Some Receiver"
    using l(1) sn rn rr unfolding locks_ok_def by blast+
  then have wl: "wait_notify_lock s = None" by (metis not_None_eq thr.exhaust)
  have b: "spc s \<notin> {S_Top, S_WokenReady}" "spc s \<notin> {S_LockWait, S_Woken}" "rpc s \<notin> {R_Top, R_Woken}"
    using sender_runs(2,3) receiver_runs(3) rl wl n by blast+
  have "spc s \<in> {S_WaitReady, S_Waiting, S_Done}" using b(1,2) sn by (cases "spc s") simp_all
  moreover have "rpc s \<in> {R_Waiting, R_Done}" using b(3) rn rr by (cases "rpc s") simp_all
  ultimately show False using l(2) assms(2)
    by (elim insertE emptyE; simp add: protocol_def before_def finishing_def both_done_def)
qed

text \<open>Each step brings the threads nearer to their end.\<close>

definition s_rank :: "nat \<Rightarrow> dispatch \<Rightarrow> nat" where
  "s_rank sub s = (case spc s of
       S_Top \<Rightarrow> 4 * sub + 12 | S_Test \<Rightarrow> if is_receiver_started s then 4 * sub + 8 else 4 * sub + 11
     | S_WaitReady \<Rightarrow> 4 * sub + 10 | S_WokenReady \<Rightarrow> 4 * sub + 9 | S_UnlockReady \<Rightarrow> 4 * sub + 7 | S_LockWait \<Rightarrow> 4 * sub + 6
     | S_Start \<Rightarrow> 4 * sub + 5 | S_Loop \<Rightarrow> 4 * (sub - s_sub s) + 4 | S_Wait \<Rightarrow> 4 * (sub - s_sub s) + 3
     | S_Waiting \<Rightarrow> 4 * (sub - s_sub s) + 2 | S_Woken \<Rightarrow> 4 * (sub - s_sub s) + 1
     | S_End \<Rightarrow> 3 | S_UnlockWait \<Rightarrow> 2 | S_Record \<Rightarrow> 1 | S_Done \<Rightarrow> 0)"

definition r_rank :: "nat \<Rightarrow> dispatch \<Rightarrow> nat" where
  "r_rank sub s = (case rpc s of
       R_Top \<Rightarrow> 4 * sub + 8 | R_LockReady \<Rightarrow> 4 * sub + 7 | R_Set \<Rightarrow> 4 * sub + 6 | R_UnlockReady \<Rightarrow> 4 * sub + 5
     | R_Loop \<Rightarrow> 4 * (sub - r_sub s) + 4 | R_Waiting \<Rightarrow> 4 * (sub - r_sub s) + 3 | R_Woken \<Rightarrow> 4 * (sub - r_sub s) + 2
     | R_Signal \<Rightarrow> 4 * (sub - r_sub s) + 1 | R_Unlock \<Rightarrow> 3 | R_Done \<Rightarrow> 0)"

definition steps_left :: "nat \<Rightarrow> nat \<Rightarrow> dispatch \<Rightarrow> nat" where
  "steps_left major sub s = (major - s_major s) * (4 * sub + 13) + s_rank sub s
     + (major - r_major s) * (4 * sub + 9) + r_rank sub s"

lemma next_major: "m < n \<Longrightarrow> (n - m) * c = c + (n - Suc m) * (c :: nat)"
  by (metis Suc_diff_Suc mult_Suc)

lemma s_rank_other [simp]:
  "s_rank sub (s\<lparr>rpc := x1\<rparr>) = s_rank sub s"
  "s_rank sub (s\<lparr>r_major := x2\<rparr>) = s_rank sub s"
  "s_rank sub (s\<lparr>r_sub := x3\<rparr>) = s_rank sub s"
  "s_rank sub (s\<lparr>ready_lock := x4\<rparr>) = s_rank sub s"
  "s_rank sub (s\<lparr>wait_notify_lock := x5\<rparr>) = s_rank sub s"
  "s_rank sub (s\<lparr>start_tm := x6\<rparr>) = s_rank sub s"
  "s_rank sub (s\<lparr>end_tm := x7\<rparr>) = s_rank sub s"
  "s_rank sub (s\<lparr>ed_world := x8\<rparr>) = s_rank sub s"
  by (simp_all add: s_rank_def cong: s_pc.case_cong)

lemma r_rank_other [simp]:
  "r_rank sub (s\<lparr>spc := x9\<rparr>) = r_rank sub s"
  "r_rank sub (s\<lparr>s_major := x10\<rparr>) = r_rank sub s"
  "r_rank sub (s\<lparr>s_sub := x11\<rparr>) = r_rank sub s"
  "r_rank sub (s\<lparr>is_receiver_started := x12\<rparr>) = r_rank sub s"
  "r_rank sub (s\<lparr>ready_lock := x13\<rparr>) = r_rank sub s"
  "r_rank sub (s\<lparr>wait_notify_lock := x14\<rparr>) = r_rank sub s"
  "r_rank sub (s\<lparr>start_tm := x15\<rparr>) = r_rank sub s"
  "r_rank sub (s\<lparr>end_tm := x16\<rparr>) = r_rank sub s"
  "r_rank sub (s\<lparr>ed_world := x17\<rparr>) = r_rank sub s"
  "r_rank sub (s\<lparr>sender_start_time := x18\<rparr>) = r_rank sub s"
  "r_rank sub (s\<lparr>receiver_end_time := x19\<rparr>) = r_rank sub s"
  by (simp_all add: r_rank_def cong: r_pc.case_cong)

lemma receiver_decreases:
  assumes "receiver_step major sub s = Some s'" and "dispatch_inv major sub s"
  shows "steps_left major sub s' < steps_left major sub s"
proof -
  have r: "rpc s \<in> {R_Top, R_Done} \<or> r_major s < major" "rpc s = R_Signal \<longrightarrow> r_sub s < sub"
    using assms(2) by (auto simp: dispatch_inv_def counters_ok_def protocol_def)
  from assms(1) show ?thesis
  proof (cases rule: receiver_step_cases)
    case set_started
    then show ?thesis by (cases "spc s") (simp_all add: steps_left_def s_rank_def r_rank_def signal_ready_def)
  next
    case answer
    then have "Suc (sub - Suc (r_sub s)) = sub - r_sub s" using r(2) by simp
    with answer show ?thesis by (cases "spc s") (simp_all add: steps_left_def s_rank_def r_rank_def signal_wait_notify_def)
  qed (use r in \<open>auto simp: steps_left_def r_rank_def next_major\<close>)
qed

lemma sender_decreases:
  assumes "sender_step major sub s = Some (Inr s')" and "dispatch_inv major sub s"
  shows "steps_left major sub s' < steps_left major sub s"
proof -
  have r: "spc s \<in> {S_Top, S_Done} \<or> s_major s < major" using assms(2) by (auto simp: dispatch_inv_def counters_ok_def)
  have w: "spc s = S_Woken \<longrightarrow> s_sub s < sub" "spc s = S_WokenReady \<longrightarrow> is_receiver_started s"
    using assms(2) by (cases "rpc s"; auto simp: dispatch_inv_def protocol_def before_def finishing_def)+
  from assms(1) show ?thesis
  proof (cases rule: sender_step_cases)
    case signal
    then show ?thesis by (cases "rpc s") (simp_all add: steps_left_def s_rank_def r_rank_def signal_wait_notify_def)
  next
    case resume
    then have "Suc (sub - Suc (s_sub s)) = sub - s_sub s" using w(1) by simp
    with resume show ?thesis by (simp add: steps_left_def s_rank_def)
  next
    case enter
    then obtain starts ends where "s' = s\<lparr>receiver_end_time := ends, sender_start_time := starts, s_major := Suc (s_major s), spc := S_Top\<rparr>"
      using record_times_control by blast
    then show ?thesis using enter(1) r by (simp add: steps_left_def s_rank_def next_major)
  qed (use r w in \<open>auto simp: steps_left_def s_rank_def next_major\<close>)
qed

end
