(* ===== verification/Lock_Consistency.thy ===== *)
theory Lock_Consistency
  imports Config_Tests Thread_Oprn
begin

text \<open>
  \<^verbatim>\<open>testcase/lock_consistency_test/lock_consistency_test.c\<close>: a thread of high priority measures
  how long it takes to lock and unlock a mutex that nobody else uses, and repeats with twice as
  many pairs until its times are long enough and consistent.  The test waits for the thread, so
  the two run one after the other.
\<close>

section \<open>The measured work\<close>

text \<open>A default mutex, used by one thread: locking it again deadlocks.\<close>

definition mutex_acquire :: "bool \<Rightarrow> bool run" where
  "mutex_acquire held = Some (if held then Inl Self_deadlock else Inr True)"

definition mutex_release :: "bool \<Rightarrow> bool run" where
  "mutex_release held = Some (Inr False)"

fun lock_pairs :: "nat \<Rightarrow> bool \<Rightarrow> bool run" where
  "lock_pairs 0 held = Some (Inr held)"
| "lock_pairs (Suc j) held = bind_run (mutex_acquire held) (\<lambda>held. bind_run (mutex_release held) (lock_pairs j))"

text \<open>
  The state of an iteration: the two readings, which outlive the attempts and are not checked,
  the mutex and the environment.
\<close>

type_synonym lock_state = "readings \<times> bool \<times> world"

definition lock_step :: "int \<Rightarrow> lock_state rws \<Rightarrow> (int \<times> lock_state rws) run" where
  "lock_step sub_iters = (\<lambda>(r, (start_time, end_time), held, w).
     case keep_reading start_time w of (start_time, w) \<Rightarrow>
       bind_run (lock_pairs (nat sub_iters) held) (\<lambda>held. case keep_reading end_time w of (end_time, w) \<Rightarrow>
         Some (bind_res (elapsed (start_time, end_time)) (\<lambda>time_diff.
           bind_res (add_entry r time_diff 0) (\<lambda>r. Inr (0, r, (start_time, end_time), held, w))))))"

text \<open>Each attempt initialises the mutex.\<close>

definition lock_run :: "int \<Rightarrow> int \<Rightarrow> lock_state rws \<Rightarrow> (int \<times> lock_state rws) run" where
  "lock_run iters sub_iters = (\<lambda>(r, rd, held, w). iterate (nat iters) (lock_step sub_iters) (r, rd, False, w))"

section \<open>The thread and the test\<close>

definition run_lock_consistency_test ::
  "sched_env \<Rightarrow> sched \<Rightarrow> int \<Rightarrow> f64 \<Rightarrow> real_time_mode \<Rightarrow> rt_params \<Rightarrow> int \<Rightarrow> rw \<Rightarrow> rw run" where
  "run_lock_consistency_test e self new_iters clock_accuracy mode vals threshold s = (case s of (r, w) \<Rightarrow>
     bind_run (Some (assert_sched e self (se_max e - 10))) (\<lambda>_.
     bind_run (retry_loop (lock_run new_iters) (retry_step clock_accuracy mode vals threshold) 2 0
         (r, (None, None), False, w)) (\<lambda>(rc, sub_iters, r, rd, held, w). Some (Inr (r, w)))))"

text \<open>
  The thread's scheduling, or \<^verbatim>\<open>ERROR\<close> when one of the three calls that set the attribute fails, which POSIX
  allows for an invalid or unsupported value.  \<^verbatim>\<open>pthread_create\<close> reports a failure by a positive number, \<^verbatim>\<open>EPERM\<close>
  when the program lacks the right to the attribute's scheduling and \<^verbatim>\<open>EAGAIN\<close> when resources are missing; the
  comparison with \<^verbatim>\<open>ERROR\<close> misses it, and the caller then joins a thread that was never created.
\<close>

definition create_start_thread :: "sched_env \<Rightarrow> sched \<Rightarrow> sched option option" where
  "create_start_thread e self = (case set_pthreadattr_sched_param e pthread_attr_init SCHED_FIFO (se_max e - 10) of
     (rc, attr) \<Rightarrow> if rc = -1 then None
       else Some (if se_create e 0 then Some (thread_sched self attr) else None))"

definition lock_consistency :: "(f64 \<Rightarrow> f64 \<Rightarrow> f64) \<Rightarrow> sched_env \<Rightarrow> sched \<Rightarrow> test_fn" where
  "lock_consistency pw e self args bmtest env =
     bind_run (Some (get_min_exec_time (te_table env))) (\<lambda>clock_accuracy.
     bind_run (Some (bind_res (create_test_result 1 (bt_iterations bmtest)) (\<lambda>rs. aread rs 0))) (\<lambda>r.
     (case create_start_thread e self of None \<Rightarrow> Some (Inl Abort_called)
      | Some None \<Rightarrow> Some (Inl Uninitialised)
      | Some (Some high_priority_thrd) \<Rightarrow>
          bind_run (run_lock_consistency_test e high_priority_thrd (bt_iterations bmtest) clock_accuracy (rt_mode args)
              (te_vals env) (bt_threshold bmtest) (r, te_world env)) (\<lambda>(r, w).
          Some (bind_res (add_result_to_result_table2 pw (te_table env) r LK_CONSISTENCY_TEST bmtest)
            (\<lambda>table. Inr (0, env\<lparr>te_table := table, te_world := w\<rparr>)))))))"

section \<open>The work keeps the contract of a timed test\<close>

lemma lock_pairs_free: "lock_pairs j False = Some (Inr False)"
  by (induction j) (simp_all add: mutex_acquire_def mutex_release_def)

definition lock_inv :: "int \<Rightarrow> int \<Rightarrow> nat \<Rightarrow> lock_state \<Rightarrow> bool" where
  "lock_inv lo b n s \<longleftrightarrow> clock_steps lo b n (snd (snd s))"

lemma lock_step_records: "records_time lo b (\<lambda>n s. lock_inv lo b n s \<and> \<not> fst (snd s)) (lock_step q)"
  unfolding records_time_def
proof (intro allI impI)
  fix r and s :: lock_state and n assume i: "lock_inv lo b (Suc n) s \<and> \<not> fst (snd s)"
  obtain u v w where s: "s = ((u, v), False, w)" using i by (cases s) auto
  have c: "clock_steps lo b (Suc n) w" using i by (simp add: lock_inv_def s)
  obtain st en where se: "clk w (clk_n w) = Some st" "clk w (Suc (clk_n w)) = Some en"
    "get_time_diff st en = Inr (ts_nsec en - ts_nsec st)" "in_range lo b (ts_nsec en - ts_nsec st)"
    using two_readings [OF c] .
  define w' where "w' = w\<lparr>clk_n := Suc (Suc (clk_n w))\<rparr>"
  have "clock_steps lo b n w'" by (rule clock_steps_next [OF c]) (simp_all add: w'_def)
  moreover have "lock_step q (r, s) = Some (bind_res (add_entry r (ts_nsec en - ts_nsec st) 0)
      (\<lambda>r. Inr (0, r, (Some st, Some en), False, w')))"
    using se by (simp add: lock_step_def s keep_reading_def get_cur_time_def elapsed_def lock_pairs_free w'_def)
  ultimately show "\<exists>t s'. in_range lo b t \<and> (lock_inv lo b n s' \<and> \<not> fst (snd s')) \<and>
      lock_step q (r, s) = Some (bind_res (add_entry r t 0) (\<lambda>r. Inr (0, r, s')))"
    using se(4) by (intro exI [of _ "ts_nsec en - ts_nsec st"] exI [of _ "((Some st, Some en), False, w')"]) (simp add: lock_inv_def)
qed

interpretation lock_body: timed_body lock_run lock_inv INT_MAX
proof unfold_locales
  fix q lo b iters m r and s :: lock_state
  assume a: "lock_inv lo b (nat iters + m) s" "run_ok iters b" "recorded r []" "max_entries r = iters"
  obtain rd held w where s: "s = (rd, held, w)" by (metis prod.exhaust)
  have "lock_inv lo b (nat iters + m) (rd, False, w) \<and> \<not> fst (snd (rd, False, w))" using a(1) by (simp add: s lock_inv_def)
  from iterate_run [OF lock_step_records this a(2-4), of q]
  show "\<exists>ts r' s'. lock_run iters q (r, s) = Some (Inr (0, r', s')) \<and> measured lo b iters r' ts \<and> lock_inv lo b m s'"
    by (simp add: lock_run_def s) blast
qed

lemma thread_assert_ok:
  assumes "set_pthreadattr_sched_param e pthread_attr_init SCHED_FIFO (se_max e - 10) = (0, attr)" and "se_get e"
  shows "assert_sched e (thread_sched self attr) (se_max e - 10) = Inr ()"
  using set_attr_ok [OF assms(1), of self] assms(2) by (simp add: assert_sched_ok)

section \<open>Properties\<close>

definition sched_ok :: "sched_env \<Rightarrow> bool" where
  "sched_ok e \<longleftrightarrow> se_inherit e \<and> se_policy e \<and> se_param e \<and> se_get e \<and> (\<forall>n. se_create e n)"

lemma lock_errors:
  assumes "get_min_exec_time (te_table env) = Inr clock" and "0 \<le> bt_iterations bmtest"
  shows "\<not> (se_inherit e \<and> se_policy e \<and> se_param e) \<Longrightarrow> lock_consistency pw e self args bmtest env = Some (Inl Abort_called)"
    and "se_inherit e \<and> se_policy e \<and> se_param e \<and> \<not> se_create e 0 \<Longrightarrow> lock_consistency pw e self args bmtest env = Some (Inl Uninitialised)"
  using assms set_attr_rc [of e pthread_attr_init SCHED_FIFO "se_max e - 10"]
  by (auto simp: lock_consistency_def create_one create_start_thread_def split: prod.split)

text \<open>
  C28: With real-time scheduling available and every iteration longer than the resolution of the
  clock, \<^verbatim>\<open>lock_consistency\<close> never deadlocks on its mutex, its thread's assertion on the scheduling
  holds, and it ends within \<^verbatim>\<open>_threshold\<close> attempts with the complete statistics of the last in its
  bucket.  When the scheduling attribute cannot be set it aborts.  When the thread cannot be
  created, as when the program lacks the right to real-time scheduling, it joins an indeterminate one.
\<close>

theorem lock_consistency_ends:
  assumes "config_ok clock b args bmtest env" and "clock < of_ll lo" and "sched_ok e"
    and "1 \<le> bt_threshold bmtest" "bt_threshold bmtest \<le> 30"
    and "clock_steps lo b (nat (bt_threshold bmtest) * nat (bt_iterations bmtest)) (te_world env)"
  shows "(\<exists>ts r env'. lock_consistency pw e self args bmtest env = Some (Inr (0, env'))
      \<and> entered LK_CONSISTENCY_TEST r bmtest (te_table env) (te_table env') \<and> te_vals env' = te_vals env
      \<and> measured lo b (bt_iterations bmtest) r ts)
    \<and> (\<forall>e'. \<not> (se_inherit e' \<and> se_policy e' \<and> se_param e') \<longrightarrow> lock_consistency pw e' self args bmtest env = Some (Inl Abort_called))
    \<and> (\<forall>e'. se_inherit e' \<and> se_policy e' \<and> se_param e' \<and> \<not> se_create e' 0 \<longrightarrow>
        lock_consistency pw e' self args bmtest env = Some (Inl Uninitialised))"
proof -
  have c: "table_ok (te_table env)" "get_min_exec_time (te_table env) = Inr clock" "percent_ok (rt_mode args) (te_vals env)"
    "run_ok (bt_iterations bmtest) b" "Fin 0 < bt_reference_score bmtest"
    using assms(1) by (simp_all add: config_ok_def)
  have it: "0 \<le> bt_iterations bmtest" using c(4) by (simp add: run_ok_def)
  obtain attr where attr: "set_pthreadattr_sched_param e pthread_attr_init SCHED_FIFO (se_max e - 10) = (0, attr)"
    using set_attr_rc [of e pthread_attr_init SCHED_FIFO "se_max e - 10"] assms(3)
    by (cases "set_pthreadattr_sched_param e pthread_attr_init SCHED_FIFO (se_max e - 10)") (simp add: sched_ok_def)
  let ?r0 = "new_result (bt_iterations bmtest) (bt_iterations bmtest)"
  have "(2::int) ^ nat (bt_threshold bmtest - 1 - 0) \<le> 2 ^ 29" using assms(5) by (intro power_increasing) simp_all
  then have q: "2 * 2 ^ nat (bt_threshold bmtest - 1 - 0) \<le> INT_MAX" by simp
  have inv: "lock_inv lo b (nat (bt_threshold bmtest - 0) * nat (bt_iterations bmtest)) ((None, None), False, te_world env)"
    using assms(6) by (simp add: lock_inv_def)
  have th: "is_int (bt_threshold bmtest)" using assms(4,5) by (simp add: is_int_def)
  obtain k ts r rd held w where "retry_loop (lock_run (bt_iterations bmtest))
      (retry_step clock (rt_mode args) (te_vals env) (bt_threshold bmtest)) 2 0 (?r0, (None, None), False, te_world env)
      = Some (Inr (0, 2 * 2 ^ k, r, rd, held, w))" "measured lo b (bt_iterations bmtest) r ts"
    using lock_body.ends_within_threshold [OF assms(2) c(3,4) zero_less_numeral q order_refl order_refl _ th inv]
      assms(4) new_result_ready [OF c(4)] by force
  moreover then obtain t' where "add_result_to_result_table2 pw (te_table env) r LK_CONSISTENCY_TEST bmtest = Inr t'"
    "entered LK_CONSISTENCY_TEST r bmtest (te_table env) t'" using add_result2_entered [OF c(1) _ c(5)] by blast
  moreover have "assert_sched e (thread_sched self attr) (se_max e - 10) = Inr ()"
    using thread_assert_ok [OF attr] assms(3) by (simp add: sched_ok_def)
  ultimately have "lock_consistency pw e self args bmtest env = Some (Inr (0, env\<lparr>te_table := t', te_world := w\<rparr>))"
    using attr c(2) it assms(3)
    by (simp add: lock_consistency_def create_one create_start_thread_def run_lock_consistency_test_def sched_ok_def)
  then have "\<exists>ts r env'. lock_consistency pw e self args bmtest env = Some (Inr (0, env'))
      \<and> entered LK_CONSISTENCY_TEST r bmtest (te_table env) (te_table env') \<and> te_vals env' = te_vals env
      \<and> measured lo b (bt_iterations bmtest) r ts"
    using \<open>entered LK_CONSISTENCY_TEST r bmtest (te_table env) t'\<close> \<open>measured lo b (bt_iterations bmtest) r ts\<close> by force
  then show ?thesis using lock_errors [OF c(2) it] by blast
qed

definition fifo_env :: sched_env where
  "fifo_env = \<lparr>se_inherit = True, se_policy = True, se_param = True, se_create = \<lambda>_. True, se_get = True, se_set = True,
     se_max = 99, se_min = 1, se_cpus = 4\<rparr>"

theorem lock_consistency_ends_witness:
  "(\<exists>ts r env'. lock_consistency (\<lambda>x y. x) fifo_env \<lparr>sc_policy = SCHED_OTHER, sc_priority = 0\<rparr> steady_args steady_test steady_env
        = Some (Inr (0, env'))
      \<and> entered LK_CONSISTENCY_TEST r steady_test (te_table steady_env) (te_table env') \<and> te_vals env' = te_vals steady_env
      \<and> measured 50000 50000 (bt_iterations steady_test) r ts)
    \<and> lock_consistency (\<lambda>x y. x) (fifo_env\<lparr>se_param := False\<rparr>) \<lparr>sc_policy = SCHED_OTHER, sc_priority = 0\<rparr> steady_args steady_test steady_env
      = Some (Inl Abort_called)
    \<and> lock_consistency (\<lambda>x y. x) (fifo_env\<lparr>se_create := \<lambda>_. False\<rparr>) \<lparr>sc_policy = SCHED_OTHER, sc_priority = 0\<rparr> steady_args steady_test steady_env
      = Some (Inl Uninitialised)"
proof -
  note ends = lock_consistency_ends [OF steady_config, where lo = 50000 and e = fifo_env and pw = "\<lambda>x y. x"
      and self = "\<lparr>sc_policy = SCHED_OTHER, sc_priority = 0\<rparr>"]
  have hyps: "Fin 2000 < of_ll 50000" "sched_ok fifo_env" "1 \<le> bt_threshold steady_test" "bt_threshold steady_test \<le> 30"
    "clock_steps 50000 50000 (nat (bt_threshold steady_test) * nat (bt_iterations steady_test)) (te_world steady_env)"
    by (simp_all add: sched_ok_def fifo_env_def steady_test_def steady_clock steady_env_def)
  show ?thesis using ends [OF hyps] by (simp add: fifo_env_def)
qed

end
