(* ===== verification/Event_Dispatch.thy ===== *)
theory Event_Dispatch
  imports Dispatch_Progress Lock_Consistency
begin

text \<open>
  \<^verbatim>\<open>event_dispatch_test.c\<close>: a run creates both threads, waits for them and records the differences
  of the times that the sender stored; the test repeats the run with twice as many exchanges.
  \<open>pick\<close> is the schedule: it says at each tick whether the sender or the receiver is tried first.
\<close>

section \<open>Running the threads\<close>

definition next_step :: "bool \<Rightarrow> nat \<Rightarrow> nat \<Rightarrow> dispatch \<Rightarrow> dispatch res option" where
  "next_step sender_first major sub s = (if sender_first
     then (case sender_step major sub s of None \<Rightarrow> map_option Inr (receiver_step major sub s) | x \<Rightarrow> x)
     else (case receiver_step major sub s of None \<Rightarrow> sender_step major sub s | Some s' \<Rightarrow> Some (Inr s')))"

text \<open>Waiting for both threads never returns when they are blocked.\<close>

partial_function (option) join_threads :: "(nat \<Rightarrow> bool) \<Rightarrow> nat \<Rightarrow> nat \<Rightarrow> nat \<Rightarrow> dispatch \<Rightarrow> (nat \<times> dispatch) run" where
  "join_threads pick major sub tick s = (if both_done s then Some (Inr (tick, s))
     else (case next_step (pick tick) major sub s of None \<Rightarrow> None
       | Some (Inl e) \<Rightarrow> Some (Inl e)
       | Some (Inr s') \<Rightarrow> join_threads pick major sub (Suc tick) s'))"

definition new_threads :: "nat \<Rightarrow> bool \<Rightarrow> world \<Rightarrow> dispatch" where
  "new_threads major started w = \<lparr>spc = S_Top, s_major = 0, s_sub = 0, rpc = R_Top, r_major = 0, r_sub = 0,
     is_receiver_started = started, ready_lock = None, wait_notify_lock = None, start_tm = None, end_tm = None,
     sender_start_time = replicate major 0, receiver_end_time = replicate major 0, ed_world = w\<rparr>"

definition record_difference :: "int list \<Rightarrow> int list \<Rightarrow> nat \<Rightarrow> test_results \<Rightarrow> test_results res" where
  "record_difference ends starts i r = bind_res (aread ends (int i)) (\<lambda>e. bind_res (aread starts (int i)) (\<lambda>b.
     bind_res (chk_ll (e - b)) (\<lambda>time_diff. add_entry r time_diff 0)))"

text \<open>
  What one run leaves to the next: the tick of the schedule, the static \<^verbatim>\<open>is_receiver_started\<close> and
  the environment.  \<^verbatim>\<open>start_thread\<close> ignores the result of \<^verbatim>\<open>pthread_create\<close>.
\<close>

type_synonym dstate = "nat \<times> bool \<times> world"

definition run_event_dispatch_test :: "(nat \<Rightarrow> bool) \<Rightarrow> sched_env \<Rightarrow> int \<Rightarrow> int \<Rightarrow> dstate rws \<Rightarrow> (int \<times> dstate rws) run" where
  "run_event_dispatch_test pick e major_iterations sub_iterations = (\<lambda>(r, tick, started, w).
     if \<not> (se_create e 0 \<and> se_create e 1) then Some (Inl Uninitialised)
     else bind_run (join_threads pick (nat major_iterations) (nat sub_iterations) tick
         (new_threads (nat major_iterations) started w)) (\<lambda>(tick, s).
       Some (bind_res (for_res [0..<nat major_iterations] (record_difference (receiver_end_time s) (sender_start_time s)) r)
         (\<lambda>r. Inr (0, r, tick, is_receiver_started s, ed_world s)))))"

definition event_dispatch :: "(f64 \<Rightarrow> f64 \<Rightarrow> f64) \<Rightarrow> (nat \<Rightarrow> bool) \<Rightarrow> sched_env \<Rightarrow> test_fn" where
  "event_dispatch pw pick e args bmtest env =
     bind_run (Some (bind_res (create_test_result 1 (bt_iterations bmtest)) (\<lambda>rs. aread rs 0))) (\<lambda>r.
     bind_run (Some (get_min_exec_time (te_table env))) (\<lambda>clock_accuracy.
     bind_run (retry_loop (run_event_dispatch_test pick e (bt_iterations bmtest))
         (retry_step clock_accuracy (rt_mode args) (te_vals env) (bt_threshold bmtest)) 2 0 (r, 0, False, te_world env))
       (\<lambda>(rc, sub_iterations, r, tick, started, w).
         if rc = -1 then Some (Inl Abort_called)
         else Some (bind_res (add_result_to_result_table2 pw (te_table env) r EVENT_DISPATCH_TEST bmtest)
           (\<lambda>table. Inr (0, env\<lparr>te_table := table, te_world := w\<rparr>))))))"

section \<open>The sender's readings\<close>

definition stored :: "int \<Rightarrow> int \<Rightarrow> dispatch \<Rightarrow> bool" where
  "stored lo b s \<longleftrightarrow> (\<forall>i < s_major s. is_ll (receiver_end_time s ! i - sender_start_time s ! i)
     \<and> in_range lo b (receiver_end_time s ! i - sender_start_time s ! i))"

text \<open>The readings that \<open>n\<close> further major iterations and \<open>m\<close> iterations of later runs use.\<close>

definition readings_left :: "int \<Rightarrow> int \<Rightarrow> nat \<Rightarrow> nat \<Rightarrow> dispatch \<Rightarrow> bool" where
  "readings_left lo b major m s \<longleftrightarrow> (
     if spc s \<in> {S_Loop, S_Wait, S_Waiting, S_Woken, S_End} then \<exists>st en. start_tm s = Some st \<and> clk (ed_world s) (clk_n (ed_world s)) = Some en
       \<and> ts_ok st \<and> ts_ok en \<and> in_range lo b (ts_nsec en - ts_nsec st)
       \<and> clock_steps lo b (major - Suc (s_major s) + m) ((ed_world s)\<lparr>clk_n := Suc (clk_n (ed_world s))\<rparr>)
     else if spc s \<in> {S_UnlockWait, S_Record} then \<exists>st en. start_tm s = Some st \<and> end_tm s = Some en
       \<and> ts_ok st \<and> ts_ok en \<and> in_range lo b (ts_nsec en - ts_nsec st) \<and> clock_steps lo b (major - Suc (s_major s) + m) (ed_world s)
     else clock_steps lo b (major - s_major s + m) (ed_world s))"

definition times_inv :: "int \<Rightarrow> int \<Rightarrow> nat \<Rightarrow> nat \<Rightarrow> dispatch \<Rightarrow> bool" where
  "times_inv lo b major m s \<longleftrightarrow> length (receiver_end_time s) = major \<and> length (sender_start_time s) = major
     \<and> stored lo b s \<and> readings_left lo b major m s"

lemma ts_pair:
  assumes "clock_steps lo b (Suc n) w"
  obtains s e where "clk w (clk_n w) = Some s" "clk w (Suc (clk_n w)) = Some e" "ts_ok s" "ts_ok e"
    "in_range lo b (ts_nsec e - ts_nsec s)" "clock_steps lo b n (w\<lparr>clk_n := Suc (Suc (clk_n w))\<rparr>)"
proof -
  obtain s e where "clk w (clk_n w + 2 * 0) = Some s" "clk w (Suc (clk_n w + 2 * 0)) = Some e" "ts_ok s" "ts_ok e"
    "in_range lo b (ts_nsec e - ts_nsec s)"
    using assms unfolding clock_steps_def by blast
  with that clock_steps_next [OF assms, of "w\<lparr>clk_n := Suc (Suc (clk_n w))\<rparr>"] show thesis by simp
qed

lemma receiver_times:
  assumes "receiver_step major sub s = Some s'" and "times_inv lo b major m s"
  shows "times_inv lo b major m s'"
  using assms(1)
  by (cases rule: receiver_step_cases)
    (use assms(2) in \<open>auto simp: times_inv_def stored_def readings_left_def signal_ready_def signal_wait_notify_def\<close>)

lemma sender_times:
  assumes "sender_step major sub s = Some (Inr s')" and "times_inv lo b major m s" "dispatch_inv major sub s"
  shows "times_inv lo b major m s'"
proof -
  have c: "spc s \<in> {S_Top, S_Done} \<or> s_major s < major" using assms(3) by (auto simp: dispatch_inv_def counters_ok_def)
  from assms(1) show ?thesis
  proof (cases rule: sender_step_cases)
    case start
    then have "major - s_major s + m = Suc (major - Suc (s_major s) + m)" using c by simp
    then have "clock_steps lo b (Suc (major - Suc (s_major s) + m)) (ed_world s)"
      using assms(2) start(1) by (simp add: times_inv_def readings_left_def)
    then obtain st en where "clk (ed_world s) (clk_n (ed_world s)) = Some st" "clk (ed_world s) (Suc (clk_n (ed_world s))) = Some en"
      "ts_ok st" "ts_ok en" "in_range lo b (ts_nsec en - ts_nsec st)"
      "clock_steps lo b (major - Suc (s_major s) + m) ((ed_world s)\<lparr>clk_n := Suc (Suc (clk_n (ed_world s)))\<rparr>)"
      by (rule ts_pair)
    with start assms(2) show ?thesis
      by (simp add: times_inv_def stored_def readings_left_def keep_reading_def get_cur_time_def)
  next
    case stop
    with assms(2) show ?thesis
      by (auto simp: times_inv_def stored_def readings_left_def keep_reading_def get_cur_time_def)
  next
    case enter
    then obtain st en where t: "start_tm s = Some st" "end_tm s = Some en" "ts_ok st" "ts_ok en"
      "in_range lo b (ts_nsec en - ts_nsec st)" "clock_steps lo b (major - Suc (s_major s) + m) (ed_world s)"
      using assms(2) by (auto simp: times_inv_def readings_left_def)
    have l: "length (receiver_end_time s) = major" "length (sender_start_time s) = major" "stored lo b s"
      using assms(2) by (simp_all add: times_inv_def)
    have "s' = s\<lparr>receiver_end_time := (receiver_end_time s)[s_major s := ts_nsec en],
        sender_start_time := (sender_start_time s)[s_major s := ts_nsec st], s_major := Suc (s_major s), spc := S_Top\<rparr>"
      using enter t l c by (simp add: record_times_def convert_ok awrite_ok)
    moreover have "is_ll (ts_nsec en - ts_nsec st)"
      using ts_nsec_range [OF t(3)] ts_nsec_range [OF t(4)] by (simp add: is_ll_def)
    ultimately show ?thesis using t l c enter(1)
      by (auto simp: times_inv_def stored_def readings_left_def nth_list_update less_Suc_eq)
  qed (use assms(2) in \<open>auto simp: times_inv_def stored_def readings_left_def signal_wait_notify_def\<close>)
qed

text \<open>No step of the sender fails.\<close>

lemma sender_no_fault:
  assumes "times_inv lo b major m s" and "dispatch_inv major sub s"
  shows "sender_step major sub s \<noteq> Some (Inl e)"
proof (cases "spc s = S_Record")
  case True
  then have "s_major s < major" using assms(2) by (auto simp: dispatch_inv_def counters_ok_def)
  moreover obtain st en where "start_tm s = Some st" "end_tm s = Some en" "ts_ok st" "ts_ok en"
    using True assms(1) by (auto simp: times_inv_def readings_left_def)
  ultimately show ?thesis using True assms(1)
    by (simp add: sender_step_def record_times_def convert_ok awrite_ok times_inv_def)
next
  case False
  then show ?thesis by (cases "spc s") (simp_all add: sender_step_def split: prod.split)
qed

section \<open>A run ends\<close>

lemma next_step_keeps:
  assumes "dispatch_inv major sub s" and "times_inv lo b major m s" and "\<not> both_done s"
  obtains s' where "next_step p major sub s = Some (Inr s')" "dispatch_inv major sub s'" "times_inv lo b major m s'"
    "steps_left major sub s' < steps_left major sub s"
proof -
  have n: "sender_step major sub s \<noteq> None \<or> receiver_step major sub s \<noteq> None" by (rule some_thread_runs [OF assms(1,3)])
  have f: "\<exists>s'. x = Inr s'" if "sender_step major sub s = Some x" for x
    using that sender_no_fault [OF assms(2,1)] by (cases x) auto
  have "(\<exists>s'. next_step p major sub s = Some (Inr s') \<and> sender_step major sub s = Some (Inr s'))
      \<or> (\<exists>s'. next_step p major sub s = Some (Inr s') \<and> receiver_step major sub s = Some s')"
    using n f by (auto simp: next_step_def split: option.split)
  then show thesis
  proof (elim disjE exE conjE)
    fix s' assume "next_step p major sub s = Some (Inr s')" "sender_step major sub s = Some (Inr s')"
    then show thesis using that sender_keeps sender_times sender_decreases assms(1,2) by metis
  next
    fix s' assume "next_step p major sub s = Some (Inr s')" "receiver_step major sub s = Some s'"
    then show thesis using that receiver_keeps receiver_times receiver_decreases assms(1,2) by metis
  qed
qed

lemma join_threads_ends:
  assumes "dispatch_inv major sub s" and "times_inv lo b major m s"
  shows "\<exists>tick' s'. join_threads pick major sub tick s = Some (Inr (tick', s')) \<and> both_done s'
    \<and> dispatch_inv major sub s' \<and> times_inv lo b major m s'"
  using assms
proof (induction "steps_left major sub s" arbitrary: s tick rule: less_induct)
  case less
  show ?case
  proof (cases "both_done s")
    case True
    then show ?thesis using less.prems by (subst join_threads.simps) simp
  next
    case False
    obtain s' where s': "next_step (pick tick) major sub s = Some (Inr s')" "dispatch_inv major sub s'" "times_inv lo b major m s'"
      "steps_left major sub s' < steps_left major sub s"
      using next_step_keeps [OF less.prems False] by blast
    from less.hyps [OF s'(4,2,3), of "Suc tick"] show ?thesis
      by (subst join_threads.simps) (simp add: False s'(1))
  qed
qed

lemma new_threads_inv:
  assumes "0 < sub" and "clock_steps lo b (major + m) w"
  shows "dispatch_inv major sub (new_threads major False w)" "times_inv lo b major m (new_threads major False w)"
  using assms by (simp_all add: dispatch_invs new_threads_def times_inv_def stored_def readings_left_def)

lemma both_done_times:
  assumes "both_done s" and "dispatch_inv major sub s" and "times_inv lo b major m s"
  shows "\<not> is_receiver_started s" "clock_steps lo b m (ed_world s)"
    "\<forall>i < major. is_ll (receiver_end_time s ! i - sender_start_time s ! i) \<and> in_range lo b (receiver_end_time s ! i - sender_start_time s ! i)"
    "length (receiver_end_time s) = major" "length (sender_start_time s) = major"
proof -
  have d: "spc s = S_Done" "rpc s = R_Done" using assms(1) by (simp_all add: both_done_def)
  have "s_major s = major" using assms(2) d by (simp add: dispatch_inv_def counters_ok_def)
  then show "clock_steps lo b m (ed_world s)"
    "\<forall>i < major. is_ll (receiver_end_time s ! i - sender_start_time s ! i) \<and> in_range lo b (receiver_end_time s ! i - sender_start_time s ! i)"
    using assms(3) d(1) by (simp_all add: times_inv_def readings_left_def stored_def)
  show "\<not> is_receiver_started s" using assms(2) d by (simp add: dispatch_inv_def protocol_def)
  show "length (receiver_end_time s) = major" "length (sender_start_time s) = major" using assms(3) by (simp_all add: times_inv_def)
qed

lemma record_differences:
  assumes "\<forall>i < n. is_ll (ends ! i - starts ! i)" and "n \<le> length ends" "n \<le> length starts"
  shows "for_res [0..<n] (record_difference ends starts) r = add_entries r (map (\<lambda>i. ends ! i - starts ! i) [0..<n])"
proof -
  have "for_res xs (record_difference ends starts) r = add_entries r (map (\<lambda>i. ends ! i - starts ! i) xs)"
    if "\<forall>i \<in> set xs. i < n" for xs
    using that
  proof (induction xs arbitrary: r)
    case (Cons i xs)
    have "record_difference ends starts i r = add_entry r (ends ! i - starts ! i) 0"
      using Cons.prems assms by (simp add: record_difference_def aread_ok chk_ll_ok)
    moreover have "for_res xs (record_difference ends starts) = (\<lambda>r. add_entries r (map (\<lambda>i. ends ! i - starts ! i) xs))"
      using Cons by (intro ext) simp
    ultimately show ?case by simp
  qed simp
  then show ?thesis by simp
qed

section \<open>The contract of a timed test\<close>

definition dispatch_clock :: "int \<Rightarrow> int \<Rightarrow> nat \<Rightarrow> dstate \<Rightarrow> bool" where
  "dispatch_clock lo b n = (\<lambda>(tick, started, w). \<not> started \<and> clock_steps lo b n w)"

lemma run_event_dispatch_law:
  assumes "0 < q" and "dispatch_clock lo b (nat iters + m) s" and "run_ok iters b" and "recorded r []" "max_entries r = iters"
    and "se_create e 0" "se_create e 1"
  shows "\<exists>ts r' s'. run_event_dispatch_test pick e iters q (r, s) = Some (Inr (0, r', s')) \<and> measured lo b iters r' ts
    \<and> dispatch_clock lo b m s'"
proof -
  obtain tick w where s: "s = (tick, False, w)" "clock_steps lo b (nat iters + m) w"
    using assms(2) by (cases s) (auto simp: dispatch_clock_def)
  have "0 < nat q" using assms(1) by simp
  from join_threads_ends [OF new_threads_inv [OF this s(2)], of pick tick] obtain tick' d where
    j: "join_threads pick (nat iters) (nat q) tick (new_threads (nat iters) False w) = Some (Inr (tick', d))"
    and d: "both_done d" "dispatch_inv (nat iters) (nat q) d" "times_inv lo b (nat iters) m d" by blast
  let ?ts = "map (\<lambda>i. receiver_end_time d ! i - sender_start_time d ! i) [0..<nat iters]"
  note e = both_done_times [OF d]
  have len: "int (length ?ts) = iters" "?ts \<noteq> []" using assms(3) by (simp_all add: run_ok_def)
  have ok: "times_ok b ?ts" "\<forall>t \<in> set ?ts. lo \<le> t" using e(3) assms(3) by (auto simp: times_ok_def run_ok_def in_range_def)
  obtain r' where "add_entries r ?ts = Inr r'" "recorded r' ?ts" "summarised r' ?ts" "max_entries r' = max_entries r"
    using add_entries_full [OF assms(4) _ len(2) ok(1)] len(1) assms(5) by auto
  then have "for_res [0..<nat iters] (record_difference (receiver_end_time d) (sender_start_time d)) r = Inr r'"
    "measured lo b iters r' ?ts"
    using record_differences [of "nat iters" "receiver_end_time d" "sender_start_time d" r] e len ok assms(5)
    by (simp_all add: measured_def)
  with j e(1,2) assms(6,7) show ?thesis
    by (intro exI [of _ ?ts] exI [of _ r'] exI [of _ "(tick', False, ed_world d)"])
      (simp add: run_event_dispatch_test_def s(1) dispatch_clock_def)
qed

interpretation dispatch: timed_body "run_event_dispatch_test pick e" dispatch_clock "if se_create e 0 \<and> se_create e 1 then INT_MAX else 0" for pick e
  by unfold_locales (rule run_event_dispatch_law, auto split: if_splits)

section \<open>Properties\<close>

text \<open>
  C10: The two threads never deadlock and always return, in every interleaving without spurious
  wakeups: from every state that keeps the protocol some thread can take a step, every step keeps
  the protocol and brings the threads nearer to their end, and both have returned when no step
  is left.
\<close>

theorem threads_never_deadlock:
  assumes "dispatch_inv major sub s"
  shows "(both_done s \<or> (\<exists>x. sender_step major sub s = Some x) \<or> (\<exists>s'. receiver_step major sub s = Some s'))
    \<and> {s'. dispatch_step major sub s s'} \<subseteq> {s'. dispatch_inv major sub s' \<and> steps_left major sub s' < steps_left major sub s}"
proof
  show "both_done s \<or> (\<exists>x. sender_step major sub s = Some x) \<or> (\<exists>s'. receiver_step major sub s = Some s')"
    using some_thread_runs [OF assms] by blast
  show "{s'. dispatch_step major sub s s'} \<subseteq> {s'. dispatch_inv major sub s' \<and> steps_left major sub s' < steps_left major sub s}"
    using sender_keeps receiver_keeps sender_decreases receiver_decreases assms by (blast elim: dispatch_stepE)
qed

theorem threads_never_deadlock_witness:
  "(both_done (new_threads 3 False steady_world) \<or> (\<exists>x. sender_step 3 2 (new_threads 3 False steady_world) = Some x)
      \<or> (\<exists>s'. receiver_step 3 2 (new_threads 3 False steady_world) = Some s'))
    \<and> {s'. dispatch_step 3 2 (new_threads 3 False steady_world) s'}
      \<subseteq> {s'. dispatch_inv 3 2 s' \<and> steps_left 3 2 s' < steps_left 3 2 (new_threads 3 False steady_world)}"
  by (rule threads_never_deadlock [OF new_threads_inv(1) [where m = 0 and lo = 50000 and b = 50000]]) (simp_all add: steady_clock)

text \<open>
  C11: Under every schedule without spurious wakeups \<^verbatim>\<open>event_dispatch\<close> returns \<^verbatim>\<open>SUCCESS\<close> within
  \<^verbatim>\<open>_threshold\<close> attempts, when an exchange takes longer than the resolution of the clock, and enters the
  statistics of the differences between the sender's two readings in each major iteration.
\<close>

theorem event_dispatch_ends:
  assumes "config_ok clock b args bmtest env" and "clock < of_ll lo" and "se_create e 0" "se_create e 1"
    and "1 \<le> bt_threshold bmtest" "bt_threshold bmtest \<le> 30"
    and "clock_steps lo b (nat (bt_threshold bmtest) * nat (bt_iterations bmtest)) (te_world env)"
  shows "\<exists>ts r env'. event_dispatch pw pick e args bmtest env = Some (Inr (0, env'))
    \<and> entered EVENT_DISPATCH_TEST r bmtest (te_table env) (te_table env') \<and> te_vals env' = te_vals env
    \<and> measured lo b (bt_iterations bmtest) r ts"
proof -
  have c: "table_ok (te_table env)" "get_min_exec_time (te_table env) = Inr clock" "percent_ok (rt_mode args) (te_vals env)"
    "run_ok (bt_iterations bmtest) b" "Fin 0 < bt_reference_score bmtest"
    using assms(1) by (simp_all add: config_ok_def)
  have it: "0 \<le> bt_iterations bmtest" using c(4) by (simp add: run_ok_def)
  let ?r0 = "new_result (bt_iterations bmtest) (bt_iterations bmtest)"
  let ?qmax = "if se_create e 0 \<and> se_create e 1 then INT_MAX else (0::int)"
  have "(2::int) ^ nat (bt_threshold bmtest - 1 - 0) \<le> 2 ^ 29" using assms(6) by (intro power_increasing) simp_all
  then have q: "2 * 2 ^ nat (bt_threshold bmtest - 1 - 0) \<le> ?qmax" "?qmax \<le> INT_MAX" using assms(3,4) by simp_all
  have inv: "dispatch_clock lo b (nat (bt_threshold bmtest - 0) * nat (bt_iterations bmtest)) (0, False, te_world env)"
    using assms(7) by (simp add: dispatch_clock_def)
  have th: "is_int (bt_threshold bmtest)" using assms(5,6) by (simp add: is_int_def)
  obtain k ts r tick started w where "retry_loop (run_event_dispatch_test pick e (bt_iterations bmtest))
      (retry_step clock (rt_mode args) (te_vals env) (bt_threshold bmtest)) 2 0 (?r0, 0, False, te_world env)
      = Some (Inr (0, 2 * 2 ^ k, r, tick, started, w))" "measured lo b (bt_iterations bmtest) r ts"
    using dispatch.ends_within_threshold [OF assms(2) c(3,4) zero_less_numeral q order_refl _ th inv, of ?r0]
      assms(5) new_result_ready [OF c(4)] by force
  moreover then obtain t' where "add_result_to_result_table2 pw (te_table env) r EVENT_DISPATCH_TEST bmtest = Inr t'"
    "entered EVENT_DISPATCH_TEST r bmtest (te_table env) t'" using add_result2_entered [OF c(1) _ c(5)] by blast
  ultimately show ?thesis using c(2) it
    by (intro exI [of _ ts] exI [of _ r] exI [of _ "env\<lparr>te_table := t', te_world := w\<rparr>"])
      (simp add: event_dispatch_def create_one)
qed

theorem event_dispatch_ends_witness:
  "\<exists>ts r env'. event_dispatch (\<lambda>x y. x) even fifo_env steady_args steady_test steady_env = Some (Inr (0, env'))
    \<and> entered EVENT_DISPATCH_TEST r steady_test (te_table steady_env) (te_table env') \<and> te_vals env' = te_vals steady_env
    \<and> measured 50000 50000 (bt_iterations steady_test) r ts"
  by (rule event_dispatch_ends [OF steady_config])
    (simp_all add: steady_test_def steady_clock steady_env_def fifo_env_def)

text \<open>The threads' steps as a list of who moves.\<close>

fun play :: "nat \<Rightarrow> nat \<Rightarrow> thr list \<Rightarrow> dispatch \<Rightarrow> dispatch option" where
  "play major sub [] s = Some s"
| "play major sub (Sender # ts) s = (case sender_step major sub s of Some (Inr s') \<Rightarrow> play major sub ts s' | _ \<Rightarrow> None)"
| "play major sub (Receiver # ts) s = (case receiver_step major sub s of Some s' \<Rightarrow> play major sub ts s' | _ \<Rightarrow> None)"

lemma play_reaches: "play major sub ts s = Some s' \<Longrightarrow> (dispatch_step major sub)\<^sup>*\<^sup>* s s'"
proof (induction major sub ts s rule: play.induct)
  case (2 major sub ts s)
  then show ?case
    by (auto split: option.splits sum.splits intro: converse_rtranclp_into_rtranclp dispatch_step.sender)
next
  case (3 major sub ts s)
  then show ?case by (auto split: option.splits intro: converse_rtranclp_into_rtranclp dispatch_step.receiver)
qed simp

text \<open>
  Before the spurious wakeup: the sender has woken up the receiver for the first exchange and waits for its signal. After it: the
  sender has begun exchange \<open>k + 1\<close> and waits, and the receiver is about to answer to exchange \<open>k\<close>.
\<close>

definition first_exchange :: "nat \<Rightarrow> timespec \<Rightarrow> world \<Rightarrow> dispatch" where
  "first_exchange major st w = (new_threads major False w)\<lparr>spc := S_Waiting, rpc := R_Woken, start_tm := Some st, ed_world := w\<lparr>clk_n := Suc (clk_n w)\<rparr>\<rparr>"

definition ahead :: "nat \<Rightarrow> timespec \<Rightarrow> world \<Rightarrow> nat \<Rightarrow> dispatch" where
  "ahead major st w k = (first_exchange major st w)\<lparr>s_sub := Suc k, r_sub := k\<rparr>"

lemma reaches_first:
  assumes "0 < major" and "0 < sub" and "clk w (clk_n w) = Some st"
  shows "play major sub (replicate 5 Receiver @ replicate 7 Sender) (new_threads major False w) = Some (first_exchange major st w)"
  using assms by (simp add: eval_nat_numeral new_threads_def first_exchange_def sender_step_def receiver_step_def signal_ready_def signal_wait_notify_def
      keep_reading_def get_cur_time_def)

text \<open>The receiver has not answered yet, so the signal for the second exchange finds nobody waiting.\<close>

lemma signal_lost:
  assumes "1 < sub"
  shows "play major sub (replicate 3 Sender) ((first_exchange major st w)\<lparr>spc := S_Woken\<rparr>) = Some (ahead major st w 0)"
  using assms by (simp add: eval_nat_numeral new_threads_def first_exchange_def ahead_def sender_step_def signal_wait_notify_def)

lemma stays_ahead:
  assumes "Suc (Suc k) < sub"
  shows "play major sub (replicate 3 Receiver @ replicate 3 Sender) (ahead major st w k) = Some (ahead major st w (Suc k))"
  using assms by (simp add: eval_nat_numeral new_threads_def first_exchange_def ahead_def sender_step_def receiver_step_def signal_wait_notify_def)

lemma comes_to_end:
  assumes "k < sub - 1" shows "(dispatch_step major sub)\<^sup>*\<^sup>* (ahead major st w 0) (ahead major st w k)"
  using assms
proof (induction k)
  case (Suc k)
  then have "Suc (Suc k) < sub" "k < sub - 1" by simp_all
  from Suc.IH [OF this(2)] play_reaches [OF stays_ahead [OF this(1)], of major st w] show ?case by (rule rtranclp_trans)
qed simp

text \<open>The sender finishes while the receiver waits for an answer to its last signal.\<close>

lemma sender_leaves:
  assumes "0 < major" and "clk w (Suc (clk_n w)) = Some en" and "ts_ok st" "ts_ok en"
  shows "\<exists>s. play major (Suc (Suc k)) (replicate 3 Receiver @ replicate 5 Sender) (ahead major st w k) = Some s
    \<and> spc s = S_Top \<and> s_major s = 1 \<and> rpc s = R_Waiting \<and> ready_lock s = None \<and> \<not> is_receiver_started s"
  using assms by (simp add: eval_nat_numeral new_threads_def first_exchange_def ahead_def sender_step_def receiver_step_def signal_wait_notify_def
      keep_reading_def get_cur_time_def record_times_def convert_ok awrite_def)

lemma waits_for_ever:
  assumes "spc s = S_Top" "s_major s = 1" "rpc s = R_Waiting" "ready_lock s = None" "\<not> is_receiver_started s" and "0 < major"
  shows "\<exists>s'. (dispatch_step major sub)\<^sup>*\<^sup>* s s' \<and> rpc s' = R_Waiting \<and> sender_step major sub s' = None \<and> receiver_step major sub s' = None"
proof -
  have "\<exists>s'. play major sub (if major = 1 then [Sender] else [Sender, Sender]) s = Some s' \<and> rpc s' = R_Waiting
      \<and> sender_step major sub s' = None \<and> receiver_step major sub s' = None"
    using assms by (auto simp: sender_step_def receiver_step_def)
  then show ?thesis using play_reaches by blast
qed

text \<open>
  C31: \<^verbatim>\<open>pthread_cond_wait\<close> in the sender has no loop around it. When a major iteration has more than one exchange, one spurious wakeup,
  which POSIX allows, of the sender while it waits for the answer to its first signal can lose its second one: with no further spurious
  wakeup the threads then reach a state in which the receiver waits and neither thread can take a step any more, so that the test never returns.
\<close>

theorem spurious_wakeup_deadlocks:
  assumes "0 < major" and "1 < sub" and "clock_steps lo b 1 w"
  shows "\<exists>s s' t. (dispatch_step major sub)\<^sup>*\<^sup>* (new_threads major False w) s \<and> spc s = S_Waiting
    \<and> spurious_step s s' \<and> s' = s\<lparr>spc := S_Woken\<rparr> \<and> (dispatch_step major sub)\<^sup>*\<^sup>* s' t
    \<and> rpc t = R_Waiting \<and> sender_step major sub t = None \<and> receiver_step major sub t = None"
proof -
  obtain st en where r: "clk w (clk_n w) = Some st" "clk w (Suc (clk_n w)) = Some en" "ts_ok st" "ts_ok en"
    using assms(3) by (auto simp: clock_steps_def)
  obtain k where k: "sub = Suc (Suc k)" using assms(2) by (auto dest: less_imp_Suc_add)
  let ?s = "first_exchange major st w" and ?s' = "(first_exchange major st w)\<lparr>spc := S_Woken\<rparr>"
  have w: "spc ?s = S_Waiting" by (simp add: first_exchange_def)
  have 1: "(dispatch_step major sub)\<^sup>*\<^sup>* (new_threads major False w) ?s"
    using play_reaches [OF reaches_first [OF assms(1) _ r(1)]] assms(2) by simp
  obtain u where u: "play major sub (replicate 3 Receiver @ replicate 5 Sender) (ahead major st w k) = Some u"
    "spc u = S_Top" "s_major u = 1" "rpc u = R_Waiting" "ready_lock u = None" "\<not> is_receiver_started u"
    using sender_leaves [OF assms(1) r(2-4)] unfolding k by blast
  obtain t where t: "(dispatch_step major sub)\<^sup>*\<^sup>* u t" "rpc t = R_Waiting" "sender_step major sub t = None" "receiver_step major sub t = None"
    using waits_for_ever [OF u(2-6) assms(1)] by blast
  have "(dispatch_step major sub)\<^sup>*\<^sup>* ?s' t"
  proof -
    have "k < sub - 1" using k by simp
    from play_reaches [OF signal_lost [OF assms(2)], of major st w] comes_to_end [OF this, of major st w]
    show ?thesis using play_reaches [OF u(1)] t(1) unfolding k by (meson rtranclp_trans)
  qed
  with 1 w t(2-4) spurious_step.sender [OF w] show ?thesis by blast
qed

theorem spurious_wakeup_deadlocks_witness:
  "\<exists>s s' t. (dispatch_step 2 3)\<^sup>*\<^sup>* (new_threads 2 False steady_world) s \<and> spc s = S_Waiting
    \<and> spurious_step s s' \<and> s' = s\<lparr>spc := S_Woken\<rparr> \<and> (dispatch_step 2 3)\<^sup>*\<^sup>* s' t
    \<and> rpc t = R_Waiting \<and> sender_step 2 3 t = None \<and> receiver_step 2 3 t = None"
  by (rule spurious_wakeup_deadlocks [OF _ _ steady_clock]) simp_all

end
