(* ===== verification/Barrier.thy ===== *)
theory Barrier
  imports Prelude
begin

text \<open>
  The barrier that \<^verbatim>\<open>multi_thread_test.c\<close> and \<^verbatim>\<open>thread_priority_test.c\<close> share: the workers count
  themselves in and wait (\<^verbatim>\<open>lock_inc_counter\<close>), the parent polls the counter until all have
  arrived, wakes them with a broadcast and waits until they have counted themselves out
  (\<^verbatim>\<open>lock_dec_counter\<close>).  Workers and parent are state machines over a counter, two mutexes and
  two condition variables; each step is one call of the thread library or one access to the
  counter.  The relation \<open>barrier_step\<close> has every interleaving without spurious wakeups.
\<close>

section \<open>The threads\<close>

datatype agent = Worker nat | Parent

datatype w_pc =
    W_Start        \<comment> \<open>before \<^verbatim>\<open>lock_inc_counter\<close>\<close>
  | W_Inc          \<comment> \<open>with \<^verbatim>\<open>tsyncers->mutex\<close>\<close>
  | W_Wait         \<comment> \<open>counted, still with the mutex\<close>
  | W_Waiting
  | W_Woken
  | W_Unlock
  | W_Work
  | W_Dec          \<comment> \<open>in \<^verbatim>\<open>lock_dec_counter\<close>, with the mutex\<close>
  | W_Test         \<comment> \<open>\<^verbatim>\<open>if (counter == 0)\<close>\<close>
  | W_LockParent
  | W_Signal       \<comment> \<open>with both mutexes\<close>
  | W_UnlockParent
  | W_UnlockDec
  | W_Done

datatype p_pc =
    P_Poll         \<comment> \<open>\<^verbatim>\<open>while (counter != total_thrs)\<close>\<close>
  | P_LockPoll
  | P_TimedWait    \<comment> \<open>the time to wait for has passed since 1970\<close>
  | P_LockTs
  | P_Broadcast
  | P_UnlockTs
  | P_Check        \<comment> \<open>\<^verbatim>\<open>while (counter != 0)\<close>\<close>
  | P_LockPs
  | P_Wait
  | P_Waiting
  | P_Woken
  | P_UnlockPs
  | P_Done

record barrier =
  counter :: int
  ts_mutex :: "agent option"
  ps_mutex :: "agent option"
  wpcs :: "w_pc list"
  ppc :: p_pc

definition start_barrier :: "nat \<Rightarrow> barrier" where
  "start_barrier n = \<lparr>counter = 0, ts_mutex = None, ps_mutex = None, wpcs = replicate n W_Start, ppc = P_Poll\<rparr>"

abbreviation goes :: "nat \<Rightarrow> w_pc \<Rightarrow> barrier \<Rightarrow> barrier" where
  "goes i pc s \<equiv> s\<lparr>wpcs := (wpcs s)[i := pc]\<rparr>"

text \<open>\<open>None\<close>: the thread is blocked, or has returned.\<close>

definition worker_step :: "nat \<Rightarrow> barrier \<Rightarrow> barrier option" where
  "worker_step i s = (if length (wpcs s) \<le> i then None else case wpcs s ! i of
       W_Start \<Rightarrow> if ts_mutex s = None then Some (goes i W_Inc (s\<lparr>ts_mutex := Some (Worker i)\<rparr>)) else None
     | W_Inc \<Rightarrow> Some (goes i W_Wait (s\<lparr>counter := counter s + 1\<rparr>))
     | W_Wait \<Rightarrow> Some (goes i W_Waiting (s\<lparr>ts_mutex := None\<rparr>))
     | W_Waiting \<Rightarrow> None
     | W_Woken \<Rightarrow> if ts_mutex s = None then Some (goes i W_Unlock (s\<lparr>ts_mutex := Some (Worker i)\<rparr>)) else None
     | W_Unlock \<Rightarrow> Some (goes i W_Work (s\<lparr>ts_mutex := None\<rparr>))
     | W_Work \<Rightarrow> if ts_mutex s = None then Some (goes i W_Dec (s\<lparr>ts_mutex := Some (Worker i)\<rparr>)) else None
     | W_Dec \<Rightarrow> Some (goes i W_Test (s\<lparr>counter := counter s - 1\<rparr>))
     | W_Test \<Rightarrow> Some (goes i (if counter s = 0 then W_LockParent else W_UnlockDec) s)
     | W_LockParent \<Rightarrow> if ps_mutex s = None then Some (goes i W_Signal (s\<lparr>ps_mutex := Some (Worker i)\<rparr>)) else None
     | W_Signal \<Rightarrow> Some (goes i W_UnlockParent (if ppc s = P_Waiting then s\<lparr>ppc := P_Woken\<rparr> else s))
     | W_UnlockParent \<Rightarrow> Some (goes i W_UnlockDec (s\<lparr>ps_mutex := None\<rparr>))
     | W_UnlockDec \<Rightarrow> Some (goes i W_Done (s\<lparr>ts_mutex := None\<rparr>))
     | W_Done \<Rightarrow> None)"

text \<open>
  The timed wait returns at once, with the mutex: the releasing and taking back of the mutex that
  nobody can observe is left out.  A broadcast wakes every waiting worker.
\<close>

definition wake :: "w_pc \<Rightarrow> w_pc" where
  "wake pc = (if pc = W_Waiting then W_Woken else pc)"

definition parent_step :: "nat \<Rightarrow> barrier \<Rightarrow> barrier option" where
  "parent_step thrs s = (case ppc s of
       P_Poll \<Rightarrow> Some (s\<lparr>ppc := if counter s \<noteq> int thrs then P_LockPoll else P_LockTs\<rparr>)
     | P_LockPoll \<Rightarrow> if ps_mutex s = None then Some (s\<lparr>ps_mutex := Some Parent, ppc := P_TimedWait\<rparr>) else None
     | P_TimedWait \<Rightarrow> Some (s\<lparr>ps_mutex := None, ppc := P_Poll\<rparr>)
     | P_LockTs \<Rightarrow> if ts_mutex s = None then Some (s\<lparr>ts_mutex := Some Parent, ppc := P_Broadcast\<rparr>) else None
     | P_Broadcast \<Rightarrow> Some (s\<lparr>wpcs := map wake (wpcs s), ppc := P_UnlockTs\<rparr>)
     | P_UnlockTs \<Rightarrow> Some (s\<lparr>ts_mutex := None, ppc := P_Check\<rparr>)
     | P_Check \<Rightarrow> Some (s\<lparr>ppc := if counter s \<noteq> 0 then P_LockPs else P_Done\<rparr>)
     | P_LockPs \<Rightarrow> if ps_mutex s = None then Some (s\<lparr>ps_mutex := Some Parent, ppc := P_Wait\<rparr>) else None
     | P_Wait \<Rightarrow> Some (s\<lparr>ps_mutex := None, ppc := P_Waiting\<rparr>)
     | P_Waiting \<Rightarrow> None
     | P_Woken \<Rightarrow> if ps_mutex s = None then Some (s\<lparr>ps_mutex := Some Parent, ppc := P_UnlockPs\<rparr>) else None
     | P_UnlockPs \<Rightarrow> Some (s\<lparr>ps_mutex := None, ppc := P_Check\<rparr>)
     | P_Done \<Rightarrow> None)"

inductive barrier_step :: "nat \<Rightarrow> barrier \<Rightarrow> barrier \<Rightarrow> bool" for thrs where
  worker: "worker_step i s = Some s' \<Longrightarrow> barrier_step thrs s s'"
| parent: "parent_step thrs s = Some s' \<Longrightarrow> barrier_step thrs s s'"

inductive_cases barrier_stepE: "barrier_step thrs s s'"

section \<open>The invariant\<close>

text \<open>A worker that is counted, that holds one of the mutexes, that has been released.\<close>

definition counted :: "w_pc \<Rightarrow> bool" where
  "counted pc \<longleftrightarrow> pc \<in> {W_Wait, W_Waiting, W_Woken, W_Unlock, W_Work, W_Dec}"

definition has_ts :: "w_pc \<Rightarrow> bool" where
  "has_ts pc \<longleftrightarrow> pc \<in> {W_Inc, W_Wait, W_Unlock, W_Dec, W_Test, W_LockParent, W_Signal, W_UnlockParent, W_UnlockDec}"

definition has_ps :: "w_pc \<Rightarrow> bool" where
  "has_ps pc \<longleftrightarrow> pc \<in> {W_Signal, W_UnlockParent}"

definition arriving :: "w_pc \<Rightarrow> bool" where
  "arriving pc \<longleftrightarrow> pc \<in> {W_Start, W_Inc, W_Wait, W_Waiting}"

definition p_has_ts :: "p_pc \<Rightarrow> bool" where
  "p_has_ts pc \<longleftrightarrow> pc \<in> {P_Broadcast, P_UnlockTs}"

definition p_has_ps :: "p_pc \<Rightarrow> bool" where
  "p_has_ps pc \<longleftrightarrow> pc \<in> {P_TimedWait, P_Wait, P_UnlockPs}"

definition before_broadcast :: "p_pc \<Rightarrow> bool" where
  "before_broadcast pc \<longleftrightarrow> pc \<in> {P_Poll, P_LockPoll, P_TimedWait, P_LockTs, P_Broadcast}"

definition count_pcs :: "(w_pc \<Rightarrow> bool) \<Rightarrow> w_pc list \<Rightarrow> int" where
  "count_pcs P pcs = int (length (filter P pcs))"

text \<open>A mutex is held by the worker or the parent whose place says so.\<close>

definition holder_ok :: "(w_pc \<Rightarrow> bool) \<Rightarrow> bool \<Rightarrow> agent option \<Rightarrow> w_pc list \<Rightarrow> bool" where
  "holder_ok P parent m pcs \<longleftrightarrow> (\<forall>i < length pcs. P (pcs ! i) \<longleftrightarrow> m = Some (Worker i)) \<and> (parent \<longleftrightarrow> m = Some Parent) \<and>
     (\<forall>i. m = Some (Worker i) \<longrightarrow> i < length pcs)"

definition mutexes_ok :: "barrier \<Rightarrow> bool" where
  "mutexes_ok s \<longleftrightarrow> holder_ok has_ts (p_has_ts (ppc s)) (ts_mutex s) (wpcs s) \<and> holder_ok has_ps (p_has_ps (ppc s)) (ps_mutex s) (wpcs s)"

definition announcing :: "w_pc \<Rightarrow> bool" where
  "announcing pc \<longleftrightarrow> pc \<in> {W_LockParent, W_Signal, W_UnlockParent}"

definition phase_ok :: "p_pc \<Rightarrow> w_pc set \<Rightarrow> bool" where
  "phase_ok p pcs \<longleftrightarrow> (if before_broadcast p
     then (\<forall>pc \<in> pcs. arriving pc) \<and> (p \<in> {P_LockTs, P_Broadcast} \<longrightarrow> (\<forall>pc \<in> pcs. counted pc))
     else (\<forall>pc \<in> pcs. \<not> arriving pc) \<and> (p = P_Done \<or> (\<exists>pc \<in> pcs. announcing pc) \<longrightarrow> (\<forall>pc \<in> pcs. \<not> counted pc)))"

definition barrier_inv :: "nat \<Rightarrow> barrier \<Rightarrow> bool" where
  "barrier_inv thrs s \<longleftrightarrow> length (wpcs s) = thrs \<and> counter s = count_pcs counted (wpcs s) \<and> mutexes_ok s \<and> phase_ok (ppc s) (set (wpcs s))"

lemmas pc_kinds = counted_def has_ts_def has_ps_def arriving_def p_has_ts_def p_has_ps_def before_broadcast_def

lemma count_pcs_update:
  assumes "i < length pcs"
  shows "count_pcs P (pcs[i := pc]) = count_pcs P pcs - of_bool (P (pcs ! i)) + of_bool (P pc)"
proof -
  have "pcs = take i pcs @ pcs ! i # drop (Suc i) pcs" using assms by (rule id_take_nth_drop)
  then have "count_pcs P pcs = count_pcs P (take i pcs @ pcs ! i # drop (Suc i) pcs)" by simp
  then show ?thesis using assms by (simp add: count_pcs_def upd_conv_take_nth_drop)
qed

lemma count_pcs_bounds: "0 \<le> count_pcs P pcs" "count_pcs P pcs \<le> int (length pcs)"
  by (simp_all add: count_pcs_def)

lemma count_pcs_all: "count_pcs P pcs = int (length pcs) \<longleftrightarrow> (\<forall>pc \<in> set pcs. P pc)"
  unfolding count_pcs_def by (metis filter_True length_filter_less less_irrefl of_nat_eq_iff)

lemma count_pcs_none: "count_pcs P pcs = 0 \<longleftrightarrow> (\<forall>pc \<in> set pcs. \<not> P pc)"
  by (simp add: count_pcs_def filter_empty_conv)

lemma holder_same: "holder_ok P p m pcs \<Longrightarrow> i < length pcs \<Longrightarrow> P (pcs ! i) = P pc \<Longrightarrow> holder_ok P p m (pcs[i := pc])"
  by (simp add: holder_ok_def nth_list_update)

lemma holder_take: "holder_ok P p None pcs \<Longrightarrow> i < length pcs \<Longrightarrow> P pc \<Longrightarrow> holder_ok P p (Some (Worker i)) (pcs[i := pc])"
  by (simp add: holder_ok_def nth_list_update)

lemma holder_release: "holder_ok P p m pcs \<Longrightarrow> i < length pcs \<Longrightarrow> P (pcs ! i) \<Longrightarrow> \<not> P pc \<Longrightarrow> holder_ok P p None (pcs[i := pc])"
  by (auto simp: holder_ok_def nth_list_update)

lemma holder_parent: "holder_ok P False None pcs \<Longrightarrow> holder_ok P True (Some Parent) pcs"
  "holder_ok P True m pcs \<Longrightarrow> holder_ok P False None pcs"
  by (auto simp: holder_ok_def)

lemma holder_map: "holder_ok P p m pcs \<Longrightarrow> (\<And>pc. P (f pc) = P pc) \<Longrightarrow> holder_ok P p m (map f pcs)"
  by (simp add: holder_ok_def)

lemma start_barrier_inv: "barrier_inv n (start_barrier n)"
  by (simp add: barrier_inv_def start_barrier_def mutexes_ok_def holder_ok_def phase_ok_def pc_kinds count_pcs_def)

text \<open>The steps one by one, for case analysis.\<close>

lemma worker_step_cases:
  assumes "worker_step i s = Some s'"
  obtains (arrive) "wpcs s ! i = W_Start" "i < length (wpcs s)" "ts_mutex s = None" "s' = goes i W_Inc (s\<lparr>ts_mutex := Some (Worker i)\<rparr>)"
    | (count_in) "wpcs s ! i = W_Inc" "i < length (wpcs s)" "s' = goes i W_Wait (s\<lparr>counter := counter s + 1\<rparr>)"
    | (await) "wpcs s ! i = W_Wait" "i < length (wpcs s)" "s' = goes i W_Waiting (s\<lparr>ts_mutex := None\<rparr>)"
    | (resume) "wpcs s ! i = W_Woken" "i < length (wpcs s)" "ts_mutex s = None" "s' = goes i W_Unlock (s\<lparr>ts_mutex := Some (Worker i)\<rparr>)"
    | (unlock) "wpcs s ! i = W_Unlock" "i < length (wpcs s)" "s' = goes i W_Work (s\<lparr>ts_mutex := None\<rparr>)"
    | (leave) "wpcs s ! i = W_Work" "i < length (wpcs s)" "ts_mutex s = None" "s' = goes i W_Dec (s\<lparr>ts_mutex := Some (Worker i)\<rparr>)"
    | (count_out) "wpcs s ! i = W_Dec" "i < length (wpcs s)" "s' = goes i W_Test (s\<lparr>counter := counter s - 1\<rparr>)"
    | (last) "wpcs s ! i = W_Test" "i < length (wpcs s)" "counter s = 0" "s' = goes i W_LockParent s"
    | (not_last) "wpcs s ! i = W_Test" "i < length (wpcs s)" "counter s \<noteq> 0" "s' = goes i W_UnlockDec s"
    | (lock_parent) "wpcs s ! i = W_LockParent" "i < length (wpcs s)" "ps_mutex s = None" "s' = goes i W_Signal (s\<lparr>ps_mutex := Some (Worker i)\<rparr>)"
    | (signal) "wpcs s ! i = W_Signal" "i < length (wpcs s)" "s' = goes i W_UnlockParent (if ppc s = P_Waiting then s\<lparr>ppc := P_Woken\<rparr> else s)"
    | (unlock_parent) "wpcs s ! i = W_UnlockParent" "i < length (wpcs s)" "s' = goes i W_UnlockDec (s\<lparr>ps_mutex := None\<rparr>)"
    | (finish) "wpcs s ! i = W_UnlockDec" "i < length (wpcs s)" "s' = goes i W_Done (s\<lparr>ts_mutex := None\<rparr>)"
proof -
  have i: "i < length (wpcs s)" using assms by (simp add: worker_step_def split: if_splits)
  show thesis
  proof (cases "wpcs s ! i")
    case W_Start
    then show thesis using i assms arrive by (simp add: worker_step_def split: if_splits)
  next
    case W_Inc
    then show thesis using i assms count_in by (simp add: worker_step_def split: if_splits)
  next
    case W_Wait
    then show thesis using i assms await by (simp add: worker_step_def split: if_splits)
  next
    case W_Woken
    then show thesis using i assms resume by (simp add: worker_step_def split: if_splits)
  next
    case W_Unlock
    then show thesis using i assms unlock by (simp add: worker_step_def split: if_splits)
  next
    case W_Work
    then show thesis using i assms leave by (simp add: worker_step_def split: if_splits)
  next
    case W_Dec
    then show thesis using i assms count_out by (simp add: worker_step_def split: if_splits)
  next
    case W_Test
    then show thesis using i assms last not_last by (simp add: worker_step_def split: if_splits)
  next
    case W_LockParent
    then show thesis using i assms lock_parent by (simp add: worker_step_def split: if_splits)
  next
    case W_Signal
    then show thesis using i assms signal by (simp add: worker_step_def split: if_splits)
  next
    case W_UnlockParent
    then show thesis using i assms unlock_parent by (simp add: worker_step_def split: if_splits)
  next
    case W_UnlockDec
    then show thesis using i assms finish by (simp add: worker_step_def split: if_splits)
  next
    case W_Waiting
    then show thesis using i assms by (simp add: worker_step_def)
  next
    case W_Done
    then show thesis using i assms by (simp add: worker_step_def)
  qed
qed

lemma parent_step_cases:
  assumes "parent_step thrs s = Some s'"
  obtains (poll) "ppc s = P_Poll" "counter s \<noteq> int thrs" "s' = s\<lparr>ppc := P_LockPoll\<rparr>"
    | (complete) "ppc s = P_Poll" "counter s = int thrs" "s' = s\<lparr>ppc := P_LockTs\<rparr>"
    | (lock_poll) "ppc s = P_LockPoll" "ps_mutex s = None" "s' = s\<lparr>ps_mutex := Some Parent, ppc := P_TimedWait\<rparr>"
    | (timeout) "ppc s = P_TimedWait" "s' = s\<lparr>ps_mutex := None, ppc := P_Poll\<rparr>"
    | (lock_ts) "ppc s = P_LockTs" "ts_mutex s = None" "s' = s\<lparr>ts_mutex := Some Parent, ppc := P_Broadcast\<rparr>"
    | (broadcast) "ppc s = P_Broadcast" "s' = s\<lparr>wpcs := map wake (wpcs s), ppc := P_UnlockTs\<rparr>"
    | (unlock_ts) "ppc s = P_UnlockTs" "s' = s\<lparr>ts_mutex := None, ppc := P_Check\<rparr>"
    | (check) "ppc s = P_Check" "counter s \<noteq> 0" "s' = s\<lparr>ppc := P_LockPs\<rparr>"
    | (all_left) "ppc s = P_Check" "counter s = 0" "s' = s\<lparr>ppc := P_Done\<rparr>"
    | (lock_ps) "ppc s = P_LockPs" "ps_mutex s = None" "s' = s\<lparr>ps_mutex := Some Parent, ppc := P_Wait\<rparr>"
    | (await) "ppc s = P_Wait" "s' = s\<lparr>ps_mutex := None, ppc := P_Waiting\<rparr>"
    | (resume) "ppc s = P_Woken" "ps_mutex s = None" "s' = s\<lparr>ps_mutex := Some Parent, ppc := P_UnlockPs\<rparr>"
    | (unlock_ps) "ppc s = P_UnlockPs" "s' = s\<lparr>ps_mutex := None, ppc := P_Check\<rparr>"
proof (cases "ppc s")
  case P_Poll
  then show thesis using assms poll complete by (simp add: parent_step_def split: if_splits)
next
  case P_LockPoll
  then show thesis using assms lock_poll by (simp add: parent_step_def split: if_splits)
next
  case P_TimedWait
  then show thesis using assms timeout by (simp add: parent_step_def split: if_splits)
next
  case P_LockTs
  then show thesis using assms lock_ts by (simp add: parent_step_def split: if_splits)
next
  case P_Broadcast
  then show thesis using assms broadcast by (simp add: parent_step_def split: if_splits)
next
  case P_UnlockTs
  then show thesis using assms unlock_ts by (simp add: parent_step_def split: if_splits)
next
  case P_Check
  then show thesis using assms check all_left by (simp add: parent_step_def split: if_splits)
next
  case P_LockPs
  then show thesis using assms lock_ps by (simp add: parent_step_def split: if_splits)
next
  case P_Wait
  then show thesis using assms await by (simp add: parent_step_def split: if_splits)
next
  case P_Woken
  then show thesis using assms resume by (simp add: parent_step_def split: if_splits)
next
  case P_UnlockPs
  then show thesis using assms unlock_ps by (simp add: parent_step_def split: if_splits)
next
  case P_Waiting
  then show thesis using assms by (simp add: parent_step_def)
next
  case P_Done
  then show thesis using assms by (simp add: parent_step_def)
qed

lemma worker_keeps_mutexes:
  assumes "worker_step i s = Some s'" and "mutexes_ok s"
  shows "mutexes_ok s'"
proof -
  have m: "holder_ok has_ts (p_has_ts (ppc s)) (ts_mutex s) (wpcs s)" "holder_ok has_ps (p_has_ps (ppc s)) (ps_mutex s) (wpcs s)"
    using assms(2) by (simp_all add: mutexes_ok_def)
  note t = holder_same holder_take holder_release [OF m(1)] holder_release [OF m(2)]
  from assms(1) show ?thesis
  proof (cases rule: worker_step_cases)
    case signal
    then show ?thesis using m
      by (cases "ppc s = P_Waiting") (simp_all add: mutexes_ok_def has_ts_def has_ps_def p_has_ts_def p_has_ps_def holder_same)
  qed (use m in \<open>auto simp: mutexes_ok_def has_ts_def has_ps_def intro!: t\<close>)
qed

lemma worker_keeps_counter:
  assumes "worker_step i s = Some s'" and "counter s = count_pcs counted (wpcs s)"
  shows "counter s' = count_pcs counted (wpcs s')"
  using assms(1)
  by (cases rule: worker_step_cases) (use assms(2) in \<open>simp_all add: count_pcs_update pc_kinds\<close>)

text \<open>A worker arrives before the broadcast, and leaves after it.\<close>

lemma phase_arriving:
  assumes "phase_ok p (set pcs)" and "i < length pcs" and "arriving (pcs ! i)" "arriving pc" and "counted (pcs ! i) \<longrightarrow> counted pc"
  shows "phase_ok p (set (pcs[i := pc]))"
proof -
  have old: "pcs ! i \<in> set pcs" and new: "set (pcs[i := pc]) \<subseteq> insert pc (set pcs)"
    using assms(2) set_update_subset_insert by (simp, metis)
  have "before_broadcast p" using assms(1,3) old by (auto simp: phase_ok_def split: if_splits)
  with assms(1,4,5) old new show ?thesis unfolding phase_ok_def by auto
qed

lemma phase_leaving:
  assumes "phase_ok p (set pcs)" and "i < length pcs" and "\<not> arriving (pcs ! i)" "\<not> arriving pc" and "counted pc \<longrightarrow> counted (pcs ! i)"
    and "announcing pc \<longrightarrow> announcing (pcs ! i) \<or> (\<forall>x \<in> set pcs. \<not> counted x)" and "before_broadcast q = before_broadcast p" "q = P_Done \<longrightarrow> p = P_Done"
  shows "phase_ok q (set (pcs[i := pc]))"
proof -
  have old: "pcs ! i \<in> set pcs" and new: "set (pcs[i := pc]) \<subseteq> insert pc (set pcs)"
    using assms(2) set_update_subset_insert by (simp, metis)
  have "\<not> before_broadcast p" using assms(1,3) old by (auto simp: phase_ok_def split: if_splits)
  with assms(1,4-8) old new show ?thesis unfolding phase_ok_def by auto
qed

lemmas phase_stays = phase_leaving [OF _ _ _ _ _ _ refl]

lemma worker_keeps:
  assumes "worker_step i s = Some s'" and "barrier_inv thrs s"
  shows "barrier_inv thrs s'"
proof -
  have inv: "length (wpcs s) = thrs" "counter s = count_pcs counted (wpcs s)" "phase_ok (ppc s) (set (wpcs s))" "mutexes_ok s"
    using assms(2) by (simp_all add: barrier_inv_def)
  have "length (wpcs s') = thrs" using assms(1) by (cases rule: worker_step_cases) (use inv(1) in simp_all)
  moreover have "phase_ok (ppc s') (set (wpcs s'))" using assms(1)
  proof (cases rule: worker_step_cases)
    case last
    then have n: "\<forall>x \<in> set (wpcs s). \<not> counted x" using inv(2) count_pcs_none by metis
    have "phase_ok (ppc s) (set ((wpcs s)[i := W_LockParent]))"
      by (rule phase_leaving [OF inv(3)]) (use last n in \<open>simp_all add: arriving_def counted_def\<close>)
    with last show ?thesis by simp
  next
    case signal
    have "phase_ok (ppc s') (set ((wpcs s)[i := W_UnlockParent]))"
      by (rule phase_leaving [OF inv(3)])
        (use signal in \<open>simp_all add: arriving_def counted_def announcing_def before_broadcast_def split: if_splits\<close>)
    with signal(3) show ?thesis by (cases "ppc s = P_Waiting") simp_all
  qed (use inv(3) in \<open>simp_all add: phase_arriving phase_stays arriving_def counted_def announcing_def\<close>)
  ultimately show ?thesis
    using worker_keeps_mutexes [OF assms(1) inv(4)] worker_keeps_counter [OF assms(1) inv(2)] by (simp add: barrier_inv_def)
qed

lemma parent_keeps:
  assumes "parent_step thrs s = Some s'" and "barrier_inv thrs s"
  shows "barrier_inv thrs s'"
proof -
  have inv: "length (wpcs s) = thrs" "counter s = count_pcs counted (wpcs s)" "phase_ok (ppc s) (set (wpcs s))"
    "holder_ok has_ts (p_has_ts (ppc s)) (ts_mutex s) (wpcs s)" "holder_ok has_ps (p_has_ps (ppc s)) (ps_mutex s) (wpcs s)"
    using assms(2) by (simp_all add: barrier_inv_def mutexes_ok_def)
  have all_counted: "\<forall>pc \<in> set (wpcs s). counted pc" if "counter s = int thrs"
    using that inv(1,2) count_pcs_all by metis
  have none_counted: "\<forall>pc \<in> set (wpcs s). \<not> counted pc" if "counter s = 0"
    using that inv(2) count_pcs_none by metis
  note defs = barrier_inv_def mutexes_ok_def phase_ok_def p_has_ts_def p_has_ps_def before_broadcast_def
  from assms(1) show ?thesis
  proof (cases rule: parent_step_cases)
    case broadcast
    have arr: "\<forall>pc \<in> set (wpcs s). arriving pc \<and> counted pc \<and> \<not> has_ts pc"
      using inv(3,4) broadcast(1) by (auto simp: phase_ok_def before_broadcast_def holder_ok_def p_has_ts_def in_set_conv_nth)
    then have w: "\<forall>pc \<in> set (wpcs s). pc = W_Waiting" by (auto simp: arriving_def counted_def has_ts_def)
    have c: "count_pcs counted (map wake (wpcs s)) = count_pcs counted (wpcs s)"
      using w by (simp add: count_pcs_def filter_map o_def wake_def counted_def cong: filter_cong)
    have wk: "\<forall>pc \<in> set (wpcs s). wake pc = W_Woken" using w by (simp add: wake_def)
    have h: "has_ts (wake pc) = has_ts pc" "has_ps (wake pc) = has_ps pc" for pc by (simp_all add: wake_def has_ts_def has_ps_def)
    from broadcast show ?thesis using inv(1,2) wk c holder_map [OF inv(4) h(1)] holder_map [OF inv(5) h(2)]
      by (auto simp: defs arriving_def announcing_def)
  next
    case complete
    with inv all_counted show ?thesis by (auto simp: defs)
  next
    case all_left
    with inv none_counted show ?thesis by (auto simp: defs)
  qed (use inv holder_parent in \<open>auto simp: defs\<close>)
qed

lemma barrier_keeps: "barrier_step thrs s s' \<Longrightarrow> barrier_inv thrs s \<Longrightarrow> barrier_inv thrs s'"
  by (elim barrier_stepE) (simp_all add: worker_keeps parent_keeps)

lemma barrier_reachable: "(barrier_step thrs)\<^sup>*\<^sup>* (start_barrier thrs) s \<Longrightarrow> barrier_inv thrs s"
  by (induction rule: rtranclp_induct) (auto intro: barrier_keeps start_barrier_inv)

section \<open>Where the threads can be stuck\<close>

lemma worker_runs:
  assumes "i < length (wpcs s)"
  shows "has_ts (wpcs s ! i) \<Longrightarrow> wpcs s ! i \<noteq> W_LockParent \<Longrightarrow> worker_step i s \<noteq> None"
    "wpcs s ! i = W_LockParent \<Longrightarrow> ps_mutex s = None \<Longrightarrow> worker_step i s \<noteq> None"
    "wpcs s ! i \<in> {W_Start, W_Woken, W_Work} \<Longrightarrow> ts_mutex s = None \<Longrightarrow> worker_step i s \<noteq> None"
  using assms by (auto simp: worker_step_def has_ts_def)

lemma parent_runs:
  "ppc s \<in> {P_Poll, P_TimedWait, P_Broadcast, P_UnlockTs, P_Check, P_Wait, P_UnlockPs} \<Longrightarrow> parent_step thrs s \<noteq> None"
  "ppc s \<in> {P_LockPoll, P_LockPs, P_Woken} \<Longrightarrow> ps_mutex s = None \<Longrightarrow> parent_step thrs s \<noteq> None"
  "ppc s = P_LockTs \<Longrightarrow> ts_mutex s = None \<Longrightarrow> parent_step thrs s \<noteq> None"
  by (auto simp: parent_step_def)

definition stuck :: "nat \<Rightarrow> barrier \<Rightarrow> bool" where
  "stuck thrs s \<longleftrightarrow> parent_step thrs s = None \<and> (\<forall>i < thrs. worker_step i s = None)"

lemma stuck_states:
  assumes "barrier_inv thrs s" and "stuck thrs s"
  shows "(\<forall>pc \<in> set (wpcs s). pc = W_Done) \<and> (ppc s = P_Done \<or> ppc s = P_Waiting)"
proof -
  have len: "length (wpcs s) = thrs" and h: "holder_ok has_ts (p_has_ts (ppc s)) (ts_mutex s) (wpcs s)"
    "holder_ok has_ps (p_has_ps (ppc s)) (ps_mutex s) (wpcs s)" and ph: "phase_ok (ppc s) (set (wpcs s))"
    using assms(1) by (simp_all add: barrier_inv_def mutexes_ok_def)
  have w: "worker_step i s = None" if "i < length (wpcs s)" for i using that assms(2) len by (simp add: stuck_def)
  have p: "ppc s \<notin> {P_Poll, P_TimedWait, P_Broadcast, P_UnlockTs, P_Check, P_Wait, P_UnlockPs}"
    using assms(2) parent_runs(1) unfolding stuck_def by blast
  have ps: "ps_mutex s = None"
  proof (rule ccontr)
    assume "ps_mutex s \<noteq> None"
    then obtain a where a: "ps_mutex s = Some a" by blast
    show False
    proof (cases a)
      case (Worker i)
      then have "i < length (wpcs s)" "has_ps (wpcs s ! i)" using h(2) a by (auto simp: holder_ok_def)
      moreover then have "has_ts (wpcs s ! i)" "wpcs s ! i \<noteq> W_LockParent" by (auto simp: has_ps_def has_ts_def)
      ultimately show False using w worker_runs(1) by blast
    next
      case Parent
      then have "p_has_ps (ppc s)" using h(2) a by (simp add: holder_ok_def)
      then show False using p by (auto simp: p_has_ps_def)
    qed
  qed
  have ts: "ts_mutex s = None"
  proof (rule ccontr)
    assume "ts_mutex s \<noteq> None"
    then obtain a where a: "ts_mutex s = Some a" by blast
    show False
    proof (cases a)
      case (Worker i)
      then have "i < length (wpcs s)" "has_ts (wpcs s ! i)" using h(1) a by (auto simp: holder_ok_def)
      then show False using w worker_runs(1,2) ps by blast
    next
      case Parent
      then have "p_has_ts (ppc s)" using h(1) a by (simp add: holder_ok_def)
      then show False using p by (auto simp: p_has_ts_def)
    qed
  qed
  have "ppc s \<notin> {P_LockPoll, P_LockPs, P_Woken}" "ppc s \<noteq> P_LockTs"
    using assms(2) parent_runs(2,3) ps ts unfolding stuck_def by blast+
  then have pp: "ppc s = P_Done \<or> ppc s = P_Waiting" using p by (cases "ppc s") simp_all
  have "wpcs s ! i = W_Done" if i: "i < length (wpcs s)" for i
  proof -
    have "\<not> has_ts (wpcs s ! i)" using h(1) ts i by (auto simp: holder_ok_def)
    moreover have "wpcs s ! i \<notin> {W_Start, W_Woken, W_Work}" using worker_runs(3) [OF i _ ts] w [OF i] by blast
    moreover have "wpcs s ! i \<noteq> W_Waiting"
      using ph pp i by (auto simp: phase_ok_def before_broadcast_def arriving_def dest!: nth_mem)
    ultimately show ?thesis by (cases "wpcs s ! i") (simp_all add: has_ts_def)
  qed
  with pp show ?thesis by (auto simp: in_set_conv_nth)
qed

section \<open>A schedule as a list\<close>

fun play_barrier :: "nat \<Rightarrow> agent list \<Rightarrow> barrier \<Rightarrow> barrier option" where
  "play_barrier thrs [] s = Some s"
| "play_barrier thrs (a # as) s = (case (case a of Worker i \<Rightarrow> worker_step i s | Parent \<Rightarrow> parent_step thrs s) of
     None \<Rightarrow> None | Some s' \<Rightarrow> play_barrier thrs as s')"

lemma play_barrier_reaches: "play_barrier thrs as s = Some s' \<Longrightarrow> (barrier_step thrs)\<^sup>*\<^sup>* s s'"
proof (induction as arbitrary: s)
  case (Cons a as)
  then obtain u where "barrier_step thrs s u" "play_barrier thrs as u = Some s'"
    by (auto split: option.splits agent.splits intro: barrier_step.intros)
  with Cons.IH show ?case by (blast intro: converse_rtranclp_into_rtranclp)
qed simp

section \<open>Properties\<close>

text \<open>
  C14: In every interleaving without spurious wakeups the counter is the number of workers that
  have counted themselves in and not out, each mutex has at most the holder that the places of
  the threads say, and no worker leaves the barrier before all have arrived.
\<close>

theorem barrier_safe:
  assumes "(barrier_step thrs)\<^sup>*\<^sup>* (start_barrier thrs) s"
  shows "counter s = count_pcs counted (wpcs s) \<and> 0 \<le> counter s \<and> counter s \<le> int thrs \<and> mutexes_ok s
    \<and> (list_all arriving (wpcs s) \<or> list_all (\<lambda>pc. pc \<notin> {W_Start, W_Inc, W_Wait, W_Waiting}) (wpcs s))"
proof -
  have inv: "barrier_inv thrs s" using assms by (rule barrier_reachable)
  then have "counter s = count_pcs counted (wpcs s)" "mutexes_ok s" "phase_ok (ppc s) (set (wpcs s))" "length (wpcs s) = thrs"
    by (simp_all add: barrier_inv_def)
  moreover from this have "list_all arriving (wpcs s) \<or> list_all (\<lambda>pc. \<not> arriving pc) (wpcs s)"
    by (auto simp: phase_ok_def list_all_iff split: if_splits)
  ultimately show ?thesis using count_pcs_bounds [of counted "wpcs s"] by (auto simp: arriving_def)
qed

text \<open>Two schedules: one that ends, and one in which the worker signals between the parent's test and its wait.\<close>

definition smooth_schedule :: "agent list" where
  "smooth_schedule = replicate 3 (Worker 0) @ replicate 3 (Worker 1) @ replicate 4 Parent @ replicate 6 (Worker 0)
     @ replicate 9 (Worker 1) @ [Parent]"

definition late_schedule :: "agent list" where
  "late_schedule = replicate 3 (Worker 0) @ replicate 5 Parent @ replicate 9 (Worker 0) @ replicate 2 Parent"

theorem barrier_safe_witness:
  "\<exists>s. counter s = count_pcs counted (wpcs s) \<and> 0 \<le> counter s \<and> counter s \<le> int 2 \<and> mutexes_ok s
    \<and> (list_all arriving (wpcs s) \<or> list_all (\<lambda>pc. pc \<notin> {W_Start, W_Inc, W_Wait, W_Waiting}) (wpcs s))"
proof -
  have "map_option ppc (play_barrier 2 smooth_schedule (start_barrier 2)) = Some P_Done" by code_simp
  then obtain s where "play_barrier 2 smooth_schedule (start_barrier 2) = Some s" by blast
  from barrier_safe [OF play_barrier_reaches [OF this]] show ?thesis by blast
qed

text \<open>
  C30: The only way in which the threads get stuck is that all workers have left and the parent
  has returned, or waits for a signal that was sent before it waited.  The second happens: the
  parent tests the counter without the mutex, and the last worker may count itself out and signal
  between this test and the wait.
\<close>

theorem barrier_stuck:
  assumes "(barrier_step thrs)\<^sup>*\<^sup>* (start_barrier thrs) s" and "stuck thrs s"
  shows "list_all (\<lambda>pc. pc = W_Done) (wpcs s) \<and> counter s = 0 \<and> (ppc s = P_Done \<or> ppc s = P_Waiting)
    \<and> (\<exists>t. (barrier_step 1)\<^sup>*\<^sup>* (start_barrier 1) t \<and> stuck 1 t \<and> ppc t = P_Waiting)"
proof -
  have inv: "barrier_inv thrs s" using assms(1) by (rule barrier_reachable)
  note st = stuck_states [OF inv assms(2)]
  then have "\<forall>pc \<in> set (wpcs s). \<not> counted pc" by (auto simp: counted_def)
  then have "counter s = 0" using inv count_pcs_none [of counted "wpcs s"] by (simp add: barrier_inv_def)
  moreover
  have "map_option (\<lambda>s. (ppc s, wpcs s)) (play_barrier 1 late_schedule (start_barrier 1)) = Some (P_Waiting, [W_Done])" by code_simp
  then obtain t where "play_barrier 1 late_schedule (start_barrier 1) = Some t" "ppc t = P_Waiting" "wpcs t = [W_Done]" by auto
  then have "(barrier_step 1)\<^sup>*\<^sup>* (start_barrier 1) t" "stuck 1 t" "ppc t = P_Waiting"
    using play_barrier_reaches by (auto simp: stuck_def parent_step_def worker_step_def)
  ultimately show ?thesis using st by (auto simp: list_all_iff)
qed

theorem barrier_stuck_witness:
  "\<exists>s :: barrier. list_all (\<lambda>pc. pc = W_Done) (wpcs s) \<and> counter s = 0 \<and> (ppc s = P_Done \<or> ppc s = P_Waiting)
    \<and> (\<exists>t. (barrier_step 1)\<^sup>*\<^sup>* (start_barrier 1) t \<and> stuck 1 t \<and> ppc t = P_Waiting)"
proof -
  have "map_option (\<lambda>s. (ppc s, wpcs s)) (play_barrier 2 smooth_schedule (start_barrier 2)) = Some (P_Done, [W_Done, W_Done])" by code_simp
  then obtain s where s: "play_barrier 2 smooth_schedule (start_barrier 2) = Some s" "ppc s = P_Done" "wpcs s = [W_Done, W_Done]" by auto
  then have "stuck 2 s" by (auto simp: stuck_def parent_step_def worker_step_def less_2_cases_iff)
  from barrier_stuck [OF play_barrier_reaches [OF s(1)] this] show ?thesis by blast
qed

end
