(* ===== verification/Barrier_Progress.thy ===== *)
theory Barrier_Progress
  imports Barrier
begin

text \<open>
  The barrier under a scheduler: \<open>sched k\<close> names the thread that runs at tick \<open>k\<close>; a thread that
  cannot step lets the tick pass.  A measure falls with every step except those of the parent
  polling the counter, and when every thread is scheduled again and again, the polling ends; so the
  threads come to their end, or to the one stuck state in which the parent has missed the signal.
\<close>

section \<open>A run\<close>

definition agent_step :: "nat \<Rightarrow> agent \<Rightarrow> barrier \<Rightarrow> barrier option" where
  "agent_step thrs a s = (case a of Worker i \<Rightarrow> worker_step i s | Parent \<Rightarrow> parent_step thrs s)"

definition tick :: "nat \<Rightarrow> agent \<Rightarrow> barrier \<Rightarrow> barrier" where
  "tick thrs a s = (case agent_step thrs a s of None \<Rightarrow> s | Some s' \<Rightarrow> s')"

definition joined :: "barrier \<Rightarrow> bool" where
  "joined s \<longleftrightarrow> ppc s = P_Done \<and> (\<forall>pc \<in> set (wpcs s). pc = W_Done)"

text \<open>The run until the parent has left its second loop and all workers have returned.\<close>

partial_function (option) run_barrier :: "nat \<Rightarrow> (nat \<Rightarrow> agent) \<Rightarrow> nat \<Rightarrow> barrier \<Rightarrow> (nat \<times> barrier) option" where
  "run_barrier thrs sched k s = (if joined s then Some (k, s) else run_barrier thrs sched (Suc k) (tick thrs (sched k) s))"

fun ticks :: "nat \<Rightarrow> (nat \<Rightarrow> agent) \<Rightarrow> nat \<Rightarrow> nat \<Rightarrow> barrier \<Rightarrow> barrier" where
  "ticks thrs sched k 0 s = s"
| "ticks thrs sched k (Suc n) s = ticks thrs sched (Suc k) n (tick thrs (sched k) s)"

definition fair :: "nat \<Rightarrow> (nat \<Rightarrow> agent) \<Rightarrow> bool" where
  "fair thrs sched \<longleftrightarrow> (\<forall>a \<in> insert Parent (Worker ` {..<thrs}). \<forall>k. \<exists>l \<ge> k. sched l = a)"

lemma ticks_add: "ticks thrs sched k (m + n) s = ticks thrs sched (k + m) n (ticks thrs sched k m s)"
  by (induction m arbitrary: k s) simp_all

lemma agent_step_barrier: "agent_step thrs a s = Some s' \<Longrightarrow> barrier_step thrs s s'"
  by (auto simp: agent_step_def split: agent.splits intro: barrier_step.intros)

lemma tick_inv: "barrier_inv thrs s \<Longrightarrow> barrier_inv thrs (tick thrs a s)"
  by (auto simp: tick_def split: option.splits dest: agent_step_barrier barrier_keeps)

lemma ticks_inv: "barrier_inv thrs s \<Longrightarrow> barrier_inv thrs (ticks thrs sched k n s)"
  by (induction n arbitrary: k s) (simp_all add: tick_inv)

text \<open>The run returns exactly when some number of ticks brings all threads to their end.\<close>

lemma run_barrier_ticks: "joined (ticks thrs sched k n s) \<Longrightarrow> \<exists>m. run_barrier thrs sched k s = Some m \<and> joined (snd m)"
proof (induction n arbitrary: k s)
  case 0
  then show ?case by (subst run_barrier.simps) simp
next
  case (Suc n)
  show ?case
  proof (cases "joined s")
    case True
    then show ?thesis by (subst run_barrier.simps) simp
  next
    case False
    then show ?thesis using Suc by (subst run_barrier.simps) simp
  qed
qed

lemma run_barrier_joined:
  assumes "run_barrier thrs sched k s = Some m" and "barrier_inv thrs s"
  shows "joined (snd m) \<and> barrier_inv thrs (snd m)"
proof -
  have "barrier_inv thrs s \<longrightarrow> joined (snd m) \<and> barrier_inv thrs (snd m)"
    by (rule run_barrier.raw_induct [OF _ assms(1)]) (auto split: if_splits simp: tick_inv)
  with assms(2) show ?thesis by blast
qed

section \<open>The measure\<close>

fun wrank :: "w_pc \<Rightarrow> nat" where
  "wrank W_Start = 13" | "wrank W_Inc = 12" | "wrank W_Wait = 11" | "wrank W_Waiting = 10" | "wrank W_Woken = 9"
| "wrank W_Unlock = 8" | "wrank W_Work = 7" | "wrank W_Dec = 6" | "wrank W_Test = 5" | "wrank W_LockParent = 4"
| "wrank W_Signal = 3" | "wrank W_UnlockParent = 2" | "wrank W_UnlockDec = 1" | "wrank W_Done = 0"

text \<open>While a worker is missing, the polling of the parent does not count.\<close>

fun prank :: "bool \<Rightarrow> p_pc \<Rightarrow> nat" where
  "prank full P_LockPoll = 22" | "prank full P_TimedWait = (if full then 21 else 22)" | "prank full P_Poll = (if full then 20 else 22)"
| "prank full P_LockTs = 15" | "prank full P_Broadcast = 14" | "prank full P_UnlockTs = 13" | "prank full P_Check = 5"
| "prank full P_LockPs = 4" | "prank full P_Wait = 3" | "prank full P_Waiting = 2" | "prank full P_Woken = 8"
| "prank full P_UnlockPs = 7" | "prank full P_Done = 0"

definition ranks :: "w_pc list \<Rightarrow> nat" where
  "ranks pcs = sum_list (map wrank pcs)"

definition mu :: "nat \<Rightarrow> barrier \<Rightarrow> nat" where
  "mu thrs s = 30 * ranks (wpcs s) + prank (counter s = int thrs) (ppc s)"

definition polling :: "p_pc \<Rightarrow> bool" where
  "polling pc \<longleftrightarrow> pc \<in> {P_Poll, P_LockPoll, P_TimedWait}"

definition idle :: "nat \<Rightarrow> barrier \<Rightarrow> bool" where
  "idle thrs s \<longleftrightarrow> polling (ppc s) \<and> counter s \<noteq> int thrs"

lemma ranks_update:
  assumes "i < length pcs" and "wrank pc < wrank (pcs ! i)"
  shows "ranks (pcs[i := pc]) < ranks pcs"
proof -
  have "wrank (pcs ! i) \<le> sum_list (map wrank pcs)" using assms elem_le_sum_list [of i "map wrank pcs"] by simp
  then show ?thesis using assms by (simp add: ranks_def map_update sum_list_update)
qed

lemma prank_bound: "prank full pc \<le> 22"
  by (cases pc) simp_all

lemma prank_stays: "prank full pc \<le> prank full' pc + 6"
  by (cases pc) simp_all

lemma wake_ranks: "ranks (map wake pcs) \<le> ranks pcs"
  unfolding ranks_def map_map by (rule sum_list_mono) (simp add: wake_def)

lemma worker_decreases:
  assumes "worker_step i s = Some s'"
  shows "mu thrs s' < mu thrs s"
proof -
  have "ranks (wpcs s') < ranks (wpcs s)"
    using assms by (cases rule: worker_step_cases) (auto intro!: ranks_update)
  moreover have "prank (counter s' = int thrs) (ppc s') \<le> prank (counter s = int thrs) (ppc s) + 6"
    using assms by (cases rule: worker_step_cases) (auto intro: prank_stays)
  ultimately show ?thesis unfolding mu_def by linarith
qed

text \<open>Every step of the parent that is not idle counts.\<close>

lemma parent_decreases:
  assumes "parent_step thrs s = Some s'" and "\<not> idle thrs s"
  shows "mu thrs s' < mu thrs s"
  using assms(1)
proof (cases rule: parent_step_cases)
  case broadcast
  with wake_ranks [of "wpcs s"] show ?thesis by (simp add: mu_def)
qed (use assms(2) in \<open>auto simp: mu_def idle_def polling_def\<close>)

lemma idle_step:
  assumes "parent_step thrs s = Some s'" and "idle thrs s"
  shows "idle thrs s' \<and> wpcs s' = wpcs s \<and> ts_mutex s' = ts_mutex s \<and> mu thrs s' = mu thrs s"
  using assms(1) by (cases rule: parent_step_cases) (use assms(2) in \<open>auto simp: mu_def idle_def polling_def\<close>)

section \<open>Some thread helps\<close>

definition ready :: "nat \<Rightarrow> barrier \<Rightarrow> bool" where
  "ready i s \<longleftrightarrow> i < length (wpcs s) \<and> (wpcs s ! i \<in> {W_Inc, W_Wait} \<or> wpcs s ! i = W_Start \<and> ts_mutex s = None)"

lemma ready_steps: "ready i s \<Longrightarrow> worker_step i s \<noteq> None"
  by (auto simp: ready_def worker_step_def)

text \<open>While the parent polls in vain some worker can still count itself in.\<close>

lemma idle_ready:
  assumes "barrier_inv thrs s" and "idle thrs s"
  shows "\<exists>i. ready i s"
proof -
  have s: "length (wpcs s) = thrs" "counter s = count_pcs counted (wpcs s)" "\<forall>pc \<in> set (wpcs s). arriving pc"
    "holder_ok has_ts False (ts_mutex s) (wpcs s)"
    using assms by (auto simp: barrier_inv_def mutexes_ok_def phase_ok_def idle_def polling_def before_broadcast_def p_has_ts_def)
  then have "\<not> (\<forall>pc \<in> set (wpcs s). counted pc)" using assms(2) count_pcs_all [of counted "wpcs s"] by (auto simp: idle_def)
  then obtain i where i: "i < length (wpcs s)" "\<not> counted (wpcs s ! i)" by (metis in_set_conv_nth)
  have arr: "arriving (wpcs s ! j)" if "j < length (wpcs s)" for j using that s(3) by simp
  show ?thesis
  proof (cases "ts_mutex s")
    case None
    then show ?thesis using i arr [OF i(1)] by (auto simp: ready_def arriving_def counted_def)
  next
    case (Some a)
    then obtain j where "j < length (wpcs s)" "has_ts (wpcs s ! j)" using s(4) by (cases a) (auto simp: holder_ok_def)
    then show ?thesis using arr [of j] by (auto simp: ready_def arriving_def has_ts_def)
  qed
qed

definition helpful :: "nat \<Rightarrow> agent \<Rightarrow> barrier \<Rightarrow> bool" where
  "helpful thrs a s \<longleftrightarrow> (if idle thrs s then \<exists>i. a = Worker i \<and> ready i s else agent_step thrs a s \<noteq> None)"

lemma someone_helps:
  assumes "barrier_inv thrs s" and "\<not> stuck thrs s"
  shows "\<exists>a \<in> insert Parent (Worker ` {..<thrs}). helpful thrs a s"
proof (cases "idle thrs s")
  case True
  then obtain i where "ready i s" using idle_ready [OF assms(1)] by blast
  moreover then have "i < thrs" using assms(1) by (simp add: ready_def barrier_inv_def)
  ultimately show ?thesis using True by (auto simp: helpful_def)
next
  case False
  then show ?thesis using assms(2) by (auto simp: helpful_def stuck_def agent_step_def)
qed

text \<open>A helpful thread stays so until the measure falls.\<close>

lemma tick_helps:
  assumes "helpful thrs a s"
  shows "mu thrs (tick thrs b s) < mu thrs s \<or> b \<noteq> a \<and> helpful thrs a (tick thrs b s) \<and> mu thrs (tick thrs b s) = mu thrs s"
proof (cases "agent_step thrs b s")
  case None
  then have "b \<noteq> a" using assms by (auto dest!: ready_steps simp: helpful_def agent_step_def split: if_splits)
  with None assms show ?thesis by (simp add: tick_def)
next
  case (Some s')
  show ?thesis
  proof (cases b)
    case (Worker i)
    with Some show ?thesis using worker_decreases by (simp add: tick_def agent_step_def)
  next
    case Parent
    then have p: "parent_step thrs s = Some s'" "tick thrs b s = s'" using Some by (simp_all add: tick_def agent_step_def)
    show ?thesis
    proof (cases "idle thrs s")
      case True
      with idle_step [OF p(1)] assms Parent show ?thesis unfolding p(2) by (auto simp: helpful_def ready_def)
    next
      case False
      then show ?thesis using parent_decreases [OF p(1)] unfolding p(2) by blast
    qed
  qed
qed

lemma helpful_until_scheduled:
  assumes "helpful thrs a s" and "sched (k + d) = a"
  shows "\<exists>n. mu thrs (ticks thrs sched k n s) < mu thrs s"
  using assms
proof (induction d arbitrary: k s)
  case 0
  then have "mu thrs (ticks thrs sched k 1 s) < mu thrs s" using tick_helps [OF 0(1), of "sched k"] by auto
  then show ?case by blast
next
  case (Suc d)
  show ?case
  proof (cases "mu thrs (tick thrs (sched k) s) < mu thrs s")
    case True
    then have "mu thrs (ticks thrs sched k 1 s) < mu thrs s" by simp
    then show ?thesis by blast
  next
    case False
    with tick_helps [OF Suc.prems(1), of "sched k"]
    have h: "helpful thrs a (tick thrs (sched k) s)" "mu thrs (tick thrs (sched k) s) = mu thrs s" by auto
    from Suc.IH [OF h(1), of "Suc k"] Suc.prems(2) obtain n where
      "mu thrs (ticks thrs sched (Suc k) n (tick thrs (sched k) s)) < mu thrs s" using h(2) by auto
    then have "mu thrs (ticks thrs sched k (Suc n) s) < mu thrs s" by simp
    then show ?thesis by blast
  qed
qed

lemma fair_ends_stuck:
  assumes "fair thrs sched" and "barrier_inv thrs s"
  shows "\<exists>n. stuck thrs (ticks thrs sched k n s)"
  using assms(2)
proof (induction "mu thrs s" arbitrary: k s rule: less_induct)
  case less
  show ?case
  proof (cases "stuck thrs s")
    case True
    then have "stuck thrs (ticks thrs sched k 0 s)" by simp
    then show ?thesis by blast
  next
    case False
    then obtain a where a: "a \<in> insert Parent (Worker ` {..<thrs})" "helpful thrs a s" using someone_helps [OF less.prems] by blast
    then obtain l where "k \<le> l" "sched l = a" using assms(1) unfolding fair_def by blast
    then have "sched (k + (l - k)) = a" by simp
    from helpful_until_scheduled [where sched = sched, OF a(2) this] obtain n where n: "mu thrs (ticks thrs sched k n s) < mu thrs s" by blast
    from less.hyps [OF n ticks_inv [OF less.prems]] obtain m where "stuck thrs (ticks thrs sched (k + n) m (ticks thrs sched k n s))"
      by blast
    then have "stuck thrs (ticks thrs sched k (n + m) s)" by (simp add: ticks_add)
    then show ?thesis by blast
  qed
qed

text \<open>Hence every fair run returns, or the parent waits for a signal it has missed.\<close>

lemma fair_run:
  assumes "fair thrs sched" and "barrier_inv thrs s"
  shows "(\<exists>m. run_barrier thrs sched k s = Some m \<and> joined (snd m) \<and> barrier_inv thrs (snd m))
    \<or> (\<exists>n. (\<forall>pc \<in> set (wpcs (ticks thrs sched k n s)). pc = W_Done) \<and> ppc (ticks thrs sched k n s) = P_Waiting)"
proof -
  obtain n where n: "stuck thrs (ticks thrs sched k n s)" using fair_ends_stuck [OF assms] by blast
  note st = stuck_states [OF ticks_inv [OF assms(2)] n]
  show ?thesis
  proof (cases "ppc (ticks thrs sched k n s) = P_Done")
    case True
    then have "joined (ticks thrs sched k n s)" using st by (simp add: joined_def)
    then show ?thesis using run_barrier_ticks run_barrier_joined [OF _ assms(2)] by blast
  next
    case False
    with st show ?thesis by blast
  qed
qed

text \<open>When all have left the counter is back at zero, so the next run starts like the first.\<close>

lemma joined_counter: "barrier_inv thrs s \<Longrightarrow> joined s \<Longrightarrow> counter s = 0"
  by (auto simp: barrier_inv_def joined_def count_pcs_none counted_def)

section \<open>Whether the parent returns\<close>

text \<open>In the one stuck state the signal was sent before the parent waited.\<close>

definition missed_signal :: "nat \<Rightarrow> (nat \<Rightarrow> agent) \<Rightarrow> bool" where
  "missed_signal thrs sched \<longleftrightarrow> (\<exists>n. (\<forall>pc \<in> set (wpcs (ticks thrs sched 0 n (start_barrier thrs))). pc = W_Done)
     \<and> ppc (ticks thrs sched 0 n (start_barrier thrs)) = P_Waiting)"

text \<open>A state in which no thread can step stays as it is.\<close>

lemma stuck_ticks: "stuck thrs s \<Longrightarrow> length (wpcs s) = thrs \<Longrightarrow> ticks thrs sched k n s = s"
proof (induction n arbitrary: k)
  case (Suc n)
  have "agent_step thrs a s = None" for a
    using Suc.prems by (cases a) (auto simp: agent_step_def stuck_def worker_step_def not_less)
  then show ?case using Suc by (simp add: tick_def)
qed simp

lemma joined_not_missed:
  assumes "joined (ticks thrs sched 0 n (start_barrier thrs))"
  shows "\<not> missed_signal thrs sched"
proof
  let ?s = "\<lambda>n. ticks thrs sched 0 n (start_barrier thrs)"
  assume "missed_signal thrs sched"
  then obtain m where m: "\<forall>pc \<in> set (wpcs (?s m)). pc = W_Done" "ppc (?s m) = P_Waiting" unfolding missed_signal_def by blast
  have len: "length (wpcs (?s k)) = thrs" for k using ticks_inv [OF start_barrier_inv] by (simp add: barrier_inv_def)
  have st: "stuck thrs (?s k)" if "\<forall>pc \<in> set (wpcs (?s k)). pc = W_Done" "ppc (?s k) \<in> {P_Done, P_Waiting}" for k
  proof -
    have "worker_step i (?s k) = None" if "i < thrs" for i
    proof -
      have "i < length (wpcs (?s k))" unfolding len by (rule that)
      then have "wpcs (?s k) ! i \<in> set (wpcs (?s k))" by (rule nth_mem)
      with \<open>\<forall>pc \<in> set (wpcs (?s k)). pc = W_Done\<close> have "wpcs (?s k) ! i = W_Done" by (rule bspec)
      then show ?thesis by (simp add: worker_step_def)
    qed
    moreover have "parent_step thrs (?s k) = None"
    proof (cases "ppc (?s k) = P_Done")
      case True
      then show ?thesis unfolding parent_step_def by (simp only: p_pc.case)
    next
      case False
      with that(2) have "ppc (?s k) = P_Waiting" by blast
      then show ?thesis unfolding parent_step_def by (simp only: p_pc.case)
    qed
    ultimately show ?thesis by (simp add: stuck_def)
  qed
  have "?s (k + d) = ?s k" if "stuck thrs (?s k)" for k d
    using stuck_ticks [OF that len] by (simp add: ticks_add)
  moreover have "stuck thrs (?s m)" "stuck thrs (?s n)" using st m assms by (auto simp: joined_def)
  ultimately have "?s n = ?s m" by (metis le_add_diff_inverse nat_le_linear)
  with m(2) assms show False by (simp add: joined_def)
qed

lemma ticks_fold: "ticks thrs sched k n s = fold (tick thrs) (map sched [k..<k + n]) s"
  by (induction n arbitrary: k s) (simp_all add: upt_conv_Cons del: upt_Suc)

text \<open>Every thread in turn, the parent last.\<close>

definition take_turns :: "nat \<Rightarrow> nat \<Rightarrow> agent" where
  "take_turns thrs k = (if k mod Suc thrs = thrs then Parent else Worker (k mod Suc thrs))"

lemma take_turns_round: "j \<le> thrs \<Longrightarrow> take_turns thrs (Suc thrs * k + j) = (if j = thrs then Parent else Worker j)"
proof -
  assume "j \<le> thrs"
  then have "(Suc thrs * k + j) mod Suc thrs = j" by (simp only: mod_mult_self4 mod_less le_imp_less_Suc)
  then show ?thesis by (simp add: take_turns_def)
qed

lemma take_turns_fair: "fair thrs (take_turns thrs)"
  unfolding fair_def
proof (intro ballI allI)
  fix a k assume "a \<in> insert Parent (Worker ` {..<thrs})"
  then obtain j where "j \<le> thrs" "a = (if j = thrs then Parent else Worker j)"
  proof (cases a)
    case (Worker j)
    with \<open>a \<in> _\<close> show thesis using that [of j] by auto
  next
    case Parent
    then show thesis using that [of thrs] by simp
  qed
  then have "take_turns thrs (Suc thrs * k + j) = a" by (simp only: take_turns_round)
  then show "\<exists>l \<ge> k. take_turns thrs l = a" by (intro exI [of _ "Suc thrs * k + j"]) simp
qed

lemma take_turns_rounds: "map (take_turns thrs) [0..<Suc thrs * n] = concat (replicate n (map Worker [0..<thrs] @ [Parent]))"
proof (induction n)
  case (Suc n)
  have r: "map (take_turns thrs) [Suc thrs * n..<Suc thrs * n + Suc thrs] = map Worker [0..<thrs] @ [Parent]" (is "?l = ?r")
  proof (rule nth_equalityI)
    fix j assume "j < length ?l"
    then have j: "j \<le> thrs" by simp
    have "?l ! j = take_turns thrs (Suc thrs * n + j)" using j by (simp del: upt_Suc)
    also have "\<dots> = ?r ! j" using j by (simp only: take_turns_round) (simp add: nth_append)
    finally show "?l ! j = ?r ! j" .
  qed simp
  have "[0..<Suc thrs * Suc n] = [0..<Suc thrs * n] @ [Suc thrs * n..<Suc thrs * n + Suc thrs]"
    by (metis mult_Suc_right add.commute upt_add_eq_append zero_le)
  then have "map (take_turns thrs) [0..<Suc thrs * Suc n] = concat (replicate n (map Worker [0..<thrs] @ [Parent])) @ map Worker [0..<thrs] @ [Parent]"
    using Suc r by (simp only: map_append)
  moreover have "concat (replicate (Suc n) xs) = concat (replicate n xs) @ xs" for xs :: "agent list"
    by (induction n) simp_all
  ultimately show ?case by (simp only:)
qed simp

lemma turns_return:
  assumes "joined (fold (tick thrs) (concat (replicate n (map Worker [0..<thrs] @ [Parent]))) (start_barrier thrs))"
  shows "\<not> missed_signal thrs (take_turns thrs)"
  using assms joined_not_missed [of thrs "take_turns thrs" "Suc thrs * n"] unfolding ticks_fold add_0 take_turns_rounds by blast

end
