(* ===== verification/Multi_Thread.thy ===== *)
theory Multi_Thread
  imports Lock_Consistency Math_Opern C_Strings Barrier_Progress
begin

text \<open>
  \<^verbatim>\<open>testcase/multi_thread_test/multi_thread_test.c\<close>: one thread for each processor multiplies
  matrices after a barrier, one more thread does the same alone, and the medians of all threads
  must agree; a failed attempt is repeated with twice the work.  The threads share only the
  barrier (theory Barrier), so the results of a thread depend on the clock readings that it sees,
  which \<open>mt_clock\<close> gives for each attempt and thread.
\<close>

section \<open>The environment\<close>

record mt_env =
  mt_rand :: "int \<Rightarrow> int \<times> int"          \<comment> \<open>\<^verbatim>\<open>rand_r\<close>\<close>
  mt_rand_max :: int
  mt_clock :: "nat \<Rightarrow> nat \<Rightarrow> world"
  mt_sched :: "nat \<Rightarrow> nat \<Rightarrow> agent"
  mt_lib :: sched_env

section \<open>The measured work\<close>

text \<open>The arrays of a thread are filled or written before they are read.\<close>

definition blank_matrix :: "int list list" where
  "blank_matrix = replicate 10 (replicate 10 0)"

definition fill_both :: "mt_env \<Rightarrow> (int list list \<times> int list list) res" where
  "fill_both m = bind_res (fill_matrix (mt_rand m) (mt_rand_max m) blank_matrix) (\<lambda>a.
     bind_res (fill_matrix (mt_rand m) (mt_rand_max m) blank_matrix) (\<lambda>b. Inr (a, b)))"

definition repeat_kernel :: "(int list list \<Rightarrow> int list list res) \<Rightarrow> int \<Rightarrow> int list list res" where
  "repeat_kernel product sub_iters = for_res [0..<nat sub_iters] (\<lambda>j. product) blank_matrix"

text \<open>Unlike \<open>timed_step\<close>, an iteration that cannot read the clock leaves the result as it is.\<close>

definition kernel_step :: "int list list res \<Rightarrow> rw \<Rightarrow> (int \<times> rw) run" where
  "kernel_step work s = (case get_cur_time (snd s) of
       (None, w) \<Rightarrow> Some (Inr (-1, fst s, w))
     | (Some start_time, w) \<Rightarrow> bind_run (Some work) (\<lambda>matrixC. case get_cur_time w of
         (None, w) \<Rightarrow> Some (Inr (-1, fst s, w))
       | (Some end_time, w) \<Rightarrow> Some (bind_res (get_time_diff start_time end_time) (\<lambda>diff_time.
           bind_res (add_entry (fst s) diff_time 0) (\<lambda>r. Inr (0, r, w))))))"

partial_function (option) sample_loop :: "(int \<Rightarrow> rw \<Rightarrow> (int \<times> rw) run) \<Rightarrow> f64 \<Rightarrow> int \<Rightarrow> rw \<Rightarrow> (int \<times> rw) run" where
  "sample_loop body clock sub_iters s = (case body sub_iters s of None \<Rightarrow> None | Some (Inl e) \<Rightarrow> Some (Inl e)
     | Some (Inr (rc, r, w)) \<Rightarrow> if rc = -1 then Some (Inr (sub_iters, r\<lparr>trc := -1\<rparr>, w))
         else if clock < of_ll (mediantime r) then Some (Inr (sub_iters, r, w))
         else (case next_quantum r sub_iters of Inl e \<Rightarrow> Some (Inl e)
           | Inr (sub_iters, r) \<Rightarrow> sample_loop body clock sub_iters (r, w)))"

definition sample_run :: "mt_env \<Rightarrow> int \<Rightarrow> f64 \<Rightarrow> int \<Rightarrow> rw \<Rightarrow> (int \<times> rw) run" where
  "sample_run m iterations clock_accuracy sub_iters s = bind_run (Some (fill_both m)) (\<lambda>(matrixA, matrixB).
     sample_loop (\<lambda>sub_iters. iterate (nat iterations) (kernel_step (repeat_kernel (sample_run_kernel matrixA matrixB) sub_iters)))
       clock_accuracy sub_iters s)"

section \<open>A thread\<close>

text \<open>What happens before the barrier, and after it.\<close>

definition thread_begins :: "mt_env \<Rightarrow> sched \<Rightarrow> (int list list \<times> int list list) res" where
  "thread_begins m self = bind_res (fill_both m) (\<lambda>ab.
     bind_res (assert_sched (mt_lib m) self (se_max (mt_lib m) - 20)) (\<lambda>_. Inr ab))"

definition thread_works :: "int \<Rightarrow> int \<Rightarrow> int list list \<times> int list list \<Rightarrow> rw \<Rightarrow> (int \<times> test_results) run" where
  "thread_works new_iters sub_iters = (\<lambda>(matrixA, matrixB) s.
     bind_run (iterate (nat new_iters) (kernel_step (repeat_kernel (multi_thread_kernel matrixA matrixB) sub_iters)) s)
       (\<lambda>(rc, r, w). Some (Inr (rc, r\<lparr>trc := rc\<rparr>))))"

text \<open>
  \<^verbatim>\<open>create_multi_threads\<close>: the threads of an index range and their scheduling.  A thread that
  \<^verbatim>\<open>pthread_create\<close> could not create goes unnoticed, since failures are positive numbers; \<open>made\<close>
  is the number of calls made before.
\<close>

definition create_multi_threads :: "sched_env \<Rightarrow> sched \<Rightarrow> int \<Rightarrow> nat \<Rightarrow> (nat \<Rightarrow> sched option) option" where
  "create_multi_threads e self priority made = (case set_pthreadattr_sched_param e pthread_attr_init SCHED_FIFO priority of
     (rc, attr) \<Rightarrow> if rc = -1 then None
       else Some (\<lambda>i. if se_create e (made + i) then Some (thread_sched self attr) else None))"

section \<open>One attempt\<close>

text \<open>The number of times the work is repeated, the counter of the barrier and the results.\<close>

record multi =
  m_sub_iters :: int
  m_counter :: int
  m_results :: "test_results list"
  m_consolidator :: test_results

fun for_run :: "nat list \<Rightarrow> (nat \<Rightarrow> 's \<Rightarrow> 's run) \<Rightarrow> 's \<Rightarrow> 's run" where
  "for_run [] f s = Some (Inr s)"
| "for_run (i # is) f s = bind_run (f i s) (for_run is f)"

text \<open>
  The threads before the barrier: a failed assertion aborts the program.  When a thread is
  missing the parent polls the counter for ever, so the attempt does not return.
\<close>

definition begin_all :: "mt_env \<Rightarrow> (nat \<Rightarrow> sched option) \<Rightarrow> nat \<Rightarrow> unit run" where
  "begin_all m thr cpus = bind_run (for_run [0..<cpus] (\<lambda>i _. case thr i of None \<Rightarrow> Some (Inr ())
       | Some sc \<Rightarrow> Some (bind_res (thread_begins m sc) (\<lambda>_. Inr ()))) ())
     (\<lambda>_. if \<forall>i \<in> set [0..<cpus]. thr i \<noteq> None then Some (Inr ()) else None)"

definition meet :: "nat \<Rightarrow> (nat \<Rightarrow> agent) \<Rightarrow> int \<Rightarrow> int run" where
  "meet cpus sched c = (case run_barrier cpus sched 0 ((start_barrier cpus)\<lparr>counter := c\<rparr>) of
     None \<Rightarrow> None | Some (t, s) \<Rightarrow> Some (Inr (counter s)))"

definition work_step :: "mt_env \<Rightarrow> int \<Rightarrow> int \<Rightarrow> nat \<Rightarrow> nat \<Rightarrow> int \<times> test_results list \<Rightarrow> (int \<times> test_results list) run" where
  "work_step m new_iters sub_iters k i = (\<lambda>(rc, rs). bind_run (Some (bind_res (fill_both m) (\<lambda>ab. bind_res (aread rs (int i)) (\<lambda>r. Inr (ab, r)))))
     (\<lambda>(ab, r). bind_run (thread_works new_iters sub_iters ab (r, mt_clock m k i)) (\<lambda>(rc, r).
       Some (bind_res (awrite rs (int i) r) (\<lambda>rs. Inr (rc, rs))))))"

text \<open>
  The thread that runs alone does not take part in the barrier; but when it cannot read the clock
  it counts itself out of it.
\<close>

definition last_thread :: "mt_env \<Rightarrow> (nat \<Rightarrow> sched option) \<Rightarrow> int \<Rightarrow> nat \<Rightarrow> nat \<Rightarrow> multi \<Rightarrow> multi run" where
  "last_thread m thr new_iters k cpus st = (case thr cpus of None \<Rightarrow> Some (Inl Null_deref)
     | Some sc \<Rightarrow> bind_run (Some (thread_begins m sc)) (\<lambda>_.
         bind_run (work_step m new_iters (m_sub_iters st) k cpus (0, m_results st)) (\<lambda>(rc, rs).
           Some (bind_res (if rc = -1 then chk_int (m_counter st - 1) else Inr (m_counter st)) (\<lambda>c.
             Inr (st\<lparr>m_results := rs, m_counter := c\<rparr>))))))"

definition judge_step :: "real_time_mode \<Rightarrow> rt_params \<Rightarrow> nat \<Rightarrow> int \<times> test_results list \<times> test_results \<Rightarrow>
    (int \<times> test_results list \<times> test_results) res" where
  "judge_step mode vals i = (\<lambda>(ret, rs, cons). bind_res (aread rs (int i)) (\<lambda>r. bind_res (check_pass_criteria r mode vals 0) (\<lambda>(rc, r).
     bind_res (awrite rs (int i) r) (\<lambda>rs. bind_res (add_entry cons (mediantime r) 0) (\<lambda>cons.
     Inr (if rc = -1 then -1 else ret, rs, cons))))))"

text \<open>\<^verbatim>\<open>char buf[30]\<close>\<close>

definition name_step :: "nat \<Rightarrow> test_results list \<Rightarrow> test_results list res" where
  "name_step i rs = (let buf = '' high priority thread #'' @ dec i in
     bind_res (guard_res Out_of_bounds (length buf < 30)) (\<lambda>_. bind_res (aread rs (int i)) (\<lambda>r.
     bind_res (set_test_result_name r buf) (\<lambda>r. awrite rs (int i) r))))"

definition number_results :: "test_results list \<Rightarrow> test_results list" where
  "number_results rs = map (\<lambda>(i, r). r\<lparr>result_id := int i\<rparr>) (enumerate 0 rs)"

definition judge_all :: "real_time_mode \<Rightarrow> rt_params \<Rightarrow> nat \<Rightarrow> multi \<Rightarrow> (int \<times> multi) res" where
  "judge_all mode vals total_thrs st =
     bind_res (for_res [0..<total_thrs] (judge_step mode vals) (0, m_results st, m_consolidator st)) (\<lambda>(ret, rs, cons).
     bind_res (if ret = 0 then check_pass_criteria cons mode vals 0 else Inr (-1, cons)) (\<lambda>(ret, cons).
     bind_res (for_res [0..<total_thrs] name_step rs) (\<lambda>rs. Inr (ret, st\<lparr>m_results := rs, m_consolidator := cons\<rparr>))))"

definition run_multi_thread_test :: "mt_env \<Rightarrow> sched \<Rightarrow> real_time_mode \<Rightarrow> rt_params \<Rightarrow> int \<Rightarrow> nat \<Rightarrow> nat \<Rightarrow> multi \<Rightarrow> (int \<times> multi) run" where
  "run_multi_thread_test m self mode vals new_iters cpus k st = (let st = st\<lparr>m_results := number_results (m_results st)\<rparr> in
     case create_multi_threads (mt_lib m) self (se_max (mt_lib m) - 20) (Suc (k * Suc cpus)) of None \<Rightarrow> Some (Inl Abort_called)
     | Some thr \<Rightarrow> bind_run (begin_all m thr cpus) (\<lambda>_. bind_run (meet cpus (mt_sched m k) (m_counter st)) (\<lambda>c.
         bind_run (for_run [0..<cpus] (work_step m new_iters (m_sub_iters st) k) (0, m_results st)) (\<lambda>(rc, rs).
         (case create_multi_threads (mt_lib m) self (se_max (mt_lib m) - 20) (Suc (k * Suc cpus)) of None \<Rightarrow> Some (Inl Abort_called)
          | Some thr \<Rightarrow> bind_run (last_thread m thr new_iters k cpus (st\<lparr>m_results := rs, m_counter := c\<rparr>)) (\<lambda>st.
              Some (judge_all mode vals (cpus + 1) st)))))))"

section \<open>The test\<close>

text \<open>The result is whether an attempt passed.\<close>

fun multi_attempts :: "(nat \<Rightarrow> multi \<Rightarrow> (int \<times> multi) run) \<Rightarrow> nat \<Rightarrow> nat list \<Rightarrow> multi \<Rightarrow> (bool \<times> multi) run" where
  "multi_attempts attempt total_thrs [] st = Some (Inr (False, st))"
| "multi_attempts attempt total_thrs (retry_number # ks) st = bind_run (attempt retry_number st) (\<lambda>(rc, st).
     if rc = -1 then bind_run (Some (bind_res (chk_int (m_sub_iters st * 2)) (\<lambda>q.
         bind_res (free_chains (m_results st) total_thrs 0) (\<lambda>rs. bind_res (free_chain (m_consolidator st) 0) (\<lambda>cons.
           Inr (st\<lparr>m_results := rs, m_consolidator := cons, m_sub_iters := q\<rparr>))))))
       (multi_attempts attempt total_thrs ks)
     else Some (Inr (True, st)))"

text \<open>The last result does not contribute to the product and the sum.\<close>

definition get_multi_thread_scores :: "(f64 \<Rightarrow> f64 \<Rightarrow> f64) \<Rightarrow> test_results list \<Rightarrow> test_results \<Rightarrow> int \<Rightarrow> int \<Rightarrow>
    benchmark_test \<Rightarrow> test_score list res" where
  "get_multi_thread_scores pw tresult consolidator n online_cpus bmtest =
     bind_res (generate_combined_score tresult (bt_reference_score bmtest)) (\<lambda>score_vec. bind_res (vget score_vec 0) (\<lambda>score.
     bind_res (for_res [0..<nat (n - 1)] (\<lambda>i (product, sum). bind_res (aread tresult (int i)) (\<lambda>r.
         Inr (product * pw (of_ll (mediantime r)) (Fin 1 / of_ll online_cpus), sum + of_ll (mediantime r)))) (Fin 1, Fin 0)) (\<lambda>(product, sum).
     bind_res (chk_ll (online_cpus * mediantime consolidator)) (\<lambda>d. let parallelism = sum / of_ll d in
       Inr (score_vec[0 := score\<lparr>throughput_score := bt_reference_score bmtest / (product / parallelism)\<rparr>])))))"

definition multi_thread :: "(f64 \<Rightarrow> f64 \<Rightarrow> f64) \<Rightarrow> mt_env \<Rightarrow> sched \<Rightarrow> test_fn" where
  "multi_thread pw m self args bmtest env = (let online_cpus = get_num_online_cpus (mt_lib m); new_iters = bt_iterations bmtest in
     if online_cpus = 1 then Some (Inr (0, env)) else
     bind_run (Some (chk_int (online_cpus + 1))) (\<lambda>total_thrs.
     bind_run (Some (bind_res (create_test_result 1 new_iters) (\<lambda>rs. aread rs 0))) (\<lambda>r.
     bind_run (Some (get_min_exec_time (te_table env))) (\<lambda>clock_accuracy.
     bind_run (if se_create (mt_lib m) 0 then sample_run m new_iters clock_accuracy 2 (r, te_world env) else Some (Inl Uninitialised)) (\<lambda>(sub_iters, r, w).
     bind_run (Some (free_chain r 0)) (\<lambda>r. if trc r = -1 then Some (Inr (-1, env\<lparr>te_world := w\<rparr>)) else
     bind_run (Some (create_test_result total_thrs new_iters)) (\<lambda>rs.
     bind_run (Some (bind_res (create_test_result1 1 new_iters total_thrs) (\<lambda>rs. aread rs 0))) (\<lambda>cons.
     bind_run (multi_attempts (run_multi_thread_test m self (rt_mode args) (te_vals env) new_iters (nat online_cpus)) (nat total_thrs)
         [0..<nat (bt_threshold bmtest)] \<lparr>m_sub_iters = sub_iters, m_counter = 0, m_results = rs, m_consolidator = cons\<rparr>) (\<lambda>(passes, st).
     Some (bind_res (get_multi_thread_scores pw (m_results st) (m_consolidator st) total_thrs online_cpus bmtest) (\<lambda>score_vec.
       bind_res (add_result_to_result_table4 pw (te_table env) score_vec MULTI_THREAD_TEST bmtest (if passes then 1 else 0)) (\<lambda>table.
       Inr (0, env\<lparr>te_table := table, te_world := w\<rparr>)))))))))))))"

section \<open>The work has no fault\<close>

definition square10 :: "int list list \<Rightarrow> bool" where
  "square10 c \<longleftrightarrow> length c = 10 \<and> (\<forall>row \<in> set c. length row = 10)"

lemma blank_square: "square10 blank_matrix"
  by (simp add: square10_def blank_matrix_def)

lemma fill_both_ok:
  assumes "rand_ok (mt_rand m) (mt_rand_max m)"
  obtains a b where "fill_both m = Inr (a, b)" "is_mat 10 10000 a" "is_mat 10 10000 b"
proof -
  obtain a where "fill_matrix (mt_rand m) (mt_rand_max m) blank_matrix = Inr a" "is_mat 10 10000 a"
    using fill_loops_ok [OF assms, of 10000 blank_matrix 10 10000] blank_square by (auto simp: fill_matrix_def square10_def)
  then have "fill_both m = Inr (a, a)" by (simp add: fill_both_def)
  with \<open>is_mat 10 10000 a\<close> show thesis using that by blast
qed

lemma kernels_ok:
  assumes "is_mat 10 10000 a" "is_mat 10 10000 b" "square10 c"
  shows "\<exists>c'. multi_thread_kernel a b c = Inr c' \<and> square10 c'" "\<exists>c'. sample_run_kernel a b c = Inr c' \<and> square10 c'"
proof -
  have "multi_thread_kernel a b c = Inr (map (\<lambda>p. map (\<lambda>q. \<Sum>r<10. a ! p ! q * b ! q ! r) [0..<10]) [0..<10])"
    unfolding multi_thread_kernel_def using assms
    by (intro matrix_loops_ok [where b = 10000]) (simp_all add: is_mat_read is_mat_bound square10_def)
  then show "\<exists>c'. multi_thread_kernel a b c = Inr c' \<and> square10 c'" by (simp add: square10_def)
  have "sample_run_kernel a b c = Inr (map (\<lambda>p. map (\<lambda>q. \<Sum>r<10. a ! p ! r * b ! r ! q) [0..<10]) [0..<10])"
    unfolding sample_run_kernel_def using assms
    by (intro matrix_loops_ok [where b = 10000]) (simp_all add: is_mat_read is_mat_bound square10_def)
  then show "\<exists>c'. sample_run_kernel a b c = Inr c' \<and> square10 c'" by (simp add: square10_def)
qed

lemma repeat_kernel_ok:
  assumes "\<And>c. square10 c \<Longrightarrow> \<exists>c'. f c = Inr c' \<and> square10 c'"
  shows "\<exists>c. repeat_kernel f q = Inr c"
proof -
  have "\<exists>c. for_res [0..<nat q] (\<lambda>j. f) blank_matrix = Inr c \<and> square10 c"
    by (rule for_res_inv [where P = "\<lambda>_. square10"]) (use blank_square assms in auto)
  then show ?thesis by (auto simp: repeat_kernel_def)
qed

lemma kernel_step_records:
  assumes "work = Inr c"
  shows "records_time lo b (clock_steps lo b) (kernel_step work)"
  unfolding records_time_def
proof (intro allI impI)
  fix r w n assume c: "clock_steps lo b (Suc n) w"
  obtain s e where se: "clk w (clk_n w) = Some s" "clk w (Suc (clk_n w)) = Some e"
    "get_time_diff s e = Inr (ts_nsec e - ts_nsec s)" "in_range lo b (ts_nsec e - ts_nsec s)"
    using two_readings [OF c] .
  define w' where "w' = w\<lparr>clk_n := Suc (Suc (clk_n w))\<rparr>"
  have "clock_steps lo b n w'" by (rule clock_steps_next [OF c]) (simp_all add: w'_def)
  moreover have "kernel_step work (r, w) = Some (bind_res (add_entry r (ts_nsec e - ts_nsec s) 0) (\<lambda>r. Inr (0, r, w')))"
    using se assms by (simp add: kernel_step_def get_cur_time_def w'_def)
  ultimately show "\<exists>t w'. in_range lo b t \<and> clock_steps lo b n w' \<and>
      kernel_step work (r, w) = Some (bind_res (add_entry r t 0) (\<lambda>r. Inr (0, r, w')))" using se(4) by blast
qed

section \<open>Results that are empty, and results of a run\<close>

definition fresh :: "int \<Rightarrow> test_results \<Rightarrow> bool" where
  "fresh iters r \<longleftrightarrow> recorded r [] \<and> max_entries r = iters"

definition filled :: "int \<Rightarrow> int \<Rightarrow> int \<Rightarrow> test_results \<Rightarrow> bool" where
  "filled lo b iters r \<longleftrightarrow> (\<exists>ts. measured lo b iters r ts)"

lemma measured_fields [simp]:
  "measured lo b iters (r\<lparr>trc := x\<rparr>) ts = measured lo b iters r ts"
  "measured lo b iters (r\<lparr>tname := nm\<rparr>) ts = measured lo b iters r ts"
  by (simp_all add: measured_def recorded_def summarised_def)

lemma filled_fields [simp]: "filled lo b iters (r\<lparr>trc := x\<rparr>) = filled lo b iters r" "filled lo b iters (r\<lparr>tname := nm\<rparr>) = filled lo b iters r"
  by (simp_all add: filled_def)

lemma fresh_number [simp]: "fresh iters (r\<lparr>result_id := x\<rparr>) = fresh iters r"
  by (simp add: fresh_def recorded_def)

lemma filled_empties: "filled lo b iters r \<Longrightarrow> \<exists>r'. free_chain r 0 = Inr r' \<and> r' = r\<lparr>num_entries := 0\<rparr> \<and> fresh iters r'"
  by (auto simp: filled_def measured_def fresh_def free_chain_def recorded_def)

lemma number_results_nth: "length (number_results rs) = length rs"
  "i < length rs \<Longrightarrow> number_results rs ! i = (rs ! i)\<lparr>result_id := int i\<rparr>"
  by (simp_all add: number_results_def nth_enumerate_eq)

section \<open>The threads of an attempt\<close>

text \<open>The loop rule of \<open>for_run\<close>.\<close>

lemma for_run_append: "for_run (xs @ ys) f s = bind_run (for_run xs f s) (for_run ys f)"
  by (induction xs arbitrary: s) (auto simp: bind_run_def split: option.splits sum.splits)

lemma for_run_inv:
  assumes "P 0 s" and "\<And>i s. i < n \<Longrightarrow> P i s \<Longrightarrow> \<exists>s'. f i s = Some (Inr s') \<and> P (Suc i) s'"
  shows "\<exists>s'. for_run [0..<n] f s = Some (Inr s') \<and> P n s'"
  using assms(2)
proof (induction n)
  case (Suc n)
  then obtain s1 where "for_run [0..<n] f s = Some (Inr s1)" "P n s1" by force
  moreover then obtain s2 where "f n s1 = Some (Inr s2)" "P (Suc n) s2" using Suc.prems by blast
  ultimately show ?case by (simp add: for_run_append)
qed (use assms(1) in simp)

lemma thread_works_ok:
  assumes "is_mat 10 10000 a" "is_mat 10 10000 b'" and "clock_steps lo b (nat iters) w" "run_ok iters b" "fresh iters r"
  shows "\<exists>r'. thread_works iters q (a, b') (r, w) = Some (Inr (0, r')) \<and> filled lo b iters r'"
proof -
  obtain c where "repeat_kernel (multi_thread_kernel a b') q = Inr c"
    using repeat_kernel_ok kernels_ok(1) [OF assms(1,2)] by blast
  note k = kernel_step_records [OF this, of lo b]
  obtain ts r' w' where "iterate (nat iters) (kernel_step (repeat_kernel (multi_thread_kernel a b') q)) (r, w) = Some (Inr (0, r', w'))"
    "measured lo b iters r' ts"
    using iterate_run [OF k, of iters 0 w r] assms(3-5) by (auto simp: fresh_def)
  then show ?thesis by (auto simp: thread_works_def filled_def)
qed

lemma work_step_ok:
  assumes "rand_ok (mt_rand m) (mt_rand_max m)" and "clock_steps lo b (nat iters) (mt_clock m k i)" "run_ok iters b"
    and "i < length rs" "fresh iters (rs ! i)"
  shows "\<exists>r. work_step m iters q k i (rc, rs) = Some (Inr (0, rs[i := r])) \<and> filled lo b iters r"
proof -
  obtain a b' where f: "fill_both m = Inr (a, b')" "is_mat 10 10000 a" "is_mat 10 10000 b'" using fill_both_ok [OF assms(1)] .
  obtain r' where "thread_works iters q (a, b') (rs ! i, mt_clock m k i) = Some (Inr (0, r'))" "filled lo b iters r'"
    using thread_works_ok [OF f(2,3) assms(2,3,5)] by blast
  then show ?thesis using f(1) assms(4) by (intro exI [of _ r']) (simp add: work_step_def aread_ok awrite_ok)
qed

lemma work_all_ok:
  assumes "rand_ok (mt_rand m) (mt_rand_max m)" and "\<And>i. i < n \<Longrightarrow> clock_steps lo b (nat iters) (mt_clock m k i)" "run_ok iters b"
    and "n \<le> length rs" "\<forall>r \<in> set rs. fresh iters r"
  shows "\<exists>rc rs'. for_run [0..<n] (work_step m iters q k) (0, rs) = Some (Inr (rc, rs')) \<and> length rs' = length rs
    \<and> (\<forall>i < length rs. if i < n then filled lo b iters (rs' ! i) else fresh iters (rs' ! i))"
proof -
  let ?P = "\<lambda>n (rc :: int, rs'). length rs' = length rs \<and> (\<forall>i < length rs. if i < n then filled lo b iters (rs' ! i) else fresh iters (rs' ! i))"
  have "\<exists>s. for_run [0..<n] (work_step m iters q k) (0, rs) = Some (Inr s) \<and> ?P n s"
  proof (rule for_run_inv [where P = ?P])
    fix i s assume i: "i < n" "?P i s"
    obtain rc rs' where s: "s = (rc, rs')" by fastforce
    have l: "i < length rs'" "fresh iters (rs' ! i)" using i assms(4) by (auto simp: s)
    obtain r where "work_step m iters q k i (rc, rs') = Some (Inr (0, rs'[i := r]))" "filled lo b iters r"
      using work_step_ok [OF assms(1) assms(2) [OF i(1)] assms(3) l] by blast
    with i(2) l(1) show "\<exists>s'. work_step m iters q k i s = Some (Inr s') \<and> ?P (Suc i) s'"
      by (intro exI [of _ "(0, rs'[i := r])"]) (auto simp: s nth_list_update less_Suc_eq)
  qed (use assms(5) in auto)
  then show ?thesis by auto
qed

lemma create_ok:
  assumes "sched_ok e"
  shows "create_multi_threads e self prio made = Some (\<lambda>i. Some \<lparr>sc_policy = SCHED_FIFO, sc_priority = prio\<rparr>)"
proof -
  obtain rc attr where a: "set_pthreadattr_sched_param e pthread_attr_init SCHED_FIFO prio = (rc, attr)" by fastforce
  then have "rc = 0" using set_attr_rc [of e pthread_attr_init SCHED_FIFO prio] assms by (simp add: sched_ok_def)
  with a set_attr_ok [of e pthread_attr_init SCHED_FIFO prio attr self] assms show ?thesis
    by (simp add: create_multi_threads_def sched_ok_def)
qed

lemma thread_begins_ok:
  assumes "rand_ok (mt_rand m) (mt_rand_max m)" and "sched_ok (mt_lib m)"
  shows "\<exists>ab. thread_begins m \<lparr>sc_policy = SCHED_FIFO, sc_priority = se_max (mt_lib m) - 20\<rparr> = Inr ab"
proof -
  obtain a b where "fill_both m = Inr (a, b)" using fill_both_ok [OF assms(1)] .
  then show ?thesis using assms(2) by (simp add: thread_begins_def assert_sched_ok sched_ok_def)
qed

lemma begin_all_ok:
  assumes "rand_ok (mt_rand m) (mt_rand_max m)" and "sched_ok (mt_lib m)"
  shows "begin_all m (\<lambda>i. Some \<lparr>sc_policy = SCHED_FIFO, sc_priority = se_max (mt_lib m) - 20\<rparr>) n = Some (Inr ())"
proof -
  obtain ab where ab: "thread_begins m \<lparr>sc_policy = SCHED_FIFO, sc_priority = se_max (mt_lib m) - 20\<rparr> = Inr ab"
    using thread_begins_ok [OF assms] by blast
  have "for_run ns (\<lambda>i _. Some (Inr ())) () = Some (Inr ())" for ns by (induction ns) simp_all
  with ab show ?thesis by (simp add: begin_all_def)
qed

lemma meet_ok:
  assumes "fair thrs sched" and "\<not> missed_signal thrs sched"
  shows "meet thrs sched 0 = Some (Inr 0)"
proof -
  have "\<exists>m. run_barrier thrs sched 0 (start_barrier thrs) = Some m \<and> joined (snd m) \<and> barrier_inv thrs (snd m)"
    using fair_run [OF assms(1) start_barrier_inv, of 0] assms(2) unfolding missed_signal_def by blast
  then obtain t s where r: "run_barrier thrs sched 0 (start_barrier thrs) = Some (t, s)" "joined s" "barrier_inv thrs s" by auto
  have "(start_barrier thrs)\<lparr>counter := 0\<rparr> = start_barrier thrs" by (simp add: start_barrier_def)
  then show ?thesis using r joined_counter [OF r(3,2)] by (simp add: meet_def)
qed

section \<open>Judging an attempt\<close>

lemma passed_name [simp]: "passed (r\<lparr>tname := nm\<rparr>) = passed r"
  by (simp add: passed_def)

lemma add_entries_prefix: "add_entries r (xs @ ys) = Inr z \<Longrightarrow> \<exists>r'. add_entries r xs = Inr r'"
  by (cases "add_entries r xs") (simp_all add: add_entries_append)

lemma judge_loop_ok:
  assumes "percent_ok mode vals" and "\<forall>r \<in> set rs. filled lo b iters r" and "add_entries cons (map mediantime rs) = Inr cons'"
  shows "\<exists>ret rs'. for_res [0..<length rs] (judge_step mode vals) (0, rs, cons) = Inr (ret, rs', cons') \<and> length rs' = length rs
    \<and> (\<forall>r \<in> set rs'. filled lo b iters r) \<and> (ret = 0 \<and> (\<forall>r \<in> set rs'. passed r) \<or> ret = -1)"
proof -
  let ?ms = "map mediantime rs"
  let ?P = "\<lambda>i (ret, rs', c). length rs' = length rs \<and> map mediantime rs' = ?ms \<and> (\<forall>r \<in> set rs'. filled lo b iters r)
    \<and> (ret = (0::int) \<and> (\<forall>j < i. passed (rs' ! j)) \<or> ret = -1) \<and> add_entries cons (take i ?ms) = Inr c"
  have "\<exists>s. for_res [0..<length rs] (judge_step mode vals) (0, rs, cons) = Inr s \<and> ?P (length rs) s"
  proof (rule for_res_inv [where P = ?P])
    fix i s assume i: "i < length rs" "?P i s"
    obtain ret rs' c where s: "s = (ret, rs', c)" by (metis prod.exhaust)
    have l: "length rs' = length rs" "map mediantime rs' = ?ms" "\<forall>r \<in> set rs'. filled lo b iters r" "add_entries cons (take i ?ms) = Inr c"
      "ret = 0 \<and> (\<forall>j < i. passed (rs' ! j)) \<or> ret = -1" using i(2) by (simp_all add: s)
    have "filled lo b iters (rs' ! i)" using l(1,3) i(1) by simp
    then obtain r1 where r1: "check_pass_criteria (rs' ! i) mode vals 0 = Inr (if passed r1 then 0 else -1, r1)" "filled lo b iters r1"
      "mediantime r1 = mediantime (rs' ! i)" using check_pass_measured [OF _ assms(1)] unfolding filled_def by metis
    have ms: "mediantime (rs' ! i) = ?ms ! i" using l(1,2) i(1) by (metis nth_map)
    have tk: "take (Suc i) ?ms = take i ?ms @ [?ms ! i]" using i(1) by (simp add: take_Suc_conv_app_nth)
    have "add_entries cons (take (Suc i) ?ms @ drop (Suc i) ?ms) = Inr cons'" using assms(3) by (simp only: append_take_drop_id)
    then obtain c1 where c1: "add_entries cons (take (Suc i) ?ms) = Inr c1" using add_entries_prefix by blast
    then have a: "add_entry c (?ms ! i) 0 = Inr c1" using l(4) by (simp only: tk add_entries_append) (simp add: bind_res_Inr_iff)
    have mm: "map mediantime (rs'[i := r1]) = ?ms" using l(2) r1(3) i(1) l(1) by (simp add: map_update ms list_update_same_conv)
    have fl: "\<forall>r \<in> set (rs'[i := r1]). filled lo b iters r" using l(3) r1(2) set_update_subset_insert by fastforce
    have ps: "(if passed r1 then ret else -1) = 0 \<and> (\<forall>j < Suc i. passed (rs'[i := r1] ! j)) \<or> (if passed r1 then ret else -1) = -1"
      using l(1,5) i(1) by (cases "passed r1") (auto simp: nth_list_update less_Suc_eq)
    have st: "judge_step mode vals i s = Inr (if passed r1 then ret else -1, rs'[i := r1], c1)"
      using r1 a ms i(1) l(1) by (simp add: s judge_step_def aread_ok awrite_ok)
    show "\<exists>s'. judge_step mode vals i s = Inr s' \<and> ?P (Suc i) s'"
      unfolding st using l(1) mm fl c1 ps by (intro exI [of _ "(if passed r1 then ret else -1, rs'[i := r1], c1)"]) simp
  qed (use assms(2) in simp_all)
  then obtain ret rs' c where "for_res [0..<length rs] (judge_step mode vals) (0, rs, cons) = Inr (ret, rs', c)"
    "?P (length rs) (ret, rs', c)" by auto
  then show ?thesis using assms(3) by (intro exI [of _ ret] exI [of _ rs']) (auto simp: in_set_conv_nth)
qed

lemma dec_digits_bound: "n < 10 ^ k \<Longrightarrow> 0 < k \<Longrightarrow> length (dec n) \<le> k"
proof (induction k arbitrary: n)
  case (Suc k)
  show ?case
  proof (cases "n < 10")
    case False
    then have "n div 10 < 10 ^ k" "0 < k" using Suc.prems by (auto simp: less_mult_imp_div_less mult.commute intro: Nat.gr0I)
    from Suc.IH [OF this] False show ?thesis by (subst dec.simps) simp
  qed (subst dec.simps, simp)
qed simp

lemma name_loop_ok:
  assumes "length rs \<le> 1000000"
  shows "\<exists>rs'. for_res [0..<length rs] name_step rs = Inr rs' \<and> length rs' = length rs
    \<and> (\<forall>i < length rs. \<exists>nm. rs' ! i = (rs ! i)\<lparr>tname := nm\<rparr>)"
proof -
  let ?P = "\<lambda>k rs'. length rs' = length rs \<and> (\<forall>i < length rs. \<exists>nm. rs' ! i = (rs ! i)\<lparr>tname := nm\<rparr>)"
  show ?thesis
  proof (rule for_res_inv [where P = ?P])
    have "rs ! i = (rs ! i)\<lparr>tname := tname (rs ! i)\<rparr>" for i by simp
    then show "?P 0 rs" by blast
  next
    fix i rs' assume i: "i < length rs" "?P i rs'"
    have "length (dec i) \<le> 6" using i(1) assms by (intro dec_digits_bound) simp_all
    then obtain nm where "name_step i rs' = Inr (rs'[i := (rs' ! i)\<lparr>tname := nm\<rparr>])"
      using i by (simp add: name_step_def guard_res_def aread_ok awrite_ok set_test_result_name_def)
    moreover have "?P (Suc i) (rs'[i := (rs' ! i)\<lparr>tname := nm\<rparr>])"
    proof (intro conjI allI impI)
      fix j assume "j < length rs"
      then obtain nm' where "rs' ! j = (rs ! j)\<lparr>tname := nm'\<rparr>" using i(2) by blast
      then show "\<exists>nm'. rs'[i := (rs' ! i)\<lparr>tname := nm\<rparr>] ! j = (rs ! j)\<lparr>tname := nm'\<rparr>"
        using \<open>j < length rs\<close> i(2) by (cases "j = i") (auto simp: nth_list_update)
    qed (use i(2) in simp)
    ultimately show "\<exists>s'. name_step i rs' = Inr s' \<and> ?P (Suc i) s'" by blast
  qed simp
qed

text \<open>The medians fill the consolidated result.\<close>

lemma consolidated:
  assumes "\<forall>r \<in> set rs. filled lo b iters r" and "run_ok (int (length rs)) b" and "fresh (int (length rs)) cons"
  shows "\<exists>cons'. add_entries cons (map mediantime rs) = Inr cons' \<and> filled 0 b (int (length rs)) cons'"
proof -
  have m: "\<forall>t \<in> set (map mediantime rs). 0 \<le> t \<and> t \<le> b" using assms(1) measured_median(2,3) by (fastforce simp: filled_def)
  have ne: "map mediantime rs \<noteq> []" using assms(2) by (auto simp: run_ok_def)
  have ok: "times_ok b (map mediantime rs)" using m assms(2) by (simp add: times_ok_def run_ok_def)
  obtain cons' where c: "add_entries cons (map mediantime rs) = Inr cons'" "recorded cons' (map mediantime rs)"
    "summarised cons' (map mediantime rs)" "max_entries cons' = max_entries cons"
    using add_entries_full [of cons "map mediantime rs", OF _ _ ne ok] assms(3) by (auto simp: fresh_def)
  then have "measured 0 b (int (length rs)) cons' (map mediantime rs)" using m ne ok assms(3) by (simp add: measured_def fresh_def)
  with c(1) show ?thesis unfolding filled_def by blast
qed

lemma judge_all_ok:
  assumes "percent_ok mode vals" and "\<forall>r \<in> set (m_results st). filled lo b iters r" and "length (m_results st) = n" "n \<le> 1000000"
    and "run_ok (int n) b" "fresh (int n) (m_consolidator st)"
  shows "\<exists>rc st'. judge_all mode vals n st = Inr (rc, st') \<and> m_counter st' = m_counter st \<and> m_sub_iters st' = m_sub_iters st
    \<and> length (m_results st') = n \<and> (\<forall>r \<in> set (m_results st'). filled lo b iters r) \<and> filled 0 b (int n) (m_consolidator st')
    \<and> (rc = 0 \<and> (\<forall>r \<in> set (m_results st'). passed r) \<and> passed (m_consolidator st') \<or> rc = -1)"
proof -
  obtain c1 where c1: "add_entries (m_consolidator st) (map mediantime (m_results st)) = Inr c1" "filled 0 b (int n) c1"
    using consolidated [OF assms(2)] assms(3,5,6) by blast
  obtain ret rs1 where r1: "for_res [0..<n] (judge_step mode vals) (0, m_results st, m_consolidator st) = Inr (ret, rs1, c1)"
    "length rs1 = n" "\<forall>r \<in> set rs1. filled lo b iters r" "ret = 0 \<and> (\<forall>r \<in> set rs1. passed r) \<or> ret = -1"
    using judge_loop_ok [OF assms(1,2) c1(1)] assms(3) by blast
  obtain c2 where c2: "check_pass_criteria c1 mode vals 0 = Inr (if passed c2 then 0 else -1, c2)" "filled 0 b (int n) c2"
    using c1(2) check_pass_measured [OF _ assms(1)] unfolding filled_def by metis
  obtain rs2 where r2: "for_res [0..<n] name_step rs1 = Inr rs2" "length rs2 = n" "\<forall>i < n. \<exists>nm. rs2 ! i = (rs1 ! i)\<lparr>tname := nm\<rparr>"
    using name_loop_ok [of rs1] r1(2) assms(4) by auto
  have same: "(\<forall>r \<in> set rs2. filled lo b iters r) \<and> ((\<forall>r \<in> set rs1. passed r) \<longrightarrow> (\<forall>r \<in> set rs2. passed r))"
  proof -
    have "\<exists>r0 \<in> set rs1. \<exists>nm. r = r0\<lparr>tname := nm\<rparr>" if "r \<in> set rs2" for r
      using that r1(2) r2(2,3) by (metis in_set_conv_nth)
    then show ?thesis using r1(3) filled_fields(2) passed_name by metis
  qed
  show ?thesis
  proof (cases "ret = 0")
    case True
    have "judge_all mode vals n st = Inr (if passed c2 then 0 else -1, st\<lparr>m_results := rs2, m_consolidator := c2\<rparr>)"
      unfolding judge_all_def r1(1) using True by (simp add: c2(1) r2(1))
    with True c2(2) r1(4) r2(2) same show ?thesis by fastforce
  next
    case False
    then have "judge_all mode vals n st = Inr (-1, st\<lparr>m_results := rs2, m_consolidator := c1\<rparr>)"
      unfolding judge_all_def r1(1) by (simp add: r2(1))
    with c1(2) r2(2) same show ?thesis by fastforce
  qed
qed

section \<open>One attempt and the next\<close>

definition ready_state :: "int \<Rightarrow> nat \<Rightarrow> multi \<Rightarrow> bool" where
  "ready_state iters n st \<longleftrightarrow> m_counter st = 0 \<and> length (m_results st) = Suc n \<and> (\<forall>r \<in> set (m_results st). fresh iters r)
     \<and> fresh (int (Suc n)) (m_consolidator st)"

definition done_state :: "int \<Rightarrow> int \<Rightarrow> int \<Rightarrow> nat \<Rightarrow> multi \<Rightarrow> bool" where
  "done_state lo b iters n st \<longleftrightarrow> m_counter st = 0 \<and> length (m_results st) = Suc n \<and> (\<forall>r \<in> set (m_results st). filled lo b iters r)
     \<and> filled 0 b (int (Suc n)) (m_consolidator st)"

definition attempt_ok :: "mt_env \<Rightarrow> int \<Rightarrow> int \<Rightarrow> int \<Rightarrow> nat \<Rightarrow> nat \<Rightarrow> bool" where
  "attempt_ok m lo b iters n k \<longleftrightarrow> (\<forall>i \<le> n. clock_steps lo b (nat iters) (mt_clock m k i)) \<and> fair n (mt_sched m k)"

lemma attempt_ends:
  assumes "rand_ok (mt_rand m) (mt_rand_max m)" "sched_ok (mt_lib m)" "percent_ok mode vals" "run_ok iters b" "run_ok (int (Suc n)) b" "Suc n \<le> 1000000"
    and "attempt_ok m lo b iters n k" "\<not> missed_signal n (mt_sched m k)" and "ready_state iters n st"
  shows "\<exists>rc st'. run_multi_thread_test m self mode vals iters n k st = Some (Inr (rc, st')) \<and> done_state lo b iters n st'
    \<and> m_sub_iters st' = m_sub_iters st \<and> (rc = 0 \<and> (\<forall>r \<in> set (m_results st'). passed r) \<and> passed (m_consolidator st') \<or> rc = -1)"
proof -
  let ?rs = "number_results (m_results st)" and ?sc = "\<lparr>sc_policy = SCHED_FIFO, sc_priority = se_max (mt_lib m) - 20\<rparr>"
  have st: "m_counter st = 0" "length ?rs = Suc n" "fresh (int (Suc n)) (m_consolidator st)"
    using assms(9) by (simp_all add: ready_state_def number_results_nth)
  have "fresh iters (?rs ! i)" if "i < Suc n" for i
    using assms(9) that by (simp add: ready_state_def number_results_nth)
  then have fr: "\<forall>r \<in> set ?rs. fresh iters r" using st(2) by (metis in_set_conv_nth)
  have cl: "clock_steps lo b (nat iters) (mt_clock m k i)" if "i \<le> n" for i using assms(7) that by (simp add: attempt_ok_def)
  have me: "meet n (mt_sched m k) 0 = Some (Inr 0)" using assms(7,8) by (simp add: meet_ok attempt_ok_def)
  obtain rc rs1 where w1: "for_run [0..<n] (work_step m iters (m_sub_iters st) k) (0, ?rs) = Some (Inr (rc, rs1))" "length rs1 = Suc n"
    "\<forall>i < Suc n. if i < n then filled lo b iters (rs1 ! i) else fresh iters (rs1 ! i)"
    using work_all_ok [where n = n and k = k and q = "m_sub_iters st" and lo = lo, OF assms(1) _ assms(4) _ fr] cl st(2) by auto
  obtain r where w2: "work_step m iters (m_sub_iters st) k n (0, rs1) = Some (Inr (0, rs1[n := r]))" "filled lo b iters r"
    using work_step_ok [OF assms(1) cl [OF order_refl] assms(4), of rs1 "m_sub_iters st" 0] w1(2,3) by auto
  have "filled lo b iters (rs1[n := r] ! i)" if "i < Suc n" for i using w1(2,3) w2(2) that by (auto simp: nth_list_update less_Suc_eq)
  then have fl: "\<forall>r \<in> set (rs1[n := r]). filled lo b iters r" using w1(2) by (metis in_set_conv_nth length_list_update)
  obtain ab where ab: "thread_begins m ?sc = Inr ab" using thread_begins_ok [OF assms(1,2)] by blast
  let ?st = "st\<lparr>m_results := rs1[n := r], m_counter := 0\<rparr>"
  obtain rc' st' where j: "judge_all mode vals (Suc n) ?st = Inr (rc', st')" "m_counter st' = 0" "m_sub_iters st' = m_sub_iters st"
    "length (m_results st') = Suc n" "\<forall>r \<in> set (m_results st'). filled lo b iters r" "filled 0 b (int (Suc n)) (m_consolidator st')"
    "rc' = 0 \<and> (\<forall>r \<in> set (m_results st'). passed r) \<and> passed (m_consolidator st') \<or> rc' = -1"
    using judge_all_ok [of mode vals ?st lo b iters "Suc n"] assms(3,5,6) fl w1(2) st(3) by auto
  have la: "last_thread m (\<lambda>i. Some ?sc) iters k n (st\<lparr>m_results := rs1, m_counter := 0\<rparr>) = Some (Inr ?st)"
    using ab w2(1) by (simp add: last_thread_def)
  have "run_multi_thread_test m self mode vals iters n k st = Some (judge_all mode vals (Suc n) ?st)"
    using la me w1(1) by (simp add: run_multi_thread_test_def create_ok [OF assms(2)] begin_all_ok [OF assms(1,2)] st(1))
  with j show ?thesis by (intro exI [of _ rc'] exI [of _ st']) (simp add: done_state_def)
qed

lemma free_chains_filled:
  assumes "length rs = n"
  shows "free_chains rs n 0 = Inr (map (\<lambda>r. r\<lparr>num_entries := 0\<rparr>) rs)"
proof -
  let ?e = "\<lambda>r. r\<lparr>num_entries := 0\<rparr>"
  let ?P = "\<lambda>i rs'. rs' = map ?e (take i rs) @ drop i rs"
  have "\<exists>rs'. for_res [0..<n] (\<lambda>i rs. bind_res (aread rs (int i)) (\<lambda>r. bind_res (free_chain r 0) (\<lambda>r. awrite rs (int i) r))) rs = Inr rs'
      \<and> ?P n rs'"
  proof (rule for_res_inv [where P = ?P])
    fix i rs' assume i: "i < n" "?P i rs'"
    then have "rs' ! i = rs ! i" "i < length rs'" using assms by (simp_all add: nth_append)
    moreover have "rs'[i := ?e (rs ! i)] = map ?e (take (Suc i) rs) @ drop (Suc i) rs"
      using i assms by (simp add: list_update_append take_Suc_conv_app_nth Cons_nth_drop_Suc [symmetric])
    ultimately show "\<exists>s'. bind_res (aread rs' (int i)) (\<lambda>r. bind_res (free_chain r 0) (\<lambda>r. awrite rs' (int i) r)) = Inr s' \<and> ?P (Suc i) s'"
      by (simp add: aread_ok awrite_ok free_chain_def)
  qed simp_all
  with assms show ?thesis by (simp add: free_chains_def synch_first_def)
qed

definition emptied :: "multi \<Rightarrow> multi" where
  "emptied st = st\<lparr>m_results := map (\<lambda>r. r\<lparr>num_entries := 0\<rparr>) (m_results st), m_consolidator := (m_consolidator st)\<lparr>num_entries := 0\<rparr>\<rparr>"

lemma emptied_ready: "done_state lo b iters n st \<Longrightarrow> ready_state iters n (emptied st\<lparr>m_sub_iters := q\<rparr>)"
  using filled_empties by (fastforce simp: done_state_def ready_state_def emptied_def)

lemma attempts_end:
  assumes "rand_ok (mt_rand m) (mt_rand_max m)" "sched_ok (mt_lib m)" "percent_ok mode vals" "run_ok iters b" "run_ok (int (Suc n)) b" "Suc n \<le> 1000000"
    and "\<And>k. k \<in> set ks \<Longrightarrow> attempt_ok m lo b iters n k \<and> \<not> missed_signal n (mt_sched m k)"
    and "ready_state iters n st" "ks \<noteq> []" and "0 \<le> m_sub_iters st" "m_sub_iters st * 2 ^ length ks \<le> INT_MAX"
  shows "\<exists>ok st0 st'. multi_attempts (run_multi_thread_test m self mode vals iters n) (Suc n) ks st = Some (Inr (ok, st'))
    \<and> done_state lo b iters n st0 \<and> (if ok then st' = st0 \<and> (\<forall>r \<in> set (m_results st0). passed r) \<and> passed (m_consolidator st0)
      else \<exists>q. st' = emptied st0\<lparr>m_sub_iters := q\<rparr>)"
  using assms(7-)
proof (induction ks arbitrary: st)
  case (Cons k ks)
  obtain rc st1 where a: "run_multi_thread_test m self mode vals iters n k st = Some (Inr (rc, st1))" "done_state lo b iters n st1"
    "m_sub_iters st1 = m_sub_iters st" "rc = 0 \<and> (\<forall>r \<in> set (m_results st1). passed r) \<and> passed (m_consolidator st1) \<or> rc = -1"
    using attempt_ends [OF assms(1-6), of lo k st self] Cons.prems(1,2) by auto
  show ?case
  proof (cases "rc = -1")
    case False
    with a show ?thesis by (intro exI [of _ True] exI [of _ st1]) simp
  next
    case True
    let ?q = "m_sub_iters st * 2" and ?st = "emptied st1\<lparr>m_sub_iters := m_sub_iters st * 2\<rparr>"
    have "?q * 1 \<le> ?q * 2 ^ length ks" using Cons.prems(4) by (intro mult_left_mono) simp_all
    then have q: "0 \<le> ?q" "?q * 2 ^ length ks \<le> INT_MAX" "is_int ?q" using Cons.prems(4,5) unfolding is_int_def by (simp_all add: algebra_simps)
    have "length (m_results st1) = Suc n" using a(2) by (simp add: done_state_def)
    from free_chains_filled [OF this] have next_st: "multi_attempts (run_multi_thread_test m self mode vals iters n) (Suc n) (k # ks) st
        = multi_attempts (run_multi_thread_test m self mode vals iters n) (Suc n) ks ?st"
      using a(1,3) True q(3) by (simp add: chk_int_ok free_chain_def emptied_def)
    show ?thesis
    proof (cases "ks = []")
      case True
      then have "multi_attempts (run_multi_thread_test m self mode vals iters n) (Suc n) (k # ks) st = Some (Inr (False, ?st))"
        using next_st by simp
      with a(2) show ?thesis
        by (intro exI [of _ False] exI [of _ st1] exI [of _ ?st] conjI) (auto simp del: multi_attempts.simps)
    next
      case False
      have "m_sub_iters ?st = ?q" by simp
      then show ?thesis unfolding next_st
        using Cons.IH [of ?st] Cons.prems(1) emptied_ready [OF a(2)] q False by (metis list.set_intros(2))
    qed
  qed
qed simp

end
