(* ===== verification/Multi_Thread_Result.thy ===== *)
theory Multi_Thread_Result
  imports Multi_Thread
begin

text \<open>
  What the multi thread test enters: the scores over the results of all threads, the sample run
  that precedes the attempts, and the test as a whole.
\<close>

section \<open>The scores\<close>

lemma median_of_medians_ok:
  assumes "rs \<noteq> []" and "\<forall>r \<in> set rs. 0 \<le> mediantime r \<and> mediantime r \<le> 3037000499"
  shows "\<exists>x \<ge> 0. median_of_medians rs = Inr (Fin x)"
proof -
  let ?n = "length rs" and ?ms = "map (\<lambda>r. of_int (mediantime r) :: rat) rs"
  have ex: "of_ll (mediantime r) = Fin (of_int (mediantime r))" if "r \<in> set rs" for r
    using assms(2) that exact_int [of "mediantime r"] by (auto simp: of_ll_def)
  then have meds: "map (\<lambda>r. of_ll (mediantime r)) rs = map Fin ?ms" by simp
  then have srt: "exchange_sort ?n (map (\<lambda>r. of_ll (mediantime r)) rs) = Inr (map Fin (sort ?ms))"
    unfolding meds using exchange_sort_sorts [of ?ms] by (simp only: length_map)
  have el: "\<exists>k. sort ?ms ! i = of_int k \<and> 0 \<le> k \<and> k \<le> 3037000499" if "i < ?n" for i
  proof -
    have "sort ?ms ! i \<in> set ?ms" using that sort_nth_mem [of i ?ms] by simp
    then show ?thesis using assms(2) by auto
  qed
  have idx: "int ?n sdiv 2 = int (?n div 2)" by (simp add: sdiv_nonneg_eq zdiv_int)
  have rd: "aread (map Fin (sort ?ms)) (int i) = Inr (Fin (sort ?ms ! i))" if "i < ?n" for i using that by (simp add: aread_ok)
  have pos: "0 < ?n" using assms(1) by simp
  show ?thesis
  proof (cases "even ?n")
    case True
    then obtain j where "?n = 2 * j" by blast
    then have h: "0 < ?n div 2" "?n div 2 < ?n" using pos by simp_all
    then have h1: "int ?n sdiv 2 - 1 = int (?n div 2 - 1)" "?n div 2 - 1 < ?n" using idx by simp_all
    obtain j k where jk: "sort ?ms ! (?n div 2) = of_int j" "0 \<le> j" "j \<le> 3037000499"
      "sort ?ms ! (?n div 2 - 1) = of_int k" "0 \<le> k" "k \<le> 3037000499" using el [OF h(2)] el [OF h1(2)] by blast
    have "rnd64 (of_int j + of_int k) = Fin (of_int (j + k))" using jk exact_int [of "j + k"] by simp
    then have "(Fin (of_int j) + Fin (of_int k)) / Fin 2 = Fin (of_int (j + k) / 2)"
      using half_rnd64 [of "j + k"] jk by simp
    moreover have "int ?n smod 2 = 0" using True by (simp add: smod_nonneg_eq)
    moreover have "aread (map Fin (sort ?ms)) (int ?n sdiv 2) = Inr (Fin (of_int j))" using rd [OF h(2)] unfolding idx jk(1) .
    moreover have "aread (map Fin (sort ?ms)) (int ?n sdiv 2 - 1) = Inr (Fin (of_int k))" using rd [OF h1(2)] unfolding h1(1) jk(4) .
    ultimately have "median_of_medians rs = Inr (Fin (of_int (j + k) / 2))"
      unfolding median_of_medians_def srt Let_def by (simp only: bind_res_Inr if_True simp_thms)
    moreover have "(0 :: rat) \<le> of_int (j + k) / 2" using jk by simp
    ultimately show ?thesis by blast
  next
    case False
    then have "int ?n mod 2 = 1" by presburger
    then have "int ?n smod 2 = 1" by (simp add: smod_nonneg_eq)
    moreover have h: "?n div 2 < ?n" using pos by simp
    moreover obtain k where "sort ?ms ! (?n div 2) = of_int k" "0 \<le> k" using el [OF h] by blast
    moreover have "aread (map Fin (sort ?ms)) (int ?n sdiv 2) = Inr (Fin (sort ?ms ! (?n div 2)))" using rd [OF h] unfolding idx .
    ultimately show ?thesis by (simp add: median_of_medians_def srt Let_def del: aread_Inr)
  qed
qed

lemma combined_many:
  assumes "rs \<noteq> []" "\<forall>r \<in> set rs. 0 \<le> mediantime r \<and> mediantime r \<le> 3037000499" and "tvalues (last rs) \<noteq> []" and "Fin 0 < reference"
    and "n = nat (num_entries (hd rs))" "n \<le> length (tvalues (hd rs))" "\<forall>v \<in> set (take n (tvalues (hd rs))). 0 \<le> v \<and> is_ll v" "int n \<le> INT_MAX"
  shows "\<exists>s. generate_combined_score rs reference = Inr [s] \<and> score_result s = rs \<and> (num_entries (hd rs) = 0 \<longrightarrow> consistency_score s = NaN)"
proof -
  obtain x where x: "0 \<le> x" "median_of_medians rs = Inr (Fin x)" using median_of_medians_ok [OF assms(1,2)] by blast
  obtain r rs' where rs: "rs = r # rs'" using assms(1) by (cases rs) auto
  have v0: "vget rs 0 = Inr (hd rs)" "vget rs (int (length rs) - 1) = Inr (last rs)"
    by (simp_all add: vget_def rs last_conv_nth nat_diff_distrib)
  have a0: "aread (tvalues (last rs)) 0 = Inr (tvalues (last rs) ! 0)" using assms(3) by (simp add: aread_def)
  define s0 where "s0 = (let t0 = scale * Fin 1 / of_ll (tvalues (last rs) ! 0) in
    \<lparr>sum_min = t0, sum_max = t0, sum_throughput = Fin 0, sum_combined = Fin 0, sum_consistency = Fin 0\<rparr>)"
  have "sum_consistency s0 = Fin 0" by (simp add: s0_def Let_def)
  from score_loop_ok [OF assms(6,7) x(1) assms(8) this] obtain s' where
    s': "for_res [0..<n] (score_step (tvalues (hd rs)) (Fin x)) s0 = Inr s'" by blast
  have "n = 0 \<Longrightarrow> s' = s0" using s' by simp
  then show ?thesis using s' assms(4,5)
    by (auto simp: generate_combined_score_def x(2) v0 a0 Let_def guard_res_def s0_def f64_ops finf_def simp del: aread_Inr)
qed

lemma multi_scores_ok:
  assumes "length rs = Suc n" "\<forall>r \<in> set rs. 0 \<le> mediantime r \<and> mediantime r \<le> 3037000499" and "tvalues (last rs) \<noteq> []"
    and "Fin 0 < bt_reference_score bmtest" and "k = nat (num_entries (hd rs))" "k \<le> length (tvalues (hd rs))"
    "\<forall>v \<in> set (take k (tvalues (hd rs))). 0 \<le> v \<and> is_ll v" "int k \<le> INT_MAX"
    and "0 \<le> mediantime cons" "mediantime cons \<le> 3037000499" "n \<le> 1000000"
  shows "\<exists>s. get_multi_thread_scores pw rs cons (int (Suc n)) (int n) bmtest = Inr [s] \<and> score_result s = rs
    \<and> (num_entries (hd rs) = 0 \<longrightarrow> consistency_score s = NaN)"
proof -
  have "rs \<noteq> []" using assms(1) by auto
  then obtain s where s: "generate_combined_score rs (bt_reference_score bmtest) = Inr [s]" "score_result s = rs"
    "num_entries (hd rs) = 0 \<longrightarrow> consistency_score s = NaN" using combined_many [OF _ assms(2-8)] by blast
  let ?step = "\<lambda>i (product, sum). bind_res (aread rs (int i)) (\<lambda>r.
    Inr (product * pw (of_ll (mediantime r)) (Fin 1 / of_ll (int n)), sum + of_ll (mediantime r)))"
  have "\<exists>ps. for_res [0..<n] ?step (Fin 1, Fin 0) = Inr ps \<and> True"
    by (rule for_res_inv [where P = "\<lambda>_ _. True"]) (use assms(1) in \<open>auto simp: aread_ok\<close>)
  then obtain p q where pq: "for_res [0..<n] ?step (Fin 1, Fin 0) = Inr (p, q)" by auto
  have "int n * mediantime cons \<le> 1000000 * 3037000499" using assms(9-11) by (intro mult_mono) simp_all
  moreover have "0 \<le> int n * mediantime cons" using assms(9) by simp
  ultimately have "is_ll (int n * mediantime cons)" by (simp add: is_ll_def)
  then show ?thesis using s pq
    by (simp add: get_multi_thread_scores_def vget_def chk_ll_ok Let_def)
qed

section \<open>The sample run\<close>

lemma iterate_keeps:
  assumes "\<And>s rc s'. step s = Some (Inr (rc, s')) \<Longrightarrow> f s' = f s"
  shows "iterate n step s = Some (Inr (rc, s')) \<Longrightarrow> f s' = f s"
proof (induction n arbitrary: s)
  case (Suc n)
  then show ?case using assms
    by (auto simp: bind_run_def split: option.splits sum.splits prod.splits if_splits)
qed simp

lemma add_entry_trc:
  assumes "add_entry r t 0 = Inr r'"
  shows "trc r' = trc r"
proof -
  have n: "trc (note_extremes q t) = trc q" for q by (simp add: note_extremes_def Let_def)
  have c: "compute_std_time q 0 = Inr q' \<Longrightarrow> trc q' = trc q" for q q'
    by (auto simp: compute_std_time_def bind_res_Inr_iff Let_def)
  show ?thesis using assms n c
    by (fastforce simp: add_entry_def bind_res_Inr_iff Let_def split: if_splits)
qed

lemma kernel_step_trc: "kernel_step work s = Some (Inr (rc, s')) \<Longrightarrow> trc (fst s') = trc (fst s)"
  by (cases work) (auto simp: kernel_step_def bind_res_Inr_iff dest: add_entry_trc split: prod.splits option.splits)

text \<open>When an iteration of the kernel is longer than the resolution of the clock, one pass is enough.\<close>

lemma sample_run_ok:
  assumes "rand_ok (mt_rand m) (mt_rand_max m)" and "run_ok iters b" "clock_steps lo b (nat iters) w" and "clock < of_ll lo"
  shows "\<exists>r w'. sample_run m iters clock 2 (new_result iters iters, w) = Some (Inr (2, r, w')) \<and> trc r = 0"
proof -
  obtain a b' where f: "fill_both m = Inr (a, b')" "is_mat 10 10000 a" "is_mat 10 10000 b'" using fill_both_ok [OF assms(1)] .
  obtain c where c: "repeat_kernel (sample_run_kernel a b') 2 = Inr c" using repeat_kernel_ok kernels_ok(2) [OF f(2,3)] by blast
  obtain ts r w' where r: "iterate (nat iters) (kernel_step (repeat_kernel (sample_run_kernel a b') 2)) (new_result iters iters, w)
      = Some (Inr (0, r, w'))" "measured lo b iters r ts"
    using iterate_run [OF kernel_step_records [OF c] _ assms(2) conjunct1 conjunct2, OF _ new_result_ready [OF assms(2)] new_result_ready [OF assms(2)],
        of lo 0 w] assms(3) by auto
  have "trc (fst (r, w')) = trc (fst (new_result iters iters, w))"
    by (rule iterate_keeps [OF kernel_step_trc r(1)])
  moreover have "clock < of_ll (mediantime r)"
    using f64_less_le_trans [OF assms(4) of_ll_mono] measured_median(1) [OF r(2)] by blast
  ultimately show ?thesis using f(1) r(1)
    by (intro exI [of _ r] exI [of _ w']) (simp add: sample_run_def sample_loop.simps new_result_def)
qed

section \<open>Properties\<close>

text \<open>The entry that the test leaves in its bucket.\<close>

definition multi_entry :: "int \<Rightarrow> int \<Rightarrow> int \<Rightarrow> nat \<Rightarrow> final_bm_test_result \<Rightarrow> bool" where
  "multi_entry lo b iters n f \<longleftrightarrow> (\<exists>s. fb_score f = [s] \<and> length (score_result s) = Suc n
     \<and> (test_pass f = 1 \<and> (\<forall>r \<in> set (score_result s). filled lo b iters r \<and> passed r)
      \<or> test_pass f = 0 \<and> (\<forall>r \<in> set (score_result s). num_entries r = 0) \<and> consistency_score s = NaN))"

lemma done_medians:
  assumes "done_state lo b iters n st"
  shows "\<forall>r \<in> set (m_results st). 0 \<le> mediantime r \<and> mediantime r \<le> 3037000499"
    and "0 \<le> mediantime (m_consolidator st)" "mediantime (m_consolidator st) \<le> 3037000499"
proof -
  have f: "0 \<le> mediantime r \<and> mediantime r \<le> 3037000499" if "filled lo' b iters' r" for lo' iters' r
    using that measured_median(2-4) unfolding filled_def by (meson order_trans)
  show "\<forall>r \<in> set (m_results st). 0 \<le> mediantime r \<and> mediantime r \<le> 3037000499"
    using assms f unfolding done_state_def by blast
  show "0 \<le> mediantime (m_consolidator st)" "mediantime (m_consolidator st) \<le> 3037000499"
    using assms f unfolding done_state_def by blast+
qed

lemma filled_values:
  assumes "filled lo b iters r"
  shows "tvalues r \<noteq> []" "nat (num_entries r) \<le> length (tvalues r)" "int (nat (num_entries r)) \<le> INT_MAX"
    "\<forall>v \<in> set (take (nat (num_entries r)) (tvalues r)). 0 \<le> v \<and> is_ll v"
proof -
  obtain ts where m: "recorded r ts" "ts \<noteq> []" "times_ok b ts" using assms by (auto simp: filled_def measured_def)
  have n: "num_entries r = int (length ts)" "take (length ts) (tvalues r) = ts" "length ts \<le> length (tvalues r)" "int (length ts) \<le> INT_MAX"
    using m(1) by (auto simp: recorded_def is_int_def)
  show "tvalues r \<noteq> []" using n(2) m(2) by auto
  show "nat (num_entries r) \<le> length (tvalues r)" "int (nat (num_entries r)) \<le> INT_MAX" using n by simp_all
  show "\<forall>v \<in> set (take (nat (num_entries r)) (tvalues r)). 0 \<le> v \<and> is_ll v"
    using n(1,2) times_ok_mem [OF m(3)] times_ok_bound [OF m(3,2)] by (fastforce simp: is_ll_def)
qed

lemma multi_scores_done:
  assumes "done_state lo b iters n st" "n \<le> 1000000" "Fin 0 < bt_reference_score bmtest"
  shows "\<exists>s. get_multi_thread_scores pw (m_results st) (m_consolidator st) (int (Suc n)) (int n) bmtest = Inr [s] \<and> score_result s = m_results st"
    and "\<exists>s. get_multi_thread_scores pw (m_results (emptied st)) (m_consolidator (emptied st)) (int (Suc n)) (int n) bmtest = Inr [s]
      \<and> score_result s = m_results (emptied st) \<and> consistency_score s = NaN"
proof -
  have len: "length (m_results st) = Suc n" and fl: "\<forall>r \<in> set (m_results st). filled lo b iters r"
    using assms(1) by (simp_all add: done_state_def)
  then have ne: "m_results st \<noteq> []" by auto
  then have h: "filled lo b iters (hd (m_results st))" "filled lo b iters (last (m_results st))" using fl by simp_all
  show "\<exists>s. get_multi_thread_scores pw (m_results st) (m_consolidator st) (int (Suc n)) (int n) bmtest = Inr [s] \<and> score_result s = m_results st"
    using multi_scores_ok [OF len done_medians(1) [OF assms(1)] filled_values(1) [OF h(2)] assms(3) refl filled_values(2) [OF h(1)]
        filled_values(4) [OF h(1)] filled_values(3) [OF h(1)] done_medians(2,3) [OF assms(1)] assms(2)] by blast
  have "hd (m_results (emptied st)) = (hd (m_results st))\<lparr>num_entries := 0\<rparr>" "last (m_results (emptied st)) = (last (m_results st))\<lparr>num_entries := 0\<rparr>"
    using ne by (simp_all add: emptied_def hd_map last_map)
  then have e: "num_entries (hd (m_results (emptied st))) = 0" "tvalues (last (m_results (emptied st))) \<noteq> []"
    using filled_values(1) [OF h(2)] by simp_all
  have "\<forall>r \<in> set (m_results (emptied st)). 0 \<le> mediantime r \<and> mediantime r \<le> 3037000499"
    using done_medians(1) [OF assms(1)] by (auto simp: emptied_def)
  moreover have "length (m_results (emptied st)) = Suc n" using len by (simp add: emptied_def)
  moreover have "0 \<le> mediantime (m_consolidator (emptied st))" "mediantime (m_consolidator (emptied st)) \<le> 3037000499"
    using done_medians(2,3) [OF assms(1)] by (simp_all add: emptied_def)
  ultimately show "\<exists>s. get_multi_thread_scores pw (m_results (emptied st)) (m_consolidator (emptied st)) (int (Suc n)) (int n) bmtest = Inr [s]
      \<and> score_result s = m_results (emptied st) \<and> consistency_score s = NaN"
    using multi_scores_ok [of "m_results (emptied st)" n bmtest 0 "m_consolidator (emptied st)" pw] e assms(2,3) by simp
qed

text \<open>The attempts of the whole test, started from new results, and the scores after them.\<close>

definition scored :: "int \<Rightarrow> int \<Rightarrow> int \<Rightarrow> nat \<Rightarrow> bool \<Rightarrow> test_score \<Rightarrow> bool" where
  "scored lo b iters n ok sc \<longleftrightarrow> length (score_result sc) = Suc n \<and> (if ok then \<forall>r \<in> set (score_result sc). filled lo b iters r \<and> passed r
     else (\<forall>r \<in> set (score_result sc). num_entries r = 0) \<and> consistency_score sc = NaN)"

lemma all_attempts_end:
  assumes "rand_ok (mt_rand m) (mt_rand_max m)" "sched_ok (mt_lib m)" "percent_ok mode vals" "run_ok iters b" "run_ok (int (Suc n)) b" "Suc n \<le> 1000000"
    and "1 \<le> thr" "thr \<le> 29" and "\<And>k. k < nat thr \<Longrightarrow> attempt_ok m lo b iters n k \<and> \<not> missed_signal n (mt_sched m k)"
  shows "\<exists>ok st0 st'. multi_attempts (run_multi_thread_test m self mode vals iters n) (Suc n) [0..<nat thr]
      \<lparr>m_sub_iters = 2, m_counter = 0, m_results = replicate (Suc n) (new_result iters iters), m_consolidator = new_result iters (int (Suc n))\<rparr> = Some (Inr (ok, st'))
    \<and> done_state lo b iters n st0 \<and> (if ok then st' = st0 \<and> (\<forall>r \<in> set (m_results st0). passed r) \<and> passed (m_consolidator st0)
      else \<exists>q. st' = emptied st0\<lparr>m_sub_iters := q\<rparr>)"
proof -
  let ?st = "\<lparr>m_sub_iters = 2, m_counter = 0, m_results = replicate (Suc n) (new_result iters iters), m_consolidator = new_result iters (int (Suc n))\<rparr>"
  have "fresh (int (Suc n)) (new_result iters (int (Suc n)))" "fresh iters (new_result iters iters)"
    using new_result_recorded [of "int (Suc n)" iters] new_result_ready [OF assms(4)] assms(4,6)
    by (simp_all add: fresh_def new_result_def run_ok_def is_int_def)
  then have rdy: "ready_state iters n ?st" by (simp add: ready_state_def)
  have "(2::int) ^ nat thr \<le> 2 ^ 29" using assms(8) by (intro power_increasing) simp_all
  then have q: "0 \<le> m_sub_iters ?st" "m_sub_iters ?st * 2 ^ length [0..<nat thr] \<le> INT_MAX" by simp_all
  have ks: "attempt_ok m lo b iters n k \<and> \<not> missed_signal n (mt_sched m k)" if "k \<in> set [0..<nat thr]" for k
    using that assms(9) by simp
  have ne: "[0..<nat thr] \<noteq> []" using assms(7) by simp
  show ?thesis using attempts_end [where lo = lo and self = self, OF assms(1-6) ks rdy ne q] by blast
qed

lemma attempts_scored:
  assumes "done_state lo b iters n st0" and "n \<le> 1000000" and "Fin 0 < bt_reference_score bmtest"
    and "if ok then st' = st0 \<and> (\<forall>r \<in> set (m_results st0). passed r) \<and> passed (m_consolidator st0) else \<exists>q. st' = emptied st0\<lparr>m_sub_iters := q\<rparr>"
  shows "\<exists>sc. get_multi_thread_scores pw (m_results st') (m_consolidator st') (int (Suc n)) (int n) bmtest = Inr [sc] \<and> scored lo b iters n ok sc"
proof (cases ok)
  case True
  then show ?thesis using multi_scores_done(1) [OF assms(1-3), of pw] assms(1,4) by (auto simp: done_state_def scored_def)
next
  case False
  then obtain q where "st' = emptied st0\<lparr>m_sub_iters := q\<rparr>" using assms(4) by auto
  then have "m_results st' = m_results (emptied st0)" "m_consolidator st' = m_consolidator (emptied st0)" by simp_all
  moreover have "length (m_results (emptied st0)) = Suc n" "\<forall>r \<in> set (m_results (emptied st0)). num_entries r = 0"
    using assms(1) by (auto simp: emptied_def done_state_def)
  ultimately show ?thesis using multi_scores_done(2) [OF assms(1-3), of pw] False by (auto simp: scored_def)
qed

text \<open>
  C15: On a machine with several processors and real-time scheduling, under fair schedules,
  \<^verbatim>\<open>multi_thread\<close> returns \<^verbatim>\<open>SUCCESS\<close> within \<^verbatim>\<open>_threshold\<close> attempts, or in some attempt the parent has
  missed the signal of the barrier.  When an attempt passes, the entry holds one complete result
  for each thread, each of which met the pass criteria.  When none does, the results have been
  emptied before the scores are computed: the entry says that the test failed, and its
  consistency score is not a number.
\<close>

theorem multi_thread_ends:
  assumes "2 \<le> se_cpus (mt_lib m)" "se_cpus (mt_lib m) < 1000000" "sched_ok (mt_lib m)" "rand_ok (mt_rand m) (mt_rand_max m)"
    and "table_ok (te_table env)" "get_min_exec_time (te_table env) = Inr clock" "percent_ok (rt_mode args) (te_vals env)"
    and "run_ok (bt_iterations bmtest) b" "run_ok (se_cpus (mt_lib m) + 1) b" "Fin 0 < bt_reference_score bmtest"
    and "1 \<le> bt_threshold bmtest" "bt_threshold bmtest \<le> 29"
    and "clock < of_ll lo" "clock_steps lo b (nat (bt_iterations bmtest)) (te_world env)"
    and "\<And>k. k < nat (bt_threshold bmtest) \<Longrightarrow> attempt_ok m lo b (bt_iterations bmtest) (nat (se_cpus (mt_lib m))) k"
  shows "(\<exists>k < nat (bt_threshold bmtest). missed_signal (nat (se_cpus (mt_lib m))) (mt_sched m k))
    \<or> (\<exists>f env'. multi_thread pw m self args bmtest env = Some (Inr (0, env')) \<and> table_ok (te_table env') \<and> te_vals env' = te_vals env
      \<and> te_table env' ! bucket_no MULTI_THREAD_TEST = \<lparr>fbmt = Some f, bm_test = Some bmtest, valid = 1\<rparr>
      \<and> multi_entry lo b (bt_iterations bmtest) (nat (se_cpus (mt_lib m))) f)"
proof (cases "\<exists>k < nat (bt_threshold bmtest). missed_signal (nat (se_cpus (mt_lib m))) (mt_sched m k)")
  case False
  let ?it = "bt_iterations bmtest" and ?c = "se_cpus (mt_lib m)" and ?n = "nat (se_cpus (mt_lib m))" and ?thr = "nat (bt_threshold bmtest)"
  have c: "int ?n = ?c" "int (Suc ?n) = ?c + 1" "nat (?c + 1) = Suc ?n" "is_int (?c + 1)" "?c \<noteq> 1"
    using assms(1,2) by (simp_all add: is_int_def)
  have it: "0 \<le> ?it" "is_int ?it" using assms(8) by (simp_all add: run_ok_def)
  obtain r w where s: "sample_run m ?it clock 2 (new_result ?it ?it, te_world env) = Some (Inr (2, r, w))" "trc r = 0"
    using sample_run_ok [OF assms(4,8,14,13)] by blast
  have ks: "attempt_ok m lo b ?it ?n k \<and> \<not> missed_signal ?n (mt_sched m k)" if "k < ?thr" for k
    using that assms(15) False by simp
  have ro: "run_ok (int (Suc ?n)) b" and nn: "Suc ?n \<le> 1000000" using assms(2,9) unfolding c(2) by simp_all
  obtain ok st0 st' where a: "multi_attempts (run_multi_thread_test m self (rt_mode args) (te_vals env) ?it ?n) (Suc ?n) [0..<?thr]
      \<lparr>m_sub_iters = 2, m_counter = 0, m_results = replicate (Suc ?n) (new_result ?it ?it), m_consolidator = new_result ?it (?c + 1)\<rparr> = Some (Inr (ok, st'))"
    "done_state lo b ?it ?n st0" "if ok then st' = st0 \<and> (\<forall>r \<in> set (m_results st0). passed r) \<and> passed (m_consolidator st0)
      else \<exists>q. st' = emptied st0\<lparr>m_sub_iters := q\<rparr>"
    using all_attempts_end [where lo = lo and self = self, OF assms(4,3,7,8) ro nn assms(11,12) ks] unfolding c(2) by blast
  have n: "?n \<le> 1000000" using assms(2) by simp
  obtain sc where sc: "get_multi_thread_scores pw (m_results st') (m_consolidator st') (?c + 1) ?c bmtest = Inr [sc]" "scored lo b ?it ?n ok sc"
    using attempts_scored [OF a(2) n assms(10) a(3), of pw] unfolding c(1,2) by blast
  define f where "f = (create_final_bm_test_result1 pw [sc])\<lparr>test_pass := if ok then 1 else 0\<rparr>"
  obtain t' where t': "enter (te_table env) f MULTI_THREAD_TEST bmtest = Inr t'" "table_ok t'" using enter_ok [OF assms(5)] by blast
  have "multi_thread pw m self args bmtest env = Some (Inr (0, env\<lparr>te_table := t', te_world := w\<rparr>))"
    using s a(1) sc(1) t'(1) c it assms(3,6)
    by (simp add: multi_thread_def Let_def get_num_online_cpus_def chk_int_ok create_one free_chain_def create_test_result_def
        create_test_result1_def aread_def sched_ok_def add_result_to_result_table4_def del: replicate_Suc flip: f_def)
  moreover have "multi_entry lo b ?it ?n f" using sc(2) by (auto simp: multi_entry_def scored_def f_def)
  ultimately show ?thesis using t' enter_nth [OF assms(5) t'(1), of MULTI_THREAD_TEST]
    by (intro disjI2 exI [of _ f] exI [of _ "env\<lparr>te_table := t', te_world := w\<rparr>"]) simp
qed simp

text \<open>Two processors, every thread in turn, iterations of 50 microseconds.\<close>

definition two_cpus :: mt_env where
  "two_cpus = \<lparr>mt_rand = \<lambda>s. (s mod 32768, s * 7 + 3), mt_rand_max = 32767, mt_clock = \<lambda>_ _. steady_world, mt_sched = \<lambda>_. take_turns 2,
     mt_lib = fifo_env\<lparr>se_cpus := 2\<rparr>\<rparr>"

lemma two_turns_join: "joined (fold (tick 2) (concat (replicate 25 [Worker 0, Worker 1, Parent])) (start_barrier 2))"
  by code_simp

lemma two_turns_return: "\<not> missed_signal 2 (take_turns 2)"
  by (rule turns_return [where n = 25]) (use two_turns_join in \<open>simp add: numeral_2_eq_2\<close>)

theorem multi_thread_ends_witness:
  "\<exists>f env'. multi_thread (\<lambda>x y. x) two_cpus \<lparr>sc_policy = SCHED_OTHER, sc_priority = 0\<rparr> steady_args steady_test steady_env = Some (Inr (0, env'))
    \<and> table_ok (te_table env') \<and> te_vals env' = te_vals steady_env
    \<and> te_table env' ! bucket_no MULTI_THREAD_TEST = \<lparr>fbmt = Some f, bm_test = Some steady_test, valid = 1\<rparr>
    \<and> multi_entry 50000 50000 (bt_iterations steady_test) 2 f"
proof -
  have ok: "attempt_ok two_cpus 50000 50000 (bt_iterations steady_test) (nat (se_cpus (mt_lib two_cpus))) k" for k
    using take_turns_fair [of 2] by (simp add: attempt_ok_def two_cpus_def steady_clock)
  have rand: "s mod 32768 \<le> 32767" for s :: int using pos_mod_bound [of 32768 s] by simp
  have miss: "\<not> missed_signal (nat (se_cpus (mt_lib two_cpus))) (mt_sched two_cpus k)" for k
    using two_turns_return by (simp add: two_cpus_def)
  have "(\<exists>k < nat (bt_threshold steady_test). missed_signal (nat (se_cpus (mt_lib two_cpus))) (mt_sched two_cpus k))
    \<or> (\<exists>f env'. multi_thread (\<lambda>x y. x) two_cpus \<lparr>sc_policy = SCHED_OTHER, sc_priority = 0\<rparr> steady_args steady_test steady_env = Some (Inr (0, env'))
      \<and> table_ok (te_table env') \<and> te_vals env' = te_vals steady_env
      \<and> te_table env' ! bucket_no MULTI_THREAD_TEST = \<lparr>fbmt = Some f, bm_test = Some steady_test, valid = 1\<rparr>
      \<and> multi_entry 50000 50000 (bt_iterations steady_test) (nat (se_cpus (mt_lib two_cpus))) f)"
    by (rule multi_thread_ends [where clock = "Fin 2000" and b = 50000])
      (use steady_config ok rand in \<open>simp_all add: config_ok_def two_cpus_def sched_ok_def fifo_env_def rand_ok_def steady_test_def
        steady_env_def steady_clock run_ok_def is_int_def\<close>)
  then have "\<exists>f env'. multi_thread (\<lambda>x y. x) two_cpus \<lparr>sc_policy = SCHED_OTHER, sc_priority = 0\<rparr> steady_args steady_test steady_env = Some (Inr (0, env'))
      \<and> table_ok (te_table env') \<and> te_vals env' = te_vals steady_env
      \<and> te_table env' ! bucket_no MULTI_THREAD_TEST = \<lparr>fbmt = Some f, bm_test = Some steady_test, valid = 1\<rparr>
      \<and> multi_entry 50000 50000 (bt_iterations steady_test) (nat (se_cpus (mt_lib two_cpus))) f"
    using miss by blast
  then show ?thesis by (simp add: two_cpus_def)
qed

end
