(* ===== verification/Thread_Priority.thy ===== *)
theory Thread_Priority
  imports Multi_Thread
begin

text \<open>
  \<^verbatim>\<open>testcase/thread_priority_test/thread_priority_test.c\<close>: for each of three priorities one thread
  for each processor multiplies matrices after a common barrier (theory Barrier) and records when
  it stopped; the test passes when the threads of higher priority stopped first.  The threads
  record in any order, which \<open>tp_order\<close> gives for the times at which they stopped and \<open>tp_differences\<close>
  for the times that the threads of high priority took.
\<close>

section \<open>The environment\<close>

datatype prio_class = LOW_PRIORITY | MED_PRIORITY | HIGH_PRIORITY

record tp_env =
  tp_rand :: "int \<Rightarrow> int \<times> int"          \<comment> \<open>\<^verbatim>\<open>rand_r\<close>\<close>
  tp_rand_max :: int
  tp_seed :: "nat \<Rightarrow> int"                 \<comment> \<open>\<^verbatim>\<open>time(NULL)\<close>, as thread \<open>i\<close> reads it\<close>
  tp_clock :: "nat \<Rightarrow> world"
  tp_sched :: "nat \<Rightarrow> agent"
  tp_order :: "nat list"
  tp_differences :: "nat list"
  tp_lib :: sched_env

definition priority_value :: "sched_env \<Rightarrow> prio_class \<Rightarrow> int" where
  "priority_value e c = (case c of LOW_PRIORITY \<Rightarrow> se_min e | MED_PRIORITY \<Rightarrow> (se_max e - 10 + se_min e) sdiv 2
     | HIGH_PRIORITY \<Rightarrow> se_max e - 10)"

text \<open>The threads are numbered in the order in which they are created.\<close>

definition class_of :: "nat \<Rightarrow> nat \<Rightarrow> prio_class" where
  "class_of cpus i = (if i < cpus then HIGH_PRIORITY else if i < 2 * cpus then MED_PRIORITY else LOW_PRIORITY)"

section \<open>A thread\<close>

definition fill_pair :: "tp_env \<Rightarrow> nat \<Rightarrow> (int list list \<times> int list list) res" where
  "fill_pair m i = (let blank = replicate 5 (replicate 5 0) in
     bind_res (fill_loops 5 (tp_rand m) (tp_rand_max m) 100 (tp_seed m i) blank) (\<lambda>(a, seedp).
     bind_res (fill_loops 5 (tp_rand m) (tp_rand_max m) 100 seedp blank) (\<lambda>(b, seedp). Inr (a, b))))"

text \<open>
  What a thread does before the barrier; \<open>None\<close> when it cannot read the clock: it then returns without
  having counted itself in.  The assertion that the counter is at most the number of threads is
  the invariant of the barrier.
\<close>

definition start_before :: "tp_env \<Rightarrow> nat \<Rightarrow> sched \<Rightarrow> nat \<Rightarrow> timespec option res" where
  "start_before m cpus self i = bind_res (fill_pair m i) (\<lambda>ab.
     bind_res (assert_sched (tp_lib m) self (priority_value (tp_lib m) (class_of cpus i))) (\<lambda>_.
       Inr (fst (get_cur_time (tp_clock m i)))))"

text \<open>The work after it, and the second reading.\<close>

definition start_after :: "tp_env \<Rightarrow> int \<Rightarrow> nat \<Rightarrow> timespec option res" where
  "start_after m new_iters i = bind_res (fill_pair m i) (\<lambda>(a, b).
     bind_res (for_res [0..<nat new_iters] (\<lambda>_. matrix_multiply a b) (replicate 5 (replicate 5 0))) (\<lambda>c.
       Inr (fst (get_cur_time (snd (get_cur_time (tp_clock m i)))))))"

section \<open>What the threads record\<close>

type_synonym class_results = "prio_class \<Rightarrow> test_results"

text \<open>A thread whose second reading fails records nothing; the field \<^verbatim>\<open>rc\<close>, which nobody reads, is left out.\<close>

definition record_stop :: "tp_env \<Rightarrow> nat \<Rightarrow> int \<Rightarrow> nat \<Rightarrow> class_results \<Rightarrow> class_results res" where
  "record_stop m cpus new_iters i rs = bind_res (start_after m new_iters i) (\<lambda>end_time. case end_time of None \<Rightarrow> Inr rs
     | Some end_time \<Rightarrow> bind_res (convert_time_to_nsec end_time) (\<lambda>t.
         bind_res (add_entry (rs (class_of cpus i)) t 1) (\<lambda>r. Inr (rs(class_of cpus i := r)))))"

definition record_taken :: "tp_env \<Rightarrow> int \<Rightarrow> nat \<Rightarrow> test_results \<Rightarrow> test_results res" where
  "record_taken m new_iters i consolidated = bind_res (start_after m new_iters i) (\<lambda>end_time.
     case (clk (tp_clock m i) (clk_n (tp_clock m i)), end_time) of
       (Some start_time, Some end_time) \<Rightarrow> bind_res (convert_time_to_nsec end_time) (\<lambda>e. bind_res (convert_time_to_nsec start_time) (\<lambda>s.
         bind_res (chk_ll (e - s)) (\<lambda>d. bind_res (div_ll d new_iters) (\<lambda>difference. add_entry consolidated difference 1))))
     | _ \<Rightarrow> Inr consolidated)"

section \<open>The test\<close>

definition create_start_threads :: "sched_env \<Rightarrow> sched \<Rightarrow> prio_class \<Rightarrow> (nat \<Rightarrow> sched option) option" where
  "create_start_threads e self c = (case set_pthreadattr_sched_param e pthread_attr_init SCHED_FIFO (priority_value e c) of
     (rc, attr) \<Rightarrow> if rc = -1 then None else Some (\<lambda>i. if se_create e i then Some (thread_sched self attr) else None))"

text \<open>
  Whether all threads arrive at the barrier.  A thread that was not created goes unnoticed, and one that could not read
  the clock has gone; the parent then polls the counter for ever.
\<close>

definition arrive_step :: "tp_env \<Rightarrow> nat \<Rightarrow> (prio_class \<Rightarrow> nat \<Rightarrow> sched option) \<Rightarrow> nat \<Rightarrow> bool \<Rightarrow> bool res" where
  "arrive_step m cpus thr i ok = (case thr (class_of cpus i) i of None \<Rightarrow> Inr False
     | Some sc \<Rightarrow> bind_res (start_before m cpus sc i) (\<lambda>t. Inr (ok \<and> t \<noteq> None)))"

definition meet_all :: "tp_env \<Rightarrow> nat \<Rightarrow> (prio_class \<Rightarrow> nat \<Rightarrow> sched option) \<Rightarrow> unit run" where
  "meet_all m cpus thr = bind_run (Some (for_res [0..<3 * cpus] (arrive_step m cpus thr) True)) (\<lambda>ok.
     if ok then bind_run (meet (3 * cpus) (tp_sched m) 0) (\<lambda>_. Some (Inr ())) else None)"

definition create_all :: "sched_env \<Rightarrow> sched \<Rightarrow> (prio_class \<Rightarrow> nat \<Rightarrow> sched option) res" where
  "create_all e self = (case create_start_threads e self HIGH_PRIORITY of None \<Rightarrow> Inl Abort_called
     | Some high \<Rightarrow> (case create_start_threads e self MED_PRIORITY of None \<Rightarrow> Inl Abort_called
       | Some med \<Rightarrow> (case create_start_threads e self LOW_PRIORITY of None \<Rightarrow> Inl Abort_called
         | Some low \<Rightarrow> Inr (\<lambda>c. case c of LOW_PRIORITY \<Rightarrow> low | MED_PRIORITY \<Rightarrow> med | HIGH_PRIORITY \<Rightarrow> high))))"

definition pass_status :: "class_results \<Rightarrow> bool" where
  "pass_status rs \<longleftrightarrow> (let high_pri_maxtime = maxtime (rs HIGH_PRIORITY); med_pri_mintime = mintime (rs MED_PRIORITY);
       med_pri_maxtime = maxtime (rs MED_PRIORITY); low_pri_mintime = mintime (rs LOW_PRIORITY) in
     high_pri_maxtime < low_pri_mintime \<and> high_pri_maxtime < med_pri_mintime \<or> med_pri_maxtime < low_pri_mintime)"

definition thread_priority :: "(f64 \<Rightarrow> f64 \<Rightarrow> f64) \<Rightarrow> tp_env \<Rightarrow> sched \<Rightarrow> test_fn" where
  "thread_priority pw m self args bmtest env = (let online_cpus = get_num_online_cpus (tp_lib m); new_iters = bt_iterations bmtest in
     if online_cpus = 1 then Some (Inr (0, env)) else
     bind_run (Some (chk_int (online_cpus * 3))) (\<lambda>total_thrs.
     bind_run (Some (bind_res (create_test_result1 1 new_iters online_cpus) (\<lambda>rs. aread rs 0))) (\<lambda>r.
     bind_run (Some (create_all (tp_lib m) self)) (\<lambda>thr.
     bind_run (meet_all m (nat online_cpus) thr) (\<lambda>_.
     bind_run (Some (for_res (tp_order m) (record_stop m (nat online_cpus) new_iters)
         (\<lambda>c. r\<lparr>result_id := (case c of LOW_PRIORITY \<Rightarrow> 0 | MED_PRIORITY \<Rightarrow> 1 | HIGH_PRIORITY \<Rightarrow> 2)\<rparr>))) (\<lambda>rs.
     bind_run (Some (for_res (tp_differences m) (record_taken m new_iters) r)) (\<lambda>consolidated_result.
     Some (bind_res (set_test_result_name (rs HIGH_PRIORITY) '' high priority thread '') (\<lambda>r.
       bind_res (if pass_status (rs(HIGH_PRIORITY := r))
         then add_result_to_result_table2 pw (te_table env) consolidated_result THREAD_PRIORITY_TEST bmtest
         else add_result_to_result_table5 (te_table env) [create_test_score3 consolidated_result] THREAD_PRIORITY_TEST bmtest 0) (\<lambda>table.
       Inr (0, env\<lparr>te_table := table\<rparr>)))))))))))"

section \<open>The threads do not fail\<close>

lemma fill_pair_ok:
  assumes "rand_ok (tp_rand m) (tp_rand_max m)"
  obtains a b where "fill_pair m i = Inr (a, b)" "is_mat 5 100 a" "is_mat 5 100 b"
proof -
  let ?blank = "replicate 5 (replicate 5 (0::int))"
  have bl: "length ?blank = 5" "\<forall>row \<in> set ?blank. length row = 5" by simp_all
  obtain a sd where a: "fill_loops 5 (tp_rand m) (tp_rand_max m) 100 (tp_seed m i) ?blank = Inr (a, sd)" "is_mat 5 100 a"
    using fill_loops_ok [OF assms _ _ bl, of 100 "tp_seed m i"] by auto
  obtain b sd' where b: "fill_loops 5 (tp_rand m) (tp_rand_max m) 100 sd ?blank = Inr (b, sd')" "is_mat 5 100 b"
    using fill_loops_ok [OF assms _ _ bl, of 100 sd] by auto
  have "fill_pair m i = Inr (a, b)" using a(1) b(1) by (simp add: fill_pair_def Let_def del: replicate.simps)
  with a(2) b(2) show thesis using that by blast
qed

lemma products_ok:
  assumes "is_mat 5 100 a" "is_mat 5 100 b"
  shows "\<exists>c. for_res [0..<n] (\<lambda>_. matrix_multiply a b) (replicate 5 (replicate 5 0)) = Inr c"
proof -
  let ?sq = "\<lambda>c. length c = 5 \<and> (\<forall>row \<in> set c. length row = 5)"
  have "matrix_multiply a b c = Inr (map (\<lambda>i. map (\<lambda>j. \<Sum>k<5. a ! i ! k * b ! k ! j) [0..<5]) [0..<5])" if "?sq c" for c
    unfolding matrix_multiply_def using assms that
    by (intro matrix_loops_ok [where b = 100]) (simp_all add: is_mat_read is_mat_bound)
  then have step: "\<exists>c'. matrix_multiply a b c = Inr c' \<and> ?sq c'" if "?sq c" for c using that by simp
  have "\<exists>c. for_res [0..<n] (\<lambda>_. matrix_multiply a b) (replicate 5 (replicate 5 0)) = Inr c \<and> ?sq c"
    by (rule for_res_inv [where P = "\<lambda>_. ?sq"]) (use step in simp_all)
  then show ?thesis by blast
qed

section \<open>What the clock says\<close>

definition began :: "tp_env \<Rightarrow> nat \<Rightarrow> int" where
  "began m i = ts_nsec (the (clk (tp_clock m i) (clk_n (tp_clock m i))))"

definition stopped :: "tp_env \<Rightarrow> nat \<Rightarrow> int" where
  "stopped m i = ts_nsec (the (clk (tp_clock m i) (Suc (clk_n (tp_clock m i)))))"

definition two_times :: "tp_env \<Rightarrow> int \<Rightarrow> int \<Rightarrow> nat \<Rightarrow> bool" where
  "two_times m iters b i \<longleftrightarrow> (\<exists>s e. clk (tp_clock m i) (clk_n (tp_clock m i)) = Some s \<and> ts_ok s
     \<and> clk (tp_clock m i) (Suc (clk_n (tp_clock m i))) = Some e \<and> ts_ok e \<and> in_range 0 (iters * b) (ts_nsec e - ts_nsec s))"

lemma start_after_ok:
  assumes "rand_ok (tp_rand m) (tp_rand_max m)"
  shows "start_after m iters i = Inr (clk (tp_clock m i) (Suc (clk_n (tp_clock m i))))"
proof -
  obtain a b where f: "fill_pair m i = Inr (a, b)" "is_mat 5 100 a" "is_mat 5 100 b" using fill_pair_ok [OF assms] .
  obtain c where "for_res [0..<nat iters] (\<lambda>_. matrix_multiply a b) (replicate 5 (replicate 5 0)) = Inr c" using products_ok [OF f(2,3)] by blast
  then show ?thesis using f(1) by (simp add: start_after_def get_cur_time_def del: replicate.simps)
qed

lemma record_stop_is:
  assumes "rand_ok (tp_rand m) (tp_rand_max m)" and "two_times m iters b i" and "\<not> tmutex (rs (class_of n i))"
  shows "record_stop m n iters i rs
    = bind_res (add_entry (rs (class_of n i)) (stopped m i) 0) (\<lambda>r. Inr (rs(class_of n i := r)))"
proof -
  obtain e where "clk (tp_clock m i) (Suc (clk_n (tp_clock m i))) = Some e" "ts_ok e" using assms(2) by (auto simp: two_times_def)
  then show ?thesis using start_after_ok [OF assms(1)] add_entry_synch [OF assms(3)]
    by (simp add: record_stop_def convert_ok stopped_def)
qed

lemma record_taken_is:
  assumes "rand_ok (tp_rand m) (tp_rand_max m)" and "two_times m iters b i" and "\<not> tmutex r" and "0 < iters"
  shows "record_taken m iters i r = add_entry r ((stopped m i - began m i) div iters) 0"
proof -
  obtain s e where se: "clk (tp_clock m i) (clk_n (tp_clock m i)) = Some s" "ts_ok s"
    "clk (tp_clock m i) (Suc (clk_n (tp_clock m i))) = Some e" "ts_ok e" "in_range 0 (iters * b) (ts_nsec e - ts_nsec s)"
    using assms(2) by (auto simp: two_times_def)
  let ?d = "ts_nsec e - ts_nsec s"
  have d: "0 \<le> ?d" "is_ll ?d" using se(5) ts_nsec_range [OF se(2)] ts_nsec_range [OF se(4)] by (auto simp: in_range_def is_ll_def)
  have "?d div iters \<le> ?d" "0 \<le> ?d div iters"
    using d(1) assms(4) zdiv_mono2 [of ?d 1 iters] by (simp_all add: pos_imp_zdiv_nonneg_iff)
  then have "div_ll ?d iters = Inr (?d div iters)"
    using d assms(4) by (simp add: div_ll_def sdiv_nonneg_eq chk_ll_ok is_ll_def)
  with se d(2) show ?thesis using start_after_ok [OF assms(1)] add_entry_synch [OF assms(3)]
    by (simp add: record_taken_def convert_ok chk_ll_ok began_def stopped_def)
qed

section \<open>The order in which the threads record does not matter\<close>

lemma add_entry_tmutex: "add_entry r t 0 = Inr r' \<Longrightarrow> tmutex r' = tmutex r"
  by (fastforce simp: add_entry_def bind_res_Inr_iff Let_def split: if_splits dest: compute_std_fields)

lemma record_stops:
  assumes "rand_ok (tp_rand m) (tp_rand_max m)" and "\<forall>i \<in> set is. two_times m iters b i"
    and "\<forall>c. \<not> tmutex (rs c)" and "\<forall>c. add_entries (rs c) (map (stopped m) (filter (\<lambda>i. class_of n i = c) is)) = Inr (rs' c)"
  shows "for_res is (record_stop m n iters) rs = Inr rs'"
  using assms(2-)
proof (induction "is" arbitrary: rs)
  case Nil
  then show ?case by (simp add: fun_eq_iff)
next
  case (Cons i "is")
  let ?c = "class_of n i"
  have "add_entries (rs ?c) (stopped m i # map (stopped m) (filter (\<lambda>i. class_of n i = ?c) is)) = Inr (rs' ?c)"
    using spec [OF Cons.prems(3), of ?c] by simp
  then obtain r where r: "add_entry (rs ?c) (stopped m i) 0 = Inr r" "add_entries r (map (stopped m) (filter (\<lambda>i. class_of n i = ?c) is)) = Inr (rs' ?c)"
    by (auto simp: bind_res_Inr_iff)
  have "record_stop m n iters i rs = Inr (rs(?c := r))" using record_stop_is [OF assms(1), of iters b i rs n] Cons.prems(1,2) r(1) by simp
  moreover have "for_res is (record_stop m n iters) (rs(?c := r)) = Inr rs'"
  proof (rule Cons.IH)
    show "\<forall>c. \<not> tmutex ((rs(?c := r)) c)" using Cons.prems(2) add_entry_tmutex [OF r(1)] by simp
    show "\<forall>c. add_entries ((rs(?c := r)) c) (map (stopped m) (filter (\<lambda>i. class_of n i = c) is)) = Inr (rs' c)"
    proof
      fix c
      show "add_entries ((rs(?c := r)) c) (map (stopped m) (filter (\<lambda>i. class_of n i = c) is)) = Inr (rs' c)"
        using r(2) spec [OF Cons.prems(3), of c] by (cases "c = ?c") auto
    qed
  qed (use Cons.prems(1) in simp)
  ultimately show ?case by simp
qed

lemma record_all_taken:
  assumes "rand_ok (tp_rand m) (tp_rand_max m)" and "\<forall>i \<in> set is. two_times m iters b i" and "0 < iters"
    and "\<not> tmutex r" and "add_entries r (map (\<lambda>i. (stopped m i - began m i) div iters) is) = Inr r'"
  shows "for_res is (record_taken m iters) r = Inr r'"
  using assms(2,4,5)
proof (induction "is" arbitrary: r)
  case (Cons i "is")
  have t: "two_times m iters b i" using Cons.prems(1) by simp
  obtain r1 where "add_entry r ((stopped m i - began m i) div iters) 0 = Inr r1"
    "add_entries r1 (map (\<lambda>i. (stopped m i - began m i) div iters) is) = Inr r'" using Cons.prems(3) by (auto simp: bind_res_Inr_iff)
  with Cons.prems Cons.IH record_taken_is [OF assms(1) t Cons.prems(2) assms(3)] add_entry_tmutex
  show ?case by simp
qed simp

text \<open>Each class has as many threads as there are processors.\<close>

definition members :: "nat \<Rightarrow> prio_class \<Rightarrow> nat set" where
  "members n c = (case c of HIGH_PRIORITY \<Rightarrow> {0..<n} | MED_PRIORITY \<Rightarrow> {n..<2 * n} | LOW_PRIORITY \<Rightarrow> {2 * n..<3 * n})"

lemma class_members: "{i \<in> {0..<3 * n}. class_of n i = c} = members n c"
  by (cases c) (auto simp: class_of_def members_def)

lemma class_order:
  assumes "mset is = mset [0..<3 * n]"
  shows "set (filter (\<lambda>i. class_of n i = c) is) = members n c" "length (filter (\<lambda>i. class_of n i = c) is) = n"
proof -
  have d: "set is = {0..<3 * n}" "distinct is"
    using assms by (metis set_mset_mset set_upt, metis assms distinct_upt mset_eq_imp_distinct_iff)
  then show s: "set (filter (\<lambda>i. class_of n i = c) is) = members n c" using class_members by auto
  have "length (filter (\<lambda>i. class_of n i = c) is) = card (members n c)"
    using d(2) s distinct_card [of "filter (\<lambda>i. class_of n i = c) is"] by simp
  then show "length (filter (\<lambda>i. class_of n i = c) is) = n" by (cases c) (simp_all add: members_def)
qed

lemma add_entries_tmutex: "add_entries r ts = Inr r' \<Longrightarrow> tmutex r' = tmutex r"
  by (induction ts arbitrary: r) (auto simp: bind_res_Inr_iff dest: add_entry_tmutex)

section \<open>The threads meet\<close>

definition scheduled :: "sched_env \<Rightarrow> prio_class \<Rightarrow> nat \<Rightarrow> sched option" where
  "scheduled e c i = Some \<lparr>sc_policy = SCHED_FIFO, sc_priority = priority_value e c\<rparr>"

lemma create_start_ok:
  assumes "sched_ok e"
  shows "create_start_threads e self c = Some (scheduled e c)"
proof -
  obtain rc attr where a: "set_pthreadattr_sched_param e pthread_attr_init SCHED_FIFO (priority_value e c) = (rc, attr)" by fastforce
  then have "rc = 0" using set_attr_rc [of e pthread_attr_init SCHED_FIFO "priority_value e c"] assms by (simp add: sched_ok_def)
  with a set_attr_ok [of e pthread_attr_init SCHED_FIFO "priority_value e c" attr self] assms show ?thesis
    by (simp add: create_start_threads_def sched_ok_def scheduled_def fun_eq_iff)
qed

lemma create_all_ok: "sched_ok e \<Longrightarrow> create_all e self = Inr (scheduled e)"
  by (simp add: create_all_def create_start_ok fun_eq_iff split: prio_class.split)

lemma arrive_ok:
  assumes "rand_ok (tp_rand m) (tp_rand_max m)" and "sched_ok (tp_lib m)" and "two_times m iters b i"
  shows "arrive_step m n (scheduled (tp_lib m)) i ok = Inr ok"
proof -
  obtain x y where "fill_pair m i = Inr (x, y)" using fill_pair_ok [OF assms(1)] .
  moreover obtain s where "clk (tp_clock m i) (clk_n (tp_clock m i)) = Some s" using assms(3) by (auto simp: two_times_def)
  ultimately show ?thesis using assms(2)
    by (simp add: arrive_step_def scheduled_def start_before_def assert_sched_ok sched_ok_def get_cur_time_def)
qed

lemma meet_all_ok:
  assumes "rand_ok (tp_rand m) (tp_rand_max m)" and "sched_ok (tp_lib m)" and "\<forall>i < 3 * n. two_times m iters b i"
    and "fair (3 * n) (tp_sched m)" and "\<not> missed_signal (3 * n) (tp_sched m)"
  shows "meet_all m n (scheduled (tp_lib m)) = Some (Inr ())"
proof -
  have step: "arrive_step m n (scheduled (tp_lib m)) i ok = Inr ok" if "i < 3 * n" for i ok
    using arrive_ok [OF assms(1,2)] assms(3) that by blast
  have "\<exists>ok. for_res [0..<3 * n] (arrive_step m n (scheduled (tp_lib m))) True = Inr ok \<and> ok"
    by (rule for_res_inv [where P = "\<lambda>_ ok. ok"]) (use step in auto)
  then show ?thesis using meet_ok [OF assms(4,5)] by (auto simp: meet_all_def)
qed

section \<open>What is recorded\<close>

lemma stamps_subset:
  assumes "stamps_ok lo b ts" and "set us \<subseteq> set ts" and "length us \<le> length ts"
  shows "stamps_ok lo b us"
proof -
  have "int (length us) * (b * b) \<le> int (length ts) * (b * b)" "int (length us) * (lo + b) \<le> int (length ts) * (lo + b)"
    using assms(1,3) by (intro mult_right_mono; simp add: stamps_ok_def)+
  with assms show ?thesis unfolding stamps_ok_def by (meson order_trans subsetD)
qed

text \<open>Every class records its own stops, in whatever order.\<close>

definition class_recorded :: "tp_env \<Rightarrow> nat \<Rightarrow> class_results \<Rightarrow> bool" where
  "class_recorded m n rs \<longleftrightarrow> (\<forall>c. maxtime (rs c) = Max (stopped m ` members n c) \<and> mintime (rs c) = Min (stopped m ` members n c))"

lemma classes_recorded:
  assumes "rand_ok (tp_rand m) (tp_rand_max m)" and "\<forall>i < 3 * n. two_times m iters b i" and "mset (tp_order m) = mset [0..<3 * n]"
    and "stamps_ok lo d (map (stopped m) [0..<3 * n])" and "0 < n"
    and "\<forall>c. recorded (rs c) [] \<and> max_entries (rs c) = int n"
  shows "\<exists>rs'. for_res (tp_order m) (record_stop m n iters) rs = Inr rs' \<and> class_recorded m n rs'"
proof -
  let ?ts = "\<lambda>c. map (stopped m) (filter (\<lambda>i. class_of n i = c) (tp_order m))"
  have s: "set (tp_order m) = {0..<3 * n}" using assms(3) by (metis set_mset_mset set_upt)
  have sub: "members n c \<subseteq> {0..<3 * n}" for c using class_members [of n c] by blast
  have "\<exists>r'. add_entries (rs c) (?ts c) = Inr r' \<and> maxtime r' = Max (stopped m ` members n c) \<and> mintime r' = Min (stopped m ` members n c)" for c
  proof -
    note o = class_order [OF assms(3), of c]
    have "stamps_ok lo d (?ts c)" by (rule stamps_subset [OF assms(4)]) (use o sub [of c] in auto)
    moreover have "int (length (?ts c)) = max_entries (rs c)" "?ts c \<noteq> []" using o(2) assms(5,6) by (simp, metis length_0_conv length_map less_numeral_extra(3))
    ultimately obtain r' where "add_entries (rs c) (?ts c) = Inr r'" "recorded r' (?ts c)" "?ts c \<noteq> []"
      using add_entries_stamps assms(6) by blast
    then show ?thesis using o(1) by (auto simp: recorded_def)
  qed
  then obtain rs' where rs': "\<forall>c. add_entries (rs c) (?ts c) = Inr (rs' c)"
    "\<forall>c. maxtime (rs' c) = Max (stopped m ` members n c) \<and> mintime (rs' c) = Min (stopped m ` members n c)" by metis
  have "\<forall>i \<in> set (tp_order m). two_times m iters b i" using assms(2) s by simp
  then have "for_res (tp_order m) (record_stop m n iters) rs = Inr rs'"
    using record_stops [OF assms(1) _ _ rs'(1)] assms(6) by (simp add: recorded_def)
  with rs'(2) show ?thesis by (auto simp: class_recorded_def)
qed

text \<open>The verdict compares all threads of one class with all of another.\<close>

definition before :: "tp_env \<Rightarrow> nat set \<Rightarrow> nat set \<Rightarrow> bool" where
  "before m xs ys \<longleftrightarrow> (\<forall>i \<in> xs. \<forall>j \<in> ys. stopped m i < stopped m j)"

lemma before_Un: "before m xs (ys \<union> zs) \<longleftrightarrow> before m xs ys \<and> before m xs zs"
  by (auto simp: before_def)

lemma members_finite: "0 < n \<Longrightarrow> finite (members n c) \<and> members n c \<noteq> {}"
  by (cases c) (simp_all add: members_def)

lemma pass_status_iff:
  assumes "class_recorded m n rs" and "0 < n"
  shows "pass_status (rs(HIGH_PRIORITY := (rs HIGH_PRIORITY)\<lparr>tname := nm\<rparr>))
    \<longleftrightarrow> before m {0..<n} {n..<3 * n} \<or> before m {n..<2 * n} {2 * n..<3 * n}"
proof -
  have less: "maxtime (rs c) < mintime (rs d) \<longleftrightarrow> before m (members n c) (members n d)" for c d
    using assms members_finite [OF assms(2), of c] members_finite [OF assms(2), of d]
    by (auto simp: class_recorded_def before_def)
  have un: "members n LOW_PRIORITY \<union> members n MED_PRIORITY = {n..<3 * n}" by (auto simp: members_def)
  have "before m (members n HIGH_PRIORITY) (members n LOW_PRIORITY) \<and> before m (members n HIGH_PRIORITY) (members n MED_PRIORITY)
      \<longleftrightarrow> before m {0..<n} {n..<3 * n}"
    unfolding before_Un [symmetric] un by (simp add: members_def)
  then show ?thesis by (simp add: pass_status_def less) (simp add: members_def)
qed

section \<open>The entry\<close>

lemma enter_verdict:
  assumes "table_ok t" and "measured lo b iters r ts" and "Fin 0 < bt_reference_score bmtest"
  shows "\<exists>t' f. (if ok then add_result_to_result_table2 pw t r bucket bmtest
        else add_result_to_result_table5 t [create_test_score3 r] bucket bmtest 0) = Inr t'
    \<and> entered bucket r bmtest t t' \<and> fbmt (t' ! bucket_no bucket) = Some f \<and> test_pass f = (if ok then 1 else 0)"
proof -
  have m: "recorded r ts" "ts \<noteq> []" "times_ok b ts" using assms(2) by (simp_all add: measured_def)
  have "0 \<le> mediantime r" "is_ll (mediantime r)" using measured_median [OF assms(2)] by (simp_all add: is_ll_def)
  then obtain s where s: "generate_combined_score [r] (bt_reference_score bmtest) = Inr [s]" "score_result s = [r]"
    using combined_score_ok [OF m _ _ assms(3)] by blast
  define f where "f = (if ok then (create_final_bm_test_result1 pw [s])\<lparr>test_pass := 1\<rparr>
    else \<lparr>fb_score = [create_test_score3 r], throughput_test_score = Fin 0, consistency_test_score = Fin 0, fb_test_score = Fin 0, test_pass = 0\<rparr>)"
  obtain t' where t': "enter t f bucket bmtest = Inr t'" "table_ok t'" using enter_ok [OF assms(1)] by blast
  obtain s' where s': "fb_score f = [s']" "score_result s' = [r]"
    using s(2) by (cases ok) (simp_all add: f_def create_test_score3_def create_test_score1_def)
  then have "first_result t' bucket = Inr r" using first_result_entered [OF assms(1) t'(1)] by blast
  then have e: "entered bucket r bmtest t t'" "fbmt (t' ! bucket_no bucket) = Some f"
    using t' s' enter_nth [OF assms(1) t'(1)] by (simp_all add: entered_def)
  moreover have "test_pass f = (if ok then 1 else 0)" by (simp add: f_def)
  moreover have "(if ok then add_result_to_result_table2 pw t r bucket bmtest
        else add_result_to_result_table5 t [create_test_score3 r] bucket bmtest 0) = Inr t'"
    using t'(1) s(1) by (cases ok) (simp_all add: f_def add_result_to_result_table2_def add_result_to_result_table5_def)
  ultimately show ?thesis by blast
qed

lemma taken_ok:
  assumes "rand_ok (tp_rand m) (tp_rand_max m)" and "\<forall>i < n. two_times m iters b i" and "0 < iters" "iters \<le> INT_MAX" and "run_ok (int n) b"
    and "mset (tp_differences m) = mset [0..<n]"
  shows "\<exists>r ts. for_res (tp_differences m) (record_taken m iters) (new_result iters (int n)) = Inr r \<and> measured 0 b (int n) r ts
    \<and> mset ts = image_mset (\<lambda>i. (stopped m i - began m i) div iters) (mset [0..<n])"
proof -
  let ?d = "\<lambda>i. (stopped m i - began m i) div iters" and ?ts = "map (\<lambda>i. (stopped m i - began m i) div iters) (tp_differences m)"
  have d: "set (tp_differences m) = {0..<n}" "length (tp_differences m) = n"
    using assms(6) by (metis set_mset_mset set_upt, metis assms(6) length_upt minus_nat.diff_0 size_mset)
  have n: "0 < n" "is_int (int n)" using assms(5) by (simp_all add: run_ok_def)
  have "0 \<le> ?d i \<and> ?d i \<le> b" if "i < n" for i
  proof -
    have "0 \<le> stopped m i - began m i" "stopped m i - began m i \<le> iters * b"
      using assms(2) that by (auto simp: two_times_def stopped_def began_def in_range_def)
    moreover then have "?d i \<le> (iters * b) div iters" using assms(3) by (intro zdiv_mono1)
    ultimately show ?thesis using assms(3) by (simp add: pos_imp_zdiv_nonneg_iff)
  qed
  then have t: "times_ok b ?ts" "\<forall>t \<in> set ?ts. 0 \<le> t" "?ts \<noteq> []"
    using d n assms(5) by (auto simp: times_ok_def run_ok_def)
  have r: "recorded (new_result iters (int n)) []" "max_entries (new_result iters (int n)) = int n"
    using new_result_recorded [of "int n" iters] n assms(3,4) by (simp_all add: new_result_def)
  obtain r' where r': "add_entries (new_result iters (int n)) ?ts = Inr r'" "recorded r' ?ts" "summarised r' ?ts" "max_entries r' = int n"
    using add_entries_full [OF r(1) _ t(3,1)] r(2) d(2) by auto
  have "for_res (tp_differences m) (record_taken m iters) (new_result iters (int n)) = Inr r'"
    using record_all_taken [OF assms(1) _ assms(3) _ r'(1), of b] assms(2) d(1) by (simp add: new_result_def)
  moreover have "measured 0 b (int n) r' ?ts" using r'(2-4) t d(2) by (simp add: measured_def)
  moreover have "mset ?ts = image_mset ?d (mset [0..<n])" using assms(6) by simp
  ultimately show ?thesis by blast
qed

section \<open>The verdict\<close>

text \<open>
  C16: On a machine with several processors and real-time scheduling, under a fair schedule,
  \<^verbatim>\<open>thread_priority\<close> returns unless the parent has missed the signal of the barrier.  Whatever the
  order in which the threads record, its entry holds the time that each thread of high priority
  took for an iteration, and the verdict depends only on the times at which the threads stopped:
  it passes when all threads of high priority stopped before all others, or all of medium before
  all of low priority, even if those of high priority stopped last.
\<close>

theorem thread_priority_verdict:
  assumes "2 \<le> se_cpus (tp_lib m)" "se_cpus (tp_lib m) < 1000000" "sched_ok (tp_lib m)" "rand_ok (tp_rand m) (tp_rand_max m)"
    and "table_ok (te_table env)" "Fin 0 < bt_reference_score bmtest" "0 < bt_iterations bmtest \<and> bt_iterations bmtest \<le> INT_MAX"
    and "n = nat (se_cpus (tp_lib m))" and "run_ok (se_cpus (tp_lib m)) b" and "stamps_ok lo d (map (stopped m) [0..<3 * n])"
    and "\<forall>i < 3 * n. two_times m (bt_iterations bmtest) b i"
    and "mset (tp_order m) = mset [0..<3 * n]" "mset (tp_differences m) = mset [0..<n]" "fair (3 * n) (tp_sched m)"
  shows "missed_signal (3 * n) (tp_sched m) \<or> (\<exists>env' r ts f. thread_priority pw m self args bmtest env = Some (Inr (0, env'))
    \<and> entered THREAD_PRIORITY_TEST r bmtest (te_table env) (te_table env') \<and> measured 0 b (int n) r ts
    \<and> mset ts = image_mset (\<lambda>i. (stopped m i - began m i) div bt_iterations bmtest) (mset [0..<n])
    \<and> fbmt (te_table env' ! bucket_no THREAD_PRIORITY_TEST) = Some f
    \<and> test_pass f = (if before m {0..<n} {n..<3 * n} \<or> before m {n..<2 * n} {2 * n..<3 * n} then 1 else 0))"
proof (cases "missed_signal (3 * n) (tp_sched m)")
  case False
  let ?it = "bt_iterations bmtest" and ?c = "se_cpus (tp_lib m)"
  have it: "0 < ?it" "?it \<le> INT_MAX" using assms(7) by simp_all
  have c: "int n = ?c" "nat ?c = n" "0 < n" "is_int (?c * 3)" "?c \<noteq> 1" "run_ok (int n) b" "\<forall>i < n. two_times m ?it b i"
    using assms(1,2,8,9,11) by (simp_all add: is_int_def)
  note meet = meet_all_ok [OF assms(4,3,11,14) False]
  let ?rs = "\<lambda>c. (new_result ?it ?c)\<lparr>result_id := (case c of LOW_PRIORITY \<Rightarrow> 0 | MED_PRIORITY \<Rightarrow> 1 | HIGH_PRIORITY \<Rightarrow> 2)\<rparr>"
  have "recorded (new_result ?it ?c) []" using new_result_recorded [of ?c ?it] assms(1,9) it by (simp add: run_ok_def)
  then have "\<forall>c. recorded (?rs c) [] \<and> max_entries (?rs c) = int n" using c(1) by (simp add: recorded_def new_result_def)
  then obtain rs where rs: "for_res (tp_order m) (record_stop m n ?it) ?rs = Inr rs" "class_recorded m n rs"
    using classes_recorded [OF assms(4,11,12,10) c(3), of ?rs] by blast
  obtain r ts where r: "for_res (tp_differences m) (record_taken m ?it) (new_result ?it ?c) = Inr r" "measured 0 b (int n) r ts"
    "mset ts = image_mset (\<lambda>i. (stopped m i - began m i) div ?it) (mset [0..<n])"
    using taken_ok [OF assms(4) c(7) it c(6) assms(13)] unfolding c(1) by blast
  let ?ok = "before m {0..<n} {n..<3 * n} \<or> before m {n..<2 * n} {2 * n..<3 * n}"
  obtain t' f where t': "(if ?ok then add_result_to_result_table2 pw (te_table env) r THREAD_PRIORITY_TEST bmtest
      else add_result_to_result_table5 (te_table env) [create_test_score3 r] THREAD_PRIORITY_TEST bmtest 0) = Inr t'"
    "entered THREAD_PRIORITY_TEST r bmtest (te_table env) t'" "fbmt (t' ! bucket_no THREAD_PRIORITY_TEST) = Some f" "test_pass f = (if ?ok then 1 else 0)"
    using enter_verdict [OF assms(5) r(2) assms(6)] by blast
  have "thread_priority pw m self args bmtest env = Some (Inr (0, env\<lparr>te_table := t'\<rparr>))"
    using c(2,4,5) assms(3) meet rs(1) r(1) t'(1) assms(1)
    by (simp add: thread_priority_def Let_def get_num_online_cpus_def chk_int_ok create_test_result1_def aread_def create_all_ok
        set_test_result_name_def pass_status_iff [OF rs(2) c(3)] cong: if_cong)
  with t' r(2,3) show ?thesis by (intro disjI2 exI [of _ "env\<lparr>te_table := t'\<rparr>"] exI [of _ r] exI [of _ ts] exI [of _ f]) simp
qed simp

text \<open>
  Two processors, every thread in turn; a thread of high priority stops after 60 microseconds, the
  others after 70 and 80.
\<close>

definition three_classes :: tp_env where
  "three_classes = \<lparr>tp_rand = \<lambda>s. (s mod 32768, s * 7 + 3), tp_rand_max = 32767, tp_seed = int,
     tp_clock = \<lambda>i. steady_world\<lparr>clk := \<lambda>k. Some \<lparr>tv_sec = 5, tv_nsec = (if k = 0 then 0 else if i < 2 then 60000 else if i < 4 then 70000 else 80000)\<rparr>\<rparr>,
     tp_sched = take_turns 6, tp_order = [3, 0, 5, 1, 2, 4], tp_differences = [1, 0], tp_lib = fifo_env\<lparr>se_cpus := 2\<rparr>\<rparr>"

lemma six_turns_join: "joined (fold (tick 6) (concat (replicate 60 (map Worker [0..<6] @ [Parent]))) (start_barrier 6))"
  by code_simp

lemma six_threads: "[0..<6] = [0, 1, 2, 3, 4, 5]" "[0..<2] = [0, 1]"
  by (simp_all add: upt_rec)

theorem thread_priority_verdict_witness:
  "\<exists>env' r ts f. thread_priority (\<lambda>x y. x) three_classes \<lparr>sc_policy = SCHED_OTHER, sc_priority = 0\<rparr> steady_args steady_test steady_env = Some (Inr (0, env'))
    \<and> entered THREAD_PRIORITY_TEST r steady_test (te_table steady_env) (te_table env') \<and> measured 0 80000 2 r ts \<and> mset ts = {#20000, 20000#}
    \<and> fbmt (te_table env' ! bucket_no THREAD_PRIORITY_TEST) = Some f \<and> test_pass f = 1"
proof -
  have rand: "s mod 32768 \<le> 32767" for s :: int using pos_mod_bound [of 32768 s] by simp
  have st: "stopped three_classes i = 5000000000 + (if i < 2 then 60000 else if i < 4 then 70000 else 80000)" "began three_classes i = 5000000000" for i
    by (simp_all add: stopped_def began_def three_classes_def steady_world_def ts_nsec_def)
  have two: "two_times three_classes (bt_iterations steady_test) 80000 i" for i
    by (simp add: two_times_def three_classes_def steady_world_def steady_test_def ts_ok_def ts_nsec_def in_range_def)
  have ret: "\<not> missed_signal (3 * 2) (tp_sched three_classes)"
    using turns_return [OF six_turns_join] by (simp add: three_classes_def)
  have stamps: "stamps_ok 5000000000 80000 (map (stopped three_classes) [0..<3 * 2])" by (simp add: stamps_ok_def st six_threads)
  have d: "(stopped three_classes i - began three_classes i) div bt_iterations steady_test = 20000" if "i < 2" for i
    using that by (simp add: st steady_test_def)
  have mods: "mset (tp_order three_classes) = mset [0..<3 * 2]" "mset (tp_differences three_classes) = mset [0..<2]"
    by (simp_all add: three_classes_def six_threads)
  have cpus: "se_cpus (tp_lib three_classes) = 2" by (simp add: three_classes_def)
  have "missed_signal (3 * 2) (tp_sched three_classes) \<or> (\<exists>env' r ts f.
      thread_priority (\<lambda>x y. x) three_classes \<lparr>sc_policy = SCHED_OTHER, sc_priority = 0\<rparr> steady_args steady_test steady_env = Some (Inr (0, env'))
    \<and> entered THREAD_PRIORITY_TEST r steady_test (te_table steady_env) (te_table env') \<and> measured 0 80000 (int 2) r ts
    \<and> mset ts = image_mset (\<lambda>i. (stopped three_classes i - began three_classes i) div bt_iterations steady_test) (mset [0..<2])
    \<and> fbmt (te_table env' ! bucket_no THREAD_PRIORITY_TEST) = Some f
    \<and> test_pass f = (if before three_classes {0..<2} {2..<3 * 2} \<or> before three_classes {2..<2 * 2} {2 * 2..<3 * 2} then 1 else 0))"
    by (rule thread_priority_verdict [where lo = 5000000000 and d = 80000 and n = 2])
      (use steady_config two stamps mods rand take_turns_fair [of 6] in \<open>simp_all add: cpus config_ok_def three_classes_def sched_ok_def
        fifo_env_def rand_ok_def steady_test_def run_ok_def is_int_def\<close>)
  moreover have "before three_classes {0..<2} {2..<3 * 2}" by (simp add: before_def st)
  ultimately show ?thesis using ret d by (simp add: six_threads)
qed

end
