(* ===== verification/Net_Io.thy ===== *)
theory Net_Io
  imports Lock_Consistency
begin

text \<open>
  \<^verbatim>\<open>testcase/config_test/net_io_config.c\<close>: a server thread sends back what a client sends it over a
  TCP connection to the same machine, and the client measures how long the exchange of a message
  takes; the message is doubled until the times are long enough and consistent.  Both ends are
  state machines over the two byte streams of the connection.  The environment (\<open>net_env\<close>) says
  which library calls succeed, which thread runs at each tick and how many of the bytes that have
  arrived a call of \<^verbatim>\<open>recv\<close> returns; a send that succeeds hands over the whole message.
\<close>

section \<open>The connection\<close>

datatype recv_answer =
    Upto nat      \<comment> \<open>returns at most so many bytes, and at least one\<close>
  | Eintr         \<comment> \<open>interrupted by a signal\<close>
  | Recv_error    \<comment> \<open>the time limit or another error\<close>

record net_env =
  ne_lib :: sched_env
  ne_server :: "nat \<Rightarrow> bool"     \<comment> \<open>\<^verbatim>\<open>socket\<close>, \<^verbatim>\<open>setsockopt\<close> twice, \<^verbatim>\<open>bind\<close>, \<^verbatim>\<open>listen\<close>\<close>
  ne_host :: "(bool \<times> bool) option"   \<comment> \<open>the host entry: an Internet address, with an address in its list\<close>
  ne_socket :: bool              \<comment> \<open>\<^verbatim>\<open>socket\<close> of the client\<close>
  ne_option :: bool              \<comment> \<open>\<^verbatim>\<open>setsockopt\<close> of the client\<close>
  ne_connect :: "nat \<Rightarrow> bool"    \<comment> \<open>the \<open>n\<close>-th \<^verbatim>\<open>connect\<close> reaches a listening server\<close>
  ne_accept :: "nat \<Rightarrow> bool"
  ne_client :: "nat \<Rightarrow> bool"     \<comment> \<open>the client runs at the tick, not the server\<close>
  ne_recv :: "nat \<Rightarrow> recv_answer"
  ne_send :: "nat \<Rightarrow> bool"

datatype s_pc =
    S_Accept    \<comment> \<open>the loop around \<^verbatim>\<open>accept\<close>\<close>
  | S_Alive     \<comment> \<open>\<^verbatim>\<open>while (serv_args->stay_alive != 0)\<close>\<close>
  | S_For       \<comment> \<open>the head of the loop over the iterations, and the doubling after it\<close>
  | S_Recv
  | S_Send
  | S_Done

record net =
  tick_no :: nat
  linked :: bool              \<comment> \<open>\<^verbatim>\<open>connect\<close> has succeeded\<close>
  stay_alive :: bool
  c_closed :: bool
  s_closed :: bool
  to_server :: string
  to_client :: string
  c_buf :: string             \<comment> \<open>\<^verbatim>\<open>msg\<close> of the client, which is also its receive buffer\<close>
  c_at :: nat                 \<comment> \<open>\<^verbatim>\<open>buffer - msg\<close>\<close>
  c_left :: int               \<comment> \<open>\<^verbatim>\<open>bytes_remaining\<close>\<close>
  c_ret :: "int option"       \<comment> \<open>\<^verbatim>\<open>ret\<close>, once the client has left its receive loop\<close>
  spc :: s_pc
  s_iters :: int              \<comment> \<open>\<^verbatim>\<open>serv_args->iterations\<close>\<close>
  s_i :: int
  s_size :: int               \<comment> \<open>\<^verbatim>\<open>msg_size\<close> of the server\<close>
  s_buf :: string             \<comment> \<open>\<^verbatim>\<open>rcv_msg\<close>\<close>
  s_at :: nat
  s_left :: int

definition msg_alloc_init :: "int \<Rightarrow> string" where
  "msg_alloc_init msg_size = map (\<lambda>i. char_of (97 + i mod 26)) [0..<nat (msg_size - 1)]
     @ replicate (nat msg_size - nat (msg_size - 1)) (CHR 0x00)"

definition get_local_address :: "net_env \<Rightarrow> int" where
  "get_local_address e = (case ne_host e of None \<Rightarrow> -1 | Some (inet, addr) \<Rightarrow> if inet \<and> addr then 0 else -1)"

section \<open>Receiving\<close>

text \<open>
  A call of \<^verbatim>\<open>recv\<close> that wants \<open>want\<close> bytes of a stream: \<open>None\<close> when it waits; otherwise its return
  value, whether \<^verbatim>\<open>errno\<close> is \<^verbatim>\<open>EINTR\<close>, and the bytes.
\<close>

definition recv_call :: "recv_answer \<Rightarrow> string \<Rightarrow> bool \<Rightarrow> int \<Rightarrow> (int \<times> bool \<times> string) option" where
  "recv_call ans stream shut want = (case ans of Eintr \<Rightarrow> Some (-1, True, []) | Recv_error \<Rightarrow> Some (-1, False, [])
     | Upto n \<Rightarrow> if stream = [] then (if shut then Some (0, False, []) else None)
         else (let k = max 1 (min n (min (nat want) (length stream))) in Some (int k, False, take k stream)))"

definition store :: "string \<Rightarrow> nat \<Rightarrow> string \<Rightarrow> string res" where
  "store buf pos bytes = (if pos + length bytes \<le> length buf
     then Inr (take pos buf @ bytes @ drop (pos + length bytes) buf) else Inl Out_of_bounds)"

text \<open>
  One turn of the receive loop, which client and server have alike: whether it is repeated, the
  return value, the buffer, the position in it, the bytes that remain and the rest of the stream.
\<close>

definition recv_turn :: "recv_answer \<Rightarrow> string \<Rightarrow> bool \<Rightarrow> string \<Rightarrow> nat \<Rightarrow> int \<Rightarrow>
    (bool \<times> int \<times> string \<times> nat \<times> int \<times> string) res option" where
  "recv_turn ans stream shut buf pos left = (case recv_call ans stream shut left of None \<Rightarrow> None
     | Some (ret, eintr, bytes) \<Rightarrow> Some (bind_res (store buf pos bytes) (\<lambda>buf.
         if ret = -1 then Inr (eintr, ret, buf, pos, left, stream)
         else if 0 < ret \<and> ret < left then Inr (True, ret, buf, pos + nat ret, left - ret, drop (nat ret) stream)
         else Inr (False, ret, buf, pos, left, drop (nat ret) stream))))"

section \<open>The two ends\<close>

definition client_step :: "net_env \<Rightarrow> net \<Rightarrow> net res option" where
  "client_step e n = (if c_ret n \<noteq> None then None else
     map_option (\<lambda>t. bind_res t (\<lambda>(retry, ret, buf, pos, left, stream).
         Inr (n\<lparr>c_buf := buf, c_at := pos, c_left := left, to_client := stream, c_ret := if retry then None else Some ret\<rparr>)))
       (recv_turn (ne_recv e (tick_no n)) (to_client n) (s_closed n) (c_buf n) (c_at n) (c_left n)))"

text \<open>The server leaves by closing its end; it also does so when it was told to stop before a client came.\<close>

definition server_leaves :: "net \<Rightarrow> net" where
  "server_leaves n = n\<lparr>spc := S_Done, s_closed := True\<rparr>"

definition server_step :: "net_env \<Rightarrow> net \<Rightarrow> net res option" where
  "server_step e n = (case spc n of
     S_Accept \<Rightarrow> Some (Inr (if \<not> stay_alive n then server_leaves n
       else if linked n \<and> ne_accept e (tick_no n) then n\<lparr>spc := S_Alive\<rparr> else n))
   | S_Alive \<Rightarrow> Some (Inr (if stay_alive n then n\<lparr>s_i := 0, spc := S_For\<rparr> else server_leaves n))
   | S_For \<Rightarrow> Some (if s_i n < s_iters n then Inr (n\<lparr>s_at := 0, s_left := s_size n, spc := S_Recv\<rparr>)
       else bind_res (chk_int (s_size n * 2)) (\<lambda>msg_size.
         Inr (n\<lparr>s_size := msg_size, s_buf := replicate (nat msg_size) (CHR 0x00), spc := S_Alive\<rparr>)))
   | S_Recv \<Rightarrow> map_option (\<lambda>t. bind_res t (\<lambda>(retry, ret, buf, pos, left, stream).
         let n = n\<lparr>s_buf := buf, s_at := pos, s_left := left, to_server := stream\<rparr> in
         Inr (if retry then n else if ret \<le> 0 then server_leaves n else n\<lparr>spc := S_Send\<rparr>)))
       (recv_turn (ne_recv e (tick_no n)) (to_server n) (c_closed n) (s_buf n) (s_at n) (s_left n))
   | S_Send \<Rightarrow> Some (if length (s_buf n) < nat (s_size n) then Inl Out_of_bounds
       else Inr (if ne_send e (tick_no n)
         then n\<lparr>to_client := to_client n @ take (nat (s_size n)) (s_buf n), s_i := s_i n + 1, spc := S_For\<rparr>
         else server_leaves n))
   | S_Done \<Rightarrow> None)"

text \<open>A thread that waits lets the tick pass.\<close>

definition pass_tick :: "net \<Rightarrow> net res option \<Rightarrow> net res" where
  "pass_tick n step = bind_res (case step of None \<Rightarrow> Inr n | Some r \<Rightarrow> r) (\<lambda>n'. Inr (n'\<lparr>tick_no := Suc (tick_no n)\<rparr>))"

definition net_tick :: "net_env \<Rightarrow> net \<Rightarrow> net res" where
  "net_tick e n = pass_tick n (if ne_client e (tick_no n) then client_step e n else server_step e n)"

section \<open>The client\<close>

partial_function (option) wait_reply :: "net_env \<Rightarrow> net \<Rightarrow> net run" where
  "wait_reply e n = (if c_ret n \<noteq> None then Some (Inr n)
     else (case net_tick e n of Inl err \<Rightarrow> Some (Inl err) | Inr n \<Rightarrow> wait_reply e n))"

partial_function (option) join_server :: "net_env \<Rightarrow> net \<Rightarrow> net run" where
  "join_server e n = (if spc n = S_Done then Some (Inr n)
     else (case pass_tick n (server_step e n) of Inl err \<Rightarrow> Some (Inl err) | Inr n \<Rightarrow> join_server e n))"

text \<open>\<^verbatim>\<open>cleanup\<close> with the thread of the server; the memory that it frees is not used again.\<close>

definition net_cleanup :: "net_env \<Rightarrow> net \<Rightarrow> net run" where
  "net_cleanup e n = join_server e (n\<lparr>stay_alive := False, c_closed := True\<rparr>)"

type_synonym net_state = "world \<times> net"

definition net_give_up :: "net_env \<Rightarrow> net_state rws \<Rightarrow> (int \<times> net_state rws) run" where
  "net_give_up e = (\<lambda>(r, w, n). bind_run (net_cleanup e n) (\<lambda>n. Some (bind_res (free_chain r 0) (\<lambda>r. Inr (-1, r, w, n)))))"

text \<open>
  One exchange.  A return value \<open>0\<close> of \<^verbatim>\<open>recv\<close>, which says that the server has gone, is not an error
  here.
\<close>

definition net_step :: "net_env \<Rightarrow> int \<Rightarrow> net_state rws \<Rightarrow> (int \<times> net_state rws) run" where
  "net_step e msg_size = (\<lambda>(r, w, n). case get_cur_time w of (None, w) \<Rightarrow> net_give_up e (r, w, n)
     | (Some start_time, w) \<Rightarrow>
         if \<not> (linked n \<and> ne_send e (tick_no n)) then net_give_up e (r, w, n) else
         bind_run (wait_reply e (n\<lparr>to_server := to_server n @ c_buf n, c_at := 0, c_left := msg_size, c_ret := None\<rparr>)) (\<lambda>n.
         case get_cur_time w of (None, w) \<Rightarrow> net_give_up e (r, w, n)
         | (Some end_time, w) \<Rightarrow> if c_ret n = Some (-1) then net_give_up e (r, w, n) else
             Some (bind_res (get_time_diff start_time end_time) (\<lambda>time_diff.
               bind_res (add_entry r time_diff 0) (\<lambda>r. Inr (0, r, w, n))))))"

definition net_run :: "net_env \<Rightarrow> int \<Rightarrow> int \<Rightarrow> net_state rws \<Rightarrow> (int \<times> net_state rws) run" where
  "net_run e iters msg_size = (\<lambda>(r, w, n).
     iterate (nat iters) (net_step e msg_size) (r, w, n\<lparr>c_buf := msg_alloc_init msg_size\<rparr>))"

section \<open>The test\<close>

definition server_listens :: "net_env \<Rightarrow> bool" where
  "server_listens e \<longleftrightarrow> (\<forall>i \<in> set [0..<5]. ne_server e i)"

text \<open>The server before the client has connected; a failure of one of its calls ends it.\<close>

definition start_net :: "net_env \<Rightarrow> int \<Rightarrow> net" where
  "start_net e iters = \<lparr>tick_no = 0, linked = False, stay_alive = True, c_closed = False, s_closed = False, to_server = [], to_client = [],
     c_buf = [], c_at = 0, c_left = 0, c_ret = None, spc = (if server_listens e then S_Accept else S_Done), s_iters = iters, s_i = 0,
     s_size = 512, s_buf = replicate (30 * 512) (CHR 0x00), s_at = 0, s_left = 0\<rparr>"

function connect_loop :: "net_env \<Rightarrow> nat \<Rightarrow> world \<Rightarrow> (bool \<times> world) option" where
  "connect_loop e retry w = (if server_listens e \<and> ne_connect e retry then Some (True, w)
     else if retry \<le> 10 then (case do_nano_sleep w (400 * 1000000) of None \<Rightarrow> None | Some (rc, w) \<Rightarrow> connect_loop e (Suc retry) w)
     else Some (False, w))"
  by auto
termination by (relation "measure (\<lambda>(e, retry, w). 12 - retry)") auto

declare connect_loop.simps [simp del]

text \<open>
  Without the address of the host the test frees the arguments that the server still reads.
\<close>

definition net_io_config :: "(f64 \<Rightarrow> f64 \<Rightarrow> f64) \<Rightarrow> net_env \<Rightarrow> test_fn" where
  "net_io_config pw e args bmtest env = (let new_iters = bt_iterations bmtest; n = start_net e new_iters in
     bind_run (Some (get_min_exec_time (te_table env))) (\<lambda>clock_accuracy.
     if fst (set_pthreadattr_sched_param (ne_lib e) pthread_attr_init SCHED_FIFO (se_max (ne_lib e) - 10)) < 0 then Some (Inr (-1, env)) else
     if \<not> se_create (ne_lib e) 0 then Some (Inr (-1, env)) else
     if get_local_address e < 0 then Some (if server_listens e then Inl Uninitialised else Inr (-1, env)) else
     if \<not> ne_socket e \<or> \<not> ne_option e then bind_run (net_cleanup e n) (\<lambda>n. Some (Inr (-1, env))) else
     (case connect_loop e 0 (te_world env) of None \<Rightarrow> None | Some (conn, w) \<Rightarrow>
     bind_run (Some (bind_res (create_test_result 1 new_iters) (\<lambda>rs. aread rs 0))) (\<lambda>r.
     bind_run (retry_loop (net_run e new_iters) (retry_step clock_accuracy (rt_mode args) (te_vals env) (bt_threshold bmtest)) 512 0
         (r, w, n\<lparr>linked := conn\<rparr>)) (\<lambda>(rc, msg_size, r, w, n).
     if rc = -1 then Some (Inr (-1, env\<lparr>te_world := w\<rparr>)) else
     bind_run (Some (add_result_to_result_table2 pw (te_table env) (r\<lparr>opern_amount := msg_size\<rparr>) NETIO_CONFIG bmtest)) (\<lambda>table.
     bind_run (net_cleanup e n) (\<lambda>n. Some (Inr (0, env\<lparr>te_table := table, te_world := w\<rparr>)))))))))"

section \<open>Receiving keeps every byte\<close>

lemma store_empty [simp]: "store buf pos [] = (if pos \<le> length buf then Inr buf else Inl Out_of_bounds)"
  by (simp add: store_def)

text \<open>A turn that gets bytes: what the buffer holds and what is still in the stream are the message.\<close>

lemma recv_turn_bytes:
  assumes "stream \<noteq> []" and "take pos buf @ stream = msg" "left = int (length msg) - int pos" "length msg \<le> length buf" "pos < length msg"
  obtains k where "1 \<le> k" "k \<le> length stream" and "length stream = nat left"
    "recv_turn (Upto a) stream shut buf pos left = Some (Inr (k < length stream, int k, take pos buf @ take k stream @ drop (pos + k) buf,
       if k < length stream then pos + k else pos, if k < length stream then left - int k else left, drop k stream))"
proof -
  have len: "length stream = nat left" "0 < left" using assms by auto
  define k where "k = max 1 (min a (min (nat left) (length stream)))"
  have k: "1 \<le> k" "k \<le> length stream" using len by (auto simp: k_def)
  have fits: "pos + k \<le> length buf" using k(2) len assms(3,4) by linarith
  have "recv_call (Upto a) stream shut left = Some (int k, False, take k stream)"
    using assms(1) by (simp add: recv_call_def k_def Let_def)
  moreover have "int k < left \<longleftrightarrow> k < length stream" using len by linarith
  ultimately have "recv_turn (Upto a) stream shut buf pos left = Some (Inr (k < length stream, int k, take pos buf @ take k stream @ drop (pos + k) buf,
       if k < length stream then pos + k else pos, if k < length stream then left - int k else left, drop k stream))"
    using k fits by (simp add: recv_turn_def store_def)
  with k len(1) show thesis by (rule that)
qed

lemma recv_turn_waits: "pos \<le> length buf \<Longrightarrow> ans \<noteq> Recv_error \<Longrightarrow> recv_turn ans [] False buf pos left = None
    \<or> ans = Eintr \<and> recv_turn ans [] False buf pos left = Some (Inr (True, -1, buf, pos, left, []))"
  by (cases ans) (simp_all add: recv_turn_def recv_call_def)

lemma recv_turn_eintr: "pos \<le> length buf \<Longrightarrow> recv_turn Eintr stream shut buf pos left = Some (Inr (True, -1, buf, pos, left, stream))"
  by (simp add: recv_turn_def recv_call_def)

lemma recv_turn_ended: "pos \<le> length buf \<Longrightarrow> recv_turn (Upto a) [] True buf pos left = Some (Inr (False, 0, buf, pos, left, []))"
  by (simp add: recv_turn_def recv_call_def)

text \<open>Whatever the environment answers, a turn stays within its buffer.\<close>

lemma recv_turn_fits:
  assumes "pos + nat left \<le> length buf" "0 < left"
  shows "recv_turn ans stream shut buf pos left = None \<or> (\<exists>retry ret buf' pos' left' stream'.
    recv_turn ans stream shut buf pos left = Some (Inr (retry, ret, buf', pos', left', stream')) \<and> length buf' = length buf
    \<and> (retry \<longrightarrow> pos' + nat left' \<le> length buf \<and> 0 < left'))"
proof (cases ans)
  case (Upto a)
  show ?thesis
  proof (cases "stream = []")
    case False
    define k where "k = max 1 (min a (min (nat left) (length stream)))"
    have k: "1 \<le> k" "k \<le> length stream" "k \<le> nat left" using assms(2) False by (auto simp: k_def Suc_le_eq)
    have "recv_call ans stream shut left = Some (int k, False, take k stream)"
      using Upto False by (simp add: recv_call_def k_def Let_def)
    then have "recv_turn ans stream shut buf pos left = Some (Inr (int k < left, int k, take pos buf @ take k stream @ drop (pos + k) buf,
        if int k < left then pos + k else pos, if int k < left then left - int k else left, drop k stream))"
      using k assms(1) by (simp add: recv_turn_def store_def)
    moreover have "length (take pos buf @ take k stream @ drop (pos + k) buf) = length buf" using k(2,3) assms(1) by simp
    moreover have "pos + k + nat (left - int k) \<le> length buf" if "int k < left" using that assms(1) by linarith
    ultimately show ?thesis by simp
  qed (use Upto assms in \<open>auto simp: recv_turn_def recv_call_def\<close>)
qed (use assms in \<open>auto simp: recv_turn_def recv_call_def\<close>)

text \<open>The bounds of the two buffers.\<close>

definition net_typed :: "net \<Rightarrow> bool" where
  "net_typed n \<longleftrightarrow> 0 < s_size n \<and> is_int (s_size n) \<and> s_size n \<le> int (length (s_buf n))
     \<and> (spc n = S_Recv \<longrightarrow> s_at n + nat (s_left n) \<le> length (s_buf n) \<and> 0 < s_left n)
     \<and> (c_ret n = None \<longrightarrow> c_at n + nat (c_left n) \<le> length (c_buf n) \<and> 0 < c_left n)"

lemma client_step_typed:
  assumes "net_typed n"
  shows "\<exists>n'. (case client_step e n of None \<Rightarrow> Inr n | Some r \<Rightarrow> r) = Inr n' \<and> net_typed n'"
proof (cases "c_ret n = None")
  case True
  then have c: "c_at n + nat (c_left n) \<le> length (c_buf n)" "0 < c_left n" using assms by (simp_all add: net_typed_def)
  then show ?thesis using True assms recv_turn_fits [OF c, of "ne_recv e (tick_no n)" "to_client n" "s_closed n"]
    by (auto simp: client_step_def net_typed_def)
qed (use assms in \<open>simp add: client_step_def\<close>)

lemma server_step_typed:
  assumes "net_typed n"
  shows "(case server_step e n of None \<Rightarrow> Inr n | Some r \<Rightarrow> r) = Inl Overflow
    \<or> (\<exists>n'. (case server_step e n of None \<Rightarrow> Inr n | Some r \<Rightarrow> r) = Inr n' \<and> net_typed n')"
proof (cases "spc n")
  case S_Recv
  then have c: "s_at n + nat (s_left n) \<le> length (s_buf n)" "0 < s_left n" using assms by (simp_all add: net_typed_def)
  from recv_turn_fits [OF c, of "ne_recv e (tick_no n)" "to_server n" "c_closed n"] show ?thesis
  proof (elim disjE exE conjE)
    fix retry ret buf' pos' left' stream'
    assume t: "recv_turn (ne_recv e (tick_no n)) (to_server n) (c_closed n) (s_buf n) (s_at n) (s_left n)
        = Some (Inr (retry, ret, buf', pos', left', stream'))"
      and b: "length buf' = length (s_buf n)" "retry \<longrightarrow> pos' + nat left' \<le> length (s_buf n) \<and> 0 < left'"
    let ?n = "n\<lparr>s_buf := buf', s_at := pos', s_left := left', to_server := stream'\<rparr>"
    have "server_step e n = Some (Inr (if retry then ?n else if ret \<le> 0 then server_leaves ?n else ?n\<lparr>spc := S_Send\<rparr>))"
      using t S_Recv by (simp add: server_step_def Let_def)
    moreover have "net_typed (if retry then ?n else if ret \<le> 0 then server_leaves ?n else ?n\<lparr>spc := S_Send\<rparr>)"
      using b assms S_Recv by (simp add: net_typed_def server_leaves_def)
    ultimately show ?thesis by simp
  qed (use assms S_Recv in \<open>simp add: server_step_def\<close>)
next
  case S_For
  then show ?thesis using assms by (cases "is_int (s_size n * 2)") (auto simp: server_step_def net_typed_def chk_int_ok chk_int_def)
qed (use assms in \<open>auto simp: server_step_def server_leaves_def net_typed_def\<close>)

section \<open>The phases of an exchange\<close>

text \<open>The connection is up and the server is on its way to receive message \<open>i\<close> of size \<open>q\<close>.\<close>

definition awaits :: "int \<Rightarrow> int \<Rightarrow> net \<Rightarrow> bool" where
  "awaits q i n \<longleftrightarrow> 0 < q \<and> is_int q \<and> (case spc n of
     S_Accept \<Rightarrow> s_size n = q \<and> i = 0 \<and> q \<le> int (length (s_buf n))
   | S_Alive \<Rightarrow> s_size n = q \<and> i = 0 \<and> q \<le> int (length (s_buf n))
   | S_For \<Rightarrow> if s_i n < s_iters n then s_size n = q \<and> s_i n = i \<and> q \<le> int (length (s_buf n)) else s_size n * 2 = q \<and> i = 0
   | S_Recv \<Rightarrow> s_size n = q \<and> s_i n = i \<and> s_at n = 0 \<and> s_left n = q \<and> q \<le> int (length (s_buf n))
   | _ \<Rightarrow> False)"

definition up :: "int \<Rightarrow> net \<Rightarrow> bool" where
  "up iters n \<longleftrightarrow> linked n \<and> stay_alive n \<and> \<not> c_closed n \<and> \<not> s_closed n \<and> s_iters n = iters \<and> 0 < iters"

definition asked :: "int \<Rightarrow> int \<Rightarrow> int \<Rightarrow> string \<Rightarrow> net \<Rightarrow> bool" where
  "asked iters q i msg n \<longleftrightarrow> up iters n \<and> i < iters \<and> int (length msg) = q \<and> 0 < q \<and> is_int q
     \<and> to_client n = [] \<and> c_buf n = msg \<and> c_at n = 0 \<and> c_left n = q \<and> c_ret n = None
     \<and> (spc n \<noteq> S_Recv \<and> awaits q i n \<and> to_server n = msg
       \<or> spc n = S_Recv \<and> s_size n = q \<and> s_i n = i \<and> s_left n = q - int (s_at n) \<and> int (s_at n) < q
         \<and> take (s_at n) (s_buf n) @ to_server n = msg \<and> q \<le> int (length (s_buf n))
       \<or> spc n = S_Send \<and> s_size n = q \<and> s_i n = i \<and> to_server n = [] \<and> take (nat q) (s_buf n) = msg \<and> q \<le> int (length (s_buf n)))"

definition answered :: "int \<Rightarrow> int \<Rightarrow> int \<Rightarrow> string \<Rightarrow> net \<Rightarrow> bool" where
  "answered iters q i msg n \<longleftrightarrow> up iters n \<and> awaits q i n \<and> to_server n = [] \<and> c_ret n = None
     \<and> take (c_at n) (c_buf n) @ to_client n = msg \<and> length (c_buf n) = length msg \<and> c_left n = int (length msg) - int (c_at n)
     \<and> c_at n < length msg"

definition exchanged :: "int \<Rightarrow> int \<Rightarrow> int \<Rightarrow> string \<Rightarrow> net \<Rightarrow> bool" where
  "exchanged iters q i msg n \<longleftrightarrow> up iters n \<and> awaits q i n \<and> to_server n = [] \<and> to_client n = [] \<and> c_buf n = msg
     \<and> (\<exists>ret. c_ret n = Some ret \<and> 0 < ret)"

text \<open>What an environment without failures does.\<close>

definition net_fair :: "net_env \<Rightarrow> bool" where
  "net_fair e \<longleftrightarrow> (\<forall>k. ne_recv e k \<noteq> Recv_error) \<and> (\<forall>k. ne_accept e k) \<and> (\<forall>k. ne_send e k)
     \<and> (\<forall>k. \<exists>l \<ge> k. ne_client e l \<and> ne_recv e l \<noteq> Eintr) \<and> (\<forall>k. \<exists>l \<ge> k. \<not> ne_client e l \<and> ne_recv e l \<noteq> Eintr)"

section \<open>The steps\<close>

text \<open>Without a message the server comes as far as its call of \<^verbatim>\<open>recv\<close>.\<close>

lemma server_idle:
  assumes "up iters n" "awaits q i n" "to_server n = []" and "net_fair e"
  shows "\<exists>n'. (case server_step e n of None \<Rightarrow> Inr n | Some r \<Rightarrow> r) = Inr n' \<and> up iters n' \<and> awaits q i n' \<and> to_server n' = []
    \<and> to_client n' = to_client n \<and> c_buf n' = c_buf n \<and> c_at n' = c_at n \<and> c_left n' = c_left n \<and> c_ret n' = c_ret n \<and> tick_no n' = tick_no n"
proof (cases "spc n")
  case S_Recv
  then have "recv_turn (ne_recv e (tick_no n)) [] False (s_buf n) (s_at n) (s_left n) = None
    \<or> recv_turn (ne_recv e (tick_no n)) [] False (s_buf n) (s_at n) (s_left n) = Some (Inr (True, -1, s_buf n, s_at n, s_left n, []))"
    using assms(2,4) recv_turn_waits [of "s_at n" "s_buf n" "ne_recv e (tick_no n)"] by (auto simp: awaits_def net_fair_def)
  then show ?thesis using S_Recv assms(1-3) by (auto simp: server_step_def up_def awaits_def)
qed (use assms in \<open>auto simp: server_step_def up_def awaits_def net_fair_def server_leaves_def chk_int_ok is_int_def\<close>)

lemma client_waits:
  assumes "asked iters q i msg n" and "net_fair e"
  shows "(case client_step e n of None \<Rightarrow> Inr n | Some r \<Rightarrow> r) = Inr n"
proof -
  have n: "to_client n = []" "c_at n = 0" "c_ret n = None" "\<not> s_closed n" using assms(1) by (simp_all add: asked_def up_def)
  have "recv_turn (ne_recv e (tick_no n)) [] False (c_buf n) 0 (c_left n) = None
    \<or> recv_turn (ne_recv e (tick_no n)) [] False (c_buf n) 0 (c_left n) = Some (Inr (True, -1, c_buf n, 0, c_left n, []))"
    using assms(2) recv_turn_waits [of 0 "c_buf n" "ne_recv e (tick_no n)"] by (auto simp: net_fair_def)
  then show ?thesis using n by (auto simp: client_step_def)
qed

definition ask_rank :: "net \<Rightarrow> nat" where
  "ask_rank n = length (to_server n) + (case spc n of S_Accept \<Rightarrow> 6 | S_Alive \<Rightarrow> 4 | S_For \<Rightarrow> if s_i n < s_iters n then 3 else 5
     | S_Recv \<Rightarrow> 2 | S_Send \<Rightarrow> 1 | S_Done \<Rightarrow> 0)"

text \<open>After the last iteration the server expects twice as much.\<close>

definition next_q :: "int \<Rightarrow> int \<Rightarrow> int \<Rightarrow> int" where
  "next_q iters q i = (if i + 1 < iters then q else q * 2)"

definition next_i :: "int \<Rightarrow> int \<Rightarrow> int" where
  "next_i iters i = (if i + 1 < iters then i + 1 else 0)"

lemma server_receives:
  assumes "asked iters q i msg n" "spc n = S_Recv" "ne_recv e (tick_no n) = Upto a"
  shows "\<exists>n'. server_step e n = Some (Inr n') \<and> tick_no n' = tick_no n \<and> asked iters q i msg n' \<and> ask_rank n' < ask_rank n"
proof -
  have n: "s_size n = q" "s_i n = i" "s_left n = int (length msg) - int (s_at n)" "s_at n < length msg"
    "take (s_at n) (s_buf n) @ to_server n = msg" "length msg \<le> length (s_buf n)" "int (length msg) = q"
    using assms(1,2) by (auto simp: asked_def)
  have ne: "to_server n \<noteq> []"
  proof
    assume "to_server n = []"
    then have "length msg = s_at n" using n(4-6) by (metis append.right_neutral length_take less_imp_le_nat min.absorb2 order_trans)
    with n(4) show False by simp
  qed
  obtain k where k: "1 \<le> k" "k \<le> length (to_server n)" "length (to_server n) = nat (s_left n)"
    "recv_turn (Upto a) (to_server n) (c_closed n) (s_buf n) (s_at n) (s_left n) = Some (Inr (k < length (to_server n), int k,
       take (s_at n) (s_buf n) @ take k (to_server n) @ drop (s_at n + k) (s_buf n),
       if k < length (to_server n) then s_at n + k else s_at n, if k < length (to_server n) then s_left n - int k else s_left n, drop k (to_server n)))"
    using recv_turn_bytes [OF ne n(5,3,6,4)] .
  let ?buf = "take (s_at n) (s_buf n) @ take k (to_server n) @ drop (s_at n + k) (s_buf n)"
  have fits: "s_at n + k \<le> length msg" using k(2,3) n(3,4) by linarith
  then have len: "length ?buf = length (s_buf n)" using n(4,6) k(2) by simp
  have pre: "take (s_at n + k) ?buf = take (s_at n) (s_buf n) @ take k (to_server n)"
    using n(4,6) k(2) fits by simp
  then have all: "take (s_at n + k) ?buf @ drop k (to_server n) = msg" unfolding pre using n(5) by simp
  show ?thesis
  proof (cases "k < length (to_server n)")
    case True
    then have "s_at n + k < length msg" using k(3) n(3,4) by linarith
    with True k assms n len all show ?thesis by (auto simp: server_step_def asked_def ask_rank_def up_def awaits_def)
  next
    case False
    then have e: "k = length (to_server n)" "s_at n + k = length msg" using k(2,3) n(3,4) by linarith+
    then have "take (length msg) ?buf = msg" using all by simp
    then have "take (nat q) ?buf = msg" using n(7) by (metis nat_int)
    with False e k assms n len show ?thesis by (auto simp: server_step_def asked_def ask_rank_def up_def awaits_def)
  qed
qed

lemma server_asked:
  assumes "asked iters q i msg n" "net_fair e" "is_int (q * 2)"
  shows "\<exists>n'. (case server_step e n of None \<Rightarrow> Inr n | Some r \<Rightarrow> r) = Inr n' \<and> tick_no n' = tick_no n
    \<and> (answered iters (next_q iters q i) (next_i iters i) msg n' \<or> asked iters q i msg n' \<and> ask_rank n' \<le> ask_rank n
      \<and> (ne_recv e (tick_no n) \<noteq> Eintr \<longrightarrow> ask_rank n' < ask_rank n))"
proof (cases "spc n")
  case S_Recv
  show ?thesis
  proof (cases "ne_recv e (tick_no n)")
    case (Upto a)
    then show ?thesis using server_receives [OF assms(1) S_Recv Upto] by auto
  next
    case Eintr
    have "s_at n \<le> length (s_buf n)" using assms(1) S_Recv by (auto simp: asked_def)
    then have "server_step e n = Some (Inr n)" using Eintr S_Recv recv_turn_eintr [of "s_at n" "s_buf n" "to_server n" "c_closed n" "s_left n"]
      by (cases n) (simp add: server_step_def)
    then show ?thesis using assms(1) Eintr by simp
  qed (use assms(2) in \<open>auto simp: net_fair_def\<close>)
next
  case S_Send
  have m: "take (nat q) (s_buf n) = msg" "int (length msg) = q" "s_size n = q" "s_i n = i" "q \<le> int (length (s_buf n))" "to_server n = []"
    using assms(1) S_Send by (auto simp: asked_def awaits_def)
  have a: "i < iters" "up iters n" "0 < q" "is_int q" "to_client n = []" "c_buf n = msg" "c_at n = 0" "c_left n = q" "c_ret n = None"
    using assms(1) by (simp_all add: asked_def)
  let ?n = "n\<lparr>to_client := to_client n @ take (nat (s_size n)) (s_buf n), s_i := s_i n + 1, spc := S_For\<rparr>"
  have "server_step e n = Some (Inr ?n)" using S_Send m assms(2) by (simp add: server_step_def net_fair_def)
  moreover have "answered iters (next_q iters q i) (next_i iters i) msg ?n"
    using m a assms(3) by (auto simp: answered_def up_def awaits_def next_q_def next_i_def)
  ultimately show ?thesis by auto
qed (use assms in \<open>auto simp: asked_def server_step_def up_def awaits_def net_fair_def server_leaves_def chk_int_ok is_int_def ask_rank_def\<close>)

lemma client_frame:
  "awaits q i (n\<lparr>c_buf := b\<rparr>) = awaits q i n" "up iters (n\<lparr>c_buf := b\<rparr>) = up iters n"
  "awaits q i (n\<lparr>c_at := a\<rparr>) = awaits q i n" "up iters (n\<lparr>c_at := a\<rparr>) = up iters n"
  "awaits q i (n\<lparr>c_left := l\<rparr>) = awaits q i n" "up iters (n\<lparr>c_left := l\<rparr>) = up iters n"
  "awaits q i (n\<lparr>to_client := t\<rparr>) = awaits q i n" "up iters (n\<lparr>to_client := t\<rparr>) = up iters n"
  "awaits q i (n\<lparr>c_ret := r\<rparr>) = awaits q i n" "up iters (n\<lparr>c_ret := r\<rparr>) = up iters n"
  "awaits q i (n\<lparr>to_server := u\<rparr>) = awaits q i n" "up iters (n\<lparr>to_server := u\<rparr>) = up iters n"
  by (simp_all add: awaits_def up_def cong: s_pc.case_cong)

lemma client_receives:
  assumes "answered iters q i msg n" "net_fair e"
  shows "\<exists>n'. (case client_step e n of None \<Rightarrow> Inr n | Some r \<Rightarrow> r) = Inr n' \<and> tick_no n' = tick_no n
    \<and> (exchanged iters q i msg n' \<or> answered iters q i msg n' \<and> length (to_client n') \<le> length (to_client n)
      \<and> (ne_recv e (tick_no n) \<noteq> Eintr \<longrightarrow> length (to_client n') < length (to_client n)))"
proof (cases "ne_recv e (tick_no n)")
  case (Upto a)
  have n: "c_left n = int (length msg) - int (c_at n)" "c_at n < length msg" "take (c_at n) (c_buf n) @ to_client n = msg"
    "length msg \<le> length (c_buf n)" "length (c_buf n) = length msg" "c_ret n = None"
    using assms(1) by (simp_all add: answered_def)
  have ne: "to_client n \<noteq> []"
  proof
    assume "to_client n = []"
    then have "length msg = c_at n" using n(2-4) by (metis append.right_neutral length_take less_imp_le_nat min.absorb2 order_trans)
    with n(2) show False by simp
  qed
  obtain k where k: "1 \<le> k" "k \<le> length (to_client n)" "length (to_client n) = nat (c_left n)"
    "recv_turn (Upto a) (to_client n) (s_closed n) (c_buf n) (c_at n) (c_left n) = Some (Inr (k < length (to_client n), int k,
       take (c_at n) (c_buf n) @ take k (to_client n) @ drop (c_at n + k) (c_buf n),
       if k < length (to_client n) then c_at n + k else c_at n, if k < length (to_client n) then c_left n - int k else c_left n, drop k (to_client n)))"
    using recv_turn_bytes [OF ne n(3,1,4,2)] .
  let ?buf = "take (c_at n) (c_buf n) @ take k (to_client n) @ drop (c_at n + k) (c_buf n)"
  have fits: "c_at n + k \<le> length msg" using k(2,3) n(1,2) by linarith
  then have len: "length ?buf = length msg" using n(2,5) k(2) by simp
  have pre: "take (c_at n + k) ?buf = take (c_at n) (c_buf n) @ take k (to_client n)" using n(2,5) k(2) fits by simp
  then have all: "take (c_at n + k) ?buf @ drop k (to_client n) = msg" unfolding pre using n(3) by simp
  show ?thesis
  proof (cases "k < length (to_client n)")
    case True
    then have "c_at n + k < length msg" using k(3) n(1,2) by linarith
    moreover have "client_step e n = Some (Inr (n\<lparr>c_buf := ?buf, c_at := c_at n + k, c_left := c_left n - int k, to_client := drop k (to_client n),
        c_ret := None\<rparr>))"
      using True k(4) Upto n(6) by (simp add: client_step_def)
    moreover have "length (to_client n) - k < length (to_client n)" using True k(1) by linarith
    ultimately show ?thesis using assms(1) n(1) len all by (simp add: answered_def client_frame)
  next
    case False
    then have e: "k = length (to_client n)" "c_at n + k = length msg" using k(2,3) n(1,2) by linarith+
    then have "?buf = msg" using all len by simp
    moreover have "client_step e n = Some (Inr (n\<lparr>c_buf := ?buf, c_at := c_at n, c_left := c_left n, to_client := drop k (to_client n),
        c_ret := Some (int k)\<rparr>))"
      using False k(4) Upto n(6) by (simp add: client_step_def)
    ultimately show ?thesis using e(1) k(1) assms(1) by (cases "to_client n") (simp_all add: exchanged_def answered_def client_frame)
  qed
next
  case Eintr
  have "c_at n \<le> length (c_buf n)" "c_ret n = None" using assms(1) by (simp_all add: answered_def)
  then have "client_step e n = Some (Inr n)" using Eintr recv_turn_eintr [of "c_at n" "c_buf n" "to_client n" "s_closed n" "c_left n"]
    by (cases n) (simp add: client_step_def)
  then show ?thesis using assms(1) Eintr by simp
qed (use assms(2) in \<open>auto simp: net_fair_def\<close>)

section \<open>Runs\<close>

text \<open>A loop that repeats a step comes to its goal when a measure never grows and falls at helpful ticks.\<close>

lemma runs_until:
  assumes loop: "\<And>n. \<not> stop n \<Longrightarrow> run n = (case step n of Inl err \<Rightarrow> Some (Inl err) | Inr n \<Rightarrow> run n)"
    and step: "\<And>n. keeps n \<Longrightarrow> \<not> stop n \<and> (\<exists>n'. step n = Inr n' \<and> tick_no n' = Suc (tick_no n)
      \<and> (goal n' \<or> keeps n' \<and> f n' \<le> f n \<and> (helps (tick_no n) \<longrightarrow> f n' < (f n :: nat))))"
    and helped: "\<And>k. \<exists>l \<ge> k. helps l"
  shows "keeps n \<Longrightarrow> \<exists>n'. run n = run n' \<and> goal n'"
proof (induction "f n" arbitrary: n rule: less_induct)
  case less
  obtain l where l: "tick_no n \<le> l" "helps l" using helped by blast
  have "\<exists>n'. run m = run n' \<and> goal n'" if "keeps m" "f m \<le> f n" "tick_no m \<le> l" for m
    using that
  proof (induction "l - tick_no m" arbitrary: m)
    case 0
    then have "helps (tick_no m)" using l(2) by simp
    with step [OF "0.prems"(1)] obtain m' where m': "step m = Inr m'" "\<not> stop m" "goal m' \<or> keeps m' \<and> f m' < f m" by blast
    then have "run m = run m'" by (simp add: loop)
    with m'(3) less.hyps [of m'] "0.prems"(2) show ?case by force
  next
    case (Suc d)
    obtain m' where m': "step m = Inr m'" "\<not> stop m" "tick_no m' = Suc (tick_no m)" "goal m' \<or> keeps m' \<and> f m' \<le> f m"
      using step [OF Suc.prems(1)] by blast
    then have "run m = run m'" by (simp add: loop)
    moreover have "d = l - tick_no m'" "tick_no m' \<le> l" using Suc.hyps(2) m'(3) by linarith+
    ultimately show ?case using Suc.hyps(1) [of m'] m'(4) Suc.prems(2) by force
  qed
  then show ?case using less.prems l(1) by blast
qed

lemma later_state: "awaits q i (n\<lparr>tick_no := k\<rparr>) = awaits q i n" "up iters (n\<lparr>tick_no := k\<rparr>) = up iters n"
  "asked iters q i msg (n\<lparr>tick_no := k\<rparr>) = asked iters q i msg n" "answered iters q i msg (n\<lparr>tick_no := k\<rparr>) = answered iters q i msg n"
  "exchanged iters q i msg (n\<lparr>tick_no := k\<rparr>) = exchanged iters q i msg n" "ask_rank (n\<lparr>tick_no := k\<rparr>) = ask_rank n"
  by (simp_all add: awaits_def up_def asked_def answered_def exchanged_def ask_rank_def cong: s_pc.case_cong)

lemma wait_step: "c_ret n = None \<Longrightarrow> wait_reply e n = (case net_tick e n of Inl err \<Rightarrow> Some (Inl err) | Inr n \<Rightarrow> wait_reply e n)"
  by (subst wait_reply.simps) simp

lemma server_idle_answered:
  assumes "answered iters q i msg n" "net_fair e"
  shows "\<exists>n'. (case server_step e n of None \<Rightarrow> Inr n | Some r \<Rightarrow> r) = Inr n' \<and> answered iters q i msg n' \<and> to_client n' = to_client n \<and> tick_no n' = tick_no n"
proof -
  have "up iters n" "awaits q i n" "to_server n = []" using assms(1) by (simp_all add: answered_def)
  from server_idle [OF this assms(2)] show ?thesis using assms(1) unfolding answered_def by metis
qed

text \<open>Every exchange ends: the client has received what it sent, and the server waits for the next message.\<close>

lemma exchange_ends:
  assumes "asked iters q i msg n" "net_fair e" "is_int (q * 2)"
  shows "\<exists>n'. wait_reply e n = Some (Inr n') \<and> exchanged iters (next_q iters q i) (next_i iters i) msg n'"
proof -
  let ?q = "next_q iters q i" and ?i = "next_i iters i"
  have "\<exists>n'. wait_reply e n = wait_reply e n' \<and> answered iters ?q ?i msg n'"
  proof (rule runs_until [where stop = "\<lambda>n. c_ret n \<noteq> None" and step = "net_tick e" and keeps = "asked iters q i msg" and f = ask_rank
        and helps = "\<lambda>k. \<not> ne_client e k \<and> ne_recv e k \<noteq> Eintr"])
    fix n assume n: "asked iters q i msg n"
    show "\<not> c_ret n \<noteq> None \<and> (\<exists>n'. net_tick e n = Inr n' \<and> tick_no n' = Suc (tick_no n) \<and> (answered iters ?q ?i msg n' \<or>
        asked iters q i msg n' \<and> ask_rank n' \<le> ask_rank n \<and> (\<not> ne_client e (tick_no n) \<and> ne_recv e (tick_no n) \<noteq> Eintr \<longrightarrow> ask_rank n' < ask_rank n)))"
      using n server_asked [OF n assms(2,3)] client_waits [OF n assms(2)]
      by (auto simp: net_tick_def pass_tick_def later_state asked_def [of _ _ _ _ n])
  qed (use assms wait_step in \<open>auto simp: net_fair_def\<close>)
  then obtain n1 where n1: "wait_reply e n = wait_reply e n1" "answered iters ?q ?i msg n1" by blast
  have "\<exists>n'. wait_reply e n1 = wait_reply e n' \<and> exchanged iters ?q ?i msg n'"
  proof (rule runs_until [where stop = "\<lambda>n. c_ret n \<noteq> None" and step = "net_tick e" and keeps = "answered iters ?q ?i msg"
        and f = "\<lambda>n. length (to_client n)" and helps = "\<lambda>k. ne_client e k \<and> ne_recv e k \<noteq> Eintr"])
    fix n assume n: "answered iters ?q ?i msg n"
    have "c_ret n = None" using n by (simp add: answered_def)
    then show "\<not> c_ret n \<noteq> None \<and> (\<exists>n'. net_tick e n = Inr n' \<and> tick_no n' = Suc (tick_no n) \<and> (exchanged iters ?q ?i msg n' \<or>
        answered iters ?q ?i msg n' \<and> length (to_client n') \<le> length (to_client n)
        \<and> (ne_client e (tick_no n) \<and> ne_recv e (tick_no n) \<noteq> Eintr \<longrightarrow> length (to_client n') < length (to_client n))))"
      using server_idle_answered [OF n assms(2)] client_receives [OF n assms(2)]
      by (auto simp: net_tick_def pass_tick_def later_state)
  qed (use assms n1 wait_step in \<open>auto simp: net_fair_def\<close>)
  then obtain n2 where n2: "wait_reply e n1 = wait_reply e n2" "exchanged iters ?q ?i msg n2" by blast
  have "wait_reply e n2 = Some (Inr n2)" using n2(2) by (subst wait_reply.simps) (auto simp: exchanged_def)
  with n1 n2 show ?thesis by auto
qed

section \<open>An attempt\<close>

lemma msg_alloc_length: "length (msg_alloc_init q) = nat q"
  by (simp add: msg_alloc_init_def)

definition between :: "int \<Rightarrow> int \<Rightarrow> int \<Rightarrow> net \<Rightarrow> bool" where
  "between iters q i n \<longleftrightarrow> up iters n \<and> awaits q i n \<and> to_server n = [] \<and> to_client n = []"

text \<open>With \<open>m\<close> iterations left in this attempt, and \<open>extra\<close> after it.\<close>

definition net_inv :: "int \<Rightarrow> int \<Rightarrow> int \<Rightarrow> int \<Rightarrow> nat \<Rightarrow> nat \<Rightarrow> net_state \<Rightarrow> bool" where
  "net_inv iters q lo b extra m = (\<lambda>(w, n). clock_steps lo b (m + extra) w \<and> int m \<le> iters
     \<and> (if m = 0 then between iters (q * 2) 0 n else between iters q (iters - int m) n \<and> c_buf n = msg_alloc_init q))"

lemma net_step_records:
  assumes "net_fair e" and "0 < q" "is_int (q * 2)"
  shows "records_time lo b (net_inv iters q lo b extra) (net_step e q)"
  unfolding records_time_def
proof (intro allI impI)
  fix r s m assume "net_inv iters q lo b extra (Suc m) s"
  moreover obtain w n where s: "s = (w, n)" by (cases s)
  ultimately have c: "clock_steps lo b (Suc (m + extra)) w" and n: "between iters q (iters - int (Suc m)) n" "c_buf n = msg_alloc_init q"
    "int (Suc m) \<le> iters" by (simp_all add: net_inv_def)
  obtain st en where se: "clk w (clk_n w) = Some st" "clk w (Suc (clk_n w)) = Some en"
    "get_time_diff st en = Inr (ts_nsec en - ts_nsec st)" "in_range lo b (ts_nsec en - ts_nsec st)"
    using two_readings [OF c] .
  define w2 where "w2 = w\<lparr>clk_n := Suc (Suc (clk_n w))\<rparr>"
  let ?n = "n\<lparr>to_server := c_buf n, c_at := 0, c_left := q, c_ret := None\<rparr>" and ?i = "iters - int (Suc m)"
  have frame: "up iters ?n" "awaits q ?i ?n" using n(1) by (simp_all add: between_def client_frame)
  then have "asked iters q ?i (msg_alloc_init q) ?n"
    using n assms(2) by (auto simp: asked_def between_def awaits_def msg_alloc_length)
  from exchange_ends [OF this assms(1,3)] obtain n' where
    n': "wait_reply e ?n = Some (Inr n')" "exchanged iters (next_q iters q ?i) (next_i iters ?i) (msg_alloc_init q) n'" by blast
  have "clock_steps lo b (m + extra) w2" by (rule clock_steps_next [OF c]) (simp_all add: w2_def)
  moreover have "next_q iters q ?i = (if m = 0 then q * 2 else q)" "next_i iters ?i = (if m = 0 then 0 else iters - int m)"
    by (auto simp: next_q_def next_i_def)
  ultimately have "net_inv iters q lo b extra m (w2, n')" using n'(2) n(3)
    by (cases "m = 0") (simp_all add: net_inv_def exchanged_def between_def)
  moreover have "net_step e q (r, s) = Some (bind_res (add_entry r (ts_nsec en - ts_nsec st) 0) (\<lambda>r. Inr (0, r, w2, n')))"
    using se n' n(1) assms(1) by (auto simp: net_step_def s get_cur_time_def w2_def between_def up_def net_fair_def exchanged_def)
  ultimately show "\<exists>t s'. in_range lo b t \<and> net_inv iters q lo b extra m s' \<and>
      net_step e q (r, s) = Some (bind_res (add_entry r t 0) (\<lambda>r. Inr (0, r, s')))" using se(4) by blast
qed

definition net_ready :: "net_env \<Rightarrow> int \<Rightarrow> int \<Rightarrow> int \<Rightarrow> int \<Rightarrow> nat \<Rightarrow> net_state \<Rightarrow> bool" where
  "net_ready e iters q lo b m = (\<lambda>(w, n). net_fair e \<and> clock_steps lo b m w \<and> between iters q 0 n)"

interpretation net_body: quantum_body "net_run e" "net_ready e" "INT_MAX div 2" for e
proof unfold_locales
  fix q lo b iters m r and s :: net_state
  assume q: "0 < q" "q \<le> INT_MAX div 2" and s: "net_ready e iters q lo b (nat iters + m) s" and it: "run_ok iters b"
    and r: "recorded r []" "max_entries r = iters"
  obtain w n where wn: "s = (w, n)" by (cases s)
  have q2: "is_int (q * 2)" using q by (simp add: is_int_def)
  have "net_fair e" "clock_steps lo b (nat iters + m) w" "between iters q 0 n" using s wn by (simp_all add: net_ready_def)
  moreover from this(3) have "between iters q 0 (n\<lparr>c_buf := msg_alloc_init q\<rparr>)" by (simp add: between_def client_frame)
  ultimately have "net_inv iters q lo b m (nat iters + 0) (w, n\<lparr>c_buf := msg_alloc_init q\<rparr>)"
    using it by (simp add: net_inv_def run_ok_def)
  from iterate_run [OF net_step_records [OF \<open>net_fair e\<close> q(1) q2] this it r]
  show "\<exists>ts r' w'. net_run e iters q (r, s) = Some (Inr (0, r', w')) \<and> measured lo b iters r' ts \<and> net_ready e iters (q * 2) lo b m w'"
    using \<open>net_fair e\<close> by (auto simp: net_run_def wn net_inv_def net_ready_def)
qed

section \<open>The server ends\<close>

definition leaving :: "net \<Rightarrow> bool" where
  "leaving n \<longleftrightarrow> \<not> stay_alive n \<and> c_closed n \<and> to_server n = [] \<and> (case spc n of S_Accept \<Rightarrow> True | S_Alive \<Rightarrow> True
     | S_For \<Rightarrow> s_i n < s_iters n \<or> is_int (s_size n * 2) | S_Recv \<Rightarrow> s_at n \<le> length (s_buf n) | _ \<Rightarrow> False)"

lemma leaving_step:
  assumes "leaving n" "net_fair e"
  shows "\<exists>n'. (case server_step e n of None \<Rightarrow> Inr n | Some r \<Rightarrow> r) = Inr n' \<and> tick_no n' = tick_no n
    \<and> (spc n' = S_Done \<or> leaving n' \<and> (spc n' = S_For \<longleftrightarrow> False) \<and> (ne_recv e (tick_no n) \<noteq> Eintr \<longrightarrow> spc n = S_For))"
proof (cases "spc n")
  case S_Recv
  then have "s_at n \<le> length (s_buf n)" "to_server n = []" "c_closed n" using assms(1) by (simp_all add: leaving_def)
  then show ?thesis using S_Recv assms recv_turn_eintr [of "s_at n" "s_buf n" "[]" True "s_left n"] recv_turn_ended [of "s_at n" "s_buf n" _ "s_left n"]
    by (cases "ne_recv e (tick_no n)") (simp_all add: server_step_def server_leaves_def leaving_def net_fair_def)
next
  case S_For
  then show ?thesis using assms(1) by (cases "s_i n < s_iters n") (simp_all add: server_step_def leaving_def chk_int_ok)
qed (use assms in \<open>simp_all add: server_step_def server_leaves_def leaving_def\<close>)

lemma leaving_later: "leaving (n\<lparr>tick_no := k\<rparr>) = leaving n"
  by (simp add: leaving_def cong: s_pc.case_cong)

lemma server_joined:
  assumes "between iters q i n" "net_fair e"
  shows "\<exists>n'. net_cleanup e n = Some (Inr n') \<and> spc n' = S_Done"
proof -
  let ?n = "n\<lparr>stay_alive := False, c_closed := True\<rparr>"
  have "leaving ?n" using assms(1) by (auto simp: leaving_def between_def awaits_def split: s_pc.splits if_splits)
  have "\<exists>n'. join_server e ?n = join_server e n' \<and> spc n' = S_Done"
  proof (rule runs_until [where stop = "\<lambda>n. spc n = S_Done" and step = "\<lambda>n. pass_tick n (server_step e n)" and keeps = leaving
        and f = "\<lambda>n. if spc n = S_For then 1 else 0" and helps = "\<lambda>k. ne_recv e k \<noteq> Eintr"])
    fix n assume n: "leaving n"
    then have "spc n \<noteq> S_Done" by (auto simp: leaving_def)
    moreover obtain n1 where "(case server_step e n of None \<Rightarrow> Inr n | Some r \<Rightarrow> r) = Inr n1"
      "spc n1 = S_Done \<or> leaving n1 \<and> spc n1 \<noteq> S_For \<and> (ne_recv e (tick_no n) \<noteq> Eintr \<longrightarrow> spc n = S_For)"
      using leaving_step [OF n assms(2)] by blast
    ultimately show "\<not> spc n = S_Done \<and> (\<exists>n'. pass_tick n (server_step e n) = Inr n' \<and> tick_no n' = Suc (tick_no n) \<and> (spc n' = S_Done \<or>
        leaving n' \<and> (if spc n' = S_For then 1 else 0) \<le> (if spc n = S_For then 1 else (0::nat))
        \<and> (ne_recv e (tick_no n) \<noteq> Eintr \<longrightarrow> (if spc n' = S_For then 1 else 0) < (if spc n = S_For then 1 else (0::nat)))))"
      by (intro conjI exI [of _ "n1\<lparr>tick_no := Suc (tick_no n)\<rparr>"]) (auto simp: pass_tick_def leaving_later)
  next
    fix n :: net assume "\<not> spc n = S_Done"
    then show "join_server e n = (case pass_tick n (server_step e n) of Inl err \<Rightarrow> Some (Inl err) | Inr n \<Rightarrow> join_server e n)"
      by (subst join_server.simps) simp
  qed (use assms(2) \<open>leaving ?n\<close> in \<open>auto simp: net_fair_def\<close>)
  then obtain n' where "join_server e ?n = join_server e n'" "spc n' = S_Done" by blast
  moreover from this(2) have "join_server e n' = Some (Inr n')" by (subst join_server.simps) simp
  ultimately show ?thesis by (auto simp: net_cleanup_def)
qed

lemma connects:
  assumes "server_listens e" "ne_connect e j" "j \<le> 11" "sleep_progress w" "k \<le> j"
  shows "\<exists>w'. connect_loop e k w = Some (True, w') \<and> clk w' = clk w \<and> clk_n w' = clk_n w"
  using assms(4,5)
proof (induction "j - k" arbitrary: k w)
  case 0
  then show ?case using assms(1,2) by (simp add: connect_loop.simps)
next
  case (Suc d)
  show ?case
  proof (cases "ne_connect e k")
    case True
    then show ?thesis using assms(1) by (simp add: connect_loop.simps)
  next
    case False
    obtain rc w1 where w1: "do_nano_sleep w 400000000 = Some (rc, w1)" "clk w1 = clk w" "clk_n w1 = clk_n w" "nsl w1 = nsl w"
      using nano_loop_returns [OF Suc.prems(1)] unfolding do_nano_sleep_def by metis
    have "sleep_progress w1" using Suc.prems(1) w1(4) by (simp add: sleep_progress_def)
    moreover have "d = j - Suc k" "Suc k \<le> j" "k \<le> 10" using Suc.hyps(2) assms(3) by linarith+
    ultimately show ?thesis using Suc.hyps(1) [of "Suc k" w1] False w1 by (subst connect_loop.simps) simp
  qed
qed

section \<open>Properties\<close>

text \<open>
  C18: Under every schedule and every division of the stream into pieces, as long as no call
  fails, an exchange ends: the client has received exactly the bytes that it sent, both streams are
  empty, and the server waits for the next message, which after the last iteration is twice as long.
\<close>

theorem exchange_echoes:
  assumes "between iters q i n" "i < iters" "int (length msg) = q" "is_int (q * 2)" "net_fair e"
  shows "\<exists>n' ret. wait_reply e (n\<lparr>to_server := msg, c_buf := msg, c_at := 0, c_left := q, c_ret := None\<rparr>) = Some (Inr n')
    \<and> c_buf n' = msg \<and> c_ret n' = Some ret \<and> 0 < ret \<and> between iters (next_q iters q i) (next_i iters i) n'"
proof -
  let ?n = "n\<lparr>to_server := msg, c_buf := msg, c_at := 0, c_left := q, c_ret := None\<rparr>"
  have "up iters ?n" "awaits q i ?n" using assms(1) by (simp_all add: between_def client_frame)
  then have "asked iters q i msg ?n" using assms(1-3) by (auto simp: asked_def between_def awaits_def)
  from exchange_ends [OF this assms(5,4)] show ?thesis by (auto simp: exchanged_def between_def)
qed

definition two_pieces :: net_env where
  "two_pieces = \<lparr>ne_lib = fifo_env, ne_server = \<lambda>_. True, ne_host = Some (True, True), ne_socket = True, ne_option = True,
     ne_connect = \<lambda>j. 2 \<le> j, ne_accept = \<lambda>_. True, ne_client = even, ne_recv = \<lambda>_. Upto 300, ne_send = \<lambda>_. True\<rparr>"

lemma two_pieces_fair: "net_fair two_pieces"
proof -
  have "\<exists>l \<ge> k. even l" "\<exists>l \<ge> k. odd l" for k :: nat by (metis dvd_triv_left le_add2 mult_2, metis even_Suc le_SucI dvd_triv_left le_add2 mult_2)
  then show ?thesis by (simp add: net_fair_def two_pieces_def)
qed

theorem exchange_echoes_witness:
  "\<exists>n' ret. wait_reply two_pieces ((start_net two_pieces 1)\<lparr>linked := True, to_server := msg_alloc_init 512, c_buf := msg_alloc_init 512,
      c_at := 0, c_left := 512, c_ret := None\<rparr>) = Some (Inr n')
    \<and> c_buf n' = msg_alloc_init 512 \<and> c_ret n' = Some ret \<and> 0 < ret \<and> between 1 1024 0 n'"
proof -
  have "between 1 512 0 ((start_net two_pieces 1)\<lparr>linked := True\<rparr>)"
    by (simp add: between_def up_def awaits_def start_net_def server_listens_def two_pieces_def is_int_def)
  from exchange_echoes [OF this, of "msg_alloc_init 512" two_pieces] two_pieces_fair show ?thesis
    by (simp add: msg_alloc_length is_int_def next_q_def next_i_def)
qed

text \<open>
  C26: Whatever the environment does, with failures, interrupted calls and a closed connection, no
  step of client or server writes outside its buffer or reads what it has not received into: the bounds of
  both buffers are kept by every tick, and the only fault is the overflow of the size that the server doubles.
\<close>

theorem net_tick_keeps_bounds:
  assumes "net_typed n"
  shows "net_tick e n = Inl Overflow \<or> (\<exists>n'. net_tick e n = Inr n' \<and> net_typed n' \<and> tick_no n' = Suc (tick_no n))"
proof -
  have later: "net_typed (m\<lparr>tick_no := k\<rparr>) = net_typed m" for m k by (simp add: net_typed_def)
  show ?thesis using client_step_typed [OF assms, of e] server_step_typed [OF assms, of e]
    by (auto simp: net_tick_def pass_tick_def later)
qed

theorem net_tick_keeps_bounds_witness:
  "\<exists>n'. net_tick two_pieces ((start_net two_pieces 1)\<lparr>linked := True, c_ret := Some 0\<rparr>) = Inr n' \<and> net_typed n' \<and> tick_no n' = 1"
proof -
  let ?n = "(start_net two_pieces 1)\<lparr>linked := True, c_ret := Some 0\<rparr>"
  have "net_typed ?n" by (simp add: net_typed_def start_net_def is_int_def server_listens_def)
  moreover have "net_tick two_pieces ?n \<noteq> Inl Overflow"
    by (simp add: net_tick_def pass_tick_def start_net_def two_pieces_def client_step_def server_listens_def)
  ultimately show ?thesis using net_tick_keeps_bounds [of ?n two_pieces] by (auto simp: start_net_def)
qed

text \<open>
  C19: When the connection can be made and no call fails, \<^verbatim>\<open>net_io_config\<close> returns \<^verbatim>\<open>SUCCESS\<close> within
  \<^verbatim>\<open>_threshold\<close> attempts for thresholds up to 21, under every fair schedule: its entry holds the
  statistics of the last attempt and the size of its message, and the thread of the server has ended.
\<close>

theorem net_io_config_ends:
  assumes "config_ok clock b args bmtest env" and "clock < of_ll lo" and "1 \<le> bt_threshold bmtest" "bt_threshold bmtest \<le> 21"
    and "clock_steps lo b (nat (bt_threshold bmtest) * nat (bt_iterations bmtest)) (te_world env)" "sleep_progress (te_world env)"
    and "net_fair e" "sched_ok (ne_lib e)" "ne_host e = Some (True, True)" "ne_socket e" "ne_option e" "server_listens e"
    and "ne_connect e j" "j \<le> 11"
  shows "\<exists>k ts r env'. net_io_config pw e args bmtest env = Some (Inr (0, env'))
    \<and> entered NETIO_CONFIG r bmtest (te_table env) (te_table env') \<and> te_vals env' = te_vals env
    \<and> opern_amount r = 512 * 2 ^ k \<and> int k < bt_threshold bmtest \<and> measured lo b (bt_iterations bmtest) r ts
    \<and> (passed r \<or> int k = bt_threshold bmtest - 1)"
proof -
  let ?it = "bt_iterations bmtest" and ?thr = "bt_threshold bmtest"
  have c: "table_ok (te_table env)" "get_min_exec_time (te_table env) = Inr clock" "percent_ok (rt_mode args) (te_vals env)"
    "run_ok ?it b" "Fin 0 < bt_reference_score bmtest"
    using assms(1) by (simp_all add: config_ok_def)
  have it: "0 < ?it" "0 \<le> ?it" using c(4) by (simp_all add: run_ok_def)
  obtain w where w: "connect_loop e 0 (te_world env) = Some (True, w)" "clk w = clk (te_world env)" "clk_n w = clk_n (te_world env)"
    using connects [OF assms(12-14,6), of 0] by auto
  let ?r0 = "new_result ?it ?it" and ?n = "(start_net e ?it)\<lparr>linked := True\<rparr>"
  have "between ?it 512 0 ?n" using it(1) assms(12) by (simp add: between_def up_def awaits_def start_net_def is_int_def)
  then have rdy: "net_ready e ?it 512 lo b (nat (?thr - 0) * nat ?it) (w, ?n)"
    using assms(5,7) w(2,3) by (simp add: net_ready_def clock_steps_def)
  have "(2::int) ^ nat (?thr - 1) \<le> 2 ^ 20" using assms(4) by (intro power_increasing) simp_all
  then have q: "512 * 2 ^ nat (?thr - 1 - 0) \<le> INT_MAX div 2" by simp
  have th: "is_int ?thr" "0 < ?thr" using assms(3,4) by (simp_all add: is_int_def)
  obtain k ts r w' n' m where loop: "retry_loop (net_run e ?it) (retry_step clock (rt_mode args) (te_vals env) ?thr) 512 0 (?r0, w, ?n)
      = Some (Inr (0, 512 * 2 ^ k, r, w', n'))" "int k < ?thr" "measured lo b ?it r ts" "passed r \<or> int k = ?thr - 1"
    "net_ready e ?it (512 * 2 ^ Suc k) lo b m (w', n')"
    using net_body.ends_within_threshold [OF assms(2) c(3,4) zero_less_numeral q _ order_refl th(2,1) rdy, of ?r0] new_result_ready [OF c(4)] by force
  have "between ?it (512 * 2 ^ Suc k) 0 n'" using loop(5) unfolding net_ready_def by blast
  then obtain n2 where n2: "net_cleanup e n' = Some (Inr n2)" using server_joined [OF _ assms(7)] by blast
  obtain t' where t': "add_result_to_result_table2 pw (te_table env) (r\<lparr>opern_amount := 512 * 2 ^ k\<rparr>) NETIO_CONFIG bmtest = Inr t'"
    "entered NETIO_CONFIG (r\<lparr>opern_amount := 512 * 2 ^ k\<rparr>) bmtest (te_table env) t'"
    using add_result2_entered [OF c(1) _ c(5)] loop(3) measured_opern_amount by blast
  have "net_io_config pw e args bmtest env = Some (Inr (0, env\<lparr>te_table := t', te_world := w'\<rparr>))"
    using c(2) it(2) assms(8-11) w(1) loop(1) n2 t'(1) set_attr_rc [of "ne_lib e" pthread_attr_init SCHED_FIFO "se_max (ne_lib e) - 10"]
    by (simp add: net_io_config_def Let_def sched_ok_def get_local_address_def create_one)
  with loop t'(2) show ?thesis
    by (intro exI [of _ k] exI [of _ ts] exI [of _ "r\<lparr>opern_amount := 512 * 2 ^ k\<rparr>"] exI [of _ "env\<lparr>te_table := t', te_world := w'\<rparr>"])
      (simp add: measured_opern_amount passed_opern_amount)
qed

theorem net_io_config_ends_witness:
  "\<exists>k ts r env'. net_io_config (\<lambda>x y. x) two_pieces steady_args steady_test steady_env = Some (Inr (0, env'))
    \<and> entered NETIO_CONFIG r steady_test (te_table steady_env) (te_table env') \<and> te_vals env' = te_vals steady_env
    \<and> opern_amount r = 512 * 2 ^ k \<and> int k < bt_threshold steady_test \<and> measured 50000 50000 (bt_iterations steady_test) r ts
    \<and> (passed r \<or> int k = bt_threshold steady_test - 1)"
  by (rule net_io_config_ends [OF steady_config, where j = 2])
    (use two_pieces_fair steady_clock in \<open>simp_all add: steady_test_def steady_env_def two_pieces_def sched_ok_def fifo_env_def
      server_listens_def sleep_progress_def steady_world_def\<close>)

end
