(* ===== verification/Reporter.thy ===== *)
theory Reporter
  imports Config_Tests C_Strings
begin

text \<open>
  \<^verbatim>\<open>reporter/reporter.c\<close>: the reports of the tests that have run, one directory for each, and a
  report of the whole system that is written anew after each of them.  A file is the list of its
  lines; a line holds the texts and numbers that are printed, and their format is left out.  Which
  directories can be made and which files opened is given by \<open>report_env\<close>.
\<close>

section \<open>Files\<close>

datatype item = Str string | F3 f64 | Num int

type_synonym lines = "item list list"

record report_env =
  re_mkdir :: "string \<Rightarrow> bool"
  re_fopen :: "string \<Rightarrow> bool"
  re_date :: "nat \<times> nat \<times> nat"            \<comment> \<open>year, month, day\<close>
  re_time :: "nat \<times> nat \<times> nat \<times> nat"   \<comment> \<open>hour, minute, second, millisecond\<close>

record reports =
  rp_dirs :: "string list"
  rp_files :: "string \<Rightarrow> lines option"

definition two_digits :: "nat \<Rightarrow> string" where
  "two_digits n = (if n < 10 then ''0'' @ dec n else dec n)"

text \<open>\<open>None\<close> is a null pointer: the name does not fit, or the directory cannot be made.\<close>

definition get_output_dir :: "report_env \<Rightarrow> string \<Rightarrow> string option" where
  "get_output_dir e dir = (if length dir + 25 + 1 > 1024 - 1 then None
     else (case (re_date e, re_time e) of ((year, month, day), (hour, minute, sec, ms)) \<Rightarrow>
         let buf = dir @ ''/c_report_'' @ two_digits (year mod 100) @ two_digits month @ two_digits day @ ''_''
           @ two_digits hour @ two_digits minute @ two_digits sec @ two_digits ms in
         if re_mkdir e buf then Some buf else None))"

section \<open>The lines of a report\<close>

definition microsec :: "f64 \<Rightarrow> f64" where
  "microsec x = x / Fin 1000"

definition print_values :: "test_results \<Rightarrow> lines res" where
  "print_values r = for_res [0..<nat (num_entries r)] (\<lambda>k ls. bind_res (aread (tvalues r) (int k)) (\<lambda>v.
     Inr (ls @ [[Str ''Execution time '', Num (int k), Str '': '', F3 (microsec (of_ll v)), Str '' us'']])))
     [[Str ''  ''], [Str ''Measured execution times:''], []]"

definition print_result :: "test_results \<Rightarrow> int \<Rightarrow> lines res" where
  "print_result r verbose_level = bind_res (chk_int (titerations r - non_conforming_iterations r)) (\<lambda>conforming.
     bind_res (if 1 \<le> verbose_level then print_values r else Inr []) (\<lambda>vs. Inr (
       [[Str ''Total number of iterations of test run:  '', Num (titerations r), Str '' ''],
        [Str ''Measured Median for this test run: '', F3 (microsec (of_ll (mediantime r))), Str '' us ''],
        [Str ''Measured maximum time for this test run: '', F3 (microsec (of_ll (maxtime r))), Str '' us''],
        [Str ''Measured minimum time for this test run: '', F3 (microsec (of_ll (mintime r))), Str '' us''],
        [Str ''Measured mean for this test run: '', F3 (microsec (of_ll (meantime r))), Str '' us ''],
        [Str ''Measured standard deviation for this test run: '', F3 (microsec (stdtime r)), Str '' us''],
        [Str ''Total number of conforming iterations: '', Num conforming, Str '' ''],
        [Str ''Total number of outlying iterations: '', Num (non_conforming_iterations r), Str '' '']] @ vs)))"

fun concat_res :: "lines res list \<Rightarrow> lines res" where
  "concat_res [] = Inr []"
| "concat_res (m # ms) = bind_res m (\<lambda>ls. bind_res (concat_res ms) (\<lambda>rest. Inr (ls @ rest)))"

definition result_lines :: "nat \<Rightarrow> int \<Rightarrow> test_results \<Rightarrow> lines res" where
  "result_lines result_length verbose_level r = bind_res (print_result r verbose_level) (\<lambda>ls. Inr ([[]] @
     (if 1 < result_length then [[Str ''Test results for : '', Str (tname r), Str '' ''], [Str ''===============================================''  ]] else []) @ ls))"

text \<open>The name of a score is empty: no function sets it.\<close>

definition score_lines :: "nat \<Rightarrow> int \<Rightarrow> test_score \<Rightarrow> lines res" where
  "score_lines score_len verbose_level score = (let rs = score_result score in
     bind_res (concat_res (map (result_lines (length rs) verbose_level) rs)) (\<lambda>results.
     Inr ((if 1 < score_len then [[], [Str '' Scores for subtest: '', Str '''']] else [])
       @ [[], [Str ''Maximum throughput score  : '', F3 (max_throughput score)],
          [Str ''Minimum throughput score   : '', F3 (min_throughput score)],
          [Str ''Mean throughput score      : '', F3 (mean_throughput score)],
          [Str ''Weighted throughput score  : '', F3 (wgt_throughput score)]]
       @ (if 1 < score_len then [[Str '' Score for determinism for this subtest: '', F3 (consistency_score score)]] else [])
       @ results)))"

definition dump_score :: "test_score list \<Rightarrow> int \<Rightarrow> lines res" where
  "dump_score scores verbose_level = concat_res (map (score_lines (length scores) verbose_level) scores)"

definition report_head :: "string \<Rightarrow> final_bm_test_result \<Rightarrow> lines" where
  "report_head name f = [[Str ''Report for test: '', Str name], [Str ''===================================''], [],
     [Str ''Score for determinism: '', F3 (consistency_test_score f)], [Str ''Score for throughput:  '', F3 (throughput_test_score f)]]"

definition system_lines :: "system_scores \<Rightarrow> lines" where
  "system_lines s = [[Str ''Final throughput score for the system : '', F3 (system_throughput_score s)],
     [Str ''Final consistency score for the system:  '', F3 (system_consistency_score s)], [],
     [Str ''Final score for the system : '', F3 (system_score s)]]"

section \<open>Writing the reports\<close>

text \<open>\<^verbatim>\<open>char fullpath[1024]\<close>\<close>

definition full_path :: "string \<Rightarrow> string res" where
  "full_path s = (if length s < 1024 then Inr s else Inl Out_of_bounds)"

fun dump_entries :: "report_env \<Rightarrow> string \<Rightarrow> system_scores \<Rightarrow> int \<Rightarrow> result_entry list \<Rightarrow> reports \<Rightarrow> reports res" where
  "dump_entries e output_dir scores verbose_level [] rp = Inr rp"
| "dump_entries e output_dir scores verbose_level (entry # entries) rp = (case bm_test entry of
     None \<Rightarrow> dump_entries e output_dir scores verbose_level entries rp
   | Some bmtest \<Rightarrow> bind_res (full_path (output_dir @ ''/'' @ bt_name bmtest)) (\<lambda>fullpath.
       if \<not> re_mkdir e fullpath then Inr rp else
       bind_res (full_path (fullpath @ ''/report.txt'')) (\<lambda>test_report. let rp = rp\<lparr>rp_dirs := rp_dirs rp @ [fullpath]\<rparr> in
       if \<not> re_fopen e test_report then Inr rp else
       (case fbmt entry of None \<Rightarrow> Inl Null_deref | Some f \<Rightarrow> bind_res (dump_score (fb_score f) verbose_level) (\<lambda>ls.
         let rp = rp\<lparr>rp_files := (rp_files rp)(test_report \<mapsto> report_head (bt_name bmtest) f @ ls)\<rparr> in
         bind_res (full_path (output_dir @ ''/system_report.txt'')) (\<lambda>test_report.
         if \<not> re_fopen e test_report then Inr rp
         else dump_entries e output_dir scores verbose_level entries (rp\<lparr>rp_files := (rp_files rp)(test_report \<mapsto> system_lines scores)\<rparr>)))))))"

definition dump_result_table_entry :: "report_env \<Rightarrow> string \<Rightarrow> result_table \<Rightarrow> system_scores \<Rightarrow> int \<Rightarrow> reports \<Rightarrow> reports res" where
  "dump_result_table_entry e report_dir table scores verbose_level rp = (case get_output_dir e report_dir of None \<Rightarrow> Inr rp
     | Some output_dir \<Rightarrow> bind_res (guard_res Out_of_bounds (MAX_TESTS \<le> length table)) (\<lambda>_.
         dump_entries e output_dir scores verbose_level (take MAX_TESTS table) (rp\<lparr>rp_dirs := rp_dirs rp @ [output_dir]\<rparr>)))"

section \<open>Results can be printed\<close>

definition printable :: "test_results \<Rightarrow> bool" where
  "printable r \<longleftrightarrow> nat (num_entries r) \<le> length (tvalues r) \<and> is_int (titerations r - non_conforming_iterations r)"

lemma concat_res_ok: "\<forall>m \<in> set ms. \<exists>ls. m = Inr ls \<Longrightarrow> \<exists>ls. concat_res ms = Inr ls"
  by (induction ms) auto

lemma print_result_ok:
  assumes "printable r"
  shows "\<exists>ls. print_result r v = Inr ls"
proof -
  have "\<exists>ls. print_values r = Inr ls \<and> True"
    unfolding print_values_def
    by (rule for_res_inv [where P = "\<lambda>_ _. True"]) (use assms in \<open>auto simp: printable_def aread_ok\<close>)
  then show ?thesis using assms by (auto simp: print_result_def printable_def chk_int_ok)
qed

lemma dump_score_ok:
  assumes "\<forall>s \<in> set scores. \<forall>r \<in> set (score_result s). printable r"
  shows "\<exists>ls. dump_score scores v = Inr ls"
proof -
  have "\<exists>ls. score_lines (length scores) v s = Inr ls" if "s \<in> set scores" for s
  proof -
    have "\<exists>ls. result_lines n v r = Inr ls" if "r \<in> set (score_result s)" for n r
      using print_result_ok [of r v] assms \<open>s \<in> set scores\<close> that by (auto simp: result_lines_def)
    then have "\<exists>ls. concat_res (map (result_lines (length (score_result s)) v) (score_result s)) = Inr ls"
      by (intro concat_res_ok) simp
    then show ?thesis by (auto simp: score_lines_def Let_def)
  qed
  then show ?thesis unfolding dump_score_def by (intro concat_res_ok) auto
qed

section \<open>What is written\<close>

definition report_path :: "string \<Rightarrow> benchmark_test \<Rightarrow> string" where
  "report_path out b = (out @ ''/'' @ bt_name b) @ ''/report.txt''"

definition system_path :: "string \<Rightarrow> string" where
  "system_path out = out @ ''/system_report.txt''"

lemma paths_differ: "report_path out b \<noteq> system_path out" "report_path out b = report_path out c \<longleftrightarrow> bt_name b = bt_name c"
proof -
  have "CHR ''/'' \<in> set (bt_name b @ ''/report.txt'')" "CHR ''/'' \<notin> set ''system_report.txt''" by auto
  then have "bt_name b @ ''/report.txt'' \<noteq> ''system_report.txt''" by metis
  then show "report_path out b \<noteq> system_path out" by (simp add: report_path_def system_path_def)
qed (simp add: report_path_def)

definition ran :: "result_table \<Rightarrow> benchmark_test list" where
  "ran es = List.map_filter bm_test es"

lemma ran_simps [simp]: "ran [] = []" "ran (x # es) = (case bm_test x of None \<Rightarrow> ran es | Some b \<Rightarrow> b # ran es)"
  by (simp_all add: ran_def List.map_filter_def split: option.split)

lemma ran_mem: "x \<in> set es \<Longrightarrow> bm_test x = Some b \<Longrightarrow> b \<in> set (ran es)"
  by (induction es) (auto split: option.split)

text \<open>An entry that can be reported, and the contents of its file.\<close>

definition reportable :: "string \<Rightarrow> result_entry \<Rightarrow> bool" where
  "reportable out x \<longleftrightarrow> (\<forall>b. bm_test x = Some b \<longrightarrow> length (report_path out b) < 1024
     \<and> (\<exists>f. fbmt x = Some f \<and> (\<forall>s \<in> set (fb_score f). \<forall>r \<in> set (score_result s). printable r)))"

definition reported :: "string \<Rightarrow> int \<Rightarrow> result_entry \<Rightarrow> reports \<Rightarrow> bool" where
  "reported out v x rp \<longleftrightarrow> (\<forall>b. bm_test x = Some b \<longrightarrow> (\<exists>f ls. fbmt x = Some f \<and> dump_score (fb_score f) v = Inr ls
     \<and> rp_files rp (report_path out b) = Some (report_head (bt_name b) f @ ls)))"

text \<open>A recorded result can be printed, so the entry of a test that entered one can be reported.\<close>

lemma recorded_printable: "recorded r ts \<Longrightarrow> printable r"
  by (auto simp: recorded_def printable_def is_int_def)

lemma entered_reportable:
  assumes "entered bucket r bmtest t t'" and "recorded r ts" and "length (report_path out bmtest) < 1024"
  shows "reportable out (t' ! bucket_no bucket)"
proof -
  obtain f s where f: "fbmt (t' ! bucket_no bucket) = Some f" "fb_score f = [s]" "score_result s = [r]"
    "bm_test (t' ! bucket_no bucket) = Some bmtest" using assms(1) by (auto simp: entered_def)
  then show ?thesis using assms(3) recorded_printable [OF assms(2)] by (simp add: reportable_def)
qed

lemma dump_entries_ok:
  assumes "\<forall>s. re_mkdir e s \<and> re_fopen e s" and "\<forall>x \<in> set es. reportable out x" and "length (system_path out) < 1024"
    and "distinct (map bt_name (ran es))"
  shows "\<exists>rp'. dump_entries e out scores v es rp = Inr rp' \<and> rp_dirs rp' = rp_dirs rp @ map (\<lambda>b. out @ ''/'' @ bt_name b) (ran es)
    \<and> (\<forall>x \<in> set es. reported out v x rp') \<and> (\<forall>p. p \<notin> report_path out ` set (ran es) \<and> p \<noteq> system_path out \<longrightarrow> rp_files rp' p = rp_files rp p)
    \<and> (if ran es = [] then rp' = rp else rp_files rp' (system_path out) = Some (system_lines scores))"
  using assms(2,4)
proof (induction es arbitrary: rp)
  case (Cons x es)
  show ?case
  proof (cases "bm_test x")
    case None
    with Cons show ?thesis by (simp add: reported_def)
  next
    case (Some b)
    obtain f where f: "fbmt x = Some f" "\<forall>s \<in> set (fb_score f). \<forall>r \<in> set (score_result s). printable r" "length (report_path out b) < 1024"
      using Cons.prems(1) Some by (auto simp: reportable_def)
    obtain ls where ls: "dump_score (fb_score f) v = Inr ls" using dump_score_ok [OF f(2)] by blast
    define rp1 where "rp1 = rp\<lparr>rp_dirs := rp_dirs rp @ [out @ ''/'' @ bt_name b],
      rp_files := ((rp_files rp)(report_path out b \<mapsto> report_head (bt_name b) f @ ls))(system_path out \<mapsto> system_lines scores)\<rparr>"
    have step: "dump_entries e out scores v (x # es) rp = dump_entries e out scores v es rp1"
      using Some f ls assms(1,3) by (simp add: full_path_def report_path_def system_path_def rp1_def)
    obtain rp' where rp': "dump_entries e out scores v es rp1 = Inr rp'" "rp_dirs rp' = rp_dirs rp1 @ map (\<lambda>b. out @ ''/'' @ bt_name b) (ran es)"
      "\<forall>x \<in> set es. reported out v x rp'" "\<forall>p. p \<notin> report_path out ` set (ran es) \<and> p \<noteq> system_path out \<longrightarrow> rp_files rp' p = rp_files rp1 p"
      "if ran es = [] then rp' = rp1 else rp_files rp' (system_path out) = Some (system_lines scores)"
      using Cons.IH [of rp1] Cons.prems Some by auto
    have "report_path out b \<notin> report_path out ` set (ran es)" using Cons.prems(2) Some paths_differ(2) by auto
    then have "rp_files rp' (report_path out b) = Some (report_head (bt_name b) f @ ls)"
      using rp'(4) paths_differ(1) by (auto simp: rp1_def)
    then have "reported out v x rp'" using Some f(1) ls by (simp add: reported_def)
    moreover have "rp_files rp' (system_path out) = Some (system_lines scores)" using rp'(5) by (auto simp: rp1_def split: if_splits)
    moreover have "rp_files rp' p = rp_files rp p" if "p \<notin> report_path out ` set (ran (x # es))" "p \<noteq> system_path out" for p
      using rp'(4) that Some by (auto simp: rp1_def)
    ultimately show ?thesis using step rp'(1-3) Some by (intro exI [of _ rp']) (simp add: rp1_def)
  qed
qed simp

lemma dump_table_ok:
  assumes "table_ok table" and "\<forall>x \<in> set table. reportable out x" "distinct (map bt_name (ran table))" and "length (system_path out) < 1024"
    and "\<forall>s. re_mkdir e s \<and> re_fopen e s" and "get_output_dir e dir = Some out"
  shows "\<exists>rp'. dump_result_table_entry e dir table scores v rp = Inr rp'
      \<and> rp_dirs rp' = rp_dirs rp @ out # map (\<lambda>b. out @ ''/'' @ bt_name b) (ran table) \<and> (\<forall>x \<in> set table. reported out v x rp')
      \<and> (ran table \<noteq> [] \<longrightarrow> rp_files rp' (system_path out) = Some (system_lines scores))
      \<and> (\<forall>p. p \<notin> report_path out ` set (ran table) \<and> p \<noteq> system_path out \<longrightarrow> rp_files rp' p = rp_files rp p)"
proof -
  let ?rp = "rp\<lparr>rp_dirs := rp_dirs rp @ [out]\<rparr>"
  have t: "MAX_TESTS \<le> length table" "take MAX_TESTS table = table" using assms(1) by (simp_all add: table_ok_def)
  show ?thesis using dump_entries_ok [OF assms(5,2,4,3), of scores v ?rp] t assms(6)
    by (auto simp: dump_result_table_entry_def split: if_splits)
qed

section \<open>Properties\<close>

text \<open>
  C24: For tests of different names whose paths fit the buffers, when the directories can be made and the files opened, the reporter writes exactly one report for
  each test that has run, in a directory of its name, with the scores of its entry and all results, and the
  scores of the system when any test has run, and no other file changes; without a directory for its output it writes nothing.
\<close>

theorem reports_written:
  assumes "table_ok table" and "\<forall>x \<in> set table. reportable out x" "distinct (map bt_name (ran table))" and "length (system_path out) < 1024"
    and "\<forall>s. re_mkdir e s \<and> re_fopen e s"
  shows "(get_output_dir e dir = Some out \<longrightarrow> (\<exists>rp'. dump_result_table_entry e dir table scores v rp = Inr rp'
      \<and> rp_dirs rp' = rp_dirs rp @ out # map (\<lambda>b. out @ ''/'' @ bt_name b) (ran table) \<and> (\<forall>x \<in> set table. reported out v x rp')
      \<and> (ran table \<noteq> [] \<longrightarrow> rp_files rp' (system_path out) = Some (system_lines scores))
      \<and> (\<forall>p. p \<notin> report_path out ` set (ran table) \<and> p \<noteq> system_path out \<longrightarrow> rp_files rp' p = rp_files rp p)))
    \<and> (get_output_dir e dir = None \<longrightarrow> dump_result_table_entry e dir table scores v rp = Inr rp)"
  using dump_table_ok [OF assms, of dir scores v rp] by (auto simp: dump_result_table_entry_def)

definition new_year :: report_env where
  "new_year = \<lparr>re_mkdir = \<lambda>_. True, re_fopen = \<lambda>_. True, re_date = (2008, 1, 1), re_time = (9, 5, 30, 7)\<rparr>"

theorem reports_written_witness:
  "\<exists>rp'. dump_result_table_entry new_year ''.'' clock_table \<lparr>system_consistency_score = Fin 1, system_throughput_score = Fin 1, system_score = Fin 1\<rparr> 1
      \<lparr>rp_dirs = [], rp_files = \<lambda>_. None\<rparr> = Inr rp'
    \<and> rp_dirs rp' = [''./c_report_080101_09053007'', ''./c_report_080101_09053007/config'']
    \<and> rp_files rp' ''./c_report_080101_09053007/system_report.txt'' = Some (system_lines \<lparr>system_consistency_score = Fin 1, system_throughput_score = Fin 1, system_score = Fin 1\<rparr>)"
proof -
  let ?out = "''./c_report_080101_09053007''"
  have out: "get_output_dir new_year ''.'' = Some ?out"
    by code_simp
  have ran: "ran clock_table = [steady_test]" by (simp add: clock_table_def empty_table_def numeral_eq_Suc)
  have "\<forall>x \<in> set clock_table. reportable ?out x"
    by (auto simp: clock_table_def empty_table_def numeral_eq_Suc reportable_def report_path_def steady_test_def create_test_score3_def
        create_test_score1_def printable_def one_time_def new_result_def is_int_def)
  from reports_written [OF _ this, of new_year "''.''"] clock_table_ok out ran show ?thesis
    by (force simp: new_year_def system_path_def steady_test_def)
qed

end
