(* ===== verification/Whole_Program.thy ===== *)
theory Whole_Program
  imports Launch Disk_Io Periodic_Event Event_Dispatch Multi_Thread_Result Thread_Priority Net_Io Reporter
begin

text \<open>
  The C program as a whole: the loader that finds the modelled tests, and the main function with the reports it
  writes.  The clock test, run by the launcher, calibrates the integer test after it.
\<close>

section \<open>The tests as libraries\<close>

text \<open>
  The loader that finds the modelled tests: the shared object of a test defines one function of
  the test's name.
\<close>

definition rtmb_loader :: "(f64 \<Rightarrow> f64 \<Rightarrow> f64) \<Rightarrow> (nat \<Rightarrow> bool) \<Rightarrow> sched_env \<Rightarrow> Thread_Oprn.sched \<Rightarrow>
    timer_env \<Rightarrow> (nat \<Rightarrow> bool) \<Rightarrow> mt_env \<Rightarrow> tp_env \<Rightarrow> net_env \<Rightarrow> loader" where
  "rtmb_loader pw pick e self te arrives mt tp ne libname name = (
     if name = ''clock_config'' then Runs True (clock_config pw)
     else if name = ''timer_config'' then Runs True (timer_config pw)
     else if name = ''int_rate_config'' then Runs True (int_rate_config pw)
     else if name = ''float_rate_config'' then Runs True (float_rate_config pw)
     else if name = ''mcache_perf_config'' then Runs True (mcache_perf_config pw)
     else if name = ''disk_io_write_config'' then Runs True (disk_io_write_config pw)
     else if name = ''disk_io_read_config'' then Runs True (disk_io_read_config pw)
     else if name = ''time_accuracy'' then Runs True (time_accuracy pw)
     else if name = ''periodic_event'' then Runs True (periodic_event pw te arrives)
     else if name = ''lock_consistency'' then Runs True (lock_consistency pw e self)
     else if name = ''net_io_config'' then Runs True (net_io_config pw ne)
     else if name = ''multi_thread'' then Runs True (multi_thread pw mt self)
     else if name = ''thread_priority'' then Runs True (thread_priority pw tp self)
     else if name = ''event_dispatch'' then Runs True (event_dispatch pw pick e)
     else No_library)"

text \<open>The whole program: the main function, and the reports that it has written.\<close>

definition rtmb :: "(f64 \<Rightarrow> f64 \<Rightarrow> f64) \<Rightarrow> loader \<Rightarrow> system \<Rightarrow> report_env \<Rightarrow> string \<Rightarrow> string list \<Rightarrow> reports \<Rightarrow> (int \<times> reports) run" where
  "rtmb pw dl sys re argv0 args rp = bind_run (main pw dl sys argv0 args) (\<lambda>r. case r of Exit rc \<Rightarrow> Some (Inr (rc, rp))
     | Reported dir table verbose_level sys \<Rightarrow> bind_run (Some (dump_result_table_entry re dir table sys verbose_level rp)) (\<lambda>rp. Some (Inr (0, rp))))"

text \<open>A test that succeeds and leaves a well-formed table.\<close>

lemma run_test_succeeds:
  assumes "i < length (la_tests s)" and "lib_path home (bt_name (la_tests s ! i)) = Inr path"
    and "dl path (bt_name (la_tests s ! i)) = Runs True test" and "get_iters (la_tests s ! i) args (te_vals (la_env s)) = Inr bm"
    and "test args bm (la_env s) = Some (Inr (0, env'))" and "table_ok (te_table env')"
  shows "run_test dl cpus args home i s = Some (Inr (0, \<lparr>la_tests = (la_tests s)[i := bm], la_env = env'\<rparr>))"
proof -
  obtain x where "print_scores cpus bm (te_table env') = Inr x" using print_scores_ok [OF assms(6)] by blast
  with assms show ?thesis by (simp add: run_test_def aread_ok Let_def)
qed

lemma entered_other:
  assumes "entered bucket r bm t t'" and "table_ok t" and "c \<noteq> bucket"
  shows "first_result t' c = first_result t c"
proof -
  have "length t = MAX_TESTS" "length t' = MAX_TESTS" "t' ! bucket_no c = t ! bucket_no c"
    using assms by (simp_all add: entered_def table_ok_def)
  then have "aread t' (int (bucket_no c)) = aread t (int (bucket_no c))" by (simp add: aread_ok)
  then show ?thesis by (simp add: first_result_def)
qed

lemma entered_result: "entered bucket r bm t t' \<Longrightarrow> first_result t' bucket = Inr r"
  by (simp add: entered_def)

section \<open>The clock test and the integer test after it\<close>

lemma launch_calibrated:
  assumes "bt_name tc = ''clock_config''" "bt_name ti = ''int_rate_config''" "bt_config_test tc = 1" "bt_config_test ti = 1"
    and "test_list args = []" and "length home \<le> 4000"
    and "get_iters tc args (te_vals env) = Inr tc'" "get_iters ti args (te_vals env) = Inr ti'"
    and "percent_ok (rt_mode args) (te_vals env)"
    and "run_ok (bt_iterations tc') bc" "Fin 0 < bt_reference_score tc'" "clock_steps lc bc (nat (bt_iterations tc')) (te_world env)"
    and "run_ok (bt_iterations ti') bi" "Fin 0 < bt_reference_score ti'" "1 \<le> bt_threshold ti'" "bt_threshold ti' \<le> 15"
    and "clock_steps li bi (nat (bt_threshold ti') * nat (bt_iterations ti'))
          ((te_world env)\<lparr>clk_n := clk_n (te_world env) + 2 * nat (bt_iterations tc')\<rparr>)"
    and "of_ll (20 * bc) < of_ll li"
  shows "\<exists>t1 env2 rc ri tsc tsi k. launch_tests (rtmb_loader pw pick e self te arrives mt tp ne) cpus args home \<lparr>la_tests = [tc, ti], la_env = env\<rparr>
      = Some (Inr (0, \<lparr>la_tests = [tc', ti'], la_env = env2\<rparr>))
    \<and> entered SYSCLOCK_CONFIG rc tc' empty_table t1 \<and> measured lc bc (bt_iterations tc') rc tsc
    \<and> entered IRATE_CONFIG ri ti' t1 (te_table env2) \<and> measured li bi (bt_iterations ti') ri tsi
    \<and> get_min_exec_time t1 = Inr (of_ll (20 * mediantime rc))
    \<and> opern_amount ri = 100 * 2 ^ k \<and> int k < bt_threshold ti'"
proof -
  let ?dl = "rtmb_loader pw pick e self te arrives mt tp ne"
  let ?env0 = "env\<lparr>te_table := empty_table\<rparr>"
  obtain tsc rc env1 where c: "clock_config pw args tc' ?env0 = Some (Inr (0, env1))" "te_vals env1 = te_vals env"
    "entered SYSCLOCK_CONFIG rc tc' empty_table (te_table env1)" "measured lc bc (bt_iterations tc') rc tsc"
    "get_min_exec_time (te_table env1) = Inr (of_ll (20 * mediantime rc))"
    "te_world env1 = (te_world env)\<lparr>clk_n := clk_n (te_world env) + 2 * nat (bt_iterations tc')\<rparr>"
    using clock_config_ok [of ?env0 args tc' bc lc pw] empty_table_ok assms(9-12) by auto
  have "of_ll (20 * mediantime rc) \<le> of_ll (20 * bc)" using measured_median(3) [OF c(4)] by (intro of_ll_mono) simp
  then have "of_ll (20 * mediantime rc) < of_ll li" using assms(18) by (cases "of_ll li"; cases "of_ll (20 * bc)"; cases "of_ll (20 * mediantime rc)") (auto simp: f64_cmp)
  moreover have "config_ok (of_ll (20 * mediantime rc)) bi args ti' env1"
    using c(2,3,5) assms(9,13,14) by (simp add: config_ok_def entered_def)
  ultimately obtain k tsi ri env2 where i: "int_rate_config pw args ti' env1 = Some (Inr (0, env2))"
    "entered IRATE_CONFIG ri ti' (te_table env1) (te_table env2)" "opern_amount ri = 100 * 2 ^ k" "int k < bt_threshold ti'"
    "measured li bi (bt_iterations ti') ri tsi"
    using int_rate_ends [of _ bi args ti' env1 li pw] assms(15-17) c(6) by metis
  let ?s = "\<lparr>la_tests = [tc, ti], la_env = ?env0\<rparr>"
  obtain p q where pq: "lib_path home ''clock_config'' = Inr p" "lib_path home ''int_rate_config'' = Inr q"
    using assms(6) by (simp add: lib_path_def)
  have r1: "run_test ?dl cpus args home 0 ?s = Some (Inr (0, \<lparr>la_tests = [tc', ti], la_env = env1\<rparr>))"
    using run_test_succeeds [of 0 ?s home p ?dl "clock_config pw" args tc' env1 cpus] pq assms(1,7) c(1,3)
    by (simp add: rtmb_loader_def entered_def)
  have r2: "run_test ?dl cpus args home 1 \<lparr>la_tests = [tc', ti], la_env = env1\<rparr>
      = Some (Inr (0, \<lparr>la_tests = [tc', ti'], la_env = env2\<rparr>))"
    using run_test_succeeds [of 1 "\<lparr>la_tests = [tc', ti], la_env = env1\<rparr>" home q ?dl "int_rate_config pw" args ti' env2 cpus]
      pq assms(2,8) c(2) i(1,2)
    by (simp add: rtmb_loader_def entered_def)
  have "launch_tests ?dl cpus args home \<lparr>la_tests = [tc, ti], la_env = env\<rparr> = Some (Inr (0, \<lparr>la_tests = [tc', ti'], la_env = env2\<rparr>))"
    using r1 r2 assms(3-5) by (simp add: launch_schedule Let_def config_steps_def selected_steps_def indices_def)
  with c(3-5) i(2-5) show ?thesis
    by (intro exI [of _ "te_table env1"] exI [of _ env2] exI [of _ rc] exI [of _ ri] exI [of _ tsc] exI [of _ tsi] exI [of _ k]) simp
qed

lemma calibrated_results:
  assumes "entered SYSCLOCK_CONFIG rc tc empty_table t1" and "entered IRATE_CONFIG ri ti t1 t2"
  shows "first_result t2 SYSCLOCK_CONFIG = Inr rc" "first_result t2 IRATE_CONFIG = Inr ri"
    "get_min_exec_time t1 = Inr x \<Longrightarrow> get_min_exec_time t2 = Inr x"
proof -
  show s: "first_result t2 SYSCLOCK_CONFIG = Inr rc"
    using entered_other [OF assms(2), of SYSCLOCK_CONFIG] assms(1) entered_result [OF assms(1)] by (simp add: entered_def)
  then show "get_min_exec_time t1 = Inr x \<Longrightarrow> get_min_exec_time t2 = Inr x"
    using entered_result [OF assms(1)] by (simp add: get_min_exec_time_def)
  show "first_result t2 IRATE_CONFIG = Inr ri" by (rule entered_result [OF assms(2)])
qed

text \<open>After the two tests only their own entries are in use.\<close>

lemma calibrated_entries:
  assumes "entered SYSCLOCK_CONFIG rc tc empty_table t1" and "entered IRATE_CONFIG ri ti t1 t2"
  shows "ran t2 = [tc, ti]" "x \<in> set t2 \<Longrightarrow> bm_test x = None \<or> x = t1 ! bucket_no SYSCLOCK_CONFIG \<or> x = t2 ! bucket_no IRATE_CONFIG"
proof -
  have e: "t2 ! bucket_no c = (if c = IRATE_CONFIG then t2 ! bucket_no c else if c = SYSCLOCK_CONFIG then t1 ! bucket_no c else empty_table ! bucket_no c)" for c
    using assms by (simp add: entered_def)
  have "length t2 = 18" using assms(2) by (simp add: entered_def table_ok_def)
  then have all: "t2 = map (\<lambda>i. t2 ! i) [0..<18]" by (metis map_nth)
  have "[0..<18] = [0, 1, 2, 3, 4, 5, 6, 7, 8, 9, 10, 11, 12, 13, 14, 15, 16, 17 :: nat]" by (simp add: upt_rec)
  from all [unfolded this] have t2: "t2 = [t1 ! 0, empty_table ! 1, t2 ! 2, empty_table ! 3, empty_table ! 4, empty_table ! 5, empty_table ! 6, empty_table ! 7,
      empty_table ! 8, empty_table ! 9, empty_table ! 10, empty_table ! 11, empty_table ! 12, empty_table ! 13, empty_table ! 14,
      empty_table ! 15, empty_table ! 16, empty_table ! 17]"
    using e [of SYSCLOCK_CONFIG] e [of SYSTIMER_CONFIG] e [of FRATE_CONFIG] e [of MCACHE_CONFIG] e [of DISKIO_WRITE_CONFIG]
      e [of DISKIO_READ_CONFIG] e [of NETIO_CONFIG] e [of TIMER_ACCURACY_TEST] e [of EVENT_DISPATCH_TEST] e [of THREAD_PRIORITY_TEST]
      e [of LK_CONSISTENCY_TEST] e [of PERIODIC_EVENTS_TEST] e [of ASYNC_EVENTS_TEST] e [of DISK_IO_TEST] e [of NET_IO_TEST]
      e [of MULTI_THREAD_TEST] e [of MULTI_CPU_TEST] by simp
  have none: "bm_test (empty_table ! i) = None" if "i < 18" for i using that by (simp add: empty_table_def)
  have "bm_test (t1 ! 0) = Some tc" "bm_test (t2 ! 2) = Some ti" using assms by (simp_all add: entered_def)
  then show "ran t2 = [tc, ti]" by (subst t2) (simp add: none)
  show "x \<in> set t2 \<Longrightarrow> bm_test x = None \<or> x = t1 ! bucket_no SYSCLOCK_CONFIG \<or> x = t2 ! bucket_no IRATE_CONFIG"
    by (subst (asm) t2) (auto simp: none)
qed

section \<open>Properties\<close>

text \<open>
  C2: Launched one after the other on one clock, the clock test calibrates the integer test: when
  reading the clock takes at most \<open>b\<^sub>c\<close> nanoseconds and every iteration of the integer test more
  than twenty times as long, both tests succeed, the resolution that the integer test uses is
  twenty medians of the clock test's result, and both results are in the final table.
\<close>

theorem clock_calibrates_int_rate:
  assumes "bt_name tc = ''clock_config''" "bt_name ti = ''int_rate_config''" "bt_config_test tc = 1" "bt_config_test ti = 1"
    and "test_list args = []" and "length home \<le> 4000"
    and "get_iters tc args (te_vals env) = Inr tc'" "get_iters ti args (te_vals env) = Inr ti'"
    and "percent_ok (rt_mode args) (te_vals env)"
    and "run_ok (bt_iterations tc') bc" "Fin 0 < bt_reference_score tc'" "clock_steps lc bc (nat (bt_iterations tc')) (te_world env)"
    and "run_ok (bt_iterations ti') bi" "Fin 0 < bt_reference_score ti'" "1 \<le> bt_threshold ti'" "bt_threshold ti' \<le> 15"
    and "clock_steps li bi (nat (bt_threshold ti') * nat (bt_iterations ti'))
          ((te_world env)\<lparr>clk_n := clk_n (te_world env) + 2 * nat (bt_iterations tc')\<rparr>)"
    and "of_ll (20 * bc) < of_ll li"
  shows "\<exists>s' rc ri tsc tsi k. launch_tests (rtmb_loader pw pick e self te arrives mt tp ne) cpus args home \<lparr>la_tests = [tc, ti], la_env = env\<rparr>
      = Some (Inr (0, s'))
    \<and> first_result (te_table (la_env s')) SYSCLOCK_CONFIG = Inr rc \<and> measured lc bc (bt_iterations tc') rc tsc
    \<and> first_result (te_table (la_env s')) IRATE_CONFIG = Inr ri \<and> measured li bi (bt_iterations ti') ri tsi
    \<and> get_min_exec_time (te_table (la_env s')) = Inr (of_ll (20 * mediantime rc))
    \<and> opern_amount ri = 100 * 2 ^ k \<and> int k < bt_threshold ti' \<and> la_tests s' = [tc', ti']"
proof -
  obtain t1 env2 rc ri tsc tsi k where l:
    "launch_tests (rtmb_loader pw pick e self te arrives mt tp ne) cpus args home \<lparr>la_tests = [tc, ti], la_env = env\<rparr>
      = Some (Inr (0, \<lparr>la_tests = [tc', ti'], la_env = env2\<rparr>))"
    "entered SYSCLOCK_CONFIG rc tc' empty_table t1" "measured lc bc (bt_iterations tc') rc tsc"
    "entered IRATE_CONFIG ri ti' t1 (te_table env2)" "measured li bi (bt_iterations ti') ri tsi"
    "get_min_exec_time t1 = Inr (of_ll (20 * mediantime rc))" "opern_amount ri = 100 * 2 ^ k" "int k < bt_threshold ti'"
    using launch_calibrated [OF assms, of pw pick e self te arrives mt tp ne cpus] by blast
  show ?thesis using l(1,3,5,7,8) calibrated_results [OF l(2,4)] l(6)
    by (intro exI [of _ "\<lparr>la_tests = [tc', ti'], la_env = env2\<rparr>"] exI [of _ rc] exI [of _ ri] exI [of _ tsc] exI [of _ tsi] exI [of _ k]) simp
qed

text \<open>Two readings 100 ns apart for the clock test, then iterations of 50 microseconds.\<close>

definition calibration_env :: tenv where
  "calibration_env = \<lparr>te_table = [], te_vals = fifty_params, te_world = steady_world\<lparr>clk := \<lambda>k.
     Some \<lparr>tv_sec = 0, tv_nsec = (if even k then 0 else if k < 2 then 100 else 50000)\<rparr>\<rparr>\<rparr>"

definition clock_entry :: benchmark_test where
  "clock_entry = steady_test\<lparr>bt_name := ''clock_config''\<rparr>"

definition int_entry :: benchmark_test where
  "int_entry = steady_test\<lparr>bt_name := ''int_rate_config''\<rparr>"

theorem clock_calibrates_int_rate_witness:
  "\<exists>s' rc ri tsc tsi k. launch_tests (rtmb_loader (\<lambda>x y. x) even fifo_env \<lparr>sc_policy = SCHED_OTHER, sc_priority = 0\<rparr> all_timers even two_cpus three_classes two_pieces) 4
        (steady_args\<lparr>quick := 1\<rparr>) ''/rtmb'' \<lparr>la_tests = [clock_entry, int_entry], la_env = calibration_env\<rparr> = Some (Inr (0, s'))
    \<and> first_result (te_table (la_env s')) SYSCLOCK_CONFIG = Inr rc \<and> measured 100 100 (bt_iterations (clock_entry\<lparr>bt_iterations := 1\<rparr>)) rc tsc
    \<and> first_result (te_table (la_env s')) IRATE_CONFIG = Inr ri \<and> measured 50000 50000 (bt_iterations (int_entry\<lparr>bt_iterations := 1\<rparr>)) ri tsi
    \<and> get_min_exec_time (te_table (la_env s')) = Inr (of_ll (20 * mediantime rc))
    \<and> opern_amount ri = 100 * 2 ^ k \<and> int k < bt_threshold (int_entry\<lparr>bt_iterations := 1\<rparr>)
    \<and> la_tests s' = [clock_entry\<lparr>bt_iterations := 1\<rparr>, int_entry\<lparr>bt_iterations := 1\<rparr>]"
proof (rule clock_calibrates_int_rate)
  show "percent_ok (rt_mode (steady_args\<lparr>quick := 1\<rparr>)) (te_vals calibration_env)"
    using steady_config by (simp add: config_ok_def steady_env_def calibration_env_def)
  show "clock_steps 100 100 (nat (bt_iterations (clock_entry\<lparr>bt_iterations := 1\<rparr>))) (te_world calibration_env)"
    by (simp add: clock_steps_def calibration_env_def steady_world_def ts_ok_def ts_nsec_def in_range_def)
  show "clock_steps 50000 50000 (nat (bt_threshold (int_entry\<lparr>bt_iterations := 1\<rparr>)) * nat (bt_iterations (int_entry\<lparr>bt_iterations := 1\<rparr>)))
      ((te_world calibration_env)\<lparr>clk_n := clk_n (te_world calibration_env) + 2 * nat (bt_iterations (clock_entry\<lparr>bt_iterations := 1\<rparr>))\<rparr>)"
    by (simp add: clock_steps_def calibration_env_def steady_world_def ts_ok_def ts_nsec_def in_range_def)
qed (simp_all add: clock_entry_def int_entry_def steady_test_def steady_args_def get_iters_def run_ok_def is_int_def)

text \<open>
  C1: The whole program, from the input file to the reports: given a file that lists the integer test
  before the clock test, options that name no tests, and a machine whose clock is fast enough, the
  program ends with 0, has written the reports of exactly these two tests and the scores of the
  system, and the resolution that the integer test was judged by is twenty medians of the result
  that the report of the clock test shows.
\<close>

theorem calibrated_run_reported:
  assumes "sys_mlock sys" and "build_home_dir (sys_names sys) (sys_cwd sys) argv0 = Inr home" and "sys_cwd sys = Some d" "length d \<le> 4079" "length home \<le> 4000"
    and "\<forall>opt \<in> set opts. option_ok opt"
    and "ca = fold apply_option opts (no_options\<lparr>dir_name := d, file_name := Some (d @ ''/config/input.txt'')\<rparr>)" "file_name ca = Some f"
    and "test_list ca = []" "report_dir (dir_name ca) = Inr dir"
    and "spec_ok si" "sp_name si = ''int_rate_config''" "sp_config si = 1" "spec_ok sc" "sp_name sc = ''clock_config''" "sp_config sc = 1"
    and "\<forall>e \<in> set es. int (snd e) \<le> INT_MAX" and "contents = file_of (concat (map render_test [si, sc]) @ map render_exp es)"
    and "vals = fold (\<lambda>(k, n) v. set_exp v (Fin (of_int (int n))) k) es (ip_vals no_params)" "percent_ok (rt_mode ca) vals"
    and "get_iters (entry_of sc) ca vals = Inr tc" "get_iters (entry_of si) ca vals = Inr ti" "1 \<le> bt_threshold ti" "bt_threshold ti \<le> 15"
    and "run_ok (bt_iterations tc) bc" "clock_steps lc bc (nat (bt_iterations tc)) (sys_world sys)"
    and "run_ok (bt_iterations ti) bi" "clock_steps li bi (nat (bt_threshold ti) * nat (bt_iterations ti))
          ((sys_world sys)\<lparr>clk_n := clk_n (sys_world sys) + 2 * nat (bt_iterations tc)\<rparr>)"
    and "of_ll (20 * bc) < of_ll li"
    and "\<forall>s. re_mkdir re s \<and> re_fopen re s" "get_output_dir re dir = Some out" "length out \<le> 990"
  shows "\<exists>table scores rp' rc ri tsc tsi fc fi lsc lsi. rtmb pw (rtmb_loader pw pick e self te arrives mt tp ne)
        (sys\<lparr>sys_file := (\<lambda>_. None)(f \<mapsto> contents)\<rparr>) re argv0 (concat (map render_option opts)) rp = Some (Inr (0, rp'))
    \<and> rp_dirs rp' = rp_dirs rp @ [out, out @ ''/clock_config'', out @ ''/int_rate_config'']
    \<and> rp_files rp' (out @ ''/clock_config/report.txt'') = Some (report_head ''clock_config'' fc @ lsc) \<and> dump_score (fb_score fc) (verbose_lvl ca) = Inr lsc
    \<and> rp_files rp' (out @ ''/int_rate_config/report.txt'') = Some (report_head ''int_rate_config'' fi @ lsi) \<and> dump_score (fb_score fi) (verbose_lvl ca) = Inr lsi
    \<and> rp_files rp' (out @ ''/system_report.txt'') = Some (system_lines scores) \<and> compute_system_scores pw table = Inr scores
    \<and> fbmt (table ! bucket_no SYSCLOCK_CONFIG) = Some fc \<and> first_result table SYSCLOCK_CONFIG = Inr rc \<and> measured lc bc (bt_iterations tc) rc tsc
    \<and> fbmt (table ! bucket_no IRATE_CONFIG) = Some fi \<and> first_result table IRATE_CONFIG = Inr ri \<and> measured li bi (bt_iterations ti) ri tsi
    \<and> get_min_exec_time table = Inr (of_ll (20 * mediantime rc))"
proof -
  let ?dl = "rtmb_loader pw pick e self te arrives mt tp ne" and ?sys = "sys\<lparr>sys_file := (\<lambda>_. None)(f \<mapsto> contents)\<rparr>"
  let ?env = "\<lparr>te_table = empty_table, te_vals = vals, te_world = sys_world sys\<rparr>"
  have n: "bt_name (entry_of sc) = ''clock_config''" "bt_name (entry_of si) = ''int_rate_config''"
    "bt_config_test (entry_of sc) = 1" "bt_config_test (entry_of si) = 1" using assms(12,13,15,16) by (simp_all add: entry_of_def)
  have t: "bt_name tc = ''clock_config''" "bt_name ti = ''int_rate_config''" "Fin 0 < bt_reference_score tc" "Fin 0 < bt_reference_score ti"
    using assms(11,12,14,15,21,22) by (auto simp: get_iters_eq entry_of_def spec_ok_def bind_res_Inr_iff)
  obtain t1 env2 rc ri tsc tsi where l: "launch_tests ?dl (sys_cpus sys) ca home \<lparr>la_tests = [entry_of sc, entry_of si], la_env = ?env\<rparr>
      = Some (Inr (0, \<lparr>la_tests = [tc, ti], la_env = env2\<rparr>))"
    and e: "entered SYSCLOCK_CONFIG rc tc empty_table t1" "measured lc bc (bt_iterations tc) rc tsc"
      "entered IRATE_CONFIG ri ti t1 (te_table env2)" "measured li bi (bt_iterations ti) ri tsi"
      "get_min_exec_time t1 = Inr (of_ll (20 * mediantime rc))"
    using launch_calibrated [where env = ?env and pw = pw and pick = pick and e = e and self = self and te = te and arrives = arrives
        and mt = mt and tp = tp and ne = ne and cpus = "sys_cpus sys", OF n assms(9,5), unfolded tenv.select_convs,
        OF assms(21,22,20,25) t(3) assms(26,27) t(4) assms(23,24,28,29)] by blast
  let ?table = "te_table env2"
  have ok: "table_ok ?table" using e(3) by (simp add: entered_def)
  obtain scores where scores: "compute_system_scores pw ?table = Inr scores" using system_scores_eq [OF ok] by (simp add: Let_def)
  have main: "main pw ?dl ?sys argv0 (concat (map render_option opts)) = Some (Inr (Reported dir ?table (verbose_lvl ca) scores))"
    using main_launches [OF assms(1-4,6-8) _ assms(17-19) refl, of pw ?dl] l assms(10,11,14) scores by simp
  have same: "t1 ! bucket_no SYSCLOCK_CONFIG = ?table ! bucket_no SYSCLOCK_CONFIG"
    using e(3) unfolding entered_def by (metis test_bucket_number.distinct(3))
  have len: "length (report_path out tc) < 1024" "length (report_path out ti) < 1024" "length (system_path out) < 1024"
    using assms(32) t(1,2) by (simp_all add: report_path_def system_path_def)
  have "reportable out (?table ! bucket_no SYSCLOCK_CONFIG)" "reportable out (?table ! bucket_no IRATE_CONFIG)"
    using entered_reportable [OF e(1) _ len(1)] entered_reportable [OF e(3) _ len(2)] e(2,4) same by (auto simp: measured_def)
  moreover have "reportable out x" if "bm_test x = None" for x using that by (simp add: reportable_def)
  ultimately have rep: "\<forall>x \<in> set ?table. reportable out x" using calibrated_entries(2) [OF e(1,3)] same by metis
  have mem: "?table ! bucket_no SYSCLOCK_CONFIG \<in> set ?table" "?table ! bucket_no IRATE_CONFIG \<in> set ?table"
    using ok by (simp_all add: table_ok_def)
  have ran: "ran ?table = [tc, ti]" by (rule calibrated_entries(1) [OF e(1,3)])
  obtain rp' where rp': "dump_result_table_entry re dir ?table scores (verbose_lvl ca) rp = Inr rp'"
    "rp_dirs rp' = rp_dirs rp @ [out, out @ ''/clock_config'', out @ ''/int_rate_config'']"
    "\<forall>x \<in> set ?table. reported out (verbose_lvl ca) x rp'" "rp_files rp' (system_path out) = Some (system_lines scores)"
    using dump_table_ok [OF ok rep _ len(3) assms(30,31), of scores "verbose_lvl ca" rp] ran t(1,2) by auto
  have "bm_test (?table ! bucket_no SYSCLOCK_CONFIG) = Some tc" "bm_test (?table ! bucket_no IRATE_CONFIG) = Some ti"
    using e(1,3) same by (simp_all add: entered_def)
  with rp'(3) mem obtain fc fi lsc lsi where files:
    "fbmt (?table ! bucket_no SYSCLOCK_CONFIG) = Some fc" "dump_score (fb_score fc) (verbose_lvl ca) = Inr lsc"
    "rp_files rp' (report_path out tc) = Some (report_head (bt_name tc) fc @ lsc)"
    "fbmt (?table ! bucket_no IRATE_CONFIG) = Some fi" "dump_score (fb_score fi) (verbose_lvl ca) = Inr lsi"
    "rp_files rp' (report_path out ti) = Some (report_head (bt_name ti) fi @ lsi)"
    unfolding reported_def by metis
  have "rtmb pw ?dl ?sys re argv0 (concat (map render_option opts)) rp = Some (Inr (0, rp'))"
    using main rp'(1) by (simp add: rtmb_def)
  then show ?thesis
    using rp'(2,4) files t(1,2) scores e(2,4) calibrated_results [OF e(1,3)] e(5)
    by (intro exI [of _ ?table] exI [of _ scores] exI [of _ rp'] exI [of _ rc] exI [of _ ri] exI [of _ tsc] exI [of _ tsi]
        exI [of _ fc] exI [of _ fi] exI [of _ lsc] exI [of _ lsi]) (simp add: report_path_def system_path_def)
qed

text \<open>A file with both tests, a quick run, and the clock of \<open>calibration_env\<close>.\<close>

definition calibration_system :: system where
  "calibration_system = sample_system\<lparr>sys_world := te_world calibration_env\<rparr>"

definition clock_spec :: test_spec where
  "clock_spec = sample_spec\<lparr>sp_name := ''clock_config''\<rparr>"

definition int_spec :: test_spec where
  "int_spec = sample_spec\<lparr>sp_name := ''int_rate_config''\<rparr>"

definition clock_run :: benchmark_test where
  "clock_run = (entry_of clock_spec)\<lparr>bt_iterations := 1\<rparr>"

definition int_run :: benchmark_test where
  "int_run = (entry_of int_spec)\<lparr>bt_iterations := 1\<rparr>"

theorem calibrated_run_reported_witness:
  "\<exists>table scores rp' rc ri tsc tsi fc fi lsc lsi. rtmb (\<lambda>x y. x)
        (rtmb_loader (\<lambda>x y. x) even fifo_env \<lparr>sc_policy = SCHED_OTHER, sc_priority = 0\<rparr> all_timers even two_cpus three_classes two_pieces)
        (calibration_system\<lparr>sys_file := (\<lambda>_. None)(''/opt/rtmb/config/input.txt'' \<mapsto>
          file_of (concat (map render_test [int_spec, clock_spec]) @ map render_exp [(SRT_ACCEPTABLE_PERCENT, 50)]))\<rparr>)
        new_year ''/opt/rtmb/bin/rtmb'' (concat (map render_option [Quick])) \<lparr>rp_dirs = [], rp_files = \<lambda>_. None\<rparr> = Some (Inr (0, rp'))
    \<and> rp_dirs rp' = rp_dirs \<lparr>rp_dirs = [], rp_files = \<lambda>_. None\<rparr> @ [''/opt/rtmb//c_report_080101_09053007'',
        ''/opt/rtmb//c_report_080101_09053007'' @ ''/clock_config'', ''/opt/rtmb//c_report_080101_09053007'' @ ''/int_rate_config'']
    \<and> rp_files rp' (''/opt/rtmb//c_report_080101_09053007'' @ ''/clock_config/report.txt'') = Some (report_head ''clock_config'' fc @ lsc)
    \<and> dump_score (fb_score fc) (verbose_lvl sample_options) = Inr lsc
    \<and> rp_files rp' (''/opt/rtmb//c_report_080101_09053007'' @ ''/int_rate_config/report.txt'') = Some (report_head ''int_rate_config'' fi @ lsi)
    \<and> dump_score (fb_score fi) (verbose_lvl sample_options) = Inr lsi
    \<and> rp_files rp' (''/opt/rtmb//c_report_080101_09053007'' @ ''/system_report.txt'') = Some (system_lines scores) \<and> compute_system_scores (\<lambda>x y. x) table = Inr scores
    \<and> fbmt (table ! bucket_no SYSCLOCK_CONFIG) = Some fc \<and> first_result table SYSCLOCK_CONFIG = Inr rc \<and> measured 100 100 (bt_iterations clock_run) rc tsc
    \<and> fbmt (table ! bucket_no IRATE_CONFIG) = Some fi \<and> first_result table IRATE_CONFIG = Inr ri \<and> measured 50000 50000 (bt_iterations int_run) ri tsi
    \<and> get_min_exec_time table = Inr (of_ll (20 * mediantime rc))"
proof (rule calibrated_run_reported [OF _ _ _ _ _ _ sample_options_def _ _ _ _ _ _ _ _ _ _ refl refl])
  let ?vals = "fold (\<lambda>(k, n) v. set_exp v (Fin (of_int (int n))) k) [(SRT_ACCEPTABLE_PERCENT, 50)] (ip_vals no_params)"
  show "percent_ok (rt_mode sample_options) ?vals"
    using f32_int [of 50] by (simp add: percent_ok_def sample_options_def no_options_def mode_vals_def set_exp_def)
  show "get_iters (entry_of clock_spec) sample_options ?vals = Inr clock_run" "get_iters (entry_of int_spec) sample_options ?vals = Inr int_run"
    by (simp_all add: get_iters_eq sample_options_def clock_run_def int_run_def)
  show "clock_steps 100 100 (nat (bt_iterations clock_run)) (sys_world calibration_system)"
    by (simp add: clock_steps_def calibration_system_def calibration_env_def clock_run_def steady_world_def ts_ok_def ts_nsec_def in_range_def)
  show "clock_steps 50000 50000 (nat (bt_threshold int_run) * nat (bt_iterations int_run))
      ((sys_world calibration_system)\<lparr>clk_n := clk_n (sys_world calibration_system) + 2 * nat (bt_iterations clock_run)\<rparr>)"
    by (simp add: clock_steps_def calibration_system_def calibration_env_def clock_run_def steady_world_def ts_ok_def ts_nsec_def in_range_def)
  show "get_output_dir new_year ''/opt/rtmb/'' = Some ''/opt/rtmb//c_report_080101_09053007''" by code_simp
  show "build_home_dir (sys_names calibration_system) (sys_cwd calibration_system) ''/opt/rtmb/bin/rtmb'' = Inr ''/opt/rtmb''"
    by (simp add: calibration_system_def sample_system_def installed_home)
qed (simp_all add: calibration_system_def sample_system_def sample_options_def no_options_def clock_spec_def int_spec_def sample_spec_def
  spec_ok_def word_ok_def clock_run_def int_run_def entry_of_def run_ok_def is_int_def report_dir_def path_copy_def new_year_def)

end
