(* ===== verification/Cpp_Results.thy ===== *)
theory Cpp_Results
  imports Timed_Run
begin

text \<open>
  The C++ implementation, \<^verbatim>\<open>rtmb_cpp/src/testcase/util/TestResults.cpp\<close>: the class \<^verbatim>\<open>TestResults\<close>.
  Members that a constructor leaves indeterminate are options, and so are the elements of the array that
  \<^verbatim>\<open>new long long[n]\<close> does not initialise; reading one that is not there is a fault.  The mutex is one
  variable of the program that every operation which takes it gives back before it returns, and no such
  operation calls another, so it is left out, as are the messages.
\<close>

section \<open>Data\<close>

text \<open>The enumeration \<^verbatim>\<open>testIds\<close>; the constructors of the C enumeration have the same names.\<close>

datatype testIds =
    SYSCLOCK_ID | SYSTIMER_ID | IRATE_ID | FRATE_ID | MCACHE_ID | DISKIOREAD_ID | DISKIOWRITE_ID | NETIO_ID
  | TIMER_ACCURACY_ID | EVENT_DISPATCH_ID | THREAD_PRIORITY_ID | LOCK_CONSISTENCY_ID | PERIODIC_EVENTS_ID
  | ASYNC_EVENTS_ID | DISK_IO_ID | NET_IO_ID | MULTI_THREAD_ID | MULTI_CPU_ID

record TestResults =
  testId :: "testIds option"
  mean :: int
  minT :: int
  maxT :: int
  medianT :: "f64 option"
  stdDev :: f64
  minUpdated :: bool
  entries :: int
  iterations :: int
  maxEntries :: "int option"
  vals :: "int option list option"
  workQuantum :: int
  resultId :: int
  resultName :: string
  testPass :: "bool option"
  outlierCount :: "int option"
  rangePercent :: "f64 option"
  acceptablePercent :: "f64 option"
  conformingIters :: "int option"
  nonConformingIters :: "int option"
  positiveLimit :: "f64 option"
  negativeLimit :: "f64 option"

definition init_value :: "'a option \<Rightarrow> 'a res" where
  "init_value x = (case x of None \<Rightarrow> Inl Uninitialised | Some v \<Rightarrow> Inr v)"

lemma init_value_simps [simp]: "init_value (Some v) = Inr v" "init_value None = Inl Uninitialised"
  by (simp_all add: init_value_def)

definition new_array :: "int \<Rightarrow> int option list res" where
  "new_array n = (if n < 0 then Inl Abort_called else Inr (replicate (nat n) None))"

definition empty_result :: TestResults where
  "empty_result = \<lparr>testId = None, mean = 0, minT = 0, maxT = 0, medianT = None, stdDev = Fin 0, minUpdated = False,
     entries = 0, iterations = 0, maxEntries = None, vals = None, workQuantum = 0, resultId = 0, resultName = ''default'',
     testPass = None, outlierCount = None, rangePercent = None, acceptablePercent = None, conformingIters = None, nonConformingIters = None, positiveLimit = None, negativeLimit = None\<rparr>"

definition new_TestResults :: "testIds \<Rightarrow> int \<Rightarrow> TestResults res" where
  "new_TestResults tid iters = bind_res (new_array iters) (\<lambda>a.
     Inr (empty_result\<lparr>testId := Some tid, iterations := iters, maxEntries := Some iters, vals := Some a\<rparr>))"

section \<open>The array of values\<close>

definition value_at :: "TestResults \<Rightarrow> int \<Rightarrow> int res" where
  "value_at r i = (case vals r of None \<Rightarrow> Inl Null_deref | Some a \<Rightarrow> bind_res (aread a i) init_value)"

definition store_value :: "TestResults \<Rightarrow> int \<Rightarrow> int \<Rightarrow> TestResults res" where
  "store_value r i v = (case vals r of None \<Rightarrow> Inl Null_deref
     | Some a \<Rightarrow> bind_res (awrite a i (Some v)) (\<lambda>a. Inr (r\<lparr>vals := Some a\<rparr>)))"

definition setNumberOfValues :: "TestResults \<Rightarrow> int \<Rightarrow> TestResults res" where
  "setNumberOfValues r n = bind_res (new_array n) (\<lambda>a. Inr (r\<lparr>vals := Some a, maxEntries := Some n\<rparr>))"

section \<open>Statistics\<close>

definition setMin :: "TestResults \<Rightarrow> TestResults res" where
  "setMin r = bind_res (value_at r (entries r)) (\<lambda>v.
     Inr (if \<not> minUpdated r then r\<lparr>minT := v, minUpdated := True\<rparr>
          else if v < minT r then r\<lparr>minT := v\<rparr> else r))"

definition setMax :: "TestResults \<Rightarrow> TestResults res" where
  "setMax r = bind_res (value_at r (entries r)) (\<lambda>v. Inr (if maxT r < v then r\<lparr>maxT := v\<rparr> else r))"

definition setMinMaxValues :: "TestResults \<Rightarrow> TestResults res" where
  "setMinMaxValues r = bind_res (setMax r) setMin"

definition setMedian :: "TestResults \<Rightarrow> TestResults res" where
  "setMedian r = (if entries r < 0 then Inl Abort_called else
     bind_res (for_res [0..<nat (entries r)] (\<lambda>i temp. bind_res (value_at r (int i)) (\<lambda>v. Inr (temp @ [v]))) []) (\<lambda>temp.
     let temp = sort temp; num = entries r in
     if num smod 2 = 0 then
       bind_res (aread temp (num sdiv 2)) (\<lambda>u. bind_res (aread temp (num sdiv 2 - 1)) (\<lambda>v.
         bind_res (chk_ll (u + v)) (\<lambda>s. Inr (r\<lparr>medianT := Some (of_ll s / Fin 2)\<rparr>))))
     else bind_res (aread temp (num sdiv 2)) (\<lambda>v. Inr (r\<lparr>medianT := Some (of_ll v)\<rparr>))))"

definition setStdDev :: "TestResults \<Rightarrow> TestResults res" where
  "setStdDev r =
     bind_res (for_res [0..<nat (entries r)] (\<lambda>i s. bind_res (value_at r (int i)) (\<lambda>v. chk_ll (s + v))) 0) (\<lambda>sum.
     bind_res (div_ll sum (entries r)) (\<lambda>m. let r = r\<lparr>mean := m\<rparr> in
     bind_res (for_res [0..<nat (entries r)] (\<lambda>i t. bind_res (value_at r (int i)) (\<lambda>v.
       bind_res (chk_ll (v - mean r)) (\<lambda>d. bind_res (chk_ll (d * d)) (\<lambda>q. chk_ll (t + q))))) 0) (\<lambda>total.
       Inr (r\<lparr>stdDev := f64_sqrt (of_ll total * Fin 1 / of_ll (entries r))\<rparr>))))"

section \<open>Recording, removing and copying values\<close>

definition setValuesAtNextIndex :: "TestResults \<Rightarrow> int \<Rightarrow> TestResults res" where
  "setValuesAtNextIndex r v = bind_res (store_value r (entries r) v) (\<lambda>r. bind_res (setMinMaxValues r) (\<lambda>r.
     bind_res (chk_int (entries r + 1)) (\<lambda>n. let r = r\<lparr>entries := n\<rparr> in bind_res (init_value (maxEntries r)) (\<lambda>m.
       if entries r = m then bind_res (setStdDev r) setMedian else Inr r))))"

fun record_all :: "TestResults \<Rightarrow> int list \<Rightarrow> TestResults res" where
  "record_all r [] = Inr r"
| "record_all r (t # ts) = bind_res (setValuesAtNextIndex r t) (\<lambda>r. record_all r ts)"

definition removeOldValues :: "TestResults \<Rightarrow> TestResults" where
  "removeOldValues r = r\<lparr>minT := 0, maxT := 0, mean := 0, medianT := Some (Fin 0), stdDev := Fin 0, minUpdated := False, entries := 0\<rparr>"

text \<open>All members of \<open>src\<close> are copied; the values go into the array that the copy had before.\<close>

definition cloneValues :: "TestResults \<Rightarrow> TestResults \<Rightarrow> TestResults res" where
  "cloneValues r src = for_res [0..<nat (entries src)] (\<lambda>i r. bind_res (value_at src (int i)) (\<lambda>v. store_value r (int i) v))
     (src\<lparr>vals := vals r\<rparr>)"

definition normalizeResults :: "TestResults \<Rightarrow> int \<Rightarrow> int \<Rightarrow> (int \<times> TestResults) res" where
  "normalizeResults r baseVal normalizedVal =
     bind_res (for_res [0..<nat (entries r)] (\<lambda>i (count, r). bind_res (value_at r (int i)) (\<lambda>v.
       if v < baseVal then bind_res (store_value r (int i) normalizedVal) (\<lambda>r. bind_res (chk_int (count + 1)) (\<lambda>count. Inr (count, r)))
       else Inr (count, r))) (0, r)) (\<lambda>(count, r).
     let r = (if minT r < baseVal then r\<lparr>minT := baseVal\<rparr> else r); r = (if maxT r < baseVal then r\<lparr>maxT := baseVal\<rparr> else r) in
     bind_res (setStdDev r) (\<lambda>r. bind_res (setMedian r) (\<lambda>r. Inr (count, r))))"

section \<open>The pass criteria\<close>

definition count_outside :: "TestResults \<Rightarrow> f64 \<Rightarrow> f64 \<Rightarrow> int res" where
  "count_outside r neg pos = for_res [0..<nat (entries r)] (\<lambda>i c. bind_res (value_at r (int i)) (\<lambda>v.
     if outlying neg pos v then chk_int (c + 1) else Inr c)) 0"

definition checkStdDev :: "TestResults \<Rightarrow> f64 \<Rightarrow> f64 \<Rightarrow> (bool \<times> TestResults) res" where
  "checkStdDev r rangePct acceptablePct = bind_res (setStdDev r) (\<lambda>r.
     bind_res (guard_res Assert_failed (Fin 0 < rangePct \<and> rangePct < Fin 100)) (\<lambda>_.
     bind_res (guard_res Assert_failed (Fin 0 < acceptablePct \<and> acceptablePct < Fin 100)) (\<lambda>_.
     bind_res (init_value (medianT r)) (\<lambda>med.
     let pos = med * (Fin 1 + rangePct / Fin 100); neg = med * (Fin 1 - rangePct / Fin 100) in
     bind_res (count_outside r neg pos) (\<lambda>nonConf.
     bind_res (chk_int (entries r - nonConf)) (\<lambda>conf.
     bind_res (f64_to_int (acceptablePct / Fin 100 * of_ll (entries r))) (\<lambda>minAcc.
       Inr (minAcc \<le> conf, r\<lparr>conformingIters := Some conf, nonConformingIters := Some nonConf,
         positiveLimit := Some pos, negativeLimit := Some neg\<rparr>))))))))"

section \<open>What an object holds after recording\<close>

text \<open>\<open>holds r ts\<close>: the object was filled with the times \<open>ts\<close> and has room for \<open>maxEntries\<close> of them.\<close>

definition holds :: "TestResults \<Rightarrow> int list \<Rightarrow> bool" where
  "holds r ts \<longleftrightarrow> entries r = int (length ts) \<and> (\<exists>a m. vals r = Some a \<and> maxEntries r = Some m \<and> int (length a) = m \<and> is_int m
     \<and> length ts \<le> length a \<and> take (length ts) a = map Some ts)
     \<and> minUpdated r = (ts \<noteq> []) \<and> (ts \<noteq> [] \<longrightarrow> minT r = Min (set ts)) \<and> maxT r = Max (insert 0 (set ts))"

definition deviation :: "int list \<Rightarrow> f64" where
  "deviation ts = f64_sqrt (of_ll (sum_list (map (\<lambda>t. (t - mean_of ts)\<^sup>2) ts)) * Fin 1 / of_ll (int (length ts)))"

definition has_statistics :: "TestResults \<Rightarrow> int list \<Rightarrow> bool" where
  "has_statistics r ts \<longleftrightarrow> mean r = mean_of ts \<and> medianT r = Some (Fin (median_of ts)) \<and> stdDev r = deviation ts"

definition room :: "TestResults \<Rightarrow> int" where
  "room r = (case maxEntries r of None \<Rightarrow> 0 | Some m \<Rightarrow> m)"

lemma new_holds: "is_int n \<Longrightarrow> 0 \<le> n \<Longrightarrow> \<exists>r. new_TestResults tid n = Inr r \<and> holds r [] \<and> room r = n \<and> testId r = Some tid"
  by (simp add: new_TestResults_def new_array_def holds_def empty_result_def room_def)

lemma value_at_holds: "holds r ts \<Longrightarrow> i < length ts \<Longrightarrow> value_at r (int i) = Inr (ts ! i)"
proof -
  assume h: "holds r ts" and i: "i < length ts"
  then obtain a where a: "vals r = Some a" "length ts \<le> length a" "take (length ts) a = map Some ts" by (auto simp: holds_def)
  have "a ! i = take (length ts) a ! i" using i by simp
  then have "a ! i = Some (ts ! i)" using a(3) i by simp
  then show ?thesis using a i by (simp add: value_at_def aread_ok)
qed

lemma removed_holds: "holds r ts \<Longrightarrow> holds (removeOldValues r) [] \<and> room (removeOldValues r) = room r \<and> testId (removeOldValues r) = testId r"
  by (auto simp: holds_def removeOldValues_def room_def)

text \<open>The two computations over the recorded times.\<close>

lemma setStdDev_ok:
  assumes "holds r ts" and "times_ok b ts" and "ts \<noteq> []"
  shows "setStdDev r = Inr (r\<lparr>mean := mean_of ts, stdDev := deviation ts\<rparr>)"
proof -
  have st: "stamps_ok 0 b ts" by (rule times_ok_stamps [OF assms(2,3)])
  have b: "1 \<le> b" "int (length ts) * (b * b) \<le> LLONG_MAX" "int (length ts) * b \<le> LLONG_MAX" "b \<le> 4000000000000000"
    using st by (simp_all add: stamps_ok_def)
  have m: "0 \<le> mean_of ts" "mean_of ts \<le> b" using mean_of_bounds [OF st assms(3)] by auto
  have n: "nat (entries r) = length ts" "entries r = int (length ts)" using assms(1) by (simp_all add: holds_def)
  have mem: "0 \<le> ts ! i \<and> ts ! i \<le> b" if "i < length ts" for i using times_ok_mem [OF assms(2)] that by simp
  have sum: "for_res [0..<length ts] (\<lambda>i s. bind_res (value_at r (int i)) (\<lambda>v. chk_ll (s + v))) 0 = Inr (sum_list ts)"
    using sum_loop_ok [of "length ts" ts "\<lambda>v. v" b "\<lambda>i s. bind_res (value_at r (int i)) (\<lambda>v. chk_ll (s + v))"]
      times_ok_mem [OF assms(2)] b(1,3) value_at_holds [OF assms(1)] by (simp add: chk_ll_ok)
  have "sum_list ts \<le> int (length ts) * b" "0 \<le> sum_list ts"
    using sum_list_bounded [of ts "\<lambda>x. x" b] times_ok_mem [OF assms(2)] by auto
  then have div: "div_ll (sum_list ts) (int (length ts)) = Inr (mean_of ts)"
    using assms(3) b(4) m by (simp add: div_ll_def sdiv_nonneg_eq chk_ll_ok mean_of_def is_ll_def)
  have bb: "b * b \<le> LLONG_MAX" using b(2) mult_right_mono [of 1 "int (length ts)" "b * b"] assms(3) by (cases ts) auto
  have sq: "0 \<le> (t - mean_of ts)\<^sup>2 \<and> (t - mean_of ts)\<^sup>2 \<le> b * b" if "0 \<le> t \<and> t \<le> b" for t
  proof -
    have "\<bar>t - mean_of ts\<bar> \<le> b" using that m by linarith
    then have "\<bar>t - mean_of ts\<bar> * \<bar>t - mean_of ts\<bar> \<le> b * b" by (intro mult_mono) auto
    then show ?thesis by (simp add: power2_eq_square flip: abs_mult)
  qed
  have "for_res [0..<length ts] (\<lambda>i t. bind_res (value_at r (int i)) (\<lambda>v. bind_res (chk_ll (v - mean_of ts)) (\<lambda>d.
      bind_res (chk_ll (d * d)) (\<lambda>q. chk_ll (t + q))))) 0 = Inr (sum_list (map (\<lambda>t. (t - mean_of ts)\<^sup>2) (take (length ts) ts)))"
  proof (rule sum_loop_ok [where c = "b * b"])
    fix i s assume i: "i < length ts" and s: "is_ll (s + (ts ! i - mean_of ts)\<^sup>2)"
    have "is_ll (ts ! i - mean_of ts)" "is_ll ((ts ! i - mean_of ts)\<^sup>2)"
      using mem [OF i] sq [OF mem [OF i]] m b(4) bb unfolding is_ll_def by linarith+
    then show "bind_res (value_at r (int i)) (\<lambda>v. bind_res (chk_ll (v - mean_of ts)) (\<lambda>d.
        bind_res (chk_ll (d * d)) (\<lambda>q. chk_ll (s + q)))) = Inr (s + (ts ! i - mean_of ts)\<^sup>2)"
      using i s value_at_holds [OF assms(1)] by (simp add: chk_ll_ok power2_eq_square)
  qed (use sq times_ok_mem [OF assms(2)] b in auto)
  moreover have "value_at (r\<lparr>mean := x\<rparr>) i = value_at r i" for x i by (simp add: value_at_def)
  ultimately show ?thesis using sum div n by (simp add: setStdDev_def Let_def deviation_def)
qed

lemma setMedian_ok:
  assumes "holds r ts" and "times_ok b ts" and "ts \<noteq> []"
  shows "setMedian r = Inr (r\<lparr>medianT := Some (Fin (median_of ts))\<rparr>)"
proof -
  let ?n = "length ts" and ?s = "sort ts"
  have n: "entries r = int ?n" "\<not> int ?n < 0" using assms(1) by (simp_all add: holds_def)
  have copy: "for_res [0..<?n] (\<lambda>i temp. bind_res (value_at r (int i)) (\<lambda>v. Inr (temp @ [v]))) [] = Inr ts"
  proof -
    have "\<exists>s. for_res [0..<?n] (\<lambda>i temp. bind_res (value_at r (int i)) (\<lambda>v. Inr (temp @ [v]))) [] = Inr s \<and> s = take ?n ts"
      by (rule for_res_inv [where P = "\<lambda>i s. s = take i ts"]) (auto simp: value_at_holds [OF assms(1)] take_Suc_conv_app_nth)
    then show ?thesis by simp
  qed
  have small: "\<forall>v \<in> set (take ?n ts). \<bar>v\<bar> \<le> 4000000000000000"
    using times_ok_stamps [OF assms(2,3)] unfolding stamps_ok_def by auto
  have "get_median ts (int ?n) = Inr (Fin (median_of ts))"
    using get_median_ok [OF _ _ small] assms(3) by simp
  then have med: "(if int ?n smod 2 = 1 then bind_res (aread ?s (int ?n sdiv 2)) (\<lambda>v. Inr (of_ll v))
       else bind_res (aread ?s (int ?n sdiv 2 - 1)) (\<lambda>u. bind_res (aread ?s (int ?n sdiv 2)) (\<lambda>v.
         bind_res (chk_ll (u + v)) (\<lambda>s. Inr (of_ll s / Fin 2))))) = Inr (Fin (median_of ts))"
    using copy_values_ok [of ?n ts, OF le_refl] n(2)
    by (simp only: get_median_def nat_int if_False bind_res_Inr Let_def qsort_is_sort take_all [OF le_refl])
  have par: "int ?n smod 2 = 1 \<or> int ?n smod 2 = 0" by (simp add: smod_nonneg_eq) presburger
  show ?thesis
  proof (cases "int ?n smod 2 = 0")
    case False
    then show ?thesis using med par copy n
      by (auto simp: setMedian_def Let_def bind_res_Inr_iff simp del: aread_Inr)
  next
    case True
    then obtain u v where uv: "aread ?s (int ?n sdiv 2 - 1) = Inr u" "aread ?s (int ?n sdiv 2) = Inr v" "is_ll (u + v)"
      "of_ll (u + v) / Fin 2 = Fin (median_of ts)"
      using med by (auto simp: bind_res_Inr_iff simp del: aread_Inr)
    then show ?thesis using True copy n
      by (simp add: setMedian_def Let_def chk_ll_ok add.commute [of v u] del: aread_Inr)
  qed
qed

section \<open>A value is recorded\<close>

lemma room_Some: "maxEntries r = Some m \<Longrightarrow> room r = m"
  by (simp add: room_def)

lemma stored_holds:
  assumes "holds r ts" and "int (length ts) < room r"
  shows "\<exists>r'. bind_res (store_value r (entries r) t) setMinMaxValues = Inr r' \<and> holds (r'\<lparr>entries := int (length ts) + 1\<rparr>) (ts @ [t])
    \<and> entries r' = int (length ts) \<and> maxEntries r' = maxEntries r \<and> testId r' = testId r \<and> is_int (int (length ts) + 1)"
proof -
  let ?n = "length ts"
  obtain a m where a: "vals r = Some a" "maxEntries r = Some m" "int (length a) = m" "is_int m" "?n \<le> length a"
    "take ?n a = map Some ts" "entries r = int ?n" using assms(1) by (auto simp: holds_def)
  have n: "?n < length a" "is_int (int ?n + 1)" using assms(2) a by (auto simp: room_def is_int_def)
  have tk: "take (Suc ?n) (a[?n := Some t]) = map Some (ts @ [t])" using take_Suc_update [OF n(1)] a(6) by simp
  define lo hi where "lo = Min (set ts)" and "hi = Max (insert 0 (set ts))"
  have mm: "ts \<noteq> [] \<Longrightarrow> Min (insert t (set ts)) = min t lo" "Max (insert 0 (insert t (set ts))) = max t hi"
    using Max_insert [of "insert 0 (set ts)" t] by (simp_all add: lo_def hi_def insert_commute [of 0 t] del: Max_insert)
  have r: "minUpdated r = (ts \<noteq> [])" "ts \<noteq> [] \<longrightarrow> minT r = lo" "maxT r = hi"
    using assms(1) by (simp_all add: holds_def lo_def hi_def)
  let ?r1 = "r\<lparr>vals := Some (a[?n := Some t])\<rparr>"
  let ?r2 = "if maxT r < t then ?r1\<lparr>maxT := t\<rparr> else ?r1"
  let ?r3 = "if \<not> minUpdated r then ?r2\<lparr>minT := t, minUpdated := True\<rparr> else if t < minT r then ?r2\<lparr>minT := t\<rparr> else ?r2"
  have "bind_res (store_value r (entries r) t) setMinMaxValues = Inr ?r3"
    using a n by (simp add: store_value_def awrite_ok setMinMaxValues_def setMax_def setMin_def value_at_def aread_ok)
  moreover have "minT ?r3 = Min (set (ts @ [t]))" "minUpdated ?r3" using mm(1) r by (auto simp: min_def simp del: Min_insert)
  moreover have "maxT ?r3 = Max (insert 0 (set (ts @ [t])))" using mm(2) r by (auto simp: max_def simp del: Max_insert)
  ultimately have "bind_res (store_value r (entries r) t) setMinMaxValues = Inr ?r3" "holds (?r3\<lparr>entries := int ?n + 1\<rparr>) (ts @ [t])"
    using a n tk by (auto simp: holds_def simp del: Min_insert Max_insert)
  then show ?thesis using a n(2) by auto
qed

lemma setValues_step:
  assumes "holds r ts" and "int (length ts) + 1 < room r"
  shows "\<exists>r'. setValuesAtNextIndex r t = Inr r' \<and> holds r' (ts @ [t]) \<and> room r' = room r \<and> testId r' = testId r"
proof -
  obtain r1 where r1: "bind_res (store_value r (entries r) t) setMinMaxValues = Inr r1" "holds (r1\<lparr>entries := int (length ts) + 1\<rparr>) (ts @ [t])"
    "entries r1 = int (length ts)" "maxEntries r1 = maxEntries r" "testId r1 = testId r" "is_int (int (length ts) + 1)"
    using stored_holds [OF assms(1), of t] assms(2) by auto
  obtain m where m: "maxEntries r = Some m" using assms(1) by (auto simp: holds_def)
  have "setValuesAtNextIndex r t = Inr (r1\<lparr>entries := int (length ts) + 1\<rparr>)"
    using r1(1) r1(3-) m assms(2) unfolding setValuesAtNextIndex_def bind_res_assoc [symmetric]
    by (simp add: chk_int_ok Let_def room_def)
  then show ?thesis using r1 m by (auto simp: room_def)
qed

lemma setValues_last:
  assumes "holds r ts" and "int (length ts) + 1 = room r" and "times_ok b (ts @ [t])"
  shows "\<exists>r'. setValuesAtNextIndex r t = Inr r' \<and> holds r' (ts @ [t]) \<and> has_statistics r' (ts @ [t]) \<and> room r' = room r
    \<and> testId r' = testId r"
proof -
  let ?ts = "ts @ [t]"
  obtain r1 where r1: "bind_res (store_value r (entries r) t) setMinMaxValues = Inr r1" "holds (r1\<lparr>entries := int (length ts) + 1\<rparr>) ?ts"
    "entries r1 = int (length ts)" "maxEntries r1 = maxEntries r" "testId r1 = testId r" "is_int (int (length ts) + 1)"
    using stored_holds [OF assms(1), of t] assms(2) by auto
  obtain m where m: "maxEntries r = Some m" using assms(1) by (auto simp: holds_def)
  define r2 where "r2 = r1\<lparr>entries := int (length ts) + 1\<rparr>"
  define r3 where "r3 = r2\<lparr>mean := mean_of ?ts, stdDev := deviation ?ts\<rparr>"
  have h: "holds r2 ?ts" "holds r3 ?ts" using r1(2) by (simp_all add: r2_def r3_def holds_def)
  have "setStdDev r2 = Inr r3" using setStdDev_ok [OF h(1) assms(3)] by (simp add: r3_def)
  moreover have "setMedian r3 = Inr (r3\<lparr>medianT := Some (Fin (median_of ?ts))\<rparr>)" using setMedian_ok [OF h(2) assms(3)] by simp
  ultimately have "setValuesAtNextIndex r t = Inr (r3\<lparr>medianT := Some (Fin (median_of ?ts))\<rparr>)"
    using r1(1) r1(3-) m assms(2) unfolding setValuesAtNextIndex_def bind_res_assoc [symmetric]
    by (simp add: chk_int_ok Let_def room_def r2_def)
  moreover have "holds (r3\<lparr>medianT := x\<rparr>) ?ts" for x using h(2) by (simp add: holds_def)
  moreover have "has_statistics (r3\<lparr>medianT := Some (Fin (median_of ?ts))\<rparr>) ?ts" by (simp add: has_statistics_def r3_def)
  ultimately show ?thesis using r1(4,5) by (auto simp: room_def r3_def r2_def)
qed

lemma record_all_append: "record_all r (xs @ ys) = bind_res (record_all r xs) (\<lambda>r. record_all r ys)"
  by (induction xs arbitrary: r) (auto simp: bind_res_assoc)

lemma record_all_partial:
  "holds r us \<Longrightarrow> int (length us + length ts) < room r \<Longrightarrow>
    \<exists>r'. record_all r ts = Inr r' \<and> holds r' (us @ ts) \<and> room r' = room r \<and> testId r' = testId r"
proof (induction ts arbitrary: r us)
  case (Cons t ts)
  then obtain r1 where "setValuesAtNextIndex r t = Inr r1" "holds r1 (us @ [t])" "room r1 = room r" "testId r1 = testId r"
    using setValues_step [of r us t] by auto
  then show ?case using Cons.IH [of r1 "us @ [t]"] Cons.prems by auto
qed simp

lemma record_all_full:
  assumes "holds r []" and "int (length ts) = room r" and "ts \<noteq> []" and "times_ok b ts"
  shows "\<exists>r'. record_all r ts = Inr r' \<and> holds r' ts \<and> has_statistics r' ts \<and> room r' = room r \<and> testId r' = testId r"
proof -
  obtain us t where ts: "ts = us @ [t]" using assms(3) by (metis rev_exhaust)
  obtain r1 where r1: "record_all r us = Inr r1" "holds r1 us" "room r1 = room r" "testId r1 = testId r"
    using record_all_partial [of r "[]" us] assms(1,2) ts by auto
  then obtain r2 where "setValuesAtNextIndex r1 t = Inr r2" "holds r2 ts" "has_statistics r2 ts" "room r2 = room r" "testId r2 = testId r"
    using setValues_last [of r1 us b t] assms ts by auto
  with r1 show ?thesis by (simp add: ts record_all_append)
qed

section \<open>The verdict\<close>

lemma count_outside_ok:
  assumes "holds r ts"
  shows "count_outside r neg pos = Inr (int (length (filter (outlying neg pos) ts)))"
proof -
  let ?P = "\<lambda>i c. c = int (length (filter (outlying neg pos) (take i ts)))"
  have len: "int (length ts) \<le> INT_MAX" "nat (entries r) = length ts" using assms by (auto simp: holds_def is_int_def)
  have "\<exists>c. for_res [0..<length ts] (\<lambda>i c. bind_res (value_at r (int i)) (\<lambda>v.
      if outlying neg pos v then chk_int (c + 1) else Inr c)) 0 = Inr c \<and> ?P (length ts) c"
  proof (rule for_res_inv [where P = ?P])
    fix i c assume i: "i < length ts" and c: "?P i c"
    have "c \<le> int i" using c length_filter_le [of "outlying neg pos" "take i ts"] by simp
    then have "is_int (c + 1)" using i c len(1) by (simp add: is_int_def)
    then show "\<exists>s'. bind_res (value_at r (int i)) (\<lambda>v. if outlying neg pos v then chk_int (c + 1) else Inr c) = Inr s' \<and> ?P (Suc i) s'"
      using i c value_at_holds [OF assms i] by (auto simp: chk_int_ok take_Suc_conv_app_nth)
  qed auto
  then show ?thesis using len(2) by (simp add: count_outside_def)
qed

text \<open>The number of conforming iterations asked for lies between none and all of them.\<close>

lemma acceptable_bounds:
  assumes "is_int n" and "0 \<le> n" and "0 \<le> a" and "a \<le> 100"
  shows "\<exists>m. f64_to_int (Fin a / Fin 100 * of_ll n) = Inr m \<and> 0 \<le> m \<and> m \<le> n"
proof -
  have "a / 100 \<le> 1" using assms(4) by simp
  then obtain q where q: "rnd64 (a / 100) = Fin q" "0 \<le> q" "q \<le> 1"
    using rnd64_nonneg_le [of "a / 100" 1] representable64_int [of 1] assms(3) by auto
  have n: "\<bar>n\<bar> \<le> 2 ^ 53" "(of_int n :: rat) \<le> of_int 2147483647" using assms(1) by (auto simp: is_int_def)
  then have "(of_int n :: rat) \<le> 2 ^ 1000" using power_increasing [of 31 1000 "2 :: rat"] by simp
  then obtain v where v: "rnd64 (q * of_int n) = Fin v" "0 \<le> v" "v \<le> of_int n"
    using rnd64_nonneg_le [of "q * of_int n" "of_int n"] representable64_int [OF n(1)] q assms(2)
      mult_left_le_one_le [of "of_int n" q] by auto
  then have "0 \<le> trunc v \<and> trunc v \<le> n" using trunc_bounds_int [of 0 v n] by simp
  moreover from this have "is_int (trunc v)" using assms(1) by (simp add: is_int_def)
  ultimately show ?thesis using q v assms(1) by (simp add: f64_to_int_Fin)
qed

definition upper_limit :: "f64 \<Rightarrow> f64 \<Rightarrow> f64" where
  "upper_limit med pct = med * (Fin 1 + pct / Fin 100)"

definition lower_limit :: "f64 \<Rightarrow> f64 \<Rightarrow> f64" where
  "lower_limit med pct = med * (Fin 1 - pct / Fin 100)"

text \<open>Both percentages lie strictly between 0 and 100.\<close>

definition percents :: "f64 \<Rightarrow> f64 \<Rightarrow> bool" where
  "percents rng a \<longleftrightarrow> Fin 0 < rng \<and> rng < Fin 100 \<and> Fin 0 < a \<and> a < Fin 100"

lemma checkStdDev_ok:
  assumes "holds r ts" and "times_ok b ts" and "ts \<noteq> []" and "medianT r = Some med" and "percents rng a"
  defines "n \<equiv> int (length ts)" and "c \<equiv> conforming (lower_limit med rng) (upper_limit med rng) ts"
  shows "\<exists>m. f64_to_int (a / Fin 100 * of_ll n) = Inr m \<and> 0 \<le> m \<and> m \<le> n
    \<and> checkStdDev r rng a = Inr (m \<le> c, r\<lparr>mean := mean_of ts, stdDev := deviation ts, conformingIters := Some c,
        nonConformingIters := Some (n - c), positiveLimit := Some (upper_limit med rng), negativeLimit := Some (lower_limit med rng)\<rparr>)"
proof -
  define r1 where "r1 = r\<lparr>mean := mean_of ts, stdDev := deviation ts\<rparr>"
  have h: "holds r1 ts" using assms(1) by (simp add: r1_def holds_def)
  obtain x where x: "a = Fin x" "0 < x" "x < 100" using assms(5) by (cases a) (auto simp: percents_def less_f64_def)
  have n: "is_int n" "0 \<le> n" "entries r = n" using assms(1) by (auto simp: holds_def n_def is_int_def)
  obtain m where m: "f64_to_int (a / Fin 100 * of_ll n) = Inr m" "0 \<le> m" "m \<le> n"
    using acceptable_bounds [OF n(1,2), of x] x by auto
  have c: "int (length (filter (outlying (lower_limit med rng) (upper_limit med rng)) ts)) = n - c" "0 \<le> c" "c \<le> n"
    using conforming_outliers [of ts "lower_limit med rng" "upper_limit med rng"] length_filter_le [of _ ts]
    by (simp_all add: n_def c_def conforming_def)
  have "checkStdDev r rng a = Inr (m \<le> c, r1\<lparr>conformingIters := Some c, nonConformingIters := Some (n - c),
      positiveLimit := Some (upper_limit med rng), negativeLimit := Some (lower_limit med rng)\<rparr>)"
  proof -
    have "is_int (n - (n - c))" using c n by (simp add: is_int_def)
    moreover have "medianT r1 = Some med" "entries r1 = n" using assms(4) n(3) by (simp_all add: r1_def)
    moreover have "Fin 0 < rng \<and> rng < Fin 100" "Fin 0 < a \<and> a < Fin 100" using assms(5) by (simp_all only: percents_def)
    moreover have "setStdDev r = Inr r1" using setStdDev_ok [OF assms(1-3)] by (simp only: r1_def)
    moreover have "count_outside r1 (lower_limit med rng) (upper_limit med rng) = Inr (n - c)"
      using count_outside_ok [OF h] c(1) by simp
    ultimately show ?thesis using m(1)
      by (simp only: checkStdDev_def bind_res_Inr guard_res_True init_value_simps Let_def upper_limit_def [symmetric]
        lower_limit_def [symmetric] chk_int_ok diff_diff_eq2 add_diff_cancel_left' simp_thms)
  qed
  with m show ?thesis by (auto simp: r1_def)
qed

section \<open>Copying and normalising\<close>

lemma store_value_ok:
  "vals r = Some a \<Longrightarrow> i < length a \<Longrightarrow> store_value r (int i) v = Inr (r\<lparr>vals := Some (a[i := Some v])\<rparr>)"
  by (simp add: store_value_def awrite_ok)

lemma cloneValues_ok:
  assumes "holds src ts" and "holds r us" and "room r = room src"
  shows "\<exists>r'. cloneValues r src = Inr r' \<and> holds r' ts \<and> r' = src\<lparr>vals := vals r'\<rparr>"
proof -
  obtain a m where a: "vals r = Some a" "maxEntries r = Some m" "int (length a) = m" using assms(2) by (auto simp: holds_def)
  obtain d where d: "vals src = Some d" "maxEntries src = Some (int (length d))" "length ts \<le> length d" "entries src = int (length ts)"
    using assms(1) by (auto simp: holds_def)
  have len: "length a = length d" using assms(3) a(2,3) d(2) by (simp add: room_def)
  let ?P = "\<lambda>i s. \<exists>c. s = src\<lparr>vals := Some c\<rparr> \<and> length c = length a \<and> take i c = map Some (take i ts)"
  have "\<exists>s. for_res [0..<length ts] (\<lambda>i r. bind_res (value_at src (int i)) (\<lambda>v. store_value r (int i) v)) (src\<lparr>vals := vals r\<rparr>)
      = Inr s \<and> ?P (length ts) s"
  proof (rule for_res_inv [where P = ?P])
    fix i s assume i: "i < length ts" and P: "?P i s"
    then obtain c where c: "s = src\<lparr>vals := Some c\<rparr>" "length c = length a" "take i c = map Some (take i ts)" by auto
    have "i < length c" using i c(2) len d(3) by simp
    then have "store_value s (int i) (ts ! i) = Inr (src\<lparr>vals := Some (c[i := Some (ts ! i)])\<rparr>)"
      "take (Suc i) (c[i := Some (ts ! i)]) = map Some (take (Suc i) ts)"
      using c i by (simp_all add: store_value_ok take_Suc_update take_Suc_conv_app_nth)
    then show "\<exists>s'. bind_res (value_at src (int i)) (\<lambda>v. store_value s (int i) v) = Inr s' \<and> ?P (Suc i) s'"
      using value_at_holds [OF assms(1) i] c(2) by auto
  qed (use a in auto)
  then obtain c where c: "cloneValues r src = Inr (src\<lparr>vals := Some c\<rparr>)" "length c = length a" "take (length ts) c = map Some ts"
    using d(4) by (auto simp: cloneValues_def)
  have "holds (src\<lparr>vals := Some c\<rparr>) ts" using assms(1) len d c(2,3) by (simp add: holds_def)
  with c(1) show ?thesis by auto
qed

lemma normalize_values_loop:
  assumes "vals r = Some a" and "length ts \<le> length a" and "take (length ts) a = map Some ts" and "is_int (int (length ts))"
  shows "for_res [0..<length ts] (\<lambda>i (count, r). bind_res (value_at r (int i)) (\<lambda>v.
      if v < base then bind_res (store_value r (int i) nval) (\<lambda>r. bind_res (chk_int (count + 1)) (\<lambda>count. Inr (count, r)))
      else Inr (count, r))) (0, r)
    = Inr (int (length (filter (\<lambda>t. t < base) ts)), r\<lparr>vals := Some (map Some (map (normalized base nval) ts) @ drop (length ts) a)\<rparr>)"
proof -
  let ?n = "length ts"
  let ?P = "\<lambda>i (c, s). c = int (length (filter (\<lambda>t. t < base) (take i ts)))
    \<and> s = r\<lparr>vals := Some (map Some (map (normalized base nval) (take i ts)) @ drop i a)\<rparr>"
  have nth: "a ! i = Some (ts ! i)" if "i < ?n" for i
    using that nth_take [of i ?n a] assms(3) by simp
  let ?step = "\<lambda>i (count, r). bind_res (value_at r (int i)) (\<lambda>v.
      if v < base then bind_res (store_value r (int i) nval) (\<lambda>r. bind_res (chk_int (count + 1)) (\<lambda>count. Inr (count, r)))
      else Inr (count, r))"
  have "\<exists>s. for_res [0..<?n] ?step (0, r) = Inr s \<and> ?P ?n s"
  proof (rule for_res_inv [where P = ?P])
    fix i s assume i: "i < ?n" and P: "?P i s"
    obtain c r1 where s: "s = (c, r1)" by (cases s)
    let ?d = "map Some (map (normalized base nval) (take i ts)) @ drop i a"
    have r1: "r1 = r\<lparr>vals := Some ?d\<rparr>" "c = int (length (filter (\<lambda>t. t < base) (take i ts)))" using P s by auto
    have l: "i < length ?d" "?d ! i = Some (ts ! i)" "i < length a" using i assms(2) nth [OF i] by (simp_all add: nth_append)
    have v: "value_at r1 (int i) = Inr (ts ! i)" using r1(1) l by (simp add: value_at_def aread_ok)
    have w: "drop i a = Some (ts ! i) # drop (Suc i) a" using nth [OF i] l(3) by (simp add: Cons_nth_drop_Suc [symmetric])
    have "length (filter (\<lambda>t. t < base) (take i ts)) \<le> i" using length_filter_le [of _ "take i ts"] i by simp
    then have c: "is_int (c + 1)" using r1(2) i assms(4) by (simp add: is_int_def)
    have store: "store_value r1 (int i) nval = Inr (r\<lparr>vals := Some (?d[i := Some nval])\<rparr>)"
      using store_value_ok [of r1 ?d i nval] r1(1) l(1) by simp
    have upd: "?d[i := Some nval] = map Some (map (normalized base nval) (take i ts)) @ Some nval # drop (Suc i) a"
      using w i by (simp add: list_update_append min_def)
    show "\<exists>s'. ?step i s = Inr s' \<and> ?P (Suc i) s'"
    proof (cases "ts ! i < base")
      case True
      then show ?thesis using v store c upd i r1(2) by (simp add: s chk_int_ok take_Suc_conv_app_nth normalized_def)
    next
      case False
      then show ?thesis using v w i r1 by (simp add: s take_Suc_conv_app_nth normalized_def)
    qed
  qed (use assms(1) in auto)
  then show ?thesis by auto
qed

lemma stats_inject: "r\<lparr>mean := x, stdDev := y\<rparr> = r\<lparr>mean := x', stdDev := y'\<rparr> \<longleftrightarrow> x = x' \<and> y = y'"
  by (cases r) simp

lemma median_inject: "r\<lparr>medianT := x\<rparr> = r\<lparr>medianT := x'\<rparr> \<longleftrightarrow> x = x'"
  by (cases r) simp

lemma setMedian_depends:
  assumes "value_at h = value_at r" and "entries h = entries r" and "setMedian h = Inr (h\<lparr>medianT := m\<rparr>)"
  shows "setMedian r = Inr (r\<lparr>medianT := m\<rparr>)"
proof -
  show ?thesis using assms(3) unfolding setMedian_def Let_def assms(1,2)
    by (cases "entries r smod 2 = 0") (auto simp: bind_res_Inr_iff median_inject simp del: aread_Inr split: if_splits)
qed

lemma normalizeResults_ok:
  fixes base :: int
  assumes "holds r ts" and "ts \<noteq> []" and "times_ok b ts" and "0 \<le> nval" "nval \<le> b"
  defines "us \<equiv> map (normalized base nval) ts"
  shows "\<exists>r'. normalizeResults r base nval = Inr (int (length (filter (\<lambda>t. t < base) ts)), r') \<and> has_statistics r' us
    \<and> (\<forall>i < length ts. value_at r' (int i) = Inr (us ! i)) \<and> minT r' = max base (minT r) \<and> maxT r' = max base (maxT r)"
proof -
  let ?n = "length ts" and ?c = "int (length (filter (\<lambda>t. t < base) ts))"
  obtain a m where a: "vals r = Some a" "maxEntries r = Some m" "int (length a) = m" "is_int m" "?n \<le> length a"
    "take ?n a = map Some ts" "entries r = int ?n" using assms(1) by (auto simp: holds_def)
  have n: "is_int (int ?n)" using a by (auto simp: is_int_def)
  have ok: "times_ok b us" "us \<noteq> []" "length us = ?n"
    using assms(2-5) by (auto simp: times_ok_def normalized_def us_def)
  define d where "d = map Some us @ drop ?n a"
  define r1 where "r1 = r\<lparr>vals := Some d\<rparr>"
  define r2 where "r2 = (if minT r1 < base then r1\<lparr>minT := base\<rparr> else r1)"
  define r3 where "r3 = (if maxT r2 < base then r2\<lparr>maxT := base\<rparr> else r2)"
  have f3: "vals r3 = Some d" "entries r3 = int ?n" "maxEntries r3 = Some m" "minT r3 = max base (minT r)" "maxT r3 = max base (maxT r)"
    using a by (simp_all add: r3_def r2_def r1_def)
  define h where "h = r3\<lparr>minUpdated := True, minT := Min (set us), maxT := Max (insert 0 (set us))\<rparr>"
  have h: "holds h us" using f3(1-3) a(3-5) ok(2,3) by (simp add: holds_def h_def d_def)
  have same: "value_at h = value_at r3" "entries h = entries r3" by (simp_all add: fun_eq_iff value_at_def h_def)
  have std: "setStdDev r3 = Inr (r3\<lparr>mean := mean_of us, stdDev := deviation us\<rparr>)"
  proof -
    have v: "value_at (r\<lparr>mean := x\<rparr>) = value_at r" for r x by (simp add: fun_eq_iff value_at_def)
    show ?thesis using setStdDev_ok [OF h ok(1,2)] unfolding setStdDev_def Let_def same v
      by (auto simp: bind_res_Inr_iff stats_inject same)
  qed
  let ?r4 = "r3\<lparr>mean := mean_of us, stdDev := deviation us\<rparr>"
  have "value_at h = value_at ?r4" "entries h = entries ?r4" by (simp_all add: fun_eq_iff value_at_def h_def)
  then have med: "setMedian ?r4 = Inr (?r4\<lparr>medianT := Some (Fin (median_of us))\<rparr>)"
    by (rule setMedian_depends) (rule setMedian_ok [OF h ok(1,2)])
  let ?r5 = "?r4\<lparr>medianT := Some (Fin (median_of us))\<rparr>"
  have "normalizeResults r base nval = Inr (?c, ?r5)"
    unfolding normalizeResults_def a(7) nat_int normalize_values_loop [OF a(1,5,6) n] us_def [symmetric] d_def [symmetric] bind_res_Inr
      prod.case Let_def r1_def [symmetric] r2_def [symmetric] r3_def [symmetric] std med by simp
  moreover have "has_statistics ?r5 us" by (simp add: has_statistics_def)
  moreover have "value_at ?r5 (int i) = Inr (us ! i)" if "i < ?n" for i
    using value_at_holds [OF h, of i] that ok(3) by (simp add: value_at_def h_def)
  ultimately show ?thesis using f3(4,5) by auto
qed

section \<open>Properties\<close>

text \<open>
  C13: recording in the C++ class agrees with recording in the C structure: filled with the same times, the object and
  the structure hold the same times in the same order, the same mean, the same least and the same greatest time. The \<^verbatim>\<open>long long\<close> median of
  the C program is the \<^verbatim>\<open>double\<close> median of the C++ program, the exact one, rounded down. Both deviations come from the same
  sum of squares: the C++ program takes the root of the quotient by the number of times, the C program the root of the quotient that is
  rounded down, as a \<^verbatim>\<open>float\<close>.
\<close>

theorem recording_agrees_with_c:
  assumes "times_ok b ts" and "ts \<noteq> []" and "int (length ts) = n" and "is_int n" and "0 \<le> iters" "iters \<le> INT_MAX"
  shows "\<exists>rc r0 r sq. add_entries (new_result iters n) ts = Inr rc \<and> new_TestResults tid n = Inr r0 \<and> record_all r0 ts = Inr r
    \<and> entries r = num_entries rc \<and> take (length ts) (tvalues rc) = ts \<and> (\<forall>i < length ts. value_at r (int i) = Inr (ts ! i))
    \<and> mean r = meantime rc \<and> minT r = mintime rc \<and> maxT r = maxtime rc
    \<and> medianT r = Some (Fin (median_of ts)) \<and> mediantime rc = \<lfloor>median_of ts\<rfloor>
    \<and> sq = sum_list (map (\<lambda>t. (t - mean r)\<^sup>2) ts)
    \<and> stdDev r = f64_sqrt (of_ll sq * Fin 1 / of_ll n) \<and> stdtime rc = to_f32 (f64_sqrt (of_ll (sq div n)))"
proof -
  have n: "0 \<le> n" using assms(3) by linarith
  obtain rc where rc: "add_entries (new_result iters n) ts = Inr rc" "recorded rc ts" "summarised rc ts"
    using add_entries_full [OF new_result_recorded [OF n assms(4-6)] _ assms(2,1)] assms(3) by (auto simp: new_result_def)
  obtain r0 where r0: "new_TestResults tid n = Inr r0" "holds r0 []" "room r0 = n" using new_holds [OF assms(4) n] by blast
  obtain r where r: "record_all r0 ts = Inr r" "holds r ts" "has_statistics r ts"
    using record_all_full [OF r0(2) _ assms(2,1)] r0(3) assms(3) by auto
  have "Max (insert 0 (set ts)) = Max (set ts)"
    using times_ok_mem [OF assms(1)] assms(2) by (auto simp: max_def Max_ge_iff dest: order_trans intro: antisym)
  moreover have "\<forall>i < length ts. value_at r (int i) = Inr (ts ! i)" using value_at_holds [OF r(2)] by blast
  ultimately show ?thesis using rc r r0(1) assms(2,3)
    by (auto simp: holds_def recorded_def has_statistics_def summarised_def deviation_def std_of_def)
qed

theorem recording_agrees_with_c_witness:
  "\<exists>rc r0 r sq. add_entries (new_result 2 2) [30, 45] = Inr rc \<and> new_TestResults IRATE_ID 2 = Inr r0 \<and> record_all r0 [30, 45] = Inr r
    \<and> entries r = num_entries rc \<and> take (length [30, 45 :: int]) (tvalues rc) = [30, 45]
    \<and> (\<forall>i < length [30, 45 :: int]. value_at r (int i) = Inr ([30, 45] ! i))
    \<and> mean r = meantime rc \<and> minT r = mintime rc \<and> maxT r = maxtime rc
    \<and> medianT r = Some (Fin (median_of [30, 45])) \<and> mediantime rc = \<lfloor>median_of [30, 45]\<rfloor>
    \<and> sq = sum_list (map (\<lambda>t. (t - mean r)\<^sup>2) [30, 45])
    \<and> stdDev r = f64_sqrt (of_ll sq * Fin 1 / of_ll 2) \<and> stdtime rc = to_f32 (f64_sqrt (of_ll (sq div 2)))"
  by (rule recording_agrees_with_c [where b = 45]) (simp_all add: times_ok_def is_int_def)

text \<open>
  the verdict of \<^verbatim>\<open>checkStdDev\<close>: an object that was filled with times passes exactly when the number of times that
  are not outside the limits around the median reaches the truncated percentage of all times; the counters and the
  limits are left in the object, and the times, the median and the extremes are unchanged.
\<close>

lemma checkStdDev_verdict:
  assumes "holds r ts" and "has_statistics r ts" and "times_ok b ts" and "ts \<noteq> []" and "percents rng a"
  defines "med \<equiv> Fin (median_of ts)" and "n \<equiv> int (length ts)"
  defines "c \<equiv> conforming (lower_limit med rng) (upper_limit med rng) ts"
  shows "\<exists>m r'. f64_to_int (a / Fin 100 * of_ll n) = Inr m \<and> 0 \<le> m \<and> m \<le> n \<and> checkStdDev r rng a = Inr (m \<le> c, r')
    \<and> holds r' ts \<and> has_statistics r' ts \<and> conformingIters r' = Some c \<and> nonConformingIters r' = Some (n - c)
    \<and> positiveLimit r' = Some (upper_limit med rng) \<and> negativeLimit r' = Some (lower_limit med rng)"
proof -
  have "medianT r = Some med" using assms(2) by (simp add: has_statistics_def med_def)
  from checkStdDev_ok [OF assms(1,3,4) this assms(5)] assms(1,2) show ?thesis
    unfolding n_def [symmetric] c_def [symmetric] by (auto simp: holds_def has_statistics_def)
qed

definition two_times :: TestResults where
  "two_times = empty_result\<lparr>testId := Some IRATE_ID, mean := 100, minT := 100, maxT := 100, medianT := Some (Fin 100), minUpdated := True,
     entries := 2, maxEntries := Some 2, vals := Some [Some 100, Some 100], stdDev := deviation [100, 100]\<rparr>"

lemma checkStdDev_verdict_witness:
  "\<exists>m r'. f64_to_int (Fin 90 / Fin 100 * of_ll (int (length [100 :: int, 100]))) = Inr m \<and> 0 \<le> m \<and> m \<le> int (length [100 :: int, 100])
    \<and> checkStdDev two_times (Fin 10) (Fin 90) = Inr (m \<le> conforming (lower_limit (Fin (median_of [100, 100])) (Fin 10))
      (upper_limit (Fin (median_of [100, 100])) (Fin 10)) [100, 100], r')
    \<and> holds r' [100, 100] \<and> has_statistics r' [100, 100]
    \<and> conformingIters r' = Some (conforming (lower_limit (Fin (median_of [100, 100])) (Fin 10)) (upper_limit (Fin (median_of [100, 100])) (Fin 10)) [100, 100])
    \<and> nonConformingIters r' = Some (int (length [100 :: int, 100])
      - conforming (lower_limit (Fin (median_of [100, 100])) (Fin 10)) (upper_limit (Fin (median_of [100, 100])) (Fin 10)) [100, 100])
    \<and> positiveLimit r' = Some (upper_limit (Fin (median_of [100, 100])) (Fin 10))
    \<and> negativeLimit r' = Some (lower_limit (Fin (median_of [100, 100])) (Fin 10))"
  by (rule checkStdDev_verdict [where b = 100])
     (simp_all add: holds_def two_times_def empty_result_def has_statistics_def times_ok_def percents_def is_int_def mean_of_def median_of_def)

end
