(* ===== verification/Cpp_Scores.thy ===== *)
theory Cpp_Scores
  imports Cpp_Results Scores
begin

text \<open>
  The C++ implementation, scores and results of the tests: \<^verbatim>\<open>TestResultUtils.cpp\<close>, \<^verbatim>\<open>TestScore.cpp\<close>,
  \<^verbatim>\<open>FinalBenchMarkTestResult.cpp\<close>, \<^verbatim>\<open>ResultTable.cpp\<close>, \<^verbatim>\<open>BenchMarkTestInfo.cpp\<close> and \<^verbatim>\<open>RealTimeValues.cpp\<close>.
  \<^verbatim>\<open>pow\<close> of the C library is the parameter \<open>pw\<close>; \<^verbatim>\<open>front()\<close> of an empty list is a fault; a \<^verbatim>\<open>std::map\<close> is the
  list of its elements in the order of iteration, which the comparison of the keys decides.
\<close>

section \<open>Data\<close>

record BenchMarkTestInfo =
  testName :: string
  testDesc :: string
  numIterations :: int
  configTest :: bool
  testThreshold :: int
  referenceScore :: f64

definition new_BenchMarkTestInfo :: BenchMarkTestInfo where
  "new_BenchMarkTestInfo = \<lparr>testName = [], testDesc = [], numIterations = 0, configTest = False, testThreshold = 0, referenceScore = Fin 1\<rparr>"

record RealTimeValues =
  acceptablePct :: f64
  rangePct :: f64
  rtMultiplier :: int

definition new_RealTimeValues :: RealTimeValues where
  "new_RealTimeValues = \<lparr>acceptablePct = Fin 0, rangePct = Fin 0, rtMultiplier = 1\<rparr>"

record TestScore =
  consistencyPercent :: f64
  minThroughput :: f64
  maxThroughput :: f64
  meanThroughput :: f64
  wgtThroughput :: f64
  subTestScore :: f64
  tResult :: "TestResults list option"
  testScoreName :: string

definition new_TestScore :: "TestResults list option \<Rightarrow> TestScore" where
  "new_TestScore rs = \<lparr>consistencyPercent = Fin 0, minThroughput = Fin 0, maxThroughput = Fin 0, meanThroughput = Fin 0,
     wgtThroughput = Fin 0, subTestScore = Fin 0, tResult = rs, testScoreName = ''default''\<rparr>"

record FinalBenchMarkTestResult =
  scores :: "TestScore list"
  throughputScoreForTest :: f64
  consistencyScoreForTest :: f64
  scoreForTest :: "f64 option"
  passedTest :: bool

type_synonym testScoresMap = "(BenchMarkTestInfo \<times> FinalBenchMarkTestResult) list"

record ResultTable =
  testScores :: testScoresMap
  throughputScoreForSystem :: "f64 option"
  consistencyScoreForSystem :: "f64 option"
  scoreForSystem :: "f64 option"

definition new_ResultTable :: ResultTable where
  "new_ResultTable = \<lparr>testScores = [], throughputScoreForSystem = None, consistencyScoreForSystem = None, scoreForSystem = None\<rparr>"

definition list_front :: "'a list \<Rightarrow> 'a res" where
  "list_front xs = (case xs of [] \<Rightarrow> Inl Out_of_bounds | x # _ \<Rightarrow> Inr x)"

lemma list_front_simps [simp]: "list_front (x # xs) = Inr x" "list_front [] = Inl Out_of_bounds"
  by (simp_all add: list_front_def)

section \<open>The contribution of a time\<close>

definition tens_up :: "f64 \<Rightarrow> f64 res" where
  "tens_up percent = bind_res (f64_to_int (percent + Fin 10)) (\<lambda>i. bind_res (div_int i 10) (\<lambda>d. Inr (of_ll d * Fin 10)))"

definition tens_down :: "f64 \<Rightarrow> f64 res" where
  "tens_down percent = (let difference = percent - Fin 100 in
     bind_res (f64_to_int difference) (\<lambda>i. bind_res (f64_to_int (of_ll i / Fin 10)) (\<lambda>d. let difference = of_ll d in
     bind_res (f64_to_int (difference * Fin 10)) (\<lambda>t. let difference = of_ll t in Inr (Fin 100 - difference)))))"

definition getContribution :: "f64 \<Rightarrow> f64 \<Rightarrow> f64 res" where
  "getContribution v median = (let diff = v - median in
     if feq diff (Fin 0) then Inr (Fin 100)
     else if feq diff (- median) then Inr (Fin 10)
     else if feq diff median then Inr (Fin 0)
     else (let diff = (if diff < Fin 0 then - diff else diff) in
       if median < diff then Inr (Fin 0)
       else (let percent = v * Fin 100 / median in
         if Fin 200 < percent then Inr (Fin 0)
         else if feq percent (Fin 100) then Inr (Fin 100)
         else if percent < Fin 100 then tens_up percent
         else tens_down percent)))"

section \<open>The combined score\<close>

text \<open>\<^verbatim>\<open>std::sort\<close> on an array of doubles without NaN.\<close>

fun insert_f64 :: "f64 \<Rightarrow> f64 list \<Rightarrow> f64 list" where
  "insert_f64 x [] = [x]"
| "insert_f64 x (y # ys) = (if y < x then y # insert_f64 x ys else x # y # ys)"

definition sort_f64 :: "f64 list \<Rightarrow> f64 list" where
  "sort_f64 xs = foldr insert_f64 xs []"

fun medians :: "TestResults list \<Rightarrow> f64 list res" where
  "medians [] = Inr []"
| "medians (r # rs) = bind_res (init_value (medianT r)) (\<lambda>m. bind_res (medians rs) (\<lambda>ms. Inr (m # ms)))"

definition median_of_results :: "TestResults list \<Rightarrow> f64 res" where
  "median_of_results rs = bind_res (medians rs) (\<lambda>temp. let temp = sort_f64 temp; num = int (length rs) in
     if num smod 2 = 0 then
       bind_res (aread temp (num sdiv 2)) (\<lambda>x. bind_res (aread temp (num sdiv 2 - 1)) (\<lambda>y. Inr ((x + y) / Fin 2)))
     else aread temp (num sdiv 2))"

definition throughput_step :: "TestResults \<Rightarrow> f64 \<Rightarrow> nat \<Rightarrow> score_sums \<Rightarrow> score_sums res" where
  "throughput_step r median j s = bind_res (value_at r (int j)) (\<lambda>v.
     let throughput = Fin 1 * scale / of_ll v;
         s = (if throughput < sum_min s then s\<lparr>sum_min := throughput\<rparr>
              else if sum_max s < throughput then s\<lparr>sum_max := throughput\<rparr> else s);
         s = s\<lparr>sum_throughput := sum_throughput s + throughput\<rparr> in
     bind_res (getContribution (of_ll v) median) (\<lambda>c.
       Inr (s\<lparr>sum_combined := sum_combined s + (c * scale) / of_ll v, sum_consistency := sum_consistency s + c\<rparr>)))"

text \<open>The averages divide by the number of results times the number of values of the \<^emph>\<open>last\<close> result.\<close>

definition generateCombinedScore :: "TestResults list \<Rightarrow> f64 \<Rightarrow> TestScore res" where
  "generateCombinedScore rs reference = bind_res (median_of_results rs) (\<lambda>median.
     bind_res (aread rs 0) (\<lambda>r0. bind_res (value_at r0 0) (\<lambda>v0. let t0 = scale * Fin 1 / of_ll v0 in
     bind_res (for_res rs (\<lambda>r (len, s). bind_res (for_res [0..<nat (entries r)] (throughput_step r median) s) (\<lambda>s. Inr (entries r, s)))
       (1, \<lparr>sum_min = t0, sum_max = t0, sum_throughput = Fin 0, sum_combined = Fin 0, sum_consistency = Fin 0\<rparr>)) (\<lambda>(len, s).
     bind_res (chk_int (int (length rs) * len)) (\<lambda>n.
       Inr ((new_TestScore None)\<lparr>consistencyPercent := sum_consistency s / of_ll n, minThroughput := sum_min s, maxThroughput := sum_max s,
         meanThroughput := sum_throughput s / of_ll n, wgtThroughput := sum_combined s / (of_ll n * Fin 100),
         subTestScore := reference / median\<rparr>))))))"

definition generateScores :: "TestResults list \<Rightarrow> f64 \<Rightarrow> bool \<Rightarrow> TestScore list res" where
  "generateScores rs reference singleValued =
     (if singleValued then bind_res (generateCombinedScore rs reference) (\<lambda>s. Inr [s\<lparr>tResult := Some rs\<rparr>])
      else for_res rs (\<lambda>r ss. bind_res (generateCombinedScore [r] reference) (\<lambda>s. Inr (ss @ [s\<lparr>tResult := Some [r]\<rparr>]))) [])"

section \<open>The final result of a test\<close>

definition final_step :: "(f64 \<Rightarrow> f64 \<Rightarrow> f64) \<Rightarrow> f64 \<Rightarrow> TestScore \<Rightarrow> f64 \<times> f64 \<times> bool \<Rightarrow> f64 \<times> f64 \<times> bool" where
  "final_step pw e s = (\<lambda>(c, t, zero).
     let (c, zero) = (if Fin 0 < consistencyPercent s then (c * pw (consistencyPercent s) e, zero) else (c, True)) in
     if Fin 0 < t then (c, t * pw (subTestScore s) e, zero) else (c, t, True))"

definition computeFinalScores :: "(f64 \<Rightarrow> f64 \<Rightarrow> f64) \<Rightarrow> FinalBenchMarkTestResult \<Rightarrow> FinalBenchMarkTestResult" where
  "computeFinalScores pw f = (let (c, t, zero) = fold (final_step pw (Fin 1 / of_ll (int (length (scores f))))) (scores f) (Fin 1, Fin 1, False);
     f = f\<lparr>consistencyScoreForTest := c\<rparr> in
     if zero then f\<lparr>throughputScoreForTest := Fin 0\<rparr>
     else f\<lparr>throughputScoreForTest := t, scoreForTest := Some (pw (t * c) (Fin (1 / 2)))\<rparr>)"

definition final_of_scores :: "(f64 \<Rightarrow> f64 \<Rightarrow> f64) \<Rightarrow> TestScore list \<Rightarrow> bool \<Rightarrow> FinalBenchMarkTestResult" where
  "final_of_scores pw ss pass = (let f = \<lparr>scores = ss, throughputScoreForTest = Fin (-1), consistencyScoreForTest = Fin (-1),
     scoreForTest = None, passedTest = pass\<rparr> in if pass then computeFinalScores pw f else f)"

definition final_of_results :: "TestResults list \<Rightarrow> bool \<Rightarrow> FinalBenchMarkTestResult" where
  "final_of_results rs pass = \<lparr>scores = [new_TestScore (Some rs)], throughputScoreForTest = Fin (-1), consistencyScoreForTest = Fin (-1),
     scoreForTest = None, passedTest = pass\<rparr>"

section \<open>The result table\<close>

text \<open>\<^verbatim>\<open>strcmp\<close> compares the strings up to a NUL as unsigned characters.\<close>

definition c_str :: "string \<Rightarrow> string" where
  "c_str s = takeWhile (\<lambda>c. c \<noteq> CHR 0x00) s"

fun strcmp_less :: "string \<Rightarrow> string \<Rightarrow> bool" where
  "strcmp_less xs [] = False"
| "strcmp_less [] (y # ys) = True"
| "strcmp_less (x # xs) (y # ys) = ((of_char x :: nat) < of_char y \<or> x = y \<and> strcmp_less xs ys)"

definition info_less :: "BenchMarkTestInfo \<Rightarrow> BenchMarkTestInfo \<Rightarrow> bool" where
  "info_less l r = (if strcmp_less (c_str (testName l)) (c_str (testName r)) then False else True)"

text \<open>
  \<^verbatim>\<open>std::map::insert\<close>: the element goes in front of the first one that it is less than, and nowhere when an
  element is equivalent to it, neither of the two being less than the other.
\<close>

fun map_insert :: "BenchMarkTestInfo \<Rightarrow> FinalBenchMarkTestResult \<Rightarrow> testScoresMap \<Rightarrow> testScoresMap" where
  "map_insert k f [] = [(k, f)]"
| "map_insert k f ((k', f') # m) = (if info_less k k' then (k, f) # (k', f') # m
     else if info_less k' k then (k', f') # map_insert k f m else (k', f') # m)"

definition addResult_final :: "ResultTable \<Rightarrow> BenchMarkTestInfo \<Rightarrow> FinalBenchMarkTestResult \<Rightarrow> ResultTable" where
  "addResult_final t info f = t\<lparr>testScores := map_insert info f (testScores t)\<rparr>"

definition addResult_scores ::
  "(f64 \<Rightarrow> f64 \<Rightarrow> f64) \<Rightarrow> ResultTable \<Rightarrow> BenchMarkTestInfo \<Rightarrow> TestScore list \<Rightarrow> bool \<Rightarrow> ResultTable" where
  "addResult_scores pw t info ss pass = t\<lparr>testScores := map_insert info (final_of_scores pw ss pass) (testScores t)\<rparr>"

text \<open>The flag that the caller passes is not used: the result always counts as passed.\<close>

definition addResult ::
  "(f64 \<Rightarrow> f64 \<Rightarrow> f64) \<Rightarrow> ResultTable \<Rightarrow> BenchMarkTestInfo \<Rightarrow> TestResults list \<Rightarrow> bool \<Rightarrow> ResultTable res" where
  "addResult pw t info rs pass = bind_res (generateScores rs (referenceScore info) True) (\<lambda>ss.
     Inr (t\<lparr>testScores := map_insert info (final_of_scores pw ss True) (testScores t)\<rparr>))"

fun results_by_id :: "testScoresMap \<Rightarrow> testIds \<Rightarrow> TestResults list option res" where
  "results_by_id [] i = Inr None"
| "results_by_id ((_, f) # m) i = bind_res (list_front (scores f)) (\<lambda>s. case tResult s of None \<Rightarrow> Inl Null_deref
     | Some [] \<Rightarrow> results_by_id m i
     | Some (r # rs) \<Rightarrow> bind_res (init_value (testId r)) (\<lambda>j. if j = i then Inr (Some (r # rs)) else results_by_id m i))"

definition getTestResultsByTestID :: "ResultTable \<Rightarrow> testIds \<Rightarrow> TestResults list option res" where
  "getTestResultsByTestID t i = results_by_id (testScores t) i"

fun final_by_name :: "testScoresMap \<Rightarrow> string \<Rightarrow> FinalBenchMarkTestResult option" where
  "final_by_name [] name = None"
| "final_by_name ((k, f) # m) name = (if testName k = name then Some f else final_by_name m name)"

definition getFinalTestResultsByTestInfo :: "ResultTable \<Rightarrow> BenchMarkTestInfo \<Rightarrow> FinalBenchMarkTestResult option" where
  "getFinalTestResultsByTestInfo t info = final_by_name (testScores t) (testName info)"

definition getTestResultsByTestInfo :: "ResultTable \<Rightarrow> BenchMarkTestInfo \<Rightarrow> TestResults list option res" where
  "getTestResultsByTestInfo t info = (case final_by_name (testScores t) (testName info) of None \<Rightarrow> Inr None
     | Some f \<Rightarrow> bind_res (list_front (scores f)) (\<lambda>s. Inr (tResult s)))"

definition computeScoreForSystem :: "(f64 \<Rightarrow> f64 \<Rightarrow> f64) \<Rightarrow> ResultTable \<Rightarrow> int \<Rightarrow> ResultTable" where
  "computeScoreForSystem pw t numberOfTests = (let e = Fin 1 / of_ll numberOfTests;
     (c, u) = fold (\<lambda>(_, f) (c, u).
       (if Fin 0 < consistencyScoreForTest f then c * pw (consistencyScoreForTest f) e else c,
        if Fin 0 < throughputScoreForTest f then u * pw (throughputScoreForTest f) e else u)) (testScores t) (Fin 1, Fin 1) in
     t\<lparr>consistencyScoreForSystem := Some c, throughputScoreForSystem := Some u, scoreForSystem := Some (pw (c * u) (Fin (1 / 2)))\<rparr>)"

section \<open>Reading the configuration results\<close>

definition front_of_id :: "ResultTable \<Rightarrow> testIds \<Rightarrow> TestResults option res" where
  "front_of_id t i = bind_res (getTestResultsByTestID t i) (\<lambda>rs. case rs of None \<Rightarrow> Inr None
     | Some rs \<Rightarrow> bind_res (list_front rs) (\<lambda>r. Inr (Some r)))"

definition getClockAccuracy :: "ResultTable \<Rightarrow> int res" where
  "getClockAccuracy t = bind_res (front_of_id t SYSCLOCK_ID) (\<lambda>r. case r of None \<Rightarrow> Inr (-1)
     | Some r \<Rightarrow> bind_res (init_value (medianT r)) (\<lambda>m. f64_to_ll (Fin 20 * m)))"

definition getMedianOfClockAccuracy :: "ResultTable \<Rightarrow> int res" where
  "getMedianOfClockAccuracy t = bind_res (front_of_id t SYSCLOCK_ID) (\<lambda>r. case r of None \<Rightarrow> Inl Assert_failed
     | Some r \<Rightarrow> bind_res (init_value (medianT r)) f64_to_ll)"

definition getClockWorkQuantum :: "ResultTable \<Rightarrow> int res" where
  "getClockWorkQuantum t = bind_res (front_of_id t SYSCLOCK_ID) (\<lambda>r. case r of None \<Rightarrow> Inr (-1) | Some r \<Rightarrow> Inr (workQuantum r))"

definition getTimerWorkQuantum :: "ResultTable \<Rightarrow> int res" where
  "getTimerWorkQuantum t = bind_res (front_of_id t SYSTIMER_ID) (\<lambda>r. case r of None \<Rightarrow> Inr (-1) | Some r \<Rightarrow> Inr (workQuantum r))"

definition getTimeAccuracy :: "ResultTable \<Rightarrow> int res" where
  "getTimeAccuracy t = bind_res (front_of_id t SYSTIMER_ID) (\<lambda>r. case r of None \<Rightarrow> Inr (-1)
     | Some r \<Rightarrow> bind_res (init_value (medianT r)) f64_to_ll)"

section \<open>The scores of a recorded run\<close>

lemma getContribution_of_ll: "getContribution (of_ll v) m = get_contribution v m"
  by (simp add: getContribution_def get_contribution_def Let_def tens_up_def tens_below_def tens_down_def tens_above_def)

lemma throughput_step_holds: "holds r ts \<Longrightarrow> j < length ts \<Longrightarrow> throughput_step r m j = score_step ts m j"
  by (simp add: fun_eq_iff throughput_step_def score_step_def value_at_holds aread_ok getContribution_of_ll)

lemma for_res_cong: "(\<And>i s. i \<in> set is \<Longrightarrow> f i s = g i s) \<Longrightarrow> for_res is f s = for_res is g s"
  by (induction "is" arbitrary: s) (auto simp: bind_res_def split: sum.splits)

lemma median_single: "medianT r = Some m \<Longrightarrow> median_of_results [r] = Inr m"
  by (simp add: median_of_results_def sort_f64_def Let_def smod_nonneg_eq sdiv_nonneg_eq aread_def)

lemma generateCombinedScore_ok:
  assumes "holds r ts" and "has_statistics r ts" and "ts \<noteq> []" and "times_ok b ts"
  shows "\<exists>s c. generateCombinedScore [r] reference = Inr s \<and> subTestScore s = reference / Fin (median_of ts)
    \<and> consistencyPercent s = Fin c \<and> 0 \<le> c \<and> c \<le> 100 \<and> ((\<forall>t \<in> set ts. of_int t = median_of ts) \<longrightarrow> c = 100)"
proof -
  let ?n = "length ts" and ?m = "median_of ts"
  have n: "entries r = int ?n" "int ?n \<le> INT_MAX" "0 < ?n" "is_int (int ?n)" using assms(1,3) by (auto simp: holds_def is_int_def)
  have vals: "\<forall>v \<in> set (take ?n ts). 0 \<le> v \<and> is_ll v"
    using times_ok_mem [OF assms(4)] times_ok_bound [OF assms(4,3)] by (fastforce simp: is_ll_def)
  have m: "0 \<le> ?m" using median_of_bounds [OF assms(4,3)] by simp
  define s0 where "s0 = (let t0 = scale * Fin 1 / of_ll (ts ! 0) in
    \<lparr>sum_min = t0, sum_max = t0, sum_throughput = Fin 0, sum_combined = Fin 0, sum_consistency = Fin 0\<rparr>)"
  have "sum_consistency s0 = Fin 0" by (simp add: s0_def Let_def)
  from score_loop_ok [OF le_refl vals m n(2) this] obtain s' K where
    loop: "for_res [0..<?n] (score_step ts (Fin ?m)) s0 = Inr s'" "sum_consistency s' = Fin (of_int (10 * K))" "0 \<le> K" "K \<le> 10 * int ?n"
    and all: "(\<forall>v \<in> set ts. get_contribution v (Fin ?m) = Inr (Fin 100)) \<longrightarrow> K = 10 * int ?n" by auto
  have "(of_int (10 * K) :: rat) \<le> of_int (100 * int ?n)" using loop(4) by (subst of_int_le_iff) simp
  then have q: "(0 :: rat) \<le> of_int (10 * K) / of_int (int ?n) \<and> of_int (10 * K) / of_int (int ?n) \<le> (100 :: rat)"
    using n(3) loop(3) by (simp add: field_simps)
  moreover have "representable 53 (-1022) 100" using representable64_int [of 100] by simp
  ultimately obtain c where c: "rnd64 (of_int (10 * K) / of_int (int ?n)) = Fin c" "0 \<le> c" "c \<le> 100"
    using rnd64_nonneg_le [of "of_int (10 * K) / of_int (int ?n)" 100] by auto
  have "c = 100" if "\<forall>t \<in> set ts. of_int t = ?m"
  proof -
    have "get_contribution v (Fin ?m) = Inr (Fin 100)" if v: "v \<in> set ts" for v
    proof -
      have v': "0 \<le> v" "is_ll v" "\<bar>v\<bar> \<le> 2 ^ 53" using v vals times_ok_mem [OF assms(4) v] times_ok_bound [OF assms(4,3)] by auto
      have "of_ll v = Fin ?m" using of_ll_exact [OF v'(3)] that \<open>\<forall>t \<in> set ts. of_int t = ?m\<close> v by simp
      then show ?thesis using contribution_at_median v'(1,2) by blast
    qed
    with all have "K = 10 * int ?n" by simp
    with c(1) n(3) show ?thesis by simp
  qed
  moreover have "for_res [0..<?n] (throughput_step r (Fin ?m)) s0 = Inr s'"
    using loop(1) for_res_cong [of "[0..<?n]" "throughput_step r (Fin ?m)" "score_step ts (Fin ?m)"] throughput_step_holds [OF assms(1)]
    by simp
  moreover have "value_at r 0 = Inr (ts ! 0)" using value_at_holds [OF assms(1), of 0] n(3) by simp
  ultimately show ?thesis
    using loop(2) c n(1,4) median_single [of r "Fin ?m"] assms(2,3)
    by (simp add: generateCombinedScore_def Let_def s0_def has_statistics_def chk_int_ok aread_def new_TestScore_def del: of_int_mult)
qed

section \<open>The table keeps its order\<close>

lemma strcmp_less_antisym: "strcmp_less xs ys \<Longrightarrow> \<not> strcmp_less ys xs"
  by (induction xs ys rule: strcmp_less.induct) auto

lemma strcmp_not_less_trans: "\<not> strcmp_less xs ys \<Longrightarrow> \<not> strcmp_less ys zs \<Longrightarrow> \<not> strcmp_less xs zs"
proof (induction xs ys arbitrary: zs rule: strcmp_less.induct)
  case (3 x xs y ys)
  then show ?case by (cases zs) auto
next
  case (1 xs)
  then show ?case by (cases zs) auto
qed simp

lemma strcmp_total: "\<not> strcmp_less xs ys \<Longrightarrow> \<not> strcmp_less ys xs \<Longrightarrow> xs = ys"
proof (induction xs ys rule: strcmp_less.induct)
  case (1 xs)
  then show ?case by (cases xs) auto
next
  case (3 x xs y ys)
  then have "(of_char x :: nat) = of_char y" by auto
  then show ?case using 3 by simp
qed simp

lemma info_less_iff: "info_less l r \<longleftrightarrow> \<not> strcmp_less (c_str (testName l)) (c_str (testName r))"
  by (simp add: info_less_def)

text \<open>No two keys are equivalent, not even equal ones: the comparison holds in at least one direction.\<close>

lemma info_less_total: "\<not> info_less l r \<Longrightarrow> info_less r l"
  using strcmp_less_antisym by (auto simp: info_less_iff)

lemma info_less_trans: "info_less a b \<Longrightarrow> info_less b c \<Longrightarrow> info_less a c"
  using strcmp_not_less_trans by (auto simp: info_less_iff)

lemma mset_map_insert: "mset (map_insert k f m) = add_mset (k, f) (mset m)"
  by (induction k f m rule: map_insert.induct) (auto dest: info_less_total)

lemma set_map_insert: "set (map_insert k f m) = insert (k, f) (set m)"
  using mset_map_insert [of k f m] by (metis set_mset_add_mset_insert set_mset_mset)

definition in_order :: "testScoresMap \<Rightarrow> bool" where
  "in_order m \<longleftrightarrow> sorted_wrt (\<lambda>e e'. info_less (fst e) (fst e')) m"

lemma in_order_insert: "in_order m \<Longrightarrow> in_order (map_insert k f m)"
proof (induction k f m rule: map_insert.induct)
  case (2 k f k' f' m)
  then show ?case by (auto simp: in_order_def set_map_insert dest: info_less_total intro: info_less_trans)
qed (simp add: in_order_def)

section \<open>Results are found again\<close>

text \<open>Every entry of a table has a score with results of a test.\<close>

definition entry_ok :: "FinalBenchMarkTestResult \<Rightarrow> bool" where
  "entry_ok f \<longleftrightarrow> (\<exists>s ss r rs i. scores f = s # ss \<and> tResult s = Some (r # rs) \<and> testId r = Some i)"

definition entry_id :: "FinalBenchMarkTestResult \<Rightarrow> testIds option" where
  "entry_id f = testId (hd (the (tResult (hd (scores f)))))"

definition table_entries_ok :: "ResultTable \<Rightarrow> bool" where
  "table_entries_ok t \<longleftrightarrow> in_order (testScores t) \<and> (\<forall>(k, f) \<in> set (testScores t). entry_ok f)"

definition has_id :: "ResultTable \<Rightarrow> testIds \<Rightarrow> bool" where
  "has_id t i \<longleftrightarrow> (\<exists>(k, f) \<in> set (testScores t). entry_id f = Some i)"

lemma new_table_ok: "table_entries_ok new_ResultTable" "\<not> has_id new_ResultTable i"
  by (simp_all add: table_entries_ok_def new_ResultTable_def in_order_def has_id_def)

lemma results_by_id_Cons:
  "entry_ok f \<Longrightarrow> results_by_id ((k, f) # m) i = (if entry_id f = Some i then Inr (tResult (hd (scores f))) else results_by_id m i)"
  by (auto simp: entry_ok_def entry_id_def)

lemma results_by_id_none: "\<forall>(k, f) \<in> set m. entry_ok f \<and> entry_id f \<noteq> Some i \<Longrightarrow> results_by_id m i = Inr None"
  by (induction m) (auto simp: results_by_id_Cons simp del: results_by_id.simps(2))

lemma results_by_id_insert:
  assumes "entry_ok f" and "\<forall>(k, f) \<in> set m. entry_ok f"
  shows "entry_id f \<noteq> Some i \<Longrightarrow> results_by_id (map_insert k f m) i = results_by_id m i"
    and "entry_id f = Some i \<Longrightarrow> \<forall>(k, f) \<in> set m. entry_id f \<noteq> Some i \<Longrightarrow> results_by_id (map_insert k f m) i = Inr (tResult (hd (scores f)))"
  using assms by (induction k f m rule: map_insert.induct) (auto simp: results_by_id_Cons dest: info_less_total simp del: results_by_id.simps(2))

text \<open>One result of a test is entered.\<close>

lemma addResult_ok:
  assumes "table_entries_ok t" and "holds r ts" and "has_statistics r ts" and "ts \<noteq> []" and "times_ok b ts" and "testId r = Some i"
  shows "\<exists>t' f s. addResult pw t info [r] pass = Inr t' \<and> table_entries_ok t' \<and> testScores t' = map_insert info f (testScores t)
    \<and> scores f = [s] \<and> tResult s = Some [r] \<and> passedTest f \<and> entry_id f = Some i \<and> (\<forall>j. has_id t' j \<longleftrightarrow> j = i \<or> has_id t j)
    \<and> (\<forall>j. j \<noteq> i \<longrightarrow> getTestResultsByTestID t' j = getTestResultsByTestID t j)
    \<and> (\<not> has_id t i \<longrightarrow> getTestResultsByTestID t' i = Inr (Some [r]))"
proof -
  obtain s where s: "generateCombinedScore [r] (referenceScore info) = Inr s" using generateCombinedScore_ok [OF assms(2-5)] by blast
  define s' where "s' = s\<lparr>tResult := Some [r]\<rparr>"
  define f where "f = final_of_scores pw [s'] True"
  have f: "scores f = [s']" "passedTest f" "tResult s' = Some [r]"
    by (simp_all add: f_def final_of_scores_def computeFinalScores_def Let_def s'_def split: prod.splits)
  have ok: "entry_ok f" "entry_id f = Some i" using f assms(6) by (simp_all add: entry_ok_def entry_id_def)
  let ?t = "t\<lparr>testScores := map_insert info f (testScores t)\<rparr>"
  have "addResult pw t info [r] pass = Inr ?t" using s by (simp add: addResult_def generateScores_def f_def s'_def)
  moreover have "table_entries_ok ?t" using assms(1) ok(1) by (simp add: table_entries_ok_def in_order_insert set_map_insert)
  moreover have "has_id ?t j \<longleftrightarrow> j = i \<or> has_id t j" for j using ok(2) by (auto simp: has_id_def set_map_insert)
  moreover have "\<forall>(k, f) \<in> set (testScores t). entry_ok f" using assms(1) by (simp add: table_entries_ok_def)
  note ins = results_by_id_insert [OF ok(1) this]
  have "getTestResultsByTestID ?t j = getTestResultsByTestID t j" if "j \<noteq> i" for j
    using ins(1) [of j] ok(2) that by (simp add: getTestResultsByTestID_def)
  moreover have "getTestResultsByTestID ?t i = Inr (Some [r])" if "\<not> has_id t i"
    using ins(2) [of i] ok(2) that f by (auto simp: getTestResultsByTestID_def has_id_def)
  ultimately show ?thesis using f ok(2) by (intro exI [of _ ?t] exI [of _ f] exI [of _ s']) simp
qed

lemma final_by_name_insert: "final_by_name (map_insert k f m) = (final_by_name m)(testName k \<mapsto> f)"
proof (induction k f m rule: map_insert.induct)
  case (2 k f k' f' m)
  have "testName k = testName k' \<Longrightarrow> info_less k k'" using strcmp_less_antisym by (auto simp: info_less_iff)
  with 2 show ?case by (auto simp: fun_eq_iff dest: info_less_total)
qed (simp add: fun_eq_iff)

text \<open>The accuracy of the clock is read as a whole number of nanoseconds.\<close>

lemma twenty_medians:
  assumes "times_ok b ts" and "ts \<noteq> []"
  shows "f64_to_ll (Fin 20 * Fin (median_of ts)) = Inr \<lfloor>20 * median_of ts\<rfloor> \<and> of_int \<lfloor>20 * median_of ts\<rfloor> = 20 * median_of ts"
proof -
  obtain k where k: "median_of ts = of_int k / 2"
  proof (cases "odd (length ts)")
    case True
    then show ?thesis using that [of "2 * (sort ts ! (length ts div 2))"] by (simp add: median_of_def Let_def)
  qed (use that [of "sort ts ! (length ts div 2 - 1) + sort ts ! (length ts div 2)"] in \<open>simp add: median_of_def Let_def\<close>)
  have "0 \<le> median_of ts" "median_of ts \<le> of_int b" using median_of_bounds [OF assms] by auto
  then have "(0 :: rat) \<le> of_int k" "(of_int k :: rat) \<le> of_int (2 * b)" using k by simp_all
  then have "0 \<le> k" "k \<le> 2 * b" by (simp_all only: of_int_le_iff of_int_0_le_iff)
  then have "\<bar>10 * k\<bar> \<le> 2 ^ 53" "is_ll (10 * k)" using times_ok_bound [OF assms] by (simp_all add: is_ll_def)
  moreover have "20 * median_of ts = of_int (10 * k)" using k by simp
  ultimately show ?thesis using rnd64_exact [of "10 * k"] by (simp add: f64_to_ll_Fin del: of_int_mult)
qed

section \<open>Properties\<close>

text \<open>
  the score that the C++ program computes for a recorded run exists: its consistency lies between 0 and 100 and is
  100 when all times equal the median, and the score of the sub-test is the reference score over the exact median.
\<close>

lemma generateScores_of_run:
  assumes "holds r ts" and "has_statistics r ts" and "ts \<noteq> []" and "times_ok b ts"
  shows "\<exists>s c. generateScores [r] reference single = Inr [s] \<and> tResult s = Some [r] \<and> subTestScore s = reference / Fin (median_of ts)
    \<and> consistencyPercent s = Fin c \<and> 0 \<le> c \<and> c \<le> 100 \<and> ((\<forall>t \<in> set ts. of_int t = median_of ts) \<longrightarrow> c = 100)"
  using generateCombinedScore_ok [OF assms, of reference] by (auto simp: generateScores_def)

lemma generateScores_of_run_witness:
  "\<exists>s c. generateScores [two_times] (Fin 150) True = Inr [s] \<and> tResult s = Some [two_times]
    \<and> subTestScore s = Fin 150 / Fin (median_of [100, 100]) \<and> consistencyPercent s = Fin c \<and> 0 \<le> c \<and> c \<le> 100
    \<and> ((\<forall>t \<in> set [100, 100]. of_int t = median_of [100, 100]) \<longrightarrow> c = 100)"
  by (rule generateScores_of_run [where b = 100])
     (simp_all add: holds_def two_times_def empty_result_def has_statistics_def times_ok_def is_int_def mean_of_def median_of_def)

text \<open>
  C17: the result table is a map from test names to results: entering a result makes a look-up by its name return it and
  leaves the look-ups of all other names alone, and the table stays ordered by name.  An entry of the same name
  is hidden, not replaced: the table always grows by one entry.
\<close>

theorem result_table_refines_map:
  assumes "table_entries_ok t" and "entry_ok f"
  shows "(\<lambda>name. getFinalTestResultsByTestInfo (addResult_final t info f) (new_BenchMarkTestInfo\<lparr>testName := name\<rparr>))
      = (\<lambda>name. getFinalTestResultsByTestInfo t (new_BenchMarkTestInfo\<lparr>testName := name\<rparr>))(testName info \<mapsto> f)
    \<and> table_entries_ok (addResult_final t info f)
    \<and> mset (testScores (addResult_final t info f)) = add_mset (info, f) (mset (testScores t))"
  using assms by (auto simp: addResult_final_def getFinalTestResultsByTestInfo_def new_BenchMarkTestInfo_def final_by_name_insert
      mset_map_insert set_map_insert in_order_insert table_entries_ok_def)

theorem result_table_refines_map_witness:
  "(\<lambda>name. getFinalTestResultsByTestInfo (addResult_final new_ResultTable new_BenchMarkTestInfo (final_of_results [two_times] True))
        (new_BenchMarkTestInfo\<lparr>testName := name\<rparr>))
      = (\<lambda>name. getFinalTestResultsByTestInfo new_ResultTable (new_BenchMarkTestInfo\<lparr>testName := name\<rparr>))
          (testName new_BenchMarkTestInfo \<mapsto> final_of_results [two_times] True)
    \<and> table_entries_ok (addResult_final new_ResultTable new_BenchMarkTestInfo (final_of_results [two_times] True))
    \<and> mset (testScores (addResult_final new_ResultTable new_BenchMarkTestInfo (final_of_results [two_times] True)))
      = add_mset (new_BenchMarkTestInfo, final_of_results [two_times] True) (mset (testScores new_ResultTable))"
  by (rule result_table_refines_map [OF new_table_ok(1)])
     (simp add: entry_ok_def final_of_results_def new_TestScore_def two_times_def empty_result_def)

text \<open>
  the clock test calibrates the tests after it: when its recorded run is entered, the accuracy that
  every later test reads is exactly twenty medians of the run, whatever flag it was entered with, its
  median is read rounded down, and the results of the other tests are unchanged.
\<close>

lemma clock_accuracy_read_back:
  assumes "table_entries_ok t" and "\<not> has_id t SYSCLOCK_ID" and "holds r ts" and "has_statistics r ts" and "ts \<noteq> []" and "times_ok b ts"
    and "testId r = Some SYSCLOCK_ID"
  shows "\<exists>t' a. addResult pw t info [r] pass = Inr t' \<and> table_entries_ok t' \<and> getClockAccuracy t' = Inr a
    \<and> of_int a = 20 * median_of ts \<and> getMedianOfClockAccuracy t' = Inr \<lfloor>median_of ts\<rfloor> \<and> getClockWorkQuantum t' = Inr (workQuantum r)
    \<and> (\<forall>j. j \<noteq> SYSCLOCK_ID \<longrightarrow> getTestResultsByTestID t' j = getTestResultsByTestID t j)"
proof -
  obtain t' where t': "addResult pw t info [r] pass = Inr t'" "table_entries_ok t'" "getTestResultsByTestID t' SYSCLOCK_ID = Inr (Some [r])"
    "\<forall>j. j \<noteq> SYSCLOCK_ID \<longrightarrow> getTestResultsByTestID t' j = getTestResultsByTestID t j"
    using addResult_ok [OF assms(1,3-7), of pw info pass] assms(2) by blast
  have m: "medianT r = Some (Fin (median_of ts))" using assms(4) by (simp add: has_statistics_def)
  have "\<forall>v \<in> set ts. 0 \<le> v \<and> v \<le> 4000000000000000"
    using times_ok_mem [OF assms(6)] times_ok_bound [OF assms(6,5)] by fastforce
  then have "f64_to_ll (Fin (median_of ts)) = Inr \<lfloor>median_of ts\<rfloor>" using assms(5) by (rule median_to_ll)
  then show ?thesis using t' m twenty_medians [OF assms(6,5)]
    by (simp add: getClockAccuracy_def getMedianOfClockAccuracy_def getClockWorkQuantum_def front_of_id_def)
qed

definition clock_times :: TestResults where
  "clock_times = two_times\<lparr>testId := Some SYSCLOCK_ID, workQuantum := 100\<rparr>"

lemma clock_accuracy_read_back_witness:
  "\<exists>t' a. addResult (\<lambda>x y. x) new_ResultTable new_BenchMarkTestInfo [clock_times] False = Inr t' \<and> table_entries_ok t' \<and> getClockAccuracy t' = Inr a
    \<and> of_int a = 20 * median_of [100, 100] \<and> getMedianOfClockAccuracy t' = Inr \<lfloor>median_of [100, 100]\<rfloor>
    \<and> getClockWorkQuantum t' = Inr (workQuantum clock_times)
    \<and> (\<forall>j. j \<noteq> SYSCLOCK_ID \<longrightarrow> getTestResultsByTestID t' j = getTestResultsByTestID new_ResultTable j)"
  by (rule clock_accuracy_read_back [OF new_table_ok, where b = 100])
     (simp_all add: clock_times_def holds_def two_times_def empty_result_def has_statistics_def times_ok_def is_int_def mean_of_def median_of_def)

end
