(* ===== verification/Cpp_Params.thy ===== *)
theory Cpp_Params
  imports Cpp_Scores Cmd_Line Input_File Home_Dir
begin

text \<open>
  The C++ implementation, what the program is told: \<^verbatim>\<open>CmdLineParams.cpp\<close>, \<^verbatim>\<open>InputParams.cpp\<close> and
  \<^verbatim>\<open>HomeDirBuilder.cpp\<close>.  A \<^verbatim>\<open>std::string\<close> may contain a NUL, a character array ends at the first one.
  \<^verbatim>\<open>exit\<close> is an outcome, an exception that is not caught the fault \<open>Abort_called\<close>.  What is printed is left out.
  Whether \<^verbatim>\<open>strtod\<close> sets \<^verbatim>\<open>errno\<close> to \<^verbatim>\<open>ERANGE\<close> on a text is the parameter \<open>rng\<close>: the C standard wants it on an overflow and
  leaves it to the library on an underflow. What is relied on is that it is not set on the decimals below 100, where there is neither.
\<close>

datatype 'a exits = Exits_with int | Goes_on 'a

definition bind_exits :: "'a exits res \<Rightarrow> ('a \<Rightarrow> 'b exits res) \<Rightarrow> 'b exits res" where
  "bind_exits m k = bind_res m (\<lambda>x. case x of Exits_with n \<Rightarrow> Inr (Exits_with n) | Goes_on y \<Rightarrow> k y)"

section \<open>The home directory\<close>

definition resolveSymLink :: "home_env \<Rightarrow> string \<Rightarrow> string" where
  "resolveSymLink e file = (case he_real e file of None \<Rightarrow> file | Some buffer \<Rightarrow> buffer)"

text \<open>
  An absolute name is copied without a terminating NUL into memory that is not initialised, so that
  reading it as a string reads indeterminate bytes.
\<close>

definition find_program :: "home_env \<Rightarrow> string option \<Rightarrow> string \<Rightarrow> string option res" where
  "find_program e cwd fileName =
     (if CHR ''/'' \<in> set fileName \<and> he_stat e fileName \<noteq> None
      then (if hd fileName = CHR ''/'' then (if length fileName \<le> 4096 then Inl Uninitialised else Inl Out_of_bounds)
        else (case cwd of None \<Rightarrow> Inl Uninitialised | Some dir \<Rightarrow> bind_res (strip_dots fileName dir) (\<lambda>(p, path).
          bind_res (dir_copy (path @ ''/'' @ p)) (\<lambda>path. Inr (Some path)))))
      else (case he_path e of None \<Rightarrow> Inr None | Some path \<Rightarrow> search_path e fileName (path_elements path)))"

text \<open>\<open>home\<close> is the value of the class variable before, which stays when no program is found.\<close>

definition buildHomeDir :: "home_env \<Rightarrow> string option \<Rightarrow> string \<Rightarrow> string \<Rightarrow> string res" where
  "buildHomeDir e cwd home fileName = bind_res (find_program e cwd fileName) (\<lambda>found. case found of
     None \<Rightarrow> Inr home
   | Some found \<Rightarrow> Inr (resolveSymLink e (dirname (resolveSymLink e (dirname (resolveSymLink e found))))))"

section \<open>The command line\<close>

record CmdLineParams =
  clVerbose :: bool
  clVerboseLevel :: int
  clRtMode :: real_time_mode
  clFileName :: string
  clDirName :: string
  clBinDir :: string
  clQuickRun :: bool
  clTestNames :: "string list"

text \<open>\<open>cwd\<close> is the result of \<^verbatim>\<open>getcwd\<close>.\<close>

definition setDefaults :: "string \<Rightarrow> string option \<Rightarrow> CmdLineParams res" where
  "setDefaults home cwd = (case cwd of None \<Rightarrow> Inl Abort_called | Some dir \<Rightarrow>
     Inr \<lparr>clVerbose = False, clVerboseLevel = 0, clRtMode = SOFT_RT, clFileName = home @ ''/config/input.txt'',
       clDirName = dir, clBinDir = home @ ''/bin/'', clQuickRun = False, clTestNames = []\<rparr>)"

function split_names :: "string \<Rightarrow> string list" where
  "split_names s = (if CHR '':'' \<in> set s then takeWhile (\<lambda>c. c \<noteq> CHR '':'') s # split_names (drop 1 (dropWhile (\<lambda>c. c \<noteq> CHR '':'') s))
     else [s])"
  by auto
termination
proof (relation "measure length")
  fix s :: string assume "CHR '':'' \<in> set s"
  then have "dropWhile (\<lambda>c. c \<noteq> CHR '':'') s \<noteq> []" by (auto simp: dropWhile_eq_Nil_conv)
  then show "(drop 1 (dropWhile (\<lambda>c. c \<noteq> CHR '':'') s), s) \<in> measure length"
    using length_dropWhile_le [of "\<lambda>c. c \<noteq> CHR '':''" s] by (cases "dropWhile (\<lambda>c. c \<noteq> CHR '':'') s") auto
qed simp

declare split_names.simps [simp del]

definition setTestNames :: "CmdLineParams \<Rightarrow> string \<Rightarrow> CmdLineParams" where
  "setTestNames cl test = cl\<lparr>clTestNames := clTestNames cl @ split_names test\<rparr>"

fun parseArgs :: "CmdLineParams \<Rightarrow> bool \<Rightarrow> string list \<Rightarrow> CmdLineParams exits" where
  "parseArgs cl initialized [] = (if initialized then Goes_on cl else Exits_with (-1))"
| "parseArgs cl initialized (a # as) =
     (if a = ''--help'' \<or> a = ''-h'' \<or> a = ''-?'' then Exits_with 0
      else if a = ''--verbose:simple'' \<or> a = ''-v:simple'' then parseArgs (cl\<lparr>clVerbose := True, clVerboseLevel := 1\<rparr>) initialized as
      else if a = ''--verbose:detailed'' \<or> a = ''-v:detailed'' then parseArgs (cl\<lparr>clVerbose := True, clVerboseLevel := 2\<rparr>) initialized as
      else if a = ''--silent'' \<or> a = ''-s'' then parseArgs (cl\<lparr>clVerbose := False\<rparr>) initialized as
      else if a = ''--file'' \<or> a = ''-f'' then
        (case as of [] \<Rightarrow> Exits_with (-1) | b # bs \<Rightarrow> parseArgs (cl\<lparr>clFileName := b\<rparr>) initialized bs)
      else if a = ''--report'' \<or> a = ''-r'' then
        (case as of [] \<Rightarrow> Exits_with (-1) | b # bs \<Rightarrow> parseArgs (cl\<lparr>clDirName := b\<rparr>) initialized bs)
      else if a = ''--quick'' \<or> a = ''-q'' then parseArgs (cl\<lparr>clQuickRun := True\<rparr>) initialized as
      else if a = ''--compliant'' \<or> a = ''-c'' then parseArgs (cl\<lparr>clQuickRun := False\<rparr>) initialized as
      else if a = ''--test'' \<or> a = ''-t'' then
        (case as of [] \<Rightarrow> Exits_with (-1) | b # bs \<Rightarrow> parseArgs (setTestNames cl b) initialized bs)
      else if a = ''--test?'' \<or> a = ''-t?'' then Exits_with 0
      else if a = ''--hard-rt'' then parseArgs (cl\<lparr>clRtMode := HARD_RT\<rparr>) initialized as
      else if a = ''--soft-rt'' then parseArgs (cl\<lparr>clRtMode := SOFT_RT\<rparr>) initialized as
      else if a = ''--guaranteed-rt'' then parseArgs (cl\<lparr>clRtMode := GUARANTEED_RT\<rparr>) initialized as
      else parseArgs cl False as)"

definition new_CmdLineParams :: "string \<Rightarrow> string option \<Rightarrow> string list \<Rightarrow> CmdLineParams exits res" where
  "new_CmdLineParams home cwd args = bind_res (setDefaults home cwd) (\<lambda>cl. Inr (parseArgs cl True args))"

section \<open>The input file\<close>

record InputParams =
  inTests :: "BenchMarkTestInfo list"
  softValues :: RealTimeValues
  hardValues :: RealTimeValues
  grtValues :: "RealTimeValues option"

record input_parser =
  pr_params :: InputParams
  pr_newTest :: bool
  pr_test :: BenchMarkTestInfo
  pr_erange :: bool                  \<comment> \<open>\<^verbatim>\<open>errno\<close> is \<^verbatim>\<open>ERANGE\<close>\<close>

definition getRHSofDelimiter :: "string \<Rightarrow> string res" where
  "getRHSofDelimiter line = (if CHR ''='' \<in> set line then Inr (drop 1 (dropWhile (\<lambda>c. c \<noteq> CHR ''='') line)) else Inl Assert_failed)"

definition getLHSofDelimiter :: "string \<Rightarrow> string res" where
  "getLHSofDelimiter line = (if CHR ''='' \<in> set line then Inr (takeWhile (\<lambda>c. c \<noteq> CHR ''='') line) else Inl Assert_failed)"

definition getFloatValues :: "(string \<Rightarrow> bool) \<Rightarrow> string \<Rightarrow> f64 res" where
  "getFloatValues rng line = bind_res (getRHSofDelimiter line) (\<lambda>s. let val = to_f32 (strtod s) in
     bind_res (guard_res Assert_failed (\<not> feq val (Fin 0) \<and> \<not> rng s)) (\<lambda>_. Inr val))"

definition getIntValues :: "string \<Rightarrow> int res" where
  "getIntValues line = bind_res (getRHSofDelimiter line) (\<lambda>s. bind_res (atoi s) (\<lambda>val.
     bind_res (guard_res Assert_failed (val \<noteq> 0)) (\<lambda>_. Inr val)))"

definition in_test :: "input_parser \<Rightarrow> (BenchMarkTestInfo \<Rightarrow> BenchMarkTestInfo res) \<Rightarrow> input_parser res" where
  "in_test st upd = bind_res (guard_res Assert_failed (pr_newTest st)) (\<lambda>_. bind_res (upd (pr_test st)) (\<lambda>t. Inr (st\<lparr>pr_test := t\<rparr>)))"

definition percent_line :: "(string \<Rightarrow> bool) \<Rightarrow> input_parser \<Rightarrow> string \<Rightarrow> (f64 \<Rightarrow> InputParams \<Rightarrow> InputParams) \<Rightarrow> input_parser res" where
  "percent_line rng st line upd = bind_res (getFloatValues rng line) (\<lambda>val.
     bind_res (guard_res Assert_failed (Fin 0 < val \<and> val < Fin 100)) (\<lambda>_. bind_res (guard_res Assert_failed (\<not> pr_newTest st)) (\<lambda>_.
       Inr (st\<lparr>pr_params := upd val (pr_params st), pr_erange := False\<rparr>))))"

definition multiplier_line :: "input_parser \<Rightarrow> string \<Rightarrow> (int \<Rightarrow> InputParams \<Rightarrow> InputParams) \<Rightarrow> input_parser res" where
  "multiplier_line st line upd = bind_res (getIntValues line) (\<lambda>val. bind_res (guard_res Assert_failed (0 < val)) (\<lambda>_.
     bind_res (guard_res Assert_failed (\<not> pr_newTest st)) (\<lambda>_. Inr (st\<lparr>pr_params := upd val (pr_params st), pr_erange := False\<rparr>))))"

definition set_soft :: "(RealTimeValues \<Rightarrow> RealTimeValues) \<Rightarrow> InputParams \<Rightarrow> InputParams" where
  "set_soft f p = p\<lparr>softValues := f (softValues p)\<rparr>"

definition set_hard :: "(RealTimeValues \<Rightarrow> RealTimeValues) \<Rightarrow> InputParams \<Rightarrow> InputParams" where
  "set_hard f p = p\<lparr>hardValues := f (hardValues p)\<rparr>"

text \<open>A key counts wherever it stands in the line; the values of the guaranteed mode go to the hard mode.\<close>

definition parseLine :: "(string \<Rightarrow> bool) \<Rightarrow> input_parser \<Rightarrow> string \<Rightarrow> input_parser res" where
  "parseLine rng st line = (case line of [] \<Rightarrow> Inl Abort_called | c # _ \<Rightarrow>
     if c = CHR ''#'' then Inr st
     else if c = newline then Inr st
     else if c = CHR '' '' then Inr st
     else if line = ''test'' then Inr (st\<lparr>pr_newTest := True, pr_test := new_BenchMarkTestInfo\<rparr>)
     else if line = ''/test'' then Inr (st\<lparr>pr_newTest := False, pr_params := (pr_params st)\<lparr>inTests := inTests (pr_params st) @ [pr_test st]\<rparr>\<rparr>)
     else if strstr ''name'' line then in_test st (\<lambda>t. bind_res (getRHSofDelimiter line) (\<lambda>s. Inr (t\<lparr>testName := s\<rparr>)))
     else if strstr ''desc'' line then in_test st (\<lambda>t. bind_res (getRHSofDelimiter line) (\<lambda>s. Inr (t\<lparr>testDesc := s\<rparr>)))
     else if strstr ''threshold'' line then
       in_test st (\<lambda>t. bind_res (getRHSofDelimiter line) (\<lambda>s. bind_res (atoi s) (\<lambda>n. Inr (t\<lparr>testThreshold := n\<rparr>))))
     else if strstr ''iterations'' line then
       in_test st (\<lambda>t. bind_res (getRHSofDelimiter line) (\<lambda>s. bind_res (atoi s) (\<lambda>n. Inr (t\<lparr>numIterations := n\<rparr>))))
     else if strstr ''reference_score'' line then bind_res (getRHSofDelimiter line) (\<lambda>s. let f = strtod s; erange = pr_erange st \<or> rng s in
       bind_res (guard_res Assert_failed (\<not> (feq f (Fin 0) \<and> erange))) (\<lambda>_.
         Inr (st\<lparr>pr_test := (pr_test st)\<lparr>referenceScore := f\<rparr>, pr_erange := erange\<rparr>)))
     else if strstr ''config_test'' line then
       in_test st (\<lambda>t. bind_res (getRHSofDelimiter line) (\<lambda>s. bind_res (atoi s) (\<lambda>n. Inr (t\<lparr>configTest := (n = 1)\<rparr>))))
     else if strstr ''soft.range_percentage'' line then percent_line rng st line (\<lambda>v. set_soft (\<lambda>r. r\<lparr>rangePct := v\<rparr>))
     else if strstr ''soft.acceptable_percentage'' line then percent_line rng st line (\<lambda>v. set_soft (\<lambda>r. r\<lparr>acceptablePct := v\<rparr>))
     else if strstr ''soft.multiplier'' line then multiplier_line st line (\<lambda>v. set_soft (\<lambda>r. r\<lparr>rtMultiplier := v\<rparr>))
     else if strstr ''hard.range_percentage'' line then percent_line rng st line (\<lambda>v. set_hard (\<lambda>r. r\<lparr>rangePct := v\<rparr>))
     else if strstr ''hard.acceptable_percentage'' line then percent_line rng st line (\<lambda>v. set_hard (\<lambda>r. r\<lparr>acceptablePct := v\<rparr>))
     else if strstr ''hard.multiplier'' line then multiplier_line st line (\<lambda>v. set_hard (\<lambda>r. r\<lparr>rtMultiplier := v\<rparr>))
     else if strstr ''guaranteed.range_percentage'' line then percent_line rng st line (\<lambda>v. set_hard (\<lambda>r. r\<lparr>rangePct := v\<rparr>))
     else if strstr ''guaranteed.acceptable_percentage'' line then percent_line rng st line (\<lambda>v. set_hard (\<lambda>r. r\<lparr>acceptablePct := v\<rparr>))
     else if strstr ''guaranteed.multiplier'' line then multiplier_line st line (\<lambda>v. set_hard (\<lambda>r. r\<lparr>rtMultiplier := v\<rparr>))
     else bind_res (getLHSofDelimiter line) (\<lambda>_. Inr st))"

text \<open>The lines that \<^verbatim>\<open>getline(line, 1024)\<close> delivers: a longer one ends the loop.\<close>

function getlines :: "string \<Rightarrow> string list" where
  "getlines s = (if s = [] then [] else let l = takeWhile (\<lambda>c. c \<noteq> newline) s in
     if 1023 < length l then [] else l # getlines (drop 1 (dropWhile (\<lambda>c. c \<noteq> newline) s)))"
  by auto
termination
proof (relation "measure length")
  fix s l :: string assume "s \<noteq> []"
  then have "0 < length s" by simp
  then have "length (dropWhile (\<lambda>c. c \<noteq> newline) s) - 1 < length s"
    using length_dropWhile_le [of "\<lambda>c. c \<noteq> newline" s] by linarith
  then show "(drop 1 (dropWhile (\<lambda>c. c \<noteq> newline) s), s) \<in> measure length"
    by (simp only: in_measure length_drop)
qed simp

declare getlines.simps [simp del]

fun parseLines :: "(string \<Rightarrow> bool) \<Rightarrow> input_parser \<Rightarrow> string list \<Rightarrow> input_parser res" where
  "parseLines rng st [] = Inr st"
| "parseLines rng st (l # ls) = bind_res (parseLine rng st (c_str l)) (\<lambda>st. parseLines rng st ls)"

definition new_parser :: input_parser where
  "new_parser = \<lparr>pr_params = \<lparr>inTests = [], softValues = new_RealTimeValues, hardValues = new_RealTimeValues, grtValues = None\<rparr>,
     pr_newTest = False, pr_test = new_BenchMarkTestInfo, pr_erange = False\<rparr>"

text \<open>\<open>None\<close> is a file that cannot be opened.\<close>

definition new_InputParams :: "(string \<Rightarrow> bool) \<Rightarrow> string option \<Rightarrow> InputParams exits res" where
  "new_InputParams rng file = (case file of None \<Rightarrow> Inr (Exits_with (-1))
     | Some content \<Rightarrow> bind_res (parseLines rng new_parser (getlines content)) (\<lambda>st. Inr (Goes_on (pr_params st))))"

definition getGuaranteedRealTimeValues :: "InputParams \<Rightarrow> RealTimeValues res" where
  "getGuaranteedRealTimeValues p = init_value (grtValues p)"

section \<open>The options are those of the C program\<close>

fun applyOption :: "cl_option \<Rightarrow> CmdLineParams \<Rightarrow> CmdLineParams" where
  "applyOption Simple cl = cl\<lparr>clVerbose := True, clVerboseLevel := 1\<rparr>"
| "applyOption Detailed cl = cl\<lparr>clVerbose := True, clVerboseLevel := 2\<rparr>"
| "applyOption Silent cl = cl\<lparr>clVerbose := False\<rparr>"
| "applyOption (File f) cl = cl\<lparr>clFileName := f\<rparr>"
| "applyOption (Report d) cl = cl\<lparr>clDirName := d\<rparr>"
| "applyOption Quick cl = cl\<lparr>clQuickRun := True\<rparr>"
| "applyOption Compliant cl = cl\<lparr>clQuickRun := False\<rparr>"
| "applyOption (Tests ts) cl = cl\<lparr>clTestNames := clTestNames cl @ ts\<rparr>"
| "applyOption (Mode m) cl = cl\<lparr>clRtMode := m\<rparr>"

lemma split_names_join: "\<forall>t \<in> set ts. CHR '':'' \<notin> set t \<Longrightarrow> ts \<noteq> [] \<Longrightarrow> split_names (join (CHR '':'') ts) = ts"
proof (induction "CHR '':''" ts rule: join.induct)
  case (2 t)
  then show ?case by (simp add: split_names.simps)
next
  case (3 t u us)
  then show ?case by (subst split_names.simps) (simp add: until_delimiter)
qed simp

lemma parseArgs_option: "option_ok opt \<Longrightarrow> parseArgs cl ini (render_option opt @ as) = parseArgs (applyOption opt cl) ini as"
  by (cases opt) (simp_all add: setTestNames_def split_names_join name_ok_def split: real_time_mode.split)

lemma parseArgs_options:
  "\<forall>opt \<in> set opts. option_ok opt \<Longrightarrow> parseArgs cl ini (concat (map render_option opts) @ as) = parseArgs (fold applyOption opts cl) ini as"
  by (induction opts arbitrary: cl) (simp_all add: parseArgs_option del: parseArgs.simps)

text \<open>The options of the C++ program as options of the C program: the list of test names is reversed.\<close>

definition as_c_options :: "CmdLineParams \<Rightarrow> cmd_line_args" where
  "as_c_options cl = \<lparr>verbose = (if clVerbose cl then 1 else 0), verbose_lvl = clVerboseLevel cl, quick = (if clQuickRun cl then 1 else 0),
     rt_mode = clRtMode cl, file_name = Some (clFileName cl), dir_name = clDirName cl, test_list = rev (clTestNames cl)\<rparr>"

lemma as_c_apply: "as_c_options (applyOption opt cl) = apply_option opt (as_c_options cl)"
  by (cases opt) (simp_all add: as_c_options_def)

lemma as_c_fold: "as_c_options (fold applyOption opts cl) = fold apply_option opts (as_c_options cl)"
  by (induction opts arbitrary: cl) (simp_all add: as_c_apply)

section \<open>The input file is that of the C program\<close>

lemma getlines_file: "\<forall>l \<in> set ls. line_ok l \<Longrightarrow> getlines (file_of ls) = ls"
proof (induction ls)
  case (Cons l ls)
  then have l: "newline \<notin> set l" "length l \<le> 1023" by (auto simp: line_ok_def)
  have f: "file_of (l # ls) = l @ newline # file_of ls" by (simp add: file_of_def)
  show ?case using Cons l by (subst getlines.simps) (simp add: f until_delimiter)
qed (simp add: file_of_def getlines.simps)

lemma c_str_line: "nul \<notin> set l \<Longrightarrow> c_str l = l"
  by (auto simp: c_str_def takeWhile_eq_all_conv)

lemma parseLines_Cons: "line_ok l \<Longrightarrow> parseLines rng st (l # ls) = bind_res (parseLine rng st l) (\<lambda>st. parseLines rng st ls)"
  by (simp add: line_ok_def c_str_line)

lemma parseLines_step: "line_ok l \<Longrightarrow> parseLine rng st l = Inr st' \<Longrightarrow> parseLines rng st (l # ls) = parseLines rng st' ls"
  by (simp add: parseLines_Cons del: parseLines.simps)

lemma rhs_key_line: "CHR ''='' \<notin> set k \<Longrightarrow> getRHSofDelimiter (key_line k v) = Inr v"
  by (simp add: getRHSofDelimiter_def key_line_def until_delimiter)

lemma strstr_key: "CHR ''='' \<notin> set pat \<Longrightarrow> pat \<noteq> [] \<Longrightarrow> strstr pat (key_line k v) \<longleftrightarrow> strstr pat k \<or> strstr pat v"
  by (simp add: key_line_def strstr_split)

lemma not_digit_keys [simp]: "\<not> is_digit (CHR ''n'')" "\<not> is_digit (CHR ''d'')" "\<not> is_digit (CHR ''i'')" "\<not> is_digit (CHR ''c'')"
  by (simp_all add: is_digit_def)

text \<open>A key line within a test; \<open>''name''\<close> anywhere in the line makes it the name of the test.\<close>

lemma parseLine_keys:
  assumes "pr_newTest st"
  shows "parseLine rng st (key_line ''name'' v) = Inr (st\<lparr>pr_test := (pr_test st)\<lparr>testName := v\<rparr>\<rparr>)"
    and "\<not> strstr ''name'' v \<Longrightarrow> parseLine rng st (key_line ''desc'' v) = Inr (st\<lparr>pr_test := (pr_test st)\<lparr>testDesc := v\<rparr>\<rparr>)"
    and "strstr ''name'' v \<Longrightarrow> parseLine rng st (key_line ''desc'' v) = Inr (st\<lparr>pr_test := (pr_test st)\<lparr>testName := v\<rparr>\<rparr>)"
    and "int n \<le> INT_MAX \<Longrightarrow> parseLine rng st (key_line ''iterations'' (dec n)) = Inr (st\<lparr>pr_test := (pr_test st)\<lparr>numIterations := int n\<rparr>\<rparr>)"
    and "int n \<le> INT_MAX \<Longrightarrow> parseLine rng st (key_line ''config_test'' (dec n)) = Inr (st\<lparr>pr_test := (pr_test st)\<lparr>configTest := (n = 1)\<rparr>\<rparr>)"
    and "int n \<le> INT_MAX \<Longrightarrow> parseLine rng st (key_line ''threshold'' (dec n)) = Inr (st\<lparr>pr_test := (pr_test st)\<lparr>testThreshold := int n\<rparr>\<rparr>)"
    and "0 < n \<and> int n \<le> INT_MAX \<Longrightarrow> parseLine rng st (key_line ''reference_score'' (dec n)) = Inr (st\<lparr>pr_test := (pr_test st)\<lparr>referenceScore := Fin (of_int (int n))\<rparr>,
        pr_erange := pr_erange st \<or> rng (dec n)\<rparr>)"
  using assms by (simp_all add: parseLine_def key_line_def strstr_split dec_strstr in_test_def getRHSofDelimiter_def atoi_dec strtod_dec f64_cmp Let_def)

lemma percent_value: "0 < n \<Longrightarrow> n < 100 \<Longrightarrow> to_f32 (Fin (of_int (int n))) = Fin (of_int (int n))"
proof -
  assume n: "0 < n" "n < 100"
  have "representable 24 (-126) (of_int (int n))" using n by (intro representable_of_int) simp_all
  then have r: "roundv 24 (-126) (of_int (int n)) = of_int (int n)" by (simp add: roundv_representable)
  have "(2 :: rat) powi 7 \<le> 2 powi 128" by simp
  moreover have "\<bar>of_int (int n) :: rat\<bar> < 2 powi 7" using n by simp
  ultimately have "\<bar>of_int (int n) :: rat\<bar> < 2 powi 128" by linarith
  then show ?thesis using r by (simp add: rnd32_def pack_Fin)
qed

definition info_of_entry :: "benchmark_test \<Rightarrow> BenchMarkTestInfo" where
  "info_of_entry t = \<lparr>testName = bt_name t, testDesc = bt_desc t, numIterations = bt_iterations t, configTest = (bt_config_test t = 1),
     testThreshold = bt_threshold t, referenceScore = bt_reference_score t\<rparr>"

definition described :: "test_spec \<Rightarrow> bool" where
  "described t \<longleftrightarrow> spec_ok t \<and> \<not> strstr ''name'' (sp_desc t)"

lemma parseLines_test:
  assumes "described t" and "\<not> pr_newTest st"
  shows "\<exists>st'. parseLines rng st (render_test t @ ls) = parseLines rng st' ls \<and> \<not> pr_newTest st'
    \<and> pr_params st' = (pr_params st)\<lparr>inTests := inTests (pr_params st) @ [info_of_entry (entry_of t)]\<rparr>"
proof -
  have t: "\<not> strstr ''name'' (sp_desc t)" "0 < sp_reference t \<and> int (sp_reference t) \<le> INT_MAX" "int (sp_iterations t) \<le> INT_MAX"
    "int (sp_config t) \<le> INT_MAX" "int (sp_threshold t) \<le> INT_MAX" using assms(1) by (simp_all add: described_def spec_ok_def)
  have ok: "\<And>l. l \<in> set (render_test t) \<Longrightarrow> line_ok l" using render_test_lines [of t] assms(1) by (auto simp: described_def)
  have "parseLine rng st ''test'' = Inr (st\<lparr>pr_newTest := True, pr_test := new_BenchMarkTestInfo\<rparr>)" by (simp add: parseLine_def)
  note s1 = parseLines_step [OF ok this]
  note keys = parseLine_keys [THEN parseLines_step [OF ok, rotated], rotated]
  let ?st = "st\<lparr>pr_newTest := True, pr_test := info_of_entry (entry_of t), pr_erange := pr_erange st \<or> rng (dec (sp_reference t))\<rparr>"
  have "parseLines rng st (render_test t @ ls) = parseLines rng ?st (''/test'' # ls)"
    using t unfolding render_test_def
    apply (simp add: s1 render_test_def del: parseLines.simps)
    apply (subst parseLines_step [OF ok parseLine_keys(1)], simp_all add: render_test_def del: parseLines.simps)
    apply (subst parseLines_step [OF ok parseLine_keys(2)], simp_all add: render_test_def del: parseLines.simps)
    apply (subst parseLines_step [OF ok parseLine_keys(4)], simp_all add: render_test_def del: parseLines.simps)
    apply (subst parseLines_step [OF ok parseLine_keys(5)], simp_all add: render_test_def del: parseLines.simps)
    apply (subst parseLines_step [OF ok parseLine_keys(6)], simp_all add: render_test_def del: parseLines.simps)
    apply (subst parseLines_step [OF ok parseLine_keys(7)], simp_all add: render_test_def del: parseLines.simps)
    apply (simp add: entry_of_def info_of_entry_def new_BenchMarkTestInfo_def del: parseLines.simps)
    done
  also have "\<dots> = parseLines rng (?st\<lparr>pr_newTest := False, pr_params := (pr_params st)\<lparr>inTests := inTests (pr_params st) @ [info_of_entry (entry_of t)]\<rparr>\<rparr>) ls"
    by (subst parseLines_step) (simp_all add: line_ok_def parseLine_def del: parseLines.simps)
  finally show ?thesis by auto
qed

lemma parseLines_tests:
  assumes "\<forall>t \<in> set ts. described t" and "\<not> pr_newTest st"
  shows "\<exists>st'. parseLines rng st (concat (map render_test ts) @ ls) = parseLines rng st' ls \<and> \<not> pr_newTest st'
    \<and> pr_params st' = (pr_params st)\<lparr>inTests := inTests (pr_params st) @ map info_of_entry (map entry_of ts)\<rparr>"
  using assms
proof (induction ts arbitrary: st)
  case Nil
  then show ?case by (intro exI [of _ st]) simp
next
  case (Cons t ts)
  obtain st1 where st1: "parseLines rng st (render_test t @ concat (map render_test ts) @ ls) = parseLines rng st1 (concat (map render_test ts) @ ls)"
    "\<not> pr_newTest st1" "pr_params st1 = (pr_params st)\<lparr>inTests := inTests (pr_params st) @ [info_of_entry (entry_of t)]\<rparr>"
    using parseLines_test [of t st rng "concat (map render_test ts) @ ls"] Cons.prems by auto
  obtain st2 where "parseLines rng st1 (concat (map render_test ts) @ ls) = parseLines rng st2 ls" "\<not> pr_newTest st2"
    "pr_params st2 = (pr_params st1)\<lparr>inTests := inTests (pr_params st1) @ map info_of_entry (map entry_of ts)\<rparr>"
    using Cons.IH [of st1] Cons.prems st1(2) by auto
  with st1 show ?case by (intro exI [of _ st2]) simp
qed

text \<open>The lines of the percentages.\<close>

fun set_value :: "exp_vals \<Rightarrow> nat \<Rightarrow> InputParams \<Rightarrow> InputParams" where
  "set_value SRT_ACCEPTABLE_PERCENT n = set_soft (\<lambda>r. r\<lparr>acceptablePct := Fin (of_int (int n))\<rparr>)"
| "set_value SRT_RANGE_PERCENT n = set_soft (\<lambda>r. r\<lparr>rangePct := Fin (of_int (int n))\<rparr>)"
| "set_value SRT_MULTIPLIER n = set_soft (\<lambda>r. r\<lparr>rtMultiplier := int n\<rparr>)"
| "set_value HRT_ACCEPTABLE_PERCENT n = set_hard (\<lambda>r. r\<lparr>acceptablePct := Fin (of_int (int n))\<rparr>)"
| "set_value HRT_RANGE_PERCENT n = set_hard (\<lambda>r. r\<lparr>rangePct := Fin (of_int (int n))\<rparr>)"
| "set_value HRT_MULTIPLIER n = set_hard (\<lambda>r. r\<lparr>rtMultiplier := int n\<rparr>)"
| "set_value GRT_ACCEPTABLE_PERCENT n = set_hard (\<lambda>r. r\<lparr>acceptablePct := Fin (of_int (int n))\<rparr>)"
| "set_value GRT_RANGE_PERCENT n = set_hard (\<lambda>r. r\<lparr>rangePct := Fin (of_int (int n))\<rparr>)"
| "set_value GRT_MULTIPLIER n = set_hard (\<lambda>r. r\<lparr>rtMultiplier := int n\<rparr>)"

definition value_ok :: "exp_vals \<times> nat \<Rightarrow> bool" where
  "value_ok e \<longleftrightarrow> 0 < snd e \<and> (if fst e \<in> {SRT_MULTIPLIER, HRT_MULTIPLIER, GRT_MULTIPLIER} then int (snd e) \<le> INT_MAX else snd e < 100)"

lemma short_decimal: "n < 100 \<Longrightarrow> \<not> 300 < length (dec n)"
  using dec_length [of n] by simp

lemma percent_line_ok:
  assumes "\<not> pr_newTest st" "0 < n" "n < 100" "CHR ''='' \<notin> set k" "\<not> rng (dec n)"
  shows "percent_line rng st (key_line k (dec n)) upd = Inr (st\<lparr>pr_params := upd (Fin (of_int (int n))) (pr_params st), pr_erange := False\<rparr>)"
  using assms percent_value [of n] strtod_dec [of n] by (simp add: percent_line_def getFloatValues_def rhs_key_line Let_def f64_cmp)

lemma multiplier_line_ok:
  assumes "\<not> pr_newTest st" "0 < n" "int n \<le> INT_MAX" "CHR ''='' \<notin> set k"
  shows "multiplier_line st (key_line k (dec n)) upd = Inr (st\<lparr>pr_params := upd (int n) (pr_params st), pr_erange := False\<rparr>)"
  using assms by (simp add: multiplier_line_def getIntValues_def rhs_key_line atoi_dec)

lemma parseLine_value:
  assumes "value_ok (k, n)" and "\<not> pr_newTest st" and "\<forall>n < 100. \<not> rng (dec n)"
  shows "parseLine rng st (render_exp (k, n)) = Inr (st\<lparr>pr_params := set_value k n (pr_params st), pr_erange := False\<rparr>)"
proof -
  have "CHR ''='' \<notin> set (exp_key k)" by (cases k) simp_all
  then have "k \<notin> {SRT_MULTIPLIER, HRT_MULTIPLIER, GRT_MULTIPLIER} \<Longrightarrow> percent_line rng st (key_line (exp_key k) (dec n)) upd
      = Inr (st\<lparr>pr_params := upd (Fin (of_int (int n))) (pr_params st), pr_erange := False\<rparr>)"
    "k \<in> {SRT_MULTIPLIER, HRT_MULTIPLIER, GRT_MULTIPLIER} \<Longrightarrow> multiplier_line st (key_line (exp_key k) (dec n)) upd'
      = Inr (st\<lparr>pr_params := upd' (int n) (pr_params st), pr_erange := False\<rparr>)" for upd upd'
    using assms percent_line_ok [OF assms(2)] multiplier_line_ok [OF assms(2)] by (auto simp: value_ok_def)
  note lines = this [unfolded key_line_def]
  show ?thesis unfolding render_exp_def key_line_def fst_conv snd_conv
    using lines by (cases k) (simp_all add: parseLine_def strstr_split dec_strstr)
qed

lemma parseLines_values:
  assumes "\<forall>e \<in> set es. value_ok e" and "\<not> pr_newTest st" and "\<forall>n < 100. \<not> rng (dec n)"
  shows "\<exists>st'. parseLines rng st (map render_exp es) = Inr st' \<and> pr_params st' = fold (\<lambda>(k, n). set_value k n) es (pr_params st)"
  using assms
proof (induction es arbitrary: st)
  case (Cons e es)
  obtain k n where e: "e = (k, n)" by fastforce
  have v: "value_ok (k, n)" "int n \<le> INT_MAX" using Cons.prems(1) by (auto simp: e value_ok_def split: if_splits)
  have "parseLines rng st (map render_exp (e # es)) = parseLines rng (st\<lparr>pr_params := set_value k n (pr_params st), pr_erange := False\<rparr>) (map render_exp es)"
    using parseLines_step [OF render_exp_line [OF v(2)] parseLine_value [OF v(1) Cons.prems(2,3)]] by (simp add: e del: parseLines.simps)
  then show ?case using Cons.IH [of "st\<lparr>pr_params := set_value k n (pr_params st), pr_erange := False\<rparr>"] Cons.prems by (simp add: e)
qed simp

lemma read_rendered:
  assumes "\<forall>t \<in> set ts. described t" and "\<forall>e \<in> set es. value_ok e" and "\<forall>n < 100. \<not> rng (dec n)"
  shows "new_InputParams rng (Some (file_of (concat (map render_test ts) @ map render_exp es)))
    = Inr (Goes_on (fold (\<lambda>(k, n). set_value k n) es ((pr_params new_parser)\<lparr>inTests := map info_of_entry (map entry_of ts)\<rparr>)))"
proof -
  let ?ls = "concat (map render_test ts) @ map render_exp es"
  have "int (snd e) \<le> INT_MAX" if "e \<in> set es" for e using assms(2) that by (auto simp: value_ok_def split: if_splits)
  then have "\<forall>l \<in> set ?ls. line_ok l" using assms(1) render_test_lines render_exp_line by (fastforce simp: described_def)
  then have g: "getlines (file_of ?ls) = ?ls" by (rule getlines_file)
  obtain st where st: "parseLines rng new_parser ?ls = parseLines rng st (map render_exp es)" "\<not> pr_newTest st"
    "pr_params st = (pr_params new_parser)\<lparr>inTests := inTests (pr_params new_parser) @ map info_of_entry (map entry_of ts)\<rparr>"
    using parseLines_tests [OF assms(1), of new_parser rng "map render_exp es"] by (auto simp: new_parser_def)
  obtain st' where "parseLines rng st (map render_exp es) = Inr st'" "pr_params st' = fold (\<lambda>(k, n). set_value k n) es (pr_params st)"
    using parseLines_values [OF assms(2) st(2) assms(3)] by blast
  with st g show ?thesis by (simp add: new_InputParams_def new_parser_def)
qed

text \<open>The percentages of the soft and the hard mode are those of the C program when no line is about the guaranteed mode.\<close>

definition same_percents :: "InputParams \<Rightarrow> rt_params \<Rightarrow> bool" where
  "same_percents p v \<longleftrightarrow> acceptablePct (softValues p) = acceptable_percentage (srt v) \<and> rangePct (softValues p) = range_percentage (srt v)
     \<and> acceptablePct (hardValues p) = acceptable_percentage (hrt v) \<and> rangePct (hardValues p) = range_percentage (hrt v)"

definition not_guaranteed :: "exp_vals \<times> nat \<Rightarrow> bool" where
  "not_guaranteed e \<longleftrightarrow> fst e \<notin> {GRT_ACCEPTABLE_PERCENT, GRT_RANGE_PERCENT, GRT_MULTIPLIER}"

lemma set_value_same:
  assumes "same_percents p v" and "value_ok (k, n)" and "not_guaranteed (k, n)"
  shows "same_percents (set_value k n p) (set_exp v (Fin (of_int (int n))) k)"
  using assms percent_value [of n] by (cases k) (simp_all add: same_percents_def value_ok_def not_guaranteed_def set_soft_def set_hard_def set_exp_def del: to_f32.simps)

lemma set_values_same:
  "same_percents p v \<Longrightarrow> \<forall>e \<in> set es. value_ok e \<and> not_guaranteed e \<Longrightarrow>
    same_percents (fold (\<lambda>(k, n). set_value k n) es p) (fold (\<lambda>(k, n) v. set_exp v (Fin (of_int (int n))) k) es v)"
proof (induction es arbitrary: p v)
  case (Cons e es)
  obtain k n where e: "e = (k, n)" by fastforce
  have "same_percents (set_value k n p) (set_exp v (Fin (of_int (int n))) k)" using Cons.prems e by (intro set_value_same) auto
  from Cons.IH [OF this] Cons.prems(2) show ?case by (simp add: e)
qed simp

lemma set_value_tests: "inTests (set_value k n p) = inTests p \<and> grtValues (set_value k n p) = grtValues p"
  by (cases k) (simp_all add: set_soft_def set_hard_def)

lemma set_values_tests: "inTests (fold (\<lambda>(k, n). set_value k n) es p) = inTests p"
  by (induction es arbitrary: p) (auto simp: set_value_tests)

text \<open>No line sets the values of the guaranteed mode.\<close>

definition keeps_grt :: "input_parser \<Rightarrow> input_parser res \<Rightarrow> bool" where
  "keeps_grt st x \<longleftrightarrow> (\<forall>st'. x = Inr st' \<longrightarrow> grtValues (pr_params st') = grtValues (pr_params st))"

lemma keeps_grt_intros:
  "keeps_grt st (Inl e)" "keeps_grt st (Inr st)"
  "(c \<Longrightarrow> keeps_grt st x) \<Longrightarrow> (\<not> c \<Longrightarrow> keeps_grt st y) \<Longrightarrow> keeps_grt st (if c then x else y)"
  "(\<And>v. keeps_grt st (k v)) \<Longrightarrow> keeps_grt st (bind_res m k)"
  "(\<And>p. grtValues (g p) = grtValues p) \<Longrightarrow> keeps_grt st (Inr (st\<lparr>pr_params := g (pr_params st), pr_erange := b\<rparr>))"
  by (auto simp: keeps_grt_def bind_res_Inr_iff)

lemma keeps_grt_lines:
  "keeps_grt st (in_test st u)"
  "(\<And>v p. grtValues (h v p) = grtValues p) \<Longrightarrow> keeps_grt st (percent_line rng st l h)"
  "(\<And>v p. grtValues (g v p) = grtValues p) \<Longrightarrow> keeps_grt st (multiplier_line st l g)"
  by (auto simp: in_test_def percent_line_def multiplier_line_def Let_def keeps_grt_def bind_res_Inr_iff)

lemma parseLine_grt: "keeps_grt st (parseLine rng st l)"
proof (cases l)
  case (Cons c cs)
  show ?thesis unfolding parseLine_def Cons list.case Let_def
    by (intro keeps_grt_intros keeps_grt_lines) (simp_all add: keeps_grt_def set_soft_def set_hard_def)
qed (simp add: parseLine_def keeps_grt_def)

lemma parseLines_grt: "parseLines rng st ls = Inr st' \<Longrightarrow> grtValues (pr_params st') = grtValues (pr_params st)"
  using parseLine_grt by (induction ls arbitrary: st) (fastforce simp: bind_res_Inr_iff keeps_grt_def)+

section \<open>Properties\<close>


definition default_params :: CmdLineParams where
  "default_params = \<lparr>clVerbose = False, clVerboseLevel = 0, clRtMode = SOFT_RT, clFileName = ''/opt/rtmb/config/input.txt'', clDirName = ''/tmp'',
     clBinDir = ''/opt/rtmb/bin/'', clQuickRun = False, clTestNames = []\<rparr>"




lemma guaranteed_unset: "new_InputParams rng file = Inr (Goes_on p) \<Longrightarrow> getGuaranteedRealTimeValues p = Inl Uninitialised"
  by (auto simp: new_InputParams_def getGuaranteedRealTimeValues_def new_parser_def bind_res_Inr_iff dest: parseLines_grt split: option.splits)

text \<open>
  the guaranteed mode cannot be used: whatever the input file says, the pointer to its values is indeterminate after
  the file was read.
\<close>

lemma guaranteed_mode_indeterminate:
  assumes "new_InputParams rng file = Inr (Goes_on p)"
  shows "getGuaranteedRealTimeValues p = Inl Uninitialised"
  using assms by (rule guaranteed_unset)

lemma guaranteed_mode_indeterminate_witness:
  "getGuaranteedRealTimeValues (fold (\<lambda>(k, n). set_value k n) [(GRT_ACCEPTABLE_PERCENT, 99)]
    ((pr_params new_parser)\<lparr>inTests := map info_of_entry (map entry_of [sample_spec])\<rparr>)) = Inl Uninitialised"
  by (rule guaranteed_mode_indeterminate [OF read_rendered [where rng = "\<lambda>s. False"]])
     (simp_all add: described_def spec_ok_def word_ok_def sample_spec_def value_ok_def)

end
