(* ===== verification/Cpp_Config.thy ===== *)
theory Cpp_Config
  imports Cpp_Params Config_Tests Disk_Io
begin

text \<open>
  The C++ implementation, configuration tests: \<^verbatim>\<open>clock_config.cpp\<close>, \<^verbatim>\<open>int_rate_config.cpp\<close>,
  \<^verbatim>\<open>float_rate_config.cpp\<close> and \<^verbatim>\<open>mcache_perf_config.cpp\<close> with \<^verbatim>\<open>TimeOperations.cpp\<close>, \<^verbatim>\<open>MathOperations.cpp\<close> and \<^verbatim>\<open>ArrayOperations.cpp\<close>.  The clock and the sleep are those of theory World.
  A test runs its work in a thread that it joins at once; \<open>ce_spawn\<close> says whether \<^verbatim>\<open>pthread_create\<close> succeeds.
  A failure is compared with \<open>-1\<close>, which \<^verbatim>\<open>pthread_create\<close> never returns, and an indeterminate thread is joined.
  Memory allocation succeeds.  What is printed is left out.
\<close>

section \<open>Time and work\<close>

definition convertTimeToNsec :: "timespec \<Rightarrow> int res" where
  "convertTimeToNsec ts = bind_res (chk_ll (tv_sec ts * 1000000000)) (\<lambda>timeNs. chk_ll (timeNs + tv_nsec ts))"

definition getTimeDiff :: "timespec \<Rightarrow> timespec \<Rightarrow> int res" where
  "getTimeDiff endTime startTime = bind_res (convertTimeToNsec endTime) (\<lambda>e. bind_res (convertTimeToNsec startTime) (\<lambda>s. chk_ll (e - s)))"

text \<open>A reading that fails leaves the variable as it was, indeterminate before the first one.\<close>

definition getCurTime :: "timespec option \<Rightarrow> world \<Rightarrow> timespec option \<times> world" where
  "getCurTime old w = (case clk w (clk_n w) of None \<Rightarrow> (old, w\<lparr>clk_n := Suc (clk_n w)\<rparr>) | Some t \<Rightarrow> (Some t, w\<lparr>clk_n := Suc (clk_n w)\<rparr>))"

definition time_between :: "readings \<Rightarrow> int res" where
  "time_between rd = (case rd of (Some startTime, Some endTime) \<Rightarrow> getTimeDiff endTime startTime | _ \<Rightarrow> Inl Uninitialised)"

definition doNanoSleep :: "world \<Rightarrow> int \<Rightarrow> (bool \<times> world) option" where
  "doNanoSleep w nsecs = (let secs = to_int32 (nsecs sdiv 1000000000);
     rq = (if 0 < secs then \<lparr>tv_sec = secs, tv_nsec = nsecs smod 1000000000\<rparr> else \<lparr>tv_sec = 0, tv_nsec = nsecs\<rparr>) in
     map_option (\<lambda>(rc, w). (rc = 0, w)) (nano_loop w rq))"

definition doSimpleIntOpern :: "int \<Rightarrow> int res" where
  "doSimpleIntOpern num = bind_res (int_opern_loop num 2 10000 0) (\<lambda>r. Inr (to_int32 r))"

definition doSimpleFloatOpern :: "int \<Rightarrow> f64 option" where
  "doSimpleFloatOpern num = float_opern_loop num (Fin 2) (Fin 10000) (Fin 0)"

definition addNumbers :: "int \<Rightarrow> int res" where
  "addNumbers num = for_res [0..<nat num] (\<lambda>_ tot. bind_res (chk_ll (tot + tot smod num)) (\<lambda>tot. Inr tot)) 0"

text \<open>The new array is only written; its contents do not matter.\<close>

definition doArrayOpern :: "int \<Rightarrow> unit res" where
  "doArrayOpern sz = bind_res (guard_res Assert_failed (sz \<noteq> 0 \<and> sz > RTMB_PAGE_SIZE + 1)) (\<lambda>_. let j_inc = RTMB_PAGE_SIZE + 1 in
     bind_res (div_int sz j_inc) (\<lambda>end_i. bind_res (array_opern_loop end_i j_inc 0 0 (replicate (nat sz) (CHR 0x00))) (\<lambda>_. Inr ())))"

section \<open>The interface of a test\<close>

record cenv =
  ce_info :: BenchMarkTestInfo
  ce_table :: ResultTable
  ce_world :: world
  ce_spawn :: bool

type_synonym cpp_test = "CmdLineParams \<Rightarrow> RealTimeValues \<Rightarrow> cenv \<Rightarrow> (bool \<times> cenv) run"

text \<open>The arguments of the thread; the accuracy is passed as an \<^verbatim>\<open>int\<close>.\<close>

record RTThreadArgs =
  ta_threshold :: int
  ta_iterations :: int
  ta_rangePct :: f64
  ta_acceptablePct :: f64
  ta_clockAccuracy :: int

definition new_RTThreadArgs :: "int \<Rightarrow> int \<Rightarrow> RealTimeValues \<Rightarrow> int \<Rightarrow> RTThreadArgs" where
  "new_RTThreadArgs iters thresh rtValues clockAcc = \<lparr>ta_threshold = thresh, ta_iterations = iters,
     ta_rangePct = (if Fin 20 < rangePct rtValues then Fin 20 else rangePct rtValues),
     ta_acceptablePct = (if acceptablePct rtValues < rnd64 (999 / 10) then to_f32 (rnd64 (999 / 10)) else acceptablePct rtValues),
     ta_clockAccuracy = to_int32 clockAcc\<rparr>"

definition new_iters :: "CmdLineParams \<Rightarrow> RealTimeValues \<Rightarrow> BenchMarkTestInfo \<Rightarrow> int res" where
  "new_iters cl rtValues info = (if clQuickRun cl then Inr 1 else chk_int (numIterations info * rtMultiplier rtValues))"

text \<open>What every configuration test does before its thread starts.\<close>

definition prepare :: "CmdLineParams \<Rightarrow> RealTimeValues \<Rightarrow> testIds \<Rightarrow> cenv \<Rightarrow> (cenv \<times> RTThreadArgs \<times> TestResults) res" where
  "prepare cl rtValues tid env = bind_res (new_iters cl rtValues (ce_info env)) (\<lambda>n.
     let env = env\<lparr>ce_info := (ce_info env)\<lparr>numIterations := n\<rparr>\<rparr> in
     bind_res (new_TestResults tid n) (\<lambda>r. bind_res (getClockAccuracy (ce_table env)) (\<lambda>acc.
       Inr (env, new_RTThreadArgs n (testThreshold (ce_info env)) rtValues acc, r))))"

definition in_thread :: "cenv \<Rightarrow> 'a run \<Rightarrow> 'a run" where
  "in_thread env run = (if ce_spawn env then run else Some (Inl Uninitialised))"

section \<open>Timed runs\<close>

type_synonym trw = "TestResults \<times> readings \<times> world"

definition cpp_step :: "(world \<Rightarrow> (int \<times> world) run) \<Rightarrow> trw \<Rightarrow> (int \<times> trw) run" where
  "cpp_step work = (\<lambda>(r, (startTime, endTime), w). case getCurTime startTime w of (startTime, w) \<Rightarrow>
     bind_run (work w) (\<lambda>(rc, w). if rc = -1 then Some (Inr (-1, r, (startTime, endTime), w))
       else (case getCurTime endTime w of (endTime, w) \<Rightarrow>
         Some (bind_res (time_between (startTime, endTime)) (\<lambda>timeDiff.
           bind_res (setValuesAtNextIndex r timeDiff) (\<lambda>r. Inr (0, r, (startTime, endTime), w)))))))"

definition judge :: "RTThreadArgs \<Rightarrow> TestResults \<Rightarrow> int \<Rightarrow> (bool \<times> TestResults \<times> int) res" where
  "judge args r cnt = bind_res (init_value (medianT r)) (\<lambda>med.
     if of_ll (ta_clockAccuracy args) < med
     then bind_res (checkStdDev r (ta_rangePct args) (ta_acceptablePct args)) (\<lambda>(ok, r).
            if ok then Inr (True, r, cnt)
            else bind_res (chk_int (cnt + 1)) (\<lambda>cnt. Inr (cnt = ta_threshold args, r, cnt)))
     else Inr (False, r, cnt))"

definition next_try :: "testIds \<Rightarrow> RTThreadArgs \<Rightarrow> int \<Rightarrow> TestResults \<Rightarrow> (int \<times> TestResults) res" where
  "next_try tid args num _ = bind_res (new_TestResults tid (ta_iterations args)) (\<lambda>r. bind_res (chk_int (num * 2)) (\<lambda>num. Inr (num, r)))"

text \<open>
  The loop over runs with a doubled amount of work. \<open>tidy\<close> is what an attempt that is not the last one does to the world when it ends.
\<close>

partial_function (option) cpp_loop ::
  "(int \<Rightarrow> TestResults \<times> 'w \<Rightarrow> (int \<times> TestResults \<times> 'w) run) \<Rightarrow> (TestResults \<Rightarrow> int \<Rightarrow> (bool \<times> TestResults \<times> int) res) \<Rightarrow>
   (int \<Rightarrow> TestResults \<Rightarrow> (int \<times> TestResults) res) \<Rightarrow> ('w \<Rightarrow> 'w) \<Rightarrow> int \<Rightarrow> int \<Rightarrow> TestResults \<times> 'w \<Rightarrow> (int \<times> int \<times> TestResults \<times> 'w) run" where
  "cpp_loop body decide next_num tidy num cnt s = (case body num s of None \<Rightarrow> None
     | Some (Inl e) \<Rightarrow> Some (Inl e)
     | Some (Inr (rc, r, w)) \<Rightarrow> if rc = -1 then Some (Inr (-1, num, r, w))
         else (case decide r cnt of Inl e \<Rightarrow> Some (Inl e)
           | Inr (fin, r, cnt) \<Rightarrow> if fin then Some (Inr (0, num, r, w))
               else (case next_num num r of Inl e \<Rightarrow> Some (Inl e)
                 | Inr (num, r) \<Rightarrow> cpp_loop body decide next_num tidy num cnt (r, tidy w))))"

text \<open>A thread that gives up leaves the work quantum as it was; \<open>amount\<close> computes the one that is stored.\<close>

type_synonym runs = "int \<Rightarrow> int \<Rightarrow> trw \<Rightarrow> (int \<times> trw) run"

definition config_impl :: "testIds \<Rightarrow> int \<Rightarrow> runs \<Rightarrow> (world \<Rightarrow> world) \<Rightarrow> (int \<Rightarrow> int res) \<Rightarrow>
    RTThreadArgs \<Rightarrow> TestResults \<Rightarrow> world \<Rightarrow> (TestResults \<times> world) run" where
  "config_impl tid num body tidy amount args r w =
     bind_run (cpp_loop (body (ta_iterations args)) (judge args) (next_try tid args) (apsnd tidy) num 0 (r, (None, None), w))
       (\<lambda>(rc, num, r, rd, w). if rc = -1 then Some (Inr (r, w)) else Some (bind_res (amount num) (\<lambda>n. Inr (r\<lparr>workQuantum := n\<rparr>, w))))"

text \<open>What all tests but the one of the clock do around their thread.\<close>

definition config_rate_test :: "(f64 \<Rightarrow> f64 \<Rightarrow> f64) \<Rightarrow> testIds \<Rightarrow> (RTThreadArgs \<Rightarrow> TestResults \<Rightarrow> world \<Rightarrow> (TestResults \<times> world) run) \<Rightarrow> cpp_test" where
  "config_rate_test pw tid impl cl rtValues env = bind_run (Some (prepare cl rtValues tid env)) (\<lambda>(env, args, r).
     bind_run (in_thread env (impl args r (ce_world env))) (\<lambda>(r, w).
       Some (bind_res (addResult pw (ce_table env) (ce_info env) [r] True) (\<lambda>table. Inr (True, env\<lparr>ce_table := table, ce_world := w\<rparr>)))))"

definition timed_runs :: "(int \<Rightarrow> world \<Rightarrow> (int \<times> world) run) \<Rightarrow> runs" where
  "timed_runs work iters num = iterate (nat iters) (cpp_step (work num))"

section \<open>Integer rate, floating-point rate and memory cache\<close>

definition int_oper_work :: "int \<Rightarrow> world \<Rightarrow> (int \<times> world) run" where
  "int_oper_work num w = Some (bind_res (doSimpleIntOpern num) (\<lambda>v. Inr (if v = -1 then -1 else 0, w)))"

definition int_rate_test :: "(f64 \<Rightarrow> f64 \<Rightarrow> f64) \<Rightarrow> cpp_test" where
  "int_rate_test pw = config_rate_test pw IRATE_ID (config_impl IRATE_ID 100 (timed_runs int_oper_work) id Inr)"

definition float_oper_work :: "int \<Rightarrow> world \<Rightarrow> (int \<times> world) run" where
  "float_oper_work num w = (case doSimpleFloatOpern num of None \<Rightarrow> None | Some v \<Rightarrow> Some (Inr (if feq v (Fin (-1)) then -1 else 0, w)))"

definition float_rate_test :: "(f64 \<Rightarrow> f64 \<Rightarrow> f64) \<Rightarrow> cpp_test" where
  "float_rate_test pw = config_rate_test pw FRATE_ID (config_impl FRATE_ID 100 (timed_runs float_oper_work) id Inr)"

definition cache_work :: "int \<Rightarrow> world \<Rightarrow> (int \<times> world) run" where
  "cache_work num w = Some (bind_res (doArrayOpern num) (\<lambda>_. Inr (0, w)))"

definition mem_cache_test :: "(f64 \<Rightarrow> f64 \<Rightarrow> f64) \<Rightarrow> cpp_test" where
  "mem_cache_test pw = config_rate_test pw MCACHE_ID (config_impl MCACHE_ID 4194304 (timed_runs cache_work) id Inr)"

section \<open>The clock\<close>

definition runClockTest :: "int \<Rightarrow> RTThreadArgs \<Rightarrow> TestResults \<Rightarrow> world \<Rightarrow> (bool \<times> TestResults \<times> world) run" where
  "runClockTest num args r w =
     bind_run (iterate (nat (ta_iterations args)) (cpp_step (\<lambda>w. Some (Inr (0, w)))) (r, (None, None), w)) (\<lambda>(rc, r, rd, w).
       Some (bind_res (checkStdDev r (ta_rangePct args) (ta_acceptablePct args)) (\<lambda>(ok, r). Inr (ok, r, w))))"

definition ClockConfigImpl :: "RTThreadArgs \<Rightarrow> TestResults \<Rightarrow> world \<Rightarrow> (TestResults \<times> world) run" where
  "ClockConfigImpl args r w = bind_run (runClockTest 100 args r w) (\<lambda>(testStatus, r, w). Some (Inr (r\<lparr>workQuantum := 100\<rparr>, w)))"

definition clock_config_test :: "(f64 \<Rightarrow> f64 \<Rightarrow> f64) \<Rightarrow> cpp_test" where
  "clock_config_test pw cl rtValues env = bind_run (Some (prepare cl rtValues SYSCLOCK_ID env)) (\<lambda>(env, args, r).
     bind_run (in_thread env (ClockConfigImpl args r (ce_world env))) (\<lambda>(r, w).
       Some (bind_res (addResult pw (ce_table env) (ce_info env) [r] True) (\<lambda>table.
         bind_res (getClockAccuracy table) (\<lambda>acc. bind_res (guard_res Assert_failed (0 < acc)) (\<lambda>_.
           Inr (True, env\<lparr>ce_table := table, ce_world := w\<rparr>)))))))"

section \<open>Time and work keep within their bounds\<close>

lemma getTimeDiff_c: "getTimeDiff e s = get_time_diff s e"
  by (simp add: getTimeDiff_def get_time_diff_def convertTimeToNsec_def [abs_def] convert_time_to_nsec_def [abs_def])

lemma int_oper_work_quiet: "q \<le> 2600000 \<Longrightarrow> quiet_work (int_oper_work q)"
proof -
  assume "q \<le> 2600000"
  then obtain v where "do_simple_int_opern q = Inr v" "0 \<le> v" using simple_int_opern_ok by blast
  then show ?thesis by (auto simp: quiet_work_def int_oper_work_def doSimpleIntOpern_def do_simple_int_opern_def)
qed

lemma cache_work_quiet: "4097 < q \<Longrightarrow> q \<le> INT_MAX \<Longrightarrow> quiet_work (cache_work q)"
proof -
  assume q: "4097 < q" "q \<le> INT_MAX"
  then have "\<exists>m'. do_array_opern (Some (replicate (nat q) (CHR 0x00))) q = Inr (0, Some m')" using array_opern_ok [of q "replicate (nat q) (CHR 0x00)"] by auto
  then have "doArrayOpern q = Inr ()" using q by (auto simp: doArrayOpern_def do_array_opern_def Let_def bind_res_Inr_iff guard_res_def)
  then show ?thesis by (simp add: quiet_work_def cache_work_def)
qed

section \<open>The contract of a timed run\<close>

definition fresh :: "testIds \<Rightarrow> int \<Rightarrow> TestResults \<Rightarrow> bool" where
  "fresh tid iters r \<longleftrightarrow> holds r [] \<and> room r = iters \<and> testId r = Some tid"

definition timed :: "testIds \<Rightarrow> int \<Rightarrow> int \<Rightarrow> int \<Rightarrow> TestResults \<Rightarrow> int list \<Rightarrow> bool" where
  "timed tid lo b iters r ts \<longleftrightarrow> holds r ts \<and> has_statistics r ts \<and> int (length ts) = iters \<and> ts \<noteq> [] \<and> times_ok b ts
     \<and> (\<forall>t \<in> set ts. lo \<le> t) \<and> room r = iters \<and> testId r = Some tid"

lemma timed_quantum [simp]: "timed tid lo b iters (r\<lparr>workQuantum := n\<rparr>) ts = timed tid lo b iters r ts"
  by (simp add: timed_def holds_def has_statistics_def room_def)

lemma new_fresh: "is_int n \<Longrightarrow> 0 \<le> n \<Longrightarrow> \<exists>r. new_TestResults tid n = Inr r \<and> fresh tid n r"
  using new_holds [of n tid] by (auto simp: fresh_def)

definition records :: "int \<Rightarrow> int \<Rightarrow> (nat \<Rightarrow> 'w \<Rightarrow> bool) \<Rightarrow> (TestResults \<times> 'w \<Rightarrow> (int \<times> TestResults \<times> 'w) run) \<Rightarrow> bool" where
  "records lo b P step \<longleftrightarrow> (\<forall>r w n. P (Suc n) w \<longrightarrow> (\<exists>t w'. in_range lo b t \<and> P n w' \<and>
     step (r, w) = Some (bind_res (setValuesAtNextIndex r t) (\<lambda>r. Inr (0, r, w')))))"

lemma iterate_record_all:
  assumes "records lo b P step" and "P (n + m) w"
  shows "\<exists>ts w'. length ts = n \<and> (\<forall>t \<in> set ts. in_range lo b t) \<and> P m w' \<and>
    iterate n step (r, w) = Some (bind_res (record_all r ts) (\<lambda>r. Inr (0, r, w')))"
  using assms(2)
proof (induction n arbitrary: r w)
  case 0
  then show ?case by (intro exI [of _ "[]"] exI [of _ w]) simp
next
  case (Suc n)
  have "P (Suc (n + m)) w" using Suc.prems by simp
  then obtain t w1 where t: "in_range lo b t" "P (n + m) w1" "step (r, w) = Some (bind_res (setValuesAtNextIndex r t) (\<lambda>r. Inr (0, r, w1)))"
    using assms(1) unfolding records_def by blast
  show ?case
  proof (cases "setValuesAtNextIndex r t")
    case (Inl e)
    obtain ts w' where "length ts = n" "\<forall>t \<in> set ts. in_range lo b t" "P m w'" using Suc.IH [OF t(2), of r] by blast
    with Inl t show ?thesis by (intro exI [of _ "t # ts"] exI [of _ w']) simp
  next
    case (Inr r1)
    obtain ts w' where "length ts = n" "\<forall>t \<in> set ts. in_range lo b t" "P m w'"
      "iterate n step (r1, w1) = Some (bind_res (record_all r1 ts) (\<lambda>r. Inr (0, r, w')))"
      using Suc.IH [OF t(2), of r1] by blast
    with Inr t show ?thesis by (intro exI [of _ "t # ts"] exI [of _ w']) simp
  qed
qed

lemma iterate_timed:
  assumes "records lo b P step" and "P (nat iters + m) w" and "run_ok iters b" and "fresh tid iters r"
  shows "\<exists>ts r' w'. iterate (nat iters) step (r, w) = Some (Inr (0, r', w')) \<and> timed tid lo b iters r' ts \<and> P m w'"
proof -
  obtain ts w' where ts: "length ts = nat iters" "\<forall>t \<in> set ts. in_range lo b t" "P m w'"
    "iterate (nat iters) step (r, w) = Some (bind_res (record_all r ts) (\<lambda>r. Inr (0, r, w')))"
    using iterate_record_all [OF assms(1,2)] by blast
  have len: "int (length ts) = iters" "ts \<noteq> []" using ts(1) assms(3) by (auto simp: run_ok_def)
  have ok: "times_ok b ts" using ts(2) assms(3) len(1) by (simp add: times_ok_def run_ok_def in_range_def)
  obtain r' where "record_all r ts = Inr r'" "holds r' ts" "has_statistics r' ts" "room r' = room r" "testId r' = testId r"
    using record_all_full [OF _ _ len(2) ok, of r] len(1) assms(4) by (auto simp: fresh_def)
  with ts len ok assms(4) show ?thesis by (auto simp: timed_def fresh_def in_range_def)
qed

text \<open>The same with the times themselves: a step that records \<open>T s\<close> and leaves the environment \<open>nxt s\<close>.\<close>

lemma iterate_times:
  assumes "\<And>r s n. P (Suc n) s \<Longrightarrow> in_range lo b (T s) \<and> P n (nxt s)
      \<and> step (r, s) = Some (bind_res (setValuesAtNextIndex r (T s)) (\<lambda>r. Inr (0, r, nxt s)))"
    and "P (n + m) s"
  shows "iterate n step (r, s) = Some (bind_res (record_all r (map (\<lambda>i. T ((nxt ^^ i) s)) [0..<n])) (\<lambda>r. Inr (0, r, (nxt ^^ n) s)))
    \<and> P m ((nxt ^^ n) s) \<and> (\<forall>i < n. in_range lo b (T ((nxt ^^ i) s)))"
  using assms(2)
proof (induction n arbitrary: r s)
  case (Suc n)
  have "P (Suc (n + m)) s" using Suc.prems by simp
  note t = assms(1) [OF this]
  have u: "map (\<lambda>i. T ((nxt ^^ i) s)) [0..<Suc n] = T s # map (\<lambda>i. T ((nxt ^^ i) (nxt s))) [0..<n]"
    by (simp add: map_upt_Suc funpow_swap1 del: upt_Suc)
  from t Suc.IH [of "nxt s"] show ?case
    by (cases "setValuesAtNextIndex r (T s)") (auto simp: u funpow_swap1 less_Suc_eq_0_disj simp del: upt_Suc)
qed simp

lemma iterate_timed_exact:
  assumes "\<And>r s n. P (Suc n) s \<Longrightarrow> in_range lo b (T s) \<and> P n (nxt s)
      \<and> step (r, s) = Some (bind_res (setValuesAtNextIndex r (T s)) (\<lambda>r. Inr (0, r, nxt s)))"
    and "P (nat iters + m) s" and "run_ok iters b" and "fresh tid iters r"
  shows "\<exists>r'. iterate (nat iters) step (r, s) = Some (Inr (0, r', (nxt ^^ nat iters) s))
    \<and> timed tid lo b iters r' (map (\<lambda>i. T ((nxt ^^ i) s)) [0..<nat iters]) \<and> P m ((nxt ^^ nat iters) s)"
proof -
  let ?ts = "map (\<lambda>i. T ((nxt ^^ i) s)) [0..<nat iters]"
  note it = iterate_times [where P = P and T = T and nxt = nxt and step = step, OF assms(1,2)]
  have len: "int (length ?ts) = iters" "?ts \<noteq> []" using assms(3) by (auto simp: run_ok_def)
  have rng: "\<forall>t \<in> set ?ts. in_range lo b t" using it by auto
  then have ok: "times_ok b ?ts" using assms(3) len(1) by (simp add: times_ok_def run_ok_def in_range_def)
  obtain r' where "record_all r ?ts = Inr r'" "holds r' ?ts" "has_statistics r' ?ts" "room r' = room r" "testId r' = testId r"
    using record_all_full [OF _ _ len(2) ok, of r] len(1) assms(4) by (auto simp: fresh_def)
  with it len ok assms(4) rng show ?thesis by (auto simp: timed_def fresh_def in_range_def)
qed

definition clocked :: "(world \<Rightarrow> bool) \<Rightarrow> int \<Rightarrow> int \<Rightarrow> nat \<Rightarrow> readings \<times> world \<Rightarrow> bool" where
  "clocked J lo b n s \<longleftrightarrow> clock_steps lo b n (snd s) \<and> J (snd s)"

text \<open>Work that succeeds wherever \<open>J\<close> holds and leaves the clock alone.\<close>

definition works_in :: "(world \<Rightarrow> bool) \<Rightarrow> (world \<Rightarrow> (int \<times> world) run) \<Rightarrow> bool" where
  "works_in J work \<longleftrightarrow> (\<forall>w n. J w \<longrightarrow> J (w\<lparr>clk_n := n\<rparr>)) \<and>
     (\<forall>w. J w \<longrightarrow> (\<exists>rc w'. work w = Some (Inr (rc, w')) \<and> rc \<noteq> -1 \<and> clk w' = clk w \<and> clk_n w' = clk_n w \<and> J w'))"

lemma quiet_works_in: "quiet_work work \<Longrightarrow> works_in (\<lambda>_. True) work"
  by (auto simp: quiet_work_def works_in_def)

lemma cpp_step_records:
  assumes "works_in J work"
  shows "records lo b (clocked J lo b) (cpp_step work)"
  unfolding records_def
proof (intro allI impI)
  fix r and s :: "readings \<times> world" and n assume i: "clocked J lo b (Suc n) s"
  obtain u v w where s: "s = ((u, v), w)" by (metis prod.exhaust)
  have c: "clock_steps lo b (Suc n) w" and jw: "J w" using i by (simp_all add: clocked_def s)
  obtain st en where se: "clk w (clk_n w) = Some st" "clk w (Suc (clk_n w)) = Some en"
    "get_time_diff st en = Inr (ts_nsec en - ts_nsec st)" "in_range lo b (ts_nsec en - ts_nsec st)"
    using two_readings [OF c] .
  define w1 where "w1 = w\<lparr>clk_n := Suc (clk_n w)\<rparr>"
  have "J w1" using assms jw by (simp add: works_in_def w1_def)
  then obtain rc w2 where w2: "work w1 = Some (Inr (rc, w2))" "rc \<noteq> -1" "clk w2 = clk w1" "clk_n w2 = clk_n w1" "J w2"
    using assms unfolding works_in_def by blast
  define w' where "w' = w2\<lparr>clk_n := Suc (clk_n w2)\<rparr>"
  have "clock_steps lo b n w'" by (rule clock_steps_next [OF c]) (simp_all add: w'_def w2 w1_def)
  moreover have "J w'" using assms w2(5) by (simp add: works_in_def w'_def)
  moreover have "cpp_step work (r, s) = Some (bind_res (setValuesAtNextIndex r (ts_nsec en - ts_nsec st)) (\<lambda>r. Inr (0, r, (Some st, Some en), w')))"
    using se(1-3) w2 by (simp add: cpp_step_def s getCurTime_def time_between_def getTimeDiff_c w'_def w1_def)
  ultimately show "\<exists>t w'. in_range lo b t \<and> clocked J lo b n w' \<and>
      cpp_step work (r, s) = Some (bind_res (setValuesAtNextIndex r t) (\<lambda>r. Inr (0, r, w')))"
    using se(4) by (intro exI [of _ "ts_nsec en - ts_nsec st"] exI [of _ "((Some st, Some en), w')"]) (simp add: clocked_def)
qed

section \<open>The verdict on a run\<close>

definition meets :: "f64 \<Rightarrow> TestResults \<Rightarrow> bool" where
  "meets a r \<longleftrightarrow> (case (f64_to_int (a / Fin 100 * of_ll (entries r)), conformingIters r) of (Inr m, Some c) \<Rightarrow> m \<le> c | _ \<Rightarrow> False)"

text \<open>The verdict as a function of the recorded times.\<close>

definition times_meet :: "f64 \<Rightarrow> f64 \<Rightarrow> int list \<Rightarrow> bool" where
  "times_meet rng a ts \<longleftrightarrow> (case f64_to_int (a / Fin 100 * of_ll (int (length ts))) of
     Inr m \<Rightarrow> m \<le> conforming (lower_limit (Fin (median_of ts)) rng) (upper_limit (Fin (median_of ts)) rng) ts | Inl _ \<Rightarrow> False)"

lemma checkStdDev_timed:
  assumes "timed tid lo b iters r ts" and "percents rng a"
  shows "\<exists>r'. checkStdDev r rng a = Inr (meets a r', r') \<and> timed tid lo b iters r' ts \<and> workQuantum r' = workQuantum r
    \<and> conformingIters r' = Some (conforming (lower_limit (Fin (median_of ts)) rng) (upper_limit (Fin (median_of ts)) rng) ts)
    \<and> meets a r' = times_meet rng a ts"
proof -
  have r: "holds r ts" "has_statistics r ts" "times_ok b ts" "ts \<noteq> []" "medianT r = Some (Fin (median_of ts))"
    using assms(1) by (simp_all add: timed_def has_statistics_def)
  let ?c = "conforming (lower_limit (Fin (median_of ts)) rng) (upper_limit (Fin (median_of ts)) rng) ts"
  obtain m where m: "f64_to_int (a / Fin 100 * of_ll (int (length ts))) = Inr m"
    "checkStdDev r rng a = Inr (m \<le> ?c, r\<lparr>mean := mean_of ts, stdDev := deviation ts, conformingIters := Some ?c,
      nonConformingIters := Some (int (length ts) - ?c), positiveLimit := Some (upper_limit (Fin (median_of ts)) rng),
      negativeLimit := Some (lower_limit (Fin (median_of ts)) rng)\<rparr>)"
    using checkStdDev_ok [OF r(1,3,4,5) assms(2)] by blast
  have "entries r = int (length ts)" using r(1) by (simp add: holds_def)
  with m assms(1) show ?thesis by (auto simp: timed_def holds_def has_statistics_def room_def meets_def times_meet_def)
qed

lemma median_above:
  assumes "timed tid lo b iters r ts" and "is_int acc" and "acc < lo"
  shows "medianT r = Some (Fin (median_of ts))" "of_ll acc < Fin (median_of ts)"
proof -
  have "lo \<le> \<lfloor>median_of ts\<rfloor>" using assms(1) by (intro median_of_ge) (simp_all add: timed_def)
  then have "of_int lo \<le> median_of ts" by (simp add: le_floor_iff)
  then show "of_ll acc < Fin (median_of ts)" using assms(2,3) by (simp add: of_int_exact)
  show "medianT r = Some (Fin (median_of ts))" using assms(1) by (simp add: timed_def has_statistics_def)
qed

lemma judge_timed:
  assumes "timed tid lo b iters r ts" and "percents (ta_rangePct args) (ta_acceptablePct args)" and "is_int (ta_clockAccuracy args)"
    and "ta_clockAccuracy args < lo" and "is_int (cnt + 1)"
  shows "\<exists>r'. judge args r cnt = Inr (meets (ta_acceptablePct args) r' \<or> cnt + 1 = ta_threshold args, r', if meets (ta_acceptablePct args) r' then cnt else cnt + 1)
    \<and> timed tid lo b iters r' ts \<and> workQuantum r' = workQuantum r"
proof -
  obtain r' where r': "checkStdDev r (ta_rangePct args) (ta_acceptablePct args) = Inr (meets (ta_acceptablePct args) r', r')"
    "timed tid lo b iters r' ts" "workQuantum r' = workQuantum r" using checkStdDev_timed [OF assms(1,2)] by blast
  with median_above [OF assms(1,3,4)] assms(5) show ?thesis by (intro exI [of _ r']) (simp add: judge_def chk_int_ok)
qed

lemma next_try_renews:
  assumes "run_ok (ta_iterations args) b" and "is_int (q * 2)"
  shows "\<exists>r'. next_try tid args q r = Inr (q * 2, r') \<and> fresh tid (ta_iterations args) r'"
proof -
  have "is_int (ta_iterations args)" "0 \<le> ta_iterations args" using assms(1) by (simp_all add: run_ok_def)
  from new_fresh [OF this, of tid] show ?thesis using assms(2) by (auto simp: next_try_def chk_int_ok)
qed

section \<open>The loop over a run that keeps the contract\<close>

locale cpp_body =
  fixes body :: "int \<Rightarrow> int \<Rightarrow> TestResults \<times> 'w \<Rightarrow> (int \<times> TestResults \<times> 'w) run"
    and ready :: "int \<Rightarrow> int \<Rightarrow> nat \<Rightarrow> 'w \<Rightarrow> bool"
    and settle :: "'w \<Rightarrow> 'w" and qmin :: int and qmax :: int
  assumes body_law: "qmin \<le> q \<Longrightarrow> q \<le> qmax \<Longrightarrow> ready lo b (nat iters + m) w \<Longrightarrow> run_ok iters b \<Longrightarrow> fresh tid iters r
    \<Longrightarrow> \<exists>ts r' w'. body iters q (r, w) = Some (Inr (0, r', w')) \<and> timed tid lo b iters r' ts \<and> ready lo b m w'"
    and settle_law: "ready lo b n w \<Longrightarrow> ready lo b n (settle w)"
    and quantum_range: "0 < qmin" "qmax \<le> INT_MAX"
begin

lemma ends_within_threshold:
  assumes "percents (ta_rangePct args) (ta_acceptablePct args)" and "is_int (ta_clockAccuracy args)" "ta_clockAccuracy args < lo"
    and "run_ok (ta_iterations args) b" and "is_int (ta_threshold args)"
    and "qmin \<le> q" "q * 2 ^ nat (ta_threshold args - 1 - cnt) \<le> qmax" and "0 \<le> cnt" "cnt < ta_threshold args"
    and "ready lo b (nat (ta_threshold args - cnt) * nat (ta_iterations args)) w" and "fresh tid (ta_iterations args) r"
    and renews: "\<And>q r ts. is_int (q * 2) \<Longrightarrow> timed tid lo b (ta_iterations args) r ts \<Longrightarrow> \<exists>r'. next_num q r = Inr (q * 2, r') \<and> fresh tid (ta_iterations args) r'"
  shows "\<exists>k ts r' w'. cpp_loop (body (ta_iterations args)) (judge args) next_num settle q cnt (r, w) = Some (Inr (0, q * 2 ^ k, r', w'))
    \<and> int k < ta_threshold args - cnt \<and> timed tid lo b (ta_iterations args) r' ts
    \<and> (meets (ta_acceptablePct args) r' \<or> int k = ta_threshold args - 1 - cnt)"
  using assms(6-11)
proof (induction "nat (ta_threshold args - cnt)" arbitrary: q cnt r w)
  case 0
  then show ?case by simp
next
  case (Suc n)
  let ?t = "ta_threshold args" and ?i = "ta_iterations args"
  have q: "0 < q" using Suc.prems(1) quantum_range by simp
  have "q \<le> q * 2 ^ nat (?t - 1 - cnt)" using q by simp
  then have "q \<le> qmax" using Suc.prems(2) by simp
  have "nat (?t - cnt) = Suc (nat (?t - (cnt + 1)))" using Suc.prems(4) by linarith
  then have "ready lo b (nat ?i + nat (?t - (cnt + 1)) * nat ?i) w" using Suc.prems(5) by simp
  from body_law [OF Suc.prems(1) \<open>q \<le> qmax\<close> this assms(4) Suc.prems(6)]
  obtain ts r1 w1 where r1: "body ?i q (r, w) = Some (Inr (0, r1, w1))" "timed tid lo b ?i r1 ts"
    "ready lo b (nat (?t - (cnt + 1)) * nat ?i) w1" by blast
  have "is_int (cnt + 1)" using Suc.prems(3,4) assms(5) by (simp add: is_int_def)
  then obtain r2 where r2: "judge args r1 cnt = Inr (meets (ta_acceptablePct args) r2 \<or> cnt + 1 = ?t, r2, if meets (ta_acceptablePct args) r2 then cnt else cnt + 1)"
    "timed tid lo b ?i r2 ts" using judge_timed [OF r1(2) assms(1-3)] by blast
  show ?case
  proof (cases "meets (ta_acceptablePct args) r2 \<or> cnt + 1 = ?t")
    case True
    with r1 r2 Suc.prems(4) show ?thesis
      by (intro exI [of _ 0] exI [of _ ts] exI [of _ r2] exI [of _ w1]) (auto simp: cpp_loop.simps)
  next
    case False
    have "nat (?t - 1 - cnt) = Suc (nat (?t - 1 - (cnt + 1)))" using False Suc.prems(4) by linarith
    then have q2: "q * 2 * 2 ^ nat (?t - 1 - (cnt + 1)) \<le> qmax" using Suc.prems(2) by simp
    moreover have "q * 2 \<le> q * 2 * 2 ^ nat (?t - 1 - (cnt + 1))" using q by simp
    ultimately have "is_int (q * 2)" using quantum_range q unfolding is_int_def by linarith
    then obtain r3 where r3: "next_num q r2 = Inr (q * 2, r3)" "fresh tid ?i r3" using renews [OF _ r2(2)] by blast
    have "n = nat (?t - (cnt + 1))" "qmin \<le> q * 2" using Suc.hyps(2) Suc.prems(1) q by simp_all
    from Suc.hyps(1) [OF this(1) this(2) q2 _ _ settle_law [OF r1(3)] r3(2)] False Suc.prems(3,4)
    obtain k ts' r' w' where "cpp_loop (body ?i) (judge args) next_num settle (q * 2) (cnt + 1) (r3, settle w1) = Some (Inr (0, q * 2 * 2 ^ k, r', w'))"
      "int k < ?t - (cnt + 1)" "timed tid lo b ?i r' ts'" "meets (ta_acceptablePct args) r' \<or> int k = ?t - 1 - (cnt + 1)" by auto
    then show ?thesis using False r1(1) r2(1) r3(1)
      by (intro exI [of _ "Suc k"] exI [of _ ts'] exI [of _ r'] exI [of _ w']) (auto simp: cpp_loop.simps)
  qed
qed

end

section \<open>The tests rest on the loop\<close>

text \<open>The table of a test has been entered under its identifier; the other tests are unchanged.\<close>

definition entered_as :: "testIds \<Rightarrow> TestResults \<Rightarrow> ResultTable \<Rightarrow> ResultTable \<Rightarrow> bool" where
  "entered_as tid r t t' \<longleftrightarrow> table_entries_ok t' \<and> (\<not> has_id t tid \<longrightarrow> getTestResultsByTestID t' tid = Inr (Some [r]))
     \<and> (\<forall>j. j \<noteq> tid \<longrightarrow> getTestResultsByTestID t' j = getTestResultsByTestID t j)"

definition setup_ok :: "int \<Rightarrow> CmdLineParams \<Rightarrow> RealTimeValues \<Rightarrow> cenv \<Rightarrow> int \<Rightarrow> int \<Rightarrow> bool" where
  "setup_ok b cl rtValues env n acc \<longleftrightarrow> ce_spawn env \<and> table_entries_ok (ce_table env) \<and> new_iters cl rtValues (ce_info env) = Inr n
     \<and> run_ok n b \<and> getClockAccuracy (ce_table env) = Inr acc \<and> is_int acc \<and> is_int (testThreshold (ce_info env))
     \<and> Fin 0 < rangePct rtValues \<and> acceptablePct rtValues < Fin 100"

lemma default_percentage: "\<exists>v a. rnd64 (999 / 10) = Fin v \<and> 0 < v \<and> to_f32 (Fin v) = Fin a \<and> 0 < a \<and> a < 100"
proof -
  have r: "representable 53 (-1022) (of_int 99 / 2 ^ 0)" "representable 53 (-1022) (of_int 1599 / 2 ^ 4)"
    "representable 24 (-126) (of_int 99 / 2 ^ 0)" "representable 24 (-126) (of_int 1599 / 2 ^ 4)" by (rule representable_scale; simp)+
  then obtain v where v: "rnd64 (999 / 10) = Fin v" "99 \<le> v" "v \<le> 1599 / 16" using rnd64_between [of 99 "1599 / 16" "999 / 10"] by auto
  define u where "u = roundv 24 (-126) v"
  have u: "99 \<le> u" "u \<le> 1599 / 16" using roundv_ge [of 24 99 v] roundv_le [of 24 v "1599 / 16"] r v by (simp_all add: u_def)
  have "(100::rat) < 2 powi 128" by simp
  with u have "\<bar>u\<bar> < 2 powi 128" by linarith
  then have "rnd32 v = Fin u" by (simp add: rnd32_def u_def [symmetric] pack_Fin)
  with v u show ?thesis by (intro exI [of _ v] exI [of _ u]) simp
qed

lemma args_percents:
  assumes "Fin 0 < rangePct rt" and "acceptablePct rt < Fin 100"
  shows "percents (ta_rangePct (new_RTThreadArgs n thr rt acc)) (ta_acceptablePct (new_RTThreadArgs n thr rt acc))"
  using default_percentage assms
  by (cases "rangePct rt"; cases "acceptablePct rt") (auto simp: new_RTThreadArgs_def percents_def f64_cmp simp del: to_f32.simps)

lemma new_args:
  "ta_threshold (new_RTThreadArgs n thr rt acc) = thr" "ta_iterations (new_RTThreadArgs n thr rt acc) = n"
  "is_int acc \<Longrightarrow> ta_clockAccuracy (new_RTThreadArgs n thr rt acc) = acc"
  "ta_rangePct (new_RTThreadArgs n thr rt acc) = ta_rangePct (new_RTThreadArgs n 0 rt acc)"
  "ta_acceptablePct (new_RTThreadArgs n thr rt acc) = ta_acceptablePct (new_RTThreadArgs n 0 rt acc)"
  by (simp_all add: new_RTThreadArgs_def)

lemma prepare_ok:
  assumes "setup_ok b cl rt env n acc"
  shows "\<exists>r. prepare cl rt tid env = Inr (env\<lparr>ce_info := (ce_info env)\<lparr>numIterations := n\<rparr>\<rparr>,
      new_RTThreadArgs n (testThreshold (ce_info env)) rt acc, r) \<and> fresh tid n r"
proof -
  have "is_int n" "0 \<le> n" using assms by (simp_all add: setup_ok_def run_ok_def)
  from new_fresh [OF this, of tid] show ?thesis using assms by (auto simp: prepare_def setup_ok_def)
qed

lemma meets_quantum [simp]: "meets a (r\<lparr>workQuantum := n\<rparr>) = meets a r"
  by (simp add: meets_def)

lemma timed_entered:
  assumes "timed tid lo b n r ts" and "table_entries_ok t"
  shows "\<exists>t'. addResult pw t info [r] pass = Inr t' \<and> entered_as tid r t t'"
proof -
  have r: "holds r ts" "has_statistics r ts" "ts \<noteq> []" "times_ok b ts" "testId r = Some tid" using assms(1) by (simp_all add: timed_def)
  obtain t' where "addResult pw t info [r] pass = Inr t'" "table_entries_ok t'" "\<forall>j. j \<noteq> tid \<longrightarrow> getTestResultsByTestID t' j = getTestResultsByTestID t j"
    "\<not> has_id t tid \<longrightarrow> getTestResultsByTestID t' tid = Inr (Some [r])"
    using addResult_ok [OF assms(2) r, of pw info pass] by (elim exE conjE) (rule that; assumption)
  then show ?thesis by (auto simp: entered_as_def)
qed

text \<open>A test whose runs keep the contract: its work quantum is \<open>step\<close> times the number of the last run.\<close>

locale cpp_config = cpp_body body ready "apsnd tidy" qmin qmax
  for body :: runs and ready :: "int \<Rightarrow> int \<Rightarrow> nat \<Rightarrow> readings \<times> world \<Rightarrow> bool" and tidy :: "world \<Rightarrow> world" and qmin :: int and qmax :: int +
  fixes amount :: "int \<Rightarrow> int res" and step :: int
  assumes quantum_law: "qmin \<le> q \<Longrightarrow> q \<le> qmax \<Longrightarrow> amount q = Inr (step * q)"
begin

lemma config_test_ends:
  assumes "setup_ok b cl rt env n acc" and "acc < lo" and "1 \<le> testThreshold (ce_info env)"
    and "qmin \<le> num" "num * 2 ^ nat (testThreshold (ce_info env) - 1) \<le> qmax"
    and "ready lo b (nat (testThreshold (ce_info env)) * nat n) ((None, None), ce_world env)"
  shows "\<exists>k ts r env'. config_rate_test pw tid (config_impl tid num body tidy amount) cl rt env = Some (Inr (True, env'))
    \<and> entered_as tid r (ce_table env) (ce_table env') \<and> workQuantum r = step * (num * 2 ^ k) \<and> int k < testThreshold (ce_info env)
    \<and> timed tid lo b n r ts
    \<and> (meets (ta_acceptablePct (new_RTThreadArgs n 0 rt acc)) r \<or> int k = testThreshold (ce_info env) - 1)"
proof -
  let ?thr = "testThreshold (ce_info env)" and ?env = "env\<lparr>ce_info := (ce_info env)\<lparr>numIterations := n\<rparr>\<rparr>"
  define args where "args = new_RTThreadArgs n ?thr rt acc"
  obtain r0 where r0: "prepare cl rt tid env = Inr (?env, args, r0)" "fresh tid n r0"
    using prepare_ok [OF assms(1), of tid] by (auto simp: args_def)
  have ok: "ce_spawn env" "table_entries_ok (ce_table env)" "run_ok n b" "is_int acc" "is_int ?thr"
    "percents (ta_rangePct args) (ta_acceptablePct args)" "ta_clockAccuracy args = acc" "ta_iterations args = n" "ta_threshold args = ?thr"
    using assms(1) args_percents by (simp_all add: setup_ok_def args_def new_args(1-3))
  have pct: "ta_acceptablePct args = ta_acceptablePct (new_RTThreadArgs n 0 rt acc)" unfolding args_def by (rule new_args(5))
  have c: "ready lo b (nat (?thr - 0) * nat n) ((None, None), ce_world env)" using assms(6) by simp
  have renew: "is_int (q * 2) \<Longrightarrow> \<exists>r'. next_try tid args q r = Inr (q * 2, r') \<and> fresh tid n r'" for q r
    using next_try_renews [of args b q tid r] ok by simp
  have "\<exists>k ts r' w'. cpp_loop (body (ta_iterations args)) (judge args) (next_try tid args) (apsnd tidy) num 0
      (r0, (None, None), ce_world env) = Some (Inr (0, num * 2 ^ k, r', w'))
    \<and> int k < ta_threshold args - 0 \<and> timed tid lo b (ta_iterations args) r' ts
    \<and> (meets (ta_acceptablePct args) r' \<or> int k = ta_threshold args - 1 - 0)"
    by (rule ends_within_threshold [where tid = tid]) (use ok r0(2) c assms(2-5) renew in simp_all)
  then obtain k ts r1 s where r1: "cpp_loop (body n) (judge args) (next_try tid args) (apsnd tidy) num 0
      (r0, (None, None), ce_world env) = Some (Inr (0, num * 2 ^ k, r1, s))"
    "int k < ?thr" "timed tid lo b n r1 ts" "meets (ta_acceptablePct (new_RTThreadArgs n 0 rt acc)) r1 \<or> int k = ?thr - 1"
    unfolding ok pct diff_0_right by (elim exE conjE) (rule that; assumption)
  obtain rd w where "s = (rd, w)" by (cases s)
  note r1 = r1 [unfolded this]
  have "0 < num" using assms(4) quantum_range by simp
  moreover have "(2::int) ^ k \<le> 2 ^ nat (?thr - 1)" using r1(2) by (intro power_increasing) auto
  ultimately have "num * 2 ^ k \<le> num * 2 ^ nat (?thr - 1)" "num * 1 \<le> num * 2 ^ k" by (intro mult_left_mono; simp)+
  then have amount: "amount (num * 2 ^ k) = Inr (step * (num * 2 ^ k))" using assms(4,5) by (intro quantum_law) simp_all
  let ?r = "r1\<lparr>workQuantum := step * (num * 2 ^ k)\<rparr>"
  have "timed tid lo b n ?r ts" using r1(3) by simp
  from timed_entered [OF this ok(2), of pw "ce_info ?env" True]
  obtain t' where "addResult pw (ce_table env) (ce_info ?env) [?r] True = Inr t'" "entered_as tid ?r (ce_table env) t'" by blast
  with r0(1) r1 ok amount show ?thesis
    by (intro exI [of _ k] exI [of _ ts] exI [of _ ?r] exI [of _ "?env\<lparr>ce_table := t', ce_world := w\<rparr>"])
      (simp add: config_rate_test_def in_thread_def config_impl_def)
qed

end

text \<open>Work between two readings of the clock keeps the contract when it is quiet.\<close>

lemma timed_runs_law:
  assumes "works_in J (work q)" and "clocked J lo b (nat iters + m) w" "run_ok iters b" "fresh tid iters r"
  shows "\<exists>ts r' w'. timed_runs work iters q (r, w) = Some (Inr (0, r', w')) \<and> timed tid lo b iters r' ts \<and> clocked J lo b m w'"
  unfolding timed_runs_def by (rule iterate_timed [OF cpp_step_records [OF assms(1)] assms(2-4)])

interpretation cpp_int: cpp_config "timed_runs int_oper_work" "clocked (\<lambda>_. True)" id 1 2600000 Inr 1
  by (unfold_locales, rule timed_runs_law) (auto intro: quiet_works_in int_oper_work_quiet)

interpretation cpp_cache: cpp_config "timed_runs cache_work" "clocked (\<lambda>_. True)" id 4098 INT_MAX Inr 1
  by (unfold_locales, rule timed_runs_law) (simp_all add: quiet_works_in cache_work_quiet)

section \<open>The clock test\<close>

lemma reading_works: "works_in (\<lambda>_. True) (\<lambda>w. Some (Inr (0, w)))"
  by (simp add: works_in_def)

lemma runClockTest_timed:
  assumes "setup_ok b cl rt env n acc" and "fresh SYSCLOCK_ID n r" and "clock_steps lo b (nat n) w"
  shows "\<exists>ts r' w'. ClockConfigImpl (new_RTThreadArgs n thr rt acc) r w = Some (Inr (r', w'))
    \<and> timed SYSCLOCK_ID lo b n r' ts \<and> workQuantum r' = 100"
proof -
  let ?args = "new_RTThreadArgs n thr rt acc"
  have args: "percents (ta_rangePct ?args) (ta_acceptablePct ?args)" "run_ok n b" "ta_iterations ?args = n"
    using assms(1) args_percents by (simp_all add: setup_ok_def new_args(2))
  have "clocked (\<lambda>_. True) lo b (nat n + 0) ((None, None), w)" using assms(3) by (simp add: clocked_def)
  from iterate_timed [OF cpp_step_records [OF reading_works] this args(2) assms(2)]
  obtain ts r1 s where r1: "iterate (nat n) (cpp_step (\<lambda>w. Some (Inr (0, w)))) (r, (None, None), w) = Some (Inr (0, r1, s))"
    "timed SYSCLOCK_ID lo b n r1 ts" by blast
  obtain rd w1 where s: "s = (rd, w1)" by (cases s)
  obtain r2 where "checkStdDev r1 (ta_rangePct ?args) (ta_acceptablePct ?args) = Inr (meets (ta_acceptablePct ?args) r2, r2)"
    "timed SYSCLOCK_ID lo b n r2 ts" using checkStdDev_timed [OF r1(2) args(1)] by blast
  with r1(1) s args(3) show ?thesis
    by (intro exI [of _ "r2\<lparr>workQuantum := 100\<rparr>"] exI [of _ w1] exI [of _ ts]) (simp add: ClockConfigImpl_def runClockTest_def)
qed

section \<open>Properties\<close>

text \<open>
  C33: In the C++ implementation the integer rate and the memory cache test return \<^verbatim>\<open>true\<close> after fewer than \<^verbatim>\<open>_threshold\<close>
  doublings of their work when every iteration takes longer than the accuracy of the clock, for thresholds up to 15 and 9:
  their result is entered in the table under their identifier, the other results stay, and it holds the complete statistics
  of the last run, which met the pass criteria unless all attempts were used up.
\<close>

theorem cpp_rate_tests_end:
  assumes "setup_ok b cl rt env n acc" and "acc < lo" and "1 \<le> testThreshold (ce_info env)"
    and "(test, tid, num, most) \<in> {(int_rate_test pw, IRATE_ID, 100, 15), (mem_cache_test pw, MCACHE_ID, 4194304, 9)}"
    and "testThreshold (ce_info env) \<le> most"
    and "clock_steps lo b (nat (testThreshold (ce_info env)) * nat n) (ce_world env)"
  shows "\<exists>k ts r env'. test cl rt env = Some (Inr (True, env')) \<and> entered_as tid r (ce_table env) (ce_table env')
    \<and> workQuantum r = num * 2 ^ k \<and> int k < testThreshold (ce_info env) \<and> timed tid lo b n r ts
    \<and> (meets (ta_acceptablePct (new_RTThreadArgs n 0 rt acc)) r \<or> int k = testThreshold (ce_info env) - 1)"
proof -
  have p: "(2::int) ^ nat (testThreshold (ce_info env) - 1) \<le> 2 ^ nat (most - 1)" using assms(5) by (intro power_increasing) auto
  from assms(4) consider "test = int_rate_test pw" "tid = IRATE_ID" "num = 100" "most = 15"
    | "test = mem_cache_test pw" "tid = MCACHE_ID" "num = 4194304" "most = 9" by auto
  then show ?thesis
  proof cases
    case 1
    with p cpp_int.config_test_ends [OF assms(1-3), of num pw tid] assms(6) show ?thesis by (simp add: int_rate_test_def clocked_def)
  next
    case 2
    with p cpp_cache.config_test_ends [OF assms(1-3), of num pw tid] assms(6) show ?thesis by (simp add: mem_cache_test_def clocked_def)
  qed
qed

definition steady_info :: BenchMarkTestInfo where
  "steady_info = new_BenchMarkTestInfo\<lparr>numIterations := 3, testThreshold := 5\<rparr>"

definition steady_cenv :: cenv where
  "steady_cenv = \<lparr>ce_info = steady_info, ce_table = new_ResultTable, ce_world = steady_world, ce_spawn = True\<rparr>"

definition quick_params :: CmdLineParams where
  "quick_params = \<lparr>clVerbose = False, clVerboseLevel = 0, clRtMode = SOFT_RT, clFileName = [], clDirName = [], clBinDir = [], clQuickRun = True,
     clTestNames = []\<rparr>"

definition tenth_values :: RealTimeValues where
  "tenth_values = \<lparr>acceptablePct = Fin 90, rangePct = Fin 10, rtMultiplier = 1\<rparr>"

lemma no_clock_accuracy: "getClockAccuracy new_ResultTable = Inr (- 1)"
  by (simp add: getClockAccuracy_def front_of_id_def getTestResultsByTestID_def new_ResultTable_def)

lemma steady_setup: "setup_ok 50000 quick_params tenth_values steady_cenv 1 (- 1)"
  by (simp add: setup_ok_def steady_cenv_def new_table_ok new_iters_def quick_params_def run_ok_def is_int_def tenth_values_def
      steady_info_def new_BenchMarkTestInfo_def f64_cmp no_clock_accuracy)

theorem cpp_rate_tests_end_witness:
  "\<exists>k ts r env'. int_rate_test (\<lambda>x y. x) quick_params tenth_values steady_cenv = Some (Inr (True, env'))
    \<and> entered_as IRATE_ID r (ce_table steady_cenv) (ce_table env')
    \<and> workQuantum r = 100 * 2 ^ k \<and> int k < testThreshold (ce_info steady_cenv) \<and> timed IRATE_ID 50000 50000 1 r ts
    \<and> (meets (ta_acceptablePct (new_RTThreadArgs 1 0 tenth_values (- 1))) r \<or> int k = testThreshold (ce_info steady_cenv) - 1)"
  by (rule cpp_rate_tests_end [OF steady_setup, where pw = "\<lambda>x y. x" and most = 15])
    (simp_all add: steady_cenv_def steady_info_def steady_clock)

text \<open>
  The C++ clock test enters the statistics of the times between successive readings with a work quantum of 100; later tests
  then take twenty medians of them as the accuracy of the clock, and the test aborts exactly when that is not positive, that is, when
  the median reading shows no progress.
\<close>

lemma cpp_clock_test_result:
  assumes "setup_ok b cl rt env n acc" and "\<not> has_id (ce_table env) SYSCLOCK_ID" and "clock_steps lo b (nat n) (ce_world env)"
  shows "\<exists>ts r t a w. timed SYSCLOCK_ID lo b n r ts \<and> workQuantum r = 100 \<and> entered_as SYSCLOCK_ID r (ce_table env) t
    \<and> getClockAccuracy t = Inr a \<and> of_int a = 20 * median_of ts
    \<and> clock_config_test pw cl rt env = Some (if 0 < median_of ts
        then Inr (True, env\<lparr>ce_info := (ce_info env)\<lparr>numIterations := n\<rparr>, ce_table := t, ce_world := w\<rparr>) else Inl Assert_failed)"
proof -
  let ?info = "(ce_info env)\<lparr>numIterations := n\<rparr>" and ?args = "new_RTThreadArgs n (testThreshold (ce_info env)) rt acc"
  obtain r0 where r0: "prepare cl rt SYSCLOCK_ID env = Inr (env\<lparr>ce_info := ?info\<rparr>, ?args, r0)" "fresh SYSCLOCK_ID n r0"
    using prepare_ok [OF assms(1)] by blast
  obtain ts r w where r: "ClockConfigImpl ?args r0 (ce_world env) = Some (Inr (r, w))" "timed SYSCLOCK_ID lo b n r ts" "workQuantum r = 100"
    using runClockTest_timed [OF assms(1) r0(2) assms(3)] by blast
  have ok: "table_entries_ok (ce_table env)" "ce_spawn env" using assms(1) by (simp_all add: setup_ok_def)
  have ts: "holds r ts" "has_statistics r ts" "ts \<noteq> []" "times_ok b ts" "testId r = Some SYSCLOCK_ID" using r(2) by (simp_all add: timed_def)
  obtain t where t: "addResult pw (ce_table env) ?info [r] True = Inr t" "entered_as SYSCLOCK_ID r (ce_table env) t"
    using timed_entered [OF r(2) ok(1)] by blast
  moreover obtain a where a: "getClockAccuracy t = Inr a" "of_int a = 20 * median_of ts"
    using clock_accuracy_read_back [OF ok(1) assms(2) ts, of pw ?info True] t(1) by auto
  moreover have "0 < a \<longleftrightarrow> 0 < median_of ts"
  proof -
    have "0 < a \<longleftrightarrow> 0 < (of_int a :: rat)" by simp
    also have "\<dots> \<longleftrightarrow> 0 < median_of ts" unfolding a(2) by simp
    finally show ?thesis .
  qed
  ultimately show ?thesis using r r0 ok(2)
    by (intro exI [of _ ts] exI [of _ r] exI [of _ t] exI [of _ a] exI [of _ w]) (simp add: clock_config_test_def in_thread_def)
qed

lemma cpp_clock_test_result_witness:
  "\<exists>ts r t a w. timed SYSCLOCK_ID 50000 50000 1 r ts \<and> workQuantum r = 100 \<and> entered_as SYSCLOCK_ID r (ce_table steady_cenv) t
    \<and> getClockAccuracy t = Inr a \<and> of_int a = 20 * median_of ts
    \<and> clock_config_test (\<lambda>x y. x) quick_params tenth_values steady_cenv = Some (if 0 < median_of ts
        then Inr (True, steady_cenv\<lparr>ce_info := (ce_info steady_cenv)\<lparr>numIterations := 1\<rparr>, ce_table := t, ce_world := w\<rparr>) else Inl Assert_failed)"
  by (rule cpp_clock_test_result [OF steady_setup]) (simp_all add: steady_cenv_def new_table_ok steady_clock)

end
