(* ===== verification/Cpp_Timer.thy ===== *)
theory Cpp_Timer
  imports Cpp_Config
begin

text \<open>
  The C++ implementation, \<^verbatim>\<open>timer_config.cpp\<close>: the sleep is doubled until a run passes or the attempts are used up, then
  a binary search looks for the least sleep that passes.
\<close>

section \<open>The timer test\<close>

definition timer_work :: "int \<Rightarrow> world \<Rightarrow> (int \<times> world) run" where
  "timer_work num w = (case nanosleep w \<lparr>tv_sec = num sdiv 1000000000, tv_nsec = num smod 1000000000\<rparr> of
     (Slept, w) \<Rightarrow> Some (Inr (0, w)) | (_, w) \<Rightarrow> Some (Inl Abort_called))"

text \<open>The variables of the readings are local to a run.\<close>

definition runTimerTest :: "int \<Rightarrow> RTThreadArgs \<Rightarrow> TestResults \<times> world \<Rightarrow> (int \<times> TestResults \<times> world) run" where
  "runTimerTest num args = (\<lambda>(r, w).
     bind_run (iterate (nat (ta_iterations args)) (cpp_step (timer_work num)) (r, (None, None), w)) (\<lambda>(rc, r, rd, w).
       Some (Inr (0, r\<lparr>workQuantum := num\<rparr>, w))))"

definition first_sleep :: "int \<Rightarrow> int" where
  "first_sleep clockAccuracy = (if clockAccuracy sdiv 2 < 2000 then (let num = clockAccuracy sdiv 2 in if num = 0 then 1 else num) else 2000)"

text \<open>
  The doubling loop: whether the test passed, the last quantum, and the quantum before it, which is indeterminate until a run
  was judged and failed.
\<close>

partial_function (option) timer_doubling ::
  "RTThreadArgs \<Rightarrow> int \<Rightarrow> int option \<Rightarrow> int \<Rightarrow> TestResults \<times> world \<Rightarrow> (bool \<times> int \<times> int option \<times> TestResults \<times> world) run" where
  "timer_doubling args num previousQuantum cnt s = (case runTimerTest num args s of None \<Rightarrow> None
     | Some (Inl e) \<Rightarrow> Some (Inl e)
     | Some (Inr (rc, r, w)) \<Rightarrow> (case init_value (medianT r) of Inl e \<Rightarrow> Some (Inl e)
       | Inr med \<Rightarrow> (case (if of_ll (ta_clockAccuracy args) \<le> med
             then bind_res (checkStdDev r (ta_rangePct args) (ta_acceptablePct args)) (\<lambda>(ok, r).
               if ok then Inr (Some True, r, cnt, previousQuantum)
               else bind_res (chk_int (cnt + 1)) (\<lambda>cnt. Inr (if cnt = ta_threshold args then Some False else None, r, cnt, Some num)))
             else Inr (None, r, cnt, previousQuantum)) of Inl e \<Rightarrow> Some (Inl e)
         | Inr (fin, r, cnt, prev) \<Rightarrow> (case fin of
             Some ok \<Rightarrow> Some (Inr (ok, num, previousQuantum, r, w))
           | None \<Rightarrow> (case bind_res (chk_int (num * 2)) (\<lambda>num. bind_res (new_TestResults SYSTIMER_ID (ta_iterations args)) (\<lambda>r. Inr (num, r))) of
               Inl e \<Rightarrow> Some (Inl e)
             | Inr (num, r) \<Rightarrow> timer_doubling args num prev cnt (r, w))))))"

text \<open>The binary search for the least sleep that passes.\<close>

partial_function (option) timer_halving ::
  "RTThreadArgs \<Rightarrow> int \<Rightarrow> int \<Rightarrow> TestResults \<Rightarrow> TestResults \<times> world \<Rightarrow> (TestResults \<times> world) run" where
  "timer_halving args startQuantum lastQuantum passedResult s = (if startQuantum \<le> lastQuantum then
     (case bind_res (chk_int (startQuantum + lastQuantum)) (\<lambda>n. div_int n 2) of Inl e \<Rightarrow> Some (Inl e)
     | Inr mid \<Rightarrow> (case runTimerTest mid args (removeOldValues (fst s), snd s) of None \<Rightarrow> None | Some (Inl e) \<Rightarrow> Some (Inl e)
       | Some (Inr (rc, r, w)) \<Rightarrow> (case bind_res (checkStdDev r (ta_rangePct args) (ta_acceptablePct args)) (\<lambda>(ok, r).
             bind_res (init_value (medianT r)) (\<lambda>med. Inr (ok \<and> of_ll (ta_clockAccuracy args) < med, r))) of Inl e \<Rightarrow> Some (Inl e)
         | Inr (ok, r) \<Rightarrow> if ok
             then (case bind_res (chk_int (mid - 1)) (\<lambda>lastQ. bind_res (new_TestResults SYSTIMER_ID (ta_iterations args)) (\<lambda>p.
                 bind_res (cloneValues p r) (\<lambda>p. Inr (lastQ, p)))) of Inl e \<Rightarrow> Some (Inl e)
               | Inr (lastQ, p) \<Rightarrow> timer_halving args startQuantum lastQ p (r, w))
             else (case chk_int (mid + 1) of Inl e \<Rightarrow> Some (Inl e)
               | Inr start \<Rightarrow> timer_halving args start lastQuantum passedResult (r, w)))))
     else Some (Inr (passedResult, snd s)))"

definition TimerConfigImpl :: "RTThreadArgs \<Rightarrow> TestResults \<Rightarrow> world \<Rightarrow> (TestResults \<times> world) run" where
  "TimerConfigImpl args r w = bind_run (timer_doubling args (first_sleep (ta_clockAccuracy args)) None 0 (r, w))
     (\<lambda>(testStatus, num, previousQuantum, r, w). if testStatus
       then bind_run (Some (bind_res (new_TestResults SYSTIMER_ID (ta_iterations args)) (\<lambda>p. cloneValues p r))) (\<lambda>passedResult.
         bind_run (Some (init_value previousQuantum)) (\<lambda>startQuantum. timer_halving args startQuantum num passedResult (r, w)))
       else Some (Inr (r, w)))"

definition timer_config_test :: "(f64 \<Rightarrow> f64 \<Rightarrow> f64) \<Rightarrow> cpp_test" where
  "timer_config_test pw = config_rate_test pw SYSTIMER_ID TimerConfigImpl"

section \<open>A timer that sleeps\<close>

definition sleeps :: "world \<Rightarrow> bool" where
  "sleeps w \<longleftrightarrow> (\<forall>k rq. nsl w k rq = Slept)"

lemma timer_works: "works_in sleeps (timer_work num)"
  by (auto simp: works_in_def sleeps_def timer_work_def nanosleep_def)

lemma runTimerTest_timed:
  assumes "clock_steps lo b (nat (ta_iterations args) + m) w" and "sleeps w" and "run_ok (ta_iterations args) b" and "fresh tid (ta_iterations args) r"
  shows "\<exists>ts r' w'. runTimerTest num args (r, w) = Some (Inr (0, r', w')) \<and> timed tid lo b (ta_iterations args) r' ts
    \<and> workQuantum r' = num \<and> clock_steps lo b m w' \<and> sleeps w'"
proof -
  have "clocked sleeps lo b (nat (ta_iterations args) + m) ((None, None), w)" using assms(1,2) by (simp add: clocked_def)
  from iterate_timed [OF cpp_step_records [OF timer_works] this assms(3,4)]
  obtain ts r1 s where r1: "iterate (nat (ta_iterations args)) (cpp_step (timer_work num)) (r, (None, None), w) = Some (Inr (0, r1, s))"
    "timed tid lo b (ta_iterations args) r1 ts" "clocked sleeps lo b m s" by blast
  obtain rd w1 where "s = (rd, w1)" by (cases s)
  with r1 show ?thesis
    by (intro exI [of _ ts] exI [of _ "r1\<lparr>workQuantum := num\<rparr>"] exI [of _ w1]) (simp add: runTimerTest_def clocked_def)
qed

lemma removed_fresh: "timed tid lo b n r ts \<Longrightarrow> fresh tid n (removeOldValues r)"
  using removed_holds by (auto simp: timed_def fresh_def)

lemma clone_timed:
  assumes "timed tid lo b n r ts" and "fresh tid n p"
  shows "\<exists>p'. cloneValues p r = Inr p' \<and> timed tid lo b n p' ts \<and> workQuantum p' = workQuantum r \<and> meets a p' = meets a r
    \<and> medianT p' = medianT r"
proof -
  have "holds r ts" "holds p []" "room p = room r" using assms by (simp_all add: timed_def fresh_def)
  from cloneValues_ok [OF this] obtain p' where p': "cloneValues p r = Inr p'" "holds p' ts" "p' = r\<lparr>vals := vals p'\<rparr>" by blast
  have f: "mean p' = mean r" "medianT p' = medianT r" "stdDev p' = stdDev r" "maxEntries p' = maxEntries r" "testId p' = testId r"
    "workQuantum p' = workQuantum r" "entries p' = entries r" "conformingIters p' = conformingIters r" by (subst p'(3); simp)+
  from p'(1,2) assms(1) show ?thesis unfolding timed_def has_statistics_def room_def meets_def by (intro exI [of _ p']) (simp only: f simp_thms, simp)
qed

section \<open>The binary search\<close>

text \<open>What the search returns: the result it started with, or a run that met the criteria with a sleep inside the interval.\<close>

definition found :: "int \<Rightarrow> int \<Rightarrow> RTThreadArgs \<Rightarrow> int \<Rightarrow> int \<Rightarrow> TestResults \<Rightarrow> TestResults \<Rightarrow> bool" where
  "found lo b args start stop kept r \<longleftrightarrow> r = kept \<or> (\<exists>ts. timed SYSTIMER_ID lo b (ta_iterations args) r ts \<and> meets (ta_acceptablePct args) r
     \<and> of_ll (ta_clockAccuracy args) < Fin (median_of ts) \<and> start \<le> workQuantum r \<and> workQuantum r \<le> stop)"

lemma mid_quantum:
  assumes "0 \<le> start" and "start \<le> stop" and "2 * stop \<le> INT_MAX"
  shows "bind_res (chk_int (start + stop)) (\<lambda>n. div_int n 2) = Inr ((start + stop) div 2)"
    and "start \<le> (start + stop) div 2" and "(start + stop) div 2 \<le> stop"
    and "is_int ((start + stop) div 2 - 1)" and "is_int ((start + stop) div 2 + 1)"
proof -
  have i: "is_int (start + stop)" "is_int ((start + stop) div 2)" using assms by (auto simp: is_int_def)
  then show "bind_res (chk_int (start + stop)) (\<lambda>n. div_int n 2) = Inr ((start + stop) div 2)"
    using assms by (simp add: chk_int_ok div_int_def sdiv_nonneg_eq)
  show "start \<le> (start + stop) div 2" "(start + stop) div 2 \<le> stop" using assms by linarith+
  then show "is_int ((start + stop) div 2 - 1)" "is_int ((start + stop) div 2 + 1)"
    using assms unfolding is_int_def by linarith+
qed

lemma timer_halving_finds:
  assumes "percents (ta_rangePct args) (ta_acceptablePct args)" and "run_ok (ta_iterations args) b"
    and "0 \<le> start" and "2 * stop \<le> INT_MAX" and "stop - start + 1 < 2 ^ s"
    and "clock_steps lo b (s * nat (ta_iterations args)) w" and "sleeps w" and "timed SYSTIMER_ID lo b (ta_iterations args) r ts"
  shows "\<exists>r' w'. timer_halving args start stop kept (r, w) = Some (Inr (r', w')) \<and> found lo b args start stop kept r'"
  using assms(3-)
proof (induction s arbitrary: start stop kept r w ts)
  case 0
  then show ?case by (intro exI [of _ kept] exI [of _ w]) (simp add: timer_halving.simps found_def)
next
  case (Suc s)
  let ?n = "ta_iterations args" and ?a = "ta_acceptablePct args" and ?mid = "(start + stop) div 2"
  show ?case
  proof (cases "start \<le> stop")
    case False
    then show ?thesis by (intro exI [of _ kept] exI [of _ w]) (simp add: timer_halving.simps found_def)
  next
    case True
    note mid = mid_quantum [OF Suc.prems(1) True Suc.prems(2)]
    have w: "clock_steps lo b (nat ?n + s * nat ?n) w" using Suc.prems(4) by simp
    obtain ts1 r1 w1 where r1: "runTimerTest ?mid args (removeOldValues r, w) = Some (Inr (0, r1, w1))" "timed SYSTIMER_ID lo b ?n r1 ts1"
      "workQuantum r1 = ?mid" "clock_steps lo b (s * nat ?n) w1" "sleeps w1"
      using runTimerTest_timed [OF w Suc.prems(5) assms(2) removed_fresh [OF Suc.prems(6)]] by blast
    obtain r2 where r2: "checkStdDev r1 (ta_rangePct args) ?a = Inr (meets ?a r2, r2)" "timed SYSTIMER_ID lo b ?n r2 ts1" "workQuantum r2 = ?mid"
      using checkStdDev_timed [OF r1(2) assms(1)] r1(3) by auto
    have med: "medianT r2 = Some (Fin (median_of ts1))" using r2(2) by (simp add: timed_def has_statistics_def)
    let ?ok = "meets ?a r2 \<and> of_ll (ta_clockAccuracy args) < Fin (median_of ts1)"
    show ?thesis
    proof (cases ?ok)
      case False
      have half: "0 \<le> ?mid + 1" "stop - (?mid + 1) + 1 < 2 ^ s" using Suc.prems(1,3) mid(2) by simp_all
      obtain r' w' where "timer_halving args (?mid + 1) stop kept (r2, w1) = Some (Inr (r', w'))" "found lo b args (?mid + 1) stop kept r'"
        using Suc.IH [OF half(1) Suc.prems(2) half(2) r1(4,5) r2(2)] by blast
      with True False mid r1(1) r2(1) med show ?thesis
        by (intro exI [of _ r'] exI [of _ w']) (auto simp: timer_halving.simps [of args start] chk_int_ok found_def)
    next
      case ok: True
      have n: "is_int ?n" "0 \<le> ?n" using assms(2) by (simp_all add: run_ok_def)
      obtain p where p: "new_TestResults SYSTIMER_ID ?n = Inr p" "fresh SYSTIMER_ID ?n p" using new_fresh [OF n] by blast
      obtain p' where p': "cloneValues p r2 = Inr p'" "timed SYSTIMER_ID lo b ?n p' ts1" "workQuantum p' = ?mid" "meets ?a p'"
        using clone_timed [OF r2(2) p(2), of ?a] r2(3) ok by auto
      have half: "2 * (?mid - 1) \<le> INT_MAX" "?mid - 1 - start + 1 < 2 ^ s" using Suc.prems(1,2,3) mid(3) by simp_all
      obtain r' w' where "timer_halving args start (?mid - 1) p' (r2, w1) = Some (Inr (r', w'))" "found lo b args start (?mid - 1) p' r'"
        using Suc.IH [OF Suc.prems(1) half r1(4,5) r2(2)] by blast
      with True ok mid r1(1) r2(1) med p(1) p' show ?thesis
        by (intro exI [of _ r'] exI [of _ w']) (auto simp: timer_halving.simps [of args start] chk_int_ok found_def)
    qed
  qed
qed

section \<open>Equal times\<close>

text \<open>Equal times lie within the limits around their median.\<close>

lemma f64_le_not_less: "(x :: f64) \<le> y \<Longrightarrow> \<not> y < x"
  by (cases x; cases y) (auto simp: f64_cmp)

lemma within_limits:
  assumes "0 \<le> t" and "t \<le> 2 ^ 53" and "Fin 0 < rng" and "rng < Fin 100"
  shows "\<not> outlying (lower_limit (Fin (of_int t)) rng) (upper_limit (Fin (of_int t)) rng) t"
proof -
  obtain x where x: "rng = Fin x" "0 < x" "x < 100" using assms(3,4) by (cases rng) (auto simp: f64_cmp)
  obtain p where p: "rnd64 (x / 100) = Fin p" "0 \<le> p" "p \<le> 1"
    using rnd64_nonneg_le [of "x / 100" 1] representable64_int [of 1] x by auto
  obtain u where u: "rnd64 (1 + p) = Fin u" "1 \<le> u"
    using rnd64_between [of 1 2 "1 + p"] representable64_int [of 1] representable64_int [of 2] p by auto
  obtain v where v: "rnd64 (1 - p) = Fin v" "v \<le> 1"
    using rnd64_between [of 0 1 "1 - p"] representable64_int [of 0] representable64_int [of 1] p by auto
  have t: "rnd64 (of_int t) = Fin (of_int t)" "of_ll t = Fin (of_int t)" using assms(1,2) by (simp_all add: rnd64_exact of_ll_def)
  have "of_int t \<le> (of_int t :: rat) * u" "of_int t * v \<le> (of_int t :: rat)" using assms(1) u(2) v(2) by (simp_all add: mult_left_le mult_le_cancel_left1)
  then have "rnd64 (of_int t) \<le> rnd64 (of_int t * u)" "rnd64 (of_int t * v) \<le> rnd64 (of_int t)" by (intro rnd64_mono; simp)+
  then have "Fin (of_int t) \<le> Fin (of_int t) * Fin u" "Fin (of_int t) * Fin v \<le> Fin (of_int t)" by (simp_all add: t(1))
  moreover have "upper_limit (Fin (of_int t)) rng = Fin (of_int t) * Fin u" "lower_limit (Fin (of_int t)) rng = Fin (of_int t) * Fin v"
    using p(1) u(1) v(1) by (simp_all add: upper_limit_def lower_limit_def x(1))
  ultimately show ?thesis unfolding outlying_def t(2) by (auto dest: f64_le_not_less)
qed

lemma equal_times:
  assumes "\<forall>v \<in> set ts. t \<le> v \<and> v \<le> t" and "ts \<noteq> []" and "0 \<le> t"
  shows "ts = replicate (length ts) t" and "median_of ts = of_int t"
proof -
  have "\<forall>v \<in> set ts. v = t" using assms(1) by force
  then show "ts = replicate (length ts) t" using replicate_length_same [of ts t] by simp
  show "median_of ts = of_int t" using median_between [of ts t] median_of_ge [of ts t] assms by (force simp: le_floor_iff)
qed

lemma steady_meets:
  assumes "0 < m" "is_int (int m)" and "percents rng a" and "0 \<le> t" "t \<le> 2 ^ 53"
  shows "times_meet rng a (replicate m t)"
proof -
  have med: "median_of (replicate m t) = of_int t" using assms(1,4) by (intro equal_times(2)) auto
  have "Fin 0 < rng" "rng < Fin 100" using assms(3) by (simp_all add: percents_def)
  from within_limits [OF assms(4,5) this]
  have "conforming (lower_limit (Fin (of_int t)) rng) (upper_limit (Fin (of_int t)) rng) (replicate m t) = int m"
    unfolding conforming_def by simp
  moreover obtain x where x: "a = Fin x" "0 < x" "x < 100" using assms(3) by (cases a) (auto simp: percents_def f64_cmp)
  moreover obtain k where "f64_to_int (Fin x / Fin 100 * of_ll (int m)) = Inr k" "k \<le> int m"
    using acceptable_bounds [of "int m" x] x assms(2) by auto
  ultimately show ?thesis by (simp add: times_meet_def med)
qed

section \<open>The first run that is judged\<close>

definition after_reading :: "int \<Rightarrow> readings \<times> world \<Rightarrow> readings \<times> world" where
  "after_reading q s = ((clk (snd s) (clk_n (snd s)), clk (snd s) (Suc (clk_n (snd s)))), sleep_once (sleep_for q) (snd s))"

definition reading_time :: "readings \<times> world \<Rightarrow> int" where
  "reading_time s = ts_nsec (the (clk (snd s) (Suc (clk_n (snd s))))) - ts_nsec (the (clk (snd s) (clk_n (snd s))))"

lemma after_readings: "snd ((after_reading q ^^ i) s) = (sleep_once (sleep_for q) ^^ i) (snd s)"
  by (induction i) (simp_all add: after_reading_def)

lemma timer_step_times:
  assumes "clocked sleeps lo b (Suc n) s"
  shows "in_range lo b (reading_time s) \<and> clocked sleeps lo b n (after_reading q s)
    \<and> cpp_step (timer_work q) (r, s) = Some (bind_res (setValuesAtNextIndex r (reading_time s)) (\<lambda>r. Inr (0, r, after_reading q s)))"
proof -
  obtain u v w where s: "s = ((u, v), w)" by (metis prod.exhaust)
  have c: "clock_steps lo b (Suc n) w" "sleeps w" using assms by (simp_all add: clocked_def s)
  obtain st en where se: "clk w (clk_n w) = Some st" "clk w (Suc (clk_n w)) = Some en"
    "get_time_diff st en = Inr (ts_nsec en - ts_nsec st)" "in_range lo b (ts_nsec en - ts_nsec st)"
    using two_readings [OF c(1)] .
  have "clock_steps lo b n (sleep_once (sleep_for q) w)" by (rule clock_steps_next [OF c(1)]) (simp_all add: sleep_once_def)
  with se c(2) show ?thesis
    by (simp add: s reading_time_def after_reading_def clocked_def cpp_step_def timer_work_def sleeps_def nanosleep_def getCurTime_def
        time_between_def getTimeDiff_c sleep_once_def sleep_for_def)
qed

lemma runTimerTest_exact:
  assumes "clock_steps lo b (nat (ta_iterations args) + m) w" and "sleeps w" and "run_ok (ta_iterations args) b" and "fresh tid (ta_iterations args) r"
  shows "\<exists>r'. runTimerTest q args (r, w) = Some (Inr (0, r', after_runs (nat (ta_iterations args)) [q] w))
    \<and> timed tid lo b (ta_iterations args) r' (run_times w (nat (ta_iterations args)) 0)
    \<and> clock_steps lo b m (after_runs (nat (ta_iterations args)) [q] w) \<and> sleeps (after_runs (nat (ta_iterations args)) [q] w)"
proof -
  let ?n = "nat (ta_iterations args)" and ?s = "((None, None), w)"
  have "clocked sleeps lo b (?n + m) ?s" using assms(1,2) by (simp add: clocked_def)
  from iterate_timed_exact [where step = "cpp_step (timer_work q)" and P = "clocked sleeps lo b" and T = reading_time and nxt = "after_reading q",
      OF timer_step_times this assms(3,4)] obtain r' where
    r': "iterate ?n (cpp_step (timer_work q)) (r, ?s) = Some (Inr (0, r', (after_reading q ^^ ?n) ?s))"
      "timed tid lo b (ta_iterations args) r' (map (\<lambda>i. reading_time ((after_reading q ^^ i) ?s)) [0..<?n])"
      "clocked sleeps lo b m ((after_reading q ^^ ?n) ?s)" by blast
  have w: "snd ((after_reading q ^^ ?n) ?s) = after_runs ?n [q] w" by (simp add: after_readings sleep_often after_runs_def)
  moreover have "map (\<lambda>i. reading_time ((after_reading q ^^ i) ?s)) [0..<?n] = run_times w ?n 0"
    by (simp add: reading_time_def after_readings run_times_def elapsed_times_def sleep_often)
  ultimately show ?thesis using r'
    by (intro exI [of _ "r'\<lparr>workQuantum := q\<rparr>"]) (auto simp: runTimerTest_def clocked_def case_prod_unfold)
qed

text \<open>Runs whose median is below the accuracy of the clock are not judged; \<open>k\<close> is the first run that is.\<close>

lemma timer_doubling_first:
  assumes "percents (ta_rangePct args) (ta_acceptablePct args)" and "run_ok (ta_iterations args) b" and "is_int (ta_clockAccuracy args)"
    and "clock_steps lo b (Suc k * nat (ta_iterations args)) w" and "sleeps w" and "fresh SYSTIMER_ID (ta_iterations args) r"
    and "k = 0 \<or> 0 < q" and "q * 2 ^ k \<le> INT_MAX"
    and "\<forall>i < k. median_of (run_times w (nat (ta_iterations args)) i) < of_int (ta_clockAccuracy args)"
    and "of_int (ta_clockAccuracy args) \<le> median_of (run_times w (nat (ta_iterations args)) k)"
    and "times_meet (ta_rangePct args) (ta_acceptablePct args) (run_times w (nat (ta_iterations args)) k)"
  shows "\<exists>r' w'. timer_doubling args q None cnt (r, w) = Some (Inr (True, q * 2 ^ k, None, r', w'))
    \<and> timed SYSTIMER_ID lo b (ta_iterations args) r' (run_times w (nat (ta_iterations args)) k)"
  using assms(4-)
proof (induction k arbitrary: q r w)
  case 0
  let ?n = "ta_iterations args"
  obtain r1 where r1: "runTimerTest q args (r, w) = Some (Inr (0, r1, after_runs (nat ?n) [q] w))" "timed SYSTIMER_ID lo b ?n r1 (run_times w (nat ?n) 0)"
    using runTimerTest_exact [of lo b args 0 w SYSTIMER_ID r q] 0 assms(2) by auto
  obtain r2 where "checkStdDev r1 (ta_rangePct args) (ta_acceptablePct args) = Inr (True, r2)" "timed SYSTIMER_ID lo b ?n r2 (run_times w (nat ?n) 0)"
    using checkStdDev_timed [OF r1(2) assms(1)] 0(8) by auto
  moreover have "medianT r1 = Some (Fin (median_of (run_times w (nat ?n) 0)))" using r1(2) by (simp add: timed_def has_statistics_def)
  ultimately show ?case using r1(1) 0(7) assms(3) by (simp add: timer_doubling.simps [of args q] of_int_exact)
next
  case (Suc k)
  let ?n = "ta_iterations args" and ?w = "after_runs (nat (ta_iterations args)) [q] w"
  have "clock_steps lo b (nat ?n + Suc k * nat ?n) w" using Suc.prems(1) by simp
  from runTimerTest_exact [OF this Suc.prems(2) assms(2) Suc.prems(3), of q] obtain r1 where
    r1: "runTimerTest q args (r, w) = Some (Inr (0, r1, ?w))" "timed SYSTIMER_ID lo b ?n r1 (run_times w (nat ?n) 0)"
      and w: "clock_steps lo b (Suc k * nat ?n) ?w" "sleeps ?w" by blast
  have rt: "run_times ?w (nat ?n) i = run_times w (nat ?n) (Suc i)" for i by (simp add: run_times_after)
  have med: "medianT r1 = Some (Fin (median_of (run_times w (nat ?n) 0)))" using r1(2) by (simp add: timed_def has_statistics_def)
  have "median_of (run_times w (nat ?n) 0) < of_int (ta_clockAccuracy args)" using Suc.prems(6) by blast
  then have below: "\<not> of_ll (ta_clockAccuracy args) \<le> Fin (median_of (run_times w (nat ?n) 0))" using assms(3) by (simp add: of_int_exact)
  obtain r0 where r0: "new_TestResults SYSTIMER_ID ?n = Inr r0" "fresh SYSTIMER_ID ?n r0" using new_fresh [of ?n] assms(2) by (auto simp: run_ok_def)
  have q: "0 < q" "q * 2 * 2 ^ k \<le> INT_MAX" using Suc.prems(4,5) by simp_all
  have "q * 2 * 1 \<le> q * 2 * 2 ^ k" using q(1) by (intro mult_left_mono) simp_all
  from order_trans [OF this q(2)] have i: "is_int (q * 2)" using q(1) by (simp add: is_int_def)
  have "\<forall>i < k. median_of (run_times ?w (nat ?n) i) < of_int (ta_clockAccuracy args)" using Suc.prems(6) by (simp add: rt)
  moreover have "k = 0 \<or> 0 < q * 2" using q(1) by simp
  ultimately obtain r' w' where "timer_doubling args (q * 2) None cnt (r0, ?w) = Some (Inr (True, q * 2 * 2 ^ k, None, r', w'))"
    "timed SYSTIMER_ID lo b ?n r' (run_times w (nat ?n) (Suc k))"
    using Suc.IH [OF w r0(2) _ q(2)] Suc.prems(7,8) unfolding rt by blast
  with r1(1) med below r0(1) i show ?case by (simp add: timer_doubling.simps [of args q] chk_int_ok algebra_simps)
qed

section \<open>Properties\<close>

text \<open>
  The binary search of the C++ timer test always ends, within \<open>s\<close> runs for an interval of fewer than \<open>2 ^ s\<close> sleeps, and
  returns the result it was given or one of its own runs: with a sleep inside the interval, whose times met the pass criteria and
  whose median exceeds the accuracy of the clock.
\<close>

lemma timer_halving_ends:
  assumes "percents (ta_rangePct args) (ta_acceptablePct args)" and "run_ok (ta_iterations args) b"
    and "0 \<le> start" and "2 * stop \<le> INT_MAX" and "stop - start + 1 < 2 ^ s"
    and "clock_steps lo b (s * nat (ta_iterations args)) w" and "sleeps w" and "timed SYSTIMER_ID lo b (ta_iterations args) r ts"
  shows "\<exists>r' w'. timer_halving args start stop kept (r, w) = Some (Inr (r', w')) \<and> found lo b args start stop kept r'"
  using assms by (rule timer_halving_finds)

definition once_args :: RTThreadArgs where
  "once_args = new_RTThreadArgs 1 5 tenth_values 2000"

definition one_sleep :: TestResults where
  "one_sleep = empty_result\<lparr>testId := Some SYSTIMER_ID, mean := 50000, minT := 50000, maxT := 50000, medianT := Some (Fin 50000),
     minUpdated := True, entries := 1, maxEntries := Some 1, vals := Some [Some 50000], stdDev := deviation [50000], workQuantum := 40000\<rparr>"

lemma one_sleep_timed: "timed SYSTIMER_ID 50000 50000 1 one_sleep [50000]"
  by (simp add: timed_def one_sleep_def holds_def has_statistics_def room_def empty_result_def times_ok_def is_int_def mean_of_def median_of_def)

lemma timer_halving_ends_witness:
  "\<exists>r' w'. timer_halving once_args 20000 40000 one_sleep (one_sleep, steady_world) = Some (Inr (r', w'))
    \<and> found 50000 50000 once_args 20000 40000 one_sleep r'"
  by (rule timer_halving_ends [where s = 15 and ts = "[50000]"])
    (simp_all add: once_args_def args_percents new_args(1-3) tenth_values_def f64_cmp run_ok_def is_int_def steady_clock one_sleep_timed,
      simp add: sleeps_def steady_world_def)

text \<open>
  C36: When the first run of the C++ timer test that is judged, the first one whose median reaches the accuracy of the clock, meets the pass
  criteria, the search starts at the quantum of the last run that failed, a variable that was never assigned: the test reads an indeterminate
  value, whatever the sleeps take.
\<close>

theorem first_pass_undefined:
  assumes "setup_ok b cl rt env n acc" and "clock_steps lo b (Suc k * nat n) (ce_world env)" and "sleeps (ce_world env)"
    and "first_sleep acc * 2 ^ k \<le> INT_MAX"
    and "\<forall>i < k. median_of (run_times (ce_world env) (nat n) i) < of_int acc"
    and "of_int acc \<le> median_of (run_times (ce_world env) (nat n) k)"
    and "times_meet (ta_rangePct (new_RTThreadArgs n 0 rt acc)) (ta_acceptablePct (new_RTThreadArgs n 0 rt acc)) (run_times (ce_world env) (nat n) k)"
  shows "timer_config_test pw cl rt env = Some (Inl Uninitialised)"
proof -
  let ?args = "new_RTThreadArgs n (testThreshold (ce_info env)) rt acc"
  obtain r0 where r0: "prepare cl rt SYSTIMER_ID env = Inr (env\<lparr>ce_info := (ce_info env)\<lparr>numIterations := n\<rparr>\<rparr>, ?args, r0)" "fresh SYSTIMER_ID n r0"
    using prepare_ok [OF assms(1)] by blast
  have ok: "ce_spawn env" "run_ok n b" "is_int acc" "is_int n" "0 \<le> n" "ta_iterations ?args = n" "ta_clockAccuracy ?args = acc"
    "percents (ta_rangePct ?args) (ta_acceptablePct ?args)"
    using assms(1) args_percents by (simp_all add: setup_ok_def run_ok_def new_args(1-3))
  have meet: "times_meet (ta_rangePct ?args) (ta_acceptablePct ?args) (run_times (ce_world env) (nat n) k)"
    using assms(7) by (simp add: new_RTThreadArgs_def Let_def)
  have "k = 0 \<or> 0 < first_sleep acc"
  proof (cases k)
    case (Suc j)
    have "clock_steps lo b (nat n + k * nat n) (ce_world env)" using assms(2) by simp
    then obtain r1 where "timed SYSTIMER_ID lo b n r1 (run_times (ce_world env) (nat n) 0)"
      using runTimerTest_exact [of lo b ?args "k * nat n" "ce_world env" SYSTIMER_ID r0 0] assms(3) ok(2,6) r0(2) by auto
    then have "0 \<le> median_of (run_times (ce_world env) (nat n) 0)" using median_of_bounds by (auto simp: timed_def)
    moreover have "median_of (run_times (ce_world env) (nat n) 0) < of_int acc" using assms(5) Suc by simp
    ultimately have "0 < acc" by (metis le_less_trans of_int_0_less_iff)
    then show ?thesis by (auto simp: first_sleep_def sdiv_nonneg_eq Let_def)
  qed simp
  from timer_doubling_first [of ?args b lo k "ce_world env" r0 "first_sleep acc", unfolded ok(6,7), OF ok(8,2,3) assms(2,3) r0(2) this assms(4-6) meet]
  obtain r2 w1 where r2: "timer_doubling ?args (first_sleep acc) None 0 (r0, ce_world env) = Some (Inr (True, first_sleep acc * 2 ^ k, None, r2, w1))"
    "timed SYSTIMER_ID lo b n r2 (run_times (ce_world env) (nat n) k)" by blast
  obtain p where p: "new_TestResults SYSTIMER_ID n = Inr p" "fresh SYSTIMER_ID n p" using new_fresh ok(4,5) by blast
  from clone_timed [OF r2(2) p(2)] obtain p' where "cloneValues p r2 = Inr p'" by blast
  with p(1) r2(1) r0(1) ok(1,6,7) show ?thesis
    by (simp add: timer_config_test_def config_rate_test_def in_thread_def TimerConfigImpl_def)
qed

text \<open>A clock with an accuracy of 2000 ns; the first sleep takes 1000 ns and is not judged, the second one takes 50000 ns.\<close>

definition one_reading :: TestResults where
  "one_reading = empty_result\<lparr>testId := Some SYSCLOCK_ID, mean := 100, minT := 100, maxT := 100, medianT := Some (Fin 100),
     minUpdated := True, entries := 1, maxEntries := Some 1, vals := Some [Some 100], stdDev := deviation [100], workQuantum := 100\<rparr>"

definition waking_cenv :: cenv where
  "waking_cenv = steady_cenv\<lparr>ce_table := new_ResultTable\<lparr>testScores := [(new_BenchMarkTestInfo, final_of_results [one_reading] True)]\<rparr>,
     ce_world := steady_world\<lparr>clk := \<lambda>k. Some \<lparr>tv_sec = 0, tv_nsec = (if k = 1 then 1000 else if even k then 0 else 50000)\<rparr>\<rparr>\<rparr>"

lemma waking_setup: "setup_ok 50000 quick_params tenth_values waking_cenv 1 2000"
proof -
  have "getClockAccuracy (ce_table waking_cenv) = Inr 2000"
    by (simp add: getClockAccuracy_def waking_cenv_def front_of_id_def getTestResultsByTestID_def final_of_results_def new_TestScore_def one_reading_def
        f64_to_ll_def is_ll_def)
  moreover have "table_entries_ok (ce_table waking_cenv)"
    by (simp add: table_entries_ok_def waking_cenv_def in_order_def entry_ok_def final_of_results_def new_TestScore_def one_reading_def)
  ultimately show ?thesis using steady_setup by (simp add: setup_ok_def waking_cenv_def steady_cenv_def is_int_def)
qed

lemma waking_clock: "clock_steps 1000 50000 n (ce_world waking_cenv)"
  by (auto simp: clock_steps_def in_range_def waking_cenv_def steady_world_def ts_ok_def ts_nsec_def)

lemma waking_runs:
  "run_times (ce_world waking_cenv) (nat 1) 0 = [1000]" "run_times (ce_world waking_cenv) (nat 1) (Suc 0) = replicate 1 50000"
  by (simp_all add: run_times_def elapsed_times_def waking_cenv_def steady_world_def ts_nsec_def)

theorem first_pass_undefined_witness:
  "timer_config_test (\<lambda>x y. x) quick_params tenth_values waking_cenv = Some (Inl Uninitialised)"
proof (rule first_pass_undefined [OF waking_setup waking_clock])
  show "times_meet (ta_rangePct (new_RTThreadArgs 1 0 tenth_values 2000)) (ta_acceptablePct (new_RTThreadArgs 1 0 tenth_values 2000))
      (run_times (ce_world waking_cenv) (nat 1) (Suc 0))"
    unfolding waking_runs(2) by (rule steady_meets) (simp_all add: is_int_def args_percents tenth_values_def f64_cmp)
qed (simp_all add: waking_runs [simplified] median_of_def first_sleep_def sdiv_nonneg_eq, simp add: sleeps_def waking_cenv_def steady_world_def)

end
