(* ===== verification/Cpp_Tests.thy ===== *)
theory Cpp_Tests
  imports Cpp_Timer Lock_Consistency
begin

text \<open>
  The C++ implementation, \<^verbatim>\<open>timer_accuracy.cpp\<close> and \<^verbatim>\<open>lock_consistency_test.cpp\<close>: two tests that run in the thread that called
  them and use the percentages as they are.  Mutexes are those of theory Lock\_Consistency.  What is printed is left out.
\<close>

section \<open>Entering the result\<close>

definition enter_scores :: "(f64 \<Rightarrow> f64 \<Rightarrow> f64) \<Rightarrow> cenv \<Rightarrow> TestResults \<Rightarrow> world \<Rightarrow> (bool \<times> cenv) res" where
  "enter_scores pw env r w = bind_res (generateScores [r] (referenceScore (ce_info env)) True) (\<lambda>tScore.
     Inr (True, env\<lparr>ce_table := addResult_final (ce_table env) (ce_info env) (final_of_scores pw tScore True), ce_world := w\<rparr>))"

section \<open>The accuracy of the timer\<close>

definition too_long :: "int \<Rightarrow> readings \<Rightarrow> int res" where
  "too_long num rd = bind_res (time_between rd) (\<lambda>timeDiff. bind_res (chk_ll (timeDiff - num)) (\<lambda>delta.
     if delta < 0 then Inl Abort_called else Inr delta))"

definition sleep_step :: "int \<Rightarrow> trw \<Rightarrow> (int \<times> trw) run" where
  "sleep_step num = (\<lambda>(r, (startTime, endTime), w). case getCurTime startTime w of (startTime, w) \<Rightarrow>
     bind_run (timer_work num w) (\<lambda>(rc, w). case getCurTime endTime w of (endTime, w) \<Rightarrow>
       Some (bind_res (too_long num (startTime, endTime)) (\<lambda>delta.
         bind_res (setValuesAtNextIndex r delta) (\<lambda>r. Inr (0, r, (startTime, endTime), w))))))"

definition time_accuracy_test :: "(f64 \<Rightarrow> f64 \<Rightarrow> f64) \<Rightarrow> cpp_test" where
  "time_accuracy_test pw cl rtValues env =
     bind_run (Some (front_of_id (ce_table env) SYSTIMER_ID)) (\<lambda>timerTestResults.
     bind_run (Some (new_iters cl rtValues (ce_info env))) (\<lambda>newIters. let env = env\<lparr>ce_info := (ce_info env)\<lparr>numIterations := newIters\<rparr>\<rparr> in
     bind_run (Some (new_TestResults TIMER_ACCURACY_ID newIters)) (\<lambda>r.
     bind_run (Some (case timerTestResults of None \<Rightarrow> Inl Null_deref | Some t \<Rightarrow> Inr (r\<lparr>workQuantum := workQuantum t\<rparr>))) (\<lambda>r.
     bind_run (Some (getClockAccuracy (ce_table env))) (\<lambda>clockAccuracy.
     bind_run (Some (getTimerWorkQuantum (ce_table env))) (\<lambda>num.
     bind_run (iterate (nat newIters) (sleep_step num) (r, (None, None), ce_world env)) (\<lambda>(rc, r, rd, w).
     bind_run (Some (checkStdDev r (rangePct rtValues) (acceptablePct rtValues))) (\<lambda>(done, r).
       Some (enter_scores pw env (r\<lparr>resultName := ''Time accuracy test''\<rparr>) w)))))))))"

section \<open>The consistency of locks\<close>

definition lock_work :: "int \<Rightarrow> world \<Rightarrow> (int \<times> world) run" where
  "lock_work subIters w = bind_run (lock_pairs (nat subIters) False) (\<lambda>_. Some (Inr (0, w)))"

definition emptied_try :: "int \<Rightarrow> TestResults \<Rightarrow> (int \<times> TestResults) res" where
  "emptied_try subIters r = bind_res (chk_int (subIters * 2)) (\<lambda>subIters. Inr (subIters, removeOldValues r))"

definition plain_args :: "int \<Rightarrow> int \<Rightarrow> RealTimeValues \<Rightarrow> int \<Rightarrow> RTThreadArgs" where
  "plain_args iters thresh rtValues clockAcc = \<lparr>ta_threshold = thresh, ta_iterations = iters, ta_rangePct = rangePct rtValues,
     ta_acceptablePct = acceptablePct rtValues, ta_clockAccuracy = clockAcc\<rparr>"

definition lock_result_name :: string where
  "lock_result_name = ''Lock Consistency '' @ [CHR 0x09, CHR 0x09] @ '' test for high priority thread ''"

definition lock_consistency_test :: "(f64 \<Rightarrow> f64 \<Rightarrow> f64) \<Rightarrow> cpp_test" where
  "lock_consistency_test pw cl rtValues env =
     bind_run (Some (new_iters cl rtValues (ce_info env))) (\<lambda>newIters. let env = env\<lparr>ce_info := (ce_info env)\<lparr>numIterations := newIters\<rparr>\<rparr> in
     bind_run (Some (getClockAccuracy (ce_table env))) (\<lambda>clockAccuracy.
     bind_run (Some (new_TestResults LOCK_CONSISTENCY_ID newIters)) (\<lambda>r.
     bind_run (cpp_loop (timed_runs lock_work newIters) (judge (plain_args newIters (testThreshold (ce_info env)) rtValues clockAccuracy)) emptied_try id 2 0
         (removeOldValues r, (None, None), ce_world env)) (\<lambda>(rc, subIters, r, rd, w).
       Some (enter_scores pw env (r\<lparr>resultName := lock_result_name\<rparr>) w)))))"

section \<open>The tests end\<close>

lemma enter_scores_addResult:
  "enter_scores pw env r w = bind_res (addResult pw (ce_table env) (ce_info env) [r] True) (\<lambda>t. Inr (True, env\<lparr>ce_table := t, ce_world := w\<rparr>))"
  by (cases "generateScores [r] (referenceScore (ce_info env)) True") (simp_all add: enter_scores_def addResult_def addResult_final_def)

lemma timed_named: "timed tid lo b n (r\<lparr>resultName := s\<rparr>) ts = timed tid lo b n r ts"
  by (simp add: timed_def holds_def has_statistics_def room_def)

lemma meets_named: "meets a (r\<lparr>resultName := s\<rparr>) = meets a r"
  by (simp add: meets_def)

lemma enter_scores_ok:
  assumes "timed tid lo b n r ts" and "table_entries_ok (ce_table env)"
  shows "\<exists>t'. enter_scores pw env r w = Inr (True, env\<lparr>ce_table := t', ce_world := w\<rparr>) \<and> entered_as tid r (ce_table env) t'"
  using timed_entered [OF assms, of pw "ce_info env" True] by (auto simp: enter_scores_addResult)

definition plain_ok :: "int \<Rightarrow> CmdLineParams \<Rightarrow> RealTimeValues \<Rightarrow> cenv \<Rightarrow> int \<Rightarrow> int \<Rightarrow> bool" where
  "plain_ok b cl rtValues env n acc \<longleftrightarrow> table_entries_ok (ce_table env) \<and> new_iters cl rtValues (ce_info env) = Inr n
     \<and> run_ok n b \<and> getClockAccuracy (ce_table env) = Inr acc \<and> is_int acc \<and> is_int (testThreshold (ce_info env))
     \<and> percents (rangePct rtValues) (acceptablePct rtValues)"

lemma lock_work_quiet: "quiet_work (lock_work q)"
  by (simp add: quiet_work_def lock_work_def lock_pairs_free)

interpretation cpp_lock: cpp_body "timed_runs lock_work" "clocked (\<lambda>_. True)" id 1 INT_MAX
  by (unfold_locales, rule timed_runs_law) (simp_all add: quiet_works_in lock_work_quiet)

lemma emptied_try_renews: "is_int (q * 2) \<Longrightarrow> timed tid lo b n r ts \<Longrightarrow> \<exists>r'. emptied_try q r = Inr (q * 2, r') \<and> fresh tid n r'"
  by (simp add: emptied_try_def chk_int_ok removed_fresh)

lemma sleep_step_records:
  assumes "0 \<le> num"
  shows "records lo b (clocked sleeps (num + max 0 lo) (num + b)) (sleep_step num)"
  unfolding records_def
proof (intro allI impI)
  fix r and s :: "readings \<times> world" and n assume i: "clocked sleeps (num + max 0 lo) (num + b) (Suc n) s"
  obtain u v w where s: "s = ((u, v), w)" by (metis prod.exhaust)
  have c: "clock_steps (num + max 0 lo) (num + b) (Suc n) w" and sl: "sleeps w" using i by (simp_all add: clocked_def s)
  obtain st en where se: "clk w (clk_n w) = Some st" "clk w (Suc (clk_n w)) = Some en"
    "get_time_diff st en = Inr (ts_nsec en - ts_nsec st)" "in_range (num + max 0 lo) (num + b) (ts_nsec en - ts_nsec st)"
    using two_readings [OF c] .
  let ?t = "ts_nsec en - ts_nsec st - num"
  have ll: "is_ll (ts_nsec en - ts_nsec st)" using se(3) by (auto simp: get_time_diff_def bind_res_Inr_iff)
  have t: "in_range lo b ?t" "0 \<le> ?t" "is_ll ?t" using se(4) ll assms by (auto simp: in_range_def is_ll_def)
  define w' where "w' = w\<lparr>slept := slept w @ [\<lparr>tv_sec = num sdiv 1000000000, tv_nsec = num smod 1000000000\<rparr>], clk_n := Suc (Suc (clk_n w))\<rparr>"
  have "clock_steps (num + max 0 lo) (num + b) n w'" by (rule clock_steps_next [OF c]) (simp_all add: w'_def)
  moreover have "sleep_step num (r, s) = Some (bind_res (setValuesAtNextIndex r ?t) (\<lambda>r. Inr (0, r, (Some st, Some en), w')))"
    using se(1-3) t(2,3) sl by (simp add: sleep_step_def s getCurTime_def timer_work_def nanosleep_def sleeps_def too_long_def time_between_def
        getTimeDiff_c chk_ll_ok w'_def)
  ultimately show "\<exists>t w'. in_range lo b t \<and> clocked sleeps (num + max 0 lo) (num + b) n w' \<and>
      sleep_step num (r, s) = Some (bind_res (setValuesAtNextIndex r t) (\<lambda>r. Inr (0, r, w')))"
    using t(1) sl by (intro exI [of _ ?t] exI [of _ "((Some st, Some en), w')"]) (simp add: clocked_def sleeps_def w'_def)
qed

section \<open>Properties\<close>

text \<open>
  The C++ test of locks always ends: when every iteration takes longer than the accuracy of the clock it returns \<^verbatim>\<open>true\<close> and enters the
  statistics of one of its runs, for thresholds up to 30; no attempt ever waits for the mutex.
\<close>

lemma cpp_lock_test_ends:
  assumes "plain_ok b cl rt env n acc" and "acc < lo" and "1 \<le> testThreshold (ce_info env)" "testThreshold (ce_info env) \<le> 30"
    and "clock_steps lo b (nat (testThreshold (ce_info env)) * nat n) (ce_world env)"
  shows "\<exists>ts r env'. lock_consistency_test pw cl rt env = Some (Inr (True, env'))
    \<and> entered_as LOCK_CONSISTENCY_ID r (ce_table env) (ce_table env') \<and> timed LOCK_CONSISTENCY_ID lo b n r ts"
proof -
  let ?thr = "testThreshold (ce_info env)" and ?env = "env\<lparr>ce_info := (ce_info env)\<lparr>numIterations := n\<rparr>\<rparr>"
  let ?args = "plain_args n (testThreshold (ce_info env)) rt acc"
  have ok: "table_entries_ok (ce_table env)" "new_iters cl rt (ce_info env) = Inr n" "run_ok n b" "getClockAccuracy (ce_table env) = Inr acc"
    "is_int acc" "is_int ?thr" "percents (rangePct rt) (acceptablePct rt)" using assms(1) by (simp_all add: plain_ok_def)
  have n: "is_int n" "0 \<le> n" using ok(3) by (simp_all add: run_ok_def)
  obtain r0 where r0: "new_TestResults LOCK_CONSISTENCY_ID n = Inr r0" "fresh LOCK_CONSISTENCY_ID n r0" using new_fresh [OF n] by blast
  have f: "fresh LOCK_CONSISTENCY_ID n (removeOldValues r0)" using removed_holds r0(2) by (auto simp: fresh_def)
  have "(2::int) ^ nat (?thr - 1) \<le> 2 ^ 29" using assms(4) by (intro power_increasing) simp_all
  then have q: "2 * 2 ^ nat (?thr - 1) \<le> INT_MAX" by simp
  have c: "clocked (\<lambda>_. True) lo b (nat ?thr * nat n) ((None, None), ce_world env)" using assms(5) by (simp add: clocked_def)
  have "\<exists>k ts r' w'. cpp_loop (timed_runs lock_work (ta_iterations ?args)) (judge ?args) emptied_try id 2 0
      (removeOldValues r0, (None, None), ce_world env) = Some (Inr (0, 2 * 2 ^ k, r', w'))
    \<and> int k < ta_threshold ?args - 0 \<and> timed LOCK_CONSISTENCY_ID lo b (ta_iterations ?args) r' ts
    \<and> (meets (ta_acceptablePct ?args) r' \<or> int k = ta_threshold ?args - 1 - 0)"
    by (rule cpp_lock.ends_within_threshold) (use ok f c q assms(2,3) emptied_try_renews in \<open>simp_all add: plain_args_def\<close>)
  then obtain k ts r1 s where r1: "cpp_loop (timed_runs lock_work n) (judge ?args) emptied_try id 2 0
      (removeOldValues r0, (None, None), ce_world env) = Some (Inr (0, 2 * 2 ^ k, r1, s))" "timed LOCK_CONSISTENCY_ID lo b n r1 ts"
    by (elim exE conjE) (rule that; simp add: plain_args_def)
  obtain rd w where "s = (rd, w)" by (cases s)
  note r1 = r1 [unfolded this]
  let ?r = "r1\<lparr>resultName := lock_result_name\<rparr>"
  have "timed LOCK_CONSISTENCY_ID lo b n ?r ts" "table_entries_ok (ce_table ?env)" using r1(2) ok(1) by (simp_all add: timed_named)
  from enter_scores_ok [OF this, of pw w]
  obtain t' where "enter_scores pw ?env ?r w = Inr (True, ?env\<lparr>ce_table := t', ce_world := w\<rparr>)"
    "entered_as LOCK_CONSISTENCY_ID ?r (ce_table env) t'" by auto
  with r0(1) r1 ok \<open>timed LOCK_CONSISTENCY_ID lo b n ?r ts\<close> show ?thesis
    by (intro exI [of _ ts] exI [of _ ?r] exI [of _ "?env\<lparr>ce_table := t', ce_world := w\<rparr>"]) (simp add: lock_consistency_test_def)
qed

lemma steady_plain: "plain_ok 50000 quick_params tenth_values steady_cenv 1 (- 1)"
  by (simp add: plain_ok_def steady_cenv_def new_table_ok new_iters_def quick_params_def run_ok_def is_int_def tenth_values_def
      steady_info_def new_BenchMarkTestInfo_def percents_def f64_cmp no_clock_accuracy)

lemma cpp_lock_test_ends_witness:
  "\<exists>ts r env'. lock_consistency_test (\<lambda>x y. x) quick_params tenth_values steady_cenv = Some (Inr (True, env'))
    \<and> entered_as LOCK_CONSISTENCY_ID r (ce_table steady_cenv) (ce_table env') \<and> timed LOCK_CONSISTENCY_ID 50000 50000 1 r ts"
  by (rule cpp_lock_test_ends [OF steady_plain]) (simp_all add: steady_cenv_def steady_info_def steady_clock)

text \<open>
  The C++ test of time accuracy needs the result of the timer test: without it a null pointer is read. With it, and sleeps that last
  at least as long as asked and less than \<open>b\<close> longer, it returns \<^verbatim>\<open>true\<close> and enters the statistics of the excess, whatever the pass criteria say.
\<close>

lemma cpp_time_accuracy_result:
  assumes "plain_ok b cl rt env n acc" and "front_of_id (ce_table env) SYSTIMER_ID = Inr timer"
    and "sleeps (ce_world env)"
    and "\<And>t. timer = Some t \<Longrightarrow> 0 \<le> workQuantum t \<and> clock_steps (workQuantum t) (workQuantum t + b) (nat n) (ce_world env)"
  shows "case timer of None \<Rightarrow> time_accuracy_test pw cl rt env = Some (Inl Null_deref)
    | Some t \<Rightarrow> \<exists>ts r env'. time_accuracy_test pw cl rt env = Some (Inr (True, env'))
        \<and> entered_as TIMER_ACCURACY_ID r (ce_table env) (ce_table env') \<and> timed TIMER_ACCURACY_ID 0 b n r ts"
proof -
  let ?env = "env\<lparr>ce_info := (ce_info env)\<lparr>numIterations := n\<rparr>\<rparr>"
  have ok: "table_entries_ok (ce_table env)" "new_iters cl rt (ce_info env) = Inr n" "run_ok n b" "getClockAccuracy (ce_table env) = Inr acc"
    "percents (rangePct rt) (acceptablePct rt)" using assms(1) by (simp_all add: plain_ok_def)
  have n: "is_int n" "0 \<le> n" using ok(3) by (simp_all add: run_ok_def)
  obtain r0 where r0: "new_TestResults TIMER_ACCURACY_ID n = Inr r0" "fresh TIMER_ACCURACY_ID n r0" using new_fresh [OF n] by blast
  show ?thesis
  proof (cases timer)
    case None
    then show ?thesis using assms(2) ok(2) r0(1) by (simp add: time_accuracy_test_def)
  next
    case (Some t)
    let ?q = "workQuantum t"
    have q: "0 \<le> ?q" "clock_steps ?q (?q + b) (nat n) (ce_world env)" using assms(4) [OF Some] by simp_all
    have f: "fresh TIMER_ACCURACY_ID n (r0\<lparr>workQuantum := ?q\<rparr>)" using r0(2) by (simp add: fresh_def holds_def room_def)
    have "clocked sleeps (?q + max 0 0) (?q + b) (nat n + 0) ((None, None), ce_world env)" using q(2) assms(3) by (simp add: clocked_def)
    from iterate_timed [OF sleep_step_records [OF q(1)] this ok(3) f]
    obtain ts r1 s where r1: "iterate (nat n) (sleep_step ?q) (r0\<lparr>workQuantum := ?q\<rparr>, (None, None), ce_world env) = Some (Inr (0, r1, s))"
      "timed TIMER_ACCURACY_ID 0 b n r1 ts" by blast
    obtain rd w where s: "s = (rd, w)" by (cases s)
    obtain ok' r2 where r2: "checkStdDev r1 (rangePct rt) (acceptablePct rt) = Inr (ok', r2)" "timed TIMER_ACCURACY_ID 0 b n r2 ts"
      using checkStdDev_timed [OF r1(2) ok(5)] by blast
    let ?r = "r2\<lparr>resultName := ''Time accuracy test''\<rparr>"
    have r: "timed TIMER_ACCURACY_ID 0 b n ?r ts" "table_entries_ok (ce_table ?env)" using r2(2) ok(1) by (simp_all add: timed_named)
    from enter_scores_ok [OF this, of pw w]
    obtain t' where "enter_scores pw ?env ?r w = Inr (True, ?env\<lparr>ce_table := t', ce_world := w\<rparr>)" "entered_as TIMER_ACCURACY_ID ?r (ce_table env) t'" by auto
    moreover have "getTimerWorkQuantum (ce_table env) = Inr ?q" using assms(2) Some by (simp add: getTimerWorkQuantum_def)
    ultimately have "\<exists>ts r env'. time_accuracy_test pw cl rt env = Some (Inr (True, env'))
        \<and> entered_as TIMER_ACCURACY_ID r (ce_table env) (ce_table env') \<and> timed TIMER_ACCURACY_ID 0 b n r ts"
      using r0(1) r1(1) r2(1) r(1) s ok assms(2) Some
      by (intro exI [of _ ts] exI [of _ ?r] exI [of _ "?env\<lparr>ce_table := t', ce_world := w\<rparr>"]) (simp add: time_accuracy_test_def)
    then show ?thesis using Some by simp
  qed
qed

definition slept_cenv :: cenv where
  "slept_cenv = steady_cenv\<lparr>ce_table := new_ResultTable\<lparr>testScores := [(new_BenchMarkTestInfo, final_of_results [one_sleep] True)]\<rparr>\<rparr>"

lemma slept_timer: "front_of_id (ce_table slept_cenv) SYSTIMER_ID = Inr (Some one_sleep)"
  by (simp add: slept_cenv_def front_of_id_def getTestResultsByTestID_def final_of_results_def new_TestScore_def one_sleep_def)

lemma slept_plain: "plain_ok 50000 quick_params tenth_values slept_cenv 1 (- 1)"
proof -
  have "getClockAccuracy (ce_table slept_cenv) = Inr (- 1)"
    by (simp add: getClockAccuracy_def slept_cenv_def front_of_id_def getTestResultsByTestID_def final_of_results_def new_TestScore_def one_sleep_def)
  moreover have "table_entries_ok (ce_table slept_cenv)"
    by (simp add: table_entries_ok_def slept_cenv_def in_order_def entry_ok_def final_of_results_def new_TestScore_def one_sleep_def)
  ultimately show ?thesis using steady_plain by (simp add: plain_ok_def slept_cenv_def)
qed

lemma cpp_time_accuracy_result_witness:
  "case Some one_sleep of None \<Rightarrow> time_accuracy_test (\<lambda>x y. x) quick_params tenth_values slept_cenv = Some (Inl Null_deref)
    | Some t \<Rightarrow> \<exists>ts r env'. time_accuracy_test (\<lambda>x y. x) quick_params tenth_values slept_cenv = Some (Inr (True, env'))
        \<and> entered_as TIMER_ACCURACY_ID r (ce_table slept_cenv) (ce_table env') \<and> timed TIMER_ACCURACY_ID 0 50000 1 r ts"
proof (rule cpp_time_accuracy_result [OF slept_plain slept_timer])
  show "sleeps (ce_world slept_cenv)" by (simp add: slept_cenv_def steady_cenv_def sleeps_def steady_world_def)
  fix t assume "Some one_sleep = Some t"
  then have "workQuantum t = 40000" by (auto simp: one_sleep_def)
  then show "0 \<le> workQuantum t \<and> clock_steps (workQuantum t) (workQuantum t + 50000) (nat 1) (ce_world slept_cenv)"
    by (simp add: clock_steps_def in_range_def slept_cenv_def steady_cenv_def steady_world_def ts_ok_def ts_nsec_def)
qed

end
