(* ===== verification/Cpp_Dispatch.thy ===== *)
theory Cpp_Dispatch
  imports Cpp_Tests Event_Dispatch
begin

text \<open>
  The C++ implementation, \<^verbatim>\<open>event_dispatch.cpp\<close> and \<^verbatim>\<open>signal_notifier.cpp\<close>, with the thread attributes of \<^verbatim>\<open>PthreadWrapper.cpp\<close>.  The
  two threads are state machines with the program counters of theory Dispatch\_Threads; the sender takes its second reading after it has
  released the lock and stores the difference itself.  An abstraction to the threads of the C program carries over their protocol.
\<close>

section \<open>Starting a thread\<close>

definition setPthreadAttrSchedParam :: "sched_env \<Rightarrow> pthread_attr \<Rightarrow> policy \<Rightarrow> int \<Rightarrow> int \<times> pthread_attr" where
  "setPthreadAttrSchedParam e attr pol prio = (if \<not> se_inherit e then (-1, attr)
     else let attr = attr\<lparr>at_explicit := True\<rparr> in if \<not> se_param e then (-1, attr)
     else let attr = attr\<lparr>at_sched := (at_sched attr)\<lparr>sc_priority := prio\<rparr>\<rparr> in if \<not> se_policy e then (-1, attr)
     else (0, attr\<lparr>at_sched := (at_sched attr)\<lparr>sc_policy := pol\<rparr>\<rparr>))"

text \<open>The thread that is created, if any; failures of \<^verbatim>\<open>pthread_create\<close> are positive numbers and not noticed.\<close>

definition startThread :: "sched_env \<Rightarrow> nat \<Rightarrow> int \<times> pthread_attr option" where
  "startThread e i = (case setPthreadAttrSchedParam e pthread_attr_init SCHED_FIFO (se_max e - 10) of
     (rc, attr) \<Rightarrow> if rc < 0 then (-1, None) else (0, if se_create e i then Some attr else None))"

section \<open>The two threads\<close>

record switching =
  sw_spc :: s_pc
  sw_major :: nat
  sw_sub :: nat
  sw_rpc :: r_pc
  sw_rmajor :: nat
  sw_rsub :: nat
  receiverWaiting :: bool
  readyLock :: "thr option"
  waitNotifyLock :: "thr option"
  sw_start :: "timespec option"
  sw_end :: "timespec option"
  threadSwitchTime :: "int list"
  sw_world :: world

definition signalReady :: "switching \<Rightarrow> switching" where
  "signalReady s = (if sw_spc s = S_WaitReady then s\<lparr>sw_spc := S_WokenReady\<rparr> else s)"

definition signalWaitNotify :: "switching \<Rightarrow> switching" where
  "signalWaitNotify s = (if sw_spc s = S_Waiting then s\<lparr>sw_spc := S_Woken\<rparr>
     else if sw_rpc s = R_Waiting then s\<lparr>sw_rpc := R_Woken\<rparr> else s)"

definition storeSwitchTime :: "switching \<Rightarrow> switching res" where
  "storeSwitchTime s = bind_res (time_between (sw_start s, sw_end s)) (\<lambda>diffTime.
     bind_res (awrite (threadSwitchTime s) (int (sw_major s)) diffTime) (\<lambda>ts.
       Inr (s\<lparr>threadSwitchTime := ts, sw_major := Suc (sw_major s), sw_spc := S_Top\<rparr>)))"

definition signalSenderStart :: "nat \<Rightarrow> nat \<Rightarrow> switching \<Rightarrow> switching res option" where
  "signalSenderStart major sub s = (case sw_spc s of
       S_Top \<Rightarrow> if sw_major s < major
         then (if readyLock s = None then Some (Inr (s\<lparr>readyLock := Some Sender, sw_spc := S_Test\<rparr>)) else None)
         else Some (Inr (s\<lparr>sw_spc := S_Done\<rparr>))
     | S_Test \<Rightarrow> Some (Inr (if \<not> receiverWaiting s
         then s\<lparr>readyLock := None, sw_spc := S_WaitReady\<rparr>
         else s\<lparr>receiverWaiting := False, sw_spc := S_UnlockReady\<rparr>))
     | S_WaitReady \<Rightarrow> None
     | S_WokenReady \<Rightarrow> if readyLock s = None then Some (Inr (s\<lparr>readyLock := Some Sender, sw_spc := S_Test\<rparr>)) else None
     | S_UnlockReady \<Rightarrow> Some (Inr (s\<lparr>readyLock := None, sw_spc := S_LockWait\<rparr>))
     | S_LockWait \<Rightarrow> if waitNotifyLock s = None
         then Some (Inr (s\<lparr>waitNotifyLock := Some Sender, sw_spc := S_Start\<rparr>)) else None
     | S_Start \<Rightarrow> (case getCurTime (sw_start s) (sw_world s) of (t, w) \<Rightarrow>
         Some (Inr (s\<lparr>sw_start := t, sw_world := w, sw_sub := 0, sw_spc := S_Loop\<rparr>)))
     | S_Loop \<Rightarrow> Some (Inr (if sw_sub s < sub then (signalWaitNotify s)\<lparr>sw_spc := S_Wait\<rparr> else s\<lparr>sw_spc := S_UnlockWait\<rparr>))
     | S_Wait \<Rightarrow> Some (Inr (s\<lparr>waitNotifyLock := None, sw_spc := S_Waiting\<rparr>))
     | S_Waiting \<Rightarrow> None
     | S_Woken \<Rightarrow> if waitNotifyLock s = None
         then Some (Inr (s\<lparr>waitNotifyLock := Some Sender, sw_sub := Suc (sw_sub s), sw_spc := S_Loop\<rparr>)) else None
     | S_UnlockWait \<Rightarrow> Some (Inr (s\<lparr>waitNotifyLock := None, sw_spc := S_End\<rparr>))
     | S_End \<Rightarrow> (case getCurTime (sw_end s) (sw_world s) of (t, w) \<Rightarrow>
         Some (Inr (s\<lparr>sw_end := t, sw_world := w, sw_spc := S_Record\<rparr>)))
     | S_Record \<Rightarrow> Some (storeSwitchTime s)
     | S_Done \<Rightarrow> None)"

definition signalReceiverStart :: "nat \<Rightarrow> nat \<Rightarrow> switching \<Rightarrow> switching option" where
  "signalReceiverStart major sub s = (case sw_rpc s of
       R_Top \<Rightarrow> if sw_rmajor s < major
         then (if waitNotifyLock s = None then Some (s\<lparr>waitNotifyLock := Some Receiver, sw_rpc := R_LockReady\<rparr>) else None)
         else Some (s\<lparr>sw_rpc := R_Done\<rparr>)
     | R_LockReady \<Rightarrow> if readyLock s = None then Some (s\<lparr>readyLock := Some Receiver, sw_rpc := R_Set\<rparr>) else None
     | R_Set \<Rightarrow> Some (signalReady (s\<lparr>receiverWaiting := True, sw_rpc := R_UnlockReady\<rparr>))
     | R_UnlockReady \<Rightarrow> Some (s\<lparr>readyLock := None, sw_rsub := 0, sw_rpc := R_Loop\<rparr>)
     | R_Loop \<Rightarrow> Some (if sw_rsub s < sub then s\<lparr>waitNotifyLock := None, sw_rpc := R_Waiting\<rparr> else s\<lparr>sw_rpc := R_Unlock\<rparr>)
     | R_Waiting \<Rightarrow> None
     | R_Woken \<Rightarrow> if waitNotifyLock s = None then Some (s\<lparr>waitNotifyLock := Some Receiver, sw_rpc := R_Signal\<rparr>) else None
     | R_Signal \<Rightarrow> Some ((signalWaitNotify s)\<lparr>sw_rsub := Suc (sw_rsub s), sw_rpc := R_Loop\<rparr>)
     | R_Unlock \<Rightarrow> Some (s\<lparr>waitNotifyLock := None, sw_rmajor := Suc (sw_rmajor s), sw_rpc := R_Top\<rparr>)
     | R_Done \<Rightarrow> None)"

section \<open>The test\<close>

definition switching_step :: "bool \<Rightarrow> nat \<Rightarrow> nat \<Rightarrow> switching \<Rightarrow> switching res option" where
  "switching_step sender_first major sub s = (if sender_first
     then (case signalSenderStart major sub s of None \<Rightarrow> map_option Inr (signalReceiverStart major sub s) | x \<Rightarrow> x)
     else (case signalReceiverStart major sub s of None \<Rightarrow> signalSenderStart major sub s | Some s' \<Rightarrow> Some (Inr s')))"

partial_function (option) join_both :: "(nat \<Rightarrow> bool) \<Rightarrow> nat \<Rightarrow> nat \<Rightarrow> nat \<Rightarrow> switching \<Rightarrow> (nat \<times> switching) run" where
  "join_both pick major sub tick s = (if sw_spc s = S_Done \<and> sw_rpc s = R_Done then Some (Inr (tick, s))
     else (case switching_step (pick tick) major sub s of None \<Rightarrow> None
       | Some (Inl e) \<Rightarrow> Some (Inl e)
       | Some (Inr s') \<Rightarrow> join_both pick major sub (Suc tick) s'))"

definition new_switching :: "nat \<Rightarrow> bool \<Rightarrow> world \<Rightarrow> switching" where
  "new_switching major waiting w = \<lparr>sw_spc = S_Top, sw_major = 0, sw_sub = 0, sw_rpc = R_Top, sw_rmajor = 0, sw_rsub = 0,
     receiverWaiting = waiting, readyLock = None, waitNotifyLock = None, sw_start = None, sw_end = None,
     threadSwitchTime = replicate major 0, sw_world = w\<rparr>"

definition record_switch :: "int list \<Rightarrow> nat \<Rightarrow> TestResults \<Rightarrow> TestResults res" where
  "record_switch ts i r = bind_res (aread ts (int i)) (\<lambda>timeDiff. setValuesAtNextIndex r timeDiff)"

text \<open>\<^verbatim>\<open>doRun\<close>: one run of both threads; the results of \<^verbatim>\<open>startThread\<close> are not looked at.  Joining a
  thread that has not been created reads a variable that is not set; without a receiver the sender is joined first.\<close>

definition doRun_dispatch :: "(nat \<Rightarrow> bool) \<Rightarrow> sched_env \<Rightarrow> int \<Rightarrow> int \<Rightarrow> TestResults \<times> dstate \<Rightarrow> (int \<times> TestResults \<times> dstate) run" where
  "doRun_dispatch pick e majorIterations subIters = (\<lambda>(r, tick, waiting, w).
     let receiver = snd (startThread e 1); d = new_switching (nat majorIterations) waiting w in
     if snd (startThread e 0) = None then Some (Inl Uninitialised)
     else bind_run (join_both pick (nat majorIterations) (nat subIters) tick (if receiver = None then d\<lparr>sw_rpc := R_Done\<rparr> else d)) (\<lambda>(tick, s).
       if receiver = None then Some (Inl Uninitialised)
       else Some (bind_res (for_res [0..<nat majorIterations] (record_switch (threadSwitchTime s)) r)
         (\<lambda>r. Inr (0, r, tick, receiverWaiting s, sw_world s)))))"

definition event_dispatch_test :: "(f64 \<Rightarrow> f64 \<Rightarrow> f64) \<Rightarrow> (nat \<Rightarrow> bool) \<Rightarrow> sched_env \<Rightarrow> cpp_test" where
  "event_dispatch_test pw pick e cl rtValues env =
     bind_run (Some (new_iters cl rtValues (ce_info env))) (\<lambda>newIters. let env = env\<lparr>ce_info := (ce_info env)\<lparr>numIterations := newIters\<rparr>\<rparr> in
     bind_run (Some (new_TestResults EVENT_DISPATCH_ID newIters)) (\<lambda>r.
     bind_run (Some (getClockAccuracy (ce_table env))) (\<lambda>clockAccuracy.
     bind_run (cpp_loop (doRun_dispatch pick e newIters) (judge (plain_args newIters (testThreshold (ce_info env)) rtValues clockAccuracy)) emptied_try id 2 0
         (removeOldValues r, 0, False, ce_world env)) (\<lambda>(rc, subIters, r, tick, waiting, w).
       Some (enter_scores pw env (r\<lparr>resultName := ''Event Dispatch test with high priority thread''\<rparr>) w)))))"

section \<open>The threads of the C program\<close>

text \<open>
  The abstraction forgets the times.  Where the C++ sender releases the lock, the C sender is about to take its second
  reading; once it has released it, the C sender has done both.
\<close>

definition as_c :: "switching \<Rightarrow> dispatch" where
  "as_c s = \<lparr>spc = (case sw_spc s of S_UnlockWait \<Rightarrow> S_End | S_End \<Rightarrow> S_Record | p \<Rightarrow> p), s_major = sw_major s, s_sub = sw_sub s,
     rpc = sw_rpc s, r_major = sw_rmajor s, r_sub = sw_rsub s, is_receiver_started = receiverWaiting s, ready_lock = readyLock s,
     wait_notify_lock = waitNotifyLock s, start_tm = sw_start s, end_tm = sw_end s, sender_start_time = [], receiver_end_time = [], ed_world = sw_world s\<rparr>"

definition switching_inv :: "nat \<Rightarrow> nat \<Rightarrow> switching \<Rightarrow> bool" where
  "switching_inv major sub s \<longleftrightarrow> dispatch_inv major sub (as_c s)"

definition switches_left :: "nat \<Rightarrow> nat \<Rightarrow> switching \<Rightarrow> nat" where
  "switches_left major sub s = 2 * steps_left major sub (as_c s) + (if sw_spc s = S_End then 1 else 0)"

lemma as_c_sel:
  "spc (as_c s) = (case sw_spc s of S_UnlockWait \<Rightarrow> S_End | S_End \<Rightarrow> S_Record | p \<Rightarrow> p)" "s_major (as_c s) = sw_major s" "s_sub (as_c s) = sw_sub s"
  "rpc (as_c s) = sw_rpc s" "r_major (as_c s) = sw_rmajor s" "r_sub (as_c s) = sw_rsub s" "is_receiver_started (as_c s) = receiverWaiting s"
  "ready_lock (as_c s) = readyLock s" "wait_notify_lock (as_c s) = waitNotifyLock s"
  by (simp_all add: as_c_def)

lemma as_c_pc: "spc (as_c s) = S_Waiting \<longleftrightarrow> sw_spc s = S_Waiting" "spc (as_c s) = S_WaitReady \<longleftrightarrow> sw_spc s = S_WaitReady"
  "rpc (as_c s) = sw_rpc s"
  by (cases "sw_spc s"; simp add: as_c_def)+

lemma receiver_as_c: "receiver_step major sub (as_c s) = map_option as_c (signalReceiverStart major sub s)"
  by (cases "sw_rpc s") (simp_all add: receiver_step_def signalReceiverStart_def as_c_pc as_c_def signalReady_def signal_ready_def
      signalWaitNotify_def signal_wait_notify_def split: s_pc.splits)

lemma receiver_switching:
  assumes "signalReceiverStart major sub s = Some s'" and "switching_inv major sub s"
  shows "switching_inv major sub s'" "switches_left major sub s' < switches_left major sub s"
proof -
  have c: "receiver_step major sub (as_c s) = Some (as_c s')" using assms(1) by (simp add: receiver_as_c)
  show "switching_inv major sub s'" using receiver_keeps [OF c] assms(2) by (simp add: switching_inv_def)
  have "sw_spc s' = S_End \<longrightarrow> sw_spc s = S_End"
    using assms(1) by (cases "sw_rpc s") (auto simp: signalReceiverStart_def signalReady_def signalWaitNotify_def split: if_splits)
  then show "switches_left major sub s' < switches_left major sub s"
    using receiver_decreases [OF c] assms(2) by (auto simp: switches_left_def switching_inv_def)
qed

text \<open>Up to the end of a major iteration the sender steps as the one of the C program.\<close>

lemma sender_as_c:
  assumes "signalSenderStart major sub s = Some (Inr s')" and "sw_spc s \<notin> {S_UnlockWait, S_End, S_Record}"
  shows "sender_step major sub (as_c s) = Some (Inr (as_c s'))"
  using assms
  by (cases "sw_spc s") (auto simp: signalSenderStart_def sender_step_def as_c_def signalWaitNotify_def signal_wait_notify_def
      getCurTime_def keep_reading_def get_cur_time_def split: if_splits option.splits r_pc.splits)

lemma storeSwitchTime_control: "storeSwitchTime s = Inr s' \<Longrightarrow> \<exists>ts. s' = s\<lparr>threadSwitchTime := ts, sw_major := Suc (sw_major s), sw_spc := S_Top\<rparr>"
  by (auto simp: storeSwitchTime_def bind_res_Inr_iff)

lemma sender_ends_cases:
  assumes "signalSenderStart major sub s = Some (Inr s')" and "sw_spc s \<in> {S_UnlockWait, S_End, S_Record}"
  obtains (unlock) "sw_spc s = S_UnlockWait" "s' = s\<lparr>waitNotifyLock := None, sw_spc := S_End\<rparr>"
    | (stop) t w where "sw_spc s = S_End" "s' = s\<lparr>sw_end := t, sw_world := w, sw_spc := S_Record\<rparr>" "getCurTime (sw_end s) (sw_world s) = (t, w)"
    | (store) ts where "sw_spc s = S_Record" "s' = s\<lparr>threadSwitchTime := ts, sw_major := Suc (sw_major s), sw_spc := S_Top\<rparr>" "storeSwitchTime s = Inr s'"
  using assms storeSwitchTime_control [of s s'] by (cases "sw_spc s") (auto simp: signalSenderStart_def split: prod.splits)

lemma sender_switching:
  assumes "signalSenderStart major sub s = Some (Inr s')" and "switching_inv major sub s"
  shows "switching_inv major sub s'" "switches_left major sub s' < switches_left major sub s"
proof -
  have "switching_inv major sub s' \<and> switches_left major sub s' < switches_left major sub s"
  proof (cases "sw_spc s \<in> {S_UnlockWait, S_End, S_Record}")
    case False
    note c = sender_as_c [OF assms(1) False]
    have "sw_spc s' \<noteq> S_End"
      using assms(1) False by (cases "sw_spc s") (auto simp: signalSenderStart_def signalWaitNotify_def split: if_splits prod.splits)
    then show ?thesis
      using sender_keeps [OF c] sender_decreases [OF c] assms(2) by (simp add: switches_left_def switching_inv_def)
  next
    case True
    have m: "sw_spc s = S_Record \<longrightarrow> sw_major s < major"
      using assms(2) by (auto simp: switching_inv_def dispatch_inv_def counters_ok_def as_c_def)
    have "switching_inv major sub s'"
      using assms(1) True
    proof (cases rule: sender_ends_cases)
      case unlock
      with assms(2) show ?thesis by (cases "sw_rpc s") (simp_all add: switching_inv_def dispatch_invs as_c_sel, auto?)
    next
      case stop
      with assms(2) show ?thesis by (cases "sw_rpc s") (simp_all add: switching_inv_def dispatch_invs as_c_sel, auto?)
    next
      case store
      with assms(2) m show ?thesis by (cases "sw_rpc s") (simp_all add: switching_inv_def dispatch_invs as_c_sel, auto?)
    qed
    moreover have "switches_left major sub s' < switches_left major sub s"
      using assms(1) True
    proof (cases rule: sender_ends_cases)
      case store
      with m show ?thesis by (cases "sw_rpc s") (simp_all add: switches_left_def steps_left_def s_rank_def r_rank_def as_c_sel next_major)
    qed (cases "sw_rpc s"; simp add: switches_left_def steps_left_def s_rank_def r_rank_def as_c_sel)+
    ultimately show ?thesis by simp
  qed
  then show "switching_inv major sub s'" "switches_left major sub s' < switches_left major sub s" by simp_all
qed

text \<open>Some thread can take a step until both have returned.\<close>

lemma some_switching_runs:
  assumes "switching_inv major sub s" and "\<not> (sw_spc s = S_Done \<and> sw_rpc s = R_Done)"
  shows "signalSenderStart major sub s \<noteq> None \<or> signalReceiverStart major sub s \<noteq> None"
proof -
  have "\<not> both_done (as_c s)" using assms(2) by (cases "sw_spc s") (simp_all add: both_done_def as_c_def)
  then have "sender_step major sub (as_c s) \<noteq> None \<or> receiver_step major sub (as_c s) \<noteq> None"
    using some_thread_runs assms(1) by (simp add: switching_inv_def)
  moreover have "signalSenderStart major sub s = None \<Longrightarrow> sender_step major sub (as_c s) = None"
    by (cases "sw_spc s") (simp_all add: signalSenderStart_def sender_step_def as_c_def split: if_splits prod.splits)
  ultimately show ?thesis by (auto simp: receiver_as_c)
qed

section \<open>The stored times\<close>

text \<open>The readings that \<open>n\<close> further major iterations and \<open>m\<close> iterations of later runs use.\<close>

definition switch_readings :: "int \<Rightarrow> int \<Rightarrow> nat \<Rightarrow> nat \<Rightarrow> switching \<Rightarrow> bool" where
  "switch_readings lo b major m s \<longleftrightarrow> (
     if sw_spc s \<in> {S_Loop, S_Wait, S_Waiting, S_Woken, S_UnlockWait, S_End} then \<exists>st en. sw_start s = Some st \<and> clk (sw_world s) (clk_n (sw_world s)) = Some en
       \<and> ts_ok st \<and> ts_ok en \<and> in_range lo b (ts_nsec en - ts_nsec st)
       \<and> clock_steps lo b (major - Suc (sw_major s) + m) ((sw_world s)\<lparr>clk_n := Suc (clk_n (sw_world s))\<rparr>)
     else if sw_spc s = S_Record then \<exists>st en. sw_start s = Some st \<and> sw_end s = Some en
       \<and> ts_ok st \<and> ts_ok en \<and> in_range lo b (ts_nsec en - ts_nsec st) \<and> clock_steps lo b (major - Suc (sw_major s) + m) (sw_world s)
     else clock_steps lo b (major - sw_major s + m) (sw_world s))"

definition switch_times :: "int \<Rightarrow> int \<Rightarrow> nat \<Rightarrow> nat \<Rightarrow> switching \<Rightarrow> bool" where
  "switch_times lo b major m s \<longleftrightarrow> length (threadSwitchTime s) = major \<and> (\<forall>i < sw_major s. in_range lo b (threadSwitchTime s ! i))
     \<and> switch_readings lo b major m s"

lemma receiver_frame:
  assumes "signalReceiverStart major sub s = Some s'"
  shows "threadSwitchTime s' = threadSwitchTime s" "sw_start s' = sw_start s" "sw_end s' = sw_end s" "sw_major s' = sw_major s" "sw_world s' = sw_world s"
    "sw_spc s' = sw_spc s \<or> sw_spc s = S_WaitReady \<and> sw_spc s' = S_WokenReady \<or> sw_spc s = S_Waiting \<and> sw_spc s' = S_Woken"
  using assms by (cases "sw_rpc s"; auto simp: signalReceiverStart_def signalReady_def signalWaitNotify_def split: if_splits)+

lemma receiver_switch_times:
  assumes "signalReceiverStart major sub s = Some s'" and "switch_times lo b major m s"
  shows "switch_times lo b major m s'"
proof -
  note f = receiver_frame [OF assms(1)]
  from f(6) have "switch_readings lo b major m s' = switch_readings lo b major m s"
  proof (elim disjE conjE)
    assume "sw_spc s' = sw_spc s"
    then show ?thesis by (simp only: switch_readings_def f(1-5))
  next
    assume "sw_spc s = S_WaitReady" "sw_spc s' = S_WokenReady"
    then show ?thesis by (simp add: switch_readings_def f(1-5))
  next
    assume "sw_spc s = S_Waiting" "sw_spc s' = S_Woken"
    then show ?thesis by (simp add: switch_readings_def f(1-5))
  qed
  then show ?thesis using assms(2) by (simp add: switch_times_def f(1-5))
qed

lemma time_between_ok: "ts_ok st \<Longrightarrow> ts_ok en \<Longrightarrow> 0 \<le> ts_nsec en - ts_nsec st \<Longrightarrow> time_between (Some st, Some en) = Inr (ts_nsec en - ts_nsec st)"
  using ts_nsec_range [of st] ts_nsec_range [of en]
  by (simp add: time_between_def getTimeDiff_c get_time_diff_def convert_ok chk_ll_ok is_ll_def)

lemma sender_switch_times:
  assumes "signalSenderStart major sub s = Some x" and "switch_times lo b major m s" "switching_inv major sub s"
  shows "\<exists>s'. x = Inr s' \<and> switch_times lo b major m s'"
proof -
  have c: "sw_spc s \<in> {S_Top, S_Done} \<or> sw_major s < major"
    using assms(3) by (cases "sw_spc s") (auto simp: switching_inv_def dispatch_inv_def counters_ok_def as_c_def)
  consider "sw_spc s = S_Start" | "sw_spc s = S_End" | "sw_spc s = S_Record" | "sw_spc s \<notin> {S_Start, S_End, S_Record}" by blast
  then show ?thesis
  proof cases
    case 1
    then have "major - sw_major s + m = Suc (major - Suc (sw_major s) + m)" using c by simp
    then have "clock_steps lo b (Suc (major - Suc (sw_major s) + m)) (sw_world s)"
      using assms(2) 1 by (simp add: switch_times_def switch_readings_def)
    then obtain st en where "clk (sw_world s) (clk_n (sw_world s)) = Some st" "clk (sw_world s) (Suc (clk_n (sw_world s))) = Some en"
      "ts_ok st" "ts_ok en" "in_range lo b (ts_nsec en - ts_nsec st)"
      "clock_steps lo b (major - Suc (sw_major s) + m) ((sw_world s)\<lparr>clk_n := Suc (Suc (clk_n (sw_world s)))\<rparr>)"
      by (rule ts_pair)
    with 1 assms(1,2) show ?thesis by (auto simp: signalSenderStart_def switch_times_def switch_readings_def getCurTime_def)
  next
    case 2
    with assms(1,2) show ?thesis by (auto simp: signalSenderStart_def switch_times_def switch_readings_def getCurTime_def)
  next
    case 3
    then obtain st en where t: "sw_start s = Some st" "sw_end s = Some en" "ts_ok st" "ts_ok en" "in_range lo b (ts_nsec en - ts_nsec st)"
      "clock_steps lo b (major - Suc (sw_major s) + m) (sw_world s)" using assms(2) by (auto simp: switch_times_def switch_readings_def)
    have l: "sw_major s < length (threadSwitchTime s)" using c 3 assms(2) by (simp add: switch_times_def)
    define s1 where "s1 = s\<lparr>threadSwitchTime := (threadSwitchTime s)[sw_major s := ts_nsec en - ts_nsec st], sw_major := Suc (sw_major s), sw_spc := S_Top\<rparr>"
    have "storeSwitchTime s = Inr s1"
      using t time_between_ok [OF t(3,4)] l by (simp add: storeSwitchTime_def awrite_ok in_range_def s1_def)
    then have "x = Inr s1" using 3 assms(1) by (simp add: signalSenderStart_def)
    moreover have "switch_times lo b major m s1"
      using t l assms(2) by (auto simp: switch_times_def switch_readings_def s1_def nth_list_update less_Suc_eq)
    ultimately show ?thesis by blast
  next
    case 4
    with assms(1,2) show ?thesis
      by (cases "sw_spc s") (auto simp: signalSenderStart_def switch_times_def switch_readings_def signalWaitNotify_def split: if_splits)
  qed
qed

section \<open>A run ends\<close>

lemma switching_step_keeps:
  assumes "switching_inv major sub s" and "switch_times lo b major m s" and "\<not> (sw_spc s = S_Done \<and> sw_rpc s = R_Done)"
  obtains s' where "switching_step p major sub s = Some (Inr s')" "switching_inv major sub s'" "switch_times lo b major m s'"
    "switches_left major sub s' < switches_left major sub s"
proof -
  have n: "signalSenderStart major sub s \<noteq> None \<or> signalReceiverStart major sub s \<noteq> None" by (rule some_switching_runs [OF assms(1,3)])
  have f: "\<exists>s'. x = Inr s'" if "signalSenderStart major sub s = Some x" for x using sender_switch_times [OF that assms(2,1)] by blast
  have "(\<exists>s'. switching_step p major sub s = Some (Inr s') \<and> signalSenderStart major sub s = Some (Inr s'))
      \<or> (\<exists>s'. switching_step p major sub s = Some (Inr s') \<and> signalReceiverStart major sub s = Some s')"
    using n f by (auto simp: switching_step_def split: option.split)
  then show thesis
  proof (elim disjE exE conjE)
    fix s' assume s: "switching_step p major sub s = Some (Inr s')" "signalSenderStart major sub s = Some (Inr s')"
    show thesis by (rule that [OF s(1)]) (use sender_switching [OF s(2) assms(1)] sender_switch_times [OF s(2) assms(2,1)] in auto)
  next
    fix s' assume s: "switching_step p major sub s = Some (Inr s')" "signalReceiverStart major sub s = Some s'"
    show thesis by (rule that [OF s(1)]) (use receiver_switching [OF s(2) assms(1)] receiver_switch_times [OF s(2) assms(2)] in auto)
  qed
qed

lemma join_both_ends:
  assumes "switching_inv major sub s" and "switch_times lo b major m s"
  shows "\<exists>tick' s'. join_both pick major sub tick s = Some (Inr (tick', s')) \<and> sw_spc s' = S_Done \<and> sw_rpc s' = R_Done
    \<and> switching_inv major sub s' \<and> switch_times lo b major m s'"
  using assms
proof (induction "switches_left major sub s" arbitrary: s tick rule: less_induct)
  case less
  show ?case
  proof (cases "sw_spc s = S_Done \<and> sw_rpc s = R_Done")
    case True
    then show ?thesis using less.prems by (subst join_both.simps) simp
  next
    case False
    obtain s' where s': "switching_step (pick tick) major sub s = Some (Inr s')" "switching_inv major sub s'" "switch_times lo b major m s'"
      "switches_left major sub s' < switches_left major sub s"
      using switching_step_keeps [OF less.prems False] by blast
    from less.hyps [OF s'(4,2,3), of "Suc tick"] show ?thesis
      by (subst join_both.simps) (simp only: False s'(1) if_False option.case sum.case)
  qed
qed

lemma new_switching_inv:
  assumes "0 < sub" and "clock_steps lo b (major + m) w"
  shows "switching_inv major sub (new_switching major False w)" "switch_times lo b major m (new_switching major False w)"
  using assms by (simp_all add: switching_inv_def dispatch_invs as_c_sel new_switching_def switch_times_def switch_readings_def)

lemma record_switches:
  "n \<le> length ts \<Longrightarrow> for_res [0..<n] (record_switch ts) r = record_all r (take n ts)"
proof (induction n arbitrary: r)
  case (Suc n)
  then have "record_switch ts n r' = setValuesAtNextIndex r' (ts ! n)" for r' by (simp add: record_switch_def aread_ok)
  with Suc show ?case by (simp add: for_res_append record_all_append take_Suc_conv_app_nth) (auto simp: bind_res_def split: sum.splits)
qed simp

section \<open>The contract of the loop\<close>

lemma startThread_created: "se_inherit e \<and> se_param e \<and> se_policy e \<Longrightarrow> snd (startThread e i) = None \<longleftrightarrow> \<not> se_create e i"
  by (simp add: startThread_def setPthreadAttrSchedParam_def Let_def)

definition both_start :: "sched_env \<Rightarrow> bool" where
  "both_start e \<longleftrightarrow> snd (startThread e 0) \<noteq> None \<and> snd (startThread e 1) \<noteq> None"

lemma doRun_dispatch_law:
  assumes "0 < q" and "dispatch_clock lo b (nat iters + m) s" and "run_ok iters b" and "fresh tid iters r" and "both_start e"
  shows "\<exists>ts r' s'. doRun_dispatch pick e iters q (r, s) = Some (Inr (0, r', s')) \<and> timed tid lo b iters r' ts \<and> dispatch_clock lo b m s'"
proof -
  obtain tick w where s: "s = (tick, False, w)" "clock_steps lo b (nat iters + m) w"
    using assms(2) by (cases s) (auto simp: dispatch_clock_def)
  have "0 < nat q" using assms(1) by simp
  from join_both_ends [OF new_switching_inv [OF this s(2)], of pick tick] obtain tick' d where
    j: "join_both pick (nat iters) (nat q) tick (new_switching (nat iters) False w) = Some (Inr (tick', d))"
    and d: "sw_spc d = S_Done" "sw_rpc d = R_Done" "switching_inv (nat iters) (nat q) d" "switch_times lo b (nat iters) m d" by blast
  let ?ts = "threadSwitchTime d"
  have mj: "sw_major d = nat iters" "\<not> receiverWaiting d" using d(1-3) by (simp_all add: switching_inv_def dispatch_inv_def counters_ok_def protocol_def as_c_sel)
  have t: "length ?ts = nat iters" "\<forall>t \<in> set ?ts. in_range lo b t" "clock_steps lo b m (sw_world d)"
    using d(1,4) mj(1) by (auto simp: switch_times_def switch_readings_def in_set_conv_nth)
  have len: "int (length ?ts) = iters" "?ts \<noteq> []" using assms(3) t(1) by (auto simp: run_ok_def)
  have ok: "times_ok b ?ts" using t(2) assms(3) len(1) by (simp add: times_ok_def run_ok_def in_range_def)
  obtain r' where r': "record_all r ?ts = Inr r'" "holds r' ?ts" "has_statistics r' ?ts" "room r' = room r" "testId r' = testId r"
    using record_all_full [OF _ _ len(2) ok, of r] len(1) assms(4) by (auto simp: fresh_def)
  have "for_res [0..<nat iters] (record_switch ?ts) r = Inr r'" using record_switches [of "nat iters" ?ts r] t(1) r'(1) by simp
  moreover have "timed tid lo b iters r' ?ts" using r' len ok t(2) assms(4) by (simp add: timed_def fresh_def in_range_def)
  ultimately show ?thesis using j t(3) mj(2) assms(5)
    by (intro exI [of _ ?ts] exI [of _ r'] exI [of _ "(tick', False, sw_world d)"])
      (auto simp: doRun_dispatch_def s(1) dispatch_clock_def both_start_def Let_def)
qed

interpretation cpp_dispatch: cpp_body "doRun_dispatch pick e" dispatch_clock id 1 "if both_start e then INT_MAX else 0" for pick e
  by unfold_locales (rule doRun_dispatch_law, auto split: if_splits)

text \<open>Without a receiver the sender waits for ever on the condition that only the receiver signals.\<close>

lemma sender_alone:
  assumes "0 < major"
  shows "join_both pick major sub tick ((new_switching major False w)\<lparr>sw_rpc := R_Done\<rparr>) = None"
proof -
  have s: "switching_step p major sub s = signalSenderStart major sub s" if "sw_rpc s = R_Done" for p s
    using that by (simp add: switching_step_def signalReceiverStart_def split: option.split)
  show ?thesis using assms
    by (simp add: join_both.simps [where s = "new_switching _ _ _\<lparr>sw_rpc := _\<rparr>"] s new_switching_def signalSenderStart_def)
      (simp add: join_both.simps [where s = "switching.make _ _ _ _ _ _ _ _ _ _ _ _ _"] join_both.simps s signalSenderStart_def)
qed

section \<open>Properties\<close>

text \<open>
  C20: Under every schedule without spurious wakeups the C++ \<^verbatim>\<open>event_dispatch\<close> ends when an exchange takes longer than the accuracy of
  the clock, for thresholds up to 30: it returns \<^verbatim>\<open>true\<close> and enters the statistics of one of its runs.  Failures to create its threads are not noticed: without
  the sender a variable that is not set is joined, and without the receiver the sender waits for ever.
\<close>

theorem cpp_event_dispatch_ends:
  assumes "plain_ok b cl rt env n acc" and "acc < lo" and "1 \<le> testThreshold (ce_info env)" "testThreshold (ce_info env) \<le> 30"
    and "clock_steps lo b (nat (testThreshold (ce_info env)) * nat n) (ce_world env)"
  shows "if snd (startThread e 0) = None then event_dispatch_test pw pick e cl rt env = Some (Inl Uninitialised)
    else if snd (startThread e 1) = None then event_dispatch_test pw pick e cl rt env = None
    else \<exists>ts r env'. event_dispatch_test pw pick e cl rt env = Some (Inr (True, env'))
      \<and> entered_as EVENT_DISPATCH_ID r (ce_table env) (ce_table env') \<and> timed EVENT_DISPATCH_ID lo b n r ts"
proof -
  let ?thr = "testThreshold (ce_info env)" and ?env = "env\<lparr>ce_info := (ce_info env)\<lparr>numIterations := n\<rparr>\<rparr>"
  let ?args = "plain_args n (testThreshold (ce_info env)) rt acc"
  have ok: "table_entries_ok (ce_table env)" "new_iters cl rt (ce_info env) = Inr n" "run_ok n b" "getClockAccuracy (ce_table env) = Inr acc"
    "is_int acc" "is_int ?thr" "percents (rangePct rt) (acceptablePct rt)" using assms(1) by (simp_all add: plain_ok_def)
  have n: "is_int n" "0 \<le> n" "0 < nat n" using ok(3) by (simp_all add: run_ok_def)
  obtain r0 where r0: "new_TestResults EVENT_DISPATCH_ID n = Inr r0" "fresh EVENT_DISPATCH_ID n r0" using new_fresh [OF n(1,2)] by blast
  let ?s = "(removeOldValues r0, 0, False, ce_world env)"
  have f: "fresh EVENT_DISPATCH_ID n (removeOldValues r0)" using removed_holds r0(2) by (auto simp: fresh_def)
  show ?thesis
  proof (cases "both_start e")
    case False
    have "doRun_dispatch pick e n 2 ?s = (if snd (startThread e 0) = None then Some (Inl Uninitialised) else None)"
      using False sender_alone [OF n(3)] by (auto simp: doRun_dispatch_def both_start_def Let_def)
    with False r0(1) ok show ?thesis by (auto simp: event_dispatch_test_def cpp_loop.simps both_start_def)
  next
    case True
    have "(2::int) ^ nat (?thr - 1) \<le> 2 ^ 29" using assms(4) by (intro power_increasing) simp_all
    then have q: "2 * 2 ^ nat (?thr - 1) \<le> INT_MAX" by simp
    have c: "dispatch_clock lo b (nat ?thr * nat n) (0, False, ce_world env)" using assms(5) by (simp add: dispatch_clock_def)
    have "\<exists>k ts r' w'. cpp_loop (doRun_dispatch pick e (ta_iterations ?args)) (judge ?args) emptied_try id 2 0 ?s = Some (Inr (0, 2 * 2 ^ k, r', w'))
      \<and> int k < ta_threshold ?args - 0 \<and> timed EVENT_DISPATCH_ID lo b (ta_iterations ?args) r' ts
      \<and> (meets (ta_acceptablePct ?args) r' \<or> int k = ta_threshold ?args - 1 - 0)"
      by (rule cpp_dispatch.ends_within_threshold) (use True ok f c q assms(2,3) emptied_try_renews in \<open>simp_all add: plain_args_def\<close>)
    then obtain k ts r1 s where r1: "cpp_loop (doRun_dispatch pick e n) (judge ?args) emptied_try id 2 0 ?s = Some (Inr (0, 2 * 2 ^ k, r1, s))"
      "timed EVENT_DISPATCH_ID lo b n r1 ts"
      by (elim exE conjE) (rule that; simp add: plain_args_def)
    obtain tick waiting w where "s = (tick, waiting, w)" by (cases s)
    note r1 = r1 [unfolded this]
    let ?r = "r1\<lparr>resultName := ''Event Dispatch test with high priority thread''\<rparr>"
    have "timed EVENT_DISPATCH_ID lo b n ?r ts" "table_entries_ok (ce_table ?env)" using r1(2) ok(1) by (simp_all add: timed_named)
    from enter_scores_ok [OF this, of pw w]
    obtain t' where "enter_scores pw ?env ?r w = Inr (True, ?env\<lparr>ce_table := t', ce_world := w\<rparr>)"
      "entered_as EVENT_DISPATCH_ID ?r (ce_table env) t'" by auto
    with r0(1) r1 ok \<open>timed EVENT_DISPATCH_ID lo b n ?r ts\<close>
    have "\<exists>ts r env'. event_dispatch_test pw pick e cl rt env = Some (Inr (True, env'))
      \<and> entered_as EVENT_DISPATCH_ID r (ce_table env) (ce_table env') \<and> timed EVENT_DISPATCH_ID lo b n r ts"
      by (intro exI [of _ ts] exI [of _ ?r] exI [of _ "?env\<lparr>ce_table := t', ce_world := w\<rparr>"]) (simp add: event_dispatch_test_def)
    with True show ?thesis by (auto simp: both_start_def)
  qed
qed

theorem cpp_event_dispatch_ends_witness:
  "\<exists>ts r env'. event_dispatch_test (\<lambda>x y. x) even fifo_env quick_params tenth_values steady_cenv = Some (Inr (True, env'))
    \<and> entered_as EVENT_DISPATCH_ID r (ce_table steady_cenv) (ce_table env') \<and> timed EVENT_DISPATCH_ID 50000 50000 1 r ts"
  using cpp_event_dispatch_ends [OF steady_plain, of 50000 fifo_env "\<lambda>x y. x" even]
  by (simp add: steady_cenv_def steady_info_def steady_clock startThread_created fifo_env_def)

end
