(* ===== verification/Cpp_Periodic.thy ===== *)
theory Cpp_Periodic
  imports Cpp_Tests Periodic_Event
begin

text \<open>
  The C++ implementation, \<^verbatim>\<open>PeriodicEventTest.cpp\<close>.  The signals, the calls of the timer library that succeed and the
  state of the handler are those of theory Periodic\_Event.
\<close>

section \<open>The handler and a run\<close>

definition timerExpiryHandler :: "int \<Rightarrow> periodic \<Rightarrow> periodic res" where
  "timerExpiryHandler eventsToFire s = (let w = pe_world s; s = s\<lparr>pe_world := w\<lparr>clk_n := Suc (clk_n w)\<rparr>\<rparr> in
     case clk w (clk_n w) of None \<Rightarrow> Inl Abort_called
     | Some firedTime \<Rightarrow> if \<not> pe_done s
         then (if events_fired s < eventsToFire
           then bind_res (awrite (dispatch_times s) (events_fired s) firedTime) (\<lambda>ts. Inr (s\<lparr>dispatch_times := ts, events_fired := events_fired s + 1\<rparr>))
           else Inr (s\<lparr>pe_done := True\<rparr>))
         else Inr s)"

text \<open>The handler and with it the loop around \<^verbatim>\<open>sigtimedwait\<close> are those of the C program.\<close>

lemma timerExpiryHandler_c: "timerExpiryHandler n s = timer_expiry_handler n s"
  by (simp add: timerExpiryHandler_def timer_expiry_handler_def get_cur_time_def Let_def split: option.split)

definition zero_ts :: timespec where
  "zero_ts = \<lparr>tv_sec = 0, tv_nsec = 0\<rparr>"

text \<open>
  \<open>fired\<close> are \<^verbatim>\<open>startTime\<close>, \<^verbatim>\<open>period\<close> and \<^verbatim>\<open>dispatchTimes\<close>, which are static.  A run returns whether it succeeded; \<^verbatim>\<open>return ERROR\<close>, which is -1,
  returns \<^verbatim>\<open>true\<close>.  \<^verbatim>\<open>timer_settime\<close> rejects an interval of a second or more in nanoseconds.
\<close>

definition doRun :: "timer_env \<Rightarrow> (nat \<Rightarrow> bool) \<Rightarrow> int \<Rightarrow> int \<Rightarrow> int \<Rightarrow> fired \<times> world \<times> nat \<Rightarrow> (bool \<times> fired \<times> world \<times> nat) run" where
  "doRun te arrives iters subIters timerAccuracy = (\<lambda>((startTime, period, _), w, tick).
     let dispatchTimes = replicate (nat iters) zero_ts in
     if \<not> te_signals te subIters then Some (Inr (True, (startTime, period, dispatchTimes), w, tick))
     else case clk w (clk_n w) of None \<Rightarrow> Some (Inr (False, (startTime, period, dispatchTimes), w\<lparr>clk_n := Suc (clk_n w)\<rparr>, tick))
     | Some now \<Rightarrow> let startTime = now; w = w\<lparr>clk_n := Suc (clk_n w)\<rparr> in
         if \<not> te_create te subIters then Some (Inr (False, (startTime, period, dispatchTimes), w, tick))
         else bind_run (Some (chk_ll (tv_sec startTime + 5))) (\<lambda>sec. let startTime = startTime\<lparr>tv_sec := sec\<rparr> in
           bind_run (Some (chk_ll (subIters * timerAccuracy))) (\<lambda>per. let period = \<lparr>tv_sec = 0, tv_nsec = per\<rparr> in
           if \<not> (te_settime te subIters \<and> 0 \<le> per \<and> per < 1000000000) then Some (Inr (False, (startTime, period, dispatchTimes), w, tick))
           else bind_run (wait_until_done arrives iters tick
               \<lparr>dispatch_times = dispatchTimes, events_fired = 0, pe_done = False, pe_world = w\<rparr>)
             (\<lambda>(tick, s). Some (Inr (True, (startTime, period, dispatch_times s), pe_world s, tick))))))"

definition lateness_step :: "int \<Rightarrow> timespec list \<Rightarrow> nat \<Rightarrow> int \<times> TestResults \<Rightarrow> (int \<times> TestResults) res" where
  "lateness_step per ts i = (\<lambda>(expectedFireTime, r). bind_res (aread ts (int i)) (\<lambda>t. bind_res (convertTimeToNsec t) (\<lambda>t.
     bind_res (chk_ll (t - expectedFireTime)) (\<lambda>timeDiff. bind_res (chk_ll (expectedFireTime + per)) (\<lambda>expectedFireTime.
     bind_res (setValuesAtNextIndex r timeDiff) (\<lambda>r. Inr (expectedFireTime, r)))))))"

definition addResults :: "fired \<Rightarrow> int \<Rightarrow> TestResults \<Rightarrow> TestResults res" where
  "addResults fired iters r = (case fired of (startTime, period, dispatchTimes) \<Rightarrow>
     bind_res (convertTimeToNsec period) (\<lambda>per. bind_res (convertTimeToNsec startTime) (\<lambda>expectedFireTime.
     bind_res (for_res [0..<nat iters] (lateness_step per dispatchTimes) (expectedFireTime, r)) (\<lambda>(expected, r). Inr r))))"

definition checkResults :: "TestResults \<Rightarrow> RealTimeValues \<Rightarrow> (bool \<times> TestResults) res" where
  "checkResults r rtValues = checkStdDev r (rangePct rtValues) (acceptablePct rtValues)"

section \<open>The test\<close>

text \<open>One attempt: \<^verbatim>\<open>rc\<close>, which ends the loop, \<^verbatim>\<open>runStatus\<close>, the result, and the state for the next.\<close>

definition periodic_try :: "timer_env \<Rightarrow> (nat \<Rightarrow> bool) \<Rightarrow> int \<Rightarrow> int \<Rightarrow> RealTimeValues \<Rightarrow> int \<Rightarrow> fired \<times> world \<times> nat \<Rightarrow>
    (bool \<times> bool \<times> TestResults \<times> fired \<times> world \<times> nat) run" where
  "periodic_try te arrives timerAccuracy newIters rtValues subIters s =
     bind_run (Some (new_TestResults PERIODIC_EVENTS_ID newIters)) (\<lambda>r. let r = r\<lparr>resultName := ''Periodic event test''\<rparr> in
     bind_run (doRun te arrives newIters subIters timerAccuracy s) (\<lambda>(runStatus, fired, w, tick).
       if runStatus then Some (bind_res (addResults fired newIters r) (\<lambda>r. bind_res (checkResults r rtValues) (\<lambda>(rc, r).
         Inr (rc, True, r, fired, w, tick))))
       else Some (Inr (False, False, r, fired, w, tick))))"

fun periodic_tries :: "(int \<Rightarrow> 's \<Rightarrow> (bool \<times> bool \<times> TestResults \<times> 's) run) \<Rightarrow> int list \<Rightarrow> bool \<Rightarrow> TestResults option \<Rightarrow> 's \<Rightarrow>
    (bool \<times> TestResults option \<times> 's) run" where
  "periodic_tries attempt [] runStatus results s = Some (Inr (runStatus, results, s))"
| "periodic_tries attempt (subIters # ks) runStatus results s = bind_run (attempt subIters s) (\<lambda>(rc, runStatus, r, s).
     if rc then Some (Inr (runStatus, Some r, s)) else periodic_tries attempt ks runStatus (Some r) s)"

definition periodic_event_test :: "(f64 \<Rightarrow> f64 \<Rightarrow> f64) \<Rightarrow> timer_env \<Rightarrow> (nat \<Rightarrow> bool) \<Rightarrow> cpp_test" where
  "periodic_event_test pw te arrives cl rtValues env =
     bind_run (Some (new_iters cl rtValues (ce_info env))) (\<lambda>newIters. let env = env\<lparr>ce_info := (ce_info env)\<lparr>numIterations := newIters\<rparr>\<rparr> in
     bind_run (Some (getTimeAccuracy (ce_table env))) (\<lambda>timerAccuracy.
     bind_run (periodic_tries (periodic_try te arrives timerAccuracy newIters rtValues) [1..testThreshold (ce_info env) - 1] False None
         ((zero_ts, zero_ts, []), ce_world env, 0)) (\<lambda>(runStatus, results, _, w, tick).
       if runStatus then (case results of None \<Rightarrow> Some (Inl Null_deref) | Some r \<Rightarrow> Some (enter_scores pw env r w))
       else Some (Inl Abort_called))))"

section \<open>An attempt records the lateness\<close>

definition cpp_due :: "timespec \<Rightarrow> int \<Rightarrow> nat \<Rightarrow> int" where
  "cpp_due now per i = ts_nsec now + 5000000000 + int i * per"

definition cpp_fires_late :: "int \<Rightarrow> int \<Rightarrow> int \<Rightarrow> nat \<Rightarrow> (nat \<Rightarrow> timespec option) \<Rightarrow> nat \<Rightarrow> bool" where
  "cpp_fires_late lo b per iters c n \<longleftrightarrow> c (n + Suc iters) \<noteq> None \<and> (\<exists>now. c n = Some now \<and> ts_ok now \<and> tv_sec now < 6999999995
     \<and> (\<forall>i < iters. \<exists>t. c (n + Suc i) = Some t \<and> ts_ok t \<and> in_range lo b (ts_nsec t - cpp_due now per i)))"

definition cpp_lateness :: "nat \<Rightarrow> (nat \<Rightarrow> timespec option) \<Rightarrow> int \<Rightarrow> nat \<Rightarrow> int list" where
  "cpp_lateness iters c per n = map (\<lambda>i. ts_nsec (the (c (n + Suc i))) - cpp_due (the (c n)) per i) [0..<iters]"

lemma convertTimeToNsec_c: "convertTimeToNsec t = convert_time_to_nsec t"
  by (simp add: convertTimeToNsec_def convert_time_to_nsec_def)

text \<open>The loop of \<^verbatim>\<open>addResults\<close> records the differences from the due times.\<close>

lemma lateness_recorded:
  assumes "m \<le> length ts" "\<forall>t \<in> set ts. ts_ok t" and "0 \<le> per" "per < 1000000000" "0 \<le> e" "is_int (int m)"
    and "\<forall>i < m. is_ll (ts_nsec (ts ! i) - (e + int i * per))" and "e < 7000000000000000000"
  shows "for_res [0..<m] (lateness_step per ts) (e, r)
    = bind_res (record_all r (map (\<lambda>i. ts_nsec (ts ! i) - (e + int i * per)) [0..<m])) (\<lambda>r. Inr (e + int m * per, r))"
  using assms(1,6,7)
proof (induction m)
  case (Suc m)
  let ?t = "ts ! m" and ?e = "e + int m * per"
  have m: "is_int (int m)" "m \<le> length ts" "\<forall>i < m. is_ll (ts_nsec (ts ! i) - (e + int i * per))"
    using Suc.prems by (auto simp: is_int_def)
  have t: "ts_ok ?t" using Suc.prems(1) assms(2) by simp
  have "int m * per \<le> 2147483647 * 1000000000" using assms(3,4) m(1) by (intro mult_mono) (simp_all add: is_int_def)
  moreover have "0 \<le> int m * per" using assms(3) by simp
  ultimately have ll: "is_ll (?e + per)" using assms(3-5,8) unfolding is_ll_def by linarith
  have step: "lateness_step per ts m (?e, r') = bind_res (setValuesAtNextIndex r' (ts_nsec ?t - ?e)) (\<lambda>r. Inr (?e + per, r))" for r'
    using Suc.prems ll by (simp add: lateness_step_def aread_ok convertTimeToNsec_c convert_ok [OF t] chk_ll_ok)
  have "?e + per = e + int (Suc m) * per" by (simp add: distrib_right)
  then show ?case
    using Suc.IH [OF m(2,1,3)] by (auto simp: for_res_append record_all_append step bind_res_def simp del: of_nat_Suc split: sum.splits)
qed simp

lemma addResults_timed:
  assumes "cpp_fires_late lo b per (nat iters) c n" "c n = Some now" and "0 \<le> per" "per < 1000000000"
    and "run_ok iters b" and "fresh tid iters r"
  shows "\<exists>r'. addResults (now\<lparr>tv_sec := tv_sec now + 5\<rparr>, \<lparr>tv_sec = 0, tv_nsec = per\<rparr>, map (\<lambda>i. the (c (n + Suc i))) [0..<nat iters]) iters r = Inr r'
    \<and> timed tid lo b iters r' (cpp_lateness (nat iters) c per n)"
proof -
  define ds where "ds = map (\<lambda>i. the (c (n + Suc i))) [0..<nat iters]"
  let ?ts = "cpp_lateness (nat iters) c per n"
  define E where "E = ts_nsec now + 5000000000"
  have now: "ts_ok now" "tv_sec now < 6999999995" using assms(1,2) by (auto simp: cpp_fires_late_def)
  have f: "ts_ok (the (c (n + Suc i)))" "in_range lo b (ts_nsec (the (c (n + Suc i))) - cpp_due now per i)" if "i < nat iters" for i
    using assms(1,2) that unfolding cpp_fires_late_def by fastforce+
  have ds: "length ds = nat iters" "\<forall>t \<in> set ds. ts_ok t" using f(1) by (auto simp: ds_def)
  have E: "0 \<le> E" "E < 7000000000000000000" using now by (auto simp: E_def ts_nsec_def ts_ok_def)
  have late: "?ts = map (\<lambda>i. ts_nsec (ds ! i) - (E + int i * per)) [0..<nat iters]"
    using assms(2) by (auto simp: cpp_lateness_def ds_def E_def cpp_due_def)
  have it: "is_int iters" "0 \<le> iters" using assms(5) by (simp_all add: run_ok_def)
  have len: "int (length ?ts) = iters" "?ts \<noteq> []" using assms(5) by (simp_all add: cpp_lateness_def run_ok_def)
  have range: "\<forall>t \<in> set ?ts. in_range lo b t" using f(2) assms(2) by (auto simp: cpp_lateness_def)
  then have ok: "times_ok b ?ts" using assms(5) len(1) by (simp add: times_ok_def run_ok_def in_range_def)
  have "is_ll (ts_nsec (ds ! i) - (E + int i * per))" if "i < nat iters" for i
  proof -
    have "in_range lo b (ts_nsec (ds ! i) - (E + int i * per))" using range that unfolding late by simp
    moreover have "ts_ok (ds ! i)" using ds that by (simp add: all_set_conv_all_nth)
    moreover have "0 \<le> E + int i * per" using E(1) assms(3) by simp
    ultimately show ?thesis using ts_nsec_range [of "ds ! i"] by (simp add: in_range_def is_ll_def)
  qed
  then have l: "for_res [0..<nat iters] (lateness_step per ds) (E, r) = bind_res (record_all r ?ts) (\<lambda>r. Inr (E + int (nat iters) * per, r))"
    unfolding late using ds assms(3,4) E it by (intro lateness_recorded) simp_all
  obtain r' where r': "record_all r ?ts = Inr r'" "holds r' ?ts" "has_statistics r' ?ts" "room r' = room r" "testId r' = testId r"
    using record_all_full [OF _ _ len(2) ok, of r] len(1) assms(6) by (auto simp: fresh_def)
  have "ts_ok (now\<lparr>tv_sec := tv_sec now + 5\<rparr>)" "ts_ok \<lparr>tv_sec = 0, tv_nsec = per\<rparr>"
    using now assms(3,4) by (auto simp: ts_ok_def)
  then have "convertTimeToNsec (now\<lparr>tv_sec := tv_sec now + 5\<rparr>) = Inr E" "convertTimeToNsec \<lparr>tv_sec = 0, tv_nsec = per\<rparr> = Inr per"
    by (simp_all add: convertTimeToNsec_c convert_ok ts_nsec_def E_def algebra_simps)
  then have "addResults (now\<lparr>tv_sec := tv_sec now + 5\<rparr>, \<lparr>tv_sec = 0, tv_nsec = per\<rparr>, ds) iters r = Inr r'"
    using l r'(1) by (simp add: addResults_def)
  moreover have "timed tid lo b iters r' ?ts" using r' len ok range assms(6) by (simp add: timed_def fresh_def in_range_def)
  ultimately show ?thesis unfolding ds_def by blast
qed

lemma doRun_fires:
  assumes "keeps_arriving arrives" and "te_signals te k" "te_create te k" "te_settime te k" and "0 \<le> iters"
    and "0 \<le> k * A" "k * A < 1000000000" and "cpp_fires_late lo b (k * A) (nat iters) (clk w) (clk_n w)" and "clk w (clk_n w) = Some now"
  shows "\<exists>tick'. doRun te arrives iters k A (fired, w, tick) = Some (Inr (True, (now\<lparr>tv_sec := tv_sec now + 5\<rparr>, \<lparr>tv_sec = 0, tv_nsec = k * A\<rparr>,
      map (\<lambda>i. the (clk w (clk_n w + Suc i))) [0..<nat iters]), w\<lparr>clk_n := clk_n w + nat iters + 2\<rparr>, tick'))"
proof -
  let ?w = "w\<lparr>clk_n := Suc (clk_n w)\<rparr>"
  let ?s = "\<lparr>dispatch_times = replicate (nat iters) zero_ts, events_fired = 0, pe_done = False, pe_world = ?w\<rparr>"
  have "\<exists>t. clk w (clk_n w + Suc i) = Some t" if "i \<le> nat iters" for i
    using assms(8) that unfolding cpp_fires_late_def by (cases "i = nat iters") (auto simp: le_less)
  then have r: "\<forall>i \<le> nat iters. \<exists>t. clk (pe_world ?s) (clk_n (pe_world ?s) + i) = Some t" by simp
  obtain tick' s' where s': "wait_until_done arrives iters tick ?s = Some (Inr (tick', s'))"
    "dispatch_times s' = map (\<lambda>i. the (clk w (Suc (clk_n w) + i))) [0..<nat iters]"
    "pe_world s' = w\<lparr>clk_n := clk_n w + nat iters + 2\<rparr>"
    using wait_ends [where tick = tick, OF assms(1) _ _ _ r] assms(5) by auto
  have "0 \<le> tv_sec now" "tv_sec now < 6999999995" using assms(8,9) by (auto simp: cpp_fires_late_def ts_ok_def)
  then have "is_ll (tv_sec now + 5)" by (simp add: is_ll_def)
  moreover have "is_ll (k * A)" using assms(6,7) by (simp add: is_ll_def)
  moreover obtain start per ts where "fired = (start, per, ts)" by (metis prod.exhaust)
  ultimately show ?thesis using s' assms(2-4,6,7,9) by (simp add: doRun_def chk_ll_ok Let_def)
qed

lemma periodic_try_ends:
  assumes "keeps_arriving arrives" and "te_signals te k" "te_create te k" "te_settime te k" and "run_ok iters b"
    and "percents (rangePct rt) (acceptablePct rt)" and "0 \<le> k * A" "k * A < 1000000000"
    and "cpp_fires_late lo b (k * A) (nat iters) (clk w) (clk_n w)"
  shows "\<exists>r fired' tick'. periodic_try te arrives A iters rt k (fired, w, tick)
      = Some (Inr (times_meet (rangePct rt) (acceptablePct rt) (cpp_lateness (nat iters) (clk w) (k * A) (clk_n w)), True, r, fired', w\<lparr>clk_n := clk_n w + nat iters + 2\<rparr>, tick'))
    \<and> timed PERIODIC_EVENTS_ID lo b iters r (cpp_lateness (nat iters) (clk w) (k * A) (clk_n w))"
proof -
  obtain now where now: "clk w (clk_n w) = Some now" using assms(9) by (auto simp: cpp_fires_late_def)
  have it: "0 \<le> iters" "is_int iters" using assms(5) by (simp_all add: run_ok_def)
  obtain tick' where run: "doRun te arrives iters k A (fired, w, tick) = Some (Inr (True, (now\<lparr>tv_sec := tv_sec now + 5\<rparr>, \<lparr>tv_sec = 0, tv_nsec = k * A\<rparr>,
      map (\<lambda>i. the (clk w (clk_n w + Suc i))) [0..<nat iters]), w\<lparr>clk_n := clk_n w + nat iters + 2\<rparr>, tick'))"
    using doRun_fires [OF assms(1-4) it(1) assms(7-9) now] by blast
  obtain r0 where r0: "new_TestResults PERIODIC_EVENTS_ID iters = Inr r0" "fresh PERIODIC_EVENTS_ID iters r0" using new_fresh it by blast
  let ?r0 = "r0\<lparr>resultName := ''Periodic event test''\<rparr>"
  have "fresh PERIODIC_EVENTS_ID iters ?r0" using r0(2) by (simp add: fresh_def holds_def room_def)
  from addResults_timed [OF assms(9) now assms(7,8,5) this] obtain r1 where
    r1: "addResults (now\<lparr>tv_sec := tv_sec now + 5\<rparr>, \<lparr>tv_sec = 0, tv_nsec = k * A\<rparr>, map (\<lambda>i. the (clk w (clk_n w + Suc i))) [0..<nat iters]) iters ?r0 = Inr r1"
    "timed PERIODIC_EVENTS_ID lo b iters r1 (cpp_lateness (nat iters) (clk w) (k * A) (clk_n w))" by blast
  obtain r2 where "checkStdDev r1 (rangePct rt) (acceptablePct rt) = Inr (meets (acceptablePct rt) r2, r2)"
    "timed PERIODIC_EVENTS_ID lo b iters r2 (cpp_lateness (nat iters) (clk w) (k * A) (clk_n w))" "meets (acceptablePct rt) r2 = times_meet (rangePct rt) (acceptablePct rt) (cpp_lateness (nat iters) (clk w) (k * A) (clk_n w))"
    using checkStdDev_timed [OF r1(2) assms(6)] by blast
  with run r0(1) r1(1) show ?thesis
    by (intro exI [of _ r2] exI) (simp add: periodic_try_def checkResults_def Let_def)
qed

text \<open>The attempts follow each other; \<open>st j\<close> holds of the state before attempt \<open>j + 1\<close>.\<close>

lemma periodic_tries_end:
  assumes "\<And>k s. 1 \<le> k \<Longrightarrow> k \<le> thr \<Longrightarrow> st (k - 1) s \<Longrightarrow> \<exists>r s'. attempt k s = Some (Inr (met k, True, r, s')) \<and> P k r \<and> st k s'"
    and "1 \<le> k" "k \<le> thr" "st (k - 1) s"
  shows "\<exists>j r s'. periodic_tries attempt [k..thr] b res s = Some (Inr (True, Some r, s')) \<and> k \<le> j \<and> j \<le> thr \<and> P j r
    \<and> (\<forall>i. k \<le> i \<and> i < j \<longrightarrow> \<not> met i) \<and> (met j \<or> j = thr) \<and> st j s'"
  using assms(2-4)
proof (induction "nat (thr - k)" arbitrary: k b res s)
  case 0
  then have k: "k = thr" by simp
  obtain r s' where "attempt k s = Some (Inr (met k, True, r, s'))" "P k r" "st k s'" using assms(1) 0 by blast
  with k show ?case by (intro exI [of _ k] exI [of _ r] exI [of _ s']) auto
next
  case (Suc m)
  obtain r s1 where r: "attempt k s = Some (Inr (met k, True, r, s1))" "P k r" "st k s1" using assms(1) Suc.prems by blast
  have u: "[k..thr] = k # [k + 1..thr]" using Suc.prems by (simp add: upto_rec1)
  show ?case
  proof (cases "met k")
    case True
    with r u Suc.prems show ?thesis by (intro exI [of _ k] exI [of _ r] exI [of _ s1]) auto
  next
    case False
    have "m = nat (thr - (k + 1))" "1 \<le> k + 1" "k + 1 \<le> thr" "st (k + 1 - 1) s1" using Suc.hyps(2) Suc.prems r(3) by simp_all
    from Suc.hyps(1) [OF this, of True "Some r"] obtain j r' s' where
      "periodic_tries attempt [k + 1..thr] True (Some r) s1 = Some (Inr (True, Some r', s'))" "k + 1 \<le> j" "j \<le> thr" "P j r'" "met j \<or> j = thr" "st j s'"
      and early: "\<forall>i. k + 1 \<le> i \<and> i < j \<longrightarrow> \<not> met i" by blast
    moreover have "\<not> met i" if "k \<le> i" "i < j" for i using early False that by (cases "i = k") auto
    ultimately show ?thesis using r False u by (intro exI [of _ j] exI [of _ r'] exI [of _ s']) simp
  qed
qed

lemma zero_ts_nsec: "ts_nsec zero_ts = 0" "ts_ok zero_ts"
  by (simp_all add: zero_ts_def ts_nsec_def ts_ok_def)
lemma addResults_zero:
  assumes "fresh tid iters r" and "run_ok iters b"
  shows "\<exists>r'. addResults (zero_ts, zero_ts, replicate (nat iters) zero_ts) iters r = Inr r' \<and> timed tid 0 b iters r' (replicate (nat iters) 0)"
proof -
  let ?ts = "replicate (nat iters) (0 :: int)"
  have it: "is_int iters" "0 < iters" using assms(2) by (simp_all add: run_ok_def)
  have len: "int (length ?ts) = iters" "?ts \<noteq> []" using it by simp_all
  have ok: "times_ok b ?ts" using assms(2) len by (auto simp: times_ok_def run_ok_def)
  obtain r' where r': "record_all r ?ts = Inr r'" "holds r' ?ts" "has_statistics r' ?ts" "room r' = room r" "testId r' = testId r"
    using record_all_full [OF _ _ len(2) ok, of r] len(1) assms(1) by (auto simp: fresh_def)
  have "map (\<lambda>i. ts_nsec (replicate (nat iters) zero_ts ! i) - (0 + int i * 0)) [0..<nat iters] = ?ts"
    by (rule nth_equalityI) (simp_all add: zero_ts_nsec)
  moreover have "is_ll 0" by (simp add: is_ll_def)
  ultimately have "for_res [0..<nat iters] (lateness_step 0 (replicate (nat iters) zero_ts)) (0, r) = bind_res (record_all r ?ts) (\<lambda>r. Inr (0, r))"
    using lateness_recorded [of "nat iters" "replicate (nat iters) zero_ts" 0 0 r] it by (simp add: zero_ts_nsec)
  then have "addResults (zero_ts, zero_ts, replicate (nat iters) zero_ts) iters r = Inr r'"
    using r'(1) by (simp add: addResults_def convertTimeToNsec_c convert_ok zero_ts_nsec)
  with r' len ok assms(1) show ?thesis by (simp add: timed_def fresh_def)
qed

text \<open>An attempt whose signals cannot be set up.\<close>

lemma periodic_try_unset:
  assumes "\<not> te_signals te k" and "run_ok iters b" and "percents (rangePct rt) (acceptablePct rt)"
  shows "\<exists>r. periodic_try te arrives A iters rt k ((zero_ts, zero_ts, ts), w, tick)
      = Some (Inr (times_meet (rangePct rt) (acceptablePct rt) (replicate (nat iters) 0), True, r, (zero_ts, zero_ts, replicate (nat iters) zero_ts), w, tick))
    \<and> timed PERIODIC_EVENTS_ID 0 b iters r (replicate (nat iters) 0)"
proof -
  have it: "0 \<le> iters" "is_int iters" using assms(2) by (simp_all add: run_ok_def)
  obtain r0 where r0: "new_TestResults PERIODIC_EVENTS_ID iters = Inr r0" "fresh PERIODIC_EVENTS_ID iters r0" using new_fresh it by blast
  let ?r0 = "r0\<lparr>resultName := ''Periodic event test''\<rparr>"
  have "fresh PERIODIC_EVENTS_ID iters ?r0" using r0(2) by (simp add: fresh_def holds_def room_def)
  from addResults_zero [OF this assms(2)] obtain r1 where r1: "addResults (zero_ts, zero_ts, replicate (nat iters) zero_ts) iters ?r0 = Inr r1"
    "timed PERIODIC_EVENTS_ID 0 b iters r1 (replicate (nat iters) 0)" by blast
  obtain r2 where "checkStdDev r1 (rangePct rt) (acceptablePct rt) = Inr (meets (acceptablePct rt) r2, r2)"
    "timed PERIODIC_EVENTS_ID 0 b iters r2 (replicate (nat iters) 0)" "meets (acceptablePct rt) r2 = times_meet (rangePct rt) (acceptablePct rt) (replicate (nat iters) 0)"
    using checkStdDev_timed [OF r1(2) assms(3)] by blast
  with r0(1) r1(1) assms(1) show ?thesis
    by (intro exI [of _ r2]) (simp add: periodic_try_def doRun_def checkResults_def Let_def)
qed

text \<open>An attempt whose period is negative.\<close>

lemma periodic_try_negative:
  assumes "te_signals te k" and "\<forall>i t. clk w i = Some t \<longrightarrow> is_ll (tv_sec t + 5)" and "is_ll (k * A)" "k * A < 0" and "is_int iters" "0 \<le> iters"
  shows "\<exists>r fired' m. periodic_try te arrives A iters rt k (fired, w, tick) = Some (Inr (False, False, r, fired', w\<lparr>clk_n := m\<rparr>, tick))"
proof -
  obtain r0 where "new_TestResults PERIODIC_EVENTS_ID iters = Inr r0" using new_fresh assms(5,6) by blast
  moreover obtain start per ts where "fired = (start, per, ts)" by (metis prod.exhaust)
  ultimately show ?thesis using assms(1-4)
    by (cases "clk w (clk_n w)") (force simp: periodic_try_def doRun_def chk_ll_ok Let_def)+
qed

lemma periodic_tries_fail:
  assumes "\<And>k s. k \<in> set ks \<Longrightarrow> J s \<Longrightarrow> \<exists>r s'. attempt k s = Some (Inr (False, False, r, s')) \<and> J s'" and "J s"
  shows "\<exists>res' s'. periodic_tries attempt ks False res s = Some (Inr (False, res', s'))"
  using assms
proof (induction ks arbitrary: res s)
  case (Cons k ks)
  obtain r s' where "attempt k s = Some (Inr (False, False, r, s'))" "J s'" using Cons.prems by fastforce
  moreover from this obtain res' s'' where "periodic_tries attempt ks False (Some r) s' = Some (Inr (False, res', s''))"
    using Cons.IH [of s' "Some r"] Cons.prems(1) by fastforce
  ultimately show ?case by simp
qed simp

section \<open>Properties\<close>

text \<open>The lateness in attempt \<open>k\<close>, when the handler has read the clock as often as it has to in the attempts before.\<close>

definition cpp_attempt :: "nat \<Rightarrow> world \<Rightarrow> int \<Rightarrow> int \<Rightarrow> int list" where
  "cpp_attempt iters w A k = cpp_lateness iters (clk w) (k * A) (clk_n w + nat (k - 1) * (iters + 2))"

text \<open>
  C34: When the signals of the timer keep arriving, the C++ \<^verbatim>\<open>periodic_event\<close> with a threshold of at least 2 returns \<^verbatim>\<open>true\<close>
  after at most one attempt less than its threshold, as long as the periods stay below a second.  It enters the lateness of the handler in
  attempt \<open>j\<close>, whose period is \<open>j\<close> times the accuracy of the timer: no attempt before \<open>j\<close> met the pass criteria, and \<open>j\<close> did or is the last one.
\<close>

theorem cpp_periodic_ends:
  assumes "keeps_arriving arrives" and "plain_ok b cl rt env n acc" and "getTimeAccuracy (ce_table env) = Inr A" "0 \<le> A"
    and "2 \<le> testThreshold (ce_info env)" "(testThreshold (ce_info env) - 1) * A < 1000000000"
    and "\<And>k. 1 \<le> k \<Longrightarrow> k < testThreshold (ce_info env) \<Longrightarrow> te_signals te k \<and> te_create te k \<and> te_settime te k
      \<and> cpp_fires_late lo b (k * A) (nat n) (clk (ce_world env)) (clk_n (ce_world env) + nat (k - 1) * (nat n + 2))"
  shows "\<exists>j r env'. periodic_event_test pw te arrives cl rt env = Some (Inr (True, env'))
    \<and> entered_as PERIODIC_EVENTS_ID r (ce_table env) (ce_table env') \<and> 1 \<le> j \<and> j < testThreshold (ce_info env)
    \<and> timed PERIODIC_EVENTS_ID lo b n r (cpp_attempt (nat n) (ce_world env) A j)
    \<and> (\<forall>i. 1 \<le> i \<and> i < j \<longrightarrow> \<not> times_meet (rangePct rt) (acceptablePct rt) (cpp_attempt (nat n) (ce_world env) A i))
    \<and> (times_meet (rangePct rt) (acceptablePct rt) (cpp_attempt (nat n) (ce_world env) A j) \<or> j = testThreshold (ce_info env) - 1)"
proof -
  let ?w = "ce_world env" and ?d = "nat n + 2" and ?thr = "testThreshold (ce_info env) - 1"
  let ?env = "env\<lparr>ce_info := (ce_info env)\<lparr>numIterations := n\<rparr>\<rparr>"
  let ?att = "periodic_try te arrives A n rt"
  have ok: "table_entries_ok (ce_table env)" "new_iters cl rt (ce_info env) = Inr n" "run_ok n b" "percents (rangePct rt) (acceptablePct rt)"
    using assms(2) by (simp_all add: plain_ok_def)
  define st where "st = (\<lambda>j (s :: fired \<times> world \<times> nat). fst (snd s) = ?w\<lparr>clk_n := clk_n ?w + nat j * ?d\<rparr>)"
  define P where "P = (\<lambda>k r. timed PERIODIC_EVENTS_ID lo b n r (cpp_attempt (nat n) ?w A k))"
  let ?met = "\<lambda>k. times_meet (rangePct rt) (acceptablePct rt) (cpp_attempt (nat n) ?w A k)"
  have att: "\<exists>r s'. ?att k s = Some (Inr (?met k, True, r, s')) \<and> P k r \<and> st k s'" if k: "1 \<le> k" "k \<le> ?thr" "st (k - 1) s" for k s
  proof -
    obtain fired tick where s: "s = (fired, ?w\<lparr>clk_n := clk_n ?w + nat (k - 1) * ?d\<rparr>, tick)" using k(3) by (cases s) (auto simp: st_def)
    have "k * A \<le> ?thr * A" using k(2) assms(4) by (intro mult_right_mono)
    then have "k * A < 1000000000" using assms(6) by linarith
    moreover have "0 \<le> k * A" using k(1) assms(4) by simp
    moreover have "nat k = Suc (nat (k - 1))" using k(1) by simp
    ultimately show ?thesis
      using periodic_try_ends [where w = "?w\<lparr>clk_n := clk_n ?w + nat (k - 1) * ?d\<rparr>" and tick = tick and fired = fired and te = te and k = k
          and A = A and lo = lo, OF assms(1) _ _ _ ok(3,4)] assms(7) [of k] k(1,2)
      by (auto simp: P_def st_def s cpp_attempt_def algebra_simps)
  qed
  have "1 \<le> ?thr" "st (1 - 1) ((zero_ts, zero_ts, []), ?w, 0)" using assms(5) by (simp_all add: st_def)
  from periodic_tries_end [where st = st and attempt = ?att and met = ?met and P = P and k = 1 and thr = ?thr and b = False and res = None, OF att order_refl this]
  obtain j r s' where j: "periodic_tries ?att [1..?thr] False None ((zero_ts, zero_ts, []), ?w, 0) = Some (Inr (True, Some r, s'))"
    "1 \<le> j" "j \<le> ?thr" "P j r" "?met j \<or> j = ?thr" "\<forall>i. 1 \<le> i \<and> i < j \<longrightarrow> \<not> ?met i" by blast
  obtain f w tick where s': "s' = (f, w, tick)" by (metis prod.exhaust)
  have "timed PERIODIC_EVENTS_ID lo b n r (cpp_attempt (nat n) ?w A j)" using j(4) by (simp add: P_def)
  moreover from this obtain t' where "enter_scores pw ?env r w = Inr (True, ?env\<lparr>ce_table := t', ce_world := w\<rparr>)" "entered_as PERIODIC_EVENTS_ID r (ce_table env) t'"
    using enter_scores_ok [of PERIODIC_EVENTS_ID lo b n r _ ?env pw w] ok(1) by auto
  ultimately show ?thesis using j s' ok(2) assms(3)
    by (intro exI [of _ j] exI [of _ r] exI [of _ "?env\<lparr>ce_table := t', ce_world := w\<rparr>"]) (simp add: periodic_event_test_def)
qed

text \<open>One iteration, one attempt: the handler runs 100 ns late.\<close>

definition late_cenv :: cenv where
  "late_cenv = slept_cenv\<lparr>ce_info := steady_info\<lparr>testThreshold := 2\<rparr>,
     ce_world := steady_world\<lparr>clk := \<lambda>k. Some (if k = 0 then zero_ts else \<lparr>tv_sec = 5, tv_nsec = 100\<rparr>)\<rparr>\<rparr>"

lemma late_plain: "plain_ok 50000 quick_params tenth_values late_cenv 1 (- 1)"
  using slept_plain by (simp add: plain_ok_def late_cenv_def slept_cenv_def steady_cenv_def new_iters_def quick_params_def is_int_def)

lemma slept_accuracy: "getTimeAccuracy (ce_table slept_cenv) = Inr 50000"
  using slept_timer by (simp add: getTimeAccuracy_def one_sleep_def f64_to_ll_def is_ll_def)

lemma late_fires_once: "cpp_fires_late 100 50000 A 1 (clk (ce_world late_cenv)) 0"
  by (auto simp: cpp_fires_late_def late_cenv_def ts_ok_def zero_ts_def in_range_def cpp_due_def ts_nsec_def)

theorem cpp_periodic_ends_witness:
  "\<exists>j r env'. periodic_event_test (\<lambda>x y. x) all_timers (\<lambda>_. True) quick_params tenth_values late_cenv = Some (Inr (True, env'))
    \<and> entered_as PERIODIC_EVENTS_ID r (ce_table late_cenv) (ce_table env') \<and> 1 \<le> j \<and> j < testThreshold (ce_info late_cenv)
    \<and> timed PERIODIC_EVENTS_ID 100 50000 1 r (cpp_attempt (nat 1) (ce_world late_cenv) 50000 j)
    \<and> (\<forall>i. 1 \<le> i \<and> i < j \<longrightarrow> \<not> times_meet (rangePct tenth_values) (acceptablePct tenth_values) (cpp_attempt (nat 1) (ce_world late_cenv) 50000 i))
    \<and> (times_meet (rangePct tenth_values) (acceptablePct tenth_values) (cpp_attempt (nat 1) (ce_world late_cenv) 50000 j)
      \<or> j = testThreshold (ce_info late_cenv) - 1)"
proof (rule cpp_periodic_ends [OF _ late_plain])
  show "keeps_arriving (\<lambda>_. True)" by (auto simp: keeps_arriving_def)
  fix k :: int assume "1 \<le> k" "k < testThreshold (ce_info late_cenv)"
  then have "k = 1" by (simp add: late_cenv_def)
  then show "te_signals all_timers k \<and> te_create all_timers k \<and> te_settime all_timers k
      \<and> cpp_fires_late 100 50000 (k * 50000) (nat 1) (clk (ce_world late_cenv)) (clk_n (ce_world late_cenv) + nat (k - 1) * (nat 1 + 2))"
    using late_fires_once by (simp add: all_timers_def late_cenv_def steady_world_def)
qed (use slept_accuracy in \<open>simp_all add: late_cenv_def\<close>)

text \<open>
  C35: The errors of the C++ \<^verbatim>\<open>periodic_event\<close>.  With a threshold below 2 it makes no attempt and aborts.  When the signals cannot be set up, each attempt
  returns \<^verbatim>\<open>ERROR\<close> from a function of type \<^verbatim>\<open>bool\<close>, which is \<^verbatim>\<open>true\<close>: the test returns \<^verbatim>\<open>true\<close> and enters that every event was on time, though none was
  fired.  When there is no result of the timer test, the accuracy is -1, the timer rejects its negative period in every attempt, and the test aborts.
\<close>

theorem cpp_periodic_errors:
  assumes "plain_ok b cl rt env n acc" and "getTimeAccuracy (ce_table env) = Inr A" and "\<forall>k. te_signals te k = set_up"
    and "\<forall>i t. clk (ce_world env) i = Some t \<longrightarrow> is_ll (tv_sec t + 5)" and "is_ll (testThreshold (ce_info env) * A)"
  shows "if testThreshold (ce_info env) < 2 \<or> set_up \<and> A < 0 then periodic_event_test pw te arrives cl rt env = Some (Inl Abort_called)
    else set_up \<or> (\<exists>r env'. periodic_event_test pw te arrives cl rt env = Some (Inr (True, env'))
      \<and> entered_as PERIODIC_EVENTS_ID r (ce_table env) (ce_table env') \<and> timed PERIODIC_EVENTS_ID 0 b n r (replicate (nat n) 0))"
proof -
  let ?thr = "testThreshold (ce_info env) - 1" and ?att = "periodic_try te arrives A n rt"
  let ?env = "env\<lparr>ce_info := (ce_info env)\<lparr>numIterations := n\<rparr>\<rparr>" and ?s = "((zero_ts, zero_ts, []), ce_world env, 0 :: nat)"
  have ok: "table_entries_ok (ce_table env)" "new_iters cl rt (ce_info env) = Inr n" "run_ok n b" "percents (rangePct rt) (acceptablePct rt)"
    using assms(1) by (simp_all add: plain_ok_def)
  have n: "is_int n" "0 \<le> n" using ok(3) by (simp_all add: run_ok_def)
  consider "testThreshold (ce_info env) < 2" | "1 \<le> ?thr" "set_up" "A < 0" | "1 \<le> ?thr" "\<not> set_up" | "1 \<le> ?thr" "set_up" "\<not> A < 0" by linarith
  then show ?thesis
  proof cases
    case 1
    then show ?thesis using ok(2) assms(2) by (simp add: periodic_event_test_def)
  next
    case 2
    define J where "J = (\<lambda>s :: fired \<times> world \<times> nat. \<exists>m. fst (snd s) = (ce_world env)\<lparr>clk_n := m\<rparr>)"
    have "\<exists>r s'. ?att k s = Some (Inr (False, False, r, s')) \<and> J s'" if ks: "k \<in> set [1..?thr]" "J s" for k s
    proof -
      have k: "1 \<le> k" "k \<le> testThreshold (ce_info env)" using ks(1) by auto
      have "k * A < 0" using k(1) 2(3) by (simp add: mult_less_0_iff)
      moreover have "testThreshold (ce_info env) * A \<le> k * A" using k(2) 2(3) by (intro mult_right_mono_neg) simp_all
      ultimately have "is_ll (k * A)" using assms(5) by (simp add: is_ll_def)
      moreover obtain f m tick where "s = (f, (ce_world env)\<lparr>clk_n := m\<rparr>, tick)" using ks(2) by (cases s) (auto simp: J_def)
      ultimately show ?thesis
        using periodic_try_negative [where te = te and k = k and A = A and fired = f and tick = tick and w = "(ce_world env)\<lparr>clk_n := m\<rparr>" and arrives = arrives and rt = rt, OF _ _ _ \<open>k * A < 0\<close> n]
          assms(3,4) 2(2) by (fastforce simp: J_def)
    qed
    moreover have "J ?s" by (auto simp: J_def intro: exI [of _ "clk_n (ce_world env)"])
    ultimately obtain res s' where "periodic_tries ?att [1..?thr] False None ?s = Some (Inr (False, res, s'))"
      using periodic_tries_fail [of "[1..?thr]" J ?att ?s None] by blast
    moreover obtain f w tick where "s' = (f, w, tick)" by (metis prod.exhaust)
    ultimately show ?thesis using ok(2) assms(2) 2 by (simp add: periodic_event_test_def)
  next
    case 3
    define st where "st = (\<lambda>(k :: int) (s :: fired \<times> world \<times> nat). \<exists>ts. s = ((zero_ts, zero_ts, ts), ce_world env, 0))"
    define P where "P = (\<lambda>(k :: int) r. timed PERIODIC_EVENTS_ID 0 b n r (replicate (nat n) 0))"
    have "\<exists>r s'. ?att k s = Some (Inr (times_meet (rangePct rt) (acceptablePct rt) (replicate (nat n) 0), True, r, s')) \<and> P k r \<and> st k s'"
      if "st (k - 1) s" for k s
      using periodic_try_unset [OF _ ok(3,4), of te k arrives A] that assms(3) 3(2) by (fastforce simp: st_def P_def)
    moreover have "st (1 - 1) ?s" by (simp add: st_def)
    ultimately obtain j r s' where j: "periodic_tries ?att [1..?thr] False None ?s = Some (Inr (True, Some r, s'))" "P j r"
      using periodic_tries_end [where st = st and attempt = ?att and P = P and k = 1 and thr = ?thr and b = False and res = None and s = ?s
          and met = "\<lambda>_. times_meet (rangePct rt) (acceptablePct rt) (replicate (nat n) 0)"] 3(1) by blast
    obtain f w tick where s': "s' = (f, w, tick)" by (metis prod.exhaust)
    obtain t' where "enter_scores pw ?env r w = Inr (True, ?env\<lparr>ce_table := t', ce_world := w\<rparr>)" "entered_as PERIODIC_EVENTS_ID r (ce_table env) t'"
      using enter_scores_ok [of PERIODIC_EVENTS_ID 0 b n r _ ?env pw w] ok(1) j(2) by (auto simp: P_def)
    then have "\<exists>r env'. periodic_event_test pw te arrives cl rt env = Some (Inr (True, env'))
        \<and> entered_as PERIODIC_EVENTS_ID r (ce_table env) (ce_table env') \<and> timed PERIODIC_EVENTS_ID 0 b n r (replicate (nat n) 0)"
      using j s' ok(2) assms(2)
      by (intro exI [of _ r] exI [of _ "?env\<lparr>ce_table := t', ce_world := w\<rparr>"]) (simp add: periodic_event_test_def P_def)
    with 3 show ?thesis by simp
  next
    case 4
    then show ?thesis by simp
  qed
qed

theorem cpp_periodic_errors_witness:
  "if testThreshold (ce_info slept_cenv) < 2 \<or> False \<and> 50000 < (0::int)
      then periodic_event_test (\<lambda>x y. x) (all_timers\<lparr>te_signals := \<lambda>_. False\<rparr>) (\<lambda>_. True) quick_params tenth_values slept_cenv = Some (Inl Abort_called)
    else False \<or> (\<exists>r env'. periodic_event_test (\<lambda>x y. x) (all_timers\<lparr>te_signals := \<lambda>_. False\<rparr>) (\<lambda>_. True) quick_params tenth_values slept_cenv
        = Some (Inr (True, env'))
      \<and> entered_as PERIODIC_EVENTS_ID r (ce_table slept_cenv) (ce_table env') \<and> timed PERIODIC_EVENTS_ID 0 50000 1 r (replicate (nat 1) 0))"
  by (rule cpp_periodic_errors [OF slept_plain slept_accuracy])
    (simp_all add: slept_cenv_def steady_cenv_def steady_world_def steady_info_def is_ll_def)

end
