(* ===== verification/Cpp_Disk.thy ===== *)
theory Cpp_Disk
  imports Cpp_Config
begin

text \<open>
  The C++ implementation, \<^verbatim>\<open>disk_io_write_config.cpp\<close> and \<^verbatim>\<open>disk_io_read_config.cpp\<close> with \<^verbatim>\<open>DiskIOWriteUtils.cpp\<close> and
  \<^verbatim>\<open>DiskIOReadUtils.cpp\<close>.  The file and its operations are those of theory Disk\_Io; the results of \<^verbatim>\<open>fclose\<close> and \<^verbatim>\<open>fflush\<close>
  are not looked at and left out.  A buffer of a negative size cannot be allocated, other allocations succeed.
\<close>

section \<open>The file\<close>

definition alloc_buffer :: "int \<Rightarrow> unit res" where
  "alloc_buffer n = guard_res Abort_called (0 \<le> n)"

definition openFileForWrite :: "world \<Rightarrow> world res" where
  "openFileForWrite w = (case file_ok w of (ok, w) \<Rightarrow> if ok then Inr (w\<lparr>dfile := Some 0\<rparr>) else Inl Assert_failed)"

definition openFileForRead :: "world \<Rightarrow> world res" where
  "openFileForRead w = (case file_ok w of (ok, w) \<Rightarrow> if ok \<and> dfile w \<noteq> None then Inr w else Inl Assert_failed)"

text \<open>The constructor of the reader writes the blocks that an iteration reads.\<close>

definition setupFileForRead :: "int \<Rightarrow> int \<Rightarrow> world \<Rightarrow> world res" where
  "setupFileForRead readBufSize numberOfBlocks w = write_blocks (nat numberOfBlocks) readBufSize w"

definition new_DiskIOReadUtils :: "int \<Rightarrow> int \<Rightarrow> world \<Rightarrow> world res" where
  "new_DiskIOReadUtils readBufSize num w = bind_res (chk_int (readBufSize * num)) (\<lambda>n. bind_res (alloc_buffer n) (\<lambda>_.
     bind_res (openFileForWrite w) (\<lambda>w. setupFileForRead readBufSize num w)))"

definition getBlockSize :: "world \<Rightarrow> int res" where
  "getBlockSize w = (case bsize w of None \<Rightarrow> Inl Abort_called | Some n \<Rightarrow> Inr (to_int32 n))"

text \<open>Only an attempt that is not the last one removes the file.\<close>

definition cleanup :: "world \<Rightarrow> world" where
  "cleanup w = (case file_ok w of (ok, w) \<Rightarrow> if ok then w\<lparr>dfile := None\<rparr> else w)"

section \<open>The tests\<close>

definition opened_step :: "(world \<Rightarrow> world res) \<Rightarrow> (world \<Rightarrow> (int \<times> world) run) \<Rightarrow> trw \<Rightarrow> (int \<times> trw) run" where
  "opened_step opening work = (\<lambda>(r, rd, w). bind_run (Some (opening w)) (\<lambda>w. cpp_step work (r, rd, w)))"

definition write_work :: "int \<Rightarrow> int \<Rightarrow> world \<Rightarrow> (int \<times> world) run" where
  "write_work num subIters w = Some (bind_res (write_blocks (nat subIters) num w) (\<lambda>w. Inr (0, w)))"

definition read_work :: "int \<Rightarrow> int \<Rightarrow> world \<Rightarrow> (int \<times> world) run" where
  "read_work num subIters w = Some (bind_res (read_blocks (nat subIters) num 0 w) (\<lambda>w. Inr (0, w)))"

definition write_runs :: "int \<Rightarrow> runs" where
  "write_runs num iters subIters s = bind_run (Some (alloc_buffer num)) (\<lambda>_.
     iterate (nat iters) (opened_step openFileForWrite (write_work num subIters)) s)"

definition read_runs :: "int \<Rightarrow> runs" where
  "read_runs num iters subIters = (\<lambda>(r, rd, w). bind_run (Some (new_DiskIOReadUtils num subIters w)) (\<lambda>w.
     iterate (nat iters) (opened_step openFileForRead (read_work num subIters)) (r, rd, w)))"

definition disk_impl :: "testIds \<Rightarrow> (int \<Rightarrow> runs) \<Rightarrow> RTThreadArgs \<Rightarrow> TestResults \<Rightarrow> world \<Rightarrow> (TestResults \<times> world) run" where
  "disk_impl tid body args r w = bind_run (Some (getBlockSize w)) (\<lambda>num.
     config_impl tid 2 (body num) cleanup (\<lambda>subIters. chk_int (subIters * num)) args r w)"

definition disk_io_write_test :: "(f64 \<Rightarrow> f64 \<Rightarrow> f64) \<Rightarrow> cpp_test" where
  "disk_io_write_test pw = config_rate_test pw DISKIOWRITE_ID (disk_impl DISKIOWRITE_ID write_runs)"

definition disk_io_read_test :: "(f64 \<Rightarrow> f64 \<Rightarrow> f64) \<Rightarrow> cpp_test" where
  "disk_io_read_test pw = config_rate_test pw DISKIOREAD_ID (disk_impl DISKIOREAD_ID read_runs)"

section \<open>The runs keep the contract\<close>

lemma opened_records:
  assumes "works_in J work" and "\<And>w. K w \<Longrightarrow> \<exists>w1. opening w = Inr w1 \<and> same_clock w w1 \<and> J w1" and "\<And>w. J w \<Longrightarrow> K w"
  shows "records lo b (clocked K lo b) (opened_step opening work)"
  unfolding records_def
proof (intro allI impI)
  fix r and s :: "readings \<times> world" and n assume i: "clocked K lo b (Suc n) s"
  obtain rd w where s: "s = (rd, w)" by (cases s)
  from i obtain w1 where w1: "opening w = Inr w1" "same_clock w w1" "J w1" using assms(2) [of w] by (auto simp: clocked_def s)
  then have "clocked J lo b (Suc n) (rd, w1)" using i same_clock_steps [OF w1(2)] by (simp add: clocked_def s)
  with cpp_step_records [OF assms(1), of lo b]
  obtain t s' where "in_range lo b t" "clocked J lo b n s'"
    "cpp_step work (r, rd, w1) = Some (bind_res (setValuesAtNextIndex r t) (\<lambda>r. Inr (0, r, s')))"
    unfolding records_def by blast
  with w1(1) assms(3) show "\<exists>t s'. in_range lo b t \<and> clocked K lo b n s' \<and>
      opened_step opening work (r, s) = Some (bind_res (setValuesAtNextIndex r t) (\<lambda>r. Inr (0, r, s')))"
    by (intro exI [of _ t] exI [of _ s']) (simp add: opened_step_def s clocked_def)
qed

lemma write_opens: "disk_works w \<Longrightarrow> \<exists>w1. openFileForWrite w = Inr w1 \<and> same_clock w w1 \<and> disk_works w1 \<and> dfile w1 = Some 0"
  by (simp add: openFileForWrite_def file_ok_def disk_works_def same_clock_def)

lemma write_works_in: "works_in (\<lambda>w. disk_works w \<and> dfile w \<noteq> None) (write_work num q)"
proof -
  have "\<exists>w'. write_work num q w = Some (Inr (0, w')) \<and> same_clock w w' \<and> dfile w' \<noteq> None" if "disk_works w" "dfile w \<noteq> None" for w
  proof -
    from that obtain len where "dfile w = Some len" by blast
    from write_blocks_ok [OF that(1) this, of "nat q" num] show ?thesis by (auto simp: write_work_def)
  qed
  then show ?thesis unfolding works_in_def same_clock_def disk_works_def by fastforce
qed

lemma read_works_in:
  assumes "0 \<le> num" and "0 \<le> q"
  shows "works_in (\<lambda>w. disk_works w \<and> dfile w = Some (q * num)) (read_work num q)"
proof -
  have "\<exists>w'. read_work num q w = Some (Inr (0, w')) \<and> same_clock w w' \<and> dfile w' = Some (q * num)" if "disk_works w" "dfile w = Some (q * num)" for w
    using read_blocks_ok [OF that assms(1), of 0 "nat q"] assms(2) by (auto simp: read_work_def)
  then show ?thesis unfolding works_in_def same_clock_def disk_works_def by fastforce
qed

lemma reader_ok:
  assumes "disk_works w" and "0 \<le> num" and "0 \<le> q" and "q * num \<le> INT_MAX"
  shows "\<exists>w1. new_DiskIOReadUtils num q w = Inr w1 \<and> same_clock w w1 \<and> disk_works w1 \<and> dfile w1 = Some (q * num)"
proof -
  obtain w0 where w0: "openFileForWrite w = Inr w0" "same_clock w w0" "disk_works w0" "dfile w0 = Some 0" using write_opens [OF assms(1)] by blast
  obtain w1 where w1: "write_blocks (nat q) num w0 = Inr w1" "same_clock w0 w1" "dfile w1 = Some (q * num)"
    using write_blocks_ok [OF w0(3,4), of "nat q" num] assms(3) by auto
  have "0 \<le> q * num" using assms(2,3) by simp
  then have n: "is_int (num * q)" "0 \<le> num * q" using assms(4) by (simp_all add: is_int_def mult.commute)
  show ?thesis using w0 w1 n same_clock_trans [OF w0(2) w1(2)] same_clock_works [OF w1(2) w0(3)]
    by (simp add: new_DiskIOReadUtils_def alloc_buffer_def setupFileForRead_def chk_int_ok)
qed

lemma write_runs_law:
  assumes "0 \<le> num" and "clocked disk_works lo b (nat iters + m) w" "run_ok iters b" "fresh tid iters r"
  shows "\<exists>ts r' w'. write_runs num iters q (r, w) = Some (Inr (0, r', w')) \<and> timed tid lo b iters r' ts \<and> clocked disk_works lo b m w'"
proof -
  have "records lo b (clocked disk_works lo b) (opened_step openFileForWrite (write_work num q))"
    by (rule opened_records [OF write_works_in]) (use write_opens in fastforce, simp)
  from iterate_timed [OF this assms(2-4)] show ?thesis using assms(1) by (simp add: write_runs_def alloc_buffer_def)
qed

lemma read_runs_law:
  assumes "0 \<le> num" "0 \<le> q" "q * num \<le> INT_MAX" and "clocked disk_works lo b (nat iters + m) s" "run_ok iters b" "fresh tid iters r"
  shows "\<exists>ts r' s'. read_runs num iters q (r, s) = Some (Inr (0, r', s')) \<and> timed tid lo b iters r' ts \<and> clocked disk_works lo b m s'"
proof -
  obtain rd w where s: "s = (rd, w)" by (cases s)
  have d: "disk_works w" "clock_steps lo b (nat iters + m) w" using assms(4) by (simp_all add: clocked_def s)
  obtain w1 where w1: "new_DiskIOReadUtils num q w = Inr w1" "same_clock w w1" "disk_works w1" "dfile w1 = Some (q * num)"
    using reader_ok [OF d(1) assms(1-3)] by blast
  let ?J = "\<lambda>w. disk_works w \<and> dfile w = Some (q * num)"
  have rec: "records lo b (clocked ?J lo b) (opened_step openFileForRead (read_work num q))"
  proof (rule opened_records [OF read_works_in [OF assms(1,2)]])
    fix v assume "?J v"
    then show "\<exists>w1. openFileForRead v = Inr w1 \<and> same_clock v w1 \<and> ?J w1"
      by (auto simp: openFileForRead_def file_ok_def disk_works_def same_clock_def)
  qed
  have "clocked ?J lo b (nat iters + m) (rd, w1)" using d(2) same_clock_steps [OF w1(2)] w1(3,4) by (simp add: clocked_def)
  from iterate_timed [OF rec this assms(5,6)] obtain ts r' s' where r': "iterate (nat iters) (opened_step openFileForRead (read_work num q)) (r, (rd, w1)) = Some (Inr (0, r', s'))"
    "timed tid lo b iters r' ts" "clocked ?J lo b m s'" by blast
  have "clocked disk_works lo b m s'" using r'(3) by (simp add: clocked_def)
  with r' w1(1) s show ?thesis by (intro exI [of _ ts] exI [of _ r'] exI [of _ s']) (simp add: read_runs_def)
qed

lemma cleanup_clocked: "clocked disk_works lo b n s \<Longrightarrow> clocked disk_works lo b n (apsnd cleanup s)"
  by (cases s) (simp add: clocked_def cleanup_def file_ok_def disk_works_def clock_steps_def)

lemma amount_bound:
  fixes num q :: int
  assumes "1 \<le> q" and "q \<le> (if 0 < num then INT_MAX div num else -1)"
  shows "0 < num" "0 \<le> q" "q * num \<le> INT_MAX"
proof -
  show n: "0 < num" using assms by (simp split: if_splits)
  show "0 \<le> q" using assms(1) by simp
  have "q * num \<le> INT_MAX div num * num" using assms(2) n by (intro mult_right_mono) simp_all
  also have "\<dots> \<le> INT_MAX" using minus_mod_eq_div_mult [of INT_MAX num] pos_mod_sign [OF n, of INT_MAX] by linarith
  finally show "q * num \<le> INT_MAX" .
qed

lemma amount_ok:
  fixes num q :: int
  assumes "1 \<le> q" and "q \<le> (if 0 < num then INT_MAX div num else -1)"
  shows "chk_int (q * num) = Inr (num * q)"
proof -
  have "0 \<le> q * num" using amount_bound [OF assms] by simp
  then have "is_int (q * num)" using amount_bound(3) [OF assms] by (simp add: is_int_def)
  then show ?thesis by (simp add: chk_int_ok mult.commute)
qed

lemma most_blocks: "(if 0 < num then INT_MAX div num else -1) \<le> INT_MAX"
proof (cases "0 < num")
  case True
  then have "INT_MAX div num \<le> INT_MAX div 1" by (intro zdiv_mono2) simp_all
  then show ?thesis using True by simp
qed simp

interpretation cpp_disk_write: cpp_config "write_runs num" "clocked disk_works" cleanup 1 "if 0 < num then INT_MAX div num else -1"
  "\<lambda>q. chk_int (q * num)" num for num
  by (unfold_locales, rule write_runs_law) (use amount_bound amount_ok most_blocks in \<open>auto intro: cleanup_clocked less_imp_le\<close>)

interpretation cpp_disk_read: cpp_config "read_runs num" "clocked disk_works" cleanup 1 "if 0 < num then INT_MAX div num else -1"
  "\<lambda>q. chk_int (q * num)" num for num
  by (unfold_locales, rule read_runs_law) (use amount_bound amount_ok most_blocks in \<open>auto intro: cleanup_clocked less_imp_le\<close>)

lemma prepare_world: "prepare cl rt tid env = Inr (env', args, r) \<Longrightarrow> ce_world env' = ce_world env"
  by (auto simp: prepare_def Let_def bind_res_Inr_iff)

lemma disk_test_unfold:
  assumes "getBlockSize (ce_world env) = Inr num"
  shows "config_rate_test pw tid (disk_impl tid body) cl rt env
    = config_rate_test pw tid (config_impl tid 2 (body num) cleanup (\<lambda>subIters. chk_int (subIters * num))) cl rt env"
  using assms prepare_world [of cl rt tid env]
  by (auto simp: config_rate_test_def disk_impl_def in_thread_def intro!: bind_run_cong)

section \<open>Properties\<close>

text \<open>
  C37: On a disk whose operations succeed the C++ write and read tests return \<^verbatim>\<open>true\<close> when every iteration takes longer than the
  accuracy of the clock and the amount of the last possible attempt fits an \<^verbatim>\<open>int\<close>: no write or read is ever short, and the
  entered result has the statistics of the last run and the number of bytes an iteration of it transferred as its work quantum.
\<close>

theorem cpp_disk_tests_end:
  assumes "setup_ok b cl rt env n acc" and "acc < lo" and "1 \<le> testThreshold (ce_info env)"
    and "(test, tid) \<in> {(disk_io_write_test pw, DISKIOWRITE_ID), (disk_io_read_test pw, DISKIOREAD_ID)}"
    and "bsize (ce_world env) = Some fblocks" "to_int32 fblocks = num" "0 < num" "num * 2 ^ nat (testThreshold (ce_info env)) \<le> INT_MAX"
    and "clock_steps lo b (nat (testThreshold (ce_info env)) * nat n) (ce_world env)" and "disk_works (ce_world env)"
  shows "\<exists>k ts r env'. test cl rt env = Some (Inr (True, env')) \<and> entered_as tid r (ce_table env) (ce_table env')
    \<and> workQuantum r = num * 2 ^ k \<and> 1 \<le> k \<and> int k \<le> testThreshold (ce_info env) \<and> timed tid lo b n r ts
    \<and> (meets (ta_acceptablePct (new_RTThreadArgs n 0 rt acc)) r \<or> int k = testThreshold (ce_info env))"
proof -
  let ?thr = "testThreshold (ce_info env)"
  have num: "getBlockSize (ce_world env) = Inr num" using assms(5,6) by (simp add: getBlockSize_def)
  have "2 ^ nat ?thr = (2 :: int) * 2 ^ nat (?thr - 1)" using assms(3) by (simp add: nat_diff_distrib flip: power_Suc)
  with assms(8) have "2 * 2 ^ nat (?thr - 1) * num \<le> INT_MAX" by (simp add: mult_ac)
  then have "2 * 2 ^ nat (?thr - 1) \<le> INT_MAX div num" using zdiv_mono1 [OF _ assms(7), of "2 * 2 ^ nat (?thr - 1) * num" INT_MAX] assms(7) by simp
  then have q: "2 * 2 ^ nat (?thr - 1) \<le> (if 0 < num then INT_MAX div num else -1)" using assms(7) by simp
  have c: "clocked disk_works lo b (nat ?thr * nat n) ((None, None), ce_world env)" using assms(9,10) by (simp add: clocked_def)
  have "\<exists>k ts r env'. test cl rt env = Some (Inr (True, env')) \<and> entered_as tid r (ce_table env) (ce_table env')
    \<and> workQuantum r = num * (2 * 2 ^ k) \<and> int k < ?thr \<and> timed tid lo b n r ts
    \<and> (meets (ta_acceptablePct (new_RTThreadArgs n 0 rt acc)) r \<or> int k = ?thr - 1)"
  proof -
    from assms(4) consider "test = disk_io_write_test pw" "tid = DISKIOWRITE_ID" | "test = disk_io_read_test pw" "tid = DISKIOREAD_ID" by auto
    then show ?thesis
    proof cases
      case 1
      with cpp_disk_write.config_test_ends [OF assms(1-3) _ q c, of pw tid] show ?thesis by (simp add: disk_io_write_test_def disk_test_unfold [OF num])
    next
      case 2
      with cpp_disk_read.config_test_ends [OF assms(1-3) _ q c, of pw tid] show ?thesis by (simp add: disk_io_read_test_def disk_test_unfold [OF num])
    qed
  qed
  then obtain k ts r env' where k: "test cl rt env = Some (Inr (True, env'))" "entered_as tid r (ce_table env) (ce_table env')"
    "workQuantum r = num * (2 * 2 ^ k)" "int k < ?thr" "timed tid lo b n r ts"
    "meets (ta_acceptablePct (new_RTThreadArgs n 0 rt acc)) r \<or> int k = ?thr - 1" by blast
  then show ?thesis by (intro exI [of _ "Suc k"] exI [of _ ts] exI [of _ r] exI [of _ env']) auto
qed

theorem cpp_disk_tests_end_witness:
  "\<exists>k ts r env'. disk_io_read_test (\<lambda>x y. x) quick_params tenth_values steady_cenv = Some (Inr (True, env'))
    \<and> entered_as DISKIOREAD_ID r (ce_table steady_cenv) (ce_table env')
    \<and> workQuantum r = 4096 * 2 ^ k \<and> 1 \<le> k \<and> int k \<le> testThreshold (ce_info steady_cenv) \<and> timed DISKIOREAD_ID 50000 50000 1 r ts
    \<and> (meets (ta_acceptablePct (new_RTThreadArgs 1 0 tenth_values (- 1))) r \<or> int k = testThreshold (ce_info steady_cenv))"
  by (rule cpp_disk_tests_end [OF steady_setup, where pw = "\<lambda>x y. x" and fblocks = 4096])
    (simp_all add: steady_cenv_def steady_info_def steady_clock, simp_all add: steady_world_def disk_works_def to_int32_def)

end
