(* ===== verification/Cpp_Reporter.thy ===== *)
theory Cpp_Reporter
  imports Cpp_Scores Reporter
begin

text \<open>
  The C++ implementation, \<^verbatim>\<open>Reporter.cpp\<close>: one directory with a report for every entry of the result table and a report of
  the whole system.  Files and lines are those of theory Reporter.  The constructor of \<^verbatim>\<open>ofstream\<close> does not throw: what is
  written to a file that cannot be opened is lost, and the entry counts as reported.
\<close>

section \<open>The directory\<close>

definition three_digits :: "nat \<Rightarrow> string" where
  "three_digits n = (if n < 100 then ''0'' else []) @ two_digits n"

text \<open>\<^verbatim>\<open>char buf[1024]\<close>; the text and its NUL take 29 characters more than the name of the directory.\<close>

definition getOutputDir :: "report_env \<Rightarrow> string \<Rightarrow> string option res" where
  "getOutputDir e reportDir = (let dir = c_str reportDir in
     if length dir + 25 + 1 > 1024 - 1 then Inr None
     else (case (re_date e, re_time e) of ((year, month, day), (hour, minute, sec, ms)) \<Rightarrow>
       let buf = dir @ ''/cpp_report_'' @ two_digits (year mod 100) @ two_digits month @ two_digits day @ ''_''
         @ two_digits hour @ two_digits minute @ two_digits sec @ three_digits ms in
       if length buf < 1024 then Inr (if re_mkdir e buf then Some buf else None) else Inl Out_of_bounds))"

section \<open>The lines of a report\<close>

definition time_lines :: "TestResults \<Rightarrow> lines res" where
  "time_lines r = for_res [0..<nat (entries r)] (\<lambda>k ls. bind_res (value_at r (int k)) (\<lambda>v.
     Inr (ls @ [[Str ''Execution time '', Num (int k), Str '': '', F3 (microsec (of_ll v)), Str '' us'']])))
     [[Str ''Measured execution times:''], []]"

definition printResultInfo :: "int \<Rightarrow> TestResults \<Rightarrow> lines res" where
  "printResultInfo verboseLevel r = bind_res (init_value (conformingIters r)) (\<lambda>conf. bind_res (init_value (nonConformingIters r)) (\<lambda>nonConf.
     bind_res (if 1 \<le> verboseLevel then time_lines r else Inr []) (\<lambda>ts. Inr (
       [[Str ''Total number of iterations of test run: '', Num (iterations r)],
        [Str ''Measured median for this test run: '', F3 (microsec (of_ll (mean r))), Str '' us''],
        [Str ''Measured maximum for this test run: '', F3 (microsec (of_ll (maxT r))), Str '' us''],
        [Str ''Measured minimum time for this test run: '', F3 (microsec (of_ll (minT r))), Str '' us''],
        [Str ''Measured mean for this test run: '', F3 (microsec (of_ll (mean r))), Str '' us''],
        [Str ''Measured standard deviation for this test run: '', F3 (microsec (stdDev r)), Str '' us''],
        [Str ''Total number of conforming iterations: '', Num conf],
        [Str ''Total number of outlying iterations: '', Num nonConf]] @ ts))))"

definition result_part :: "int \<Rightarrow> nat \<Rightarrow> TestResults \<Rightarrow> lines res" where
  "result_part verboseLevel resultLen r = bind_res (printResultInfo verboseLevel r) (\<lambda>ls. Inr (
     (if 1 < resultLen then [[], [Str ''Test results for: '', Str (resultName r)], [Str ''===============================================''  ]] else [])
       @ ls))"

definition score_part :: "int \<Rightarrow> BenchMarkTestInfo \<Rightarrow> FinalBenchMarkTestResult \<Rightarrow> nat \<Rightarrow> TestScore \<Rightarrow> lines res" where
  "score_part verboseLevel info f scoreLen s = (case tResult s of None \<Rightarrow> Inl Null_deref
     | Some rs \<Rightarrow> bind_res (concat_res (map (result_part verboseLevel (length rs)) rs)) (\<lambda>results. Inr (
         (if 1 < scoreLen then [[], [Str '' Scores for subtest:'', Str (testScoreName s)], [Str ''=======================================''], []] else [])
         @ [[Str ''Maximum throughput  :'', F3 (maxThroughput s)],
            [Str ''Minimum throughput  :'', F3 (minThroughput s)],
            [Str ''Mean throughput     :'', F3 (meanThroughput s)],
            [Str ''Weighted throughput :'', F3 (wgtThroughput s)],
            [Str ''Determinism score   :'', F3 (consistencyPercent s)],
            [Str ''Score for test '', Str (testName info), Str '': '', F3 (throughputScoreForTest f)]] @ results)))"

definition printScoreInfo :: "int \<Rightarrow> BenchMarkTestInfo \<Rightarrow> FinalBenchMarkTestResult \<Rightarrow> lines res" where
  "printScoreInfo verboseLevel info f =
     bind_res (concat_res (map (score_part verboseLevel info f (length (scores f))) (scores f))) (\<lambda>ls. Inr (
       [[Str ''Report for test: '', Str (testName info)], [Str ''=======================================''], []] @ ls))"

definition system_part :: "ResultTable \<Rightarrow> lines res" where
  "system_part t = bind_res (init_value (throughputScoreForSystem t)) (\<lambda>u. bind_res (init_value (consistencyScoreForSystem t)) (\<lambda>c.
     bind_res (init_value (scoreForSystem t)) (\<lambda>s. Inr (
       [[Str ''Final Throughput Score for the system: ''], [F3 u], [Str ''Final Determinism Score for the system: ''], [F3 c], [],
        [Str ''Final Score for the system: '', F3 s]]))))"

section \<open>Writing the reports\<close>

definition write_file :: "report_env \<Rightarrow> string \<Rightarrow> lines \<Rightarrow> reports \<Rightarrow> reports" where
  "write_file e file ls rp = (if re_fopen e file then rp\<lparr>rp_files := (rp_files rp)(file \<mapsto> ls)\<rparr> else rp)"

fun report_entries :: "report_env \<Rightarrow> string \<Rightarrow> int \<Rightarrow> testScoresMap \<Rightarrow> reports \<Rightarrow> reports res" where
  "report_entries e outputDir verboseLevel [] rp = Inr rp"
| "report_entries e outputDir verboseLevel ((info, f) # m) rp = (let fullpath = outputDir @ ''/'' @ testName info in
     if \<not> re_mkdir e (c_str fullpath) then report_entries e outputDir verboseLevel m rp
     else bind_res (printScoreInfo verboseLevel info f) (\<lambda>ls.
       report_entries e outputDir verboseLevel m (write_file e (c_str (fullpath @ ''/report.txt'')) ls (rp\<lparr>rp_dirs := rp_dirs rp @ [c_str fullpath]\<rparr>))))"

definition generateReport :: "report_env \<Rightarrow> int \<Rightarrow> ResultTable \<Rightarrow> string \<Rightarrow> reports \<Rightarrow> reports res" where
  "generateReport e verboseLevel t reportDir rp = bind_res (getOutputDir e reportDir) (\<lambda>outputDir. case outputDir of
     None \<Rightarrow> Inr rp
   | Some outputDir \<Rightarrow> bind_res (report_entries e outputDir verboseLevel (testScores t) (rp\<lparr>rp_dirs := rp_dirs rp @ [outputDir]\<rparr>)) (\<lambda>rp.
       bind_res (system_part t) (\<lambda>ls. Inr (write_file e (c_str (outputDir @ ''/system_report.txt'')) ls rp))))"

section \<open>Properties\<close>

definition date_ok :: "report_env \<Rightarrow> bool" where
  "date_ok e \<longleftrightarrow> (case (re_date e, re_time e) of ((year, month, day), (hour, minute, sec, ms)) \<Rightarrow>
     month < 100 \<and> day < 100 \<and> hour < 100 \<and> minute < 100 \<and> sec < 100 \<and> ms < 1000)"

lemma decimal_length:
  shows "n < 10 \<Longrightarrow> length (dec n) = 1"
    and "10 \<le> n \<Longrightarrow> n < 100 \<Longrightarrow> length (dec n) = 2"
    and "100 \<le> n \<Longrightarrow> n < 1000 \<Longrightarrow> length (dec n) = 3"
proof -
  have step: "10 \<le> m \<Longrightarrow> length (dec m) = Suc (length (dec (m div 10)))" for m by (subst dec.simps) simp
  show one: "n < 10 \<Longrightarrow> length (dec n) = 1" for n by (simp add: dec.simps)
  show two: "10 \<le> n \<Longrightarrow> n < 100 \<Longrightarrow> length (dec n) = 2" for n using one [of "n div 10"] by (simp add: step)
  have "100 \<le> n \<Longrightarrow> 10 \<le> n div 10" by linarith
  then show "100 \<le> n \<Longrightarrow> n < 1000 \<Longrightarrow> length (dec n) = 3" using two [of "n div 10"] by (simp add: step)
qed

lemma two_digits_length: "n < 100 \<Longrightarrow> length (two_digits n) = 2"
  by (simp add: two_digits_def decimal_length)

lemma three_digits_length: "n < 1000 \<Longrightarrow> length (three_digits n) = 3"
  by (simp add: three_digits_def two_digits_length) (simp add: two_digits_def decimal_length)

text \<open>
  C38: The buffer for the name of the report directory is checked two bytes short: for a report directory whose name has 996 or
  997 characters the name that the C++ program builds overruns it, and for no other.
\<close>

theorem output_dir_overrun:
  assumes "date_ok e"
  shows "getOutputDir e dir = Inl Out_of_bounds \<longleftrightarrow> length (c_str dir) \<in> {996, 997}"
proof -
  obtain year month day hour minute sec ms where d: "re_date e = (year, month, day)" "re_time e = (hour, minute, sec, ms)"
    by (metis prod.exhaust)
  have "month < 100" "day < 100" "hour < 100" "minute < 100" "sec < 100" "ms < 1000" "year mod 100 < 100"
    using assms by (simp_all add: date_ok_def d)
  then have "length (c_str dir @ ''/cpp_report_'' @ two_digits (year mod 100) @ two_digits month @ two_digits day @ ''_''
      @ two_digits hour @ two_digits minute @ two_digits sec @ three_digits ms) = length (c_str dir) + 28"
    by (simp add: two_digits_length three_digits_length)
  then show ?thesis by (auto simp add: getOutputDir_def d Let_def)
qed

definition new_year_env :: report_env where
  "new_year_env = \<lparr>re_mkdir = \<lambda>_. True, re_fopen = \<lambda>_. True, re_date = (2009, 1, 1), re_time = (0, 0, 0, 7)\<rparr>"

theorem output_dir_overrun_witness:
  "getOutputDir new_year_env (replicate 996 (CHR ''x'')) = Inl Out_of_bounds
    \<longleftrightarrow> length (c_str (replicate 996 (CHR ''x''))) \<in> {996, 997}"
  by (rule output_dir_overrun) (simp add: date_ok_def new_year_env_def)

end
