(* ===== verification/Cpp_Launch.thy ===== *)
theory Cpp_Launch
  imports Cpp_Config Cpp_Reporter
begin

text \<open>
  The C++ implementation, \<^verbatim>\<open>RTMB.cpp\<close>: which tests run, in which order, what becomes of their verdicts, and the main
  function.  What \<^verbatim>\<open>dlopen\<close> and \<^verbatim>\<open>dlsym\<close> find for a library and a name is a parameter.  A list iterator stands for the
  rest of the list; a test is run on a copy of its description.  The number of tests fits an \<^verbatim>\<open>int\<close>.
\<close>

section \<open>Running one test\<close>

datatype library = Library_missing | Function_missing | Function cpp_test

text \<open>
  What the program finds around it: the libraries, whether the scheduling attributes can be set and a thread
  started, the number of processors, and the home directory.
\<close>

record launch_env =
  ln_lib :: "string \<Rightarrow> string \<Rightarrow> library"
  ln_sched :: bool
  ln_spawn :: bool
  ln_cpus :: int
  ln_home :: string

record launch_state =
  ls_table :: ResultTable
  ls_world :: world
  ls_numberOfTests :: int

definition executeTest :: "cpp_test \<Rightarrow> cpp_test" where
  "executeTest testFunc cl rtValues env = bind_run (testFunc cl rtValues env) (\<lambda>(passed, env). Some (Inr (passed, env)))"

definition applicableTest :: "launch_env \<Rightarrow> BenchMarkTestInfo \<Rightarrow> bool" where
  "applicableTest e bmTest = (let testName = c_str (testName bmTest) in
     if 1 < ln_cpus e then True else testName = ''multi_thread'' \<or> testName = ''multi_cpu'' \<or> testName = ''thread_priority'')"

text \<open>A failed \<^verbatim>\<open>pthread_create\<close> is not noticed; the thread that is joined is then indeterminate.\<close>

definition runTest :: "launch_env \<Rightarrow> CmdLineParams \<Rightarrow> RealTimeValues \<Rightarrow> BenchMarkTestInfo \<Rightarrow> launch_state \<Rightarrow>
    (bool \<times> BenchMarkTestInfo \<times> launch_state) run" where
  "runTest e cl rtValues bmTest st = (let libName = ln_home e @ ''/lib/lib'' @ testName bmTest @ ''.so'' in
     case ln_lib e (c_str libName) (c_str (testName bmTest)) of
       Library_missing \<Rightarrow> Some (Inr (False, bmTest, st))
     | Function_missing \<Rightarrow> Some (Inr (False, bmTest, st))
     | Function testFunc \<Rightarrow>
         if \<not> ln_sched e then Some (Inr (False, bmTest, st))
         else if \<not> ln_spawn e then Some (Inl Uninitialised)
         else bind_run (executeTest testFunc cl rtValues \<lparr>ce_info = bmTest, ce_table = ls_table st, ce_world = ls_world st, ce_spawn = ln_spawn e\<rparr>)
           (\<lambda>(rc, env). Some (Inr (rc, ce_info env, st\<lparr>ls_table := ce_table env, ls_world := ce_world env\<rparr>))))"

text \<open>What is printed, the determinism of a score only when there are several.\<close>

definition printScores :: "BenchMarkTestInfo \<Rightarrow> ResultTable \<Rightarrow> lines res" where
  "printScores bmTest t = (case getFinalTestResultsByTestInfo t bmTest of None \<Rightarrow> Inr []
     | Some f \<Rightarrow> bind_res (init_value (scoreForTest f)) (\<lambda>score. Inr (
         concat (map (\<lambda>s. [[], [Str ''Scores: ''], [Str ''Maximum throughput  : '', F3 (maxThroughput s)],
             [Str ''Minimum Throughput  : '', F3 (minThroughput s)], [Str ''Mean Throughput     : '', F3 (meanThroughput s)],
             [Str ''Weighted Throughput : '', F3 (wgtThroughput s)]]
           @ (if 1 < length (scores f) then [[Str ''Determinism Score   : '', F3 (consistencyPercent s)]] else [])) (scores f))
         @ [[], [Str ''Overall Throughput Score for test    : '', F3 (throughputScoreForTest f)],
            [Str ''Overall Determinism Score for test    : '', F3 (consistencyScoreForTest f)],
            [Str ''Final Score for '', Str (c_str (testName bmTest)), Str '' micro-benchmark : '', F3 score], []])))"

section \<open>Running the tests\<close>

definition count_test :: "launch_state \<Rightarrow> launch_state" where
  "count_test st = st\<lparr>ls_numberOfTests := ls_numberOfTests st + 1\<rparr>"

fun run_config :: "launch_env \<Rightarrow> CmdLineParams \<Rightarrow> RealTimeValues \<Rightarrow> BenchMarkTestInfo list \<Rightarrow> launch_state \<Rightarrow> launch_state run" where
  "run_config e cl rtValues [] st = Some (Inr st)"
| "run_config e cl rtValues (bmTest # ts) st = (if configTest bmTest
     then bind_run (runTest e cl rtValues bmTest st) (\<lambda>(rc, bmTest, st). if \<not> rc then Some (Inl Abort_called)
       else let st = count_test st in bind_run (Some (printScores bmTest (ls_table st))) (\<lambda>_. run_config e cl rtValues ts st))
     else run_config e cl rtValues ts st)"

text \<open>
  A test that is not a configuration test: whether the launch returns at once, and the verdict so far.
\<close>

definition run_and_count :: "launch_env \<Rightarrow> CmdLineParams \<Rightarrow> RealTimeValues \<Rightarrow> BenchMarkTestInfo \<Rightarrow> bool \<Rightarrow> launch_state \<Rightarrow>
    (bool \<times> bool \<times> launch_state) run" where
  "run_and_count e cl rtValues bmTest verdict st = bind_run (runTest e cl rtValues bmTest st) (\<lambda>(rc, bmTest, st).
     if \<not> rc then Some (Inr (if \<not> applicableTest e bmTest then (True, True, st) else (False, False, count_test st)))
     else let st = count_test st in bind_run (Some (printScores bmTest (ls_table st))) (\<lambda>_. Some (Inr (False, verdict, st))))"

text \<open>The tests of the file whose name the condition admits.\<close>

fun run_tests :: "(string \<Rightarrow> bool) \<Rightarrow> launch_env \<Rightarrow> CmdLineParams \<Rightarrow> RealTimeValues \<Rightarrow> BenchMarkTestInfo list \<Rightarrow> bool \<Rightarrow> launch_state \<Rightarrow>
    (bool \<times> bool \<times> launch_state) run" where
  "run_tests want e cl rtValues [] verdict st = Some (Inr (False, verdict, st))"
| "run_tests want e cl rtValues (bmTest # ts) verdict st = (if want (testName bmTest) \<and> \<not> configTest bmTest
     then bind_run (run_and_count e cl rtValues bmTest verdict st) (\<lambda>(stop, verdict, st).
       if stop then Some (Inr (stop, verdict, st)) else run_tests want e cl rtValues ts verdict st)
     else run_tests want e cl rtValues ts verdict st)"

fun run_names :: "launch_env \<Rightarrow> CmdLineParams \<Rightarrow> RealTimeValues \<Rightarrow> BenchMarkTestInfo list \<Rightarrow> string list \<Rightarrow> bool \<Rightarrow> launch_state \<Rightarrow>
    (bool \<times> launch_state) run" where
  "run_names e cl rtValues ts [] verdict st = Some (Inr (verdict, st))"
| "run_names e cl rtValues ts (name # names) verdict st =
     bind_run (run_tests (\<lambda>n. name = n) e cl rtValues ts verdict st) (\<lambda>(stop, verdict, st).
       if stop then Some (Inr (verdict, st)) else run_names e cl rtValues ts names verdict st)"

definition mode_values :: "CmdLineParams \<Rightarrow> InputParams \<Rightarrow> RealTimeValues res" where
  "mode_values cl p = (case clRtMode cl of HARD_RT \<Rightarrow> Inr (hardValues p) | SOFT_RT \<Rightarrow> Inr (softValues p)
     | GUARANTEED_RT \<Rightarrow> getGuaranteedRealTimeValues p)"

definition launchTests :: "launch_env \<Rightarrow> CmdLineParams \<Rightarrow> InputParams \<Rightarrow> launch_state \<Rightarrow> (bool \<times> launch_state) run" where
  "launchTests e cl p st = bind_run (Some (mode_values cl p)) (\<lambda>rtValues.
     bind_run (run_config e cl rtValues (inTests p) st) (\<lambda>st.
     if clTestNames cl \<noteq> [] then run_names e cl rtValues (inTests p) (clTestNames cl) True st
     else bind_run (run_tests (\<lambda>_. True) e cl rtValues (inTests p) True st) (\<lambda>(_, verdict, st). Some (Inr (verdict, st)))))"

section \<open>The main function\<close>

text \<open>The operating system and the libraries, as the main function finds them.\<close>

record cpp_system =
  cs_mlock :: bool
  cs_names :: home_env
  cs_cwd :: "string option"
  cs_file :: "string \<Rightarrow> string option"
  cs_erange :: "string \<Rightarrow> bool"
  cs_launch :: launch_env
  cs_world :: world
  cs_report :: report_env

datatype cpp_outcome =
    Cpp_exit int
  | Cpp_reported int string ResultTable reports       \<comment> \<open>the exit code, the base directory, the scores and the files\<close>

definition base_dir :: "string \<Rightarrow> string" where
  "base_dir binName = (if CHR ''/'' \<in> set binName then rev (drop 1 (dropWhile (\<lambda>c. c \<noteq> CHR ''/'') (rev binName))) else [])"

definition no_reports :: reports where
  "no_reports = \<lparr>rp_dirs = [], rp_files = \<lambda>_. None\<rparr>"

text \<open>The verdict of the tests is not used.\<close>

definition cpp_main :: "(f64 \<Rightarrow> f64 \<Rightarrow> f64) \<Rightarrow> cpp_system \<Rightarrow> string \<Rightarrow> string list \<Rightarrow> cpp_outcome run" where
  "cpp_main pw sys binName args =
     (if \<not> cs_mlock sys then Some (Inr (Cpp_exit (-1)))
      else bind_run (Some (buildHomeDir (cs_names sys) (cs_cwd sys) '' '' binName)) (\<lambda>home.
      let rtmbBaseDir = base_dir binName in
      bind_run (Some (new_CmdLineParams home (cs_cwd sys) args)) (\<lambda>x. case x of Exits_with n \<Rightarrow> Some (Inr (Cpp_exit n)) | Goes_on cl \<Rightarrow>
      bind_run (Some (new_InputParams (cs_erange sys) (cs_file sys (c_str (clFileName cl))))) (\<lambda>x. case x of Exits_with n \<Rightarrow> Some (Inr (Cpp_exit n))
      | Goes_on p \<Rightarrow>
      bind_run (launchTests ((cs_launch sys)\<lparr>ln_home := home\<rparr>) cl p \<lparr>ls_table = new_ResultTable, ls_world = cs_world sys, ls_numberOfTests = 0\<rparr>)
        (\<lambda>(rc, st).
      let resultTable = computeScoreForSystem pw (ls_table st) (ls_numberOfTests st) in
      bind_run (Some (generateReport (cs_report sys) (clVerboseLevel cl) resultTable (clDirName cl) no_reports)) (\<lambda>rp.
        Some (Inr (Cpp_reported 0 rtmbBaseDir resultTable rp))))))))"

section \<open>The schedule\<close>

text \<open>The tests that run after the configuration tests, in their order, and a plain loop over them.\<close>

definition selected_tests :: "string list \<Rightarrow> BenchMarkTestInfo list \<Rightarrow> BenchMarkTestInfo list" where
  "selected_tests names ts = (if names \<noteq> [] then concat (map (\<lambda>n. filter (\<lambda>t. n = testName t \<and> \<not> configTest t) ts) names)
     else filter (\<lambda>t. \<not> configTest t) ts)"

definition run_one :: "launch_env \<Rightarrow> CmdLineParams \<Rightarrow> RealTimeValues \<Rightarrow> BenchMarkTestInfo \<Rightarrow> launch_state \<Rightarrow> (bool \<times> launch_state) run" where
  "run_one e cl rtValues t st = bind_run (runTest e cl rtValues t st) (\<lambda>(ok, t, st). let st = count_test st in
     bind_run (Some (if ok then printScores t (ls_table st) else Inr [])) (\<lambda>_. Some (Inr (ok, st))))"

fun run_all :: "launch_env \<Rightarrow> CmdLineParams \<Rightarrow> RealTimeValues \<Rightarrow> BenchMarkTestInfo list \<Rightarrow> launch_state \<Rightarrow> (bool list \<times> launch_state) run" where
  "run_all e cl rtValues [] st = Some (Inr ([], st))"
| "run_all e cl rtValues (t # ts) st = bind_run (run_one e cl rtValues t st) (\<lambda>(ok, st).
     bind_run (run_all e cl rtValues ts st) (\<lambda>(oks, st). Some (Inr (ok # oks, st))))"

lemma run_all_append:
  "run_all e cl rt (ts @ us) st = bind_run (run_all e cl rt ts st) (\<lambda>(oks, st).
     bind_run (run_all e cl rt us st) (\<lambda>(oks', st). Some (Inr (oks @ oks', st))))"
  by (induction ts arbitrary: st) (simp_all add: bind_run_assoc bind_run_return case_prod_unfold)

lemma run_and_count_one:
  assumes "1 < ln_cpus e"
  shows "run_and_count e cl rt t verdict st = bind_run (run_one e cl rt t st) (\<lambda>(ok, st). Some (Inr (False, verdict \<and> ok, st)))"
proof -
  have "applicableTest e t" for t using assms by (simp add: applicableTest_def)
  then show ?thesis
    by (auto simp: run_and_count_def run_one_def bind_run_assoc case_prod_unfold Let_def intro!: arg_cong2 [of _ _ _ _ bind_run])
qed

lemma run_tests_all:
  assumes "1 < ln_cpus e"
  shows "run_tests want e cl rt ts verdict st = bind_run (run_all e cl rt (filter (\<lambda>t. want (testName t) \<and> \<not> configTest t) ts) st)
    (\<lambda>(oks, st). Some (Inr (False, verdict \<and> False \<notin> set oks, st)))"
  by (induction ts arbitrary: verdict st)
    (auto simp: run_and_count_one [OF assms] bind_run_assoc case_prod_unfold intro!: bind_run_cong)

lemma run_names_all:
  assumes "1 < ln_cpus e"
  shows "run_names e cl rt ts names verdict st =
    bind_run (run_all e cl rt (concat (map (\<lambda>n. filter (\<lambda>t. n = testName t \<and> \<not> configTest t) ts) names)) st)
      (\<lambda>(oks, st). Some (Inr (verdict \<and> False \<notin> set oks, st)))"
  by (induction names arbitrary: verdict st)
    (auto simp: run_tests_all [OF assms] run_all_append bind_run_assoc case_prod_unfold intro!: bind_run_cong)

lemma run_one_count: "run_one e cl rt t st = Some (Inr (ok, st')) \<Longrightarrow> ls_numberOfTests st' = ls_numberOfTests st + 1"
  by (auto simp: run_one_def bind_run_Inr_iff runTest_def count_test_def Let_def split: library.splits if_splits)

lemma run_all_count:
  "run_all e cl rt ts st = Some (Inr (oks, st')) \<Longrightarrow> length oks = length ts \<and> ls_numberOfTests st' = ls_numberOfTests st + int (length ts)"
  by (induction ts arbitrary: st oks) (fastforce simp: bind_run_Inr_iff dest: run_one_count)+

lemma run_config_count:
  "run_config e cl rt ts st = Some (Inr st') \<Longrightarrow> ls_numberOfTests st' = ls_numberOfTests st + int (length (filter configTest ts))"
proof (induction ts arbitrary: st)
  case (Cons t ts)
  show ?case
  proof (cases "configTest t")
    case True
    with Cons.prems obtain ok t' st1 where "runTest e cl rt t st = Some (Inr (ok, t', st1))" "run_config e cl rt ts (count_test st1) = Some (Inr st')"
      by (auto simp: bind_run_Inr_iff Let_def split: if_splits)
    moreover from this have "ls_numberOfTests st1 = ls_numberOfTests st"
      by (auto simp: bind_run_Inr_iff runTest_def Let_def split: library.splits if_splits)
    ultimately show ?thesis using Cons.IH True by (simp add: count_test_def)
  qed (use Cons in simp)
qed simp

section \<open>Properties\<close>

text \<open>
  C7: On a machine with several processors the C++ program runs the configuration tests and then exactly the selected tests, each
  as often as it is selected, whether earlier ones failed or not; it returns \<^verbatim>\<open>true\<close> when all of the selected ones passed, and
  every test that ran counts once towards the score of the system.
\<close>

theorem launch_runs_selected:
  assumes "1 < ln_cpus e"
  shows "launchTests e cl p st = bind_run (Some (mode_values cl p)) (\<lambda>rt. bind_run (run_config e cl rt (inTests p) st) (\<lambda>st.
      bind_run (run_all e cl rt (selected_tests (clTestNames cl) (inTests p)) st) (\<lambda>(oks, st). Some (Inr (False \<notin> set oks, st)))))
    \<and> (\<forall>rc st'. launchTests e cl p st = Some (Inr (rc, st')) \<longrightarrow> ls_numberOfTests st' = ls_numberOfTests st
      + int (length (filter configTest (inTests p))) + int (length (selected_tests (clTestNames cl) (inTests p))))"
proof -
  have eq: "launchTests e cl p st = bind_run (Some (mode_values cl p)) (\<lambda>rt. bind_run (run_config e cl rt (inTests p) st) (\<lambda>st.
      bind_run (run_all e cl rt (selected_tests (clTestNames cl) (inTests p)) st) (\<lambda>(oks, st). Some (Inr (False \<notin> set oks, st)))))"
    by (auto simp: launchTests_def selected_tests_def run_tests_all [OF assms] run_names_all [OF assms] bind_run_assoc case_prod_unfold
        intro!: bind_run_cong)
  show ?thesis unfolding eq by (auto simp: bind_run_Inr_iff dest!: run_config_count run_all_count)
qed

definition two_cpus :: launch_env where
  "two_cpus = \<lparr>ln_lib = \<lambda>_ _. Function (\<lambda>cl rt env. Some (Inr (testName (ce_info env) \<noteq> ''int_rate_test'', env))), ln_sched = True, ln_spawn = True,
     ln_cpus = 2, ln_home = ''/opt/rtmb''\<rparr>"

definition start_state :: launch_state where
  "start_state = \<lparr>ls_table = new_ResultTable, ls_world = steady_world, ls_numberOfTests = 0\<rparr>"

definition two_tests :: InputParams where
  "two_tests = \<lparr>inTests = [new_BenchMarkTestInfo\<lparr>testName := ''clock_config'', configTest := True\<rparr>,
     new_BenchMarkTestInfo\<lparr>testName := ''int_rate_test''\<rparr>, new_BenchMarkTestInfo\<lparr>testName := ''time_accuracy''\<rparr>],
     softValues = tenth_values, hardValues = tenth_values, grtValues = None\<rparr>"

lemma launch_two_tests:
  "launchTests two_cpus quick_params two_tests start_state = Some (Inr (False, start_state\<lparr>ls_numberOfTests := 3\<rparr>))"
  by (simp add: launchTests_def mode_values_def two_tests_def quick_params_def runTest_def executeTest_def two_cpus_def start_state_def
      new_BenchMarkTestInfo_def run_and_count_def printScores_def getFinalTestResultsByTestInfo_def new_ResultTable_def applicableTest_def
      count_test_def Let_def)

theorem launch_runs_selected_witness:
  "launchTests two_cpus quick_params two_tests start_state = bind_run (Some (mode_values quick_params two_tests)) (\<lambda>rt.
      bind_run (run_config two_cpus quick_params rt (inTests two_tests) start_state) (\<lambda>st.
      bind_run (run_all two_cpus quick_params rt (selected_tests (clTestNames quick_params) (inTests two_tests)) st)
        (\<lambda>(oks, st). Some (Inr (False \<notin> set oks, st)))))
    \<and> ls_numberOfTests (start_state\<lparr>ls_numberOfTests := 3\<rparr>) = ls_numberOfTests start_state
      + int (length (filter configTest (inTests two_tests))) + int (length (selected_tests (clTestNames quick_params) (inTests two_tests)))"
proof -
  have "1 < ln_cpus two_cpus" by (simp add: two_cpus_def)
  from launch_runs_selected [OF this, of quick_params two_tests start_state] launch_two_tests show ?thesis by blast
qed

text \<open>The two loops over names and tests as one loop over the selected tests, on any machine.\<close>

lemma run_tests_append:
  "run_tests want e cl rt (ts @ us) verdict st = bind_run (run_tests want e cl rt ts verdict st) (\<lambda>(stop, verdict, st).
     if stop then Some (Inr (stop, verdict, st)) else run_tests want e cl rt us verdict st)"
  by (induction ts arbitrary: verdict st) (auto simp: bind_run_assoc case_prod_unfold intro!: bind_run_cong)

lemma run_tests_filter:
  "run_tests want e cl rt ts verdict st = run_tests (\<lambda>_. True) e cl rt (filter (\<lambda>t. want (testName t) \<and> \<not> configTest t) ts) verdict st"
  by (induction ts arbitrary: verdict st) (auto simp: case_prod_unfold intro!: bind_run_cong)

lemma run_names_flat:
  "run_names e cl rt ts names verdict st = bind_run (run_tests (\<lambda>_. True) e cl rt
     (concat (map (\<lambda>n. filter (\<lambda>t. n = testName t \<and> \<not> configTest t) ts) names)) verdict st) (\<lambda>(_, verdict, st). Some (Inr (verdict, st)))"
  by (induction names arbitrary: verdict st)
    (auto simp: run_tests_append run_tests_filter [of _ e cl rt ts] bind_run_assoc case_prod_unfold intro!: bind_run_cong)

lemma launchTests_flat:
  "launchTests e cl p st = bind_run (Some (mode_values cl p)) (\<lambda>rt. bind_run (run_config e cl rt (inTests p) st) (\<lambda>st.
     bind_run (run_tests (\<lambda>_. True) e cl rt (selected_tests (clTestNames cl) (inTests p)) True st) (\<lambda>(_, verdict, st). Some (Inr (verdict, st)))))"
  by (simp add: launchTests_def selected_tests_def run_names_flat run_tests_filter [of _ e cl _ "inTests p"])

lemma selected_not_config: "t \<in> set (selected_tests names ts) \<Longrightarrow> \<not> configTest t"
  by (auto simp: selected_tests_def split: if_splits)

lemma run_tests_prefix:
  assumes "\<forall>t \<in> set ts. \<not> configTest t" and "run_all e cl rt ts st = Some (Inr (oks, st'))" and "False \<notin> set oks"
  shows "run_tests (\<lambda>_. True) e cl rt (ts @ us) verdict st = run_tests (\<lambda>_. True) e cl rt us verdict st'"
  using assms
proof (induction ts arbitrary: st oks)
  case (Cons t ts)
  then obtain ok st1 oks1 where 1: "run_one e cl rt t st = Some (Inr (ok, st1))" "run_all e cl rt ts st1 = Some (Inr (oks1, st'))" "oks = ok # oks1"
    by (auto simp: bind_run_Inr_iff)
  then have ok using Cons.prems(3) by simp
  with 1(1) obtain t' st2 ls where "runTest e cl rt t st = Some (Inr (True, t', st2))" "printScores t' (ls_table (count_test st2)) = Inr ls" "st1 = count_test st2"
    by (auto simp: run_one_def bind_run_Inr_iff Let_def split: if_splits)
  then have "run_and_count e cl rt t verdict st = Some (Inr (False, verdict, st1))"
    by (simp add: run_and_count_def Let_def)
  then show ?case using Cons 1 by auto
qed simp



text \<open>
  C40: From a readable input file of well-formed tests and percentages the C++ program launches exactly these tests, in the order of the
  file, with the values of the real-time modes that the file gives and the options of the command line, and reports their scores with the exit code 0 whatever their verdict. In the guaranteed mode it
  reads an indeterminate pointer before any test runs.
\<close>

theorem cpp_main_runs_file:
  assumes "cs_mlock sys" and "buildHomeDir (cs_names sys) (cs_cwd sys) '' '' argv0 = Inr home" and "setDefaults home (cs_cwd sys) = Inr plain"
    and "\<forall>opt \<in> set opts. option_ok opt" and "cl = fold applyOption opts plain"
    and "\<forall>t \<in> set ts. described t" and "\<forall>e \<in> set es. value_ok e" and "\<forall>n < 100. \<not> cs_erange sys (dec n)"
    and "cs_file sys (c_str (clFileName cl)) = Some (file_of (concat (map render_test ts) @ map render_exp es))"
    and "p = fold (\<lambda>(k, n). set_value k n) es ((pr_params new_parser)\<lparr>inTests := map info_of_entry (map entry_of ts)\<rparr>)"
  shows "inTests p = map info_of_entry (map entry_of ts) \<and> cpp_main pw sys argv0 (concat (map render_option opts)) =
    (if clRtMode cl = GUARANTEED_RT then Some (Inl Uninitialised)
     else bind_run (launchTests ((cs_launch sys)\<lparr>ln_home := home\<rparr>) cl p
         \<lparr>ls_table = new_ResultTable, ls_world = cs_world sys, ls_numberOfTests = 0\<rparr>) (\<lambda>(rc, st).
       let resultTable = computeScoreForSystem pw (ls_table st) (ls_numberOfTests st) in
       bind_run (Some (generateReport (cs_report sys) (clVerboseLevel cl) resultTable (clDirName cl) no_reports)) (\<lambda>rp.
         Some (Inr (Cpp_reported 0 (base_dir argv0) resultTable rp)))))"
proof -
  have p: "new_InputParams (cs_erange sys) (cs_file sys (c_str (clFileName cl))) = Inr (Goes_on p)"
    unfolding assms(9,10) by (rule read_rendered [OF assms(6-8)])
  have cl: "new_CmdLineParams home (cs_cwd sys) (concat (map render_option opts)) = Inr (Goes_on cl)"
    using parseArgs_options [OF assms(4), of plain True "[]"] by (simp add: new_CmdLineParams_def assms(3,5))
  have "launchTests e cl p st = Some (Inl Uninitialised)" if "clRtMode cl = GUARANTEED_RT" for e st
    using guaranteed_unset [OF p] that by (simp add: launchTests_def mode_values_def)
  moreover have "inTests p = map info_of_entry (map entry_of ts)" by (simp add: assms(10) set_values_tests)
  ultimately show ?thesis using assms(1,2) p cl by (simp add: cpp_main_def)
qed

definition found_in_path :: cpp_system where
  "found_in_path = \<lparr>cs_mlock = True, cs_names = installed, cs_cwd = Some ''/root'',
     cs_file = \<lambda>f. if f = ''/opt/rtmb/config/input.txt'' then Some (file_of (concat (map render_test [sample_spec]) @ map render_exp [(SRT_MULTIPLIER, 1)])) else None,
     cs_erange = \<lambda>s. 300 < length s, cs_launch = two_cpus, cs_world = steady_world, cs_report = new_year_env\<rparr>"

definition found_params :: CmdLineParams where
  "found_params = \<lparr>clVerbose = False, clVerboseLevel = 0, clRtMode = SOFT_RT, clFileName = ''/opt/rtmb/config/input.txt'', clDirName = ''/root'',
     clBinDir = ''/opt/rtmb/bin/'', clQuickRun = True, clTestNames = []\<rparr>"

lemma found_home: "buildHomeDir installed (Some ''/root'') '' '' ''rtmb'' = Inr ''/opt/rtmb''"
  by (simp add: buildHomeDir_def find_program_def installed_def path_elements.simps dir_copy_def resolveSymLink_def dirname_def rstrip_def Let_def)

definition found_file :: InputParams where
  "found_file = set_value SRT_MULTIPLIER 1 ((pr_params new_parser)\<lparr>inTests := map info_of_entry (map entry_of [sample_spec])\<rparr>)"

theorem cpp_main_runs_file_witness:
  "inTests found_file = map info_of_entry (map entry_of [sample_spec]) \<and> cpp_main (\<lambda>x y. x) found_in_path ''rtmb'' (concat (map render_option [Quick])) =
    (if clRtMode found_params = GUARANTEED_RT then Some (Inl Uninitialised)
     else bind_run (launchTests ((cs_launch found_in_path)\<lparr>ln_home := ''/opt/rtmb''\<rparr>) found_params found_file
         \<lparr>ls_table = new_ResultTable, ls_world = cs_world found_in_path, ls_numberOfTests = 0\<rparr>) (\<lambda>(rc, st).
       let resultTable = computeScoreForSystem (\<lambda>x y. x) (ls_table st) (ls_numberOfTests st) in
       bind_run (Some (generateReport (cs_report found_in_path) (clVerboseLevel found_params) resultTable (clDirName found_params) no_reports)) (\<lambda>rp.
         Some (Inr (Cpp_reported 0 (base_dir ''rtmb'') resultTable rp)))))"
proof (rule cpp_main_runs_file [where es = "[(SRT_MULTIPLIER, 1)]" and plain = "found_params\<lparr>clQuickRun := False\<rparr>"])
  show "buildHomeDir (cs_names found_in_path) (cs_cwd found_in_path) '' '' ''rtmb'' = Inr ''/opt/rtmb''" by (simp add: found_in_path_def found_home)
qed (simp_all add: found_in_path_def found_params_def setDefaults_def described_def spec_ok_def word_ok_def sample_spec_def value_ok_def c_str_def short_decimal found_file_def)

end
