(* ===== verification/Spec2Isabelle.thy ===== *)
theory Spec2Isabelle
  imports Whole_Program Cpp_Tests Cpp_Dispatch Cpp_Periodic Cpp_Disk Cpp_Launch
begin

text \<open>
  RTMB is a benchmark for real-time operating systems.  It is a harness that reads a file of tests, loads each test as a
  shared library, runs it in a thread and collects its scores in a table, and a set of tests that time some
  work, judge whether the times agree, and repeat the work with a larger amount when they do not.  There is an
  implementation in C (\<^verbatim>\<open>src/rtmb_c/src\<close>, the paths below are relative to it) and one in C++ (\<^verbatim>\<open>src/rtmb_cpp/src\<close>).
  This development models the harness, the library of results and scores, and all tests of the C
  implementation; of the C++ one the harness, the results and scores, and eleven of its fifteen tests.  It proves that they do what their
  callers rely on, and relates the two implementations where both are to do the same.

  \<^bold>\<open>The program and the theories.\<close>

  \<^item> Foundations.  Prelude: the faults of a C expression (\<open>fault\<close>), computations that may fault (\<open>'a res\<close>),
    checked arithmetic on \<^verbatim>\<open>int\<close> and \<^verbatim>\<open>long long\<close> (\<open>chk_int\<close>, \<open>chk_ll\<close>), array accesses and counted loops.
    IEEE_Float: \<^verbatim>\<open>double\<close> and \<^verbatim>\<open>float\<close> with round to nearest even.  C_Strings: the functions of
    \<^verbatim>\<open>string.h\<close>, \<^verbatim>\<open>stdlib.h\<close> and \<^verbatim>\<open>stdio.h\<close> on strings.  World: what the tests see of the operating system.
  \<^item> The harness (\<^verbatim>\<open>harness/\<close>, \<^verbatim>\<open>util/RTMB_print.c\<close>).  Test_Types: options, descriptions of tests,
    percentages.  Input_File: \<^verbatim>\<open>RTMB_parse_in_file.c\<close>.  Cmd_Line: \<^verbatim>\<open>RTMB_rd_cmd_line.c\<close> and what is printed
    of the options.  Home_Dir: \<^verbatim>\<open>build_home_dir\<close> of \<^verbatim>\<open>RTMB.c\<close>.  Launch: \<^verbatim>\<open>RTMB_launch_tests.c\<close> and the main
    function.  Reporter: \<^verbatim>\<open>reporter/reporter.c\<close>.  Whole_Program: the main function with the tests it loads and
    the reports it writes.
  \<^item> Results (\<^verbatim>\<open>testcase/util/result_mgmt/\<close>).  Result_Mgmt: recording of times, their statistics and
    the pass criteria.  Vector: the linked list of \<^verbatim>\<open>vector.c\<close>, with its nodes on a heap.  Scores: the
    scores of a test and of the system, and the table of results.
  \<^item> Helpers of the tests (\<^verbatim>\<open>testcase/util/\<close>).  Time_Mgmt: \<^verbatim>\<open>time_mgmt.c\<close>.  Math_Opern: the timed work.
    Thread_Oprn: scheduling attributes of threads.  Timed_Run: the timed iteration and the retry loop
    that the tests share.
  \<^item> Configuration tests (\<^verbatim>\<open>testcase/config_test/\<close>).  Config_Tests: integer and float rate, memory
    cache, clock and timer.  Disk_Io: writing and reading of a file.  Net_Io: \<^verbatim>\<open>net_io_config.c\<close>, a client
    and an echo server over a connection.
  \<^item> Tests of real-time behaviour.  Time_Accuracy, Periodic_Event, Lock_Consistency, Dispatch_Threads
    with Dispatch_Progress and Event_Dispatch, Multi_Thread with Multi_Thread_Result, and
    Thread_Priority: the tests in the directories of these names.  Barrier and Barrier_Progress: the
    counter, mutexes and condition variables with which the last two start their threads together.
  \<^item> The C++ implementation, one theory for each group of files.  Cpp_Results: \<^verbatim>\<open>testcase/util/TestResults.cpp\<close>.
    Cpp_Scores: \<^verbatim>\<open>TestScore.cpp\<close>, \<^verbatim>\<open>FinalBenchMarkTestResult.cpp\<close>, \<^verbatim>\<open>TestResultUtils.cpp\<close> and \<^verbatim>\<open>harness/ResultTable.cpp\<close> with the order
    of \<^verbatim>\<open>BenchMarkTestInfo.cpp\<close>.  Cpp_Params: \<^verbatim>\<open>CmdLineParams.cpp\<close>, \<^verbatim>\<open>InputParams.cpp\<close>, \<^verbatim>\<open>HomeDirBuilder.cpp\<close>.  Cpp_Config,
    Cpp_Timer and Cpp_Disk: the tests in \<^verbatim>\<open>testcase/config_tests\<close> but that of the network, with the timed work they share.
    Cpp_Tests: time accuracy and lock consistency.  Cpp_Dispatch: \<^verbatim>\<open>event_dispatch.cpp\<close> and \<^verbatim>\<open>signal_notifier.cpp\<close>.
    Cpp_Periodic: \<^verbatim>\<open>PeriodicEventTest.cpp\<close>.  Cpp_Reporter: \<^verbatim>\<open>reporter/Reporter.cpp\<close>.  Cpp_Launch: \<^verbatim>\<open>harness/RTMB.cpp\<close>.
    Names are those of the source; what C and C++ share (numbers, strings, the clock, the file) is modelled once.

  \<^bold>\<open>How state and operations correspond.\<close>  A test is a function of type \<open>test_fn\<close>: of the command line, its
  description and the environment \<open>tenv\<close> with the result table, the percentages that all tests share and
  the world; it gives a return code and the environment afterwards.  A computation of type \<open>'a run\<close>
  is \<open>None\<close> when it never returns, \<open>Some (Inl e)\<close> when it runs into fault \<open>e\<close> (undefined behaviour, a failed
  assertion, \<^verbatim>\<open>abort\<close>), and \<open>Some (Inr x)\<close> when it returns \<open>x\<close>.  Structures are records with the fields of the
  source, enumerations are datatypes, integers are HOL integers whose operations are checked for
  overflow at the width of the source, and floating-point values are exact.  Threads that
  interact are state machines with one step for each access to shared state; a schedule that the
  environment gives chooses who runs.  What the environment does is always an argument: readings of
  the clock, interruptions of \<^verbatim>\<open>nanosleep\<close>, which library calls succeed (\<open>world\<close>, \<open>sched_env\<close>,
  \<open>timer_env\<close>, \<open>mt_env\<close>, \<open>tp_env\<close>, \<open>net_env\<close>, \<open>home_env\<close>, \<open>report_env\<close>), \<^verbatim>\<open>rand_r\<close>, \<^verbatim>\<open>pow\<close> and the loader of libraries.

  \<^bold>\<open>What the lemmas show.\<close>

  \<^item> Input and options: a rendered file is parsed to the tests it describes, comments have no influence,
    errors are reported where the code notices them and are faults where it does not.
  \<^item> Launching: the nested loops over tests and names run a flat schedule, configuration tests
    first; the program runs exactly the schedule of its file and reports on the tests that have run.  The locale \<open>test_runner\<close> states what the
    loops need of a test.
  \<^item> Results and scores: a full result holds its times and their exact minimum, maximum, mean, median and
    deviation; the verdict counts conforming times; scores lie in their ranges, the sort of medians
    is a sort, and what one test enters is what a later test reads.
  \<^item> Retry loop: the locales \<open>quantum_body\<close>, \<open>timed_body\<close> and \<open>timed_test\<close> state the contract between a test and the
    loop; from it follows that the loop ends within the threshold, and each test interprets the
    locale with its own body.  \<open>rate_test\<close>, \<open>any_quantum_test\<close> and \<open>any_rate_test\<close> extend it.
  \<^item> Threads: invariants over all interleavings (event dispatch, barrier, the two ends of the
    connection), deadlocks and lost signals where the code has them, and measures that fall under fair
    schedules, from which follows that the tests return.
  \<^item> The C++ implementation: recording, the options and the input file agree with those of the C implementation; the
    map of results refines a finite map although its order is none; the locales \<open>cpp_body\<close> and \<open>cpp_config\<close> are the
    contract between a configuration test and its loop, interpreted by the integer, cache, lock, disk and event dispatch tests; the threads
    that signal each other are abstracted to those of the C implementation, which carries their protocol and measure over; the launcher runs a flat list of tests on
    several processors, and what it does on one, with a timer whose first judged run passes, with a long directory and in the
    guaranteed mode is not what it means to do.
  \<^item> Whole_Program: the tests run by the launcher, and the clock test calibrating the integer test.

  \<^bold>\<open>Bounds and fuel.\<close>  No definition has fuel: loops that may not end are \<^verbatim>\<open>partial_function (option)\<close> and
  the theorems show that they return.  \<open>clock_steps lo b n\<close> asks for \<open>2 n\<close> readings of a clock that never fails, \<open>n\<close> being
  the threshold times the iterations, with elapsed times between \<open>lo\<close> and \<open>b\<close>; \<open>run_ok\<close> bounds iterations times the
  square of \<open>b\<close> by the range of \<^verbatim>\<open>long long\<close>, since the deviation sums squares.  Thresholds are at most 15 for
  the integer test (its work starts at 100 and is safe up to 2,600,000), 21 for the network
  (512 bytes, doubled once more by the server), 29 or 30 where the work starts at 2 or 1; larger ones overflow.  That of the timer test is at most 20, its sleep
  starting at 2000 ns, and its search takes at most 32 runs.  Fairness is that every
  thread is scheduled again and again.  Thread numbers are below 1,000,000, so that their names fit.

  \<^bold>\<open>Not modelled.\<close>  Messages and their formatting, the freeing of memory at the end of a test, and signals that
  end the program are left out.  Memory for results is always available; a request with a negative size
  aborts.  The tests see one clock each; how the time that a test takes depends on the machine is not part of the program.  In the
  multi thread and thread priority tests the threads share nothing after the barrier but their own
  results, so they are run one after another there; in which order the latter record is an argument.  Of the C++
  implementation the network, multi thread, multi CPU and thread priority tests,
  with the matrix kernels and \<^verbatim>\<open>PthreadWrapper::setSchedParam\<close> that only they use, are left out; so are the Java tests.
\<close>

end
